(* ===== verification/Prelude.thy ===== *)
theory Prelude
  imports Main "HOL-Library.AList" "HOL-Library.Char_ord" "HOL-Library.List_Lexorder" "HOL-Library.Sublist"
begin

text \<open>
  What every component of the development shares: the representation of Python strings,
  dictionaries and exceptions, the string operations the sources use, and the generic lemmas
  about them.

  A Python \<open>str\<close> is a \<^typ>\<open>string\<close>: the list of the bytes of its UTF-8 encoding. Code point
  order and UTF-8 byte order agree, so sorting is the same on both; every character the sources
  test for is ASCII, or is matched as its byte sequence (U+2028 and U+2029 in the JSON encoder).
  A \<open>dict\<close> is an association list in insertion order, updated by \<^const>\<open>AList.update\<close> (an
  existing key keeps its place, a new one goes to the end). A raised exception is an \<open>Inl\<close>.
\<close>

section \<open>Collections of facts\<close>

named_theorems key_simps \<open>injectivity and distinctness of composed keys\<close>
named_theorems step_simps \<open>evaluation of one step of a component\<close>

section \<open>Exceptions\<close>

text \<open>The exception classes the modelled code raises or catches, with their message.\<close>

datatype exc =
    ValueError string
  | RuntimeError string
  | KeyError string
  | TypeError string
  | IndexError
  | OSError string
  | NotImplementedError string
  | DriverStoppedError
  | SchemaValidationError string
  | ProgrammingError string
  | AssertionError
  | AttributeError string
  | ZeroDivisionError

type_synonym 'a res = "exc + 'a"

fun exc_str :: "exc \<Rightarrow> string" where
  "exc_str (ValueError m) = m"
| "exc_str (RuntimeError m) = m"
| "exc_str (KeyError m) = CHR 0x27 # m @ [CHR 0x27]"
| "exc_str (TypeError m) = m"
| "exc_str IndexError = ''list index out of range''"
| "exc_str (OSError m) = m"
| "exc_str (NotImplementedError m) = m"
| "exc_str DriverStoppedError = ''driver stopped''"
| "exc_str (SchemaValidationError m) = m"
| "exc_str (ProgrammingError m) = m"
| "exc_str AssertionError = []"
| "exc_str (AttributeError m) = m"
| "exc_str ZeroDivisionError = ''integer modulo by zero''"

text \<open>Sequencing of fallible, state-passing calls: an exception keeps the state it was raised in.\<close>

definition andthen :: "'e + 'a \<Rightarrow> ('a \<Rightarrow> 'e + 'b) \<Rightarrow> 'e + 'b" where
  "andthen r f = (case r of Inl e \<Rightarrow> Inl e | Inr x \<Rightarrow> f x)"

definition andthen_st :: "('e + 'a) \<times> 's \<Rightarrow> ('a \<Rightarrow> 's \<Rightarrow> ('e + 'b) \<times> 's) \<Rightarrow> ('e + 'b) \<times> 's" where
  "andthen_st r f = (case r of (Inl e, s) \<Rightarrow> (Inl e, s) | (Inr x, s) \<Rightarrow> f x s)"

definition map_exc :: "(exc \<Rightarrow> exc) \<Rightarrow> 'a res \<Rightarrow> 'a res" where
  "map_exc f r = (case r of Inl e \<Rightarrow> Inl (f e) | Inr x \<Rightarrow> Inr x)"

fun mapM :: "('a \<Rightarrow> 'e + 'b) \<Rightarrow> 'a list \<Rightarrow> 'e + 'b list" where
  "mapM f [] = Inr []"
| "mapM f (x # xs) = andthen (f x) (\<lambda>y. andthen (mapM f xs) (\<lambda>ys. Inr (y # ys)))"

lemma andthen_simps [simp]:
  "andthen (Inl e) f = Inl e"
  "andthen (Inr x) f = f x"
  by (simp_all add: andthen_def)

lemma andthen_st_simps [simp]:
  "andthen_st (Inl e, s) f = (Inl e, s)"
  "andthen_st (Inr x, s) g = g x s"
  by (simp_all add: andthen_st_def)

lemma andthen_st_cases:
  assumes "andthen_st p f = (r, s')"
  obtains (err) e where "p = (Inl e, s')" "r = Inl e" | (ok) x s where "p = (Inr x, s)" "f x s = (r, s')"
  using assms by (cases p; cases "fst p") auto

lemma andthen_Inr_conv: "andthen r f = Inr y \<longleftrightarrow> (\<exists>x. r = Inr x \<and> f x = Inr y)"
  by (cases r) auto

lemma map_exc_simps [simp]:
  "map_exc f (Inl e) = Inl (f e)"
  "map_exc f (Inr x) = Inr x"
  by (simp_all add: map_exc_def)

lemma mapM_length: "mapM f xs = Inr ys \<Longrightarrow> length ys = length xs"
  by (induction xs arbitrary: ys) (auto simp: andthen_Inr_conv)

lemma mapM_Inr: "mapM (\<lambda>x. Inr (g x)) xs = Inr (map g xs)"
  by (induction xs) auto

lemma mapM_cong_Inr: "(\<And>x. x \<in> set xs \<Longrightarrow> f x = Inr (g x)) \<Longrightarrow> mapM f xs = Inr (map g xs)"
  by (induction xs) auto

section \<open>Strings\<close>

abbreviation NUL :: char where "NUL \<equiv> CHR 0x00"
abbreviation TAB :: char where "TAB \<equiv> CHR 0x09"
abbreviation NL :: char where "NL \<equiv> CHR 0x0A"
abbreviation CR :: char where "CR \<equiv> CHR 0x0D"
abbreviation SP :: char where "SP \<equiv> CHR 0x20"
abbreviation DQ :: char where "DQ \<equiv> CHR 0x22"
abbreviation SQ :: char where "SQ \<equiv> CHR 0x27"
abbreviation BS :: char where "BS \<equiv> CHR 0x5C"

text \<open>\<open>sep.join(parts)\<close>.\<close>

fun join :: "string \<Rightarrow> string list \<Rightarrow> string" where
  "join sep [] = []"
| "join sep [x] = x"
| "join sep (x # y # xs) = x @ sep @ join sep (y # xs)"

text \<open>\<open>str(n)\<close> of an integer.\<close>

definition digit :: "nat \<Rightarrow> char" where
  "digit d = char_of (48 + d)"

fun str_nat :: "nat \<Rightarrow> string" where
  "str_nat n = (if n < 10 then [digit n] else str_nat (n div 10) @ [digit (n mod 10)])"

declare str_nat.simps [simp del]

definition str_int :: "int \<Rightarrow> string" where
  "str_int i = (if i < 0 then CHR ''-'' # str_nat (nat (- i)) else str_nat (nat i))"

text \<open>\<open>c.lower()\<close> on ASCII letters.\<close>

definition lower_char :: "char \<Rightarrow> char" where
  "lower_char c = (if CHR ''A'' \<le> c \<and> c \<le> CHR ''Z'' then char_of (of_char c + 32 :: nat) else c)"

definition lower :: "string \<Rightarrow> string" where
  "lower s = map lower_char s"

definition is_digit :: "char \<Rightarrow> bool" where
  "is_digit c \<longleftrightarrow> CHR ''0'' \<le> c \<and> c \<le> CHR ''9''"

definition is_lower :: "char \<Rightarrow> bool" where
  "is_lower c \<longleftrightarrow> CHR ''a'' \<le> c \<and> c \<le> CHR ''z''"

definition is_upper :: "char \<Rightarrow> bool" where
  "is_upper c \<longleftrightarrow> CHR ''A'' \<le> c \<and> c \<le> CHR ''Z''"

definition is_alpha :: "char \<Rightarrow> bool" where
  "is_alpha c \<longleftrightarrow> is_lower c \<or> is_upper c"

text \<open>
  \<open>s.partition(c)\<close> on a one-character separator: the part before the first \<open>c\<close>, whether there is
  one, and the part after it; \<open>s.split(c)\<close>; \<open>s.rpartition(c)\<close> likewise from the right.
\<close>

fun partition_at :: "char \<Rightarrow> string \<Rightarrow> string \<times> bool \<times> string" where
  "partition_at c [] = ([], False, [])"
| "partition_at c (x # xs) =
     (if x = c then ([], True, xs)
      else case partition_at c xs of (a, f, b) \<Rightarrow> (x # a, f, b))"

definition rpartition_at :: "char \<Rightarrow> string \<Rightarrow> string \<times> bool \<times> string" where
  "rpartition_at c s =
     (case partition_at c (rev s) of (a, f, b) \<Rightarrow> if f then (rev b, True, rev a) else ([], False, s))"

fun split_on :: "char \<Rightarrow> string \<Rightarrow> string list" where
  "split_on c [] = [[]]"
| "split_on c (x # xs) =
     (if x = c then [] # split_on c xs
      else case split_on c xs of [] \<Rightarrow> [[x]] | y # ys \<Rightarrow> (x # y) # ys)"

lemma partition_at_concat:
  "partition_at c s = (a, f, b) \<Longrightarrow> s = a @ (if f then c # b else []) \<and> c \<notin> set a \<and> (\<not> f \<longrightarrow> b = [])"
  by (induction s arbitrary: a f b) (auto split: if_splits prod.splits)

lemma partition_at_append [simp]:
  "c \<notin> set a \<Longrightarrow> partition_at c (a @ c # b) = (a, True, b)"
  by (induction a) auto

lemma partition_at_none [simp]: "c \<notin> set s \<Longrightarrow> partition_at c s = (s, False, [])"
  by (induction s) auto

lemma rpartition_at_append [simp]:
  "c \<notin> set b \<Longrightarrow> rpartition_at c (a @ c # b) = (a, True, b)"
  by (simp add: rpartition_at_def)

lemma rpartition_at_none [simp]: "c \<notin> set s \<Longrightarrow> rpartition_at c s = ([], False, s)"
  by (simp add: rpartition_at_def)

lemma split_on_ne [simp]: "split_on c s \<noteq> []"
  by (induction s) (auto split: list.splits)

lemma join_Cons: "xs \<noteq> [] \<Longrightarrow> join sep (x # xs) = x @ sep @ join sep xs"
  by (cases xs) auto

lemma join_split_on: "join [c] (split_on c s) = s"
proof (induction s)
  case (Cons x s)
  show ?case
  proof (cases "x = c")
    case True
    with Cons show ?thesis by (simp add: join_Cons)
  next
    case False
    obtain y ys where "split_on c s = y # ys" by (meson neq_Nil_conv split_on_ne)
    with Cons False show ?thesis by (cases ys) auto
  qed
qed simp

lemma char_of_eqI: "of_char c = (n :: nat) \<Longrightarrow> char_of n = c"
  by auto

subsection \<open>Decimal numerals\<close>

lemma digit_is_digit: "d < 10 \<Longrightarrow> is_digit (digit d)"
  by (simp add: is_digit_def digit_def less_eq_char_def)

lemma of_char_digit: "d < 10 \<Longrightarrow> of_char (digit d) = (48 + d :: nat)"
  by (simp add: digit_def)

lemma str_nat_digits: "list_all is_digit (str_nat n)"
proof (induction n rule: str_nat.induct)
  case (1 n)
  show ?case
    using 1 by (cases "n < 10") (simp_all add: str_nat.simps[of n] digit_is_digit)
qed

lemma str_nat_ne [simp]: "str_nat n \<noteq> []"
  by (simp add: str_nat.simps[of n])

text \<open>Reading a numeral back: \<open>int(s)\<close> on ASCII digits.\<close>

definition nat_of_digits :: "string \<Rightarrow> nat" where
  "nat_of_digits s = foldl (\<lambda>n c. 10 * n + (of_char c - 48)) 0 s"

lemma nat_of_digits_snoc: "nat_of_digits (s @ [c]) = 10 * nat_of_digits s + (of_char c - 48)"
  by (simp add: nat_of_digits_def)

lemma nat_of_digits_str_nat [simp]: "nat_of_digits (str_nat n) = n"
proof (induction n rule: str_nat.induct)
  case (1 n)
  show ?case
  proof (cases "n < 10")
    case True
    then show ?thesis by (simp add: str_nat.simps[of n] nat_of_digits_def of_char_digit)
  next
    case False
    with 1 show ?thesis by (simp add: str_nat.simps[of n] nat_of_digits_snoc of_char_digit)
  qed
qed

lemma str_nat_inject [simp]: "str_nat m = str_nat n \<longleftrightarrow> m = n"
  using nat_of_digits_str_nat by metis

lemma list_all_notin: "list_all P s \<Longrightarrow> \<not> P c \<Longrightarrow> c \<notin> set s"
  by (auto simp: list_all_iff)

section \<open>Dictionaries\<close>

abbreviation dget :: "('k \<times> 'v) list \<Rightarrow> 'k \<Rightarrow> 'v option" where
  "dget d k \<equiv> map_of d k"

abbreviation dset :: "'k \<Rightarrow> 'v \<Rightarrow> ('k \<times> 'v) list \<Rightarrow> ('k \<times> 'v) list" where
  "dset k v d \<equiv> AList.update k v d"

abbreviation ddel :: "'k \<Rightarrow> ('k \<times> 'v) list \<Rightarrow> ('k \<times> 'v) list" where
  "ddel k d \<equiv> AList.delete k d"

abbreviation dkeys :: "('k \<times> 'v) list \<Rightarrow> 'k list" where
  "dkeys d \<equiv> map fst d"

lemmas dict_simps [simp] = AList.update_conv' AList.delete_conv'

lemma distinct_dset [simp]: "distinct (dkeys d) \<Longrightarrow> distinct (dkeys (dset k v d))"
  by (rule distinct_update)

lemma distinct_ddel [simp]: "distinct (dkeys d) \<Longrightarrow> distinct (dkeys (ddel k d))"
  by (rule distinct_delete)

lemma map_of_filter_key:
  "map_of (filter (\<lambda>p. P (fst p)) d) k = (if P k then map_of d k else None)"
  by (induction d) auto

end
