(* ===== verification/GoFloat.thy ===== *)
theory GoFloat
  imports Prelude
begin

text \<open>
  Floating-point numbers and \<open>src/eds/util/gofloat.py\<close>.

  A finite Python \<open>float\<close> is represented by the decimal its \<open>repr\<close> shows: a sign, a coefficient
  without trailing zeros and a power of ten. \<open>float(text)\<close> is modelled by the language's own
  definition (round the decimal to the nearest binary64, ties to even; then take the shortest
  decimal that rounds to the same binary64), so the representation is that of a real double.
  \<open>format_f\<close>, \<open>format_g\<close> and \<open>format_json\<close> build their text from the \<open>repr\<close> digits as the source does.
\<close>

section \<open>Doubles by their shortest decimal\<close>

datatype pyfloat = Fin bool nat int | PosInf | NegInf | NaN

fun is_zero_float :: "pyfloat \<Rightarrow> bool" where
  "is_zero_float (Fin _ m _) = (m = 0)"
| "is_zero_float _ = False"

fun is_finite_float :: "pyfloat \<Rightarrow> bool" where
  "is_finite_float (Fin _ _ _) = True"
| "is_finite_float _ = False"

fun strip10 :: "nat \<Rightarrow> int \<Rightarrow> nat \<times> int" where
  "strip10 m x = (if m = 0 then (0, 0) else if m mod 10 = 0 then strip10 (m div 10) (x + 1) else (m, x))"

declare strip10.simps [simp del]

fun bitlen :: "nat \<Rightarrow> nat" where
  "bitlen n = (if n = 0 then 0 else Suc (bitlen (n div 2)))"

declare bitlen.simps [simp del]

definition round_half_even :: "nat \<Rightarrow> nat \<Rightarrow> nat" where
  "round_half_even num den =
     (let q = num div den; r = num mod den in
      if 2 * r < den then q else if den < 2 * r then q + 1 else if even q then q else q + 1)"

text \<open>The fraction \<open>m * b ^ x\<close>, as numerator and denominator.\<close>

definition frac :: "nat \<Rightarrow> nat \<Rightarrow> int \<Rightarrow> nat \<times> nat" where
  "frac b m x = (if 0 \<le> x then (m * b ^ nat x, 1) else (m, b ^ nat (- x)))"

text \<open>
  Nearest binary64 of \<open>num / den\<close>: mantissa below \<open>2 ^ 53\<close> and binary exponent, \<open>None\<close> on overflow.
\<close>

definition to_binary :: "nat \<times> nat \<Rightarrow> (nat \<times> int) option" where
  "to_binary q =
     (let (num, den) = q;
          e0 = int (bitlen num) - int (bitlen den) - 53;
          scaled = (\<lambda>e. if 0 \<le> e then (num, den * 2 ^ nat e) else (num * 2 ^ nat (- e), den));
          e1 = (case scaled e0 of (n, d) \<Rightarrow> if d * 2 ^ 53 \<le> n then e0 + 1 else e0);
          e = max (- 1074) e1;
          m = (case scaled e of (n, d) \<Rightarrow> round_half_even n d);
          (m', e') = (if m = 2 ^ 53 then (2 ^ 52, e + 1) else (m, e))
      in if m' = 0 then Some (0, - 1074) else if 971 < e' then None else Some (m', e'))"

text \<open>Shortest decimal that rounds to the binary64 \<open>b\<close>, trying \<open>n\<close>, \<open>n + 1\<close>, \dots\ digits.\<close>

fun shortest :: "nat \<Rightarrow> nat \<Rightarrow> nat \<times> int \<Rightarrow> nat \<times> int" where
  "shortest fuel n b =
     (let (num, den) = frac 2 (fst b) (snd b);
          k0 = int (length (str_nat num)) - int (length (str_nat den));
          below = (if 0 \<le> k0 then num < den * 10 ^ nat k0 else num * 10 ^ nat (- k0) < den);
          k = (if below then k0 - 1 else k0);
          x = k - int n + 1;
          t = (if 0 \<le> x then round_half_even num (den * 10 ^ nat x)
               else round_half_even (num * 10 ^ nat (- x)) den)
      in if fuel = 0 \<or> to_binary (frac 10 t x) = Some b then (t, x) else shortest (fuel - 1) (n + 1) b)"

declare shortest.simps [simp del]

text \<open>\<open>float(text)\<close> for a literal with coefficient \<open>m\<close> and exponent \<open>x\<close>; 17 digits always suffice.\<close>

definition float_of :: "bool \<Rightarrow> nat \<Rightarrow> int \<Rightarrow> pyfloat" where
  "float_of neg m x =
     (case to_binary (frac 10 m x) of
        None \<Rightarrow> if neg then NegInf else PosInf
      | Some b \<Rightarrow> if fst b = 0 then Fin neg 0 0
                 else (case shortest 16 1 b of (t, y) \<Rightarrow> case strip10 t y of (m', x') \<Rightarrow> Fin neg m' x'))"

text \<open>The decimal order of the leading digit.\<close>

definition lead_exp :: "nat \<Rightarrow> int \<Rightarrow> int" where
  "lead_exp m x = x + int (length (str_nat m)) - 1"

text \<open>
  \<open>Decimal(repr(f)).as_tuple()\<close>: \<open>repr\<close> is positional for leading exponents from -4 to 15, and then
  an integral value carries a trailing \<open>.0\<close>.
\<close>

definition repr_tuple :: "nat \<Rightarrow> int \<Rightarrow> string \<times> int" where
  "repr_tuple m x =
     (if 0 \<le> x \<and> lead_exp m x < 16 then (str_nat m @ replicate (nat x) (CHR ''0'') @ ''0'', - 1)
      else (str_nat m, x))"

section \<open>Formatting\<close>

definition sign_str :: "bool \<Rightarrow> string" where
  "sign_str neg = (if neg then ''-'' else '''')"

definition zero_str :: "bool \<Rightarrow> string" where
  "zero_str neg = (if neg then ''-0'' else ''0'')"

text \<open>\<open>format(Decimal, "f")\<close> on a digit string and exponent.\<close>

definition dec_f :: "string \<Rightarrow> int \<Rightarrow> string" where
  "dec_f ds x =
     (if 0 \<le> x then ds @ replicate (nat x) (CHR ''0'')
      else let p = int (length ds) + x in
           if 0 < p then take (nat p) ds @ ''.'' @ drop (nat p) ds
           else ''0.'' @ replicate (nat (- p)) (CHR ''0'') @ ds)"

text \<open>\<open>s.rstrip(c)\<close>.\<close>

definition rstrip :: "char \<Rightarrow> string \<Rightarrow> string" where
  "rstrip c s = rev (dropWhile (\<lambda>d. d = c) (rev s))"

fun format_f :: "pyfloat \<Rightarrow> string" where
  "format_f PosInf = ''Infinity''"
| "format_f NegInf = ''-Infinity''"
| "format_f NaN = ''NaN''"
| "format_f (Fin neg m x) =
     (if m = 0 then zero_str neg
      else let (ds, e) = repr_tuple m x; s = dec_f ds e in
           sign_str neg @ (if CHR ''.'' \<in> set s then rstrip (CHR ''.'') (rstrip (CHR ''0'') s) else s))"

text \<open>The digit loop of \<open>format_g\<close>: drop trailing zeros while more than one digit is left.\<close>

fun strip_zeros :: "string \<Rightarrow> int \<Rightarrow> string \<times> int" where
  "strip_zeros ds e =
     (if 1 < length ds \<and> last ds = CHR ''0'' then strip_zeros (butlast ds) (e + 1) else (ds, e))"

declare strip_zeros.simps [simp del]

definition two_digits :: "nat \<Rightarrow> string" where
  "two_digits n = (if n < 10 then CHR ''0'' # str_nat n else str_nat n)"

definition mantissa :: "string \<Rightarrow> string" where
  "mantissa sig = (if length sig = 1 then sig else take 1 sig @ ''.'' @ drop 1 sig)"

fun format_g :: "pyfloat \<Rightarrow> string" where
  "format_g NaN = ''NaN''"
| "format_g PosInf = ''+Inf''"
| "format_g NegInf = ''-Inf''"
| "format_g (Fin neg m x) =
     (if m = 0 then zero_str neg
      else let (ds, ex) = repr_tuple m x; (sig, ex') = strip_zeros ds ex;
               e = ex' + (int (length sig) - 1); pp = e + 1
           in sign_str neg @
              (if e < - 4 \<or> 21 \<le> e
               then mantissa sig @ ''e'' @ (if 0 \<le> e then ''+'' else ''-'') @ two_digits (nat \<bar>e\<bar>)
               else if pp \<le> 0 then ''0.'' @ replicate (nat (- pp)) (CHR ''0'') @ sig
               else if int (length sig) \<le> pp then sig @ replicate (nat pp - length sig) (CHR ''0'')
               else take (nat pp) sig @ ''.'' @ drop (nat pp) sig))"

text \<open>\<open>repr(f)\<close> in its exponential range.\<close>

definition repr_exp :: "bool \<Rightarrow> nat \<Rightarrow> int \<Rightarrow> string" where
  "repr_exp neg m x =
     (let e = lead_exp m x in
      sign_str neg @ mantissa (str_nat m) @ ''e'' @ (if 0 \<le> e then ''+'' else ''-'') @ two_digits (nat \<bar>e\<bar>))"

text \<open>The cleanup of \<open>e-0X\<close> to \<open>e-X\<close> on the last four characters.\<close>

definition clean_exp :: "string \<Rightarrow> string" where
  "clean_exp s =
     (let n = length s in
      if 4 \<le> n \<and> s ! (n - 4) = CHR ''e'' \<and> s ! (n - 3) = CHR ''-'' \<and> s ! (n - 2) = CHR ''0''
      then take (n - 2) s @ [s ! (n - 1)] else s)"

fun format_json :: "pyfloat \<Rightarrow> string res" where
  "format_json (Fin neg m x) =
     (if m = 0 then Inr (zero_str neg)
      else if lead_exp m x < - 6 \<or> 21 \<le> lead_exp m x then Inr (clean_exp (repr_exp neg m x))
      else Inr (format_f (Fin neg m x)))"
| "format_json _ = Inl (ValueError ''json: unsupported value: non-finite float'')"

end
