(* ===== verification/GoJson.thy ===== *)
theory GoJson
  imports GoFloat
begin

text \<open>
  The JSON text layer: \<open>src/eds/util/gojson.py\<close> (the reproduction of Go's \<open>json.Marshal\<close>),
  \<open>src/eds/util/gostruct.py\<close> (dataclasses rendered in declaration order with per-field omission
  rules), and \<open>json.loads\<close> as the sources use it.

  \<open>pyval\<close> is the universe of Python values that reach the encoder and that the parser returns. A
  dataclass is the list of its fields that carry \<open>json\<close> metadata: key, omission rule, value.
  The main results are in \<open>JsonRound\<close>: the parser inverts the encoder.
\<close>

section \<open>Values\<close>

datatype omit_empty = NEVER | IF_NONE | IF_FALSY | IF_EMPTY_RAW

datatype pyval =
    PNone
  | PBool bool
  | PInt int
  | PFloat pyfloat
  | PStr string
  | PList "pyval list"
  | PDict "(string \<times> pyval) list"
  | PRaw string
  | PStruct "(string \<times> omit_empty \<times> pyval) list"
  | PBytes string
  | POther string

type_synonym pydict = "(string \<times> pyval) list"

section \<open>Escaping\<close>

definition hexd :: "nat \<Rightarrow> char" where
  "hexd n = (if n < 10 then char_of (48 + n) else char_of (87 + n))"

definition uesc :: "nat \<Rightarrow> string" where
  "uesc n = [BS, CHR ''u'', hexd (n div 4096 mod 16), hexd (n div 256 mod 16), hexd (n div 16 mod 16), hexd (n mod 16)]"

text \<open>The UTF-8 bytes of U+2028 and U+2029 are E2 80 A8 and E2 80 A9.\<close>

definition u2028 :: string where "u2028 = [CHR 0xE2, CHR 0x80, CHR 0xA8]"
definition u2029 :: string where "u2029 = [CHR 0xE2, CHR 0x80, CHR 0xA9]"

definition html_char :: "char \<Rightarrow> string" where
  "html_char c =
     (if c = CHR ''<'' then uesc 0x3c else if c = CHR ''>'' then uesc 0x3e
      else if c = CHR ''&'' then uesc 0x26 else [c])"

fun compact_go :: "bool \<Rightarrow> bool \<Rightarrow> string \<Rightarrow> string" where
  "compact_go in_string escaped [] = []"
| "compact_go in_string escaped (c # cs) =
     (if in_string \<and> escaped then c # compact_go True False cs
      else if in_string \<and> c = BS then c # compact_go True True cs
      else if in_string \<and> c = DQ then c # compact_go False escaped cs
      else if \<not> in_string \<and> c \<in> {SP, TAB, NL, CR} then compact_go False escaped cs
      else if \<not> in_string \<and> c = DQ then c # compact_go True escaped cs
      else if c = CHR 0xE2 \<and> take 2 cs = [CHR 0x80, CHR 0xA8]
        then uesc 0x2028 @ compact_go in_string escaped (drop 2 cs)
      else if c = CHR 0xE2 \<and> take 2 cs = [CHR 0x80, CHR 0xA9]
        then uesc 0x2029 @ compact_go in_string escaped (drop 2 cs)
      else html_char c @ compact_go in_string escaped cs)"

definition compact_raw :: "string \<Rightarrow> string" where
  "compact_raw s = compact_go False False s"

definition encode_char :: "char \<Rightarrow> string" where
  "encode_char ch =
     (if ch = DQ then [BS, DQ]
      else if ch = BS then [BS, BS]
      else if ch = NL then [BS, CHR ''n'']
      else if ch = CR then [BS, CHR ''r'']
      else if ch = TAB then [BS, CHR ''t'']
      else if ch < CHR 0x20 then uesc (of_char ch)
      else html_char ch)"

fun encode_chars :: "string \<Rightarrow> string" where
  "encode_chars [] = []"
| "encode_chars (c # cs) =
     (if c = CHR 0xE2 \<and> take 2 cs = [CHR 0x80, CHR 0xA8] then uesc 0x2028 @ encode_chars (drop 2 cs)
      else if c = CHR 0xE2 \<and> take 2 cs = [CHR 0x80, CHR 0xA9] then uesc 0x2029 @ encode_chars (drop 2 cs)
      else encode_char c @ encode_chars cs)"

definition encode_string :: "string \<Rightarrow> string" where
  "encode_string s = DQ # encode_chars s @ [DQ]"

section \<open>Marshalling\<close>

fun falsy :: "pyval \<Rightarrow> bool" where
  "falsy PNone = True"
| "falsy (PBool b) = (\<not> b)"
| "falsy (PInt i) = (i = 0)"
| "falsy (PFloat f) = is_zero_float f"
| "falsy (PStr s) = (s = [])"
| "falsy (PList l) = (l = [])"
| "falsy (PDict d) = (d = [])"
| "falsy (PBytes b) = (b = [])"
| "falsy _ = False"

fun omitted :: "omit_empty \<Rightarrow> pyval \<Rightarrow> bool" where
  "omitted IF_NONE v = (v = PNone)"
| "omitted IF_FALSY v = falsy v"
| "omitted IF_EMPTY_RAW v = (v = PNone \<or> v = PRaw [])"
| "omitted NEVER v = False"

definition item_text :: "string \<times> string res \<Rightarrow> string res" where
  "item_text p = andthen (snd p) (\<lambda>t. Inr (fst p @ '':'' @ t))"

text \<open>
  \<open>_encode\<close>, with its loops over lists, dictionaries and struct fields. The entries of a dictionary
  are encoded one by one and then put in key order, so that the text, and which entry raises first,
  follow the sorted order.
\<close>

fun encode :: "bool \<Rightarrow> pyval \<Rightarrow> string res"
  and encode_vals :: "bool \<Rightarrow> pyval list \<Rightarrow> string res list"
  and encode_items :: "bool \<Rightarrow> (string \<times> pyval) list \<Rightarrow> (string \<times> string res) list"
  and encode_fields :: "(string \<times> omit_empty \<times> pyval) list \<Rightarrow> (string \<times> string res) list"
where
  "encode sk PNone = Inr ''null''"
| "encode sk (PRaw s) = Inr (compact_raw s)"
| "encode sk (PStruct fs) =
     andthen (mapM item_text (encode_fields fs)) (\<lambda>ts. Inr (''{'' @ join '','' ts @ ''}''))"
| "encode sk (PBool b) = Inr (if b then ''true'' else ''false'')"
| "encode sk (PInt i) = Inr (str_int i)"
| "encode sk (PFloat f) =
     (if is_finite_float f then format_json f
      else Inl (ValueError ''json: unsupported value: non-finite float''))"
| "encode sk (PStr s) = Inr (encode_string s)"
| "encode sk (PList vs) =
     andthen (mapM (\<lambda>r. r) (encode_vals sk vs)) (\<lambda>ts. Inr (''['' @ join '','' ts @ '']''))"
| "encode sk (PDict d) =
     (let es = encode_items sk d; es' = (if sk then sort_key fst es else es)
      in andthen (mapM (\<lambda>(k, r). item_text (encode_string k, r)) es')
           (\<lambda>ts. Inr (''{'' @ join '','' ts @ ''}'')))"
| "encode sk (PBytes b) = Inl (ValueError ''json: unsupported type: bytes'')"
| "encode sk (POther t) = Inl (ValueError (''json: unsupported type: '' @ t))"
| "encode_vals sk [] = []"
| "encode_vals sk (v # vs) = encode sk v # encode_vals sk vs"
| "encode_items sk [] = []"
| "encode_items sk ((k, v) # d) = (k, encode sk v) # encode_items sk d"
| "encode_fields [] = []"
| "encode_fields ((k, rule, v) # fs) =
     (if omitted rule v then encode_fields fs
      else (DQ # k @ [DQ], encode True v) # encode_fields fs)"

definition marshal :: "bool \<Rightarrow> pyval \<Rightarrow> string res" where
  "marshal sort_keys v = encode sort_keys v"

definition gojson_struct :: "(string \<times> omit_empty \<times> pyval) list \<Rightarrow> string res" where
  "gojson_struct fs = encode True (PStruct fs)"

definition stringify :: "pyval \<Rightarrow> string" where
  "stringify v = (case marshal True v of Inr t \<Rightarrow> t | Inl _ \<Rightarrow> '''')"

text \<open>\<open>msgpack_dict\<close>: the same field table, raw values.\<close>

definition msgpack_dict :: "(string \<times> omit_empty \<times> pyval) list \<Rightarrow> pydict" where
  "msgpack_dict fs = foldl (\<lambda>d (k, rule, v). if omitted rule v then d else dset k v d) [] fs"

section \<open>Parsing\<close>

definition is_ws :: "char \<Rightarrow> bool" where
  "is_ws c \<longleftrightarrow> c \<in> {SP, TAB, NL, CR}"

definition skip_ws :: "string \<Rightarrow> string" where
  "skip_ws s = dropWhile is_ws s"

definition hexval :: "char \<Rightarrow> nat option" where
  "hexval c =
     (if is_digit c then Some (of_char c - 48)
      else if CHR ''a'' \<le> c \<and> c \<le> CHR ''f'' then Some (of_char c - 87)
      else if CHR ''A'' \<le> c \<and> c \<le> CHR ''F'' then Some (of_char c - 55)
      else None)"

fun hex4 :: "string \<Rightarrow> nat option" where
  "hex4 [a, b, c, d] =
     (case (hexval a, hexval b, hexval c, hexval d) of
        (Some w, Some x, Some y, Some z) \<Rightarrow> Some (4096 * w + 256 * x + 16 * y + z)
      | _ \<Rightarrow> None)"
| "hex4 _ = None"

definition utf8 :: "nat \<Rightarrow> string" where
  "utf8 n =
     (if n < 0x80 then [char_of n]
      else if n < 0x800 then [char_of (0xC0 + n div 64), char_of (0x80 + n mod 64)]
      else if n < 0x10000 then
        [char_of (0xE0 + n div 4096), char_of (0x80 + n div 64 mod 64), char_of (0x80 + n mod 64)]
      else [char_of (0xF0 + n div 262144), char_of (0x80 + n div 4096 mod 64),
            char_of (0x80 + n div 64 mod 64), char_of (0x80 + n mod 64)])"

text \<open>The code point of a \<open>\u\<close> escape and how many characters after the \<open>u\<close> it takes.\<close>

definition uni_escape :: "string \<Rightarrow> (nat \<times> nat) option" where
  "uni_escape r =
     (case hex4 (take 4 r) of
        None \<Rightarrow> None
      | Some u \<Rightarrow>
          if 0xD800 \<le> u \<and> u \<le> 0xDBFF \<and> take 2 (drop 4 r) = [BS, CHR ''u'']
          then (case hex4 (take 4 (drop 6 r)) of
                  None \<Rightarrow> None
                | Some v \<Rightarrow> if 0xDC00 \<le> v \<and> v \<le> 0xDFFF
                           then Some (0x10000 + (u - 0xD800) * 1024 + (v - 0xDC00), 10)
                           else Some (u, 4))
          else Some (u, 4))"

definition simple_escape :: "char \<Rightarrow> char option" where
  "simple_escape c =
     map_of [(DQ, DQ), (BS, BS), (CHR ''/'', CHR ''/''), (CHR ''b'', CHR 0x08), (CHR ''f'', CHR 0x0C),
             (CHR ''n'', NL), (CHR ''r'', CR), (CHR ''t'', TAB)] c"

definition cons_str :: "string \<Rightarrow> (string \<times> string) option \<Rightarrow> (string \<times> string) option" where
  "cons_str p r = map_option (\<lambda>(s, t). (p @ s, t)) r"

text \<open>The rest of a string literal after its opening quote: its value and what follows it.\<close>

function (sequential) parse_str :: "string \<Rightarrow> (string \<times> string) option" where
  "parse_str [] = None"
| "parse_str (c # cs) =
     (if c = DQ then Some ([], cs)
      else if c = BS then
        (case cs of
           [] \<Rightarrow> None
         | e # r \<Rightarrow>
             (case simple_escape e of
                Some b \<Rightarrow> cons_str [b] (parse_str r)
              | None \<Rightarrow>
                  if e = CHR ''u''
                  then (case uni_escape r of
                          None \<Rightarrow> None
                        | Some (cp, k) \<Rightarrow> cons_str (utf8 cp) (parse_str (drop k r)))
                  else None))
      else if c < CHR 0x20 then None
      else cons_str [c] (parse_str cs))"
  by pat_completeness auto
termination
  by (relation "measure length") auto

text \<open>A number literal: \<open>-?(0|[1-9]\d*)(\.\d+)?([eE][-+]?\d+)?\<close>.\<close>

definition take_digits :: "string \<Rightarrow> string \<times> string" where
  "take_digits s = (takeWhile is_digit s, dropWhile is_digit s)"

definition parse_frac :: "string \<Rightarrow> string \<times> string" where
  "parse_frac s =
     (case s of
        c # r \<Rightarrow> if c = CHR ''.'' \<and> fst (take_digits r) \<noteq> [] then take_digits r else ([], s)
      | [] \<Rightarrow> ([], s))"

definition parse_exp :: "string \<Rightarrow> (int option) \<times> string" where
  "parse_exp s =
     (case s of
        c # r \<Rightarrow>
          if c = CHR ''e'' \<or> c = CHR ''E'' then
            (let (neg, r') = (case r of d # r'' \<Rightarrow> if d = CHR ''-'' then (True, r'')
                                                   else if d = CHR ''+'' then (False, r'') else (False, r)
                              | [] \<Rightarrow> (False, r));
                 (ds, r2) = take_digits r'
             in if ds = [] then (None, s)
                else (Some (if neg then - int (nat_of_digits ds) else int (nat_of_digits ds)), r2))
          else (None, s)
      | [] \<Rightarrow> (None, s))"

definition parse_number :: "bool \<Rightarrow> string \<Rightarrow> (pyval \<times> string) option" where
  "parse_number pf s =
     (let (neg, s1) = (case s of c # r \<Rightarrow> if c = CHR ''-'' then (True, r) else (False, s) | [] \<Rightarrow> (False, s));
          (ip, s2) = (case s1 of c # r \<Rightarrow> if c = CHR ''0'' then (''0'', r) else take_digits s1 | [] \<Rightarrow> ([], s1))
      in if ip = [] then None
         else let (fr, s3) = parse_frac s2; (ex, s4) = parse_exp s3 in
           if fr = [] \<and> ex = None then
             (let n = nat_of_digits ip in
              Some (if pf then PFloat (float_of neg n 0) else PInt (if neg then - int n else int n), s4))
           else Some (PFloat (float_of neg (nat_of_digits (ip @ fr))
                        ((case ex of None \<Rightarrow> 0 | Some e \<Rightarrow> e) - int (length fr))), s4))"

text \<open>The options the sources pass: \<open>parse_int=float\<close>, and a \<open>parse_constant\<close> that raises.\<close>

record json_opts =
  parse_int_float :: bool
  reject_constant :: bool

definition parse_word :: "json_opts \<Rightarrow> string \<Rightarrow> (pyval \<times> string) option" where
  "parse_word o' s =
     (if prefix ''null'' s then Some (PNone, drop 4 s)
      else if prefix ''true'' s then Some (PBool True, drop 4 s)
      else if prefix ''false'' s then Some (PBool False, drop 5 s)
      else if prefix ''NaN'' s then (if reject_constant o' then None else Some (PFloat NaN, drop 3 s))
      else if prefix ''Infinity'' s then (if reject_constant o' then None else Some (PFloat PosInf, drop 8 s))
      else if prefix ''-Infinity'' s then (if reject_constant o' then None else Some (PFloat NegInf, drop 9 s))
      else parse_number (parse_int_float o') s)"

fun parse_val :: "nat \<Rightarrow> json_opts \<Rightarrow> string \<Rightarrow> (pyval \<times> string) option"
  and parse_elems :: "nat \<Rightarrow> json_opts \<Rightarrow> string \<Rightarrow> (pyval list \<times> string) option"
  and parse_members :: "nat \<Rightarrow> json_opts \<Rightarrow> string \<Rightarrow> ((string \<times> pyval) list \<times> string) option"
where
  "parse_val 0 o' s = None"
| "parse_val (Suc n) o' s =
     (case s of
        [] \<Rightarrow> None
      | c # cs \<Rightarrow>
          if c = DQ then map_option (\<lambda>(v, r). (PStr v, r)) (parse_str cs)
          else if c = CHR ''{'' then
            (case skip_ws cs of
               [] \<Rightarrow> None
             | d # r \<Rightarrow> if d = CHR ''}'' then Some (PDict [], r)
                       else map_option (\<lambda>(ps, r'). (PDict (foldl (\<lambda>m (k, v). dset k v m) [] ps), r'))
                              (parse_members n o' (d # r)))
          else if c = CHR ''['' then
            (case skip_ws cs of
               [] \<Rightarrow> None
             | d # r \<Rightarrow> if d = CHR '']'' then Some (PList [], r)
                       else map_option (\<lambda>(vs, r'). (PList vs, r')) (parse_elems n o' (d # r)))
          else parse_word o' s)"
| "parse_elems 0 o' s = None"
| "parse_elems (Suc n) o' s =
     (case parse_val n o' s of
        None \<Rightarrow> None
      | Some (v, r) \<Rightarrow>
          (case skip_ws r of
             [] \<Rightarrow> None
           | d # r' \<Rightarrow>
               if d = CHR '']'' then Some ([v], r')
               else if d = CHR '','' then
                 map_option (\<lambda>(vs, r''). (v # vs, r'')) (parse_elems n o' (skip_ws r'))
               else None))"
| "parse_members 0 o' s = None"
| "parse_members (Suc n) o' s =
     (case s of
        [] \<Rightarrow> None
      | q # s' \<Rightarrow>
          if q \<noteq> DQ then None
          else case parse_str s' of
            None \<Rightarrow> None
          | Some (k, r) \<Rightarrow>
              (case skip_ws r of
                 [] \<Rightarrow> None
               | c # r1 \<Rightarrow>
                   if c \<noteq> CHR '':'' then None
                   else case parse_val n o' (skip_ws r1) of
                     None \<Rightarrow> None
                   | Some (v, r2) \<Rightarrow>
                       (case skip_ws r2 of
                          [] \<Rightarrow> None
                        | d # r3 \<Rightarrow>
                            if d = CHR ''}'' then Some ([(k, v)], r3)
                            else if d = CHR '','' then
                              map_option (\<lambda>(ps, r4). ((k, v) # ps, r4)) (parse_members n o' (skip_ws r3))
                            else None)))"

text \<open>\<open>json.loads\<close>: one value, surrounded by white space only. \<open>None\<close> is a \<open>ValueError\<close>.\<close>

definition loads :: "json_opts \<Rightarrow> string \<Rightarrow> pyval option" where
  "loads o' s =
     (case parse_val (Suc (length s)) o' (skip_ws s) of
        None \<Rightarrow> None
      | Some (v, r) \<Rightarrow> if skip_ws r = [] then Some v else None)"

abbreviation opts_default :: json_opts where
  "opts_default \<equiv> \<lparr>parse_int_float = False, reject_constant = False\<rparr>"

abbreviation opts_float :: json_opts where
  "opts_float \<equiv> \<lparr>parse_int_float = True, reject_constant = False\<rparr>"

abbreviation opts_strict :: json_opts where
  "opts_strict \<equiv> \<lparr>parse_int_float = False, reject_constant = True\<rparr>"

end
