(* ===== verification/JsonRound.thy ===== *)
theory JsonRound
  imports GoJson
begin

text \<open>
  The parser inverts the encoder: on values built from \<open>None\<close>, booleans, integers, strings, lists
  and dictionaries, \<open>json.loads\<close> of the marshalled text is the value itself, with the entries of
  each dictionary in key order when the encoder sorts. Strings are arbitrary, so every escaping rule
  of the encoder is covered. The second part shows that \<open>compact_raw\<close> and the string encoder leave no
  HTML-sensitive character in their output.
\<close>

section \<open>Strings\<close>

lemma hexval_hexd: "n < 16 \<Longrightarrow> hexval (hexd n) = Some n"
proof -
  assume "n < 16"
  then consider "n < 10" | "10 \<le> n" "n < 16" by linarith
  then show ?thesis
  proof cases
    case 1
    then show ?thesis by (simp add: hexd_def hexval_def is_digit_def less_eq_char_def)
  next
    case 2
    then show ?thesis by (simp add: hexd_def hexval_def is_digit_def less_eq_char_def)
  qed
qed

lemma hex_digits_sum:
  assumes "n < (65536::nat)"
  shows "4096 * (n div 4096 mod 16) + 256 * (n div 256 mod 16) + 16 * (n div 16 mod 16) + n mod 16 = n"
proof -
  define a b c where "a = n div 16" and "b = a div 16" and "c = b div 16"
  have d: "n div 256 = b" "n div 4096 = c"
    by (simp_all add: a_def b_def c_def flip: div_mult2_eq)
  have "c < 16" using assms by (simp add: a_def b_def c_def less_mult_imp_div_less)
  moreover have "n = 16 * a + n mod 16" "a = 16 * b + a mod 16" "b = 16 * c + b mod 16"
    by (simp_all add: a_def b_def c_def)
  ultimately have "4096 * (c mod 16) + 256 * (b mod 16) + 16 * (a mod 16) + n mod 16 = n"
    using mod_less [of c 16] by linarith
  then show ?thesis by (simp only: d flip: a_def)
qed

lemma hex4_uesc:
  "n < 65536 \<Longrightarrow> hex4 [hexd (n div 4096 mod 16), hexd (n div 256 mod 16), hexd (n div 16 mod 16), hexd (n mod 16)]
     = Some n"
  using hex_digits_sum [of n] by (simp only: hex4.simps hexval_hexd) (simp add: hexval_hexd)

lemma uni_escape_uesc:
  assumes "n < 0xD800"
  shows "uni_escape (drop 2 (uesc n) @ t) = Some (n, 4)"
proof -
  have "take 4 (drop 2 (uesc n) @ t) =
      [hexd (n div 4096 mod 16), hexd (n div 256 mod 16), hexd (n div 16 mod 16), hexd (n mod 16)]"
    by (simp add: uesc_def)
  with assms hex4_uesc [of n] show ?thesis by (simp add: uni_escape_def)
qed

lemma parse_str_uesc:
  assumes "n < 0xD800"
  shows "parse_str (uesc n @ t) = cons_str (utf8 n) (parse_str t)"
proof -
  have u: "uesc n @ t = BS # CHR ''u'' # (drop 2 (uesc n) @ t)" by (simp add: uesc_def)
  have d: "drop 4 (drop 2 (uesc n) @ t) = t" by (simp add: uesc_def)
  have s: "simple_escape (CHR ''u'') = None" by (simp add: simple_escape_def)
  show ?thesis
    unfolding u by (simp add: s d uni_escape_uesc [OF assms] del: drop_drop drop_append)
qed

lemma utf8_ascii: "n < 0x80 \<Longrightarrow> utf8 n = [char_of n]"
  by (simp add: utf8_def)

lemma utf8_2028: "utf8 0x2028 = [CHR 0xE2, CHR 0x80, CHR 0xA8]"
  by (simp add: utf8_def char_of_eqI)

lemma utf8_2029: "utf8 0x2029 = [CHR 0xE2, CHR 0x80, CHR 0xA9]"
  by (simp add: utf8_def char_of_eqI)

lemma parse_str_html_char:
  assumes "c \<noteq> DQ" "c \<noteq> BS" "CHR 0x20 \<le> c"
  shows "parse_str (html_char c @ t) = cons_str [c] (parse_str t)"
proof -
  have "char_of (0x3c :: nat) = CHR ''<''" "char_of (0x3e :: nat) = CHR ''>''" "char_of (0x26 :: nat) = CHR ''&''"
    by (simp_all add: char_of_eqI)
  moreover have "\<not> c < CHR 0x20" using assms(3) by simp
  ultimately show ?thesis using assms(1,2) by (simp add: html_char_def parse_str_uesc utf8_ascii)
qed

lemma parse_str_encode_char: "parse_str (encode_char c @ t) = cons_str [c] (parse_str t)"
proof -
  consider "c \<in> {DQ, BS, NL, CR, TAB}" | "c < CHR 0x20" "c \<notin> {DQ, BS, NL, CR, TAB}"
    | "\<not> c < CHR 0x20" "c \<notin> {DQ, BS, NL, CR, TAB}"
    by blast
  then show ?thesis
  proof cases
    case 1
    then show ?thesis by (auto simp: encode_char_def simple_escape_def)
  next
    case 2
    then have "of_char c < (0x20 :: nat)" by (simp add: less_char_def)
    with 2 show ?thesis by (simp add: encode_char_def parse_str_uesc utf8_ascii)
  next
    case 3
    then show ?thesis by (simp add: encode_char_def parse_str_html_char)
  qed
qed

lemma cons_str_append [simp]: "cons_str p (Some (s, t)) = Some (p @ s, t)"
  by (simp add: cons_str_def)

lemma parse_str_encode_chars: "parse_str (encode_chars s @ DQ # rest) = Some (s, rest)"
proof (induction s rule: encode_chars.induct)
  case 1
  then show ?case by simp
next
  case (2 c cs)
  consider (a) "c = CHR 0xE2" "take 2 cs = [CHR 0x80, CHR 0xA8]"
    | (b) "c = CHR 0xE2" "take 2 cs = [CHR 0x80, CHR 0xA9]"
    | (c) "\<not> (c = CHR 0xE2 \<and> take 2 cs = [CHR 0x80, CHR 0xA8])" "\<not> (c = CHR 0xE2 \<and> take 2 cs = [CHR 0x80, CHR 0xA9])"
    by blast
  then show ?case
  proof cases
    case a
    then have "c # cs = [CHR 0xE2, CHR 0x80, CHR 0xA8] @ drop 2 cs"
      by (metis append_Cons append_Nil append_take_drop_id)
    with a 2(1) show ?thesis by (simp add: parse_str_uesc utf8_2028 cons_str_append)
  next
    case b
    then have "c # cs = [CHR 0xE2, CHR 0x80, CHR 0xA9] @ drop 2 cs"
      by (metis append_Cons append_Nil append_take_drop_id)
    with b 2(2) show ?thesis by (simp add: parse_str_uesc utf8_2029 cons_str_append)
  next
    case c
    with 2(3) have "parse_str (encode_chars cs @ DQ # rest) = Some (cs, rest)" by blast
    moreover from c have "encode_chars (c # cs) = encode_char c @ encode_chars cs"
      by (auto simp only: encode_chars.simps if_False)
    ultimately show ?thesis
      by (simp only: append_assoc parse_str_encode_char) (simp add: cons_str_append)
  qed
qed

section \<open>Integers\<close>

lemma str_nat_hd: "0 < n \<Longrightarrow> hd (str_nat n) \<noteq> CHR ''0''"
proof (induction n rule: str_nat.induct)
  case (1 n)
  show ?case
  proof (cases "n < 10")
    case True
    have "digit n \<noteq> CHR ''0''"
    proof
      assume "digit n = CHR ''0''"
      then have "of_char (digit n) = (48 :: nat)" by simp
      with True 1(2) show False by (simp add: of_char_digit)
    qed
    with True show ?thesis by (simp add: str_nat.simps [of n])
  next
    case False
    with 1 have "hd (str_nat (n div 10)) \<noteq> CHR ''0''" by simp
    with False show ?thesis by (simp add: str_nat.simps [of n])
  qed
qed

text \<open>What may follow a number in marshalled text.\<close>

definition stops :: "string \<Rightarrow> bool" where
  "stops rest \<longleftrightarrow> rest = [] \<or> hd rest \<in> {CHR '','', CHR '']'', CHR ''}''}"

lemma stops_simps [simp]:
  "stops []" "stops (CHR '','' # r)" "stops (CHR '']'' # r)" "stops (CHR ''}'' # r)"
  by (simp_all add: stops_def)

lemma take_digits_append:
  assumes "list_all is_digit ds" "stops rest"
  shows "take_digits (ds @ rest) = (ds, rest)"
proof -
  from assms(2) have "rest = [] \<or> \<not> is_digit (hd rest)" by (auto simp: stops_def is_digit_def)
  then have "takeWhile is_digit rest = []" "dropWhile is_digit rest = rest"
    by (cases rest; simp)+
  with assms(1) show ?thesis by (simp add: take_digits_def takeWhile_append dropWhile_append list_all_iff)
qed

lemma parse_tail_stops:
  assumes "stops rest"
  shows "parse_frac rest = ([], rest)" "parse_exp rest = (None, rest)"
  using assms by (auto simp: parse_frac_def parse_exp_def stops_def split: list.splits)

lemma digit_not_minus: "is_digit c \<Longrightarrow> c \<noteq> CHR ''-''"
  by (auto simp: is_digit_def)

lemma parse_number_nat:
  assumes "stops rest"
  shows "parse_number False (str_nat n @ rest) = Some (PInt (int n), rest)"
    and "parse_number False (CHR ''-'' # str_nat n @ rest) = Some (PInt (- int n), rest)"
proof -
  obtain c cs where s: "str_nat n = c # cs" by (meson neq_Nil_conv str_nat_ne)
  have c: "c \<noteq> CHR ''-''" using str_nat_digits [of n] by (simp add: s digit_not_minus)
  have ip: "(case str_nat n @ rest of d # r \<Rightarrow> if d = CHR ''0'' then (''0'', r) else take_digits (str_nat n @ rest)
              | [] \<Rightarrow> ([], str_nat n @ rest)) = (str_nat n, rest)"
  proof (cases "n = 0")
    case True
    then have "str_nat n = ''0''" by (simp add: str_nat.simps [of 0] digit_def char_of_eqI)
    then show ?thesis by simp
  next
    case False
    then have "c \<noteq> CHR ''0''" using str_nat_hd [of n] s by simp
    then show ?thesis using take_digits_append [OF str_nat_digits [of n] assms] by (simp add: s)
  qed
  have m: "(case str_nat n @ rest of d # r \<Rightarrow> if d = CHR ''-'' then (True, r) else (False, str_nat n @ rest)
              | [] \<Rightarrow> (False, str_nat n @ rest)) = (False, str_nat n @ rest)"
    using c by (simp add: s)
  show "parse_number False (str_nat n @ rest) = Some (PInt (int n), rest)"
    unfolding parse_number_def Let_def m prod.case ip
    by (simp add: parse_tail_stops [OF assms])
  show "parse_number False (CHR ''-'' # str_nat n @ rest) = Some (PInt (- int n), rest)"
    unfolding parse_number_def Let_def list.case if_True simp_thms prod.case ip
    by (simp add: parse_tail_stops [OF assms])
qed

lemma parse_number_int:
  assumes "stops rest"
  shows "parse_number False (str_int i @ rest) = Some (PInt i, rest)"
  using parse_number_nat [OF assms] by (simp add: str_int_def)

lemma str_int_abs: "str_int i = (if i < 0 then ''-'' else '''') @ str_nat (nat \<bar>i\<bar>)"
  by (simp add: str_int_def)

lemma parse_word_int:
  assumes "stops rest" and "\<not> parse_int_float o'"
  shows "parse_word o' (str_int i @ rest) = Some (PInt i, rest)"
proof -
  obtain c cs where s: "str_nat (nat \<bar>i\<bar>) = c # cs" by (meson neq_Nil_conv str_nat_ne)
  then have d: "is_digit c" using str_nat_digits [of "nat \<bar>i\<bar>"] by simp
  have "str_int i @ rest = (if i < 0 then CHR ''-'' # c # cs @ rest else c # cs @ rest)"
    using s by (simp add: str_int_abs)
  moreover from d have "CHR ''n'' \<noteq> c" "CHR ''t'' \<noteq> c" "CHR ''f'' \<noteq> c" "CHR ''N'' \<noteq> c" "CHR ''I'' \<noteq> c"
      "CHR ''-'' \<noteq> c"
    by (auto simp: is_digit_def)
  ultimately have "parse_word o' (str_int i @ rest) = parse_number (parse_int_float o') (str_int i @ rest)"
    by (simp add: parse_word_def)
  with assms parse_number_int show ?thesis by simp
qed

lemma str_int_hd: "\<exists>c cs. str_int i = c # cs \<and> (c = CHR ''-'' \<or> is_digit c)"
proof -
  obtain c cs where s: "str_nat (nat \<bar>i\<bar>) = c # cs" by (meson neq_Nil_conv str_nat_ne)
  then have "is_digit c" using str_nat_digits [of "nat \<bar>i\<bar>"] by simp
  with s show ?thesis by (auto simp: str_int_abs)
qed

section \<open>Values\<close>

text \<open>The values the theorem is about, and the value the parser returns for them.\<close>

fun plain :: "pyval \<Rightarrow> bool" where
  "plain PNone = True"
| "plain (PBool b) = True"
| "plain (PInt i) = True"
| "plain (PStr s) = True"
| "plain (PList vs) = list_all plain vs"
| "plain (PDict d) = (distinct (dkeys d) \<and> list_all (\<lambda>p. plain (snd p)) d)"
| "plain (PStruct fs) =
     (distinct (map fst fs) \<and> list_all (\<lambda>f. encode_string (fst f) = DQ # fst f @ [DQ] \<and> plain (snd (snd f))) fs)"
| "plain _ = False"

fun canon :: "bool \<Rightarrow> pyval \<Rightarrow> pyval" where
  "canon sk (PList vs) = PList (map (canon sk) vs)"
| "canon sk (PDict d) =
     (let d' = map (\<lambda>p. (fst p, canon sk (snd p))) d in PDict (if sk then sort_key fst d' else d'))"
| "canon sk (PStruct fs) =
     PDict (map (\<lambda>f. (fst f, canon True (snd (snd f)))) (filter (\<lambda>f. \<not> omitted (fst (snd f)) (snd (snd f))) fs))"
| "canon sk v = v"

lemma encode_fields_map:
  "encode_fields fs = map (\<lambda>f. (DQ # fst f @ [DQ], encode True (snd (snd f))))
     (filter (\<lambda>f. \<not> omitted (fst (snd f)) (snd (snd f))) fs)"
proof (induction fs)
  case (Cons f fs)
  then show ?case by (cases f) simp
qed simp

lemma encode_vals_map: "encode_vals sk vs = map (encode sk) vs"
  by (induction vs) auto

lemma encode_items_map: "encode_items sk d = map (\<lambda>p. (fst p, encode sk (snd p))) d"
  by (induction d) auto

lemma insort_key_map: "(\<And>y. g (f y) = h y) \<Longrightarrow> insort_key g (f x) (map f xs) = map f (insort_key h x xs)"
  by (induction xs) auto

lemma sort_key_map: "(\<And>y. g (f y) = h y) \<Longrightarrow> sort_key g (map f xs) = map f (sort_key h xs)"
  by (induction xs) (auto simp: insort_key_map)

lemma update_new: "k \<notin> set (dkeys d) \<Longrightarrow> dset k v d = d @ [(k, v)]"
  by (induction d) auto

lemma foldl_dset_distinct:
  "distinct (dkeys (acc @ ps)) \<Longrightarrow> foldl (\<lambda>m (k, v). dset k v m) acc ps = acc @ ps"
proof (induction ps arbitrary: acc)
  case (Cons p ps)
  then have "dset (fst p) (snd p) acc = acc @ [p]" by (simp add: update_new)
  moreover have "distinct (dkeys ((acc @ [p]) @ ps))" using Cons.prems by simp
  ultimately show ?case using Cons.IH [of "acc @ [p]"] by (simp add: case_prod_beta)
qed simp

text \<open>The text \<open>t\<close> of a value parses to \<open>w\<close> whatever follows, with fuel for its own length.\<close>

definition parses :: "json_opts \<Rightarrow> string \<Rightarrow> pyval \<Rightarrow> bool" where
  "parses o' t w \<longleftrightarrow> t \<noteq> [] \<and> \<not> is_ws (hd t) \<and> hd t \<notin> {CHR '']'', CHR ''}''} \<and>
     (\<forall>rest n. stops rest \<longrightarrow> length t \<le> n \<longrightarrow> parse_val n o' (t @ rest) = Some (w, rest))"

lemma parsesD: "parses o' t w \<Longrightarrow> stops rest \<Longrightarrow> length t \<le> n \<Longrightarrow> parse_val n o' (t @ rest) = Some (w, rest)"
  by (simp add: parses_def)

lemma parses_skip_ws: "parses o' t w \<Longrightarrow> skip_ws (t @ r) = t @ r"
  by (cases t) (auto simp: parses_def skip_ws_def)

lemma skip_ws_stop [simp]:
  "skip_ws (CHR '','' # r) = CHR '','' # r" "skip_ws (CHR '']'' # r) = CHR '']'' # r"
  "skip_ws (CHR ''}'' # r) = CHR ''}'' # r" "skip_ws (CHR '':'' # r) = CHR '':'' # r"
  "skip_ws (DQ # r) = DQ # r" "skip_ws [] = []"
  by (simp_all add: skip_ws_def is_ws_def)

lemma parses_word:
  assumes "t \<noteq> []" "hd t \<notin> {DQ, CHR ''{'', CHR ''['', CHR '']'', CHR ''}''}" "\<not> is_ws (hd t)"
    and "\<And>rest. stops rest \<Longrightarrow> parse_word o' (t @ rest) = Some (w, rest)"
  shows "parses o' t w"
proof -
  obtain c cs where t: "t = c # cs" using assms(1) by (cases t) auto
  have "parse_val n o' (t @ rest) = Some (w, rest)" if "stops rest" "length t \<le> n" for rest n
  proof -
    from that(2) t obtain m where "n = Suc m" by (cases n) auto
    with assms(2) t assms(4) [OF that(1)] show ?thesis by simp
  qed
  with assms show ?thesis by (auto simp: parses_def)
qed

lemma parses_string: "parses o' (encode_string s) (PStr s)"
proof -
  have "parse_val n o' (encode_string s @ rest) = Some (PStr s, rest)" if "length (encode_string s) \<le> n" for rest n
  proof -
    from that obtain m where "n = Suc m" by (cases n) (auto simp: encode_string_def)
    then show ?thesis by (simp add: encode_string_def parse_str_encode_chars)
  qed
  then show ?thesis by (auto simp: parses_def encode_string_def is_ws_def)
qed

lemma parse_elems_join:
  assumes "list_all2 (parses o') ts ws" "ts \<noteq> []" "length (join '','' ts) < n"
  shows "parse_elems n o' (join '','' ts @ CHR '']'' # rest) = Some (ws, rest)"
  using assms
proof (induction ts arbitrary: ws n)
  case (Cons t ts)
  then obtain w ws' where ws: "ws = w # ws'" and t: "parses o' t w" and ts: "list_all2 (parses o') ts ws'"
    by (cases ws) auto
  obtain m where n: "n = Suc m" using Cons.prems(3) by (cases n) auto
  show ?case
  proof (cases ts)
    case Nil
    with ts have "ws' = []" by simp
    with Nil n ws parsesD [OF t, of "CHR '']'' # rest" m] Cons.prems(3) show ?thesis by simp
  next
    case tsC: (Cons t' ts')
    then have j: "join '','' (t # ts) = t @ CHR '','' # join '','' ts" by (simp add: join_Cons)
    from ts tsC obtain w' where "parses o' t' w'" by (cases ws') auto
    then have sk: "skip_ws (join '','' ts @ CHR '']'' # rest) = join '','' ts @ CHR '']'' # rest"
      by (cases ts') (simp_all add: tsC parses_skip_ws)
    have "parse_val m o' (t @ CHR '','' # join '','' ts @ CHR '']'' # rest)
        = Some (w, CHR '','' # join '','' ts @ CHR '']'' # rest)"
      using Cons.prems(3) by (intro parsesD [OF t]) (simp_all add: j n)
    moreover have "parse_elems m o' (join '','' ts @ CHR '']'' # rest) = Some (ws', rest)"
      using Cons.prems(3) j n tsC by (intro Cons.IH [OF ts]) simp_all
    ultimately show ?thesis by (simp add: j n sk ws)
  qed
qed simp

text \<open>Likewise for the members of an object; \<open>r\<close> pairs a key with the parsed text of its value.\<close>

definition member_text :: "string \<times> string \<Rightarrow> string" where
  "member_text p = encode_string (fst p) @ '':'' @ snd p"

lemma member_text_cons: "member_text p @ r = DQ # encode_chars (fst p) @ DQ # CHR '':'' # snd p @ r"
  by (simp add: member_text_def encode_string_def)

lemma parse_members_join:
  assumes "list_all2 (\<lambda>p q. fst p = fst q \<and> parses o' (snd p) (snd q)) ps qs" "ps \<noteq> []"
    and "length (join '','' (map member_text ps)) < n"
  shows "parse_members n o' (join '','' (map member_text ps) @ CHR ''}'' # rest) = Some (qs, rest)"
  using assms
proof (induction ps arbitrary: qs n)
  case (Cons p ps)
  then obtain q qs' where qs: "qs = q # qs'" and p: "fst p = fst q" "parses o' (snd p) (snd q)"
    and ps: "list_all2 (\<lambda>p q. fst p = fst q \<and> parses o' (snd p) (snd q)) ps qs'"
    by (cases qs) auto
  obtain m where n: "n = Suc m" using Cons.prems(3) by (cases n) auto
  have lp: "length (snd p) < length (member_text p)" by (simp add: member_text_def encode_string_def)
  note step = member_text_cons parse_str_encode_chars parses_skip_ws [OF p(2)]
  show ?case
  proof (cases ps)
    case Nil
    with ps have "qs' = []" by simp
    moreover have "parse_val m o' (snd p @ CHR ''}'' # rest) = Some (snd q, CHR ''}'' # rest)"
      using Cons.prems(3) lp Nil by (intro parsesD [OF p(2)]) (simp_all add: n)
    ultimately show ?thesis using Nil p(1) by (simp add: n qs step)
  next
    case psC: (Cons p' ps')
    let ?J = "join '','' (map member_text ps) @ CHR ''}'' # rest"
    have j: "join '','' (member_text p # map member_text ps) = member_text p @ CHR '','' # join '','' (map member_text ps)"
      using psC by (simp add: join_Cons)
    have sk: "skip_ws ?J = ?J"
      by (cases ps') (simp_all add: psC member_text_cons)
    have "parse_val m o' (snd p @ CHR '','' # ?J) = Some (snd q, CHR '','' # ?J)"
      using Cons.prems(3) lp by (intro parsesD [OF p(2)]) (simp_all add: j n)
    moreover have "parse_members m o' ?J = Some (qs', rest)"
      using Cons.prems(3) j n psC by (intro Cons.IH [OF ps]) simp_all
    ultimately show ?thesis using p(1) by (simp add: j n qs step sk)
  qed
qed simp

lemma parses_list:
  assumes "list_all2 (parses o') ts ws"
  shows "parses o' (''['' @ join '','' ts @ '']'') (PList ws)"
proof -
  have "parse_val n o' ((''['' @ join '','' ts @ '']'') @ rest) = Some (PList ws, rest)"
    if "length (''['' @ join '','' ts @ '']'') \<le> n" for rest n
  proof (cases ts)
    case Nil
    with assms that show ?thesis by (cases n) simp_all
  next
    case (Cons t ts')
    from that obtain m where n: "n = Suc m" by (cases n) auto
    from assms Cons obtain w where t: "parses o' t w" by (cases ws) auto
    let ?J = "join '','' ts @ CHR '']'' # rest"
    have e: "parse_elems m o' ?J = Some (ws, rest)"
      using that n Cons by (intro parse_elems_join [OF assms]) simp_all
    have sk: "skip_ws ?J = ?J" using t by (cases ts') (simp_all add: Cons parses_skip_ws)
    obtain c cs where c: "?J = c # cs" "c \<noteq> CHR '']''"
      using t Cons by (cases ts'; cases t) (auto simp: parses_def)
    from e sk c show ?thesis by (simp add: n)
  qed
  then show ?thesis by (simp add: parses_def is_ws_def)
qed

lemma parses_dict:
  assumes "list_all2 (\<lambda>p q. fst p = fst q \<and> parses o' (snd p) (snd q)) ps qs" "distinct (dkeys qs)"
  shows "parses o' (''{'' @ join '','' (map member_text ps) @ ''}'') (PDict qs)"
proof -
  have "parse_val n o' ((''{'' @ join '','' (map member_text ps) @ ''}'') @ rest) = Some (PDict qs, rest)"
    if "length (''{'' @ join '','' (map member_text ps) @ ''}'') \<le> n" for rest n
  proof (cases ps)
    case Nil
    with assms that show ?thesis by (cases n) simp_all
  next
    case (Cons p ps')
    from that obtain m where n: "n = Suc m" by (cases n) auto
    let ?J = "join '','' (map member_text ps) @ CHR ''}'' # rest"
    have e: "parse_members m o' ?J = Some (qs, rest)"
      using that n Cons by (intro parse_members_join [OF assms(1)]) simp_all
    obtain cs where c: "?J = DQ # cs" by (cases ps') (simp_all add: Cons member_text_cons)
    from e c foldl_dset_distinct [of "[]" qs] assms(2) show ?thesis by (simp add: n)
  qed
  then show ?thesis by (simp add: parses_def is_ws_def)
qed

lemma mapM_some: "list_all2 (\<lambda>x y. f x = Inr y) xs ys \<Longrightarrow> mapM f xs = Inr ys"
  by (induction rule: list_all2_induct) auto

definition good :: "json_opts \<Rightarrow> bool \<Rightarrow> pyval \<Rightarrow> bool" where
  "good o' sk v \<longleftrightarrow> (\<exists>t. encode sk v = Inr t \<and> parses o' t (canon sk v))"

lemma good_projr:
  "good o' sk v \<Longrightarrow> encode sk v = Inr (projr (encode sk v)) \<and> parses o' (projr (encode sk v)) (canon sk v)"
  by (auto simp: good_def)

lemma good_list:
  assumes "\<forall>v \<in> set vs. good o' sk v"
  shows "good o' sk (PList vs)"
proof -
  define ts where "ts = map (\<lambda>v. projr (encode sk v)) vs"
  have e: "encode sk v = Inr (projr (encode sk v))" "parses o' (projr (encode sk v)) (canon sk v)"
    if "v \<in> set vs" for v using assms that good_projr by blast+
  have "mapM (\<lambda>r. r) (encode_vals sk vs) = Inr ts"
    by (rule mapM_some) (use e(1) in \<open>auto simp: ts_def encode_vals_map list_all2_map1 list_all2_map2 list_all2_same\<close>)
  moreover have "list_all2 (parses o') ts (map (canon sk) vs)"
    using e(2) by (auto simp: ts_def list_all2_map1 list_all2_map2 list_all2_same)
  ultimately show ?thesis using parses_list by (auto simp: good_def)
qed

lemma good_dict:
  assumes "\<forall>p \<in> set d. good o' sk (snd p)" and "distinct (dkeys d)"
  shows "good o' sk (PDict d)"
proof -
  define d' where "d' = (if sk then sort_key fst d else d)"
  define ps where "ps = map (\<lambda>p. (fst p, projr (encode sk (snd p)))) d'"
  define qs where "qs = map (\<lambda>p. (fst p, canon sk (snd p))) d'"
  have set: "set d' = set d" and mset: "distinct (dkeys d')"
    using assms(2) by (auto simp: d'_def distinct_map)
  have e: "encode sk (snd p) = Inr (projr (encode sk (snd p)))"
      "parses o' (projr (encode sk (snd p))) (canon sk (snd p))"
    if "p \<in> set d'" for p using assms(1) that set good_projr by blast+
  have c: "canon sk (PDict d) = PDict qs"
    by (simp add: qs_def d'_def Let_def sort_key_map [where h = fst])
  have items: "(if sk then sort_key fst (encode_items sk d) else encode_items sk d) =
      map (\<lambda>p. (fst p, encode sk (snd p))) d'"
    by (simp add: d'_def encode_items_map sort_key_map [where h = fst])
  have "item_text (encode_string (fst p), encode sk (snd p)) = Inr (member_text (fst p, projr (encode sk (snd p))))"
    if "p \<in> set d'" for p using e(1) [OF that] by (metis item_text_def member_text_def andthen_simps(2) fst_conv snd_conv)
  then have "mapM (\<lambda>(k, r). item_text (encode_string k, r)) (map (\<lambda>p. (fst p, encode sk (snd p))) d') = Inr (map member_text ps)"
    by (intro mapM_some) (simp add: ps_def list_all2_map1 list_all2_map2 list_all2_same)
  moreover have "list_all2 (\<lambda>p q. fst p = fst q \<and> parses o' (snd p) (snd q)) ps qs"
    using e(2) by (auto simp: ps_def qs_def list_all2_map1 list_all2_map2 list_all2_same)
  moreover have "distinct (dkeys qs)" using mset by (simp add: qs_def comp_def)
  ultimately show ?thesis using parses_dict unfolding good_def c by (auto simp: items Let_def)
qed

lemma good_struct:
  assumes "\<forall>f \<in> set fs. good o' True (snd (snd f))" and "distinct (map fst fs)"
    and "\<forall>f \<in> set fs. encode_string (fst f) = DQ # fst f @ [DQ]"
  shows "good o' sk (PStruct fs)"
proof -
  define fs' where "fs' = filter (\<lambda>f. \<not> omitted (fst (snd f)) (snd (snd f))) fs"
  define ps where "ps = map (\<lambda>f. (fst f, projr (encode True (snd (snd f))))) fs'"
  define qs where "qs = map (\<lambda>f. (fst f, canon True (snd (snd f)))) fs'"
  have sub: "set fs' \<subseteq> set fs" and dist: "distinct (map fst fs')"
    using assms(2) by (auto simp: fs'_def distinct_map inj_on_def)
  have e: "encode True (snd (snd f)) = Inr (projr (encode True (snd (snd f))))"
      "parses o' (projr (encode True (snd (snd f)))) (canon True (snd (snd f)))"
      "encode_string (fst f) = DQ # fst f @ [DQ]"
    if "f \<in> set fs'" for f using assms(1,3) that sub good_projr by blast+
  have "item_text (DQ # fst f @ [DQ], encode True (snd (snd f))) =
      Inr (member_text (fst f, projr (encode True (snd (snd f)))))" if "f \<in> set fs'" for f
    using e(1,3) [OF that] by (metis item_text_def member_text_def andthen_simps(2) fst_conv snd_conv)
  then have "mapM item_text (encode_fields fs) = Inr (map member_text ps)"
    unfolding encode_fields_map fs'_def [symmetric]
    by (intro mapM_some) (simp add: ps_def list_all2_map1 list_all2_map2 list_all2_same)
  moreover have "list_all2 (\<lambda>p q. fst p = fst q \<and> parses o' (snd p) (snd q)) ps qs"
    using e(2) by (auto simp: ps_def qs_def list_all2_map1 list_all2_map2 list_all2_same)
  moreover have "distinct (dkeys qs)" using dist by (simp add: qs_def comp_def)
  ultimately have "parses o' (''{'' @ join '','' (map member_text ps) @ ''}'') (canon sk (PStruct fs))"
    using parses_dict by (simp add: qs_def fs'_def)
  with \<open>mapM item_text (encode_fields fs) = _\<close> show ?thesis by (auto simp: good_def)
qed

lemma plain_good:
  assumes "\<not> parse_int_float o'"
  shows "plain v \<Longrightarrow> good o' sk v"
proof (induction v arbitrary: sk)
  case (PBool b)
  then show ?case
    by (auto simp: good_def parse_word_def is_ws_def intro!: parses_word split: if_splits)
next
  case PNone
  show ?case by (auto simp: good_def parse_word_def is_ws_def intro!: parses_word)
next
  case (PInt i)
  obtain c cs where s: "str_int i = c # cs" "c = CHR ''-'' \<or> is_digit c" using str_int_hd by blast
  have "parses o' (str_int i) (PInt i)"
    by (rule parses_word [OF _ _ _ parse_word_int [OF _ assms]]) (use s in \<open>auto simp: is_digit_def is_ws_def\<close>)
  then show ?case by (simp add: good_def)
next
  case (PStr s)
  show ?case using parses_string by (simp add: good_def)
next
  case (PList vs)
  then show ?case by (intro good_list) (auto simp: list_all_iff)
next
  case (PDict d)
  then show ?case by (intro good_dict) (auto simp: list_all_iff snds.simps)
next
  case (PStruct fs)
  then show ?case by (intro good_struct) (auto simp: list_all_iff snds.simps)
qed simp_all

text \<open>The text of a plain value loads back as that value, with sorted dictionaries if it was sorted.\<close>

lemma loads_marshal:
  assumes "plain v" "\<not> parse_int_float o'"
  shows "\<exists>t. marshal sk v = Inr t \<and> loads o' t = Some (canon sk v)"
proof -
  from plain_good [OF assms(2,1)] obtain t where t: "encode sk v = Inr t" "parses o' t (canon sk v)"
    by (auto simp: good_def)
  have "parse_val (Suc (length t)) o' (t @ []) = Some (canon sk v, [])"
    by (rule parsesD [OF t(2)]) simp_all
  moreover have "skip_ws t = t" using parses_skip_ws [OF t(2), of "[]"] by simp
  ultimately have "loads o' t = Some (canon sk v)"
    by (simp only: loads_def append_Nil2) (simp del: parse_val.simps)
  with t(1) show ?thesis by (simp add: marshal_def)
qed

section \<open>No HTML-sensitive character in the output\<close>

definition html_safe :: "string \<Rightarrow> bool" where
  "html_safe s \<longleftrightarrow> CHR ''<'' \<notin> set s \<and> CHR ''>'' \<notin> set s \<and> CHR ''&'' \<notin> set s"

lemma html_safe_append [simp]: "html_safe (a @ b) \<longleftrightarrow> html_safe a \<and> html_safe b"
  by (auto simp: html_safe_def)

lemma hexd_alnum: "n < 16 \<Longrightarrow> hexd n \<notin> {CHR ''<'', CHR ''>'', CHR ''&''}"
  using hexval_hexd [of n] by (auto simp: hexval_def is_digit_def)

lemma html_safe_uesc: "html_safe (uesc n)"
proof -
  have "hexd (m mod 16) \<notin> {CHR ''<'', CHR ''>'', CHR ''&''}" for m by (rule hexd_alnum) simp
  then show ?thesis by (auto simp: html_safe_def uesc_def dest: sym)
qed

lemma html_safe_encode_char: "html_safe (encode_char c)"
  by (simp add: encode_char_def html_char_def html_safe_uesc) (auto simp: html_safe_def)

lemma html_safe_encode_chars: "html_safe (encode_chars s)"
proof (induction s rule: encode_chars.induct)
  case 1
  then show ?case by (simp add: html_safe_def)
next
  case (2 c cs)
  then show ?case by (simp add: html_safe_uesc html_safe_encode_char)
qed

lemma html_safe_encode_string: "html_safe (encode_string s)"
  using html_safe_encode_chars [of s] by (simp add: encode_string_def html_safe_def)

section \<open>Parsed dictionaries have distinct keys\<close>

fun distinct_keys :: "pyval \<Rightarrow> bool" where
  "distinct_keys (PList vs) = list_all distinct_keys vs"
| "distinct_keys (PDict d) = (distinct (dkeys d) \<and> list_all (\<lambda>p. distinct_keys (snd p)) d)"
| "distinct_keys _ = True"

lemma distinct_keys_foldl:
  "distinct_keys (PDict d) \<Longrightarrow> list_all (\<lambda>p. distinct_keys (snd p)) ps \<Longrightarrow>
    distinct_keys (PDict (foldl (\<lambda>m (k, v). dset k v m) d ps))"
proof (induction ps arbitrary: d)
  case (Cons p ps)
  obtain k v where p: "p = (k, v)" by (cases p)
  have "set (dset k v d) \<subseteq> insert (k, v) (set d)" by (induction d) auto
  then have "distinct_keys (PDict (dset k v d))" using Cons.prems p by (auto simp: list_all_iff)
  with Cons p show ?case by simp
qed simp

lemma distinct_keys_word: "parse_word o' s = Some (v, r) \<Longrightarrow> distinct_keys v"
  by (auto simp: parse_word_def parse_number_def Let_def split: if_splits list.splits prod.splits option.splits)

lemma parse_distinct_keys:
  "parse_val n o' s = Some (v, r) \<Longrightarrow> distinct_keys v"
  "parse_elems n o' s = Some (vs, r') \<Longrightarrow> list_all distinct_keys vs"
  "parse_members n o' s = Some (ps, r'') \<Longrightarrow> list_all (\<lambda>p. distinct_keys (snd p)) ps"
proof (induction n o' s and n o' s and n o' s arbitrary: v r and vs r' and ps r''
    rule: parse_val_parse_elems_parse_members.induct)
  case (2 n o' s)
  show ?case
  proof (cases s)
    case (Cons c cs)
    from "2.prems" Cons consider "c = DQ" | "c = CHR ''{''" | "c = CHR ''[''"
      | "c \<noteq> DQ" "c \<noteq> CHR ''{''" "c \<noteq> CHR ''[''" "parse_word o' s = Some (v, r)"
      by (auto split: if_splits)
    then show ?thesis
    proof cases
      case 2
      show ?thesis
      proof (cases "skip_ws cs")
        case Nil
        with 2 Cons "2.prems" show ?thesis by simp
      next
        case (Cons d rr)
        with 2 \<open>s = c # cs\<close> "2.prems" "2.IH"(1) show ?thesis
          using distinct_keys_foldl [of "[]"] by (auto split: if_splits simp del: distinct_keys.simps(2)) simp_all
      qed
    next
      case 3
      show ?thesis
      proof (cases "skip_ws cs")
        case Nil
        with 3 Cons "2.prems" show ?thesis by simp
      next
        case (Cons d rr)
        with 3 \<open>s = c # cs\<close> "2.prems" "2.IH"(2) show ?thesis by (auto split: if_splits)
      qed
    qed (use "2.prems" Cons distinct_keys_word in auto)
  qed (use "2.prems" in simp)
next
  case (4 n o' s)
  then show ?case by (fastforce split: option.splits list.splits if_splits prod.splits)
next
  case (6 n o' s)
  then show ?case by (fastforce split: option.splits list.splits if_splits prod.splits)
qed auto

lemma loads_distinct_keys: "loads o' t = Some v \<Longrightarrow> distinct_keys v"
  by (auto simp: loads_def simp del: parse_val.simps split: option.splits if_splits intro: parse_distinct_keys(1))

section \<open>Properties\<close>

text \<open>C34: marshalling a value built from null, booleans, integers, strings, lists, dictionaries and structs
  always succeeds, if no dictionary has a key twice and no name of a struct field needs an escape; floats and raw
  JSON are not covered. Parsing the text, with integers read as integers, gives the value back, dictionaries in key order when the encoder
  sorts, structs as dictionaries without their omitted fields.\<close>

theorem json_round_trip:
  assumes "plain v" "\<not> parse_int_float o'"
  shows "\<exists>t. marshal sk v = Inr t \<and> loads o' t = Some (canon sk v)"
  using assms by (rule loads_marshal)

theorem json_round_trip_witness:
  "\<exists>t. marshal True (PDict [(''b'', PList [PInt (- 12), PNone, PStr [DQ, NL, CHR ''<'']]), (''a'', PBool True)]) = Inr t \<and>
    loads opts_default t = Some (PDict [(''a'', PBool True), (''b'', PList [PInt (- 12), PNone, PStr [DQ, NL, CHR ''<'']])])"
proof -
  let ?v = "PDict [(''b'', PList [PInt (- 12), PNone, PStr [DQ, NL, CHR ''<'']]), (''a'', PBool True)]"
  have "canon True ?v = PDict [(''a'', PBool True), (''b'', PList [PInt (- 12), PNone, PStr [DQ, NL, CHR ''<'']])]"
    by simp
  then show ?thesis using json_round_trip [of ?v opts_default True] by auto
qed

text \<open>The encoding of any string is a literal that the parser reads back as that string, wherever it
  stands, and that contains none of the characters \<open><\<close>, \<open>>\<close> and \<open>&\<close>.\<close>

theorem json_string_literal:
  "encode_string s = DQ # tl (encode_string s) \<and> parse_str (tl (encode_string s) @ rest) = Some (s, rest) \<and>
   html_safe (encode_string s)"
  using html_safe_encode_string [of s] by (simp add: encode_string_def parse_str_encode_chars)

end
