(* ===== verification/Schema.thy ===== *)
theory Schema
  imports JsonRound
begin

text \<open>
  \<open>src/eds/schema.py\<close>: the schema metadata, its JSON form in both directions, the column order, and
  the reflected \<open>DatabaseSchema\<close>.

  Python does not check field types when it builds a dataclass from parsed JSON. The readers below
  give a \<open>TypeError\<close> where the JSON value has another type than the field's annotation, so such
  inputs are outside what the theorems say.
\<close>

section \<open>Typed readers for dictionary fields\<close>

definition get_str :: "pydict \<Rightarrow> string \<Rightarrow> string res" where
  "get_str d k = (case dget d k of None \<Rightarrow> Inr '''' | Some (PStr s) \<Rightarrow> Inr s | Some _ \<Rightarrow> Inl (TypeError k))"

definition get_opt_str :: "pydict \<Rightarrow> string \<Rightarrow> string option res" where
  "get_opt_str d k =
     (case dget d k of None \<Rightarrow> Inr None | Some PNone \<Rightarrow> Inr None | Some (PStr s) \<Rightarrow> Inr (Some s)
      | Some _ \<Rightarrow> Inl (TypeError k))"

definition get_opt_bool :: "pydict \<Rightarrow> string \<Rightarrow> bool option res" where
  "get_opt_bool d k =
     (case dget d k of None \<Rightarrow> Inr None | Some PNone \<Rightarrow> Inr None | Some (PBool b) \<Rightarrow> Inr (Some b)
      | Some _ \<Rightarrow> Inl (TypeError k))"

text \<open>\<open>bool(d.get(k, False))\<close>.\<close>

definition get_truth :: "pydict \<Rightarrow> string \<Rightarrow> bool" where
  "get_truth d k = (case dget d k of None \<Rightarrow> False | Some v \<Rightarrow> \<not> falsy v)"

definition as_str :: "pyval \<Rightarrow> string res" where
  "as_str v = (case v of PStr s \<Rightarrow> Inr s | _ \<Rightarrow> Inl (TypeError ''str''))"

definition get_opt_strs :: "pydict \<Rightarrow> string \<Rightarrow> string list option res" where
  "get_opt_strs d k =
     (case dget d k of None \<Rightarrow> Inr None | Some PNone \<Rightarrow> Inr None
      | Some (PList vs) \<Rightarrow> andthen (mapM as_str vs) (\<lambda>ss. Inr (Some ss))
      | Some _ \<Rightarrow> Inl (TypeError k))"

section \<open>Data\<close>

record items_type =
  it_type :: string
  it_enum :: "string list option"
  it_format :: string

record schema_property =
  sp_type :: string
  sp_format :: string
  sp_nullable :: bool
  sp_items :: "items_type option"
  sp_additional_properties :: "bool option"
  sp_comment :: "string option"
  sp_deprecated :: "bool option"

record schema =
  s_properties :: "(string \<times> schema_property) list"
  s_required :: "string list"
  s_primary_keys :: "string list"
  s_table :: string
  s_model_version :: string
  s_columns :: "string list option"

definition empty_property :: schema_property where
  "empty_property = \<lparr>sp_type = '''', sp_format = '''', sp_nullable = False, sp_items = None,
     sp_additional_properties = None, sp_comment = None, sp_deprecated = None\<rparr>"

definition empty_schema :: schema where
  "empty_schema = \<lparr>s_properties = [], s_required = [], s_primary_keys = [], s_table = '''',
     s_model_version = '''', s_columns = None\<rparr>"

definition is_not_null :: "schema_property \<Rightarrow> bool" where
  "is_not_null p \<longleftrightarrow> \<not> sp_nullable p \<or> sp_type p = ''array''"

definition is_array_or_json :: "schema_property \<Rightarrow> bool" where
  "is_array_or_json p \<longleftrightarrow> sp_type p \<in> {''object'', ''array''}"

text \<open>\<open>properties.get(name, SchemaProperty())\<close>, as every SQL builder reads a property.\<close>

definition prop_of :: "schema \<Rightarrow> string \<Rightarrow> schema_property" where
  "prop_of s name = (case dget (s_properties s) name of None \<Rightarrow> empty_property | Some p \<Rightarrow> p)"

text \<open>\<open>Schema.columns\<close>: the result, and the schema with the result cached.\<close>

definition compute_columns :: "schema \<Rightarrow> string list" where
  "compute_columns s =
     s_primary_keys s @ sort (filter (\<lambda>n. n \<notin> set (s_primary_keys s)) (dkeys (s_properties s)))"

definition columns_op :: "schema \<Rightarrow> string list \<times> schema" where
  "columns_op s =
     (case s_columns s of
        Some cs \<Rightarrow> (cs, s)
      | None \<Rightarrow> let cs = compute_columns s in (cs, s\<lparr>s_columns := Some cs\<rparr>))"

definition columns :: "schema \<Rightarrow> string list" where
  "columns s = fst (columns_op s)"

section \<open>JSON form\<close>

definition opt_val :: "('a \<Rightarrow> pyval) \<Rightarrow> 'a option \<Rightarrow> pyval" where
  "opt_val f x = (case x of None \<Rightarrow> PNone | Some y \<Rightarrow> f y)"

definition strs_val :: "string list \<Rightarrow> pyval" where
  "strs_val ss = PList (map PStr ss)"

definition items_struct :: "items_type \<Rightarrow> pyval" where
  "items_struct i = PStruct
     [(''type'', NEVER, PStr (it_type i)),
      (''enum'', IF_FALSY, opt_val strs_val (it_enum i)),
      (''format'', IF_FALSY, PStr (it_format i))]"

definition property_struct :: "schema_property \<Rightarrow> pyval" where
  "property_struct p = PStruct
     [(''type'', NEVER, PStr (sp_type p)),
      (''format'', IF_FALSY, PStr (sp_format p)),
      (''nullable'', IF_FALSY, PBool (sp_nullable p)),
      (''items'', IF_NONE, opt_val items_struct (sp_items p)),
      (''additionalProperties'', IF_NONE, opt_val PBool (sp_additional_properties p)),
      (''$comment'', IF_NONE, opt_val PStr (sp_comment p)),
      (''deprecated'', IF_NONE, opt_val PBool (sp_deprecated p))]"

definition schema_struct :: "schema \<Rightarrow> pyval" where
  "schema_struct s = PStruct
     [(''properties'', NEVER, PDict (map (\<lambda>(k, p). (k, property_struct p)) (s_properties s))),
      (''required'', NEVER, strs_val (s_required s)),
      (''primaryKeys'', NEVER, strs_val (s_primary_keys s)),
      (''table'', NEVER, PStr (s_table s)),
      (''modelVersion'', NEVER, PStr (s_model_version s))]"

definition items_from_dict :: "pydict \<Rightarrow> items_type res" where
  "items_from_dict d =
     andthen (get_str d ''type'') (\<lambda>t.
     andthen (get_opt_strs d ''enum'') (\<lambda>e.
     andthen (get_str d ''format'') (\<lambda>f.
       Inr \<lparr>it_type = t, it_enum = e, it_format = f\<rparr>)))"

definition property_from_dict :: "pydict \<Rightarrow> schema_property res" where
  "property_from_dict d =
     andthen (get_str d ''type'') (\<lambda>t.
     andthen (get_str d ''format'') (\<lambda>f.
     andthen (case dget d ''items'' of Some (PDict i) \<Rightarrow> andthen (items_from_dict i) (\<lambda>x. Inr (Some x))
              | _ \<Rightarrow> Inr None) (\<lambda>i.
     andthen (get_opt_bool d ''additionalProperties'') (\<lambda>a.
     andthen (get_opt_str d ''$comment'') (\<lambda>c.
     andthen (get_opt_bool d ''deprecated'') (\<lambda>dp.
       Inr \<lparr>sp_type = t, sp_format = f, sp_nullable = get_truth d ''nullable'', sp_items = i,
            sp_additional_properties = a, sp_comment = c, sp_deprecated = dp\<rparr>))))))"

text \<open>\<open>d.get(k) or default\<close> for the three containers of a schema.\<close>

definition get_dict_or :: "pydict \<Rightarrow> string \<Rightarrow> pydict res" where
  "get_dict_or d k =
     (case dget d k of None \<Rightarrow> Inr []
      | Some v \<Rightarrow> if falsy v then Inr [] else (case v of PDict x \<Rightarrow> Inr x | _ \<Rightarrow> Inl (TypeError k)))"

definition get_strs_or :: "pydict \<Rightarrow> string \<Rightarrow> string list res" where
  "get_strs_or d k =
     (case dget d k of None \<Rightarrow> Inr []
      | Some v \<Rightarrow> if falsy v then Inr [] else (case v of PList x \<Rightarrow> mapM as_str x | _ \<Rightarrow> Inl (TypeError k)))"

definition named_property :: "string \<times> pyval \<Rightarrow> (string \<times> schema_property) res" where
  "named_property kv =
     (case snd kv of PDict d \<Rightarrow> andthen (property_from_dict d) (\<lambda>p. Inr (fst kv, p))
      | _ \<Rightarrow> Inl (TypeError (fst kv)))"

definition schema_from_dict :: "pydict \<Rightarrow> schema res" where
  "schema_from_dict d =
     andthen (get_dict_or d ''properties'') (\<lambda>props.
     andthen (mapM named_property props) (\<lambda>ps.
     andthen (get_strs_or d ''required'') (\<lambda>req.
     andthen (get_strs_or d ''primaryKeys'') (\<lambda>pks.
     andthen (get_str d ''table'') (\<lambda>t.
     andthen (get_str d ''modelVersion'') (\<lambda>v.
       Inr \<lparr>s_properties = ps, s_required = req, s_primary_keys = pks, s_table = t,
            s_model_version = v, s_columns = None\<rparr>))))))"

section \<open>The reflected database schema\<close>

type_synonym database_schema = "(string \<times> (string \<times> string) list) list"

definition db_columns :: "database_schema \<Rightarrow> string \<Rightarrow> string list" where
  "db_columns db table = (case dget db table of None \<Rightarrow> [] | Some cols \<Rightarrow> sort (dkeys cols))"

definition get_type :: "database_schema \<Rightarrow> string \<Rightarrow> string \<Rightarrow> bool \<times> string" where
  "get_type db table column =
     (case dget db table of
        None \<Rightarrow> (False, '''')
      | Some cols \<Rightarrow> (case dget cols column of None \<Rightarrow> (False, '''') | Some t \<Rightarrow> (True, t)))"

text \<open>\<open>build_db_schema_from_info_schema\<close> on the rows the query returns.\<close>

definition add_info_row :: "database_schema \<Rightarrow> string \<times> string \<times> string \<Rightarrow> database_schema" where
  "add_info_row db r =
     (case r of (table, column, dtype) \<Rightarrow>
        dset table (dset column dtype (case dget db table of None \<Rightarrow> [] | Some cols \<Rightarrow> cols)) db)"

definition build_db_schema :: "string \<Rightarrow> string \<Rightarrow> bool \<Rightarrow> (string \<times> string \<times> string) list \<Rightarrow> database_schema res" where
  "build_db_schema column value fail_if_empty rows =
     (let res = foldl add_info_row [] rows in
      if fail_if_empty \<and> length res = 0
      then Inl (ValueError (''no tables found using '' @ column @ '' = '' @ value)) else Inr res)"

section \<open>Columns\<close>

definition wf_schema :: "schema \<Rightarrow> bool" where
  "wf_schema s \<longleftrightarrow> distinct (s_primary_keys s) \<and> distinct (dkeys (s_properties s)) \<and>
     (s_columns s = None \<or> s_columns s = Some (compute_columns s))"

lemma columns_eq: "wf_schema s \<Longrightarrow> columns s = compute_columns s"
  by (auto simp: columns_def columns_op_def wf_schema_def Let_def split: option.splits)

lemma columns_op_wf: "wf_schema s \<Longrightarrow> wf_schema (snd (columns_op s)) \<and> columns (snd (columns_op s)) = columns s"
  by (auto simp: columns_def columns_op_def wf_schema_def Let_def compute_columns_def split: option.splits)

lemma distinct_columns: "wf_schema s \<Longrightarrow> distinct (columns s)"
  by (auto simp: columns_eq) (auto simp: compute_columns_def wf_schema_def)

lemma set_columns: "wf_schema s \<Longrightarrow> set (columns s) = set (s_primary_keys s) \<union> fst ` set (s_properties s)"
  by (force simp: columns_eq compute_columns_def)

section \<open>The JSON form loads back\<close>

text \<open>
  What the JSON form keeps of a schema: everything, except that an empty \<open>enum\<close> list is omitted from
  the text and reads back as absent, that the properties come back in name order, and that the column
  cache is not written.
\<close>

definition norm_items :: "items_type \<Rightarrow> items_type" where
  "norm_items i = (if it_enum i = Some [] then i\<lparr>it_enum := None\<rparr> else i)"

definition norm_property :: "schema_property \<Rightarrow> schema_property" where
  "norm_property p = p\<lparr>sp_items := map_option norm_items (sp_items p)\<rparr>"

definition norm_schema :: "schema \<Rightarrow> schema" where
  "norm_schema s = s\<lparr>s_properties := map (\<lambda>kp. (fst kp, norm_property (snd kp))) (sort_key fst (s_properties s)),
     s_columns := None\<rparr>"

lemma plain_strs [simp]: "plain (strs_val ss)"
  by (simp add: strs_val_def list_all_iff)

lemma canon_strs [simp]: "canon sk (strs_val ss) = strs_val ss"
  by (simp add: strs_val_def comp_def)

lemma as_str_PStr [simp]: "mapM as_str (map PStr ss) = Inr ss"
  by (induction ss) (auto simp: as_str_def)

lemma key_plain: "list_all (\<lambda>c. CHR 0x20 \<le> c \<and> c \<notin> {DQ, BS, CHR ''<'', CHR ''>'', CHR ''&'', CHR 0xE2}) k
    \<Longrightarrow> encode_string k = DQ # k @ [DQ]"
proof (unfold encode_string_def, induction k)
  case (Cons c k)
  from Cons.prems have c: "\<not> c < CHR 0x20" "c \<notin> {DQ, BS, CHR ''<'', CHR ''>'', CHR ''&'', CHR 0xE2}"
    by (auto simp: not_less)
  from c(1) have "c \<notin> {NL, CR, TAB}" by (elim contrapos_nn insertE) (simp_all add: less_char_def)
  with c have "encode_char c = [c]" "c \<noteq> CHR 0xE2" by (simp_all add: encode_char_def html_char_def)
  with Cons show ?case by simp
qed simp

lemma struct_keys [simp]:
  "encode_string ''type'' = DQ # ''type'' @ [DQ]" "encode_string ''enum'' = DQ # ''enum'' @ [DQ]"
  "encode_string ''format'' = DQ # ''format'' @ [DQ]" "encode_string ''nullable'' = DQ # ''nullable'' @ [DQ]"
  "encode_string ''items'' = DQ # ''items'' @ [DQ]"
  "encode_string ''additionalProperties'' = DQ # ''additionalProperties'' @ [DQ]"
  "encode_string ''$comment'' = DQ # ''$comment'' @ [DQ]"
  "encode_string ''deprecated'' = DQ # ''deprecated'' @ [DQ]"
  "encode_string ''properties'' = DQ # ''properties'' @ [DQ]"
  "encode_string ''required'' = DQ # ''required'' @ [DQ]"
  "encode_string ''primaryKeys'' = DQ # ''primaryKeys'' @ [DQ]"
  "encode_string ''table'' = DQ # ''table'' @ [DQ]"
  "encode_string ''modelVersion'' = DQ # ''modelVersion'' @ [DQ]"
  by (rule key_plain, simp)+

lemma plain_items: "plain (items_struct i)"
  by (simp add: items_struct_def opt_val_def split: option.splits)

lemma plain_property: "plain (property_struct p)"
  by (simp add: property_struct_def opt_val_def plain_items split: option.splits)

text \<open>What a reader finds under a key of a rendered struct.\<close>

definition struct_dict :: "(string \<times> omit_empty \<times> pyval) list \<Rightarrow> pydict" where
  "struct_dict fs = map (\<lambda>f. (fst f, canon True (snd (snd f)))) (filter (\<lambda>f. \<not> omitted (fst (snd f)) (snd (snd f))) fs)"

lemma struct_dict_get:
  "distinct (map fst fs) \<Longrightarrow> dget (struct_dict fs) k =
     (case dget fs k of None \<Rightarrow> None | Some (r, v) \<Rightarrow> if omitted r v then None else Some (canon True v))"
proof (induction fs)
  case (Cons f fs)
  obtain k' r v where f: "f = (k', r, v)" by (cases f)
  have "dget fs k' = None" using Cons.prems f by (auto simp: map_of_eq_None_iff)
  with Cons f show ?case by (auto simp: struct_dict_def)
qed (simp add: struct_dict_def)

lemma canon_items: "\<exists>d. canon True (items_struct i) = PDict d \<and> items_from_dict d = Inr (norm_items i)"
proof (cases i)
  case (fields t e f)
  then show ?thesis
    by (cases e) (auto simp: items_struct_def norm_items_def items_from_dict_def get_str_def get_opt_strs_def
        opt_val_def strs_val_def comp_def)
qed

lemma canon_property: "\<exists>d. canon True (property_struct p) = PDict d \<and> property_from_dict d = Inr (norm_property p)"
proof -
  obtain fs where fs: "property_struct p = PStruct fs" "distinct (map fst fs)"
    and g: "dget fs ''type'' = Some (NEVER, PStr (sp_type p))"
      "dget fs ''format'' = Some (IF_FALSY, PStr (sp_format p))"
      "dget fs ''nullable'' = Some (IF_FALSY, PBool (sp_nullable p))"
      "dget fs ''items'' = Some (IF_NONE, opt_val items_struct (sp_items p))"
      "dget fs ''additionalProperties'' = Some (IF_NONE, opt_val PBool (sp_additional_properties p))"
      "dget fs ''$comment'' = Some (IF_NONE, opt_val PStr (sp_comment p))"
      "dget fs ''deprecated'' = Some (IF_NONE, opt_val PBool (sp_deprecated p))"
    by (simp add: property_struct_def)
  note get = struct_dict_get [OF fs(2)] g
  have "get_str (struct_dict fs) ''type'' = Inr (sp_type p)" by (simp add: get_str_def get)
  moreover have "get_str (struct_dict fs) ''format'' = Inr (sp_format p)" by (simp add: get_str_def get)
  moreover have "get_truth (struct_dict fs) ''nullable'' = sp_nullable p" by (simp add: get_truth_def get)
  moreover have "get_opt_bool (struct_dict fs) ''additionalProperties'' = Inr (sp_additional_properties p)"
    by (simp add: get_opt_bool_def get opt_val_def split: option.splits)
  moreover have "get_opt_str (struct_dict fs) ''$comment'' = Inr (sp_comment p)"
    by (simp add: get_opt_str_def get opt_val_def split: option.splits)
  moreover have "get_opt_bool (struct_dict fs) ''deprecated'' = Inr (sp_deprecated p)"
    by (simp add: get_opt_bool_def get opt_val_def split: option.splits)
  moreover have "(case dget (struct_dict fs) ''items'' of Some (PDict i) \<Rightarrow> andthen (items_from_dict i) (\<lambda>x. Inr (Some x))
      | _ \<Rightarrow> Inr None) = Inr (sp_items (norm_property p))"
  proof (cases "sp_items p")
    case (Some it)
    obtain id where "canon True (items_struct it) = PDict id" "items_from_dict id = Inr (norm_items it)"
      using canon_items by blast
    with Some show ?thesis by (simp add: get opt_val_def items_struct_def norm_property_def)
  qed (simp add: get opt_val_def norm_property_def)
  ultimately have "property_from_dict (struct_dict fs) = Inr (norm_property p)"
    by (simp add: property_from_dict_def norm_property_def)
  with fs(1) show ?thesis by (simp add: struct_dict_def)
qed

lemma schema_from_dict_canon:
  "\<exists>d. canon True (schema_struct s) = PDict d \<and> schema_from_dict d = Inr (norm_schema s)"
proof -
  define pd where "pd = (\<lambda>p. case canon True (property_struct p) of PDict d \<Rightarrow> d | _ \<Rightarrow> [])"
  have pd: "canon True (property_struct p) = PDict (pd p)" "property_from_dict (pd p) = Inr (norm_property p)" for p
    using canon_property [of p] by (auto simp: pd_def)
  let ?ps = "map (\<lambda>kp. (fst kp, PDict (pd (snd kp)))) (sort_key fst (s_properties s))"
  have "sort_key fst (map (\<lambda>kp. (fst kp, PDict (pd (snd kp)))) (s_properties s)) = ?ps"
    by (rule sort_key_map) simp
  then have "canon True (PDict (map (\<lambda>(k, p). (k, property_struct p)) (s_properties s))) = PDict ?ps"
    by (simp add: case_prod_beta comp_def pd)
  moreover have "mapM named_property ?ps = Inr (s_properties (norm_schema s))"
    by (simp add: norm_schema_def) (rule mapM_some, auto simp: list_all2_conv_all_nth named_property_def pd)
  ultimately show ?thesis
    by (auto simp: schema_struct_def schema_from_dict_def get_dict_or_def get_strs_or_def get_str_def strs_val_def
        comp_def norm_schema_def)
qed

lemma plain_schema: "distinct (dkeys (s_properties s)) \<Longrightarrow> plain (schema_struct s)"
  by (auto simp: schema_struct_def case_prod_beta comp_def list_all_iff plain_property)

text \<open>A schema read from JSON has distinct property names.\<close>

lemma mapM_named_keys: "mapM named_property props = Inr ps \<Longrightarrow> dkeys ps = dkeys props"
  by (induction props arbitrary: ps)
     (auto simp: andthen_Inr_conv named_property_def split: pyval.splits)

lemma schema_from_dict_distinct:
  assumes "schema_from_dict d = Inr s" "distinct_keys (PDict d)"
  shows "distinct (dkeys (s_properties s))"
proof -
  from assms(1) obtain props where p: "get_dict_or d ''properties'' = Inr props"
    and m: "mapM named_property props = Inr (s_properties s)"
    by (auto simp: schema_from_dict_def andthen_Inr_conv)
  have "distinct (dkeys props)"
  proof (cases "dget d ''properties''")
    case (Some v)
    then have "(''properties'', v) \<in> set d" by (rule map_of_SomeD)
    with assms(2) have "distinct_keys v" by (auto simp: list_all_iff)
    with p Some show ?thesis by (auto simp: get_dict_or_def split: if_splits pyval.splits)
  qed (use p in \<open>simp add: get_dict_or_def\<close>)
  with mapM_named_keys [OF m] show ?thesis by simp
qed

lemma sort_key_idem: "sort_key f (sort_key f xs) = sort_key f xs"
  by (simp add: sorted_sort_id sort_key_id_if_sorted)

lemma norm_norm [simp]: "norm_schema (norm_schema s) = norm_schema s"
proof -
  have "sort_key fst (map (\<lambda>kp. (fst kp, norm_property (snd kp))) xs) =
      map (\<lambda>kp. (fst kp, norm_property (snd kp))) (sort_key fst xs)" for xs :: "(string \<times> schema_property) list"
    by (rule sort_key_map) simp
  moreover have "norm_items (norm_items i) = norm_items i" for i by (simp add: norm_items_def)
  then have "norm_property (norm_property p) = norm_property p" for p
    by (simp add: norm_property_def option.map_comp comp_def)
  ultimately show ?thesis by (simp add: norm_schema_def sort_key_idem comp_def)
qed

section \<open>Properties\<close>

text \<open>The column list of a table, computed or cached: the primary keys first, in their order, then the
  other properties in ascending order, each name once, and exactly the names of the schema. Asking for the
  columns caches them and does not change later answers.\<close>

theorem schema_columns:
  assumes "wf_schema s"
  shows "take (length (s_primary_keys s)) (columns s) = s_primary_keys s \<and>
    sorted (drop (length (s_primary_keys s)) (columns s)) \<and> distinct (columns s) \<and>
    set (columns s) = set (s_primary_keys s) \<union> set (dkeys (s_properties s)) \<and>
    wf_schema (snd (columns_op s)) \<and> columns (snd (columns_op s)) = columns s"
  using assms columns_eq [OF assms] distinct_columns [OF assms] set_columns [OF assms] columns_op_wf [OF assms]
  by (simp add: compute_columns_def)

theorem schema_columns_witness:
  "let s = empty_schema\<lparr>s_properties := [(''name'', empty_property), (''id'', empty_property), (''age'', empty_property)],
             s_primary_keys := [''id'']\<rparr> in
   wf_schema s \<and> columns s = [''id'', ''age'', ''name''] \<and> columns (snd (columns_op s)) = columns s"
  using schema_columns [of "empty_schema\<lparr>s_properties := [(''name'', empty_property), (''id'', empty_property), (''age'', empty_property)],
             s_primary_keys := [''id'']\<rparr>"]
  by (simp add: Let_def wf_schema_def empty_schema_def columns_def columns_op_def compute_columns_def)

text \<open>A schema written as JSON text reads back as itself up to the order of its properties, an empty
  \<open>enum\<close> list, which is not written, and the column cache.\<close>

theorem schema_round_trip:
  assumes "distinct (dkeys (s_properties s))"
  shows "\<exists>t d. marshal True (schema_struct s) = Inr t \<and> loads opts_default t = Some (PDict d) \<and>
    schema_from_dict d = Inr (norm_schema s)"
  using loads_marshal [OF plain_schema [OF assms], of opts_default True] schema_from_dict_canon [of s] by auto

theorem schema_round_trip_witness:
  "let p = empty_property\<lparr>sp_items := Some \<lparr>it_type = ''string'', it_enum = Some [], it_format = ''''\<rparr>, sp_comment := Some ''''\<rparr>;
       s = empty_schema\<lparr>s_table := ''t'', s_properties := [(''tags'', p)]\<rparr> in
   \<exists>t d. marshal True (schema_struct s) = Inr t \<and> loads opts_default t = Some (PDict d) \<and>
    schema_from_dict d = Inr (s\<lparr>s_properties := [(''tags'', p\<lparr>sp_items := Some \<lparr>it_type = ''string'', it_enum = None, it_format = ''''\<rparr>\<rparr>)]\<rparr>)"
  using schema_round_trip [of "empty_schema\<lparr>s_table := ''t'', s_properties := [(''tags'',
     empty_property\<lparr>sp_items := Some \<lparr>it_type = ''string'', it_enum = Some [], it_format = ''''\<rparr>, sp_comment := Some ''''\<rparr>)]\<rparr>"]
  by (simp add: Let_def norm_schema_def norm_property_def norm_items_def empty_schema_def empty_property_def)

end
