(* ===== verification/Events.thy ===== *)
theory Events
  imports Schema "HOL-Library.Multiset"
begin

text \<open>
  The change events and what is done to them before a driver sees them: \<open>src/eds/dbchange.py\<close>,
  \<open>src/eds/util/batcher.py\<close> and \<open>src/eds/util/optimize.py\<close>.

  An event caches its parsed object, so the readers return the event as well. A NATS message is the
  number the consumer knows it by. The message fields are read with the typed readers of \<open>Schema\<close>: a
  field of another type than its annotation is a \<open>TypeError\<close> here and outside what the theorems say. A
  record's object and difference list are values; in the code they are shared with its event, which
  nothing reads again once the record is in a batch.
\<close>

section \<open>Events\<close>

record db_change_event =
  ev_operation :: string
  ev_id :: string
  ev_table :: string
  ev_key :: "string list option"
  ev_model_version :: string
  ev_company_id :: "string option"
  ev_location_id :: "string option"
  ev_user_id :: "string option"
  ev_before :: "string option"
  ev_after :: "string option"
  ev_diff :: "string list option"
  ev_timestamp :: int
  ev_mvcc_timestamp :: string
  ev_imported :: bool
  ev_nats_msg :: "nat option"
  ev_schema_validated_path :: "string option"
  ev_object :: "pydict option"

definition parse_object :: "string \<Rightarrow> db_change_event \<Rightarrow> pydict option res \<times> db_change_event" where
  "parse_object raw ev =
     (case ev_object ev of
        Some d \<Rightarrow> (Inr (Some d), ev)
      | None \<Rightarrow>
          (case loads opts_float raw of
             None \<Rightarrow> (Inl (ValueError ''invalid JSON''), ev)
           | Some PNone \<Rightarrow> (Inr None, ev)
           | Some (PDict d) \<Rightarrow> (Inr (Some d), ev\<lparr>ev_object := Some d\<rparr>)
           | Some _ \<Rightarrow> (Inl (ValueError ''before/after is malformed''), ev)))"

definition get_object :: "db_change_event \<Rightarrow> pydict option res \<times> db_change_event" where
  "get_object ev =
     (case ev_after ev of
        Some a \<Rightarrow>
          if length a > 0 then parse_object a ev
          else (case ev_before ev of Some b \<Rightarrow> if length b > 0 then parse_object b ev else (Inr None, ev)
                | None \<Rightarrow> (Inr None, ev))
      | None \<Rightarrow>
          (case ev_before ev of Some b \<Rightarrow> if length b > 0 then parse_object b ev else (Inr None, ev)
           | None \<Rightarrow> (Inr None, ev)))"

definition get_primary_key :: "db_change_event \<Rightarrow> string res \<times> db_change_event" where
  "get_primary_key ev =
     (case ev_key ev of
        Some (k # ks) \<Rightarrow> (Inr (last (k # ks)), ev)
      | _ \<Rightarrow>
          andthen_st (get_object ev) (\<lambda>obj ev'.
            (Inr (case obj of
                    Some d \<Rightarrow> (case dget d ''id'' of Some (PStr v) \<Rightarrow> v | _ \<Rightarrow> '''')
                  | None \<Rightarrow> ''''), ev')))"

definition omit_properties :: "string list \<Rightarrow> db_change_event \<Rightarrow> unit res \<times> db_change_event" where
  "omit_properties props ev =
     andthen_st (get_object ev) (\<lambda>obj ev'.
       case obj of None \<Rightarrow> (Inr (), ev') | Some d \<Rightarrow> (Inr (), ev'\<lparr>ev_object := Some (fold ddel props d)\<rparr>))"

definition event_struct :: "db_change_event \<Rightarrow> (string \<times> omit_empty \<times> pyval) list" where
  "event_struct ev =
     [(''operation'', NEVER, PStr (ev_operation ev)),
      (''id'', NEVER, PStr (ev_id ev)),
      (''table'', NEVER, PStr (ev_table ev)),
      (''key'', NEVER, opt_val strs_val (ev_key ev)),
      (''modelVersion'', NEVER, PStr (ev_model_version ev)),
      (''companyId'', IF_NONE, opt_val PStr (ev_company_id ev)),
      (''locationId'', IF_NONE, opt_val PStr (ev_location_id ev)),
      (''userId'', IF_NONE, opt_val PStr (ev_user_id ev)),
      (''before'', IF_EMPTY_RAW, opt_val PRaw (ev_before ev)),
      (''after'', IF_EMPTY_RAW, opt_val PRaw (ev_after ev)),
      (''diff'', IF_FALSY, opt_val strs_val (ev_diff ev)),
      (''timestamp'', NEVER, PInt (ev_timestamp ev)),
      (''mvccTimestamp'', NEVER, PStr (ev_mvcc_timestamp ev)),
      (''imported'', IF_FALSY, PBool (ev_imported ev))]"

definition to_json :: "db_change_event \<Rightarrow> string res" where
  "to_json ev = gojson_struct (event_struct ev)"

definition raw_field :: "pydict \<Rightarrow> string \<Rightarrow> string option res" where
  "raw_field m key =
     (case dget m key of None \<Rightarrow> Inr None | Some v \<Rightarrow> andthen (marshal False v) (\<lambda>t. Inr (Some t)))"

text \<open>\<open>int(m.get("timestamp", 0))\<close> on an integer or a boolean.\<close>

definition get_int :: "pydict \<Rightarrow> string \<Rightarrow> int res" where
  "get_int m k =
     (case dget m k of None \<Rightarrow> Inr 0 | Some (PInt i) \<Rightarrow> Inr i | Some (PBool b) \<Rightarrow> Inr (if b then 1 else 0)
      | Some _ \<Rightarrow> Inl (TypeError k))"

definition event_of_dict :: "pydict \<Rightarrow> db_change_event res" where
  "event_of_dict m =
     andthen (get_str m ''operation'') (\<lambda>op.
     andthen (get_str m ''id'') (\<lambda>i.
     andthen (get_str m ''table'') (\<lambda>t.
     andthen (get_opt_strs m ''key'') (\<lambda>k.
     andthen (get_str m ''modelVersion'') (\<lambda>mv.
     andthen (get_opt_str m ''companyId'') (\<lambda>ci.
     andthen (get_opt_str m ''locationId'') (\<lambda>li.
     andthen (get_opt_str m ''userId'') (\<lambda>ui.
     andthen (raw_field m ''before'') (\<lambda>b.
     andthen (raw_field m ''after'') (\<lambda>a.
     andthen (get_opt_strs m ''diff'') (\<lambda>d.
     andthen (get_int m ''timestamp'') (\<lambda>ts.
     andthen (get_str m ''mvccTimestamp'') (\<lambda>mt.
       Inr \<lparr>ev_operation = op, ev_id = i, ev_table = t, ev_key = k, ev_model_version = mv, ev_company_id = ci,
            ev_location_id = li, ev_user_id = ui, ev_before = b, ev_after = a, ev_diff = d, ev_timestamp = ts,
            ev_mvcc_timestamp = mt, ev_imported = get_truth m ''imported'', ev_nats_msg = None,
            ev_schema_validated_path = None, ev_object = None\<rparr>)))))))))))))"

definition message_suffix :: "int \<Rightarrow> string \<Rightarrow> string" where
  "message_suffix seq raw = '' (seq:'' @ str_int seq @ '') raw message:'' @ [NL] @ raw"

text \<open>The checks \<open>from_message\<close> makes on the event it has built.\<close>

definition check_event :: "string \<Rightarrow> int \<Rightarrow> db_change_event \<Rightarrow> db_change_event res" where
  "check_event data seq evt =
     (case get_object evt of
        (Inl (ValueError e), _) \<Rightarrow>
          Inl (ValueError (''error getting object (before/after is malformed): '' @ e @ message_suffix seq data))
      | (Inl e, _) \<Rightarrow> Inl e
      | (Inr _, evt1) \<Rightarrow>
          (case get_primary_key evt1 of
             (Inl e, _) \<Rightarrow> Inl e
           | (Inr pk, evt2) \<Rightarrow>
               if pk = '''' then Inl (ValueError (''primary key is empty: '' @ ev_id evt2 @ message_suffix seq data))
               else Inr evt2))"

definition from_message :: "string \<Rightarrow> int \<Rightarrow> db_change_event res" where
  "from_message data seq =
     (case loads opts_default data of
        None \<Rightarrow> Inl (ValueError (''error unmarshalling message into DBChangeEvent: invalid JSON'' @ message_suffix seq data))
      | Some (PDict m) \<Rightarrow>
          andthen (event_of_dict m) (check_event data seq)
      | Some _ \<Rightarrow> Inl (ValueError (''error unmarshalling message into DBChangeEvent: not an object'' @ message_suffix seq data)))"

section \<open>Batches\<close>

record change_record =
  r_table :: string
  r_id :: string
  r_operation :: string
  r_diff :: "string list option"
  r_object :: "pydict option"
  r_event :: "db_change_event option"

definition record_struct :: "change_record \<Rightarrow> (string \<times> omit_empty \<times> pyval) list" where
  "record_struct r =
     [(''table'', NEVER, PStr (r_table r)),
      (''id'', NEVER, PStr (r_id r)),
      (''operation'', NEVER, PStr (r_operation r)),
      (''diff'', NEVER, opt_val strs_val (r_diff r)),
      (''object'', NEVER, opt_val PDict (r_object r))]"

definition record_str :: "change_record \<Rightarrow> string" where
  "record_str r = stringify (PStruct (record_struct r))"

text \<open>The batcher is its list of records. \<open>add\<close> returns the event with its object cached.\<close>

type_synonym batcher = "change_record list"

definition batcher_add :: "db_change_event \<Rightarrow> batcher \<Rightarrow> unit res \<times> batcher" where
  "batcher_add ev b =
     (case get_object ev of
        (Inl e, _) \<Rightarrow> (Inl e, b)
      | (Inr obj, ev1) \<Rightarrow>
          (case get_primary_key ev1 of
             (Inl e, _) \<Rightarrow> (Inl e, b)
           | (Inr pk, ev2) \<Rightarrow>
               (Inr (), b @ [\<lparr>r_table = ev_table ev2, r_id = pk, r_operation = ev_operation ev2, r_diff = ev_diff ev2,
                              r_object = obj, r_event = Some ev2\<rparr>])))"

definition batcher_clear :: "batcher \<Rightarrow> batcher" where
  "batcher_clear b = []"

section \<open>Collapsing a batch\<close>

text \<open>
  \<open>float(s)\<close> on a decimal literal: an optional sign, digits with an optional point and exponent,
  surrounding white space. \<open>None\<close> is a \<open>ValueError\<close>. (The spellings of infinity and NaN, and
  underscores between digits, do not occur in CockroachDB timestamps and are not modelled.)
\<close>

definition strip_ws :: "string \<Rightarrow> string" where
  "strip_ws s = rev (dropWhile is_ws (rev (dropWhile is_ws s)))"

definition py_float :: "string \<Rightarrow> pyfloat option" where
  "py_float s =
     (let s0 = strip_ws s;
          (neg, s1) = (case s0 of c # r \<Rightarrow> if c = CHR ''-'' then (True, r) else if c = CHR ''+'' then (False, r) else (False, s0)
                       | [] \<Rightarrow> (False, s0));
          (ip, s2) = take_digits s1;
          (fr, s3) = (case s2 of c # r \<Rightarrow> if c = CHR ''.'' then take_digits r else ([], s2) | [] \<Rightarrow> ([], s2));
          (ex, s4) = parse_exp s3
      in if (ip = [] \<and> fr = []) \<or> s4 \<noteq> [] then None
         else Some (float_of neg (nat_of_digits (ip @ fr)) ((case ex of None \<Rightarrow> 0 | Some e \<Rightarrow> e) - int (length fr))))"

text \<open>
  Floats in ascending order: the shortest decimal of a finite float has an exponent above \<open>-400\<close>, so
  scaling by \<open>10 ^ 400\<close> gives an integer that orders floats as their values do.
\<close>

definition infinite_rank :: int where
  "infinite_rank = 10 ^ 1000"

fun float_rank :: "pyfloat \<Rightarrow> int" where
  "float_rank (Fin neg m e) = (if neg then - (int m * 10 ^ nat (e + 400)) else int m * 10 ^ nat (e + 400))"
| "float_rank PosInf = infinite_rank"
| "float_rank NegInf = - infinite_rank"
| "float_rank NaN = 0"

definition mvcc_rank :: "change_record \<Rightarrow> int" where
  "mvcc_rank r =
     (case r_event r of None \<Rightarrow> 0
      | Some ev \<Rightarrow> (case py_float (ev_mvcc_timestamp ev) of None \<Rightarrow> 0 | Some f \<Rightarrow> float_rank f))"

definition sort_records_by_mvcc_timestamp :: "change_record list \<Rightarrow> change_record list" where
  "sort_records_by_mvcc_timestamp rs = sort_key mvcc_rank rs"

datatype batch_kind = delete_with_batch | update_with_batch | without_batch

definition batch_type :: "change_record \<Rightarrow> change_record \<Rightarrow> batch_kind" where
  "batch_type record previous =
     (if r_operation record = ''DELETE'' then delete_with_batch
      else if r_operation record = ''UPDATE'' then
        (if r_operation previous = ''UPDATE'' then update_with_batch else without_batch)
      else without_batch)"

text \<open>\<open>d.update(o)\<close> and the append loop on the difference list.\<close>

definition dict_update :: "('k \<times> 'v) list \<Rightarrow> ('k \<times> 'v) list \<Rightarrow> ('k \<times> 'v) list" where
  "dict_update d o' = foldl (\<lambda>d (k, v). dset k v d) d o'"

definition diff_union :: "string list \<Rightarrow> string list \<Rightarrow> string list" where
  "diff_union p d = foldl (\<lambda>p x. if x \<in> set p then p else p @ [x]) p d"

definition or_empty :: "'a list option \<Rightarrow> 'a list" where
  "or_empty x = (case x of None \<Rightarrow> [] | Some y \<Rightarrow> y)"

definition merge_update :: "change_record \<Rightarrow> change_record \<Rightarrow> change_record" where
  "merge_update previous record =
     previous\<lparr>r_diff := Some (diff_union (or_empty (r_diff previous)) (or_empty (r_diff record))),
              r_event := r_event record,
              r_object := Some (dict_update (or_empty (r_object previous)) (or_empty (r_object record)))\<rparr>"

text \<open>The loop of \<open>_combine\<close>. \<open>previous\<close> is always the last element of \<open>collapsed\<close>.\<close>

fun combine_loop :: "change_record list \<Rightarrow> change_record \<Rightarrow> change_record list \<Rightarrow> change_record list" where
  "combine_loop done previous [] = done @ [previous]"
| "combine_loop done previous (record # rest) =
     (case batch_type record previous of
        delete_with_batch \<Rightarrow> combine_loop [] record rest
      | update_with_batch \<Rightarrow> combine_loop done (merge_update previous record) rest
      | without_batch \<Rightarrow> combine_loop (done @ [previous]) record rest)"

fun combine :: "change_record list \<Rightarrow> change_record list" where
  "combine [] = []"
| "combine (r # rs) = combine_loop [] r rs"

definition group_key :: "change_record \<Rightarrow> string" where
  "group_key r = r_table r @ r_id r"

definition group_records :: "change_record list \<Rightarrow> (string \<times> change_record list) list" where
  "group_records rs =
     foldl (\<lambda>groups r. dset (group_key r) (or_empty (dget groups (group_key r)) @ [r]) groups) [] rs"

definition combine_records_with_same_primary_key :: "change_record list \<Rightarrow> change_record list" where
  "combine_records_with_same_primary_key rs = concat (map (\<lambda>g. combine (snd g)) (group_records rs))"

section \<open>Lemmas on events\<close>

lemma parse_object_cached:
  "parse_object raw ev = (Inr (Some d), ev') \<Longrightarrow> ev_object ev' = Some d \<and> ev_after ev' = ev_after ev \<and> ev_before ev' = ev_before ev"
  by (auto simp: parse_object_def split: option.splits pyval.splits)

lemma parse_object_frame: "snd (parse_object raw ev) = ev\<lparr>ev_object := ev_object (snd (parse_object raw ev))\<rparr>"
  by (auto simp: parse_object_def split: option.splits pyval.splits)

lemma get_object_frame: "snd (get_object ev) = ev\<lparr>ev_object := ev_object (snd (get_object ev))\<rparr>"
  using parse_object_frame by (auto simp: get_object_def split: option.splits)

lemma parse_object_again:
  assumes "parse_object raw ev = (Inr x, ev')"
  shows "parse_object raw ev' = (Inr x, ev')"
proof (cases "ev_object ev")
  case (Some d)
  then have "parse_object raw ev = (Inr (Some d), ev)" by (simp add: parse_object_def)
  with assms show ?thesis by simp
next
  case None
  with assms show ?thesis by (cases "loads opts_float raw") (auto simp: parse_object_def split: pyval.splits)
qed

lemma get_object_cases:
  "(\<exists>raw. \<forall>obj. get_object (ev\<lparr>ev_object := obj\<rparr>) = parse_object raw (ev\<lparr>ev_object := obj\<rparr>)) \<or>
   (\<forall>obj. get_object (ev\<lparr>ev_object := obj\<rparr>) = (Inr None, ev\<lparr>ev_object := obj\<rparr>))"
  by (cases "ev_after ev"; cases "ev_before ev") (auto simp: get_object_def)

lemma get_object_again:
  assumes "get_object ev = (Inr x, ev')"
  shows "get_object ev' = (Inr x, ev')"
proof -
  have same: "ev\<lparr>ev_object := ev_object ev\<rparr> = ev" by simp
  have ev': "ev' = ev\<lparr>ev_object := ev_object ev'\<rparr>" using get_object_frame [of ev] assms by simp
  from get_object_cases [of ev] show ?thesis
  proof (elim disjE exE)
    fix raw assume h: "\<forall>obj. get_object (ev\<lparr>ev_object := obj\<rparr>) = parse_object raw (ev\<lparr>ev_object := obj\<rparr>)"
    with assms same have "parse_object raw ev = (Inr x, ev')" by metis
    then have "parse_object raw ev' = (Inr x, ev')" by (rule parse_object_again)
    with h ev' show ?thesis by metis
  next
    assume h: "\<forall>obj. get_object (ev\<lparr>ev_object := obj\<rparr>) = (Inr None, ev\<lparr>ev_object := obj\<rparr>)"
    with assms same show ?thesis by (metis Pair_inject)
  qed
qed

lemma get_primary_key_again:
  assumes "get_object ev = (Inr x, ev')"
  shows "\<exists>pk. get_primary_key ev' = (Inr pk, ev')"
proof -
  note g = get_object_again [OF assms]
  show ?thesis
  proof (cases "\<exists>k ks. ev_key ev' = Some (k # ks)")
    case True
    then show ?thesis by (auto simp: get_primary_key_def)
  next
    case False
    then show ?thesis unfolding get_primary_key_def g by (cases "ev_key ev'" rule: option.exhaust) (auto split: list.splits)
  qed
qed

lemma check_event_Inr:
  assumes "check_event data seq evt = Inr ev"
  shows "\<exists>obj pk. get_object evt = (Inr obj, ev) \<and> get_primary_key ev = (Inr pk, ev) \<and> pk \<noteq> ''''"
proof (cases "get_object evt")
  case (Pair x ev1)
  show ?thesis
  proof (cases x)
    case (Inl e)
    with Pair assms show ?thesis by (cases e) (simp_all add: check_event_def)
  next
    case (Inr obj)
    with Pair have g: "get_object evt = (Inr obj, ev1)" by simp
    from get_primary_key_again [OF this] obtain pk where pk: "get_primary_key ev1 = (Inr pk, ev1)" by blast
    with g assms have "pk \<noteq> ''''" "ev1 = ev" by (simp_all add: check_event_def split: if_splits)
    with g pk show ?thesis by blast
  qed
qed

section \<open>Lemmas on dictionaries and groups\<close>

lemma dict_update_get:
  "distinct (dkeys o') \<Longrightarrow> dget (dict_update d o') x = (case dget o' x of None \<Rightarrow> dget d x | Some v \<Rightarrow> Some v)"
proof (unfold dict_update_def, induction o' arbitrary: d)
  case (Cons p o')
  obtain k v where p: "p = (k, v)" by (cases p)
  from Cons.prems p have "dget o' k = None" by (simp add: map_of_eq_None_iff)
  with Cons p show ?case by (auto split: option.splits)
qed simp

lemma map_of_dict_update: "distinct (dkeys o') \<Longrightarrow> map_of (dict_update d o') = map_of d ++ map_of o'"
  by (rule ext) (simp add: dict_update_get map_add_def)

lemma distinct_dict_update: "distinct (dkeys d) \<Longrightarrow> distinct (dkeys (dict_update d o'))"
  unfolding dict_update_def by (induction o' arbitrary: d) auto

lemma set_diff_union: "set (diff_union p d) = set p \<union> set d"
  unfolding diff_union_def by (induction d arbitrary: p) auto

lemma group_records_snoc:
  "group_records (rs @ [r]) = dset (group_key r) (or_empty (dget (group_records rs) (group_key r)) @ [r]) (group_records rs)"
  by (simp add: group_records_def)

lemma group_records_distinct: "distinct (dkeys (group_records rs))"
  by (induction rs rule: rev_induct) (simp_all add: group_records_snoc, simp add: group_records_def)

lemma group_records_get:
  "dget (group_records rs) k = (if filter (\<lambda>r. group_key r = k) rs = [] then None else Some (filter (\<lambda>r. group_key r = k) rs))"
proof (induction rs rule: rev_induct)
  case Nil
  then show ?case by (simp add: group_records_def)
next
  case (snoc r rs)
  then show ?case
    by (cases "filter (\<lambda>x. group_key x = group_key r) rs = []")
       (auto simp: group_records_snoc or_empty_def simp del: filter_empty_conv)
qed

lemma concat_one_key:
  "distinct (dkeys xs) \<Longrightarrow> concat (map (\<lambda>g. if fst g = k then h (snd g) else []) xs) = (case map_of xs k of None \<Rightarrow> [] | Some v \<Rightarrow> h v)"
proof (induction xs)
  case (Cons g xs)
  have "concat (map (\<lambda>g. if fst g = k then h (snd g) else []) xs) = []" if "k \<notin> fst ` set xs"
    using that by (auto simp: concat_eq_Nil_conv)
  with Cons show ?case by (cases g) (auto simp: map_of_eq_None_iff)
qed simp

section \<open>What a batch does to a destination\<close>

text \<open>
  The destination as rows by table and primary key. A row has its values, the set of the columns that the updates since it
  was written name as changed, which decides whether an update is skipped as noise, and the event it was last changed by. A
  delete removes the row, an update merges the record's object into the values and adds the columns of its diff, anything
  else writes the object as the row.
\<close>

record dest_row =
  row_values :: "string \<rightharpoonup> pyval"
  row_changed :: "string set"
  row_event :: "db_change_event option"

type_synonym dest = "string \<times> string \<Rightarrow> dest_row option"

definition rkey :: "change_record \<Rightarrow> string \<times> string" where
  "rkey r = (r_table r, r_id r)"

definition row_effect :: "change_record \<Rightarrow> dest_row option \<Rightarrow> dest_row option" where
  "row_effect r x =
     (if r_operation r = ''DELETE'' then None
      else if r_operation r = ''UPDATE'' then
        Some \<lparr>row_values = (case x of None \<Rightarrow> Map.empty | Some row \<Rightarrow> row_values row) ++ map_of (or_empty (r_object r)),
              row_changed = (case x of None \<Rightarrow> {} | Some row \<Rightarrow> row_changed row) \<union> set (or_empty (r_diff r)),
              row_event = r_event r\<rparr>
      else Some \<lparr>row_values = map_of (or_empty (r_object r)), row_changed = set (or_empty (r_diff r)), row_event = r_event r\<rparr>)"

definition apply_record :: "change_record \<Rightarrow> dest \<Rightarrow> dest" where
  "apply_record r s = s(rkey r := row_effect r (s (rkey r)))"

definition wf_record :: "change_record \<Rightarrow> bool" where
  "wf_record r \<longleftrightarrow> distinct (dkeys (or_empty (r_object r)))"

definition unambiguous :: "change_record list \<Rightarrow> bool" where
  "unambiguous rs \<longleftrightarrow> (\<forall>r1 \<in> set rs. \<forall>r2 \<in> set rs. group_key r1 = group_key r2 \<longrightarrow> rkey r1 = rkey r2)"

lemma fold_apply_row:
  "fold apply_record rs s k = fold row_effect (filter (\<lambda>r. rkey r = k) rs) (s k)"
  by (induction rs arbitrary: s) (auto simp: apply_record_def)

lemma merge_update_effect:
  assumes "r_operation p = ''UPDATE''" "r_operation r = ''UPDATE''" "wf_record r"
  shows "row_effect (merge_update p r) x = row_effect r (row_effect p x)"
  using assms by (auto simp: row_effect_def merge_update_def wf_record_def or_empty_def map_of_dict_update set_diff_union
      split: option.splits)

lemma merge_update_wf: "wf_record p \<Longrightarrow> wf_record (merge_update p r)"
  by (simp add: wf_record_def merge_update_def or_empty_def distinct_dict_update split: option.splits)

lemma combine_loop_effect:
  "list_all wf_record (p # rest) \<Longrightarrow>
    fold row_effect (combine_loop ds p rest) x = fold row_effect (ds @ p # rest) x"
proof (induction ds p rest arbitrary: x rule: combine_loop.induct)
  case (2 ds p r rest)
  show ?case
  proof (cases "batch_type r p")
    case delete_with_batch
    then have "r_operation r = ''DELETE''" by (simp add: batch_type_def split: if_splits)
    with 2 delete_with_batch show ?thesis by (simp add: row_effect_def)
  next
    case update_with_batch
    then have "r_operation r = ''UPDATE''" "r_operation p = ''UPDATE''" by (simp_all add: batch_type_def split: if_splits)
    with 2 update_with_batch show ?thesis by (simp add: merge_update_effect merge_update_wf)
  next
    case without_batch
    with 2 show ?thesis by simp
  qed
qed simp

lemma rkey_merge [simp]: "rkey (merge_update p r) = rkey p"
  by (simp add: rkey_def merge_update_def)

lemma combine_loop_key:
  "list_all (\<lambda>r. rkey r = k) (ds @ p # rest) \<Longrightarrow> list_all (\<lambda>r. rkey r = k) (combine_loop ds p rest)"
proof (induction ds p rest rule: combine_loop.induct)
  case (2 ds p r rest)
  show ?case
  proof (cases "batch_type r p")
    case delete_with_batch
    with "2.IH"(1) "2.prems" show ?thesis by simp
  next
    case update_with_batch
    with "2.IH"(2) "2.prems" show ?thesis by simp
  next
    case without_batch
    with "2.IH"(3) "2.prems" show ?thesis by simp
  qed
qed simp

lemma combine_effect: "list_all wf_record rs \<Longrightarrow> fold row_effect (combine rs) x = fold row_effect rs x"
  by (cases rs) (simp_all add: combine_loop_effect)

lemma combine_key:
  assumes "list_all (\<lambda>r. rkey r = k) rs"
  shows "list_all (\<lambda>r. rkey r = k) (combine rs)"
proof (cases rs)
  case (Cons r rest)
  with assms combine_loop_key [of k "[]" r rest] show ?thesis by simp
qed simp

lemma combine_loop_length: "length (combine_loop ds p rest) \<le> length ds + Suc (length rest)"
proof (induction ds p rest rule: combine_loop.induct)
  case (2 ds p r rest)
  then show ?case by (cases "batch_type r p") auto
qed simp

lemma combine_length: "length (combine rs) \<le> length rs"
  using combine_loop_length [of "[]"] by (cases rs) (auto simp: less_Suc_eq_le)

lemma combine_records_row:
  assumes "unambiguous rs"
  shows "filter (\<lambda>r. rkey r = k) (combine_records_with_same_primary_key rs) = combine (filter (\<lambda>r. rkey r = k) rs)"
proof -
  let ?gk = "fst k @ snd k"
  have keys: "list_all (\<lambda>r. group_key r = fst g \<and> r \<in> set rs) (snd g)" if "g \<in> set (group_records rs)" for g
  proof -
    have "dget (group_records rs) (fst g) = Some (snd g)"
      using that group_records_distinct by (simp add: map_of_eq_Some_iff)
    then have "snd g = filter (\<lambda>r. group_key r = fst g) rs" by (simp add: group_records_get split: if_splits)
    then show ?thesis by (simp add: list_all_iff)
  qed
  have one: "filter (\<lambda>r. rkey r = k) (combine (snd g)) =
      (if fst g = ?gk then combine (filter (\<lambda>r. rkey r = k) (snd g)) else [])" if g: "g \<in> set (group_records rs)" for g
  proof (cases "\<exists>r \<in> set (snd g). rkey r = k")
    case True
    then obtain r where r: "r \<in> set (snd g)" "rkey r = k" by blast
    then have gk: "fst g = ?gk" using keys [OF g] by (auto simp: list_all_iff group_key_def rkey_def)
    have un: "rkey a = rkey b" if "a \<in> set rs" "b \<in> set rs" "group_key a = group_key b" for a b
      using that assms unfolding unambiguous_def by blast
    have "list_all (\<lambda>r. rkey r = k) (snd g)"
      using keys [OF g] r un unfolding list_all_iff by metis
    with combine_key [OF this] gk show ?thesis by (simp add: list_all_iff filter_id_conv)
  next
    case False
    have "\<not> rkey r = k" if "r \<in> set (combine (snd g))" for r
    proof (cases "snd g")
      case (Cons r0 rest)
      have "list_all (\<lambda>r. rkey r = rkey r0) (snd g)"
        using keys [OF g] Cons assms unfolding list_all_iff unambiguous_def by (metis list.set_intros(1))
      from combine_key [OF this] that False Cons show ?thesis by (auto simp: list_all_iff)
    qed (use that in simp)
    moreover have "filter (\<lambda>r. rkey r = k) (snd g) = []" using False by simp
    ultimately show ?thesis by (auto simp: filter_empty_conv)
  qed
  have "filter (\<lambda>r. rkey r = k) (combine_records_with_same_primary_key rs) =
      concat (map (\<lambda>g. if fst g = ?gk then combine (filter (\<lambda>r. rkey r = k) (snd g)) else []) (group_records rs))"
    by (simp add: combine_records_with_same_primary_key_def filter_concat comp_def one cong: map_cong)
  also have "\<dots> = (case dget (group_records rs) ?gk of None \<Rightarrow> [] | Some g \<Rightarrow> combine (filter (\<lambda>r. rkey r = k) g))"
    by (rule concat_one_key [OF group_records_distinct])
  also have "\<dots> = combine (filter (\<lambda>r. rkey r = k) (filter (\<lambda>r. group_key r = ?gk) rs))"
    by (cases "filter (\<lambda>r. group_key r = ?gk) rs = []") (simp_all add: group_records_get del: filter_filter filter_empty_conv)
  also have "filter (\<lambda>r. rkey r = k) (filter (\<lambda>r. group_key r = ?gk) rs) = filter (\<lambda>r. rkey r = k) rs"
    by (auto simp: filter_filter group_key_def rkey_def intro: filter_cong)
  finally show ?thesis .
qed

lemma group_records_length: "sum_list (map (\<lambda>g. length (snd g)) (group_records rs)) = length rs"
proof (induction rs rule: rev_induct)
  case (snoc r rs)
  have "sum_list (map (\<lambda>g. length (snd g)) (dset k (or_empty (dget gs k) @ [r]) gs)) = Suc (sum_list (map (\<lambda>g. length (snd g)) gs))"
    if "distinct (dkeys gs)" for gs :: "(string \<times> change_record list) list" and k
    using that by (induction gs) (auto simp: or_empty_def map_of_eq_None_iff)
  with snoc group_records_distinct show ?case by (simp add: group_records_snoc)
qed (simp add: group_records_def)

lemma combine_records_length: "length (combine_records_with_same_primary_key rs) \<le> length rs"
proof -
  have "length (combine_records_with_same_primary_key rs) = sum_list (map (\<lambda>g. length (combine (snd g))) (group_records rs))"
    by (simp add: combine_records_with_same_primary_key_def length_concat comp_def)
  also have "\<dots> \<le> sum_list (map (\<lambda>g. length (snd g)) (group_records rs))" by (intro sum_list_mono combine_length)
  finally show ?thesis by (simp add: group_records_length)
qed

section \<open>Properties\<close>

text \<open>C4: collapsing a batch does not change what it does to the destination. For a batch in which no two rows share the
  concatenation of table and primary key, and whose objects have no key twice, as dictionaries have: applied to any
  destination, the collapsed records leave every row with the values, the changed columns and the latest event that the
  records themselves leave, and there are no more of them.\<close>

theorem combine_preserves_effect:
  assumes "unambiguous rs" "list_all wf_record rs"
  shows "fold apply_record (combine_records_with_same_primary_key rs) s = fold apply_record rs s \<and>
    length (combine_records_with_same_primary_key rs) \<le> length rs"
proof
  show "fold apply_record (combine_records_with_same_primary_key rs) s = fold apply_record rs s"
  proof
    fix k
    have "list_all wf_record (filter (\<lambda>r. rkey r = k) rs)" using assms(2) by (auto simp: list_all_iff)
    then show "fold apply_record (combine_records_with_same_primary_key rs) s k = fold apply_record rs s k"
      by (simp add: fold_apply_row combine_records_row [OF assms(1)] combine_effect)
  qed
qed (rule combine_records_length)

definition sample_record :: "string \<Rightarrow> string \<Rightarrow> string \<Rightarrow> pydict \<Rightarrow> change_record" where
  "sample_record t i op d = \<lparr>r_table = t, r_id = i, r_operation = op, r_diff = None, r_object = Some d, r_event = None\<rparr>"

theorem combine_preserves_effect_witness:
  "let rs = [sample_record ''t'' ''1'' ''UPDATE'' [(''a'', PInt 1)], sample_record ''u'' ''1'' ''INSERT'' [],
             sample_record ''t'' ''1'' ''UPDATE'' [(''b'', PInt 2)]] in
   unambiguous rs \<and> list_all wf_record rs \<and> length (combine_records_with_same_primary_key rs) = 2 \<and>
   fold apply_record (combine_records_with_same_primary_key rs) (\<lambda>_. None) = fold apply_record rs (\<lambda>_. None)"
  using combine_preserves_effect [of "[sample_record ''t'' ''1'' ''UPDATE'' [(''a'', PInt 1)], sample_record ''u'' ''1'' ''INSERT'' [],
             sample_record ''t'' ''1'' ''UPDATE'' [(''b'', PInt 2)]]" "\<lambda>_. None"]
  by (simp add: Let_def unambiguous_def wf_record_def sample_record_def group_key_def rkey_def or_empty_def
      combine_records_with_same_primary_key_def group_records_def batch_type_def)

text \<open>The collapse groups records by table and primary key written one after the other, so rows of
  different tables can fall into one group. Then a delete of a row of one table discards an insert into
  another: the inserted row is lost.\<close>

theorem combine_ambiguous_group:
  "\<exists>rs. list_all wf_record rs \<and> map r_table rs = [''order'', ''order_item''] \<and>
    combine_records_with_same_primary_key rs = [rs ! 1] \<and>
    fold apply_record rs (\<lambda>_. None) (''order'', ''_item1'') \<noteq> None \<and>
    fold apply_record (combine_records_with_same_primary_key rs) (\<lambda>_. None) (''order'', ''_item1'') = None"
  by (rule exI [of _ "[sample_record ''order'' ''_item1'' ''INSERT'' [(''id'', PStr ''_item1'')],
                       sample_record ''order_item'' ''1'' ''DELETE'' []]"])
     (simp add: combine_records_with_same_primary_key_def group_records_def group_key_def batch_type_def
       sample_record_def or_empty_def wf_record_def apply_record_def rkey_def row_effect_def)

text \<open>An event that \<open>from_message\<close> accepts has a primary key that is not empty and an object that
  parses; asking for either again gives the same answer and does not change the event.\<close>

theorem from_message_accepts:
  assumes "from_message data seq = Inr ev"
  shows "\<exists>pk obj. get_primary_key ev = (Inr pk, ev) \<and> pk \<noteq> '''' \<and> get_object ev = (Inr obj, ev)"
proof -
  from assms obtain ev0 where "check_event data seq ev0 = Inr ev"
    by (auto simp: from_message_def andthen_Inr_conv split: option.splits pyval.splits)
  from check_event_Inr [OF this] get_object_again show ?thesis by blast
qed

theorem from_message_accepts_witness:
  "\<exists>ev. from_message (''{'' @ [DQ] @ ''key'' @ [DQ] @ '':['' @ [DQ] @ ''k'' @ [DQ] @ '']}'') 7 = Inr ev \<and>
    get_primary_key ev = (Inr ''k'', ev) \<and> get_object ev = (Inr None, ev)"
proof -
  let ?m = "''{'' @ [DQ] @ ''key'' @ [DQ] @ '':['' @ [DQ] @ ''k'' @ [DQ] @ '']}''"
  have "map_sum (\<lambda>_. ()) ev_key (from_message ?m 7) = Inr (Some [''k''])" by code_simp
  then obtain ev where ev: "from_message ?m 7 = Inr ev" and k: "ev_key ev = Some [''k'']"
    by (cases "from_message ?m 7") auto
  have "map_sum (\<lambda>_. ()) (\<lambda>ev. fst (get_object ev) = Inr None) (from_message ?m 7) = Inr True" by code_simp
  with ev from_message_accepts [OF ev] k show ?thesis by (auto simp: get_primary_key_def)
qed

text \<open>The batch order. Sorting by MVCC timestamp keeps the records, puts them in ascending order, and
  leaves records of equal timestamp in their order of arrival.\<close>

lemma sort_records_stable:
  "mset (sort_records_by_mvcc_timestamp rs) = mset rs \<and> sorted (map mvcc_rank (sort_records_by_mvcc_timestamp rs)) \<and>
   filter (\<lambda>r. mvcc_rank r = k) (sort_records_by_mvcc_timestamp rs) = filter (\<lambda>r. mvcc_rank r = k) rs"
  by (simp add: sort_records_by_mvcc_timestamp_def sort_key_stable)

end
