(* ===== verification/Consumer.thy ===== *)
theory Consumer
  imports Events
begin

text \<open>
  The consumer core: \<open>src/eds/consumer/batch_processor.py\<close> (the decisions taken for every message),
  \<open>src/eds/consumer/bufferer.py\<close> (the task that drains the queue) and \<open>src/eds/consumer/config.py\<close>.

  Everything the processor calls, the driver, the registry, the validator, the clock and the messages'
  \<open>ack\<close> and \<open>nak\<close>, is a record of operations on a state \<open>'w\<close> of the world, so the theorems hold for every
  driver and every sequence of failures. The state of the processor carries the trace of the calls that
  matter: what was processed, flushed, acknowledged and returned, and every metric.

  Times are integers in microseconds. A message is known by a number, its identity.
\<close>

section \<open>Messages and the world\<close>

record msg_metadata =
  md_consumer_seq :: int
  md_stream_seq :: int
  md_num_delivered :: int
  md_num_pending :: int

record msg =
  m_id :: nat
  m_data :: string
  m_metadata :: "msg_metadata res"

record 'w world_ops =
  w_now :: "'w \<Rightarrow> int \<times> 'w"
  w_process :: "db_change_event \<Rightarrow> 'w \<Rightarrow> bool res \<times> 'w"
  w_flush :: "'w \<Rightarrow> unit res \<times> 'w"
  w_migrate_new_table :: "schema \<Rightarrow> 'w \<Rightarrow> unit res \<times> 'w"
  w_migrate_new_columns :: "schema \<Rightarrow> string list \<Rightarrow> 'w \<Rightarrow> unit res \<times> 'w"
  w_get_table_version :: "string \<Rightarrow> 'w \<Rightarrow> (bool \<times> string) res \<times> 'w"
  w_set_table_version :: "string \<Rightarrow> string \<Rightarrow> 'w \<Rightarrow> unit res \<times> 'w"
  w_get_schema :: "string \<Rightarrow> string \<Rightarrow> 'w \<Rightarrow> schema res \<times> 'w"
  w_validate :: "db_change_event \<Rightarrow> 'w \<Rightarrow> (bool \<times> bool \<times> string) res \<times> 'w"
  w_ack :: "nat \<Rightarrow> 'w \<Rightarrow> unit res \<times> 'w"
  w_nak :: "nat \<Rightarrow> 'w \<Rightarrow> unit res \<times> 'w"

text \<open>The calls recorded in the trace; the flag says whether the call returned normally.\<close>

datatype call =
    CProcess nat bool
  | CFlush bool
  | CAck nat bool
  | CNak nat bool
  | CSkip nat
  | CMigrateTable string bool
  | CMigrateColumns string "string list" bool
  | CPendingDec
  | CProcessingDuration int
  | CFlushDuration int
  | CFlushCount nat
  | CFatal string

text \<open>The two stop signals, and an exception that is neither.\<close>

datatype stop = ConsumerStopped | ConsumerFatal string | Raised exc

type_synonym 'a out = "stop + 'a"

section \<open>The batch processor\<close>

record 'w bp =
  bp_max :: int
  bp_min_pending_latency :: int
  bp_max_pending_latency :: int
  bp_table_timestamps :: "(string \<times> int option) list option"
  bp_supports_migration :: bool
  bp_has_registry :: bool
  bp_has_validator :: bool
  bp_sequence :: int
  bp_pending :: "msg list"
  bp_pending_started :: "int option"
  bp_world :: 'w
  bp_trace :: "call list"

definition ok :: "'e + 'a \<Rightarrow> bool" where
  "ok r = (case r of Inl _ \<Rightarrow> False | Inr _ \<Rightarrow> True)"

definition log_call :: "call list \<Rightarrow> 'w bp \<Rightarrow> 'w bp" where
  "log_call cs s = s\<lparr>bp_trace := bp_trace s @ cs\<rparr>"

text \<open>A call into the world, recorded by \<open>tr\<close>.\<close>

definition calls :: "('w \<Rightarrow> 'a res \<times> 'w) \<Rightarrow> (bool \<Rightarrow> call list) \<Rightarrow> 'w bp \<Rightarrow> 'a res \<times> 'w bp" where
  "calls f tr s = (case f (bp_world s) of (r, w) \<Rightarrow> (r, log_call (tr (ok r)) (s\<lparr>bp_world := w\<rparr>)))"

definition now :: "'w world_ops \<Rightarrow> 'w bp \<Rightarrow> int \<times> 'w bp" where
  "now W s = (case w_now W (bp_world s) of (t, w) \<Rightarrow> (t, s\<lparr>bp_world := w\<rparr>))"

subsection \<open>Acknowledging and returning\<close>

definition nak_one :: "'w world_ops \<Rightarrow> msg \<Rightarrow> 'w bp \<Rightarrow> 'w bp" where
  "nak_one W m s = snd (calls (w_nak W (m_id m)) (\<lambda>b. [CNak (m_id m) b]) s)"

definition nack_everything :: "'w world_ops \<Rightarrow> 'w bp \<Rightarrow> 'w bp" where
  "nack_everything W s = (fold (nak_one W) (bp_pending s) s)\<lparr>bp_pending := [], bp_pending_started := None\<rparr>"

definition handle_error :: "'w world_ops \<Rightarrow> string \<Rightarrow> 'w bp \<Rightarrow> 'a out \<times> 'w bp" where
  "handle_error W err s = (Inl (ConsumerFatal err), nack_everything W s)"

text \<open>The acknowledgement loop of \<open>flush\<close>.\<close>

fun ack_loop :: "'w world_ops \<Rightarrow> msg list \<Rightarrow> nat \<Rightarrow> 'w bp \<Rightarrow> nat out \<times> 'w bp" where
  "ack_loop W [] n s = (Inr n, s)"
| "ack_loop W (m # ms) n s =
     (case calls (w_ack W (m_id m)) (\<lambda>b. [CAck (m_id m) b, CPendingDec]) s of
        (Inl _, s') \<Rightarrow> (Inl ConsumerStopped, nack_everything W s')
      | (Inr _, s') \<Rightarrow> ack_loop W ms (Suc n) s')"

definition finish_flush :: "'w world_ops \<Rightarrow> int \<Rightarrow> nat \<Rightarrow> 'w bp \<Rightarrow> unit out \<times> 'w bp" where
  "finish_flush W started n s =
     (let s1 = (case bp_pending_started s of
                  None \<Rightarrow> s
                | Some ps \<Rightarrow> (case now W s of (t, s') \<Rightarrow> log_call [CProcessingDuration (t - ps)] s'));
          (t, s2) = now W s1
      in (Inr (), log_call [CFlushDuration (t - started), CFlushCount n] s2
                    \<lparr>bp_pending := [], bp_pending_started := None\<rparr>))"

definition flush :: "'w world_ops \<Rightarrow> 'w bp \<Rightarrow> unit out \<times> 'w bp" where
  "flush W s =
     (let (started, s1) = now W s in
      case calls (w_flush W) (\<lambda>b. [CFlush b]) s1 of
        (Inl DriverStoppedError, s2) \<Rightarrow> (Inl ConsumerStopped, nack_everything W s2)
      | (Inl e, s2) \<Rightarrow> handle_error W (exc_str e) s2
      | (Inr _, s2) \<Rightarrow> andthen_st (ack_loop W (bp_pending s2) 0 s2) (finish_flush W started))"

subsection \<open>Skipping\<close>

text \<open>
  \<open>datetime.fromtimestamp(ms / 1000, tz=utc)\<close> in microseconds: the years 1 to 9999, a \<open>ValueError\<close>
  outside them.
\<close>

definition event_time :: "int \<Rightarrow> int res" where
  "event_time ms =
     (if -62135596800000 \<le> ms \<and> ms < 253402300800000 then Inr (1000 * ms)
      else Inl (ValueError ''year is out of range''))"

definition before_cutoff :: "(string \<times> int option) list option \<Rightarrow> db_change_event \<Rightarrow> bool res" where
  "before_cutoff tts evt =
     (case tts of
        None \<Rightarrow> Inr False
      | Some d \<Rightarrow>
          (case dget d (ev_table evt) of
             Some (Some tt) \<Rightarrow> andthen (event_time (ev_timestamp evt)) (\<lambda>t. Inr (t < tt))
           | _ \<Rightarrow> Inr False))"

definition should_skip :: "'w world_ops \<Rightarrow> db_change_event \<Rightarrow> 'w bp \<Rightarrow> (bool \<times> db_change_event) res \<times> 'w bp" where
  "should_skip W evt s =
     (case before_cutoff (bp_table_timestamps s) evt of
        Inl e \<Rightarrow> (Inl e, s)
      | Inr True \<Rightarrow> (Inr (True, evt), s)
      | Inr False \<Rightarrow>
          if \<not> bp_has_validator s then (Inr (False, evt), s)
          else
            (case calls (w_validate W evt) (\<lambda>_. []) s of
               (Inl _, s') \<Rightarrow> (Inr (True, evt), s')
             | (Inr (found, valid, path), s') \<Rightarrow>
                 if \<not> found \<or> \<not> valid then (Inr (True, evt), s')
                 else if path \<noteq> '''' then (Inr (False, evt\<lparr>ev_schema_validated_path := Some path\<rparr>), s')
                 else (Inr (False, evt), s')))"

subsection \<open>Migration\<close>

definition no_registry :: exc where
  "no_registry = TypeError ''NoneType has no attribute get_table_version''"

definition new_columns :: "schema \<Rightarrow> schema \<Rightarrow> string list" where
  "new_columns new old = filter (\<lambda>c. c \<notin> set (columns old)) (columns new)"

definition handle_possible_migration ::
    "'w world_ops \<Rightarrow> db_change_event \<Rightarrow> 'w bp \<Rightarrow> (bool \<times> db_change_event) res \<times> 'w bp" where
  "handle_possible_migration W evt s =
     (let table = ev_table evt; mv = ev_model_version evt in
      if \<not> bp_has_registry s then (Inl no_registry, s)
      else
        andthen_st (calls (w_get_table_version W table) (\<lambda>_. []) s) (\<lambda>(found, version) s1.
        if found \<and> version = mv then (Inr (False, evt), s1)
        else
          andthen_st (calls (w_get_schema W table mv) (\<lambda>_. []) s1) (\<lambda>newschema s2.
          if \<not> found then
            andthen_st (calls (w_migrate_new_table W newschema) (\<lambda>b. [CMigrateTable table b]) s2) (\<lambda>_ s3.
            andthen_st (calls (w_set_table_version W table mv) (\<lambda>_. []) s3) (\<lambda>_ s4. (Inr (True, evt), s4)))
          else
            andthen_st (calls (w_get_schema W table version) (\<lambda>_. []) s2) (\<lambda>oldschema s3.
            let cols = new_columns newschema oldschema in
            if cols \<noteq> [] then
              andthen_st (calls (w_migrate_new_columns W newschema cols) (\<lambda>b. [CMigrateColumns table cols b]) s3) (\<lambda>_ s4.
              andthen_st (calls (w_set_table_version W table mv) (\<lambda>_. []) s4) (\<lambda>_ s5.
                (Inr (True, evt\<lparr>ev_diff := Some (diff_union (or_empty (ev_diff evt)) cols)\<rparr>), s5)))
            else (Inr (False, evt), s3)))))"

subsection \<open>Properties the schema does not know\<close>

definition json_diff :: "pydict \<Rightarrow> string list \<Rightarrow> string list" where
  "json_diff obj found = filter (\<lambda>k. k \<notin> set found) (dkeys obj)"

definition strip_unknown :: "'w world_ops \<Rightarrow> db_change_event \<Rightarrow> 'w bp \<Rightarrow> db_change_event res \<times> 'w bp" where
  "strip_unknown W evt s =
     (if ev_operation evt \<noteq> ''DELETE'' \<and> bp_has_registry s then
        andthen_st (calls (w_get_schema W (ev_table evt) (ev_model_version evt)) (\<lambda>_. []) s) (\<lambda>schema s1.
          case get_object evt of
            (Inl e, _) \<Rightarrow> (Inl e, s1)
          | (Inr None, evt1) \<Rightarrow> (Inr evt1, s1)
          | (Inr (Some obj), evt1) \<Rightarrow>
              let diff = json_diff obj (columns schema) in
              if diff = [] then (Inr evt1, s1)
              else (case omit_properties diff evt1 of (Inl e, _) \<Rightarrow> (Inl e, s1) | (Inr _, evt2) \<Rightarrow> (Inr evt2, s1)))
      else (Inr evt, s))"

subsection \<open>One message\<close>

definition remove_from_pending :: "msg \<Rightarrow> msg list \<Rightarrow> msg list" where
  "remove_from_pending m ms = takeWhile (\<lambda>x. m_id x \<noteq> m_id m) ms @ drop 1 (dropWhile (\<lambda>x. m_id x \<noteq> m_id m) ms)"

text \<open>What follows a successful \<open>driver.process\<close>: the flush triggers.\<close>

definition after_process :: "'w world_ops \<Rightarrow> msg \<Rightarrow> bool \<Rightarrow> bool \<Rightarrow> 'w bp \<Rightarrow> unit out \<times> 'w bp" where
  "after_process W m fl force s =
     (if fl \<or> int (length (bp_pending s)) \<ge> bp_max s \<or> force then flush W s
      else
        let (ps, s1) = (case bp_pending_started s of
                          Some t \<Rightarrow> (t, s)
                        | None \<Rightarrow> (case now W s of (t, s') \<Rightarrow> (t, s'\<lparr>bp_pending_started := Some t\<rparr>)));
            num_pending = (case m_metadata m of Inl _ \<Rightarrow> 0 | Inr md \<Rightarrow> md_num_pending md);
            (bypass, s2) = (if num_pending > bp_max s1
                            then (case now W s1 of (t, s') \<Rightarrow> (t - ps < bp_max_pending_latency s1 * 2, s'))
                            else (False, s1))
        in if bypass then (Inr (), s2)
           else
             let (t, s3) = now W s2 in
             if t - ps \<ge> bp_max_pending_latency s3 then flush W (snd (now W s3)) else (Inr (), s3))"

definition process_event :: "'w world_ops \<Rightarrow> msg \<Rightarrow> db_change_event \<Rightarrow> 'w bp \<Rightarrow> unit out \<times> 'w bp" where
  "process_event W m evt s =
     (case (if bp_supports_migration s then handle_possible_migration W evt s else (Inr (False, evt), s)) of
        (Inl e, s1) \<Rightarrow> handle_error W (exc_str e) s1
      | (Inr (force, evt1), s1) \<Rightarrow>
          (case strip_unknown W evt1 s1 of
             (Inl e, s2) \<Rightarrow> handle_error W (exc_str e) s2
           | (Inr evt2, s2) \<Rightarrow>
               (case calls (w_process W evt2) (\<lambda>b. [CProcess (m_id m) b]) s2 of
                  (Inl e, s3) \<Rightarrow> handle_error W (exc_str e) (log_call [CPendingDec] s3)
                | (Inr fl, s3) \<Rightarrow> after_process W m fl force s3)))"

definition skip_message :: "'w world_ops \<Rightarrow> msg \<Rightarrow> 'w bp \<Rightarrow> unit out \<times> 'w bp" where
  "skip_message W m s =
     (let s1 = snd (calls (w_ack W (m_id m)) (\<lambda>b. [CAck (m_id m) b]) (log_call [CSkip (m_id m)] s)) in
      (Inr (), log_call [CPendingDec] (s1\<lparr>bp_pending := remove_from_pending m (bp_pending s1)\<rparr>)))"

definition out_of_order :: "int \<Rightarrow> int \<Rightarrow> string" where
  "out_of_order seq expected = ''out of order sequence: '' @ str_int seq @ '', expected: '' @ str_int expected"

definition process_message :: "'w world_ops \<Rightarrow> msg \<Rightarrow> 'w bp \<Rightarrow> unit out \<times> 'w bp" where
  "process_message W m s =
     (case m_metadata m of
        Inl e \<Rightarrow> handle_error W (exc_str e) (log_call [CPendingDec] s)
      | Inr md \<Rightarrow>
          let s1 = s\<lparr>bp_pending := bp_pending s @ [m]\<rparr> in
          if md_consumer_seq md \<noteq> bp_sequence s1 + 1
          then handle_error W (out_of_order (md_consumer_seq md) (bp_sequence s1 + 1)) (log_call [CPendingDec] s1)
          else
            let s2 = s1\<lparr>bp_sequence := md_consumer_seq md\<rparr> in
            (case from_message (m_data m) (md_consumer_seq md) of
               Inl e \<Rightarrow> handle_error W (exc_str e) (log_call [CPendingDec] s2)
             | Inr evt \<Rightarrow>
                 (case should_skip W evt s2 of
                    (Inl e, s3) \<Rightarrow> (Inl (Raised e), s3)
                  | (Inr (True, _), s3) \<Rightarrow> skip_message W m s3
                  | (Inr (False, evt1), s3) \<Rightarrow> process_event W m evt1 s3)))"

definition on_idle :: "'w world_ops \<Rightarrow> 'w bp \<Rightarrow> unit out \<times> 'w bp" where
  "on_idle W s =
     (if 0 < length (bp_pending s) \<and> int (length (bp_pending s)) < bp_max s then
        (case bp_pending_started s of
           None \<Rightarrow> (Inr (), s)
         | Some ps \<Rightarrow> (let (t, s1) = now W s in
                       if t - ps \<ge> bp_min_pending_latency s1 then flush W s1 else (Inr (), s1)))
      else (Inr (), s))"

section \<open>The bufferer\<close>

text \<open>
  What the loop of \<open>Bufferer.run\<close> gets when it reads the queue: an item, which is a message or the drain
  sentinel \<open>None\<close>; or nothing. In the draining phase \<open>BNone c\<close> is an empty queue with \<open>c\<close> the state of the
  cancel event; in the waiting phase it is the timeout. The loop is \<open>Running\<close> while it wants more input.
\<close>

datatype binput = BItem "msg option" | BNone bool

datatype bphase = Draining | Waiting

datatype bend = Running | Ended | Crashed exc

definition handle_stop :: "stop \<Rightarrow> 'w bp \<Rightarrow> bend \<times> 'w bp" where
  "handle_stop st s =
     (case st of
        ConsumerStopped \<Rightarrow> (Ended, s)
      | ConsumerFatal e \<Rightarrow> (Ended, log_call [CFatal e] s)
      | Raised e \<Rightarrow> (Crashed e, s))"

definition final_flush :: "'w world_ops \<Rightarrow> 'w bp \<Rightarrow> bend \<times> 'w bp" where
  "final_flush W s = (case flush W s of (Inl (Raised e), s') \<Rightarrow> (Crashed e, s') | (_, s') \<Rightarrow> (Ended, s'))"

definition handle_item :: "'w world_ops \<Rightarrow> msg option \<Rightarrow> 'w bp \<Rightarrow> bend \<times> 'w bp" where
  "handle_item W item s =
     (case item of
        None \<Rightarrow> final_flush W s
      | Some m \<Rightarrow>
          (case process_message W m s of
             (Inl st, s') \<Rightarrow> handle_stop st s'
           | (Inr _, s') \<Rightarrow> (Running, s')))"

text \<open>The loop returns what is left of the input with its state.\<close>

fun buf_run :: "'w world_ops \<Rightarrow> bphase \<Rightarrow> binput list \<Rightarrow> 'w bp \<Rightarrow> bend \<times> binput list \<times> 'w bp" where
  "buf_run W ph [] s = (Running, [], s)"
| "buf_run W Draining (BItem item # ins) s =
     (case handle_item W item s of (Running, s') \<Rightarrow> buf_run W Draining ins s' | (e, s') \<Rightarrow> (e, ins, s'))"
| "buf_run W Draining (BNone cancel # ins) s =
     (if cancel then (Ended, ins, nack_everything W s)
      else (case on_idle W s of
              (Inl st, s') \<Rightarrow> (case handle_stop st s' of (e, s'') \<Rightarrow> (e, ins, s''))
            | (Inr _, s') \<Rightarrow> buf_run W Waiting ins s'))"
| "buf_run W Waiting (BItem item # ins) s =
     (case handle_item W item s of (Running, s') \<Rightarrow> buf_run W Draining ins s' | (e, s') \<Rightarrow> (e, ins, s'))"
| "buf_run W Waiting (BNone _ # ins) s = buf_run W Draining ins s"

section \<open>Configuration\<close>

record consumer_config =
  cc_max_ack_pending :: int
  cc_max_pending_buffer :: int
  cc_heartbeat_interval :: int
  cc_min_pending_latency :: int
  cc_max_pending_latency :: int
  cc_empty_buffer_pause_time :: int
  cc_driver_max_batch :: "int option"

definition effective_max_ack_pending :: "consumer_config \<Rightarrow> int" where
  "effective_max_ack_pending c = (if cc_max_ack_pending c > 0 then cc_max_ack_pending c else 25000)"

definition effective_max_pending_buffer :: "consumer_config \<Rightarrow> int" where
  "effective_max_pending_buffer c = (if cc_max_pending_buffer c > 0 then cc_max_pending_buffer c else 4096)"

definition effective_heartbeat_interval :: "consumer_config \<Rightarrow> int" where
  "effective_heartbeat_interval c = (if cc_heartbeat_interval c \<noteq> 0 then cc_heartbeat_interval c else 60000000)"

definition effective_min_pending_latency :: "consumer_config \<Rightarrow> int" where
  "effective_min_pending_latency c = (if cc_min_pending_latency c \<noteq> 0 then cc_min_pending_latency c else 2000000)"

definition effective_max_pending_latency :: "consumer_config \<Rightarrow> int" where
  "effective_max_pending_latency c = (if cc_max_pending_latency c \<noteq> 0 then cc_max_pending_latency c else 30000000)"

definition effective_empty_buffer_pause :: "consumer_config \<Rightarrow> int" where
  "effective_empty_buffer_pause c = (if cc_empty_buffer_pause_time c \<noteq> 0 then cc_empty_buffer_pause_time c else 10000)"

definition batch_max :: "consumer_config \<Rightarrow> int" where
  "batch_max c =
     (let m = effective_max_ack_pending c in
      case cc_driver_max_batch c of
        None \<Rightarrow> m
      | Some d \<Rightarrow> if 0 < d \<and> d < m then d else m)"

fun validate_loop :: "string list \<Rightarrow> string list \<Rightarrow> string list \<Rightarrow> string list res" where
  "validate_loop allowed acc [] =
     (if acc = [] then Inl (ValueError ''no valid company IDs provided'') else Inr acc)"
| "validate_loop allowed acc (cid # rest) =
     (if cid \<notin> set allowed then Inl (ValueError (''provided company ID '' @ cid @ '' not in credentials''))
      else validate_loop allowed (acc @ [cid]) rest)"

definition validate_company_ids :: "string list \<Rightarrow> string list \<Rightarrow> string list res" where
  "validate_company_ids override allowed = validate_loop allowed [] override"

definition durable_name :: "string \<Rightarrow> string \<Rightarrow> string" where
  "durable_name server_id sfx =
     (if sfx \<noteq> '''' then ''eds-'' @ server_id @ ''-'' @ sfx else ''eds-'' @ server_id)"

definition filter_subjects :: "string list \<Rightarrow> string list" where
  "filter_subjects company_ids = map (\<lambda>cid. ''dbchange.*.*.'' @ cid @ ''.*.PUBLIC.>'') company_ids"

definition earliest_timestamp :: "(string \<times> int option) list option \<Rightarrow> int option" where
  "earliest_timestamp tts =
     (case tts of
        None \<Rightarrow> None
      | Some d \<Rightarrow>
          (let stamps = concat (map (\<lambda>p. case snd p of None \<Rightarrow> [] | Some t \<Rightarrow> [t]) d)
           in if stamps = [] then None else Some (foldl min (hd stamps) (tl stamps))))"

text \<open>\<open>update_destination_schema\<close>: the startup reconciliation, on what the driver reports as its schema.\<close>

definition wrap_version_error :: "string \<Rightarrow> exc \<Rightarrow> exc" where
  "wrap_version_error table e = RuntimeError (''error getting table version for table: '' @ table @ '': '' @ exc_str e)"

definition update_table ::
    "'w world_ops \<Rightarrow> database_schema \<Rightarrow> string \<times> schema \<Rightarrow> 'w bp \<Rightarrow> unit res \<times> 'w bp" where
  "update_table W dest ts s =
     (case ts of (table, sch) \<Rightarrow>
        (case calls (w_get_table_version W table) (\<lambda>_. []) s of
           (Inl e, s1) \<Rightarrow> (Inl (wrap_version_error table e), s1)
         | (Inr (found, _), s1) \<Rightarrow>
             if \<not> found then (Inl (wrap_version_error table (RuntimeError ''not found'')), s1)
             else (case dget dest table of
                     None \<Rightarrow> calls (w_migrate_new_table W sch) (\<lambda>b. [CMigrateTable table b]) s1
                   | Some cols \<Rightarrow>
                       let new = filter (\<lambda>c. c \<notin> set (dkeys cols)) (columns sch) in
                       if new = [] then (Inr (), s1)
                       else calls (w_migrate_new_columns W sch new) (\<lambda>b. [CMigrateColumns table new b]) s1)))"

fun update_tables ::
    "'w world_ops \<Rightarrow> database_schema \<Rightarrow> (string \<times> schema) list \<Rightarrow> 'w bp \<Rightarrow> unit res \<times> 'w bp" where
  "update_tables W dest [] s = (Inr (), s)"
| "update_tables W dest (ts # rest) s = andthen_st (update_table W dest ts s) (\<lambda>_. update_tables W dest rest)"

section \<open>What a call leaves\<close>

text \<open>Every helper changes the world and extends the trace, and nothing else.\<close>

definition ext :: "call list \<Rightarrow> 'w bp \<Rightarrow> 'w bp \<Rightarrow> bool" where
  "ext cs s s' \<longleftrightarrow> (\<exists>w. s' = s\<lparr>bp_world := w, bp_trace := bp_trace s @ cs\<rparr>)"

lemma ext_fields:
  assumes "ext cs s s'"
  shows "bp_trace s' = bp_trace s @ cs" "bp_pending s' = bp_pending s" "bp_pending_started s' = bp_pending_started s"
    "bp_max s' = bp_max s" "bp_sequence s' = bp_sequence s" "bp_max_pending_latency s' = bp_max_pending_latency s"
    "bp_has_registry s' = bp_has_registry s" "bp_supports_migration s' = bp_supports_migration s"
  using assms by (auto simp: ext_def)

lemma ext_refl [simp, intro]: "ext [] s s"
  unfolding ext_def by (rule exI [of _ "bp_world s"]) simp

lemma ext_trans: "ext a s s1 \<Longrightarrow> ext b s1 s2 \<Longrightarrow> ext (a @ b) s s2"
  by (auto simp: ext_def)

lemma ext_log [simp, intro]: "ext cs s (log_call cs s)"
  unfolding ext_def log_call_def by (rule exI [of _ "bp_world s"]) simp

lemma ext_calls: "calls f tr s = (r, s') \<Longrightarrow> ext (tr (ok r)) s s'"
  by (auto simp: calls_def ext_def log_call_def split: prod.splits)

lemma ext_now: "now W s = (t, s') \<Longrightarrow> ext [] s s'"
  by (auto simp: now_def ext_def split: prod.splits)

lemma ok_simps [simp]: "ok (Inl e) = False" "ok (Inr x) = True"
  by (simp_all add: ok_def)

text \<open>A batch that is given up or finished.\<close>

definition emptied :: "call list \<Rightarrow> 'w bp \<Rightarrow> 'w bp \<Rightarrow> bool" where
  "emptied cs s s' \<longleftrightarrow> (\<exists>w. s' = s\<lparr>bp_world := w, bp_trace := bp_trace s @ cs, bp_pending := [], bp_pending_started := None\<rparr>)"

lemma emptied_fields:
  assumes "emptied cs s s'"
  shows "bp_trace s' = bp_trace s @ cs" "bp_pending s' = []" "bp_pending_started s' = None"
    "bp_max s' = bp_max s" "bp_sequence s' = bp_sequence s"
  using assms by (auto simp: emptied_def)

lemma emptied_trans: "ext a s s1 \<Longrightarrow> emptied b s1 s2 \<Longrightarrow> emptied (a @ b) s s2"
  by (auto simp: ext_def emptied_def)

definition naks :: "msg list \<Rightarrow> call list \<Rightarrow> bool" where
  "naks ms cs \<longleftrightarrow> list_all2 (\<lambda>m c. \<exists>b. c = CNak (m_id m) b) ms cs"

lemma fold_nak: "\<exists>cs. naks ms cs \<and> ext cs s (fold (nak_one W) ms s)"
proof (induction ms arbitrary: s)
  case Nil
  then show ?case by (auto simp: naks_def)
next
  case (Cons m ms)
  obtain r s1 where c: "calls (w_nak W (m_id m)) (\<lambda>b. [CNak (m_id m) b]) s = (r, s1)"
    by (cases "calls (w_nak W (m_id m)) (\<lambda>b. [CNak (m_id m) b]) s")
  from Cons obtain cs where cs: "naks ms cs" "ext cs s1 (fold (nak_one W) ms s1)" by blast
  have "naks (m # ms) (CNak (m_id m) (ok r) # cs)" using cs(1) by (simp add: naks_def)
  moreover have "ext (CNak (m_id m) (ok r) # cs) s (fold (nak_one W) (m # ms) s)"
    using ext_trans [OF ext_calls [OF c] cs(2)] c by (simp add: nak_one_def)
  ultimately show ?case by blast
qed

lemma nack_everything_ext: "\<exists>cs. naks (bp_pending s) cs \<and> emptied cs s (nack_everything W s)"
proof -
  obtain cs where "naks (bp_pending s) cs" "ext cs s (fold (nak_one W) (bp_pending s) s)" using fold_nak by blast
  moreover from this have "emptied cs s (nack_everything W s)"
    unfolding nack_everything_def emptied_def ext_def by auto
  ultimately show ?thesis by blast
qed

section \<open>What one flush and one message do: the specification\<close>

text \<open>Calls that neither deliver nor answer anything.\<close>

fun quiet :: "call \<Rightarrow> bool" where
  "quiet (CProcess _ b) = (\<not> b)"
| "quiet (CMigrateTable _ _) = True"
| "quiet (CMigrateColumns _ _ _) = True"
| "quiet CPendingDec = True"
| "quiet (CProcessingDuration _) = True"
| "quiet (CFlushDuration _) = True"
| "quiet (CFlushCount _) = True"
| "quiet (CFatal _) = True"
| "quiet _ = False"

definition acks :: "msg list \<Rightarrow> call list" where
  "acks ms = concat (map (\<lambda>m. [CAck (m_id m) True, CPendingDec]) ms)"

text \<open>
  The calls of a flush over the pending messages \<open>ms\<close>, and its result: the driver's flush comes first; every
  message is acknowledged only after it succeeded; any failure returns every message of the batch.
\<close>

inductive flush_trace :: "msg list \<Rightarrow> call list \<Rightarrow> unit out \<Rightarrow> bool" where
  flushed: "list_all quiet mt \<Longrightarrow> flush_trace ms (CFlush True # acks ms @ mt) (Inr ())"
| ack_failed: "ms = ms1 @ m # ms2 \<Longrightarrow> naks ms nk \<Longrightarrow>
    flush_trace ms (CFlush True # acks ms1 @ [CAck (m_id m) False, CPendingDec] @ nk) (Inl ConsumerStopped)"
| flush_failed: "naks ms nk \<Longrightarrow> r = Inl ConsumerStopped \<or> (\<exists>e. r = Inl (ConsumerFatal e)) \<Longrightarrow>
    flush_trace ms (CFlush False # nk) r"

lemma handle_error_trace:
  "handle_error W err s = (r, s') \<Longrightarrow> r = Inl (ConsumerFatal err) \<and> (\<exists>nk. naks (bp_pending s) nk \<and> emptied nk s s')"
  using nack_everything_ext [of s W] by (auto simp: handle_error_def)

lemma ack_loop_trace:
  "ack_loop W ms n s = (r, s') \<Longrightarrow>
    (r = Inr (n + length ms) \<and> ext (acks ms) s s') \<or>
    (\<exists>ms1 m ms2 nk. r = Inl ConsumerStopped \<and> ms = ms1 @ m # ms2 \<and> naks (bp_pending s) nk \<and>
       emptied (acks ms1 @ [CAck (m_id m) False, CPendingDec] @ nk) s s')"
proof (induction W ms n s rule: ack_loop.induct)
  case (2 W m ms n s)
  obtain x s1 where c: "calls (w_ack W (m_id m)) (\<lambda>b. [CAck (m_id m) b, CPendingDec]) s = (x, s1)"
    by (cases "calls (w_ack W (m_id m)) (\<lambda>b. [CAck (m_id m) b, CPendingDec]) s")
  note e = ext_calls [OF c]
  show ?case
  proof (cases x)
    case (Inl err)
    obtain nk where nk: "naks (bp_pending s1) nk" "emptied nk s1 (nack_everything W s1)" using nack_everything_ext by blast
    have r: "r = Inl ConsumerStopped" "s' = nack_everything W s1" using "2.prems" c Inl by simp_all
    have "emptied ([CAck (m_id m) False, CPendingDec] @ nk) s s'"
      using emptied_trans [OF e nk(2)] Inl r by simp
    moreover have "naks (bp_pending s) nk" using nk(1) ext_fields(2) [OF e] by simp
    ultimately show ?thesis using r
      by (intro disjI2) (rule exI [of _ "[]"], rule exI [of _ m], rule exI [of _ ms], rule exI [of _ nk], simp add: acks_def)
  next
    case (Inr u)
    from Inr e have e1: "ext [CAck (m_id m) True, CPendingDec] s s1" by simp
    from "2.prems" c Inr have "ack_loop W ms (Suc n) s1 = (r, s')" by simp
    from "2.IH" [OF c [symmetric] Inr this] show ?thesis
    proof (elim disjE exE conjE)
      assume "r = Inr (Suc n + length ms)" "ext (acks ms) s1 s'"
      with ext_trans [OF e1] show ?thesis by (simp add: acks_def)
    next
      fix ms1 m' ms2 nk
      assume h: "r = Inl ConsumerStopped" "ms = ms1 @ m' # ms2" "naks (bp_pending s1) nk"
        "emptied (acks ms1 @ [CAck (m_id m') False, CPendingDec] @ nk) s1 s'"
      have "emptied (acks (m # ms1) @ [CAck (m_id m') False, CPendingDec] @ nk) s s'"
        using emptied_trans [OF e1 h(4)] by (simp add: acks_def)
      moreover have "naks (bp_pending s) nk" using h(3) ext_fields(2) [OF e1] by simp
      ultimately show ?thesis using h(1,2)
        by (intro disjI2) (rule exI [of _ "m # ms1"], rule exI [of _ m'], rule exI [of _ ms2], rule exI [of _ nk], simp)
    qed
  qed
qed (simp add: acks_def)

lemma finish_flush_trace:
  "finish_flush W started n s = (r, s') \<Longrightarrow> r = Inr () \<and> (\<exists>mt. list_all quiet mt \<and> emptied mt s s')"
proof -
  assume h: "finish_flush W started n s = (r, s')"
  define s1 where "s1 = (case bp_pending_started s of None \<Rightarrow> s
      | Some ps \<Rightarrow> (case now W s of (t, s') \<Rightarrow> log_call [CProcessingDuration (t - ps)] s'))"
  obtain t s2 where n: "now W s1 = (t, s2)" by (cases "now W s1")
  have "\<exists>mt. list_all quiet mt \<and> ext mt s s1"
  proof (cases "bp_pending_started s")
    case (Some ps)
    obtain t' s0 where n0: "now W s = (t', s0)" by (cases "now W s")
    have "ext [CProcessingDuration (t' - ps)] s s1"
      using ext_trans [OF ext_now [OF n0] ext_log] Some n0 by (simp add: s1_def)
    then show ?thesis by (intro exI [of _ "[CProcessingDuration (t' - ps)]"]) simp
  qed (auto simp: s1_def intro!: exI [of _ "[]"])
  then obtain mt where mt: "list_all quiet mt" "ext mt s s1" by blast
  from ext_trans [OF mt(2) ext_trans [OF ext_now [OF n] ext_log [of "[CFlushDuration (t - started), CFlushCount n]"]]]
  have "ext (mt @ [CFlushDuration (t - started), CFlushCount n]) s (log_call [CFlushDuration (t - started), CFlushCount n] s2)" by simp
  moreover have "r = Inr ()" "s' = log_call [CFlushDuration (t - started), CFlushCount n] s2\<lparr>bp_pending := [], bp_pending_started := None\<rparr>"
    using h n by (simp_all add: finish_flush_def s1_def [symmetric])
  ultimately show ?thesis
    using mt(1) by (intro conjI exI [of _ "mt @ [CFlushDuration (t - started), CFlushCount n]"]) (auto simp: ext_def emptied_def)
qed

lemma emptied_ext_r: "emptied a s s1 \<Longrightarrow> ext b s1 s2 \<Longrightarrow> emptied (a @ b) s s2"
  unfolding emptied_def by (rule exI [of _ "bp_world s2"]) (auto simp: ext_def)

lemma flush_spec:
  assumes "flush W s = (r, s')"
  shows "\<exists>cs. flush_trace (bp_pending s) cs r \<and> emptied cs s s'"
proof -
  obtain started s1 where n: "now W s = (started, s1)" by (cases "now W s")
  obtain x s2 where c: "calls (w_flush W) (\<lambda>b. [CFlush b]) s1 = (x, s2)" by (cases "calls (w_flush W) (\<lambda>b. [CFlush b]) s1")
  from ext_trans [OF ext_now [OF n] ext_calls [OF c]] have e: "ext [CFlush (ok x)] s s2" by simp
  note p = ext_fields(2) [OF e]
  show ?thesis
  proof (cases x)
    case (Inl err)
    obtain nk where nk: "naks (bp_pending s) nk" "emptied nk s2 (nack_everything W s2)"
      using nack_everything_ext [of s2 W] p by auto
    have "(r = Inl ConsumerStopped \<or> (\<exists>e. r = Inl (ConsumerFatal e))) \<and> s' = nack_everything W s2"
      using assms n c Inl by (cases err) (auto simp: flush_def handle_error_def)
    with flush_trace.flush_failed [OF nk(1), of r] emptied_trans [OF e nk(2)] Inl show ?thesis by auto
  next
    case (Inr u)
    with e have e: "ext [CFlush True] s s2" by simp
    have h: "andthen_st (ack_loop W (bp_pending s) 0 s2) (finish_flush W started) = (r, s')"
      using assms n c Inr p by (simp add: flush_def)
    obtain y s3 where a: "ack_loop W (bp_pending s) 0 s2 = (y, s3)" by (cases "ack_loop W (bp_pending s) 0 s2")
    from ack_loop_trace [OF a] show ?thesis
    proof (elim disjE exE conjE)
      assume y: "y = Inr (0 + length (bp_pending s))" and e3: "ext (acks (bp_pending s)) s2 s3"
      with h a have "finish_flush W started (length (bp_pending s)) s3 = (r, s')" by simp
      from finish_flush_trace [OF this] obtain mt where r: "r = Inr ()" and mt: "list_all quiet mt" "emptied mt s3 s'" by blast
      from emptied_trans [OF ext_trans [OF e e3] mt(2)] flush_trace.flushed [OF mt(1), of "bp_pending s"] r
      show ?thesis by auto
    next
      fix ms1 m ms2 nk
      assume k: "y = Inl ConsumerStopped" "bp_pending s = ms1 @ m # ms2" "naks (bp_pending s2) nk"
        "emptied (acks ms1 @ [CAck (m_id m) False, CPendingDec] @ nk) s2 s3"
      from h a k(1) have r: "r = Inl ConsumerStopped" "s' = s3" by simp_all
      from emptied_trans [OF e k(4)] flush_trace.ack_failed [OF k(2)] k(3) p r show ?thesis by auto
    qed
  qed
qed

text \<open>
  One message, over the pending messages \<open>ps\<close>: what was called, the result, and what is pending afterwards.
\<close>

inductive msg_trace :: "int \<Rightarrow> msg \<Rightarrow> msg list \<Rightarrow> call list \<Rightarrow> unit out \<Rightarrow> msg list \<Rightarrow> bool" where
  bad_metadata: "\<not> ok (m_metadata m) \<Longrightarrow> naks ps nk \<Longrightarrow> msg_trace mx m ps (CPendingDec # nk) (Inl (ConsumerFatal e)) []"
| failed: "list_all quiet pre \<Longrightarrow> naks (ps @ [m]) nk \<Longrightarrow> msg_trace mx m ps (pre @ nk) (Inl (ConsumerFatal e)) []"
| crashed: "msg_trace mx m ps [] (Inl (Raised e)) (ps @ [m])"
| skipped: "msg_trace mx m ps [CSkip (m_id m), CAck (m_id m) b, CPendingDec] (Inr ()) (remove_from_pending m (ps @ [m]))"
| kept: "list_all quiet pre \<Longrightarrow> int (length (ps @ [m])) < mx \<Longrightarrow>
    msg_trace mx m ps (pre @ [CProcess (m_id m) True]) (Inr ()) (ps @ [m])"
| flushed: "list_all quiet pre \<Longrightarrow> flush_trace (ps @ [m]) fcs r \<Longrightarrow>
    msg_trace mx m ps (pre @ [CProcess (m_id m) True] @ fcs) r []"

subsection \<open>The processor meets the specification\<close>

definition quietly :: "'w bp \<Rightarrow> 'w bp \<Rightarrow> bool" where
  "quietly s s' \<longleftrightarrow> (\<exists>pre. list_all quiet pre \<and> ext pre s s')"

lemma quietly_refl [simp, intro]: "quietly s s"
  unfolding quietly_def by (rule exI [of _ "[]"]) simp

lemma quietly_trans:
  assumes "quietly s s1" "quietly s1 s2"
  shows "quietly s s2"
proof -
  from assms obtain a b where "list_all quiet a" "ext a s s1" "list_all quiet b" "ext b s1 s2"
    unfolding quietly_def by blast
  then show ?thesis unfolding quietly_def by (intro exI [of _ "a @ b"]) (auto intro: ext_trans)
qed

lemma quietly_calls: "calls f tr s = (r, s') \<Longrightarrow> list_all quiet (tr (ok r)) \<Longrightarrow> quietly s s'"
  unfolding quietly_def using ext_calls by fastforce

lemma quietly_log: "list_all quiet cs \<Longrightarrow> quietly s (log_call cs s)"
  unfolding quietly_def using ext_log by blast

text \<open>Sequencing: if the first call is quiet and the continuation is, the whole is.\<close>

lemma quietly_andthen:
  assumes "andthen_st (calls f tr s) g = (r, s')" "\<And>b. list_all quiet (tr b)"
    and "\<And>x s1. g x s1 = (r, s') \<Longrightarrow> quietly s1 s'"
  shows "quietly s s'"
proof -
  obtain x s1 where c: "calls f tr s = (x, s1)" by (cases "calls f tr s")
  have q: "quietly s s1" using quietly_calls [OF c] assms(2) by blast
  show ?thesis
  proof (cases x)
    case (Inl e)
    with assms(1) c q show ?thesis by simp
  next
    case (Inr y)
    with assms(1) c have "g y s1 = (r, s')" by simp
    from quietly_trans [OF q assms(3) [OF this]] show ?thesis .
  qed
qed

lemma migration_quiet:
  assumes "handle_possible_migration W evt s = (r, s')"
  shows "quietly s s'"
proof (cases "bp_has_registry s")
  case False
  with assms show ?thesis by (simp add: handle_possible_migration_def)
next
  case True
  show ?thesis
    using assms True unfolding handle_possible_migration_def Let_def
    by (auto elim!: quietly_andthen split: if_splits)
qed

lemma strip_quiet:
  assumes "strip_unknown W evt s = (r, s')"
  shows "quietly s s'"
proof (cases "ev_operation evt \<noteq> ''DELETE'' \<and> bp_has_registry s")
  case False
  with assms show ?thesis by (auto simp: strip_unknown_def)
next
  case True
  show ?thesis
    using assms True unfolding strip_unknown_def Let_def
    by (auto elim!: quietly_andthen split: prod.splits sum.splits option.splits if_splits)
qed

lemma skip_quiet:
  assumes "should_skip W evt s = (r, s')"
  shows "ext [] s s'"
proof (cases "before_cutoff (bp_table_timestamps s) evt")
  case (Inl e)
  with assms show ?thesis by (auto simp: should_skip_def)
next
  case (Inr b)
  obtain x s1 where c: "calls (w_validate W evt) (\<lambda>_. []) s = (x, s1)" by (cases "calls (w_validate W evt) (\<lambda>_. []) s")
  from ext_calls [OF c] have "ext [] s s1" by simp
  moreover have "s' = s \<or> s' = s1"
    using assms Inr c by (cases x) (auto simp: should_skip_def split: bool.splits if_splits prod.splits)
  ultimately show ?thesis by auto
qed

text \<open>A batch that goes on accumulating: only the clock is read, and the batch has a start time.\<close>

definition held :: "'w bp \<Rightarrow> 'w bp \<Rightarrow> bool" where
  "held s s' \<longleftrightarrow> (\<exists>w t. s' = s\<lparr>bp_world := w, bp_pending_started := Some t\<rparr> \<and> (bp_pending_started s = None \<or> bp_pending_started s = Some t))"

lemma held_ext:
  assumes "held s s1" "ext [] s1 s2"
  shows "held s s2"
proof -
  from assms obtain w t w' where "s1 = s\<lparr>bp_world := w, bp_pending_started := Some t\<rparr>"
    and t: "bp_pending_started s = None \<or> bp_pending_started s = Some t"
    and "s2 = s1\<lparr>bp_world := w', bp_trace := bp_trace s1 @ []\<rparr>"
    unfolding held_def ext_def by blast
  then have "s2 = s\<lparr>bp_world := w', bp_pending_started := Some t\<rparr>" by simp
  with t show ?thesis unfolding held_def by blast
qed

lemma held_emptied: "held s s1 \<Longrightarrow> emptied cs s1 s2 \<Longrightarrow> emptied cs s s2"
  unfolding held_def emptied_def by auto

lemma held_pending: "held s s' \<Longrightarrow> bp_pending s' = bp_pending s"
  by (auto simp: held_def)

lemma after_process_spec:
  assumes "after_process W m fl force s = (r, s')"
  shows "(\<exists>cs. flush_trace (bp_pending s) cs r \<and> emptied cs s s') \<or>
    (r = Inr () \<and> int (length (bp_pending s)) < bp_max s \<and> held s s')"
proof (cases "fl \<or> int (length (bp_pending s)) \<ge> bp_max s \<or> force")
  case True
  with assms have "flush W s = (r, s')" by (auto simp: after_process_def)
  then show ?thesis using flush_spec by blast
next
  case False
  define p1 where "p1 = (case bp_pending_started s of Some t \<Rightarrow> (t, s)
      | None \<Rightarrow> (case now W s of (t, s') \<Rightarrow> (t, s'\<lparr>bp_pending_started := Some t\<rparr>)))"
  obtain ps s1 where p1: "p1 = (ps, s1)" by (cases p1)
  have h1: "held s s1"
  proof (cases "bp_pending_started s")
    case (Some t)
    with p1 show ?thesis unfolding held_def p1_def by (intro exI [of _ "bp_world s"] exI [of _ t]) simp
  next
    case None
    obtain t s0 where n: "now W s = (t, s0)" by (cases "now W s")
    with None p1 ext_now [OF n] show ?thesis by (auto simp: held_def p1_def ext_def)
  qed
  define np where "np = (case m_metadata m of Inl _ \<Rightarrow> 0 | Inr md \<Rightarrow> md_num_pending md)"
  define p2 where "p2 = (if np > bp_max s1 then (case now W s1 of (t, s') \<Rightarrow> (t - ps < bp_max_pending_latency s1 * 2, s')) else (False, s1))"
  obtain bypass s2 where p2: "p2 = (bypass, s2)" by (cases p2)
  have h2: "held s s2"
    using p2 h1 held_ext [OF h1 ext_now] by (auto simp: p2_def split: if_splits prod.splits)
  obtain t s3 where n3: "now W s2 = (t, s3)" by (cases "now W s2")
  have h3: "held s s3" using held_ext [OF h2 ext_now [OF n3]] .
  have h4: "held s (snd (now W s3))" using held_ext [OF h3 ext_now] by (cases "now W s3") auto
  have res: "(r, s') = (if bypass then (Inr (), s2) else if t - ps \<ge> bp_max_pending_latency s3 then flush W (snd (now W s3)) else (Inr (), s3))"
    using assms False p1 p2 n3 unfolding after_process_def p1_def np_def p2_def by auto
  consider "r = Inr ()" "held s s'" | "flush W (snd (now W s3)) = (r, s')"
    using res h2 h3 by (auto split: if_splits)
  then show ?thesis
  proof cases
    case 1
    with False show ?thesis by auto
  next
    case 2
    from flush_spec [OF this] held_pending [OF h4] held_emptied [OF h4] show ?thesis by auto
  qed
qed

lemma quiet_then_error:
  assumes "quietly s s1" "handle_error W err s1 = (r, s')"
  shows "\<exists>pre nk. list_all quiet pre \<and> naks (bp_pending s) nk \<and> r = Inl (ConsumerFatal err) \<and> emptied (pre @ nk) s s'"
proof -
  from assms(1) obtain pre where pre: "list_all quiet pre" "ext pre s s1" by (auto simp: quietly_def)
  from handle_error_trace [OF assms(2)] obtain nk where "r = Inl (ConsumerFatal err)" "naks (bp_pending s1) nk" "emptied nk s1 s'"
    by blast
  with pre emptied_trans [OF pre(2)] ext_fields(2) [OF pre(2)] show ?thesis by auto
qed

lemma process_event_spec:
  assumes "process_event W m evt s = (r, s')"
  shows "(\<exists>pre nk e. list_all quiet pre \<and> naks (bp_pending s) nk \<and> r = Inl (ConsumerFatal e) \<and> emptied (pre @ nk) s s') \<or>
    (\<exists>pre fcs. list_all quiet pre \<and> flush_trace (bp_pending s) fcs r \<and> emptied (pre @ [CProcess (m_id m) True] @ fcs) s s') \<or>
    (\<exists>pre s1. list_all quiet pre \<and> r = Inr () \<and> int (length (bp_pending s)) < bp_max s \<and>
       ext (pre @ [CProcess (m_id m) True]) s s1 \<and> held s1 s')"
proof -
  obtain x s1 where x: "(if bp_supports_migration s then handle_possible_migration W evt s else (Inr (False, evt), s)) = (x, s1)"
    by (cases "if bp_supports_migration s then handle_possible_migration W evt s else (Inr (False, evt), s)")
  have q1: "quietly s s1" using x migration_quiet [of W evt s] by (auto split: if_splits)
  show ?thesis
  proof (cases x)
    case (Inl e)
    with assms x have "handle_error W (exc_str e) s1 = (r, s')" by (simp add: process_event_def)
    from quiet_then_error [OF q1 this] show ?thesis by blast
  next
    case (Inr fe)
    obtain force evt1 where fe: "fe = (force, evt1)" by (cases fe)
    obtain y s2 where y: "strip_unknown W evt1 s1 = (y, s2)" by (cases "strip_unknown W evt1 s1")
    note q2 = quietly_trans [OF q1 strip_quiet [OF y]]
    show ?thesis
    proof (cases y)
      case (Inl e)
      with assms x Inr fe y have "handle_error W (exc_str e) s2 = (r, s')" by (simp add: process_event_def)
      from quiet_then_error [OF q2 this] show ?thesis by blast
    next
      case (Inr evt2)
      obtain z s3 where z: "calls (w_process W evt2) (\<lambda>b. [CProcess (m_id m) b]) s2 = (z, s3)"
        by (cases "calls (w_process W evt2) (\<lambda>b. [CProcess (m_id m) b]) s2")
      show ?thesis
      proof (cases z)
        case (Inl e)
        have "quietly s (log_call [CPendingDec] s3)"
          using q2 quietly_calls [OF z] Inl quietly_log [of "[CPendingDec]" s3] quietly_trans by fastforce
        moreover have "handle_error W (exc_str e) (log_call [CPendingDec] s3) = (r, s')"
          using assms x \<open>x = Inr fe\<close> fe y Inr z Inl by (simp add: process_event_def)
        ultimately show ?thesis using quiet_then_error by blast
      next
        case (Inr fl)
        from q2 obtain pre where pre: "list_all quiet pre" "ext pre s s2" by (auto simp: quietly_def)
        from ext_trans [OF pre(2) ext_calls [OF z]] Inr have e3: "ext (pre @ [CProcess (m_id m) True]) s s3" by simp
        have a: "after_process W m fl force s3 = (r, s')"
          using assms x \<open>x = Inr fe\<close> fe y \<open>y = Inr evt2\<close> z Inr by (simp add: process_event_def)
        from after_process_spec [OF a] show ?thesis
        proof (elim disjE exE conjE)
          fix cs assume "flush_trace (bp_pending s3) cs r" "emptied cs s3 s'"
          with pre(1) emptied_trans [OF e3] ext_fields(2) [OF e3] show ?thesis by (intro disjI2 disjI1) auto
        next
          assume "r = Inr ()" "int (length (bp_pending s3)) < bp_max s3" "held s3 s'"
          with pre(1) e3 ext_fields(2,4) [OF e3] show ?thesis by (intro disjI2) auto
        qed
      qed
    qed
  qed
qed

lemma remove_from_pending_ids:
  "image_mset m_id (mset (remove_from_pending m (ps @ [m]))) = image_mset m_id (mset ps)"
  unfolding remove_from_pending_def by (induction ps) auto

lemma remove_from_pending_nil: "remove_from_pending m (ps @ [m]) = [] \<longleftrightarrow> ps = []"
  using arg_cong [OF remove_from_pending_ids [of m ps], of size] by auto

text \<open>What the processor keeps between messages.\<close>

definition bp_inv :: "'w bp \<Rightarrow> bool" where
  "bp_inv s \<longleftrightarrow> 0 < bp_max s \<and> int (length (bp_pending s)) < bp_max s \<and> (bp_pending s = [] \<longleftrightarrow> bp_pending_started s = None)"

definition crash :: "unit out \<Rightarrow> bool" where
  "crash r \<longleftrightarrow> (\<exists>e. r = Inl (Raised e))"

lemma emptied_inv: "emptied cs s s' \<Longrightarrow> 0 < bp_max s \<Longrightarrow> bp_inv s'"
  using emptied_fields [of cs s s'] by (simp add: bp_inv_def)

lemma skip_message_spec:
  assumes "skip_message W m s = (r, s')"
  shows "r = Inr () \<and> (\<exists>b. bp_trace s' = bp_trace s @ [CSkip (m_id m), CAck (m_id m) b, CPendingDec]) \<and>
    bp_pending s' = remove_from_pending m (bp_pending s) \<and> bp_pending_started s' = bp_pending_started s \<and>
    bp_max s' = bp_max s \<and> bp_sequence s' = bp_sequence s"
proof -
  obtain x s1 where c: "calls (w_ack W (m_id m)) (\<lambda>b. [CAck (m_id m) b]) (log_call [CSkip (m_id m)] s) = (x, s1)"
    by (cases "calls (w_ack W (m_id m)) (\<lambda>b. [CAck (m_id m) b]) (log_call [CSkip (m_id m)] s)")
  from ext_trans [OF ext_log ext_calls [OF c]] have e: "ext [CSkip (m_id m), CAck (m_id m) (ok x)] s s1" by simp
  from assms c ext_fields [OF e] show ?thesis by (auto simp: skip_message_def log_call_def)
qed

lemma process_message_spec:
  assumes "process_message W m s = (r, s')"
  shows "\<exists>cs. msg_trace (bp_max s) m (bp_pending s) cs r (bp_pending s') \<and> bp_trace s' = bp_trace s @ cs \<and> bp_max s' = bp_max s \<and>
    (bp_inv s \<longrightarrow> \<not> crash r \<longrightarrow> bp_inv s') \<and>
    (r = Inr () \<longrightarrow> bp_sequence s' = bp_sequence s + 1 \<and> (\<exists>md. m_metadata m = Inr md \<and> md_consumer_seq md = bp_sequence s'))"
proof (cases "m_metadata m")
  case (Inl e)
  with assms have h: "handle_error W (exc_str e) (log_call [CPendingDec] s) = (r, s')" by (simp add: process_message_def)
  from handle_error_trace [OF h] obtain nk where nk: "r = Inl (ConsumerFatal (exc_str e))" "naks (bp_pending s) nk"
    "emptied nk (log_call [CPendingDec] s) s'" by (auto simp: log_call_def)
  from emptied_trans [OF ext_log nk(3)] have "emptied (CPendingDec # nk) s s'" by simp
  with nk Inl msg_trace.bad_metadata [of m "bp_pending s" nk "bp_max s"] emptied_fields [OF this] emptied_inv [OF this]
  show ?thesis by (auto simp: bp_inv_def)
next
  case (Inr md)
  let ?ps = "bp_pending s @ [m]"
  define s1 where "s1 = s\<lparr>bp_pending := ?ps\<rparr>"
  define s2 where "s2 = s1\<lparr>bp_sequence := md_consumer_seq md\<rparr>"
  have error: ?thesis if q: "quietly t t'" and h: "handle_error W err t' = (r, s')"
    and t: "bp_pending t = ?ps" "bp_trace t = bp_trace s" "bp_max t = bp_max s" for t t' err
  proof -
    from quiet_then_error [OF q h] t obtain pre nk where "list_all quiet pre" "naks ?ps nk"
      "r = Inl (ConsumerFatal err)" "emptied (pre @ nk) t s'" by auto
    with msg_trace.failed [of pre "bp_pending s" m nk "bp_max s" err] emptied_fields [of "pre @ nk" t s']
      emptied_inv [of "pre @ nk" t s'] t show ?thesis by (auto simp: bp_inv_def)
  qed
  note defs = process_message_def Inr Let_def s1_def [symmetric] s2_def [symmetric]
  have t1: "bp_pending s1 = ?ps" "bp_trace s1 = bp_trace s" "bp_max s1 = bp_max s" by (simp_all add: s1_def)
  have t2: "bp_pending s2 = ?ps" "bp_trace s2 = bp_trace s" "bp_max s2 = bp_max s" "bp_sequence s2 = md_consumer_seq md"
    "bp_pending_started s2 = bp_pending_started s" by (simp_all add: s1_def s2_def)
  show ?thesis
  proof (cases "md_consumer_seq md = bp_sequence s + 1")
    case False
    then have "handle_error W (out_of_order (md_consumer_seq md) (bp_sequence s1 + 1)) (log_call [CPendingDec] s1) = (r, s')"
      using assms by (simp add: defs) (simp add: s1_def)
    from error [OF quietly_log this t1] show ?thesis by simp
  next
    case seq: True
    show ?thesis
    proof (cases "from_message (m_data m) (md_consumer_seq md)")
      case (Inl e)
      then have "handle_error W (exc_str e) (log_call [CPendingDec] s2) = (r, s')"
        using assms seq by (simp add: process_message_def \<open>m_metadata m = Inr md\<close> Let_def s1_def s2_def)
      from error [OF quietly_log this t2(1-3)] show ?thesis by simp
    next
      case (Inr evt)
      obtain x s3 where x: "should_skip W evt s2 = (x, s3)" by (cases "should_skip W evt s2")
      note e3 = ext_fields [OF skip_quiet [OF x]]
      have q3: "quietly s2 s3" using skip_quiet [OF x] by (auto simp: quietly_def intro!: exI [of _ "[]"])
      have step: "process_message W m s = (case (x, s3) of (Inl e, s3) \<Rightarrow> (Inl (Raised e), s3)
          | (Inr (True, _), s3) \<Rightarrow> skip_message W m s3 | (Inr (False, evt1), s3) \<Rightarrow> process_event W m evt1 s3)"
        using seq Inr x by (simp add: process_message_def \<open>m_metadata m = Inr md\<close> Let_def s1_def s2_def)
      consider (crash) e where "x = Inl e" | (skip) ev where "x = Inr (True, ev)" | (go) ev where "x = Inr (False, ev)"
        by (cases x) auto
      then show ?thesis
      proof cases
        case crash
        then have "r = Inl (Raised e)" "s' = s3" using assms step by simp_all
        then show ?thesis using e3 t2 msg_trace.crashed [of "bp_max s" m "bp_pending s" e] by (simp add: crash_def)
      next
        case skip
        then have "skip_message W m s3 = (r, s')" using assms step by simp
        from skip_message_spec [OF this] obtain b where k: "r = Inr ()" 
          "bp_trace s' = bp_trace s @ [CSkip (m_id m), CAck (m_id m) b, CPendingDec]"
          "bp_pending s' = remove_from_pending m ?ps" "bp_pending_started s' = bp_pending_started s" "bp_max s' = bp_max s"
          "bp_sequence s' = md_consumer_seq md" using e3 t2 by auto
        have "length (remove_from_pending m ?ps) = length (bp_pending s)"
          using arg_cong [OF remove_from_pending_ids [of m "bp_pending s"], of size] by simp
        with k have "bp_inv s \<longrightarrow> bp_inv s'" by (simp add: bp_inv_def remove_from_pending_nil)
        with k seq \<open>m_metadata m = Inr md\<close> msg_trace.skipped [of "bp_max s" m "bp_pending s" b] show ?thesis by auto
      next
        case go
        then have p: "process_event W m ev s3 = (r, s')" using assms step by simp
        have p3: "bp_pending s3 = ?ps" "bp_trace s3 = bp_trace s" "bp_max s3 = bp_max s" using e3 t2 by simp_all
        from process_event_spec [OF p] show ?thesis
        proof (elim disjE exE conjE)
          fix pre nk e assume "list_all quiet pre" "naks (bp_pending s3) nk" "r = Inl (ConsumerFatal e)" "emptied (pre @ nk) s3 s'"
          with p3 msg_trace.failed [of pre "bp_pending s" m nk "bp_max s" e] emptied_fields [of "pre @ nk" s3 s']
            emptied_inv [of "pre @ nk" s3 s'] show ?thesis by (auto simp: bp_inv_def)
        next
          fix pre fcs assume h: "list_all quiet pre" "flush_trace (bp_pending s3) fcs r" "emptied (pre @ [CProcess (m_id m) True] @ fcs) s3 s'"
          from h p3 msg_trace.flushed [of pre "bp_pending s" m fcs r "bp_max s"] emptied_fields [OF h(3)]
            emptied_inv [OF h(3)] e3 t2 seq \<open>m_metadata m = Inr md\<close> show ?thesis by (auto simp: bp_inv_def)
        next
          fix pre s4 assume h: "list_all quiet pre" "r = Inr ()" "int (length (bp_pending s3)) < bp_max s3"
            "ext (pre @ [CProcess (m_id m) True]) s3 s4" "held s4 s'"
          from h(5) have s': "bp_pending s' = bp_pending s4" "bp_trace s' = bp_trace s4" "bp_max s' = bp_max s4"
            "bp_sequence s' = bp_sequence s4" "bp_pending_started s' \<noteq> None" by (auto simp: held_def)
          from h p3 s' ext_fields [OF h(4)] msg_trace.kept [of pre "bp_pending s" m "bp_max s"] e3 t2 seq \<open>m_metadata m = Inr md\<close>
          show ?thesis by (auto simp: bp_inv_def)
        qed
      qed
    qed
  qed
qed

section \<open>At-least-once delivery\<close>

text \<open>
  What the trace means for the messages. A message is \<open>processed\<close> once the driver has taken it, \<open>durable\<close>
  once a driver flush has succeeded after that. An acknowledgement is allowed for a durable or a skipped
  message only; otherwise the trace is rejected.
\<close>

record delivery =
  dl_processed :: "nat set"
  dl_durable :: "nat set"
  dl_skipped :: "nat set"

definition no_delivery :: delivery where
  "no_delivery = \<lparr>dl_processed = {}, dl_durable = {}, dl_skipped = {}\<rparr>"

fun deliver :: "call \<Rightarrow> delivery \<Rightarrow> delivery option" where
  "deliver (CProcess i True) d = Some (d\<lparr>dl_processed := insert i (dl_processed d), dl_durable := dl_durable d - {i}\<rparr>)"
| "deliver (CFlush True) d = Some (d\<lparr>dl_durable := dl_durable d \<union> dl_processed d, dl_processed := {}\<rparr>)"
| "deliver (CSkip i) d = Some (d\<lparr>dl_skipped := insert i (dl_skipped d)\<rparr>)"
| "deliver (CAck i b) d = (if i \<in> dl_durable d \<union> dl_skipped d then Some d else None)"
| "deliver c d = Some d"

fun deliver_all :: "call list \<Rightarrow> delivery \<Rightarrow> delivery option" where
  "deliver_all [] d = Some d"
| "deliver_all (c # cs) d = (case deliver c d of None \<Rightarrow> None | Some d' \<Rightarrow> deliver_all cs d')"

definition answered :: "call list \<Rightarrow> nat \<Rightarrow> bool" where
  "answered tr i \<longleftrightarrow> (\<exists>b. CAck i b \<in> set tr \<or> CNak i b \<in> set tr)"

abbreviation ids :: "msg list \<Rightarrow> nat set" where
  "ids ms \<equiv> m_id ` set ms"

definition taken :: "msg list \<Rightarrow> delivery \<Rightarrow> bool" where
  "taken ms d \<longleftrightarrow> ids ms \<subseteq> dl_processed d \<union> dl_durable d"

lemma deliver_all_append:
  "deliver_all (a @ b) d = (case deliver_all a d of None \<Rightarrow> None | Some d' \<Rightarrow> deliver_all b d')"
  by (induction a arbitrary: d) (auto split: option.splits)

lemma deliver_quiet: "list_all quiet cs \<Longrightarrow> deliver_all cs d = Some d"
proof (induction cs)
  case (Cons c cs)
  then show ?case by (cases c) (auto split: bool.splits)
qed simp

lemma deliver_naks: "naks ms cs \<Longrightarrow> deliver_all cs d = Some d"
  unfolding naks_def by (induction rule: list_all2_induct) auto

lemma deliver_acks: "ids ms \<subseteq> dl_durable d \<Longrightarrow> deliver_all (acks ms) d = Some d"
  unfolding acks_def by (induction ms) auto

lemma deliver_flush:
  assumes "flush_trace ms cs r" "taken ms d"
  shows "\<exists>d'. deliver_all cs d = Some d'"
  using assms
proof cases
  case (flushed mt)
  let ?d = "d\<lparr>dl_durable := dl_durable d \<union> dl_processed d, dl_processed := {}\<rparr>"
  have "deliver_all (acks ms) ?d = Some ?d" using assms(2) by (intro deliver_acks) (auto simp: taken_def)
  with flushed show ?thesis by (simp add: deliver_all_append deliver_quiet)
next
  case (ack_failed ms1 m ms2 nk)
  let ?d = "d\<lparr>dl_durable := dl_durable d \<union> dl_processed d, dl_processed := {}\<rparr>"
  have "deliver_all (acks ms1) ?d = Some ?d" "m_id m \<in> dl_durable ?d"
    using assms(2) ack_failed by (auto simp: taken_def intro!: deliver_acks)
  with ack_failed show ?thesis by (auto simp: deliver_all_append deliver_naks)
next
  case (flush_failed nk)
  then show ?thesis by (simp add: deliver_naks)
qed

lemma answered_simps [simp]:
  "answered (a @ b) i \<longleftrightarrow> answered a i \<or> answered b i"
  "\<not> answered [] i" "answered (CNak j x # cs) i \<longleftrightarrow> i = j \<or> answered cs i"
  "answered (CAck j x # cs) i \<longleftrightarrow> i = j \<or> answered cs i" "answered (CPendingDec # cs) i \<longleftrightarrow> answered cs i"
  "answered (CFlush x # cs) i \<longleftrightarrow> answered cs i" "answered (CSkip j # cs) i \<longleftrightarrow> answered cs i"
  "answered (CProcess j x # cs) i \<longleftrightarrow> answered cs i"
  by (auto simp: answered_def)

lemma answered_naks: "naks ms cs \<Longrightarrow> i \<in> ids ms \<Longrightarrow> answered cs i"
  unfolding naks_def by (induction rule: list_all2_induct) auto

lemma answered_acks: "i \<in> ids ms \<Longrightarrow> answered (acks ms) i"
  unfolding acks_def by (induction ms) auto

lemma answered_flush: "flush_trace ms cs r \<Longrightarrow> i \<in> ids ms \<Longrightarrow> answered cs i"
  by (induction rule: flush_trace.induct) (auto simp: answered_naks answered_acks)

lemma deliver_msg:
  assumes "msg_trace mx m ps cs r ps'" "taken ps d"
  shows "\<exists>d'. deliver_all cs d = Some d' \<and> (\<not> crash r \<longrightarrow> taken ps' d')"
  using assms
proof cases
  case (skipped b)
  have "ids (remove_from_pending m (ps @ [m])) = ids ps"
    using arg_cong [OF remove_from_pending_ids [of m ps], of set_mset] by simp
  with skipped assms(2) show ?thesis by (auto simp: taken_def)
next
  case (kept pre)
  with assms(2) show ?thesis by (auto simp: deliver_all_append deliver_quiet taken_def)
next
  case (flushed pre fcs)
  have "taken (ps @ [m]) (d\<lparr>dl_processed := insert (m_id m) (dl_processed d), dl_durable := dl_durable d - {m_id m}\<rparr>)"
    using assms(2) by (auto simp: taken_def)
  from deliver_flush [OF flushed(4) this] flushed show ?thesis by (auto simp: deliver_all_append deliver_quiet taken_def)
qed (auto simp: deliver_all_append deliver_quiet deliver_naks taken_def crash_def)

lemma answered_msg:
  assumes "msg_trace mx m ps cs r ps'" "i \<in> ids ps \<or> (i = m_id m \<and> ok (m_metadata m))"
  shows "answered cs i \<or> i \<in> ids ps'"
  using assms
proof cases
  case (skipped b)
  have "ids (remove_from_pending m (ps @ [m])) = ids ps"
    using arg_cong [OF remove_from_pending_ids [of m ps], of set_mset] by simp
  with skipped assms(2) show ?thesis by auto
next
  case (flushed pre fcs)
  from answered_flush [OF flushed(4), of i] assms(2) flushed show ?thesis by auto
next
  case (failed pre nk e)
  with answered_naks [of "ps @ [m]" nk i] assms(2) show ?thesis by auto
qed (auto simp: answered_naks)

lemma msg_trace_stop: "msg_trace mx m ps cs (Inl st) ps' \<Longrightarrow> \<not> crash (Inl st) \<Longrightarrow> ps' = []"
  by (cases rule: msg_trace.cases) (auto simp: crash_def)

subsection \<open>Runs of the bufferer\<close>

text \<open>
  What a run from \<open>s\<close> to \<open>s'\<close> with outcome \<open>e\<close> does, having taken the messages \<open>U\<close> from the queue: the
  calls it adds are accepted, every message that was pending or taken is answered or still pending, and
  a run that ended leaves nothing pending.
\<close>

definition crashed :: "bend \<Rightarrow> bool" where
  "crashed e \<longleftrightarrow> (\<exists>x. e = Crashed x)"

definition progress :: "nat set \<Rightarrow> 'w bp \<Rightarrow> bend \<Rightarrow> 'w bp \<Rightarrow> bool" where
  "progress U s e s' \<longleftrightarrow>
     (\<exists>cs. bp_trace s' = bp_trace s @ cs \<and>
        (\<forall>d. taken (bp_pending s) d \<longrightarrow> (\<exists>d'. deliver_all cs d = Some d' \<and> (\<not> crashed e \<longrightarrow> taken (bp_pending s') d'))) \<and>
        (\<forall>i \<in> ids (bp_pending s) \<union> U. answered cs i \<or> i \<in> ids (bp_pending s'))) \<and>
     (bp_inv s \<longrightarrow> \<not> crashed e \<longrightarrow> bp_inv s') \<and> (e = Ended \<longrightarrow> bp_pending s' = [])"

definition known :: "binput list \<Rightarrow> nat set" where
  "known ins = {m_id m | m. BItem (Some m) \<in> set ins \<and> ok (m_metadata m)}"

lemma known_simps [simp]:
  "known [] = {}" "known (BNone c # ins) = known ins" "known (BItem None # ins) = known ins"
  "known (BItem (Some m) # ins) = (if ok (m_metadata m) then insert (m_id m) (known ins) else known ins)"
  by (auto simp: known_def)

lemma progress_trans:
  assumes "progress U s Running s1" "progress V s1 e s2"
  shows "progress (U \<union> V) s e s2"
proof -
  have running: "\<not> crashed Running" by (simp add: crashed_def)
  from assms(1) obtain a where a0: "bp_trace s1 = bp_trace s @ a"
    "\<forall>d. taken (bp_pending s) d \<longrightarrow> (\<exists>d'. deliver_all a d = Some d' \<and> (\<not> crashed Running \<longrightarrow> taken (bp_pending s1) d'))"
    "\<forall>i \<in> ids (bp_pending s) \<union> U. answered a i \<or> i \<in> ids (bp_pending s1)" "bp_inv s \<longrightarrow> \<not> crashed Running \<longrightarrow> bp_inv s1"
    unfolding progress_def by (elim conjE exE)
  note a = a0(1) a0(2) [rule_format] a0(3) [rule_format] a0(4) [rule_format]
  from assms(2) obtain b where b0: "bp_trace s2 = bp_trace s1 @ b"
    "\<forall>d. taken (bp_pending s1) d \<longrightarrow> (\<exists>d'. deliver_all b d = Some d' \<and> (\<not> crashed e \<longrightarrow> taken (bp_pending s2) d'))"
    "\<forall>i \<in> ids (bp_pending s1) \<union> V. answered b i \<or> i \<in> ids (bp_pending s2)"
    "bp_inv s1 \<longrightarrow> \<not> crashed e \<longrightarrow> bp_inv s2" "e = Ended \<longrightarrow> bp_pending s2 = []"
    unfolding progress_def by (elim conjE exE)
  note b = b0(1) b0(2) [rule_format] b0(3) [rule_format] b0(4) [rule_format] b0(5)
  have "\<exists>d'. deliver_all (a @ b) d = Some d' \<and> (\<not> crashed e \<longrightarrow> taken (bp_pending s2) d')" if "taken (bp_pending s) d" for d
  proof -
    from a(2) [OF that] running obtain d1 where d1: "deliver_all a d = Some d1" "taken (bp_pending s1) d1" by blast
    from b(2) [OF d1(2)] d1(1) show ?thesis by (simp add: deliver_all_append)
  qed
  moreover have "answered (a @ b) i \<or> i \<in> ids (bp_pending s2)" if "i \<in> ids (bp_pending s) \<union> (U \<union> V)" for i
    using that a(3) [of i] b(3) [of i] by auto
  moreover have "bp_trace s2 = bp_trace s @ (a @ b)" using a(1) b(1) by simp
  moreover have "bp_inv s \<longrightarrow> \<not> crashed e \<longrightarrow> bp_inv s2" using a(4) b(4) running by blast
  ultimately show ?thesis unfolding progress_def using b(5) by (intro conjI exI [of _ "a @ b"]) blast+
qed

lemma progress_emptied:
  assumes "emptied cs s s'" "\<And>d. taken (bp_pending s) d \<Longrightarrow> \<exists>d'. deliver_all cs d = Some d'"
    "\<And>i. i \<in> ids (bp_pending s) \<Longrightarrow> answered cs i" "\<not> crashed e"
  shows "progress {} s e s'"
  using assms emptied_fields [OF assms(1)] emptied_inv [OF assms(1)]
  unfolding progress_def by (intro conjI exI [of _ cs]) (auto simp: taken_def bp_inv_def)

lemma progress_flush: "flush W s = (r, s') \<Longrightarrow> \<not> crashed e \<Longrightarrow> progress {} s e s'"
  using flush_spec deliver_flush answered_flush progress_emptied by metis

lemma progress_refl: "progress {} s Running s"
  unfolding progress_def by (intro conjI exI [of _ "[]"]) (auto simp: crashed_def)

lemma progress_message:
  assumes "process_message W m s = (r, s')" "crashed e \<longleftrightarrow> crash r" "e = Ended \<Longrightarrow> \<exists>st. r = Inl st"
  shows "progress (known [BItem (Some m)]) s e s'"
proof -
  from process_message_spec [OF assms(1)] obtain cs where cs: "msg_trace (bp_max s) m (bp_pending s) cs r (bp_pending s')"
    "bp_trace s' = bp_trace s @ cs" "bp_inv s \<longrightarrow> \<not> crash r \<longrightarrow> bp_inv s'" by blast
  have "bp_pending s' = []" if e: "e = Ended"
  proof -
    from assms(3) [OF e] obtain st where "r = Inl st" by blast
    with msg_trace_stop cs(1) assms(2) e show ?thesis by (auto simp: crashed_def)
  qed
  moreover have "answered cs i \<or> i \<in> ids (bp_pending s')" if "i \<in> ids (bp_pending s) \<union> known [BItem (Some m)]" for i
    using answered_msg [OF cs(1), of i] that by (auto split: if_splits)
  moreover have "\<exists>d'. deliver_all cs d = Some d' \<and> (\<not> crashed e \<longrightarrow> taken (bp_pending s') d')" if "taken (bp_pending s) d" for d
    using deliver_msg [OF cs(1) that] assms(2) by simp
  ultimately show ?thesis unfolding progress_def using cs(2,3) assms(2) by blast
qed

lemma progress_log: "progress U s Ended s1 \<Longrightarrow> quiet c \<Longrightarrow> progress U s Ended (log_call [c] s1)"
proof -
  assume p: "progress U s Ended s1" and q: "quiet c"
  then obtain cs where cs: "bp_trace s1 = bp_trace s @ cs" "bp_pending s1 = []"
    "\<And>d. taken (bp_pending s) d \<Longrightarrow> \<exists>d'. deliver_all cs d = Some d'"
    "\<And>i. i \<in> ids (bp_pending s) \<union> U \<Longrightarrow> answered cs i" "bp_inv s \<Longrightarrow> bp_inv s1"
    unfolding progress_def crashed_def by fastforce
  from q have "deliver_all (cs @ [c]) d = Some d'" if "deliver_all cs d = Some d'" for d d'
    using that deliver_quiet [of "[c]"] by (simp add: deliver_all_append del: deliver_all.simps)
  with cs show ?thesis
    unfolding progress_def crashed_def log_call_def
    by (intro conjI exI [of _ "cs @ [c]"]) (auto simp: taken_def bp_inv_def, blast)
qed

lemma progress_stop:
  assumes "process_message W m s = (Inl st, s1)" "handle_stop st s1 = (e, s')"
  shows "progress (known [BItem (Some m)]) s e s'"
proof (cases st)
  case ConsumerStopped
  with assms progress_message [OF assms(1), of Ended] show ?thesis
    by (simp add: handle_stop_def crash_def crashed_def)
next
  case (ConsumerFatal err)
  with assms progress_message [OF assms(1), of Ended] progress_log [of _ s s1 "CFatal err"] show ?thesis
    by (simp add: handle_stop_def crash_def crashed_def)
next
  case (Raised x)
  then have "crash (Inl st)" "e = Crashed x" "s' = s1" using assms(2) by (simp_all add: handle_stop_def crash_def)
  with progress_message [OF assms(1), of "Crashed x"] show ?thesis by (simp add: crashed_def)
qed

lemma progress_item:
  assumes "handle_item W item s = (e, s')"
  shows "progress (known [BItem item]) s e s'"
proof (cases item)
  case None
  obtain r s1 where f: "flush W s = (r, s1)" by (cases "flush W s")
  have "\<not> crash r" using flush_spec [OF f] by (auto simp: crash_def elim: flush_trace.cases)
  with assms None f have "e = Ended" "s' = s1"
    by (cases r; auto simp: handle_item_def final_flush_def crash_def split: stop.splits)+
  with progress_flush [OF f, of Ended] None show ?thesis by (simp add: crashed_def)
next
  case (Some m)
  obtain r s1 where p: "process_message W m s = (r, s1)" by (cases "process_message W m s")
  show ?thesis
  proof (cases r)
    case (Inl st)
    with assms Some p have "handle_stop st s1 = (e, s')" by (simp add: handle_item_def)
    with progress_stop p Inl Some show ?thesis by blast
  next
    case (Inr u)
    with assms Some p have "e = Running" "s' = s1" by (simp_all add: handle_item_def)
    with progress_message [OF p, of Running] Inr Some show ?thesis by (simp add: crashed_def crash_def)
  qed
qed

lemma progress_idle:
  assumes "on_idle W s = (r, s')"
  shows "(r = Inr () \<and> progress {} s Running s') \<or>
    (\<exists>st. r = Inl st \<and> \<not> crash r \<and> progress {} s Ended s')"
proof -
  have flushed: ?thesis if f: "flush W s1 = (r, s')" and e: "ext [] s s1" for s1
  proof -
    from flush_spec [OF f] obtain cs where cs: "flush_trace (bp_pending s) cs r" "emptied cs s1 s'"
      using ext_fields(2) [OF e] by auto
    from emptied_trans [OF e cs(2)] have em: "emptied cs s s'" by simp
    have "progress {} s x s'" if "\<not> crashed x" for x
      using progress_emptied [OF em] deliver_flush [OF cs(1)] answered_flush [OF cs(1)] that by blast
    moreover have "r = Inr () \<or> (\<exists>st. r = Inl st \<and> \<not> crash r)"
      using cs(1) by (auto simp: crash_def elim: flush_trace.cases)
    ultimately show ?thesis by (auto simp: crashed_def)
  qed
  have kept: "progress {} s Running s1" if "ext [] s s1" for s1
    unfolding progress_def using ext_fields [OF that] by (intro conjI exI [of _ "[]"]) (auto simp: bp_inv_def)
  show ?thesis
  proof (cases "0 < length (bp_pending s) \<and> int (length (bp_pending s)) < bp_max s \<and> bp_pending_started s \<noteq> None")
    case True
    obtain t s1 where n: "now W s = (t, s1)" by (cases "now W s")
    from True assms n show ?thesis
      using flushed [OF _ ext_now [OF n]] kept [OF ext_now [OF n]] by (auto simp: on_idle_def split: if_splits)
  next
    case False
    with assms have "r = Inr ()" "s' = s" by (auto simp: on_idle_def split: if_splits option.splits)
    with progress_refl show ?thesis by simp
  qed
qed

lemma progress_run:
  "buf_run W ph ins s = (e, rest, s') \<Longrightarrow> \<exists>used. ins = used @ rest \<and> progress (known used) s e s'"
proof (induction W ph ins s arbitrary: e rest s' rule: buf_run.induct)
  case (1 W ph s)
  then show ?case using progress_refl by simp
next
  case (2 W item ins s)
  obtain x s1 where h: "handle_item W item s = (x, s1)" by (cases "handle_item W item s")
  note p = progress_item [OF h]
  show ?case
  proof (cases "x = Running")
    case True
    with "2.prems" h have "buf_run W Draining ins s1 = (e, rest, s')" by simp
    from "2.IH" [OF h [symmetric] True this] obtain used where u: "ins = used @ rest" "progress (known used) s1 e s'" by blast
    have "known (BItem item # used) = known [BItem item] \<union> known used" by (cases item) auto
    with progress_trans [OF p [unfolded True] u(2)] u(1) show ?thesis by (intro exI [of _ "BItem item # used"]) simp
  next
    case False
    with "2.prems" h p show ?thesis by (cases x) (auto intro: exI [of _ "[BItem item]"])
  qed
next
  case (3 W cancel ins s)
  show ?case
  proof (cases cancel)
    case True
    obtain cs where cs: "naks (bp_pending s) cs" "emptied cs s (nack_everything W s)" using nack_everything_ext by blast
    have "progress {} s Ended (nack_everything W s)"
      using progress_emptied [OF cs(2), of Ended] deliver_naks [OF cs(1)] answered_naks [OF cs(1)] by (simp add: crashed_def)
    with True "3.prems" show ?thesis by (intro exI [of _ "[BNone cancel]"]) simp
  next
    case False
    obtain r s1 where o: "on_idle W s = (r, s1)" by (cases "on_idle W s")
    from progress_idle [OF o] show ?thesis
    proof (elim disjE exE conjE)
      assume r: "r = Inr ()" and p: "progress {} s Running s1"
      with False "3.prems" o have "buf_run W Waiting ins s1 = (e, rest, s')" by simp
      from "3.IH" [OF False o [symmetric] r this] obtain used where u: "ins = used @ rest" "progress (known used) s1 e s'" by blast
      from progress_trans [OF p u(2)] u(1) show ?thesis by (intro exI [of _ "BNone cancel # used"]) simp
    next
      fix st assume st: "r = Inl st" "\<not> crash r" and p: "progress {} s Ended s1"
      with False "3.prems" o progress_log [OF p, of "CFatal _"] show ?thesis
        by (intro exI [of _ "[BNone cancel]"]) (cases st; auto simp: handle_stop_def crash_def)
    qed
  qed
next
  case (4 W item ins s)
  obtain x s1 where h: "handle_item W item s = (x, s1)" by (cases "handle_item W item s")
  note p = progress_item [OF h]
  show ?case
  proof (cases "x = Running")
    case True
    with "4.prems" h have "buf_run W Draining ins s1 = (e, rest, s')" by simp
    from "4.IH" [OF h [symmetric] True this] obtain used where u: "ins = used @ rest" "progress (known used) s1 e s'" by blast
    have "known (BItem item # used) = known [BItem item] \<union> known used" by (cases item) auto
    with progress_trans [OF p [unfolded True] u(2)] u(1) show ?thesis by (intro exI [of _ "BItem item # used"]) simp
  next
    case False
    with "4.prems" h p show ?thesis by (cases x) (auto intro: exI [of _ "[BItem item]"])
  qed
next
  case (5 W c ins s)
  from "5.IH" "5.prems" obtain used where "ins = used @ rest" "progress (known used) s e s'" by auto
  then show ?case by (intro exI [of _ "BNone c # used"]) simp
qed

section \<open>Properties\<close>

definition fresh :: "'w bp \<Rightarrow> bool" where
  "fresh s \<longleftrightarrow> bp_trace s = [] \<and> bp_pending s = [] \<and> bp_pending_started s = None \<and> 0 < bp_max s"

lemma fresh_inv: "fresh s \<Longrightarrow> bp_inv s \<and> taken (bp_pending s) d"
  by (simp add: fresh_def bp_inv_def taken_def)

text \<open>C2: no message is acknowledged before it is safe. For every driver, registry, clock and connection,
  and every sequence of queue reads, timeouts, failures and stops, the calls of a run of the bufferer from
  a fresh processor contain an acknowledgement of a message only after the driver has processed it and then
  completed a flush, or after the decision to skip it.\<close>

theorem bufferer_acks_durable:
  assumes "fresh s" "buf_run W Draining ins s = (e, rest, s')"
  shows "\<exists>d. deliver_all (bp_trace s') no_delivery = Some d"
proof -
  from progress_run [OF assms(2)] obtain used where "progress (known used) s e s'" by blast
  then obtain cs where "bp_trace s' = bp_trace s @ cs"
    "\<forall>d. taken (bp_pending s) d \<longrightarrow> (\<exists>d'. deliver_all cs d = Some d' \<and> (\<not> crashed e \<longrightarrow> taken (bp_pending s') d'))"
    unfolding progress_def by (elim conjE exE)
  with fresh_inv [OF assms(1), of no_delivery] assms(1) show ?thesis by (auto simp: fresh_def)
qed

text \<open>C24: no message is forgotten. Of the messages a run of the bufferer has taken from the queue, those with
  readable metadata are acknowledged, returned or still pending; when the loop has ended, nothing is
  pending; and as long as no unforeseen exception ends it, fewer messages are pending than the batch limit.\<close>

theorem bufferer_answers_all:
  assumes "fresh s" "buf_run W Draining ins s = (e, rest, s')"
  shows "(\<exists>used. ins = used @ rest \<and>
      (\<forall>m. BItem (Some m) \<in> set used \<longrightarrow> ok (m_metadata m) \<longrightarrow>
         answered (bp_trace s') (m_id m) \<or> m_id m \<in> ids (bp_pending s'))) \<and>
    (e = Ended \<longrightarrow> bp_pending s' = []) \<and>
    (\<not> crashed e \<longrightarrow> int (length (bp_pending s')) < bp_max s' \<and> (bp_pending s' = [] \<longleftrightarrow> bp_pending_started s' = None))"
proof -
  from progress_run [OF assms(2)] obtain used where u: "ins = used @ rest" "progress (known used) s e s'" by blast
  from u(2) obtain cs where cs: "bp_trace s' = bp_trace s @ cs"
    "\<forall>i \<in> ids (bp_pending s) \<union> known used. answered cs i \<or> i \<in> ids (bp_pending s')"
    "bp_inv s \<longrightarrow> \<not> crashed e \<longrightarrow> bp_inv s'" "e = Ended \<longrightarrow> bp_pending s' = []"
    unfolding progress_def by (elim conjE exE)
  have "answered (bp_trace s') (m_id m) \<or> m_id m \<in> ids (bp_pending s')"
    if "BItem (Some m) \<in> set used" "ok (m_metadata m)" for m
  proof -
    have "m_id m \<in> known used" using that by (auto simp: known_def)
    with cs(1,2) show ?thesis by auto
  qed
  moreover have "\<not> crashed e \<longrightarrow> int (length (bp_pending s')) < bp_max s' \<and> (bp_pending s' = [] \<longleftrightarrow> bp_pending_started s' = None)"
    using cs(3) fresh_inv [OF assms(1)] by (simp add: bp_inv_def)
  ultimately show ?thesis using u(1) cs(4) by blast
qed

text \<open>A small world for the witnesses: a clock, a driver that accepts everything, no registry.\<close>

definition sample_world :: "int world_ops" where
  "sample_world = \<lparr>w_now = (\<lambda>w. (w, w + 1)), w_process = (\<lambda>_ w. (Inr False, w)), w_flush = (\<lambda>w. (Inr (), w)),
     w_migrate_new_table = (\<lambda>_ w. (Inr (), w)), w_migrate_new_columns = (\<lambda>_ _ w. (Inr (), w)),
     w_get_table_version = (\<lambda>_ w. (Inr (False, ''''), w)), w_set_table_version = (\<lambda>_ _ w. (Inr (), w)),
     w_get_schema = (\<lambda>_ _ w. (Inr empty_schema, w)), w_validate = (\<lambda>_ w. (Inr (True, True, ''''), w)),
     w_ack = (\<lambda>_ w. (Inr (), w)), w_nak = (\<lambda>_ w. (Inr (), w))\<rparr>"

definition sample_bp :: "int bp" where
  "sample_bp = \<lparr>bp_max = 10, bp_min_pending_latency = 5, bp_max_pending_latency = 50, bp_table_timestamps = Some [(''t'', Some 0)],
     bp_supports_migration = False, bp_has_registry = False, bp_has_validator = False, bp_sequence = 0, bp_pending = [],
     bp_pending_started = None, bp_world = 0, bp_trace = []\<rparr>"

definition sample_msg :: "nat \<Rightarrow> int \<Rightarrow> string \<Rightarrow> msg" where
  "sample_msg i seq data = \<lparr>m_id = i, m_data = data, m_metadata = Inr \<lparr>md_consumer_seq = seq, md_stream_seq = 0, md_num_delivered = 1, md_num_pending = 0\<rparr>\<rparr>"

definition sample_data :: string where
  "sample_data = ''{'' @ [DQ] @ ''key'' @ [DQ] @ '':['' @ [DQ] @ ''k'' @ [DQ] @ '']}''"

definition sample_run :: "bend \<times> binput list \<times> int bp" where
  "sample_run = buf_run sample_world Draining
     [BItem (Some (sample_msg 1 1 sample_data)), BNone False, BItem (Some (sample_msg 2 2 sample_data)), BItem None, BNone False] sample_bp"

lemma sample_run_value:
  "fst sample_run = Ended \<and> fst (snd sample_run) = [BNone False] \<and>
   filter (\<lambda>c. \<not> quiet c) (bp_trace (snd (snd sample_run))) =
     [CProcess 1 True, CProcess 2 True, CFlush True, CAck 1 True, CAck 2 True]"
  by code_simp

lemma sample_fresh: "fresh sample_bp"
  by (simp add: fresh_def sample_bp_def)

theorem bufferer_acks_durable_witness:
  "(\<exists>d. deliver_all (bp_trace (snd (snd sample_run))) no_delivery = Some d) \<and>
   filter (\<lambda>c. \<not> quiet c) (bp_trace (snd (snd sample_run))) =
     [CProcess 1 True, CProcess 2 True, CFlush True, CAck 1 True, CAck 2 True]"
proof -
  obtain e rest s' where r: "sample_run = (e, rest, s')" by (cases sample_run)
  from bufferer_acks_durable [OF sample_fresh r [unfolded sample_run_def]] sample_run_value show ?thesis
    unfolding r by simp
qed

theorem bufferer_answers_all_witness:
  "fst sample_run = Ended \<and> bp_pending (snd (snd sample_run)) = [] \<and> answered (bp_trace (snd (snd sample_run))) 2"
proof -
  obtain e rest s' where r: "sample_run = (e, rest, s')" by (cases sample_run)
  have e: "e = Ended" "rest = [BNone False]" using sample_run_value unfolding r by simp_all
  from bufferer_answers_all [OF sample_fresh r [unfolded sample_run_def]] obtain used where
    "[BItem (Some (sample_msg 1 1 sample_data)), BNone False, BItem (Some (sample_msg 2 2 sample_data)), BItem None, BNone False] = used @ rest"
    and a: "\<forall>m. BItem (Some m) \<in> set used \<longrightarrow> ok (m_metadata m) \<longrightarrow> answered (bp_trace s') (m_id m) \<or> m_id m \<in> ids (bp_pending s')"
    and p: "bp_pending s' = []" using e(1) by auto
  then have "BItem (Some (sample_msg 2 2 sample_data)) \<in> set used" using e(2) by (auto simp: Cons_eq_append_conv)
  with a p have "answered (bp_trace s') 2" by (auto simp: sample_msg_def)
  with e p show ?thesis unfolding r by simp
qed

text \<open>C25: one message against its specification. Whatever the world does, \<open>process_message\<close> behaves as one of
  the cases of the relation \<open>msg_trace\<close>: give up and return the whole batch, skip, keep accumulating below
  the batch limit, or flush; and a normal return advances the sequence by one to that of the message.\<close>

theorem process_message_refines:
  assumes "process_message W m s = (r, s')"
  shows "\<exists>cs. msg_trace (bp_max s) m (bp_pending s) cs r (bp_pending s') \<and> bp_trace s' = bp_trace s @ cs \<and>
    (r = Inr () \<longrightarrow> bp_sequence s' = bp_sequence s + 1 \<and> (\<exists>md. m_metadata m = Inr md \<and> md_consumer_seq md = bp_sequence s'))"
  using process_message_spec [OF assms] by blast

theorem process_message_refines_witness:
  "\<exists>s' cs. process_message sample_world (sample_msg 7 1 sample_data) sample_bp = (Inr (), s') \<and>
     msg_trace 10 (sample_msg 7 1 sample_data) [] cs (Inr ()) (bp_pending s') \<and> bp_trace s' = cs \<and> bp_sequence s' = 1"
proof -
  have "fst (process_message sample_world (sample_msg 7 1 sample_data) sample_bp) = Inr ()" by code_simp
  then obtain s' where p: "process_message sample_world (sample_msg 7 1 sample_data) sample_bp = (Inr (), s')"
    by (metis prod.collapse)
  from process_message_refines [OF p] p show ?thesis by (auto simp: sample_bp_def)
qed

text \<open>C26: a flush. The driver's flush is called first. If it fails, with the driver stopped or with an error,
  no message is acknowledged and every pending one is returned; if an acknowledgement fails, every pending
  message is returned; otherwise all are acknowledged in order. In every case nothing stays pending.\<close>

theorem flush_refines:
  assumes "flush W s = (r, s')"
  shows "bp_pending s' = [] \<and> bp_pending_started s' = None \<and>
    (\<exists>cs. bp_trace s' = bp_trace s @ cs \<and> flush_trace (bp_pending s) cs r)"
  using flush_spec [OF assms] emptied_fields by blast

theorem flush_refines_witness:
  "\<exists>s' cs. flush (sample_world\<lparr>w_flush := (\<lambda>w. (Inl DriverStoppedError, w))\<rparr>) (sample_bp\<lparr>bp_pending := [sample_msg 3 1 '''']\<rparr>) =
       (Inl ConsumerStopped, s') \<and> bp_pending s' = [] \<and> flush_trace [sample_msg 3 1 ''''] cs (Inl ConsumerStopped)"
proof -
  let ?f = "flush (sample_world\<lparr>w_flush := (\<lambda>w. (Inl DriverStoppedError, w))\<rparr>) (sample_bp\<lparr>bp_pending := [sample_msg 3 1 '''']\<rparr>)"
  have "fst ?f = Inl ConsumerStopped" by code_simp
  then obtain s' where f: "?f = (Inl ConsumerStopped, s')" by (metis prod.collapse)
  from flush_refines [OF f] f show ?thesis by auto
qed

text \<open>A message out of order is fatal. It is not given to the driver, the whole batch is returned with it,
  and the sequence does not advance.\<close>

theorem out_of_order_is_fatal:
  assumes "m_metadata m = Inr md" "md_consumer_seq md \<noteq> bp_sequence s + 1"
  shows "\<exists>s' nk. process_message W m s = (Inl (ConsumerFatal (out_of_order (md_consumer_seq md) (bp_sequence s + 1))), s') \<and>
    bp_trace s' = bp_trace s @ CPendingDec # nk \<and> naks (bp_pending s @ [m]) nk \<and> bp_pending s' = [] \<and> bp_sequence s' = bp_sequence s"
proof -
  let ?s = "log_call [CPendingDec] (s\<lparr>bp_pending := bp_pending s @ [m]\<rparr>)"
  obtain nk where "naks (bp_pending ?s) nk" "emptied nk ?s (nack_everything W ?s)" using nack_everything_ext by blast
  with assms emptied_fields [OF this(2)] show ?thesis
    by (auto simp: process_message_def handle_error_def log_call_def)
qed

theorem out_of_order_is_fatal_witness:
  "\<exists>s' nk. process_message sample_world (sample_msg 7 5 ''x'') sample_bp = (Inl (ConsumerFatal ''out of order sequence: 5, expected: 1''), s') \<and>
    naks [sample_msg 7 5 ''x''] nk \<and> bp_trace s' = CPendingDec # nk"
proof -
  have "out_of_order 5 1 = ''out of order sequence: 5, expected: 1''" by code_simp
  then show ?thesis
    using out_of_order_is_fatal [of "sample_msg 7 5 ''x''" _ sample_bp sample_world] by (auto simp: sample_msg_def sample_bp_def)
qed

text \<open>An event whose timestamp is outside the years 1 to 9999, on a table with an export cutoff, raises out
  of \<open>process_message\<close>: the bufferer crashes, and the message and the batch are neither acknowledged nor
  returned nor reported as fatal.\<close>

theorem timestamp_crash:
  "\<exists>m e s'. buf_run sample_world Draining [BItem (Some m)] sample_bp = (Crashed e, [], s') \<and> bp_pending s' = [m] \<and> bp_trace s' = []"
proof -
  let ?d = "[(''key'', PList [PStr ''k'']), (''table'', PStr ''t''), (''timestamp'', PInt 253402300800000)]"
  obtain data where "loads opts_default data = Some (canon False (PDict ?d))"
    using loads_marshal [of "PDict ?d" opts_default False] by auto
  then have l: "loads opts_default data = Some (PDict ?d)" by simp
  have "\<exists>ev. event_of_dict ?d = Inr ev \<and> ev_after ev = None \<and> ev_before ev = None \<and> ev_key ev = Some [''k''] \<and>
      ev_table ev = ''t'' \<and> ev_timestamp ev = 253402300800000"
    by (simp add: event_of_dict_def get_str_def get_opt_str_def get_opt_strs_def get_int_def raw_field_def as_str_def)
  then obtain ev where ev: "event_of_dict ?d = Inr ev" "ev_after ev = None" "ev_before ev = None" "ev_key ev = Some [''k'']"
    "ev_table ev = ''t''" "ev_timestamp ev = 253402300800000" by blast
  then have f: "from_message data 1 = Inr ev"
    by (simp add: from_message_def l check_event_def get_object_def get_primary_key_def)
  let ?m = "sample_msg 1 1 data"
  have c: "before_cutoff (bp_table_timestamps (sample_bp\<lparr>bp_pending := [?m], bp_sequence := 1\<rparr>)) ev = Inl (ValueError ''year is out of range'')"
    by (simp add: before_cutoff_def sample_bp_def ev event_time_def)
  have "process_message sample_world ?m sample_bp =
      (Inl (Raised (ValueError ''year is out of range'')), sample_bp\<lparr>bp_pending := [?m], bp_sequence := 1\<rparr>)"
    using f c by (simp add: process_message_def sample_msg_def sample_bp_def should_skip_def)
  then have "buf_run sample_world Draining [BItem (Some ?m)] sample_bp =
      (Crashed (ValueError ''year is out of range''), [], sample_bp\<lparr>bp_pending := [?m], bp_sequence := 1\<rparr>)"
    by (simp add: handle_item_def handle_stop_def)
  moreover have "bp_pending (sample_bp\<lparr>bp_pending := [?m], bp_sequence := 1\<rparr>) = [?m]"
    "bp_trace (sample_bp\<lparr>bp_pending := [?m], bp_sequence := 1\<rparr>) = []" by (simp_all add: sample_bp_def)
  ultimately show ?thesis by blast
qed

end
