(* ===== verification/Sql.thy ===== *)
theory Sql
  imports Events
begin

text \<open>
  What the four SQL dialects share: \<open>src/eds/util/sql.py\<close>, the names of the audit columns, and the
  recognition and coercion of JSON timestamps that \<open>src/eds/drivers/mysql/sql.py\<close> and
  \<open>src/eds/drivers/sqlserver/sql.py\<close> have in common.

  The second half is the specification the dialects are verified against: how a database server reads
  a statement. \<open>lex_sql\<close> cuts a text into quoted identifiers, string literals and single characters by the
  rules the manuals of the servers give. A builder is correct when \<open>lex_sql\<close> of its text is the intended
  list of tokens whatever the data. The locale \<open>sql_dialect\<close> states what a dialect's quoting functions
  owe its builders, and proves once that column lists, value lists and key conditions are read as written.
\<close>

section \<open>Shared helpers\<close>

definition sql_quote_identifier :: "string \<Rightarrow> string" where
  "sql_quote_identifier name = DQ # name @ [DQ]"

definition quote_string_identifiers :: "string list \<Rightarrow> string list" where
  "quote_string_identifiers vals = map sql_quote_identifier vals"

definition is_empty_val :: "string \<Rightarrow> bool" where
  "is_empty_val val \<longleftrightarrow> val \<in> {[SQ, SQ], '''', ''NULL'', ''null''}"

text \<open>The regular expression \<open>^([+-]?([0-9]*[.])?[0-9]+)|(true|false)\Z\<close> under \<open>search\<close>.\<close>

definition drop_sign :: "string \<Rightarrow> string" where
  "drop_sign s = (case s of c # r \<Rightarrow> if c = CHR ''+'' \<or> c = CHR ''-'' then r else s | [] \<Rightarrow> s)"

definition starts_digit :: "string \<Rightarrow> bool" where
  "starts_digit s = (case s of c # _ \<Rightarrow> is_digit c | [] \<Rightarrow> False)"

definition starts_number :: "string \<Rightarrow> bool" where
  "starts_number s \<longleftrightarrow>
     (let r = drop_sign s in
      starts_digit r \<or>
      (case dropWhile is_digit r of c # r' \<Rightarrow> c = CHR ''.'' \<and> starts_digit r' | [] \<Rightarrow> False))"

definition ends_with :: "string \<Rightarrow> string \<Rightarrow> bool" where
  "ends_with e s \<longleftrightarrow> length e \<le> length s \<and> drop (length s - length e) s = e"

definition scalar_value :: "string \<Rightarrow> bool" where
  "scalar_value s \<longleftrightarrow> starts_number s \<or> ends_with ''true'' s \<or> ends_with ''false'' s"

definition quote_json_scalar :: "string \<Rightarrow> schema_property \<Rightarrow> string" where
  "quote_json_scalar val prop =
     (if sp_type prop = ''object'' \<and> scalar_value val then SQ # val @ [SQ] else val)"

definition to_json_string_val :: "string \<Rightarrow> string \<Rightarrow> schema_property \<Rightarrow> bool \<Rightarrow> string" where
  "to_json_string_val name val prop quote_scalar =
     (if is_array_or_json prop \<and> is_not_null prop \<and> is_empty_val val \<and> sp_type prop = ''array'' then SQ # ''[]'' @ [SQ]
      else if is_array_or_json prop \<and> is_not_null prop \<and> is_empty_val val \<and> sp_type prop = ''object'' then SQ # ''{}'' @ [SQ]
      else if quote_scalar then quote_json_scalar val prop
      else val)"

text \<open>The names of the audit columns, the same in all four dialects.\<close>

definition EDS_SEQ :: string where "EDS_SEQ = ''_eds_seq''"
definition EDS_OPERATION :: string where "EDS_OPERATION = ''_eds_operation''"
definition EDS_MVCC :: string where "EDS_MVCC = ''_eds_mvcc_timestamp''"
definition EDS_TIMESTAMP :: string where "EDS_TIMESTAMP = ''_eds_timestamp''"
definition EDS_APPENDED_AT :: string where "EDS_APPENDED_AT = ''_eds_appended_at''"

definition csv :: "('a \<Rightarrow> string) \<Rightarrow> 'a list \<Rightarrow> string" where
  "csv f xs = join '','' (map f xs)"

text \<open>\<open>keys[i] for i, pk in enumerate(primary_keys)\<close>: an \<open>IndexError\<close> when there are fewer keys.\<close>

fun zip_keys :: "string list \<Rightarrow> string list \<Rightarrow> (string \<times> string) list res" where
  "zip_keys [] ks = Inr []"
| "zip_keys (p # ps) [] = Inl IndexError"
| "zip_keys (p # ps) (k # ks) = andthen (zip_keys ps ks) (\<lambda>r. Inr ((p, k) # r))"

lemma zip_keys_zip: "zip_keys ps ks = (if length ks < length ps then Inl IndexError else Inr (zip ps ks))"
  by (induction ps ks rule: zip_keys.induct) auto

text \<open>\<open>primary_keys.index(name)\<close>, for a name that is there.\<close>

fun index_of :: "'a \<Rightarrow> 'a list \<Rightarrow> nat" where
  "index_of x [] = 0"
| "index_of x (y # ys) = (if x = y then 0 else Suc (index_of x ys))"

definition key_at :: "string list \<Rightarrow> nat \<Rightarrow> string res" where
  "key_at ks i = (if i < length ks then Inr (ks ! i) else Inl IndexError)"

text \<open>\<open>c.get_object() or {}\<close>.\<close>

definition object_or_empty :: "db_change_event \<Rightarrow> pydict res" where
  "object_or_empty c = andthen (fst (get_object c)) (\<lambda>ob. Inr (or_empty ob))"

text \<open>\<open>NOT NULL\<close> of the upsert tables.\<close>

definition required_not_null :: "schema \<Rightarrow> string \<Rightarrow> bool" where
  "required_not_null s name \<longleftrightarrow> name \<in> set (s_required s) \<and> \<not> sp_nullable (prop_of s name)"

text \<open>\<open>bytes.decode("latin-1")\<close>: each byte is the code point with its number.\<close>

definition latin1 :: "string \<Rightarrow> string" where
  "latin1 b = concat (map (\<lambda>c. utf8 (of_char c)) b)"

text \<open>\<open>repr\<close> of a float: positional from \<open>1e-4\<close> up to below \<open>1e16\<close>.\<close>

fun float_repr :: "pyfloat \<Rightarrow> string" where
  "float_repr PosInf = ''inf''"
| "float_repr NegInf = ''-inf''"
| "float_repr NaN = ''nan''"
| "float_repr (Fin neg m x) =
     (if m = 0 then sign_str neg @ ''0.0''
      else if lead_exp m x < - 4 \<or> 16 \<le> lead_exp m x then repr_exp neg m x
      else case repr_tuple m x of (ds, e) \<Rightarrow> sign_str neg @ dec_f ds e)"

section \<open>JSON timestamps\<close>

record datetime =
  dt_year :: nat
  dt_month :: nat
  dt_day :: nat
  dt_hour :: nat
  dt_minute :: nat
  dt_second :: nat
  dt_microsecond :: nat

text \<open>A template has \<open>d\<close> for a digit and every other character for itself.\<close>

definition fits :: "string \<Rightarrow> string \<Rightarrow> bool" where
  "fits tmpl s \<longleftrightarrow> list_all2 (\<lambda>t c. if t = CHR ''d'' then is_digit c else c = t) tmpl s"

definition TS_TEMPLATE :: string where "TS_TEMPLATE = ''dddd-dd-ddTdd:dd:dd''"

definition drop_code_point :: "string \<Rightarrow> string" where
  "drop_code_point s = dropWhile (\<lambda>c. CHR 0x80 \<le> c \<and> c < CHR 0xC0) (tl s)"

text \<open>
  \<open>^dddd-dd-ddTdd:dd:dd(.d+)?Z\Z\<close>, where the dot is any character but a line feed.
\<close>

definition looks_like_json_ts :: "string \<Rightarrow> bool" where
  "looks_like_json_ts v \<longleftrightarrow>
     fits TS_TEMPLATE (take 19 v) \<and>
     (let rest = drop 19 v; mid = butlast rest in
      rest \<noteq> [] \<and> last rest = CHR ''Z'' \<and>
      (mid = [] \<or> hd mid \<noteq> NL \<and> drop_code_point mid \<noteq> [] \<and> list_all is_digit (drop_code_point mid)))"

definition leap_year :: "nat \<Rightarrow> bool" where
  "leap_year y \<longleftrightarrow> 4 dvd y \<and> (\<not> 100 dvd y \<or> 400 dvd y)"

definition days_in_month :: "nat \<Rightarrow> nat \<Rightarrow> nat" where
  "days_in_month y m =
     (if m = 2 then if leap_year y then 29 else 28 else if m \<in> {4, 6, 9, 11} then 30 else 31)"

definition field :: "string \<Rightarrow> nat \<Rightarrow> nat \<Rightarrow> nat" where
  "field s i n = nat_of_digits (take n (drop i s))"

definition valid_datetime :: "datetime \<Rightarrow> bool" where
  "valid_datetime t \<longleftrightarrow>
     1 \<le> dt_year t \<and> dt_year t \<le> 9999 \<and> 1 \<le> dt_month t \<and> dt_month t \<le> 12 \<and>
     1 \<le> dt_day t \<and> dt_day t \<le> days_in_month (dt_year t) (dt_month t) \<and>
     dt_hour t \<le> 23 \<and> dt_minute t \<le> 59 \<and> dt_second t \<le> 59 \<and> dt_microsecond t \<le> 999999"

text \<open>
  \<open>datetime.strptime(base, "%Y-%m-%dT%H:%M:%S")\<close> on texts that begin like a timestamp, which is all
  that reaches it: trailing text and fields out of range are errors.
\<close>

definition strptime :: "string \<Rightarrow> datetime option" where
  "strptime base =
     (let t = \<lparr>dt_year = field base 0 4, dt_month = field base 5 2, dt_day = field base 8 2,
               dt_hour = field base 11 2, dt_minute = field base 14 2, dt_second = field base 17 2,
               dt_microsecond = 0\<rparr>
      in if fits TS_TEMPLATE base \<and> valid_datetime t then Some t else None)"

definition parse_rfc3339_z :: "string \<Rightarrow> datetime res" where
  "parse_rfc3339_z v =
     (if v = [] \<or> last v \<noteq> CHR ''Z'' then Inl (ValueError ''missing trailing Z'')
      else case partition_at (CHR ''.'') (butlast v) of (base, dot, fr) \<Rightarrow>
        if dot \<and> (fr = [] \<or> \<not> list_all is_digit fr) then Inl (ValueError (''bad fraction: '' @ fr))
        else (case strptime base of
                None \<Rightarrow> Inl (ValueError ''bad date or time'')
              | Some t \<Rightarrow> Inr (t\<lparr>dt_microsecond := if dot then nat_of_digits (take 6 (fr @ ''000000'')) else 0\<rparr>)))"

definition pad2 :: "nat \<Rightarrow> string" where
  "pad2 n = [digit (n div 10 mod 10), digit (n mod 10)]"

definition pad4 :: "nat \<Rightarrow> string" where
  "pad4 n = pad2 (n div 100) @ pad2 n"

definition pad6 :: "nat \<Rightarrow> string" where
  "pad6 n = pad2 (n div 10000) @ pad2 (n div 100) @ pad2 n"

definition format_ts :: "datetime \<Rightarrow> string" where
  "format_ts t =
     pad4 (dt_year t) @ ''-'' @ pad2 (dt_month t) @ ''-'' @ pad2 (dt_day t) @ '' '' @
     pad2 (dt_hour t) @ '':'' @ pad2 (dt_minute t) @ '':'' @ pad2 (dt_second t) @
     (if dt_microsecond t \<noteq> 0 then ''.'' @ rstrip (CHR ''0'') (pad6 (dt_microsecond t)) else '''')"

definition ts_floor :: datetime where
  "ts_floor = \<lparr>dt_year = 1970, dt_month = 1, dt_day = 1, dt_hour = 0, dt_minute = 0, dt_second = 1, dt_microsecond = 0\<rparr>"

text \<open>The text between the quotes of a timestamp literal; the year 0 is read as a leap year and then floored.\<close>

definition json_ts :: "string \<Rightarrow> string res" where
  "json_ts v =
     (let orig_year = field v 0 4;
          target = (if orig_year < 1 then ''2000'' @ drop 4 v else v)
      in case parse_rfc3339_z target of
           Inl e \<Rightarrow> Inl (ValueError (''error parsing: '' @ v @ ''. '' @ exc_str e))
         | Inr t \<Rightarrow> Inr (format_ts (if orig_year < 1970 then ts_floor else t)))"

section \<open>How a server reads a statement\<close>

datatype tok = Ident string | Lit string | Ch char

text \<open>
  What distinguishes the dialects: the quotes of identifiers, what a backslash means in a string
  literal (nothing in standard SQL), and the tag of dollar-quoted literals.
\<close>

record dialect =
  d_open :: char
  d_close :: char
  d_unescape :: "(char \<Rightarrow> char) option"
  d_tag :: "string option"

text \<open>After an opening quote: up to the next closing quote that is not doubled.\<close>

fun read_quoted :: "(char \<Rightarrow> char) option \<Rightarrow> char \<Rightarrow> string \<Rightarrow> (string \<times> string) option" where
  "read_quoted u q [] = None"
| "read_quoted u q [c] = (if c = q then Some ([], []) else None)"
| "read_quoted u q (c # d # cs) =
     (if c = q then if d = q then cons_str [q] (read_quoted u q cs) else Some ([], d # cs)
      else if c = BS \<and> u \<noteq> None then cons_str [the u d] (read_quoted u q cs)
      else cons_str [c] (read_quoted u q (d # cs)))"

text \<open>After the opening tag of a dollar-quoted literal: up to the first occurrence of the tag.\<close>

fun read_dollar :: "string \<Rightarrow> string \<Rightarrow> (string \<times> string) option" where
  "read_dollar tag [] = None"
| "read_dollar tag (c # cs) =
     (if prefix tag (c # cs) then Some ([], drop (length tag) (c # cs))
      else cons_str [c] (read_dollar tag cs))"

definition starts_tag :: "dialect \<Rightarrow> string \<Rightarrow> bool" where
  "starts_tag d s = (case d_tag d of None \<Rightarrow> False | Some tag \<Rightarrow> tag \<noteq> [] \<and> prefix tag s)"

definition read_tok :: "dialect \<Rightarrow> char \<Rightarrow> string \<Rightarrow> (tok \<times> string) option" where
  "read_tok d c cs =
     (if c = d_open d then map_option (map_prod Ident id) (read_quoted None (d_close d) cs)
      else if c = SQ then map_option (map_prod Lit id) (read_quoted (d_unescape d) SQ cs)
      else if starts_tag d (c # cs)
        then map_option (map_prod Lit id) (read_dollar (the (d_tag d)) (drop (length (the (d_tag d)) - 1) cs))
      else Some (Ch c, cs))"

lemma read_quoted_length: "read_quoted u q s = Some (v, r) \<Longrightarrow> length r \<le> length s"
  by (induction u q s arbitrary: v r rule: read_quoted.induct)
     (auto simp: cons_str_def split: if_splits option.splits)

lemma read_dollar_length: "read_dollar tag s = Some (v, r) \<Longrightarrow> length r \<le> length s"
  by (induction tag s arbitrary: v r rule: read_dollar.induct)
     (auto simp: cons_str_def split: if_splits option.splits)

lemma read_tok_length: "read_tok d c cs = Some (t, r) \<Longrightarrow> length r \<le> length cs"
  by (auto simp: read_tok_def split: if_splits dest!: read_quoted_length read_dollar_length)

function lex_sql :: "dialect \<Rightarrow> string \<Rightarrow> tok list option" where
  "lex_sql d [] = Some []"
| "lex_sql d (c # cs) =
     (case read_tok d c cs of None \<Rightarrow> None | Some (t, r) \<Rightarrow> map_option ((#) t) (lex_sql d r))"
  by pat_completeness auto
termination
  by (relation "measure (length \<circ> snd)") (auto dest: read_tok_length)

declare lex_sql.simps [simp del]

text \<open>
  \<open>s\<close> is read as \<open>ts\<close> in front of every text that does not begin with a quote, so that no quote is
  taken for a doubled one.
\<close>

definition closed :: "dialect \<Rightarrow> string \<Rightarrow> bool" where
  "closed d s = (case s of [] \<Rightarrow> True | c # _ \<Rightarrow> c \<noteq> SQ \<and> c \<noteq> d_close d)"

definition reads :: "dialect \<Rightarrow> string \<Rightarrow> tok list \<Rightarrow> bool" where
  "reads d s ts \<longleftrightarrow> (\<forall>rest. closed d rest \<longrightarrow> lex_sql d (s @ rest) = map_option ((@) ts) (lex_sql d rest))"

definition neutral :: "char \<Rightarrow> bool" where
  "neutral c \<longleftrightarrow> c \<notin> {DQ, SQ, CHR 0x60, CHR ''['', CHR '']'', CHR ''$''}"

definition dialect_ok :: "dialect \<Rightarrow> bool" where
  "dialect_ok d \<longleftrightarrow>
     d_open d \<in> {DQ, CHR 0x60, CHR ''[''} \<and> d_close d \<in> {DQ, CHR 0x60, CHR '']''} \<and>
     (case d_tag d of None \<Rightarrow> True | Some tag \<Rightarrow> \<exists>r. tag = CHR ''$'' # r)"

abbreviation chars :: "string \<Rightarrow> tok list" where
  "chars s \<equiv> map Ch s"

fun tok_join :: "string \<Rightarrow> tok list list \<Rightarrow> tok list" where
  "tok_join sep [] = []"
| "tok_join sep [x] = x"
| "tok_join sep (x # y # xs) = x @ chars sep @ tok_join sep (y # xs)"

subsection \<open>Reading a text piece by piece\<close>

lemma lex_Nil [simp]: "lex_sql d [] = Some []"
  by (simp add: lex_sql.simps)

lemma lex_neutral:
  assumes "dialect_ok d" "neutral c"
  shows "lex_sql d (c # cs) = map_option ((#) (Ch c)) (lex_sql d cs)"
  using assms by (auto simp: lex_sql.simps read_tok_def neutral_def dialect_ok_def starts_tag_def split: option.splits)

lemma closed_Nil [simp]: "closed d []"
  by (simp add: closed_def)

lemma closed_neutral: "dialect_ok d \<Longrightarrow> neutral c \<Longrightarrow> closed d (c # s)"
  by (auto simp: closed_def neutral_def dialect_ok_def)

lemma map_option_append_Nil [simp]: "map_option ((@) []) x = x"
  by (cases x) simp_all

lemma reads_Nil [simp]: "reads d [] []"
  by (simp add: reads_def)

lemma reads_append:
  assumes "reads d s ts" "reads d s' ts'" "closed d s'"
  shows "reads d (s @ s') (ts @ ts')"
  unfolding reads_def
proof (intro allI impI)
  fix rest
  assume "closed d rest"
  with assms(3) have "closed d (s' @ rest)" by (cases s') (auto simp: closed_def)
  with assms(1,2) \<open>closed d rest\<close> show "lex_sql d ((s @ s') @ rest) = map_option ((@) (ts @ ts')) (lex_sql d rest)"
    by (cases "lex_sql d rest") (simp_all add: reads_def)
qed

lemma reads_text_append:
  assumes "dialect_ok d" "list_all neutral s" "reads d s' ts'"
  shows "reads d (s @ s') (chars s @ ts')"
  unfolding reads_def
proof (intro allI impI)
  fix rest
  assume "closed d rest"
  have "lex_sql d (s @ r) = map_option ((@) (chars s)) (lex_sql d r)" for r
    using assms(1,2) by (cases "lex_sql d r"; induction s) (simp_all add: lex_neutral)
  with assms(3) \<open>closed d rest\<close> show "lex_sql d ((s @ s') @ rest) = map_option ((@) (chars s @ ts')) (lex_sql d rest)"
    by (cases "lex_sql d rest") (simp_all add: reads_def)
qed

lemma reads_text:
  assumes "dialect_ok d" "list_all neutral s"
  shows "reads d s (chars s)"
  using reads_text_append [OF assms reads_Nil] by simp

lemma reads_lex: "reads d s ts \<Longrightarrow> lex_sql d s = Some ts"
  unfolding reads_def by (metis append_Nil2 closed_Nil lex_Nil option.simps(9))

lemma reads_join:
  assumes "dialect_ok d" "list_all neutral sep" "sep \<noteq> []" "list_all2 (reads d) vs tss"
  shows "reads d (join sep vs) (tok_join sep tss)"
  using assms(4)
proof (induction vs arbitrary: tss rule: induct_list012)
  case (3 v w ws)
  then obtain x y xs where tss: "tss = x # y # xs" "reads d v x" "list_all2 (reads d) (w # ws) (y # xs)"
    by (auto simp: list_all2_Cons1)
  obtain c r where sep: "sep = c # r" using assms(3) by (cases sep) auto
  have "reads d (sep @ join sep (w # ws)) (chars sep @ tok_join sep (y # xs))"
    using reads_text_append [OF assms(1,2)] "3.IH"(2) tss(3) by blast
  then have "reads d (v @ sep @ join sep (w # ws)) (x @ chars sep @ tok_join sep (y # xs))"
    using reads_append [OF tss(2)] closed_neutral [OF assms(1), of c] assms(2) sep by simp
  then show ?case by (simp add: tss)
qed (auto simp: list_all2_Cons1)

text \<open>A statement as a list of pieces: fixed text, and quoted items with what they are read as.\<close>

datatype part = Txt string | Item string "tok list"

fun part_text :: "part \<Rightarrow> string" where
  "part_text (Txt s) = s"
| "part_text (Item s ts) = s"

fun part_toks :: "part \<Rightarrow> tok list" where
  "part_toks (Txt s) = chars s"
| "part_toks (Item s ts) = ts"

fun parts_ok :: "dialect \<Rightarrow> part list \<Rightarrow> bool" where
  "parts_ok d [] = True"
| "parts_ok d (Txt s # ps) = (list_all neutral s \<and> parts_ok d ps)"
| "parts_ok d [Item s ts] = reads d s ts"
| "parts_ok d (Item s ts # Txt s' # ps) = (reads d s ts \<and> s' \<noteq> [] \<and> parts_ok d (Txt s' # ps))"
| "parts_ok d (Item s ts # Item s' ts' # ps) = False"

lemma parts_read:
  "dialect_ok d \<Longrightarrow> parts_ok d ps \<Longrightarrow> reads d (concat (map part_text ps)) (concat (map part_toks ps))"
proof (induction d ps rule: parts_ok.induct)
  case (4 d s ts s' ps)
  then obtain c r where "s' = c # r" "neutral c" by (cases s') auto
  with "4.prems" have "closed d (s' @ concat (map part_text ps))" by (simp add: closed_neutral)
  with 4 show ?case
    using reads_append [of d s ts "s' @ concat (map part_text ps)" "chars s' @ concat (map part_toks ps)"] by simp
qed (simp_all add: reads_text_append)

lemma lex_parts:
  assumes "dialect_ok d" "parts_ok d ps" "s = concat (map part_text ps)"
  shows "lex_sql d s = Some (concat (map part_toks ps))"
  using reads_lex [OF parts_read [OF assms(1,2)]] assms(3) by simp

subsection \<open>Quoted tokens\<close>

text \<open>Character by character: the text \<open>f c\<close> between quotes \<open>q\<close> stands for \<open>g c\<close>.\<close>

definition spells :: "(char \<Rightarrow> char) option \<Rightarrow> char \<Rightarrow> string \<Rightarrow> string \<Rightarrow> bool" where
  "spells u q t v \<longleftrightarrow> (\<forall>r. read_quoted u q (t @ r) = cons_str v (read_quoted u q r))"

lemma cons_str_None [simp]: "cons_str p None = None"
  by (simp add: cons_str_def)

lemma cons_str_twice: "cons_str p (cons_str p' r) = cons_str (p @ p') r"
  by (cases r) auto

lemma cons_str_Nil: "cons_str [] r = r"
  by (cases r) auto

lemma spells_self: "c \<noteq> q \<Longrightarrow> c \<noteq> BS \<or> u = None \<Longrightarrow> spells u q [c] [c]"
  unfolding spells_def by (intro allI, case_tac r) auto

lemma spells_doubled: "spells u q [q, q] [q]"
  by (simp add: spells_def)

lemma spells_escaped: "q \<noteq> BS \<Longrightarrow> spells (Some w) q [BS, e] [w e]"
  by (simp add: spells_def)

lemma spells_append: "spells u q t v \<Longrightarrow> spells u q t' v' \<Longrightarrow> spells u q (t @ t') (v @ v')"
  by (simp add: spells_def cons_str_twice)

lemma spells_Nil: "spells u q [] []"
  by (simp add: spells_def cons_str_Nil)

lemma spells_map:
  assumes "\<And>c. c \<in> set s \<Longrightarrow> spells u q (f c) (g c)"
  shows "spells u q (concat (map f s)) (concat (map g s))"
  using assms by (induction s) (simp_all add: spells_Nil spells_append)

lemma spells_plain: "q \<notin> set s \<Longrightarrow> BS \<notin> set s \<or> u = None \<Longrightarrow> spells u q s s"
proof -
  assume "q \<notin> set s" "BS \<notin> set s \<or> u = None"
  then have "spells u q [c] [c]" if "c \<in> set s" for c using that by (intro spells_self) auto
  from spells_map [of s u q "\<lambda>c. [c]" "\<lambda>c. [c]", OF this] show ?thesis by simp
qed

lemma spells_quoted:
  assumes "spells u q t v" "rest = [] \<or> hd rest \<noteq> q"
  shows "read_quoted u q (t @ q # rest) = Some (v, rest)"
  using assms by (cases rest) (simp_all add: spells_def)

lemma reads_lit:
  assumes "dialect_ok d" "spells (d_unescape d) SQ t v"
  shows "reads d (SQ # t @ [SQ]) [Lit v]"
  unfolding reads_def
proof (intro allI impI)
  fix rest
  assume "closed d rest"
  then have "rest = [] \<or> hd rest \<noteq> SQ" by (cases rest) (auto simp: closed_def)
  from spells_quoted [OF assms(2) this] assms(1)
  show "lex_sql d ((SQ # t @ [SQ]) @ rest) = map_option ((@) [Lit v]) (lex_sql d rest)"
    by (cases "lex_sql d rest") (auto simp: lex_sql.simps read_tok_def dialect_ok_def)
qed

lemma reads_ident:
  assumes "spells None (d_close d) t v"
  shows "reads d (d_open d # t @ [d_close d]) [Ident v]"
  unfolding reads_def
proof (intro allI impI)
  fix rest
  assume "closed d rest"
  then have "rest = [] \<or> hd rest \<noteq> d_close d" by (cases rest) (auto simp: closed_def)
  from spells_quoted [OF assms this]
  show "lex_sql d ((d_open d # t @ [d_close d]) @ rest) = map_option ((@) [Ident v]) (lex_sql d rest)"
    by (cases "lex_sql d rest") (simp_all add: lex_sql.simps read_tok_def)
qed

subsection \<open>Bare numbers and words\<close>

definition word_char :: "char \<Rightarrow> bool" where
  "word_char c \<longleftrightarrow> is_digit c \<or> is_alpha c \<or> c \<in> set ''+-.''"

lemma word_char_neutral: "word_char c \<Longrightarrow> neutral c"
  by (auto simp: word_char_def neutral_def is_digit_def is_alpha_def is_lower_def is_upper_def less_eq_char_def)

lemma word_char_not: "\<not> word_char SQ" "\<not> word_char BS" "\<not> word_char (CHR ''$'')" "\<not> word_char (CHR 0x60)"
  by (simp_all add: word_char_def is_digit_def is_alpha_def is_lower_def is_upper_def less_eq_char_def)

lemmas char_class_simps = word_char_def is_digit_def is_alpha_def is_lower_def is_upper_def less_eq_char_def

lemma word_char_letters [simp]:
  "word_char (CHR ''n'')" "word_char (CHR ''u'')" "word_char (CHR ''l'')" "word_char (CHR ''t'')" "word_char (CHR ''r'')"
  "word_char (CHR ''e'')" "word_char (CHR ''f'')" "word_char (CHR ''a'')" "word_char (CHR ''s'')" "word_char (CHR ''N'')"
  "word_char (CHR ''U'')" "word_char (CHR ''L'')" "word_char (CHR ''0'')" "word_char (CHR ''1'')"
  by (simp_all add: char_class_simps)

lemma words_neutral: "list_all word_char s \<Longrightarrow> list_all neutral s"
  using word_char_neutral by (auto simp: list_all_iff)

lemma digits_words: "list_all is_digit s \<Longrightarrow> list_all word_char s"
  by (auto simp: list_all_iff word_char_def)

lemma str_nat_words [simp]: "list_all word_char (str_nat n)"
  by (rule digits_words [OF str_nat_digits])

lemma str_int_words [simp]: "list_all word_char (str_int i)"
  by (simp add: str_int_def word_char_def)

lemma repr_tuple_words: "repr_tuple m x = (ds, e) \<Longrightarrow> list_all is_digit ds"
  using str_nat_digits [of m] by (auto simp: repr_tuple_def is_digit_def list_all_iff less_eq_char_def split: if_splits)

lemma dec_f_words: "list_all is_digit ds \<Longrightarrow> list_all word_char (dec_f ds e)"
  using digits_words [of ds]
  by (auto simp: dec_f_def Let_def word_char_def is_digit_def list_all_iff less_eq_char_def dest: in_set_takeD in_set_dropD)

lemma rstrip_subset: "set (rstrip c s) \<subseteq> set s"
  unfolding rstrip_def by (metis set_dropWhileD set_rev subsetI)

lemma format_f_words [simp]: "list_all word_char (format_f f)"
proof (cases f)
  case (Fin neg m x)
  obtain ds e where "repr_tuple m x = (ds, e)" by fastforce
  with Fin dec_f_words [OF repr_tuple_words [OF this], of e] show ?thesis
    using rstrip_subset [of "CHR ''.''" "rstrip (CHR ''0'') (dec_f ds e)"] rstrip_subset [of "CHR ''0''" "dec_f ds e"]
    by (auto simp: zero_str_def sign_str_def Let_def word_char_def list_all_iff is_digit_def less_eq_char_def)
qed (simp_all add: word_char_def is_alpha_def is_lower_def is_upper_def less_eq_char_def)

lemma strip_zeros_digits: "list_all is_digit ds \<Longrightarrow> strip_zeros ds e = (sig, e') \<Longrightarrow> list_all is_digit sig"
proof (induction ds e arbitrary: sig e' rule: strip_zeros.induct)
  case (1 ds e)
  then show ?case
    using strip_zeros.simps [of ds e] by (auto split: if_splits simp: list_all_iff dest: in_set_butlastD)
qed

lemma words_simps [simp]:
  "list_all word_char (replicate n (CHR ''0''))"
  "list_all word_char (two_digits n)"
  "list_all word_char (sign_str neg)"
  "list_all word_char (zero_str neg)"
proof -
  have zero: "word_char (CHR ''0'')" "word_char (CHR ''-'')" by (simp_all add: word_char_def is_digit_def less_eq_char_def)
  then show "list_all word_char (replicate n (CHR ''0''))" by (simp add: list_all_iff)
  show "list_all word_char (two_digits n)" using zero by (simp add: two_digits_def)
  show "list_all word_char (sign_str neg)" "list_all word_char (zero_str neg)"
    using zero by (simp_all add: sign_str_def zero_str_def)
qed

lemma words_take_drop:
  "list_all word_char s \<Longrightarrow> list_all word_char (take n s)"
  "list_all word_char s \<Longrightarrow> list_all word_char (drop n s)"
  by (auto simp: list_all_iff dest: in_set_takeD in_set_dropD)

lemma mantissa_words: "list_all word_char s \<Longrightarrow> list_all word_char (mantissa s)"
  by (cases s) (auto simp: mantissa_def word_char_def)

lemma format_g_words [simp]: "list_all word_char (format_g f)"
proof (cases f)
  case (Fin neg m x)
  obtain ds ex where r: "repr_tuple m x = (ds, ex)" by fastforce
  obtain sig ex' where z: "strip_zeros ds ex = (sig, ex')" by fastforce
  have "list_all word_char sig"
    by (rule digits_words [OF strip_zeros_digits [OF repr_tuple_words [OF r] z]])
  then show ?thesis
    using Fin r z mantissa_words [of sig] words_take_drop [of sig] by (simp add: Let_def word_char_def is_digit_def is_alpha_def is_lower_def less_eq_char_def)
qed (simp_all add: word_char_def is_alpha_def is_lower_def is_upper_def less_eq_char_def)

subsection \<open>Coerced column values\<close>

text \<open>
  What a column value is read as, given the text \<open>t\<close> of the value and its tokens: an empty value of a
  required array or object column becomes an empty JSON text, and a bare number or truth value in an
  object column becomes a literal.
\<close>

definition col_toks :: "schema_property \<Rightarrow> bool \<Rightarrow> string \<Rightarrow> tok list \<Rightarrow> tok list" where
  "col_toks prop quote_scalar t ts =
     (if is_array_or_json prop \<and> is_not_null prop \<and> is_empty_val t
      then [Lit (if sp_type prop = ''array'' then ''[]'' else ''{}'')]
      else if quote_scalar \<and> sp_type prop = ''object'' \<and> scalar_value t then [Lit t]
      else ts)"

lemma last_ends_with: "ends_with e s \<Longrightarrow> e \<noteq> [] \<Longrightarrow> last s = last e"
  unfolding ends_with_def by (metis append_take_drop_id last_appendR)

lemma scalar_value_quoted:
  assumes "t = q # r" "q \<notin> set ''+-.''" "\<not> is_digit q" "last t \<noteq> CHR ''e''"
  shows "\<not> scalar_value t"
proof -
  have "\<not> starts_number t"
    using assms(1-3) by (auto simp: starts_number_def drop_sign_def starts_digit_def Let_def)
  with assms(4) last_ends_with [of "''true''" t] last_ends_with [of "''false''" t] show ?thesis
    by (auto simp: scalar_value_def)
qed

text \<open>A text that is a bare word, or is quoted from its first to its last character.\<close>

definition scalar_safe :: "string \<Rightarrow> bool" where
  "scalar_safe t \<longleftrightarrow>
     list_all word_char t \<or>
     (case t of [] \<Rightarrow> True | q # _ \<Rightarrow> q \<in> {SQ, CHR ''$'', CHR ''_''}) \<and> last t \<in> {SQ, CHR ''$''}"

lemma scalar_safe_bare: "list_all word_char t \<Longrightarrow> scalar_safe t"
  by (simp add: scalar_safe_def)

lemma list_all2_map_reads: "(\<And>x. x \<in> set xs \<Longrightarrow> reads d (f x) (g x)) \<Longrightarrow> list_all2 (reads d) (map f xs) (map g xs)"
  by (auto simp: list_all2_map1 list_all2_map2 intro!: list.rel_refl_strong)

lemma scalar_safe_words: "scalar_safe t \<Longrightarrow> scalar_value t \<Longrightarrow> list_all word_char t"
proof (rule ccontr)
  assume t: "scalar_safe t" "scalar_value t" "\<not> list_all word_char t"
  then obtain q r where q: "t = q # r" by (cases t) auto
  with t have "q \<in> {SQ, CHR ''$'', CHR ''_''}" "last t \<in> {SQ, CHR ''$''}"
    by (auto simp: scalar_safe_def)
  then have "q \<notin> set ''+-.''" "\<not> is_digit q" "last t \<noteq> CHR ''e''"
    by (auto simp: is_digit_def less_eq_char_def)
  from scalar_value_quoted [OF q this] t(2) show False ..
qed

lemma to_json_string_val_reads:
  assumes d: "dialect_ok d" and t: "reads d t ts" and safe: "scalar_safe t"
  shows "reads d (to_json_string_val n t prop qs) (col_toks prop qs t ts)"
proof -
  have "reads d (SQ # s @ [SQ]) [Lit s]" if "list_all (\<lambda>c. c \<noteq> SQ \<and> c \<noteq> BS) s" for s
    using that by (intro reads_lit [OF d] spells_plain) (auto simp: list_all_iff)
  note lit = this
  have "reads d (SQ # t @ [SQ]) [Lit t]" if "scalar_value t"
    using scalar_safe_words [OF safe that] word_char_not by (intro lit) (auto simp: list_all_iff)
  note scalar = this
  show ?thesis
  proof (cases "is_array_or_json prop \<and> is_not_null prop \<and> is_empty_val t")
    case True
    moreover have "reads d (SQ # ''[]'' @ [SQ]) [Lit ''[]'']" "reads d (SQ # ''{}'' @ [SQ]) [Lit ''{}'']"
      by (intro lit, simp)+
    ultimately show ?thesis
      by (cases "sp_type prop = ''array''") (auto simp: to_json_string_val_def col_toks_def is_array_or_json_def)
  next
    case False
    then have "to_json_string_val n t prop qs = (if qs then quote_json_scalar t prop else t)"
      by (auto simp: to_json_string_val_def)
    with False t scalar show ?thesis by (auto simp: quote_json_scalar_def col_toks_def)
  qed
qed

section \<open>What a dialect owes its builders\<close>

text \<open>
  A dialect quotes identifiers and string values. Each quoted text is read as one token, for the names
  and values in \<open>ident_ok\<close> and \<open>lit_ok\<close>, and denotes \<open>ident_val\<close> and \<open>lit_val\<close> of what was quoted.
\<close>

locale sql_dialect =
  fixes d :: dialect
    and quote_ident :: "string \<Rightarrow> string" and ident_ok :: "string \<Rightarrow> bool" and ident_val :: "string \<Rightarrow> string"
    and quote_lit :: "string \<Rightarrow> string" and lit_ok :: "string \<Rightarrow> bool" and lit_val :: "string \<Rightarrow> string"
  assumes dialect: "dialect_ok d"
    and ident_reads: "ident_ok n \<Longrightarrow> reads d (quote_ident n) [Ident (ident_val n)]"
    and lit_reads: "lit_ok s \<Longrightarrow> reads d (quote_lit s) [Lit (lit_val s)]"
begin

lemma text_reads: "list_all neutral s \<Longrightarrow> reads d s (chars s)"
  by (rule reads_text [OF dialect])

lemma words_read: "list_all word_char s \<Longrightarrow> reads d s (chars s)"
  by (intro text_reads words_neutral)

lemma idents_read:
  assumes "list_all ident_ok ns"
  shows "reads d (csv quote_ident ns) (tok_join '','' (map (\<lambda>n. [Ident (ident_val n)]) ns))"
  unfolding csv_def
  by (rule reads_join [OF dialect])
     (use assms ident_reads in \<open>auto simp: neutral_def list_all2_conv_all_nth list_all_length\<close>)

lemma values_read:
  assumes "list_all2 (reads d) vs tss"
  shows "reads d (join '','' vs) (tok_join '','' tss)"
  by (rule reads_join [OF dialect _ _ assms]) (simp_all add: neutral_def)

lemma assign_reads:
  assumes "ident_ok n" "reads d v ts"
  shows "reads d (quote_ident n @ ''='' @ v) (Ident (ident_val n) # Ch (CHR ''='') # ts)"
proof -
  have "reads d (''='' @ v) (chars ''='' @ ts)"
    using assms(2) by (intro reads_text_append [OF dialect]) (simp_all add: neutral_def)
  from reads_append [OF ident_reads [OF assms(1)] this] show ?thesis
    by (simp add: closed_neutral [OF dialect] neutral_def)
qed

text \<open>\<open>WHERE a=v AND b=w\<close>.\<close>

lemma conds_read:
  assumes "list_all (\<lambda>(n, v, ts). ident_ok n \<and> reads d v ts) cs"
  shows "reads d (join '' AND '' (map (\<lambda>(n, v, ts). quote_ident n @ ''='' @ v) cs))
     (tok_join '' AND '' (map (\<lambda>(n, v, ts). Ident (ident_val n) # Ch (CHR ''='') # ts) cs))"
proof (rule reads_join [OF dialect])
  have "reads d (quote_ident n @ ''='' @ v) (Ident (ident_val n) # Ch (CHR ''='') # ts)" if "(n, v, ts) \<in> set cs" for n v ts
    using assms that by (intro assign_reads) (auto simp: list_all_iff)
  then show "list_all2 (reads d) (map (\<lambda>(n, v, ts). quote_ident n @ ''='' @ v) cs)
      (map (\<lambda>(n, v, ts). Ident (ident_val n) # Ch (CHR ''='') # ts) cs)"
    by (auto simp: list_all2_map1 list_all2_map2 intro!: list.rel_refl_strong)
qed (simp_all add: neutral_def)

text \<open>A statement made of fixed text and quoted items, read to its end.\<close>

lemmas statement_reads = lex_parts [OF dialect]

text \<open>A statement that writes one row: the column list and the value list have one entry per column each.\<close>

lemma row_reads:
  assumes "list_all neutral h" "list_all neutral m" "m \<noteq> []" "list_all neutral e" "e \<noteq> []"
    and "ident_ok t" "list_all ident_ok cols" "list_all2 (reads d) vals tss"
  shows "lex_sql d (h @ quote_ident t @ '' ('' @ csv quote_ident cols @ m @ join '','' vals @ e) =
    Some (chars h @ [Ident (ident_val t)] @ chars '' ('' @ tok_join '','' (map (\<lambda>n. [Ident (ident_val n)]) cols) @
      chars m @ tok_join '','' tss @ chars e)"
proof -
  let ?ps = "[Txt h, Item (quote_ident t) [Ident (ident_val t)], Txt '' ('',
    Item (csv quote_ident cols) (tok_join '','' (map (\<lambda>n. [Ident (ident_val n)]) cols)),
    Txt m, Item (join '','' vals) (tok_join '','' tss), Txt e]"
  have "parts_ok d ?ps"
    using assms values_read [OF assms(8)] idents_read [OF assms(7)] ident_reads [OF assms(6)]
    by (simp add: neutral_def)
  moreover have "h @ quote_ident t @ '' ('' @ csv quote_ident cols @ m @ join '','' vals @ e = concat (map part_text ?ps)"
    by simp
  ultimately have "lex_sql d (h @ quote_ident t @ '' ('' @ csv quote_ident cols @ m @ join '','' vals @ e) =
      Some (concat (map part_toks ?ps))"
    by (rule statement_reads)
  then show ?thesis by simp
qed

text \<open>A deletion by key.\<close>

lemma delete_reads:
  assumes "ident_ok t" "list_all2 (reads d) preds tss"
  shows "lex_sql d (''DELETE FROM '' @ quote_ident t @ '' WHERE '' @ join '' AND '' preds @ '';'' @ [NL]) =
    Some (chars ''DELETE FROM '' @ [Ident (ident_val t)] @ chars '' WHERE '' @ tok_join '' AND '' tss @ chars ('';'' @ [NL]))"
proof -
  let ?ps = "[Txt ''DELETE FROM '', Item (quote_ident t) [Ident (ident_val t)], Txt '' WHERE '',
    Item (join '' AND '' preds) (tok_join '' AND '' tss), Txt ('';'' @ [NL])]"
  have "parts_ok d ?ps"
    using ident_reads [OF assms(1)] reads_join [OF dialect _ _ assms(2), of "'' AND ''"] by (simp add: neutral_def)
  moreover have "''DELETE FROM '' @ quote_ident t @ '' WHERE '' @ join '' AND '' preds @ '';'' @ [NL] = concat (map part_text ?ps)"
    by simp
  ultimately have "lex_sql d (''DELETE FROM '' @ quote_ident t @ '' WHERE '' @ join '' AND '' preds @ '';'' @ [NL]) =
      Some (concat (map part_toks ?ps))"
    by (rule statement_reads)
  then show ?thesis by simp
qed

end

lemma mapM_reads:
  assumes "\<And>x t. x \<in> set xs \<Longrightarrow> f x = Inr t \<Longrightarrow> reads d t (g x)" "mapM f xs = Inr ts"
  shows "list_all2 (reads d) ts (map g xs)"
  using assms by (induction xs arbitrary: ts) (auto simp: andthen_Inr_conv)

lemma mapM_Inl: "mapM f xs = Inl e \<Longrightarrow> \<exists>x \<in> set xs. f x = Inl e"
proof (induction xs)
  case (Cons x xs)
  then show ?case by (cases "f x"; cases "mapM f xs") auto
qed simp

text \<open>The text of a timestamp has neither quotes nor backslashes.\<close>

lemma digit_not: "digit (n mod 10) \<noteq> SQ" "digit (n mod 10) \<noteq> BS"
proof -
  have "of_char (digit (n mod 10)) \<noteq> (0x27 :: nat)" "of_char (digit (n mod 10)) \<noteq> (0x5C :: nat)"
    by (simp_all add: of_char_digit)
  then show "digit (n mod 10) \<noteq> SQ" "digit (n mod 10) \<noteq> BS" by auto
qed

lemma format_ts_plain: "SQ \<notin> set (format_ts t) \<and> BS \<notin> set (format_ts t)"
proof -
  have "SQ \<notin> set (pad6 n) \<and> BS \<notin> set (pad6 n)" for n
    using digit_not by (auto simp: pad6_def pad2_def dest: sym)
  then have "SQ \<notin> set (rstrip (CHR ''0'') (pad6 n)) \<and> BS \<notin> set (rstrip (CHR ''0'') (pad6 n))" for n
    using rstrip_subset [of "CHR ''0''" "pad6 n"] by blast
  then show ?thesis
    using digit_not by (auto simp: format_ts_def pad4_def pad2_def dest: sym)
qed

lemma json_ts_plain: "json_ts v = Inr t \<Longrightarrow> SQ \<notin> set t \<and> BS \<notin> set t"
  using format_ts_plain by (auto simp: json_ts_def Let_def split: sum.splits)

section \<open>Timestamps round trip\<close>

text \<open>The RFC 3339 text of a time in UTC, with microseconds if there are any.\<close>

definition rfc3339 :: "datetime \<Rightarrow> string" where
  "rfc3339 t =
     pad4 (dt_year t) @ ''-'' @ pad2 (dt_month t) @ ''-'' @ pad2 (dt_day t) @ ''T'' @
     pad2 (dt_hour t) @ '':'' @ pad2 (dt_minute t) @ '':'' @ pad2 (dt_second t) @
     (if dt_microsecond t = 0 then '''' else ''.'' @ pad6 (dt_microsecond t)) @ ''Z''"

lemma is_digit_digit [simp]: "is_digit (digit (n mod 10))"
  by (simp add: digit_is_digit)

lemma of_char_digit_mod [simp]: "of_char (digit (n mod 10)) = (48 + n mod 10 :: nat)"
  by (simp add: of_char_digit)

lemma nat_of_pad2_mod: "nat_of_digits (pad2 n) = 10 * (n div 10 mod 10) + n mod 10"
  by (simp add: nat_of_digits_def pad2_def)

lemma nat_of_pad2: "nat_of_digits (pad2 n) = n mod 100"
  unfolding nat_of_pad2_mod using mod_mult2_eq [of n 10 10] by simp

lemma nat_of_digits_pad2: "nat_of_digits (s @ pad2 n) = 100 * nat_of_digits s + n mod 100"
  unfolding nat_of_pad2 [symmetric] by (simp add: nat_of_digits_def pad2_def)

lemma nat_of_pad4:
  assumes "n < 10000"
  shows "nat_of_digits (pad4 n) = n"
proof -
  have "n div 100 < 100" using assms by (simp add: less_mult_imp_div_less)
  moreover have "100 * (n div 100) + n mod 100 = n" by simp
  ultimately show ?thesis unfolding pad4_def nat_of_digits_pad2 nat_of_pad2 by (simp only: mod_less)
qed

lemma nat_of_pad6:
  assumes "n < 1000000"
  shows "nat_of_digits (pad6 n) = n"
proof -
  let ?m = "n div 100"
  have "nat_of_digits (pad6 n) = 100 * (100 * (n div 10000 mod 100) + ?m mod 100) + n mod 100"
    unfolding pad6_def append_assoc [symmetric] nat_of_digits_pad2 nat_of_pad2 ..
  moreover have "n div 10000 = ?m div 100" by (simp add: div_mult2_eq [symmetric])
  moreover have "?m div 100 < 100" using assms by (simp add: less_mult_imp_div_less)
  moreover have "100 * (?m div 100) + ?m mod 100 = ?m" "100 * ?m + n mod 100 = n" by (rule mult_div_mod_eq)+
  ultimately show ?thesis by (simp only: mod_less)
qed

abbreviation clock_text :: "datetime \<Rightarrow> string" where
  "clock_text t \<equiv>
     pad4 (dt_year t) @ ''-'' @ pad2 (dt_month t) @ ''-'' @ pad2 (dt_day t) @ ''T'' @
     pad2 (dt_hour t) @ '':'' @ pad2 (dt_minute t) @ '':'' @ pad2 (dt_second t)"

lemma pad_lengths [simp]: "length (pad2 n) = 2" "length (pad4 n) = 4" "length (pad6 n) = 6"
  by (simp_all add: pad2_def pad4_def pad6_def)

lemma clock_text_length [simp]: "length (clock_text t) = 19"
  by simp

lemma clock_text_fits: "fits TS_TEMPLATE (clock_text t)"
  by (simp add: fits_def TS_TEMPLATE_def pad4_def pad2_def)

lemma strptime_clock:
  assumes "valid_datetime t"
  shows "strptime (clock_text t) = Some (t\<lparr>dt_microsecond := 0\<rparr>)"
proof -
  have d: "dt_year t < 10000" "dt_month t < 100" "dt_day t < 100" "dt_hour t < 100" "dt_minute t < 100" "dt_second t < 100"
    using assms by (auto simp: valid_datetime_def days_in_month_def split: if_splits)
  have "field (clock_text t) 0 4 = dt_year t" "field (clock_text t) 5 2 = dt_month t" "field (clock_text t) 8 2 = dt_day t"
    "field (clock_text t) 11 2 = dt_hour t" "field (clock_text t) 14 2 = dt_minute t" "field (clock_text t) 17 2 = dt_second t"
    using d by (simp_all add: field_def nat_of_pad2 nat_of_pad4)
  with assms clock_text_fits [of t] show ?thesis
    by (cases t) (simp add: strptime_def Let_def valid_datetime_def)
qed

lemma clock_text_no_dot: "CHR ''.'' \<notin> set (clock_text t)"
proof -
  have "\<not> is_digit (CHR ''.'')" by (simp add: is_digit_def less_eq_char_def)
  then have "digit (n mod 10) \<noteq> CHR ''.''" for n by (metis is_digit_digit)
  then show ?thesis by (auto simp: pad4_def pad2_def dest: sym)
qed

lemma pad6_digits: "list_all is_digit (pad6 n)"
  by (simp add: pad6_def pad2_def)

lemma rfc3339_looks: "looks_like_json_ts (rfc3339 t)"
proof -
  let ?r = "(if dt_microsecond t = 0 then '''' else ''.'' @ pad6 (dt_microsecond t)) @ ''Z''"
  have split: "rfc3339 t = clock_text t @ ?r" by (simp add: rfc3339_def)
  have "take 19 (rfc3339 t) = clock_text t" "drop 19 (rfc3339 t) = ?r"
    unfolding split using clock_text_length [of t] by (simp_all del: append_assoc)
  moreover have "drop_code_point (CHR ''.'' # pad6 n) = pad6 n" for n
  proof -
    have "\<not> (CHR 0x80 \<le> digit (n mod 10))" for n
      using is_digit_digit [of n] by (auto simp: is_digit_def less_eq_char_def)
    then show ?thesis by (simp add: drop_code_point_def pad6_def pad2_def)
  qed
  ultimately show ?thesis
    using clock_text_fits [of t] pad6_digits by (auto simp: looks_like_json_ts_def Let_def butlast_append pad6_def pad2_def)
qed

lemma parse_rfc3339:
  assumes "valid_datetime t"
  shows "parse_rfc3339_z (rfc3339 t) = Inr t"
proof -
  have z: "butlast (rfc3339 t) = clock_text t @ (if dt_microsecond t = 0 then '''' else ''.'' @ pad6 (dt_microsecond t))"
    "rfc3339 t \<noteq> []" "last (rfc3339 t) = CHR ''Z''"
    by (simp_all add: rfc3339_def butlast_append)
  have m: "nat_of_digits (take 6 (pad6 (dt_microsecond t) @ ''000000'')) = dt_microsecond t"
    using assms by (simp add: valid_datetime_def nat_of_pad6)
  show ?thesis
  proof (cases "dt_microsecond t = 0")
    case True
    with z have "partition_at (CHR ''.'') (butlast (rfc3339 t)) = (clock_text t, False, [])"
      using clock_text_no_dot [of t] by simp
    with z True strptime_clock [OF assms] show ?thesis by (simp add: parse_rfc3339_z_def)
  next
    case False
    then have "butlast (rfc3339 t) = clock_text t @ CHR ''.'' # pad6 (dt_microsecond t)" using z by simp
    then have "partition_at (CHR ''.'') (butlast (rfc3339 t)) = (clock_text t, True, pad6 (dt_microsecond t))"
      using partition_at_append [OF clock_text_no_dot [of t]] by simp
    moreover have "pad6 (dt_microsecond t) \<noteq> []" by (simp add: pad6_def pad2_def)
    ultimately show ?thesis
      using z m pad6_digits [of "dt_microsecond t"] strptime_clock [OF assms] by (simp add: parse_rfc3339_z_def)
  qed
qed

text \<open>JSON timestamps. The RFC 3339 text of every valid time with microseconds is recognised as a timestamp and
  written as the same date and time in the form of the server, or as the first second of 1970 if it is earlier.\<close>

theorem json_timestamp_text:
  assumes "valid_datetime t"
  shows "looks_like_json_ts (rfc3339 t) \<and>
    json_ts (rfc3339 t) = Inr (if dt_year t < 1970 then ''1970-01-01 00:00:01'' else format_ts t)"
proof -
  have "field (rfc3339 t) 0 4 = dt_year t"
    using assms by (simp add: field_def rfc3339_def nat_of_pad4 valid_datetime_def)
  moreover have "format_ts ts_floor = ''1970-01-01 00:00:01''" by code_simp
  ultimately show ?thesis
    using assms rfc3339_looks [of t] parse_rfc3339 [OF assms] by (auto simp: json_ts_def Let_def valid_datetime_def)
qed

theorem json_timestamp_text_witness:
  "let t = \<lparr>dt_year = 2024, dt_month = 2, dt_day = 29, dt_hour = 1, dt_minute = 2, dt_second = 3, dt_microsecond = 450000\<rparr>
   in valid_datetime t \<and> looks_like_json_ts (rfc3339 t) \<and>
      json_ts (rfc3339 t) = Inr (if dt_year t < 1970 then ''1970-01-01 00:00:01'' else format_ts t)"
proof -
  let ?t = "\<lparr>dt_year = 2024, dt_month = 2, dt_day = 29, dt_hour = 1, dt_minute = 2, dt_second = 3, dt_microsecond = 450000\<rparr>"
  have "valid_datetime ?t" by (simp add: valid_datetime_def days_in_month_def leap_year_def)
  with json_timestamp_text [OF this] show ?thesis by (simp only: Let_def)
qed

text \<open>An event and a schema for the examples.\<close>

definition sample_event :: "string \<Rightarrow> string \<Rightarrow> string list \<Rightarrow> string option \<Rightarrow> db_change_event" where
  "sample_event op table key after =
     \<lparr>ev_operation = op, ev_id = ''1'', ev_table = table, ev_key = Some key, ev_model_version = ''v1'',
      ev_company_id = None, ev_location_id = None, ev_user_id = None, ev_before = None, ev_after = after,
      ev_diff = None, ev_timestamp = 7, ev_mvcc_timestamp = ''8.5'', ev_imported = False, ev_nats_msg = None,
      ev_schema_validated_path = None, ev_object = None\<rparr>"

definition sample_schema :: schema where
  "sample_schema =
     empty_schema\<lparr>s_properties := [(''id'', empty_property\<lparr>sp_type := ''string''\<rparr>),
                                   (''tags'', empty_property\<lparr>sp_type := ''array''\<rparr>)],
                  s_primary_keys := [''id''], s_table := ''t''\<rparr>"

end
