(* ===== verification/PgSql.thy ===== *)
theory PgSql
  imports Sql
begin

text \<open>
  The PostgreSQL text builders, \<open>src/eds/drivers/postgresql/sql.py\<close>: quoting, the upsert, delete and
  audit statements, the tables and views, and the migration statements. \<open>format_f\<close> and the encoder of
  \<open>GoJson\<close> render numbers and JSON values. The connection string is not a statement and is left out.

  A Python \<open>float\<close> in an object is what \<open>json.loads(.., parse_int=float)\<close> gives for every number.
\<close>

section \<open>Quoting\<close>

definition MAGIC_ESCAPE :: string where "MAGIC_ESCAPE = ''$_H_$''"

definition safe_character :: "char \<Rightarrow> bool" where
  "safe_character c \<longleftrightarrow>
     is_lower c \<or> is_upper c \<or> is_digit c \<or> c \<in> {DQ, BS} \<or> c \<in> set ''/.,;:$%@!#^&*(){}[]|<>?~_- ''"

definition strip_nul :: "string \<Rightarrow> string" where
  "strip_nul s = filter (\<lambda>c. c \<noteq> NUL) s"

definition pg_quote_string :: "string \<Rightarrow> string" where
  "pg_quote_string s =
     (let s = strip_nul s in
      if s = [] \<or> list_all safe_character s then SQ # s @ [SQ] else MAGIC_ESCAPE @ s @ MAGIC_ESCAPE)"

definition hex_byte :: "char \<Rightarrow> string" where
  "hex_byte c = [hexd (of_char c div 16), hexd (of_char c mod 16)]"

definition pg_quote_bytes :: "string \<Rightarrow> string" where
  "pg_quote_bytes buf = [SQ, BS, CHR ''x''] @ concat (map hex_byte buf) @ [SQ]"

definition pg_quote_identifier :: "string \<Rightarrow> string" where
  "pg_quote_identifier val =
     DQ # concat (map (\<lambda>c. if c = DQ then [DQ, DQ] else [c]) (takeWhile (\<lambda>c. c \<noteq> NUL) val)) @ [DQ]"

fun pg_quote_value :: "pyval \<Rightarrow> string" where
  "pg_quote_value PNone = ''null''"
| "pg_quote_value (PBool b) = (if b then ''true'' else ''false'')"
| "pg_quote_value (PInt i) = str_int i"
| "pg_quote_value (PFloat f) = format_f f"
| "pg_quote_value (PBytes b) = pg_quote_bytes b"
| "pg_quote_value (PStr s) = pg_quote_string s"
| "pg_quote_value v = pg_quote_string (stringify v)"

section \<open>Statements\<close>

text \<open>The value of one column, and one assignment of the update list.\<close>

definition pg_column_value :: "schema \<Rightarrow> pydict \<Rightarrow> string \<Rightarrow> string" where
  "pg_column_value model ob name =
     (case dget ob name of
        Some v \<Rightarrow> to_json_string_val name (pg_quote_value v) (prop_of model name) True
      | None \<Rightarrow> to_json_string_val name ''NULL'' (prop_of model name) True)"

definition pg_assign :: "schema \<Rightarrow> pydict \<Rightarrow> string \<Rightarrow> string" where
  "pg_assign model ob name = pg_quote_identifier name @ ''='' @ pg_column_value model ob name"

text \<open>The update list of an \<open>UPDATE\<close>: a changed column the object does not have gives a bare value.\<close>

definition pg_update_vals :: "schema \<Rightarrow> pydict \<Rightarrow> string list \<Rightarrow> string list" where
  "pg_update_vals model ob diff =
     map (\<lambda>name. case dget ob name of
                   Some v \<Rightarrow> pg_assign model ob name
                 | None \<Rightarrow> pg_column_value model ob name)
       (filter (\<lambda>name. name \<in> set (columns model) \<and> name \<noteq> ''id'') diff)"

definition pg_insert_update_vals :: "schema \<Rightarrow> pydict \<Rightarrow> string list" where
  "pg_insert_update_vals model ob =
     map (pg_assign model ob) (filter (\<lambda>name. dget ob name = None \<or> name \<noteq> ''id'') (columns model))"

definition pg_to_sql_from_object :: "string \<Rightarrow> schema \<Rightarrow> string \<Rightarrow> pydict \<Rightarrow> string list option \<Rightarrow> string" where
  "pg_to_sql_from_object operation model table ob diff =
     (let update_vals = (if operation = ''UPDATE'' then pg_update_vals model ob (or_empty diff)
                         else pg_insert_update_vals model ob);
          tail = (if update_vals \<noteq> [] then ''UPDATE SET '' @ join '','' update_vals else ''NOTHING'')
      in ''INSERT INTO '' @ pg_quote_identifier table @ '' ('' @ csv pg_quote_identifier (columns model) @
         '') VALUES ('' @ csv (pg_column_value model ob) (columns model) @ '') ON CONFLICT (id) DO '' @ tail @
         '';'' @ [NL])"

definition pg_delete_sql :: "string \<Rightarrow> (string \<times> string) list \<Rightarrow> string" where
  "pg_delete_sql table conds =
     ''DELETE FROM '' @ pg_quote_identifier table @ '' WHERE '' @
     join '' AND '' (map (\<lambda>(pk, k). pg_quote_identifier pk @ ''='' @ pg_quote_value (PStr k)) conds) @ '';'' @ [NL]"

text \<open>\<open>After\<close> parsed again from its text; anything but an object counts as empty.\<close>

definition pg_after_object :: "db_change_event \<Rightarrow> pydict res" where
  "pg_after_object c =
     (case ev_after c of
        None \<Rightarrow> Inr []
      | Some raw \<Rightarrow>
          if length raw > 0 then
            (case loads opts_float raw of
               None \<Rightarrow> Inl (ValueError ''invalid JSON'')
             | Some (PDict d) \<Rightarrow> Inr d
             | Some _ \<Rightarrow> Inr [])
          else Inr [])"

definition pg_to_sql :: "db_change_event \<Rightarrow> schema \<Rightarrow> string res" where
  "pg_to_sql c model =
     (if ev_operation c = ''DELETE'' then
        andthen (zip_keys (s_primary_keys model) (or_empty (ev_key c))) (\<lambda>conds. Inr (pg_delete_sql (ev_table c) conds))
      else andthen (pg_after_object c) (\<lambda>ob.
        Inr (pg_to_sql_from_object (ev_operation c) model (ev_table c) ob (ev_diff c))))"

section \<open>Tables and views\<close>

definition pg_prop_type_to_sql_type :: "schema_property \<Rightarrow> string" where
  "pg_prop_type_to_sql_type prop =
     (let t = sp_type prop in
      if t = ''string'' then if sp_format prop = ''date-time'' then ''TIMESTAMP WITH TIME ZONE'' else ''TEXT''
      else if t = ''integer'' then ''BIGINT''
      else if t = ''number'' then ''DOUBLE PRECISION''
      else if t = ''boolean'' then ''BOOLEAN''
      else if t = ''object'' then ''JSONB''
      else if t = ''array'' then
        (case sp_items prop of Some i \<Rightarrow> if it_enum i \<noteq> None then ''VARCHAR(64)'' else ''JSONB'' | None \<Rightarrow> ''JSONB'')
      else ''TEXT'')"

definition pg_column_line :: "schema \<Rightarrow> (string \<Rightarrow> bool) \<Rightarrow> string \<Rightarrow> string" where
  "pg_column_line s not_null name =
     [TAB] @ pg_quote_identifier name @ '' '' @ pg_prop_type_to_sql_type (prop_of s name) @
     (if not_null name then '' NOT NULL'' else '''') @ '','' @ [NL]"

definition pg_create_sql :: "schema \<Rightarrow> string" where
  "pg_create_sql s =
     (let table = pg_quote_identifier (s_table s);
          body = concat (map (pg_column_line s (required_not_null s)) (columns s)) @
            (if s_primary_keys s \<noteq> []
             then [TAB] @ ''PRIMARY KEY ('' @ join '', '' (map pg_quote_identifier (s_primary_keys s)) @ '')'' else '''')
      in ''DROP TABLE IF EXISTS '' @ table @ '';'' @ [NL] @ ''CREATE TABLE '' @ table @ '' ('' @ [NL] @ body @ [NL] @ '');'' @ [NL])"

section \<open>Audit mode\<close>

text \<open>The value list of the audit row, before the three audit columns.\<close>

definition pg_append_vals :: "db_change_event \<Rightarrow> schema \<Rightarrow> string list res" where
  "pg_append_vals c model =
     (if ev_operation c = ''DELETE'' then
        mapM (\<lambda>name. if name \<in> set (s_primary_keys model)
                      then andthen (key_at (or_empty (ev_key c)) (index_of name (s_primary_keys model)))
                             (\<lambda>k. Inr (pg_quote_value (PStr k)))
                      else Inr ''NULL'') (columns model)
      else andthen (pg_after_object c) (\<lambda>ob.
        Inr (map (\<lambda>name. case dget ob name of
                            Some v \<Rightarrow> to_json_string_val name (pg_quote_value v) (prop_of model name) True
                          | None \<Rightarrow> ''NULL'') (columns model))))"

definition pg_to_append_sql :: "db_change_event \<Rightarrow> schema \<Rightarrow> string res" where
  "pg_to_append_sql c model =
     andthen (pg_append_vals c model) (\<lambda>vals.
       Inr (''INSERT INTO '' @ pg_quote_identifier (ev_table c) @ '' ('' @
            csv pg_quote_identifier (columns model @ [EDS_OPERATION, EDS_MVCC, EDS_TIMESTAMP]) @ '') VALUES ('' @
            join '','' (vals @ [pg_quote_value (PStr (ev_operation c)),
                                if ev_mvcc_timestamp c \<noteq> '''' then ev_mvcc_timestamp c else ''NULL'',
                                str_int (ev_timestamp c)]) @ '');'' @ [NL]))"

definition pg_create_append_sql :: "schema \<Rightarrow> string" where
  "pg_create_append_sql s =
     (let table = pg_quote_identifier (s_table s);
          body = concat (map (pg_column_line s (\<lambda>name. name \<in> set (s_primary_keys s))) (columns s)) @
            [TAB] @ pg_quote_identifier EDS_SEQ @ '' BIGINT GENERATED ALWAYS AS IDENTITY PRIMARY KEY,'' @ [NL] @
            [TAB] @ pg_quote_identifier EDS_OPERATION @ '' TEXT NOT NULL,'' @ [NL] @
            [TAB] @ pg_quote_identifier EDS_MVCC @ '' NUMERIC(38,10),'' @ [NL] @
            [TAB] @ pg_quote_identifier EDS_TIMESTAMP @ '' BIGINT NOT NULL,'' @ [NL] @
            [TAB] @ pg_quote_identifier EDS_APPENDED_AT @ '' TIMESTAMP WITH TIME ZONE NOT NULL DEFAULT now()'';
          idx_cols = csv pg_quote_identifier (s_primary_keys s) @ '', '' @
            join '', '' (map (\<lambda>n. pg_quote_identifier n @ '' DESC'') [EDS_MVCC, EDS_TIMESTAMP, EDS_SEQ]);
          idx = pg_quote_identifier (s_table s @ ''__eds_history_idx'')
      in ''DROP TABLE IF EXISTS '' @ table @ '' CASCADE;'' @ [NL] @
         ''CREATE TABLE '' @ table @ '' ('' @ [NL] @ body @ [NL] @ '');'' @ [NL] @
         ''CREATE INDEX '' @ idx @ '' ON '' @ table @ '' ('' @ idx_cols @ '');'' @ [NL])"

definition pg_create_current_view_sql :: "schema \<Rightarrow> string" where
  "pg_create_current_view_sql s =
     (let obj_csv = csv pg_quote_identifier (columns s);
          distinct = csv pg_quote_identifier (s_primary_keys s);
          order_by = csv pg_quote_identifier (s_primary_keys s) @ '', '' @
            join '', '' [pg_quote_identifier EDS_MVCC @ '' DESC NULLS LAST'', pg_quote_identifier EDS_TIMESTAMP @ '' DESC'',
                         pg_quote_identifier EDS_SEQ @ '' DESC'']
      in ''CREATE OR REPLACE VIEW '' @ pg_quote_identifier (s_table s @ ''_current'') @ '' AS'' @ [NL] @
         ''SELECT '' @ obj_csv @ [NL] @
         ''FROM ('' @ [NL] @
         [TAB] @ ''SELECT DISTINCT ON ('' @ distinct @ '')'' @ [NL] @
         [TAB, TAB] @ obj_csv @ '','' @ pg_quote_identifier EDS_OPERATION @ [NL] @
         [TAB] @ ''FROM '' @ pg_quote_identifier (s_table s) @ [NL] @
         [TAB] @ ''ORDER BY '' @ order_by @ [NL] @
         '') '' @ [DQ] @ ''latest'' @ [DQ, NL] @
         ''WHERE '' @ pg_quote_identifier EDS_OPERATION @ '' <> '' @ [SQ] @ ''DELETE'' @ [SQ] @ '';'' @ [NL])"

definition pg_create_timeline_view_sql :: "schema \<Rightarrow> string" where
  "pg_create_timeline_view_sql s =
     (let obj_csv = csv pg_quote_identifier (columns s);
          partition = csv pg_quote_identifier (s_primary_keys s);
          order_by = join '', '' (map (\<lambda>n. pg_quote_identifier n @ '' ASC'') [EDS_MVCC, EDS_TIMESTAMP, EDS_SEQ])
      in ''CREATE OR REPLACE VIEW '' @ pg_quote_identifier (s_table s @ ''_timeline'') @ '' AS'' @ [NL] @
         ''SELECT'' @ [NL] @
         [TAB] @ obj_csv @ '','' @ [NL] @
         [TAB] @ pg_quote_identifier EDS_OPERATION @ '','' @ [NL] @
         [TAB] @ pg_quote_identifier EDS_MVCC @ '' AS '' @ pg_quote_identifier ''valid_from'' @ '','' @ [NL] @
         [TAB] @ ''LEAD('' @ pg_quote_identifier EDS_MVCC @ '') OVER ('' @ [NL] @
         [TAB, TAB] @ ''PARTITION BY '' @ partition @ [NL] @
         [TAB, TAB] @ ''ORDER BY '' @ order_by @ [NL] @
         [TAB] @ '') AS '' @ pg_quote_identifier ''valid_to'' @ [NL] @
         ''FROM '' @ pg_quote_identifier (s_table s) @ '';'' @ [NL])"

definition pg_drop_views_sql :: "schema \<Rightarrow> string list" where
  "pg_drop_views_sql s =
     [''DROP VIEW IF EXISTS '' @ pg_quote_identifier (s_table s @ ''_timeline'') @ '';'',
      ''DROP VIEW IF EXISTS '' @ pg_quote_identifier (s_table s @ ''_current'') @ '';'']"

section \<open>Migration\<close>

definition pg_alter :: "schema \<Rightarrow> string \<Rightarrow> string" where
  "pg_alter s column =
     ''ALTER TABLE '' @ pg_quote_identifier (s_table s) @ '' ADD COLUMN '' @ pg_quote_identifier column @ '' '' @
     pg_prop_type_to_sql_type (prop_of s column) @ '';''"

definition pg_add_new_columns_sql :: "string list \<Rightarrow> schema \<Rightarrow> database_schema \<Rightarrow> string list" where
  "pg_add_new_columns_sql cols s db =
     map (pg_alter s) (filter (\<lambda>column. \<not> fst (get_type db (s_table s) column)) cols)"

section \<open>How PostgreSQL reads the statements\<close>

text \<open>
  PostgreSQL quotes identifiers by double quotes; a backslash in a literal stands for itself
  (\<open>standard_conforming_strings\<close>), and \<open>$_H_$\<close> opens a literal that its next occurrence closes.
\<close>

definition pg_dialect :: dialect where
  "pg_dialect = \<lparr>d_open = DQ, d_close = DQ, d_unescape = None, d_tag = Some MAGIC_ESCAPE\<rparr>"

text \<open>The closing tag is the first one in the text, counting an occurrence that runs into it.\<close>

definition no_breakout :: "string \<Rightarrow> bool" where
  "no_breakout s \<longleftrightarrow> list_all (\<lambda>i. \<not> prefix MAGIC_ESCAPE (drop i (s @ MAGIC_ESCAPE))) [0..<length s]"

definition pg_lit_ok :: "string \<Rightarrow> bool" where
  "pg_lit_ok s \<longleftrightarrow> list_all safe_character (strip_nul s) \<or> no_breakout (strip_nul s)"

fun pg_value_ok :: "pyval \<Rightarrow> bool" where
  "pg_value_ok PNone = True"
| "pg_value_ok (PBool b) = True"
| "pg_value_ok (PInt i) = True"
| "pg_value_ok (PFloat f) = True"
| "pg_value_ok (PBytes b) = True"
| "pg_value_ok (PStr s) = pg_lit_ok s"
| "pg_value_ok v = pg_lit_ok (stringify v)"

fun pg_value_toks :: "pyval \<Rightarrow> tok list" where
  "pg_value_toks PNone = chars ''null''"
| "pg_value_toks (PBool b) = chars (if b then ''true'' else ''false'')"
| "pg_value_toks (PInt i) = chars (str_int i)"
| "pg_value_toks (PFloat f) = chars (format_f f)"
| "pg_value_toks (PBytes b) = [Lit ([BS, CHR ''x''] @ concat (map hex_byte b))]"
| "pg_value_toks (PStr s) = [Lit (strip_nul s)]"
| "pg_value_toks v = [Lit (strip_nul (stringify v))]"

abbreviation pg_name :: "string \<Rightarrow> string" where
  "pg_name n \<equiv> takeWhile (\<lambda>c. c \<noteq> NUL) n"

lemma read_dollar_reads:
  assumes "tag \<noteq> []" "\<forall>i < length s. \<not> prefix tag (drop i (s @ tag))"
  shows "read_dollar tag (s @ tag @ rest) = Some (s, rest)"
  using assms(2)
proof (induction s)
  case Nil
  obtain c r where "tag = c # r" using assms(1) by (cases tag) auto
  then show ?case by simp
next
  case (Cons c s)
  from Cons.prems have s: "\<forall>i < length s. \<not> prefix tag (drop i (s @ tag))" by fastforce
  from Cons.prems have "\<not> prefix tag (c # s @ tag)" by force
  then have "\<not> prefix tag (c # s @ tag @ rest)"
    by (metis append_Cons append_assoc length_append length_Cons le_add2 le_SucI prefix_length_prefix prefixI add_Suc)
  with Cons.IH [OF s] show ?case by simp
qed

lemma reads_dollar:
  assumes "no_breakout s"
  shows "reads pg_dialect (MAGIC_ESCAPE @ s @ MAGIC_ESCAPE) [Lit s]"
  unfolding reads_def
proof (intro allI impI)
  fix rest
  have "read_dollar MAGIC_ESCAPE (s @ MAGIC_ESCAPE @ rest) = Some (s, rest)"
    using assms by (intro read_dollar_reads) (auto simp: no_breakout_def list_all_iff MAGIC_ESCAPE_def)
  then have "lex_sql pg_dialect (CHR ''$'' # ''_H_$'' @ s @ MAGIC_ESCAPE @ rest) = map_option ((#) (Lit s)) (lex_sql pg_dialect rest)"
    by (simp add: lex_sql.simps read_tok_def pg_dialect_def starts_tag_def MAGIC_ESCAPE_def)
  then show "lex_sql pg_dialect ((MAGIC_ESCAPE @ s @ MAGIC_ESCAPE) @ rest) = map_option ((@) [Lit s]) (lex_sql pg_dialect rest)"
    by (cases "lex_sql pg_dialect rest") (simp_all add: MAGIC_ESCAPE_def)
qed

lemma safe_character_not: "\<not> safe_character SQ"
  by (simp add: safe_character_def is_lower_def is_upper_def is_digit_def less_eq_char_def)

lemma pg_dialect_ok: "dialect_ok pg_dialect"
  by (simp add: dialect_ok_def pg_dialect_def MAGIC_ESCAPE_def)

interpretation pg: sql_dialect pg_dialect pg_quote_identifier "\<lambda>n. True" "\<lambda>n. pg_name n" pg_quote_string pg_lit_ok strip_nul
proof unfold_locales
  show "dialect_ok pg_dialect" by (rule pg_dialect_ok)
  show "reads pg_dialect (pg_quote_identifier n) [Ident (pg_name n)]" for n
  proof -
    have "spells None DQ (concat (map (\<lambda>c. if c = DQ then [DQ, DQ] else [c]) (pg_name n)))
        (concat (map (\<lambda>c. [c]) (pg_name n)))"
      by (rule spells_map) (simp add: spells_doubled spells_self)
    then show ?thesis
      using reads_ident [of pg_dialect] by (simp add: pg_quote_identifier_def pg_dialect_def)
  qed
  show "reads pg_dialect (pg_quote_string s) [Lit (strip_nul s)]" if "pg_lit_ok s" for s
  proof (cases "list_all safe_character (strip_nul s)")
    case True
    then have "SQ \<notin> set (strip_nul s)" using safe_character_not by (auto simp: list_all_iff)
    then have "reads pg_dialect (SQ # strip_nul s @ [SQ]) [Lit (strip_nul s)]"
      by (intro reads_lit [OF pg_dialect_ok] spells_plain) (simp_all add: pg_dialect_def)
    with True show ?thesis by (simp add: pg_quote_string_def Let_def)
  next
    case False
    with that have "no_breakout (strip_nul s)" "strip_nul s \<noteq> []" by (auto simp: pg_lit_ok_def)
    with False reads_dollar show ?thesis by (simp add: pg_quote_string_def Let_def)
  qed
qed

lemma hexd_neutral: "n < 16 \<Longrightarrow> hexd n \<noteq> SQ"
proof
  assume n: "n < 16" and h: "hexd n = SQ"
  from h have "of_char (hexd n) = (0x27 :: nat)" by simp
  with n show False by (simp add: hexd_def split: if_splits)
qed

lemma pg_bytes_reads: "reads pg_dialect (pg_quote_bytes b) [Lit ([BS, CHR ''x''] @ concat (map hex_byte b))]"
proof -
  have "SQ \<notin> set (hex_byte c)" for c
    using hexd_neutral [of "of_char c div 16"] hexd_neutral [of "of_char c mod 16"] nat_of_char_less_256 [of c]
    by (auto simp: hex_byte_def less_mult_imp_div_less)
  then have "SQ \<notin> set ([BS, CHR ''x''] @ concat (map hex_byte b))" by auto
  then have "reads pg_dialect (SQ # ([BS, CHR ''x''] @ concat (map hex_byte b)) @ [SQ]) [Lit ([BS, CHR ''x''] @ concat (map hex_byte b))]"
    by (intro reads_lit [OF pg_dialect_ok] spells_plain) (simp_all add: pg_dialect_def)
  then show ?thesis by (simp add: pg_quote_bytes_def)
qed

lemma pg_value_reads: "pg_value_ok v \<Longrightarrow> reads pg_dialect (pg_quote_value v) (pg_value_toks v)"
  using pg_bytes_reads by (cases v) (auto simp del: list.map intro!: pg.lit_reads pg.words_read)

lemma scalar_safe_pg_string: "scalar_safe (pg_quote_string s)"
  by (simp add: scalar_safe_def pg_quote_string_def MAGIC_ESCAPE_def Let_def)

lemma scalar_safe_pg_value: "scalar_safe (pg_quote_value v)"
proof (cases v)
  case (PBytes b)
  then show ?thesis by (simp add: scalar_safe_def pg_quote_bytes_def)
qed (auto simp: scalar_safe_pg_string intro!: scalar_safe_bare)

section \<open>The tokens of the statements\<close>

definition pg_col_toks :: "schema \<Rightarrow> pydict \<Rightarrow> string \<Rightarrow> tok list" where
  "pg_col_toks model ob name =
     (case dget ob name of
        Some v \<Rightarrow> col_toks (prop_of model name) True (pg_quote_value v) (pg_value_toks v)
      | None \<Rightarrow> col_toks (prop_of model name) True ''NULL'' (chars ''NULL''))"

definition pg_assign_toks :: "schema \<Rightarrow> pydict \<Rightarrow> string \<Rightarrow> tok list" where
  "pg_assign_toks model ob name = Ident (pg_name name) # Ch (CHR ''='') # pg_col_toks model ob name"

definition pg_update_toks :: "string \<Rightarrow> schema \<Rightarrow> pydict \<Rightarrow> string list option \<Rightarrow> tok list list" where
  "pg_update_toks operation model ob diff =
     (if operation = ''UPDATE''
      then map (\<lambda>name. if dget ob name = None then pg_col_toks model ob name else pg_assign_toks model ob name)
             (filter (\<lambda>name. name \<in> set (columns model) \<and> name \<noteq> ''id'') (or_empty diff))
      else map (pg_assign_toks model ob) (filter (\<lambda>name. dget ob name = None \<or> name \<noteq> ''id'') (columns model)))"

definition pg_upsert_toks :: "string \<Rightarrow> schema \<Rightarrow> string \<Rightarrow> pydict \<Rightarrow> string list option \<Rightarrow> tok list" where
  "pg_upsert_toks operation model table ob diff =
     chars ''INSERT INTO '' @ [Ident (pg_name table)] @ chars '' ('' @
     tok_join '','' (map (\<lambda>n. [Ident (pg_name n)]) (columns model)) @ chars '') VALUES ('' @
     tok_join '','' (map (pg_col_toks model ob) (columns model)) @ chars '') ON CONFLICT (id) DO '' @
     (if pg_update_toks operation model ob diff = [] then chars ''NOTHING''
      else chars ''UPDATE SET '' @ tok_join '','' (pg_update_toks operation model ob diff)) @ chars ('';'' @ [NL])"

definition pg_delete_toks :: "string \<Rightarrow> (string \<times> string) list \<Rightarrow> tok list" where
  "pg_delete_toks table conds =
     chars ''DELETE FROM '' @ [Ident (pg_name table)] @ chars '' WHERE '' @
     tok_join '' AND '' (map (\<lambda>(pk, k). [Ident (pg_name pk), Ch (CHR ''=''), Lit (strip_nul k)]) conds) @
     chars ('';'' @ [NL])"

lemma pg_column_reads:
  assumes "\<forall>p \<in> set ob. pg_value_ok (snd p)"
  shows "reads pg_dialect (pg_column_value model ob name) (pg_col_toks model ob name)"
proof (cases "dget ob name")
  case None
  then show ?thesis
    by (auto simp: pg_column_value_def pg_col_toks_def simp del: list.map
        intro!: to_json_string_val_reads [OF pg_dialect_ok] pg.words_read scalar_safe_bare)
next
  case (Some v)
  then have "pg_value_ok v" using assms map_of_SomeD by force
  with Some show ?thesis
    by (auto simp: pg_column_value_def pg_col_toks_def
        intro!: to_json_string_val_reads [OF pg_dialect_ok] pg_value_reads scalar_safe_pg_value)
qed

lemma pg_assign_reads:
  assumes "\<forall>p \<in> set ob. pg_value_ok (snd p)"
  shows "reads pg_dialect (pg_assign model ob name) (pg_assign_toks model ob name)"
  unfolding pg_assign_def pg_assign_toks_def by (intro pg.assign_reads pg_column_reads assms) simp

definition pg_update_list :: "string \<Rightarrow> schema \<Rightarrow> pydict \<Rightarrow> string list option \<Rightarrow> string list" where
  "pg_update_list operation model ob diff =
     (if operation = ''UPDATE'' then pg_update_vals model ob (or_empty diff) else pg_insert_update_vals model ob)"

lemma pg_update_list_reads:
  assumes "\<forall>p \<in> set ob. pg_value_ok (snd p)"
  shows "list_all2 (reads pg_dialect) (pg_update_list operation model ob diff) (pg_update_toks operation model ob diff)"
  unfolding pg_update_list_def pg_update_toks_def pg_update_vals_def pg_insert_update_vals_def
  by (auto intro!: list_all2_map_reads pg_assign_reads pg_column_reads assms split: option.splits)

lemma pg_upsert_lexes:
  assumes "\<forall>p \<in> set ob. pg_value_ok (snd p)"
  shows "lex_sql pg_dialect (pg_to_sql_from_object operation model table ob diff) =
    Some (pg_upsert_toks operation model table ob diff)"
proof -
  let ?u = "pg_update_list operation model ob diff" and ?t = "pg_update_toks operation model ob diff"
  have u: "list_all2 (reads pg_dialect) ?u ?t" by (rule pg_update_list_reads [OF assms])
  then have e: "?u = [] \<longleftrightarrow> ?t = []" by (auto dest: list_all2_lengthD)
  let ?tail = "if ?u = [] then [Txt ''NOTHING''] else [Txt ''UPDATE SET '', Item (join '','' ?u) (tok_join '','' ?t)]"
  let ?ps = "[Txt ''INSERT INTO '', Item (pg_quote_identifier table) [Ident (pg_name table)], Txt '' ('',
     Item (csv pg_quote_identifier (columns model)) (tok_join '','' (map (\<lambda>n. [Ident (pg_name n)]) (columns model))),
     Txt '') VALUES ('', Item (csv (pg_column_value model ob) (columns model)) (tok_join '','' (map (pg_col_toks model ob) (columns model))),
     Txt '') ON CONFLICT (id) DO ''] @ ?tail @ [Txt ('';'' @ [NL])]"
  have "parts_ok pg_dialect ?ps"
    using pg.values_read [OF u] assms pg.idents_read [of "columns model"]
    by (auto simp: neutral_def csv_def list_all_iff intro!: pg.ident_reads pg.values_read list_all2_map_reads pg_column_reads)
  moreover have "pg_to_sql_from_object operation model table ob diff = concat (map part_text ?ps)"
    by (simp add: pg_to_sql_from_object_def Let_def pg_update_list_def)
  ultimately have "lex_sql pg_dialect (pg_to_sql_from_object operation model table ob diff) = Some (concat (map part_toks ?ps))"
    by (rule pg.statement_reads)
  then show ?thesis using e by (auto simp: pg_upsert_toks_def)
qed

lemma pg_delete_lexes:
  assumes "\<forall>p \<in> set conds. pg_lit_ok (snd p)"
  shows "lex_sql pg_dialect (pg_delete_sql table conds) = Some (pg_delete_toks table conds)"
proof -
  let ?cs = "map (\<lambda>(pk, k). (pk, pg_quote_string k, [Lit (strip_nul k)])) conds"
  let ?where = "Item (join '' AND '' (map (\<lambda>(n, v, ts). pg_quote_identifier n @ ''='' @ v) ?cs))
    (tok_join '' AND '' (map (\<lambda>(n, v, ts). Ident (pg_name n) # Ch (CHR ''='') # ts) ?cs))"
  let ?ps = "[Txt ''DELETE FROM '', Item (pg_quote_identifier table) [Ident (pg_name table)], Txt '' WHERE '', ?where, Txt ('';'' @ [NL])]"
  have "list_all (\<lambda>(n, v, ts). True \<and> reads pg_dialect v ts) ?cs"
    using assms by (auto simp: list_all_iff intro!: pg.lit_reads)
  from pg.conds_read [OF this] have "parts_ok pg_dialect ?ps"
    by (simp add: neutral_def pg.ident_reads del: map_map)
  moreover have "pg_delete_sql table conds = concat (map part_text ?ps)"
    by (simp add: pg_delete_sql_def o_def case_prod_unfold)
  ultimately have "lex_sql pg_dialect (pg_delete_sql table conds) = Some (concat (map part_toks ?ps))"
    by (rule pg.statement_reads)
  then show ?thesis by (simp add: pg_delete_toks_def o_def case_prod_unfold)
qed

text \<open>The tokens meant by an event: a deletion by primary key, or an upsert of the parsed object.\<close>

definition pg_event_toks :: "db_change_event \<Rightarrow> schema \<Rightarrow> tok list" where
  "pg_event_toks c model =
     (if ev_operation c = ''DELETE'' then pg_delete_toks (ev_table c) (zip (s_primary_keys model) (or_empty (ev_key c)))
      else case pg_after_object c of
             Inl e \<Rightarrow> []
           | Inr ob \<Rightarrow> pg_upsert_toks (ev_operation c) model (ev_table c) ob (ev_diff c))"

definition pg_data_ok :: "db_change_event \<Rightarrow> bool" where
  "pg_data_ok c \<longleftrightarrow>
     (if ev_operation c = ''DELETE'' then list_all pg_lit_ok (or_empty (ev_key c))
      else case pg_after_object c of Inl e \<Rightarrow> True | Inr ob \<Rightarrow> list_all (\<lambda>(k, v). pg_value_ok v) ob)"

section \<open>Properties\<close>

text \<open>C20: PostgreSQL reads every upsert and delete statement as it is meant. For any event and schema, whatever
  quotes, backslashes, NUL bytes or SQL the names and values contain, the statement \<open>to_sql\<close> builds is cut by the
  server into exactly the intended tokens: the table and the columns as identifiers, one value for each column in
  column order, and every string value as one literal. The one condition on the data is that no
  dollar-quoted value, without its NUL bytes, contains the tag \<open>$_H_$\<close> or ends in \<open>$_H_\<close>, which would run into the
  closing tag. \<open>to_sql\<close> fails only for a deletion with fewer keys than primary key columns
  and for an object that is not JSON.\<close>

theorem pg_statement_reads:
  assumes "pg_data_ok c"
  shows "case pg_to_sql c model of
           Inr sql \<Rightarrow> lex_sql pg_dialect sql = Some (pg_event_toks c model)
         | Inl e \<Rightarrow> (if ev_operation c = ''DELETE'' then length (or_empty (ev_key c)) < length (s_primary_keys model)
                    else \<exists>raw. ev_after c = Some raw \<and> loads opts_float raw = None)"
proof (cases "ev_operation c = ''DELETE''")
  case True
  with assms zip_keys_zip [of "s_primary_keys model" "or_empty (ev_key c)"] show ?thesis
    by (auto simp: pg_to_sql_def pg_data_ok_def pg_event_toks_def list_all_iff intro!: pg_delete_lexes dest: set_zip_rightD)
next
  case False
  with assms show ?thesis
    by (auto simp: pg_to_sql_def pg_data_ok_def pg_event_toks_def pg_after_object_def list_all_iff
        intro!: pg_upsert_lexes split: option.splits if_splits pyval.splits sum.splits)
qed

theorem pg_statement_reads_witness:
  "let c = sample_event ''INSERT'' ''t'' [''a''] (Some (''{'' @ [DQ] @ ''id'' @ [DQ] @ '':'' @ [DQ] @ ''a'' @ [SQ, DQ] @ ''}''))
   in pg_data_ok c \<and> (case pg_to_sql c sample_schema of
        Inr sql \<Rightarrow> lex_sql pg_dialect sql = Some (pg_event_toks c sample_schema)
      | Inl e \<Rightarrow> (if ev_operation c = ''DELETE'' then length (or_empty (ev_key c)) < length (s_primary_keys sample_schema)
                 else \<exists>raw. ev_after c = Some raw \<and> loads opts_float raw = None))"
proof -
  let ?c = "sample_event ''INSERT'' ''t'' [''a''] (Some (''{'' @ [DQ] @ ''id'' @ [DQ] @ '':'' @ [DQ] @ ''a'' @ [SQ, DQ] @ ''}''))"
  have ok: "pg_data_ok ?c" by code_simp
  show ?thesis unfolding Let_def using ok pg_statement_reads [OF ok, of sample_schema] by blast
qed

text \<open>The dollar quoting does not protect every value. A string that contains the tag \<open>$_H_$\<close> (and some
  character that needs dollar quoting) ends its literal early: the server reads the rest of the value as SQL.\<close>

theorem pg_dollar_breakout:
  "lex_sql pg_dialect (pg_quote_value (PStr ([SQ] @ ''$_H_$, 1); DROP TABLE t; SELECT $_H_$''))) =
     Some (Lit [SQ] # chars '', 1); DROP TABLE t; SELECT '' @ [Lit []])"
  by code_simp

end
