(* ===== verification/MySqlText.thy ===== *)
theory MySqlText
  imports Sql
begin

text \<open>
  The MySQL text builders, \<open>src/eds/drivers/mysql/sql.py\<close>: backslash escaping, JSON timestamps, the
  \<open>REPLACE INTO\<close> upsert, deletes, the audit statements, tables, views and migration. Values are those
  that JSON gives; the \<open>datetime\<close> branch of \<open>quote_value\<close> is not reachable from it and is left out.
\<close>

section \<open>Quoting\<close>

definition my_quote_identifier :: "string \<Rightarrow> string" where
  "my_quote_identifier val = CHR 0x60 # val @ [CHR 0x60]"

definition MY_ESCAPE :: "(char \<times> string) list" where
  "MY_ESCAPE =
     [(NUL, [BS, CHR ''0'']), (NL, [BS, CHR ''n'']), (CR, [BS, CHR ''r'']), (CHR 0x1A, [BS, CHR ''Z'']),
      (SQ, [BS, SQ]), (DQ, [BS, DQ]), (BS, [BS, BS])]"

definition my_escape_char :: "char \<Rightarrow> string" where
  "my_escape_char c = (case map_of MY_ESCAPE c of Some e \<Rightarrow> e | None \<Rightarrow> [c])"

definition my_escape_string :: "string \<Rightarrow> string" where
  "my_escape_string s = concat (map my_escape_char s)"

definition my_quote_string_value :: "string \<Rightarrow> string res" where
  "my_quote_string_value v =
     (if looks_like_json_ts v then andthen (json_ts v) (\<lambda>t. Inr (SQ # t @ [SQ]))
      else Inr (SQ # my_escape_string v @ [SQ]))"

fun my_quote_value :: "pyval \<Rightarrow> string res" where
  "my_quote_value PNone = Inr ''NULL''"
| "my_quote_value (PBool b) = Inr (if b then ''1'' else ''0'')"
| "my_quote_value (PFloat f) = Inr (format_g f)"
| "my_quote_value (PInt i) = Inr (str_int i)"
| "my_quote_value (PStr s) = my_quote_string_value s"
| "my_quote_value (PRaw s) = Inr (SQ # my_escape_string s @ [SQ])"
| "my_quote_value (PBytes b) = Inr (''_binary'' @ [SQ] @ my_escape_string (latin1 b) @ [SQ])"
| "my_quote_value v = Inr (SQ # my_escape_string (stringify v) @ [SQ])"

section \<open>Statements\<close>

definition my_column_value :: "schema \<Rightarrow> pydict \<Rightarrow> string \<Rightarrow> string res" where
  "my_column_value model ob name =
     (case dget ob name of
        Some v \<Rightarrow> andthen (my_quote_value v) (\<lambda>t. Inr (to_json_string_val name t (prop_of model name) True))
      | None \<Rightarrow> Inr (to_json_string_val name ''NULL'' (prop_of model name) True))"

definition my_replace_sql :: "schema \<Rightarrow> string \<Rightarrow> string list \<Rightarrow> string" where
  "my_replace_sql model table vals =
     ''REPLACE INTO '' @ my_quote_identifier table @ '' ('' @ csv my_quote_identifier (columns model) @
     '') VALUES ('' @ join '','' vals @ '');'' @ [NL]"

definition my_to_sql_from_object :: "string \<Rightarrow> schema \<Rightarrow> string \<Rightarrow> pydict \<Rightarrow> string list option \<Rightarrow> string res" where
  "my_to_sql_from_object operation model table ob diff =
     andthen (mapM (my_column_value model ob) (columns model)) (\<lambda>vals. Inr (my_replace_sql model table vals))"

definition my_key_pred :: "string \<times> string \<Rightarrow> string res" where
  "my_key_pred p = andthen (my_quote_value (PStr (snd p))) (\<lambda>t. Inr (my_quote_identifier (fst p) @ ''='' @ t))"

text \<open>
  The predicates are built key by key, so that a key that does not parse raises before a missing one.
\<close>

fun my_key_preds :: "string list \<Rightarrow> string list \<Rightarrow> string list res" where
  "my_key_preds [] ks = Inr []"
| "my_key_preds (p # ps) [] = Inl IndexError"
| "my_key_preds (p # ps) (k # ks) =
     andthen (my_key_pred (p, k)) (\<lambda>t. andthen (my_key_preds ps ks) (\<lambda>ts. Inr (t # ts)))"

definition my_to_sql :: "db_change_event \<Rightarrow> schema \<Rightarrow> string res" where
  "my_to_sql c model =
     (if ev_operation c = ''DELETE'' then
        andthen (my_key_preds (s_primary_keys model) (or_empty (ev_key c))) (\<lambda>preds.
          Inr (''DELETE FROM '' @ my_quote_identifier (ev_table c) @ '' WHERE '' @ join '' AND '' preds @ '';'' @ [NL]))
      else andthen (object_or_empty c) (\<lambda>ob.
        my_to_sql_from_object (ev_operation c) model (ev_table c) ob (ev_diff c)))"

section \<open>Tables, migration\<close>

definition my_prop_type_to_sql_type :: "schema_property \<Rightarrow> bool \<Rightarrow> string" where
  "my_prop_type_to_sql_type prop is_primary_key =
     (let t = sp_type prop in
      if t = ''string'' then
        if is_primary_key then ''VARCHAR(64)'' else if sp_format prop = ''date-time'' then ''TIMESTAMP'' else ''TEXT''
      else if t = ''integer'' then ''BIGINT''
      else if t = ''number'' then ''FLOAT''
      else if t = ''boolean'' then ''BOOLEAN''
      else if t = ''object'' then ''JSON''
      else if t = ''array'' then
        (case sp_items prop of Some i \<Rightarrow> if it_enum i \<noteq> None then ''VARCHAR(64)'' else ''JSON'' | None \<Rightarrow> ''JSON'')
      else ''TEXT'')"

definition my_column_line :: "schema \<Rightarrow> (string \<Rightarrow> bool) \<Rightarrow> string \<Rightarrow> string" where
  "my_column_line s not_null name =
     [TAB] @ my_quote_identifier name @ '' '' @
     my_prop_type_to_sql_type (prop_of s name) (name \<in> set (s_primary_keys s)) @
     (if not_null name then '' NOT NULL'' else '''') @ '','' @ [NL]"

definition my_create_sql :: "schema \<Rightarrow> string" where
  "my_create_sql s =
     (let table = my_quote_identifier (s_table s);
          body = concat (map (my_column_line s (required_not_null s)) (columns s)) @
            (if s_primary_keys s \<noteq> []
             then [TAB] @ ''PRIMARY KEY ('' @ join '', '' (map my_quote_identifier (s_primary_keys s)) @ '')''
             else [TAB] @ ''PRIMARY KEY (id)'')
      in ''DROP TABLE IF EXISTS '' @ table @ '';'' @ [NL] @ ''CREATE TABLE '' @ table @ '' ('' @ [NL] @ body @ [NL] @
         '') CHARACTER SET=utf8mb4;'' @ [NL])"

definition my_alter :: "schema \<Rightarrow> string \<Rightarrow> string" where
  "my_alter s column =
     ''ALTER TABLE '' @ my_quote_identifier (s_table s) @ '' ADD COLUMN '' @ my_quote_identifier column @ '' '' @
     my_prop_type_to_sql_type (prop_of s column) False @ '';''"

definition my_add_new_columns_sql :: "string list \<Rightarrow> schema \<Rightarrow> database_schema \<Rightarrow> string list" where
  "my_add_new_columns_sql cols s db =
     map (my_alter s) (filter (\<lambda>column. \<not> fst (get_type db (s_table s) column)) cols)"

section \<open>Audit mode\<close>

definition my_append_vals :: "db_change_event \<Rightarrow> schema \<Rightarrow> string list res" where
  "my_append_vals c model =
     (if ev_operation c = ''DELETE'' then
        mapM (\<lambda>name. if name \<in> set (s_primary_keys model)
                      then andthen (key_at (or_empty (ev_key c)) (index_of name (s_primary_keys model)))
                             (\<lambda>k. my_quote_value (PStr k))
                      else Inr ''NULL'') (columns model)
      else andthen (object_or_empty c) (\<lambda>ob.
        mapM (\<lambda>name. case dget ob name of
                        Some v \<Rightarrow> andthen (my_quote_value v) (\<lambda>t. Inr (to_json_string_val name t (prop_of model name) True))
                      | None \<Rightarrow> Inr ''NULL'') (columns model)))"

definition my_to_append_sql :: "db_change_event \<Rightarrow> schema \<Rightarrow> string res" where
  "my_to_append_sql c model =
     andthen (my_append_vals c model) (\<lambda>vals.
     andthen (my_quote_value (PStr (ev_operation c))) (\<lambda>op.
       Inr (''INSERT INTO '' @ my_quote_identifier (ev_table c) @ '' ('' @
            csv my_quote_identifier (columns model @ [EDS_OPERATION, EDS_MVCC, EDS_TIMESTAMP]) @ '') VALUES ('' @
            join '','' (vals @ [op, if ev_mvcc_timestamp c \<noteq> '''' then ev_mvcc_timestamp c else ''NULL'',
                                str_int (ev_timestamp c)]) @ '');'' @ [NL])))"

definition my_create_append_sql :: "schema \<Rightarrow> string" where
  "my_create_append_sql s =
     (let table = my_quote_identifier (s_table s);
          idx_cols = csv my_quote_identifier (s_primary_keys s) @ '', '' @
            join '', '' (map (\<lambda>n. my_quote_identifier n @ '' DESC'') [EDS_MVCC, EDS_TIMESTAMP, EDS_SEQ]);
          body = concat (map (my_column_line s (\<lambda>name. name \<in> set (s_primary_keys s))) (columns s)) @
            [TAB] @ my_quote_identifier EDS_SEQ @ '' BIGINT NOT NULL AUTO_INCREMENT,'' @ [NL] @
            [TAB] @ my_quote_identifier EDS_OPERATION @ '' VARCHAR(16) NOT NULL,'' @ [NL] @
            [TAB] @ my_quote_identifier EDS_MVCC @ '' DECIMAL(38,10),'' @ [NL] @
            [TAB] @ my_quote_identifier EDS_TIMESTAMP @ '' BIGINT,'' @ [NL] @
            [TAB] @ my_quote_identifier EDS_APPENDED_AT @ '' TIMESTAMP(6) NOT NULL DEFAULT CURRENT_TIMESTAMP(6),'' @ [NL] @
            [TAB] @ ''PRIMARY KEY ('' @ my_quote_identifier EDS_SEQ @ ''),'' @ [NL] @
            [TAB] @ ''KEY '' @ my_quote_identifier (s_table s @ ''_eds_history_idx'') @ '' ('' @ idx_cols @ '')''
      in ''DROP VIEW IF EXISTS '' @ my_quote_identifier (s_table s @ ''_timeline'') @ '';'' @ [NL] @
         ''DROP VIEW IF EXISTS '' @ my_quote_identifier (s_table s @ ''_current'') @ '';'' @ [NL] @
         ''DROP TABLE IF EXISTS '' @ table @ '';'' @ [NL] @
         ''CREATE TABLE '' @ table @ '' ('' @ [NL] @ body @ [NL] @ '') CHARACTER SET=utf8mb4;'' @ [NL])"

definition my_create_current_view_sql :: "schema \<Rightarrow> string" where
  "my_create_current_view_sql s =
     (let obj_csv = join '', '' (map my_quote_identifier (columns s));
          partition = csv my_quote_identifier (s_primary_keys s);
          order_by = join '', '' (map (\<lambda>n. my_quote_identifier n @ '' DESC'') [EDS_MVCC, EDS_TIMESTAMP, EDS_SEQ])
      in ''CREATE VIEW '' @ my_quote_identifier (s_table s @ ''_current'') @ '' AS'' @ [NL] @
         ''SELECT '' @ obj_csv @ [NL] @
         ''FROM ('' @ [NL] @
         [TAB] @ ''SELECT '' @ obj_csv @ '', '' @ my_quote_identifier EDS_OPERATION @ '','' @ [NL] @
         [TAB, TAB] @ ''ROW_NUMBER() OVER ('' @ [NL] @
         [TAB, TAB, TAB] @ ''PARTITION BY '' @ partition @ [NL] @
         [TAB, TAB, TAB] @ ''ORDER BY '' @ order_by @ [NL] @
         [TAB, TAB] @ '') AS '' @ my_quote_identifier ''_eds_rn'' @ [NL] @
         [TAB] @ ''FROM '' @ my_quote_identifier (s_table s) @ [NL] @
         '') AS '' @ my_quote_identifier ''_eds_ranked'' @ [NL] @
         ''WHERE '' @ my_quote_identifier ''_eds_rn'' @ '' = 1 AND '' @ my_quote_identifier EDS_OPERATION @ '' <> '' @
         [SQ] @ ''DELETE'' @ [SQ] @ '';'' @ [NL])"

definition my_create_timeline_view_sql :: "schema \<Rightarrow> string" where
  "my_create_timeline_view_sql s =
     (let obj_csv = join '', '' (map my_quote_identifier (columns s));
          partition = csv my_quote_identifier (s_primary_keys s);
          order_by = join '', '' (map (\<lambda>n. my_quote_identifier n @ '' ASC'') [EDS_MVCC, EDS_TIMESTAMP, EDS_SEQ])
      in ''CREATE VIEW '' @ my_quote_identifier (s_table s @ ''_timeline'') @ '' AS'' @ [NL] @
         ''SELECT '' @ obj_csv @ '', '' @ my_quote_identifier EDS_OPERATION @ '','' @ [NL] @
         [TAB] @ my_quote_identifier EDS_MVCC @ '' AS '' @ my_quote_identifier ''valid_from'' @ '','' @ [NL] @
         [TAB] @ ''LEAD('' @ my_quote_identifier EDS_MVCC @ '') OVER ('' @ [NL] @
         [TAB, TAB] @ ''PARTITION BY '' @ partition @ [NL] @
         [TAB, TAB] @ ''ORDER BY '' @ order_by @ [NL] @
         [TAB] @ '') AS '' @ my_quote_identifier ''valid_to'' @ [NL] @
         ''FROM '' @ my_quote_identifier (s_table s) @ '';'' @ [NL])"

definition my_drop_views_sql :: "schema \<Rightarrow> string list" where
  "my_drop_views_sql s =
     [''DROP VIEW IF EXISTS '' @ my_quote_identifier (s_table s @ ''_timeline'') @ '';'',
      ''DROP VIEW IF EXISTS '' @ my_quote_identifier (s_table s @ ''_current'') @ '';'']"

section \<open>How MySQL reads the statements\<close>

text \<open>
  MySQL quotes identifiers by backticks, and in a string literal a backslash and the next character
  stand for one character (\<open>NO_BACKSLASH_ESCAPES\<close> is off).
\<close>

definition my_unescape :: "char \<Rightarrow> char" where
  "my_unescape c =
     (if c = CHR ''0'' then NUL else if c = CHR ''n'' then NL else if c = CHR ''r'' then CR
      else if c = CHR ''t'' then TAB else if c = CHR ''b'' then CHR 0x08 else if c = CHR ''Z'' then CHR 0x1A else c)"

definition my_dialect :: dialect where
  "my_dialect = \<lparr>d_open = CHR 0x60, d_close = CHR 0x60, d_unescape = Some my_unescape, d_tag = None\<rparr>"

definition my_ident_ok :: "string \<Rightarrow> bool" where
  "my_ident_ok n \<longleftrightarrow> CHR 0x60 \<notin> set n"

lemma my_dialect_ok: "dialect_ok my_dialect"
  by (simp add: dialect_ok_def my_dialect_def)

lemma my_escape_char_cases:
  "my_escape_char c = [c] \<and> c \<noteq> SQ \<and> c \<noteq> BS \<or> (\<exists>e. my_escape_char c = [BS, e] \<and> my_unescape e = c)"
  by (simp add: my_escape_char_def MY_ESCAPE_def my_unescape_def)

lemma my_escape_spells: "spells (Some my_unescape) SQ (my_escape_string s) s"
proof -
  have "spells (Some my_unescape) SQ (my_escape_char c) [c]" for c
    using my_escape_char_cases [of c]
  proof (elim disjE exE conjE)
    fix e
    assume "my_escape_char c = [BS, e]" "my_unescape e = c"
    then show ?thesis using spells_escaped [of SQ my_unescape e] by simp
  qed (simp add: spells_self)
  then show ?thesis
    using spells_map [of s "Some my_unescape" SQ my_escape_char "\<lambda>c. [c]"] by (simp add: my_escape_string_def)
qed

interpretation my: sql_dialect my_dialect my_quote_identifier my_ident_ok "\<lambda>n. n"
  "\<lambda>s. SQ # my_escape_string s @ [SQ]" "\<lambda>s. True" "\<lambda>s. s"
proof unfold_locales
  show "dialect_ok my_dialect" by (rule my_dialect_ok)
  show "reads my_dialect (my_quote_identifier n) [Ident n]" if "my_ident_ok n" for n
    using that reads_ident [of my_dialect n n] spells_plain [of "CHR 0x60" n None]
    by (simp add: my_quote_identifier_def my_dialect_def my_ident_ok_def)
  show "reads my_dialect (SQ # my_escape_string s @ [SQ]) [Lit s]" for s
    by (rule reads_lit [OF my_dialect_ok]) (simp add: my_dialect_def my_escape_spells)
qed

text \<open>The string a value denotes: a JSON timestamp is brought to the form of the server.\<close>

definition my_string :: "string \<Rightarrow> string" where
  "my_string s = (if looks_like_json_ts s then case json_ts s of Inr t \<Rightarrow> t | Inl _ \<Rightarrow> s else s)"

fun my_value_toks :: "pyval \<Rightarrow> tok list" where
  "my_value_toks PNone = chars ''NULL''"
| "my_value_toks (PBool b) = chars (if b then ''1'' else ''0'')"
| "my_value_toks (PFloat f) = chars (format_g f)"
| "my_value_toks (PInt i) = chars (str_int i)"
| "my_value_toks (PStr s) = [Lit (my_string s)]"
| "my_value_toks (PRaw s) = [Lit s]"
| "my_value_toks (PBytes b) = chars ''_binary'' @ [Lit (latin1 b)]"
| "my_value_toks v = [Lit (stringify v)]"

lemma my_string_reads:
  assumes "my_quote_string_value s = Inr t"
  shows "reads my_dialect t [Lit (my_string s)] \<and> scalar_safe t"
proof (cases "looks_like_json_ts s")
  case True
  with assms obtain u where u: "json_ts s = Inr u" "t = SQ # u @ [SQ]"
    by (auto simp: my_quote_string_value_def andthen_Inr_conv)
  with json_ts_plain [OF u(1)] have "reads my_dialect t [Lit u]"
    by (auto intro!: reads_lit [OF my_dialect_ok] spells_plain)
  with True u show ?thesis by (simp add: my_string_def scalar_safe_def)
next
  case False
  with assms my.lit_reads [of s] show ?thesis
    by (auto simp: my_quote_string_value_def my_string_def scalar_safe_def)
qed

lemma my_binary_reads: "reads my_dialect (''_binary'' @ SQ # my_escape_string s @ [SQ]) (chars ''_binary'' @ [Lit s])"
  by (intro reads_text_append my_dialect_ok my.lit_reads) (simp_all add: neutral_def)

lemma my_value_reads:
  assumes "my_quote_value v = Inr t"
  shows "reads my_dialect t (my_value_toks v) \<and> scalar_safe t"
proof (cases v)
  case (PStr s)
  with assms my_string_reads show ?thesis by simp
next
  case (PBytes b)
  with assms my_binary_reads [of "latin1 b"] show ?thesis by (auto simp: scalar_safe_def)
next
  case (PBool b)
  with assms show ?thesis by (cases b) (auto simp: scalar_safe_def simp del: list.map intro!: my.words_read)
qed (use assms my.lit_reads in \<open>auto simp: scalar_safe_def simp del: list.map intro!: my.words_read\<close>)

definition my_col_toks :: "schema \<Rightarrow> pydict \<Rightarrow> string \<Rightarrow> tok list" where
  "my_col_toks model ob name =
     (case dget ob name of
        Some v \<Rightarrow> col_toks (prop_of model name) True (case my_quote_value v of Inr t \<Rightarrow> t | Inl _ \<Rightarrow> '''') (my_value_toks v)
      | None \<Rightarrow> col_toks (prop_of model name) True ''NULL'' (chars ''NULL''))"

lemma my_column_reads:
  assumes "my_column_value model ob name = Inr t"
  shows "reads my_dialect t (my_col_toks model ob name)"
proof (cases "dget ob name")
  case None
  with assms show ?thesis
    by (auto simp: my_column_value_def my_col_toks_def simp del: list.map
        intro!: to_json_string_val_reads [OF my_dialect_ok] my.words_read scalar_safe_bare)
next
  case (Some v)
  with assms obtain u where "my_quote_value v = Inr u" "t = to_json_string_val name u (prop_of model name) True"
    by (auto simp: my_column_value_def andthen_Inr_conv)
  with Some my_value_reads show ?thesis
    by (auto simp: my_col_toks_def intro!: to_json_string_val_reads [OF my_dialect_ok])
qed

definition my_event_toks :: "db_change_event \<Rightarrow> schema \<Rightarrow> tok list" where
  "my_event_toks c model =
     (if ev_operation c = ''DELETE'' then
        chars ''DELETE FROM '' @ [Ident (ev_table c)] @ chars '' WHERE '' @
        tok_join '' AND '' (map (\<lambda>(pk, k). [Ident pk, Ch (CHR ''=''), Lit (my_string k)])
                              (zip (s_primary_keys model) (or_empty (ev_key c)))) @ chars ('';'' @ [NL])
      else case object_or_empty c of
             Inl e \<Rightarrow> []
           | Inr ob \<Rightarrow>
               chars ''REPLACE INTO '' @ [Ident (ev_table c)] @ chars '' ('' @
               tok_join '','' (map (\<lambda>n. [Ident n]) (columns model)) @ chars '') VALUES ('' @
               tok_join '','' (map (my_col_toks model ob) (columns model)) @ chars ('');'' @ [NL]))"

lemma my_replace_lexes:
  assumes "my_ident_ok table" "list_all my_ident_ok (columns model)" "list_all2 (reads my_dialect) vals tss"
  shows "lex_sql my_dialect (my_replace_sql model table vals) =
    Some (chars ''REPLACE INTO '' @ [Ident table] @ chars '' ('' @
      tok_join '','' (map (\<lambda>n. [Ident n]) (columns model)) @ chars '') VALUES ('' @ tok_join '','' tss @ chars ('');'' @ [NL]))"
  unfolding my_replace_sql_def by (rule my.row_reads) (use assms in \<open>simp_all add: neutral_def\<close>)

lemma my_key_preds_read:
  assumes "my_key_preds ps ks = Inr ts" "list_all my_ident_ok ps"
  shows "list_all2 (reads my_dialect) ts (map (\<lambda>(pk, k). [Ident pk, Ch (CHR ''=''), Lit (my_string k)]) (zip ps ks))"
  using assms
proof (induction ps ks arbitrary: ts rule: my_key_preds.induct)
  case (3 p ps k ks)
  then obtain v ts' where v: "my_quote_string_value k = Inr v" and ts: "ts = (my_quote_identifier p @ ''='' @ v) # ts'"
    "my_key_preds ps ks = Inr ts'"
    by (auto simp: andthen_Inr_conv my_key_pred_def)
  have "reads my_dialect (my_quote_identifier p @ ''='' @ v) [Ident p, Ch (CHR ''=''), Lit (my_string k)]"
    using "3.prems" my_string_reads [OF v] by (intro my.assign_reads) auto
  with 3 ts v show ?case by (simp add: my_key_pred_def)
qed auto

lemma my_key_preds_fail:
  "my_key_preds ps ks = Inl e \<Longrightarrow> length ks < length ps \<or> (\<exists>k \<in> set ks. my_quote_string_value k = Inl e)"
proof (induction ps ks rule: my_key_preds.induct)
  case (3 p ps k ks)
  then show ?case by (cases "my_quote_string_value k"; cases "my_key_preds ps ks") (auto simp: my_key_pred_def)
qed auto

lemma my_column_fail:
  "my_column_value model ob name = Inl e \<Longrightarrow> \<exists>s. dget ob name = Some (PStr s) \<and> my_quote_string_value s = Inl e"
proof (cases "dget ob name")
  case (Some v)
  assume "my_column_value model ob name = Inl e"
  with Some show ?thesis by (cases v; cases "my_quote_value v") (auto simp: my_column_value_def)
qed (simp add: my_column_value_def)

lemma my_quote_string_fail: "my_quote_string_value s = Inl e \<Longrightarrow> looks_like_json_ts s \<and> json_ts s = Inl e"
  by (cases "json_ts s") (auto simp: my_quote_string_value_def split: if_splits)

section \<open>Properties\<close>

text \<open>C21: MySQL reads every statement as it is meant. For any event, if the names of the table, its columns and
  its primary keys have no backtick, the statement \<open>to_sql\<close> builds is cut by the server into exactly the intended tokens, whatever quotes, backslashes
  and control characters the values contain: every string value is one literal that denotes that very string, or the
  normalised date and time if it is a JSON timestamp. \<open>to_sql\<close> fails only for a deletion with too few keys, for an
  object that does not parse, and for a value that has the form of a timestamp but is not a valid one.\<close>

theorem mysql_statement_reads:
  assumes "my_ident_ok (ev_table c)" "list_all my_ident_ok (columns model)" "list_all my_ident_ok (s_primary_keys model)"
  shows "case my_to_sql c model of
           Inr sql \<Rightarrow> lex_sql my_dialect sql = Some (my_event_toks c model)
         | Inl e \<Rightarrow>
             (\<exists>s. looks_like_json_ts s \<and> json_ts s = Inl e) \<or>
             (if ev_operation c = ''DELETE'' then length (or_empty (ev_key c)) < length (s_primary_keys model)
              else fst (get_object c) = Inl e)"
proof (cases "ev_operation c = ''DELETE''")
  case True
  show ?thesis
  proof (cases "my_key_preds (s_primary_keys model) (or_empty (ev_key c))")
    case (Inl e)
    with True my_key_preds_fail [OF Inl] show ?thesis
      by (auto simp: my_to_sql_def dest: my_quote_string_fail)
  next
    case (Inr preds)
    from my.delete_reads [OF assms(1) my_key_preds_read [OF Inr assms(3)]] show ?thesis
      by (simp only: my_to_sql_def my_event_toks_def True simp_thms if_True Inr andthen_simps sum.case)
  qed
next
  case False
  show ?thesis
  proof (cases "object_or_empty c")
    case (Inl e)
    then have "fst (get_object c) = Inl e" by (cases "fst (get_object c)") (auto simp: object_or_empty_def)
    with False Inl show ?thesis by (simp add: my_to_sql_def)
  next
    case (Inr ob)
    show ?thesis
    proof (cases "mapM (my_column_value model ob) (columns model)")
      case (Inl e)
      then obtain n where "my_column_value model ob n = Inl e" using mapM_Inl by fastforce
      with Inl False Inr show ?thesis
        by (auto simp: my_to_sql_def my_to_sql_from_object_def dest!: my_column_fail my_quote_string_fail)
    next
      case vals: (Inr vals)
      from mapM_reads [OF my_column_reads vals] have "list_all2 (reads my_dialect) vals (map (my_col_toks model ob) (columns model))" .
      from my_replace_lexes [OF assms(1,2) this] show ?thesis
        by (simp only: my_to_sql_def my_to_sql_from_object_def my_event_toks_def False if_False Inr vals andthen_simps sum.case)
    qed
  qed
qed

theorem mysql_statement_reads_witness:
  "let c = sample_event ''INSERT'' ''t'' [''a''] (Some (''{'' @ [DQ] @ ''id'' @ [DQ] @ '':'' @ [DQ] @ ''a'' @ [SQ, DQ] @ ''}''))
   in my_ident_ok (ev_table c) \<and> list_all my_ident_ok (columns sample_schema) \<and> list_all my_ident_ok (s_primary_keys sample_schema) \<and>
      (case my_to_sql c sample_schema of
         Inr sql \<Rightarrow> lex_sql my_dialect sql = Some (my_event_toks c sample_schema)
       | Inl e \<Rightarrow>
           (\<exists>s. looks_like_json_ts s \<and> json_ts s = Inl e) \<or>
           (if ev_operation c = ''DELETE'' then length (or_empty (ev_key c)) < length (s_primary_keys sample_schema)
            else fst (get_object c) = Inl e))"
proof -
  let ?c = "sample_event ''INSERT'' ''t'' [''a''] (Some (''{'' @ [DQ] @ ''id'' @ [DQ] @ '':'' @ [DQ] @ ''a'' @ [SQ, DQ] @ ''}''))"
  have ok: "my_ident_ok (ev_table ?c)" "list_all my_ident_ok (columns sample_schema)" "list_all my_ident_ok (s_primary_keys sample_schema)"
    by code_simp+
  show ?thesis unfolding Let_def using ok mysql_statement_reads [OF ok] by blast
qed

end
