(* ===== verification/MsSql.thy ===== *)
theory MsSql
  imports Sql
begin

text \<open>
  The SQL Server text builders, \<open>src/eds/drivers/sqlserver/sql.py\<close>: bracketed identifiers, the hybrid
  string escaping, the \<open>MERGE\<close> upsert with its coercions of inserted values, deletes, the audit
  statements, tables, views and migration. Values are those that JSON gives; the \<open>datetime\<close> branch of
  \<open>quote_value\<close> is not reachable from it and is left out, like the connection string builder.
\<close>

section \<open>Quoting\<close>

definition ms_quote_identifier :: "string \<Rightarrow> string" where
  "ms_quote_identifier val = CHR ''['' # val @ [CHR '']'']"

definition MS_ESCAPE :: "(char \<times> string) list" where
  "MS_ESCAPE =
     [(NUL, [BS, CHR ''0'']), (NL, [BS, CHR ''n'']), (CR, [BS, CHR ''r'']), (CHR 0x1A, [BS, CHR ''Z'']),
      (SQ, [SQ, SQ]), (DQ, [BS, DQ]), (BS, [BS, BS])]"

definition ms_escape_char :: "char \<Rightarrow> string" where
  "ms_escape_char c = (case map_of MS_ESCAPE c of Some e \<Rightarrow> e | None \<Rightarrow> [c])"

definition ms_escape_string :: "string \<Rightarrow> string" where
  "ms_escape_string s = concat (map ms_escape_char s)"

definition ms_quote_string_value :: "string \<Rightarrow> string res" where
  "ms_quote_string_value v =
     (if looks_like_json_ts v then andthen (json_ts v) (\<lambda>t. Inr (SQ # t @ [SQ]))
      else Inr (SQ # ms_escape_string v @ [SQ]))"

fun ms_quote_value :: "pyval \<Rightarrow> string res" where
  "ms_quote_value PNone = Inr ''NULL''"
| "ms_quote_value (PBool b) = Inr (if b then ''1'' else ''0'')"
| "ms_quote_value (PFloat f) = Inr (format_g f)"
| "ms_quote_value (PInt i) = Inr (str_int i)"
| "ms_quote_value (PStr s) = ms_quote_string_value s"
| "ms_quote_value (PRaw s) = Inr (SQ # ms_escape_string s @ [SQ])"
| "ms_quote_value (PBytes b) = Inr (''_binary'' @ [SQ] @ ms_escape_string (latin1 b) @ [SQ])"
| "ms_quote_value v = Inr (SQ # ms_escape_string (stringify v) @ [SQ])"

section \<open>Statements\<close>

definition handle_schema_property :: "schema_property \<Rightarrow> string \<Rightarrow> string" where
  "handle_schema_property prop v =
     (let t = sp_type prop in
      if t = ''object'' then v
      else if t = ''boolean'' then
        if lower v = ''true'' \<or> v = ''1'' then ''1''
        else if (\<not> sp_nullable prop \<and> v = '''') \<or> lower v = ''false'' \<or> lower v = ''null'' then ''0''
        else v
      else if t = ''integer'' then if v = ''NULL'' then ''0'' else v
      else if t = ''array'' then if \<not> sp_nullable prop \<and> v = ''NULL'' then [SQ, SQ] else v
      else v)"

text \<open>
  \<open>str\<close> of the \<open>id\<close> of an object, as the f-string takes it. A list or a dictionary is written with the
  \<open>repr\<close> of its parts; in the \<open>repr\<close> of a string, characters beyond ASCII stay as they are, as Python
  leaves the printable ones. Any other constructor is no value that \<open>json.loads\<close> returns.
\<close>

definition repr_char :: "char \<Rightarrow> char \<Rightarrow> string" where
  "repr_char quote c =
     (if c = quote \<or> c = BS then [BS, c]
      else if c = CHR 0x09 then [BS, CHR ''t'']
      else if c = NL then [BS, CHR ''n'']
      else if c = CR then [BS, CHR ''r'']
      else if of_char c < (32::nat) \<or> of_char c = (127::nat) then [BS, CHR ''x'', hexd (of_char c div 16), hexd (of_char c mod 16)]
      else [c])"

definition repr_str :: "string \<Rightarrow> string" where
  "repr_str s =
     (let quote = (if SQ \<in> set s \<and> DQ \<notin> set s then DQ else SQ)
      in quote # concat (map (repr_char quote) s) @ [quote])"

fun py_repr :: "pyval \<Rightarrow> string" where
  "py_repr (PStr s) = repr_str s"
| "py_repr (PFloat f) = float_repr f"
| "py_repr (PInt i) = str_int i"
| "py_repr (PBool b) = (if b then ''True'' else ''False'')"
| "py_repr PNone = ''None''"
| "py_repr (PList vs) = ''['' @ join '', '' (map py_repr vs) @ '']''"
| "py_repr (PDict d) = ''{'' @ join '', '' (map (\<lambda>(k, v). repr_str k @ '': '' @ py_repr v) d) @ ''}''"
| "py_repr (PRaw s) = s"
| "py_repr (PStruct fs) = []"
| "py_repr (PBytes s) = s"
| "py_repr (POther s) = s"

definition id_text :: "pyval \<Rightarrow> string" where
  "id_text v = (case v of PStr s \<Rightarrow> s | _ \<Rightarrow> py_repr v)"

definition ms_update_value :: "schema \<Rightarrow> pydict \<Rightarrow> string \<Rightarrow> string res" where
  "ms_update_value model ob name =
     (case dget ob name of
        Some v \<Rightarrow> andthen (ms_quote_value v) (\<lambda>t.
          Inr (ms_quote_identifier name @ ''='' @ to_json_string_val name t (prop_of model name) False))
      | None \<Rightarrow> Inr (ms_quote_identifier name @ ''='' @ ''NULL''))"

definition ms_update_names :: "schema \<Rightarrow> string list option \<Rightarrow> string list" where
  "ms_update_names model diff =
     filter (\<lambda>name. name \<in> set (columns model) \<and> name \<noteq> ''id'')
       (if or_empty diff \<noteq> [] then or_empty diff else columns model)"

definition ms_insert_value :: "schema \<Rightarrow> pydict \<Rightarrow> string \<Rightarrow> string res" where
  "ms_insert_value model ob name =
     (case dget ob name of
        Some v \<Rightarrow> andthen (ms_quote_value v) (\<lambda>t.
          let w = to_json_string_val name t (prop_of model name) False
          in Inr (if name \<noteq> ''id'' then handle_schema_property (prop_of model name) w else w))
      | None \<Rightarrow> Inr (handle_schema_property (prop_of model name) ''NULL''))"

definition ms_merge_sql :: "schema \<Rightarrow> string \<Rightarrow> string \<Rightarrow> string list \<Rightarrow> string list \<Rightarrow> string" where
  "ms_merge_sql model table ident update_values insert_vals =
     ''MERGE '' @ ms_quote_identifier table @ '' AS target USING (VALUES('' @ [SQ] @ ident @ [SQ] @ '')) AS source (id) '' @
     ''ON target.id=source.id'' @
     (if update_values \<noteq> [] then '' WHEN MATCHED THEN UPDATE SET '' @ join '','' update_values else '''') @
     '' WHEN NOT MATCHED THEN INSERT ('' @ csv ms_quote_identifier (columns model) @ '') VALUES ('' @
     join '','' insert_vals @ '');''"

definition ms_to_sql_from_object :: "schema \<Rightarrow> string \<Rightarrow> pydict \<Rightarrow> string list option \<Rightarrow> string res" where
  "ms_to_sql_from_object model table ob diff =
     andthen (mapM (ms_update_value model ob) (ms_update_names model diff)) (\<lambda>update_values.
     andthen (mapM (ms_insert_value model ob) (columns model)) (\<lambda>insert_vals.
       case dget ob ''id'' of
         None \<Rightarrow> Inl (KeyError ''id'')
       | Some v \<Rightarrow> Inr (ms_merge_sql model table (id_text v) update_values insert_vals)))"

fun ms_key_preds :: "string list \<Rightarrow> string list \<Rightarrow> string list res" where
  "ms_key_preds [] ks = Inr []"
| "ms_key_preds (p # ps) [] = Inl IndexError"
| "ms_key_preds (p # ps) (k # ks) =
     andthen (ms_quote_value (PStr k)) (\<lambda>t.
     andthen (ms_key_preds ps ks) (\<lambda>ts. Inr ((ms_quote_identifier p @ ''='' @ t) # ts)))"

definition ms_to_sql :: "db_change_event \<Rightarrow> schema \<Rightarrow> string res" where
  "ms_to_sql c model =
     (if ev_operation c = ''DELETE'' then
        andthen (ms_key_preds (s_primary_keys model) (or_empty (ev_key c))) (\<lambda>preds.
          Inr (''DELETE FROM '' @ ms_quote_identifier (ev_table c) @ '' WHERE '' @ join '' AND '' preds @ '';'' @ [NL]))
      else andthen (object_or_empty c) (\<lambda>ob. ms_to_sql_from_object model (ev_table c) ob (ev_diff c)))"

section \<open>Tables, migration\<close>

definition ms_prop_type_to_sql_type :: "schema_property \<Rightarrow> bool \<Rightarrow> string" where
  "ms_prop_type_to_sql_type prop is_primary_key =
     (let t = sp_type prop in
      if t = ''string'' then if is_primary_key then ''VARCHAR(64)'' else ''NVARCHAR(MAX)''
      else if t = ''integer'' then ''BIGINT''
      else if t = ''number'' then ''FLOAT''
      else if t = ''boolean'' then ''BIT''
      else if t = ''object'' then ''NVARCHAR(MAX)''
      else if t = ''array'' then
        (case sp_items prop of Some i \<Rightarrow> if it_enum i \<noteq> None then ''VARCHAR(64)'' else ''NVARCHAR(MAX)''
         | None \<Rightarrow> ''NVARCHAR(MAX)'')
      else ''NVARCHAR(MAX)'')"

definition ms_column_line :: "schema \<Rightarrow> (string \<Rightarrow> bool) \<Rightarrow> string \<Rightarrow> string" where
  "ms_column_line s not_null name =
     [TAB] @ ms_quote_identifier name @ '' '' @
     ms_prop_type_to_sql_type (prop_of s name) (name \<in> set (s_primary_keys s)) @
     (if not_null name then '' NOT NULL'' else '''') @ '','' @ [NL]"

definition ms_create_sql :: "schema \<Rightarrow> string" where
  "ms_create_sql s =
     (let table = ms_quote_identifier (s_table s);
          body = concat (map (ms_column_line s (required_not_null s)) (columns s)) @
            (if s_primary_keys s \<noteq> []
             then [TAB] @ ''PRIMARY KEY ('' @ join '', '' (map ms_quote_identifier (s_primary_keys s)) @ '')'' else '''')
      in ''DROP TABLE IF EXISTS '' @ table @ '';'' @ [NL] @ ''CREATE TABLE '' @ table @ '' ('' @ [NL] @ body @ [NL] @ '')'')"

definition ms_alter :: "schema \<Rightarrow> string \<Rightarrow> string" where
  "ms_alter s column =
     ''ALTER TABLE '' @ ms_quote_identifier (s_table s) @ '' ADD '' @ ms_quote_identifier column @ '' '' @
     ms_prop_type_to_sql_type (prop_of s column) False @ '';''"

definition ms_add_new_columns_sql :: "string list \<Rightarrow> schema \<Rightarrow> database_schema \<Rightarrow> string list" where
  "ms_add_new_columns_sql cols s db =
     map (ms_alter s) (filter (\<lambda>column. \<not> fst (get_type db (s_table s) column)) cols)"

section \<open>Audit mode\<close>

definition ms_append_vals :: "db_change_event \<Rightarrow> schema \<Rightarrow> string list res" where
  "ms_append_vals c model =
     (if ev_operation c = ''DELETE'' then
        mapM (\<lambda>name. if name \<in> set (s_primary_keys model)
                      then andthen (key_at (or_empty (ev_key c)) (index_of name (s_primary_keys model)))
                             (\<lambda>k. ms_quote_value (PStr k))
                      else Inr ''NULL'') (columns model)
      else andthen (object_or_empty c) (\<lambda>ob.
        mapM (\<lambda>name. case dget ob name of
                        Some v \<Rightarrow> andthen (ms_quote_value v) (\<lambda>t. Inr (to_json_string_val name t (prop_of model name) False))
                      | None \<Rightarrow> Inr ''NULL'') (columns model)))"

definition ms_to_append_sql :: "db_change_event \<Rightarrow> schema \<Rightarrow> string res" where
  "ms_to_append_sql c model =
     andthen (ms_append_vals c model) (\<lambda>vals.
     andthen (ms_quote_value (PStr (ev_operation c))) (\<lambda>op.
       Inr (''INSERT INTO '' @ ms_quote_identifier (ev_table c) @ '' ('' @
            csv ms_quote_identifier (columns model @ [EDS_OPERATION, EDS_MVCC, EDS_TIMESTAMP]) @ '') VALUES ('' @
            join '','' (vals @ [op, if ev_mvcc_timestamp c \<noteq> '''' then ev_mvcc_timestamp c else ''NULL'',
                                str_int (ev_timestamp c)]) @ '');'' @ [NL])))"

definition ms_create_append_sql :: "schema \<Rightarrow> string" where
  "ms_create_append_sql s =
     (let table = ms_quote_identifier (s_table s);
          body = concat (map (ms_column_line s (\<lambda>name. name \<in> set (s_primary_keys s))) (columns s)) @
            [TAB] @ ms_quote_identifier EDS_SEQ @ '' BIGINT IDENTITY(1,1) PRIMARY KEY,'' @ [NL] @
            [TAB] @ ms_quote_identifier EDS_OPERATION @ '' NVARCHAR(16) NOT NULL,'' @ [NL] @
            [TAB] @ ms_quote_identifier EDS_MVCC @ '' DECIMAL(38,10),'' @ [NL] @
            [TAB] @ ms_quote_identifier EDS_TIMESTAMP @ '' BIGINT,'' @ [NL] @
            [TAB] @ ms_quote_identifier EDS_APPENDED_AT @ '' DATETIME2(6) NOT NULL DEFAULT SYSUTCDATETIME()'';
          idx_cols = csv ms_quote_identifier (s_primary_keys s) @ '', '' @
            join '', '' (map (\<lambda>n. ms_quote_identifier n @ '' DESC'') [EDS_MVCC, EDS_TIMESTAMP, EDS_SEQ]);
          idx = ms_quote_identifier (''ix_'' @ s_table s @ ''_id_mvcc'')
      in ''DROP VIEW IF EXISTS '' @ ms_quote_identifier (s_table s @ ''_timeline'') @ '';'' @ [NL] @
         ''DROP VIEW IF EXISTS '' @ ms_quote_identifier (s_table s @ ''_current'') @ '';'' @ [NL] @
         ''DROP TABLE IF EXISTS '' @ table @ '';'' @ [NL] @
         ''CREATE TABLE '' @ table @ '' ('' @ [NL] @ body @ [NL] @ '')'' @ [NL] @
         ''CREATE INDEX '' @ idx @ '' ON '' @ table @ '' ('' @ idx_cols @ '')'')"

definition ms_create_current_view_sql :: "schema \<Rightarrow> string" where
  "ms_create_current_view_sql s =
     (let obj_csv = csv ms_quote_identifier (columns s);
          partition = csv ms_quote_identifier (s_primary_keys s);
          order_by = join '', '' (map (\<lambda>n. ms_quote_identifier n @ '' DESC'') [EDS_MVCC, EDS_TIMESTAMP, EDS_SEQ])
      in ''CREATE VIEW '' @ ms_quote_identifier (s_table s @ ''_current'') @ '' AS'' @ [NL] @
         ''SELECT '' @ obj_csv @ [NL] @
         ''FROM ('' @ [NL] @
         [TAB] @ ''SELECT '' @ obj_csv @ '','' @ ms_quote_identifier EDS_OPERATION @ '','' @ [NL] @
         [TAB, TAB] @ ''ROW_NUMBER() OVER ('' @ [NL] @
         [TAB, TAB, TAB] @ ''PARTITION BY '' @ partition @ [NL] @
         [TAB, TAB, TAB] @ ''ORDER BY '' @ order_by @ [NL] @
         [TAB, TAB] @ '') AS _eds_rn'' @ [NL] @
         [TAB] @ ''FROM '' @ ms_quote_identifier (s_table s) @ [NL] @
         '') AS ranked'' @ [NL] @
         ''WHERE _eds_rn = 1 AND '' @ ms_quote_identifier EDS_OPERATION @ '' <> '' @ [SQ] @ ''DELETE'' @ [SQ])"

definition ms_create_timeline_view_sql :: "schema \<Rightarrow> string" where
  "ms_create_timeline_view_sql s =
     (let obj_csv = csv ms_quote_identifier (columns s);
          partition = csv ms_quote_identifier (s_primary_keys s);
          order_by = join '', '' (map (\<lambda>n. ms_quote_identifier n @ '' ASC'') [EDS_MVCC, EDS_TIMESTAMP, EDS_SEQ])
      in ''CREATE VIEW '' @ ms_quote_identifier (s_table s @ ''_timeline'') @ '' AS'' @ [NL] @
         ''SELECT '' @ obj_csv @ '','' @ ms_quote_identifier EDS_OPERATION @ '','' @ [NL] @
         [TAB] @ ms_quote_identifier EDS_MVCC @ '' AS valid_from,'' @ [NL] @
         [TAB] @ ''LEAD('' @ ms_quote_identifier EDS_MVCC @ '') OVER ('' @ [NL] @
         [TAB, TAB] @ ''PARTITION BY '' @ partition @ [NL] @
         [TAB, TAB] @ ''ORDER BY '' @ order_by @ [NL] @
         [TAB] @ '') AS valid_to'' @ [NL] @
         ''FROM '' @ ms_quote_identifier (s_table s))"

definition ms_drop_views_sql :: "schema \<Rightarrow> string list" where
  "ms_drop_views_sql s =
     [''DROP VIEW IF EXISTS '' @ ms_quote_identifier (s_table s @ ''_timeline'') @ '';'',
      ''DROP VIEW IF EXISTS '' @ ms_quote_identifier (s_table s @ ''_current'') @ '';'']"

section \<open>How SQL Server reads the statements\<close>

text \<open>
  Transact-SQL quotes identifiers by brackets. A string literal ends at the first quote that is not
  doubled, and a backslash in it is an ordinary character.
\<close>

definition ms_dialect :: dialect where
  "ms_dialect = \<lparr>d_open = CHR ''['', d_close = CHR '']'', d_unescape = None, d_tag = None\<rparr>"

definition ms_ident_ok :: "string \<Rightarrow> bool" where
  "ms_ident_ok n \<longleftrightarrow> CHR '']'' \<notin> set n"

text \<open>The string the server stores for an escaped string: the backslash sequences stay in it.\<close>

definition ms_stored_char :: "char \<Rightarrow> string" where
  "ms_stored_char c = (if c = SQ then [SQ] else ms_escape_char c)"

definition ms_stored :: "string \<Rightarrow> string" where
  "ms_stored s = concat (map ms_stored_char s)"

lemma ms_dialect_ok: "dialect_ok ms_dialect"
  by (simp add: dialect_ok_def ms_dialect_def)

lemma ms_escape_char_cases:
  "c = SQ \<and> ms_escape_char c = [SQ, SQ] \<or> c \<noteq> SQ \<and> SQ \<notin> set (ms_escape_char c)"
  by (simp add: ms_escape_char_def MS_ESCAPE_def)

lemma ms_escape_spells: "spells None SQ (ms_escape_string s) (ms_stored s)"
  unfolding ms_escape_string_def ms_stored_def
proof (rule spells_map)
  fix c
  show "spells None SQ (ms_escape_char c) (ms_stored_char c)"
    using ms_escape_char_cases [of c] spells_doubled [of None SQ] by (auto simp: ms_stored_char_def intro!: spells_plain)
qed

interpretation ms: sql_dialect ms_dialect ms_quote_identifier ms_ident_ok "\<lambda>n. n"
  "\<lambda>s. SQ # ms_escape_string s @ [SQ]" "\<lambda>s. True" ms_stored
proof unfold_locales
  show "dialect_ok ms_dialect" by (rule ms_dialect_ok)
  show "reads ms_dialect (ms_quote_identifier n) [Ident n]" if "ms_ident_ok n" for n
    using that reads_ident [of ms_dialect n n] spells_plain [of "CHR '']''" n None]
    by (simp add: ms_quote_identifier_def ms_dialect_def ms_ident_ok_def)
  show "reads ms_dialect (SQ # ms_escape_string s @ [SQ]) [Lit (ms_stored s)]" for s
    by (rule reads_lit [OF ms_dialect_ok]) (simp add: ms_dialect_def ms_escape_spells)
qed

definition ms_string :: "string \<Rightarrow> string" where
  "ms_string s = (if looks_like_json_ts s then case json_ts s of Inr t \<Rightarrow> t | Inl _ \<Rightarrow> s else ms_stored s)"

fun ms_value_toks :: "pyval \<Rightarrow> tok list" where
  "ms_value_toks PNone = chars ''NULL''"
| "ms_value_toks (PBool b) = chars (if b then ''1'' else ''0'')"
| "ms_value_toks (PFloat f) = chars (format_g f)"
| "ms_value_toks (PInt i) = chars (str_int i)"
| "ms_value_toks (PStr s) = [Lit (ms_string s)]"
| "ms_value_toks (PRaw s) = [Lit (ms_stored s)]"
| "ms_value_toks (PBytes b) = chars ''_binary'' @ [Lit (ms_stored (latin1 b))]"
| "ms_value_toks v = [Lit (ms_stored (stringify v))]"

lemma ms_string_reads:
  assumes "ms_quote_string_value s = Inr t"
  shows "reads ms_dialect t [Lit (ms_string s)] \<and> scalar_safe t"
proof (cases "looks_like_json_ts s")
  case True
  with assms obtain u where u: "json_ts s = Inr u" "t = SQ # u @ [SQ]"
    by (auto simp: ms_quote_string_value_def andthen_Inr_conv)
  with json_ts_plain [OF u(1)] have "reads ms_dialect t [Lit u]"
    by (auto intro!: reads_lit [OF ms_dialect_ok] spells_plain)
  with True u show ?thesis by (simp add: ms_string_def scalar_safe_def)
next
  case False
  with assms ms.lit_reads [of s] show ?thesis
    by (auto simp: ms_quote_string_value_def ms_string_def scalar_safe_def)
qed

lemma ms_value_reads:
  assumes "ms_quote_value v = Inr t"
  shows "reads ms_dialect t (ms_value_toks v) \<and> scalar_safe t"
proof (cases v)
  case (PStr s)
  with assms ms_string_reads show ?thesis by simp
next
  case (PBytes b)
  have "reads ms_dialect (''_binary'' @ SQ # ms_escape_string (latin1 b) @ [SQ]) (chars ''_binary'' @ [Lit (ms_stored (latin1 b))])"
    by (intro reads_text_append ms_dialect_ok ms.lit_reads) (simp_all add: neutral_def)
  with PBytes assms show ?thesis by (auto simp: scalar_safe_def)
next
  case (PBool b)
  with assms show ?thesis by (cases b) (auto simp: scalar_safe_def simp del: list.map intro!: ms.words_read)
qed (use assms ms.lit_reads in \<open>auto simp: scalar_safe_def simp del: list.map intro!: ms.words_read\<close>)

definition ms_text :: "pyval \<Rightarrow> string" where
  "ms_text v = (case ms_quote_value v of Inr t \<Rightarrow> t | Inl _ \<Rightarrow> '''')"

definition ms_update_toks :: "schema \<Rightarrow> pydict \<Rightarrow> string \<Rightarrow> tok list" where
  "ms_update_toks model ob name =
     Ident name # Ch (CHR ''='') #
     (case dget ob name of
        Some v \<Rightarrow> col_toks (prop_of model name) False (ms_text v) (ms_value_toks v)
      | None \<Rightarrow> chars ''NULL'')"

text \<open>A coerced value is 1, 0, an empty literal, or what it was.\<close>

definition ms_coerced_toks :: "schema_property \<Rightarrow> string \<Rightarrow> tok list \<Rightarrow> tok list" where
  "ms_coerced_toks prop t ts =
     (let t' = handle_schema_property prop t in
      if t' = t then ts else if t' = [SQ, SQ] then [Lit ''''] else chars t')"

definition ms_insert_toks :: "schema \<Rightarrow> pydict \<Rightarrow> string \<Rightarrow> tok list" where
  "ms_insert_toks model ob name =
     (case dget ob name of
        Some v \<Rightarrow>
          (let ts = col_toks (prop_of model name) False (ms_text v) (ms_value_toks v)
           in if name = ''id'' then ts
              else ms_coerced_toks (prop_of model name) (to_json_string_val name (ms_text v) (prop_of model name) False) ts)
      | None \<Rightarrow> ms_coerced_toks (prop_of model name) ''NULL'' (chars ''NULL''))"

lemma handle_schema_property_cases:
  "handle_schema_property prop t \<in> {t, ''0'', ''1'', [SQ, SQ]}"
  by (auto simp: handle_schema_property_def Let_def)

lemma ms_empty_reads: "reads ms_dialect [SQ, SQ] [Lit '''']"
  using reads_lit [OF ms_dialect_ok spells_Nil] by simp

lemma ms_coerced_reads:
  assumes "reads ms_dialect t ts"
  shows "reads ms_dialect (handle_schema_property prop t) (ms_coerced_toks prop t ts)"
  using assms handle_schema_property_cases [of "prop" t] ms.words_read [of "''0''"] ms.words_read [of "''1''"] ms_empty_reads
  by (auto simp: ms_coerced_toks_def Let_def)

lemma ms_update_reads:
  assumes "ms_update_value model ob name = Inr t" "ms_ident_ok name"
  shows "reads ms_dialect t (ms_update_toks model ob name)"
proof (cases "dget ob name")
  case None
  have "reads ms_dialect (ms_quote_identifier name @ ''='' @ ''NULL'') (Ident name # Ch (CHR ''='') # chars ''NULL'')"
    by (rule ms.assign_reads [OF assms(2)]) (rule ms.words_read, simp)
  with None assms(1) show ?thesis by (auto simp: ms_update_value_def ms_update_toks_def)
next
  case (Some v)
  with assms(1) obtain u where u: "ms_quote_value v = Inr u"
    "t = ms_quote_identifier name @ ''='' @ to_json_string_val name u (prop_of model name) False"
    by (auto simp: ms_update_value_def andthen_Inr_conv)
  from ms_value_reads [OF u(1)] have "reads ms_dialect (to_json_string_val name u (prop_of model name) False)
      (col_toks (prop_of model name) False u (ms_value_toks v))"
    by (auto intro!: to_json_string_val_reads [OF ms_dialect_ok])
  from ms.assign_reads [OF assms(2) this] Some u show ?thesis
    by (simp add: ms_update_toks_def ms_text_def)
qed

lemma ms_insert_reads:
  assumes "ms_insert_value model ob name = Inr t"
  shows "reads ms_dialect t (ms_insert_toks model ob name)"
proof (cases "dget ob name")
  case None
  with assms show ?thesis
    by (auto simp: ms_insert_value_def ms_insert_toks_def simp del: list.map intro!: ms_coerced_reads ms.words_read)
next
  case (Some v)
  with assms obtain u where u: "ms_quote_value v = Inr u"
    "t = (let w = to_json_string_val name u (prop_of model name) False in if name \<noteq> ''id'' then handle_schema_property (prop_of model name) w else w)"
    by (auto simp: ms_insert_value_def andthen_Inr_conv Let_def)
  from ms_value_reads [OF u(1)] have "reads ms_dialect (to_json_string_val name u (prop_of model name) False)
      (col_toks (prop_of model name) False u (ms_value_toks v))"
    by (auto intro!: to_json_string_val_reads [OF ms_dialect_ok])
  with Some u show ?thesis by (auto simp: ms_insert_toks_def ms_text_def Let_def intro: ms_coerced_reads)
qed

lemma ms_key_preds_read:
  assumes "ms_key_preds ps ks = Inr ts" "list_all ms_ident_ok ps"
  shows "list_all2 (reads ms_dialect) ts (map (\<lambda>(pk, k). [Ident pk, Ch (CHR ''=''), Lit (ms_string k)]) (zip ps ks))"
  using assms
proof (induction ps ks arbitrary: ts rule: ms_key_preds.induct)
  case (3 p ps k ks)
  then obtain v ts' where v: "ms_quote_string_value k = Inr v" and ts: "ts = (ms_quote_identifier p @ ''='' @ v) # ts'"
    "ms_key_preds ps ks = Inr ts'"
    by (auto simp: andthen_Inr_conv)
  have "reads ms_dialect (ms_quote_identifier p @ ''='' @ v) [Ident p, Ch (CHR ''=''), Lit (ms_string k)]"
    using "3.prems" ms_string_reads [OF v] by (intro ms.assign_reads) auto
  with 3 ts v show ?case by simp
qed auto

definition ms_merge_toks :: "schema \<Rightarrow> string \<Rightarrow> string \<Rightarrow> pydict \<Rightarrow> string list option \<Rightarrow> tok list" where
  "ms_merge_toks model table ident ob diff =
     chars ''MERGE '' @ [Ident table] @ chars '' AS target USING (VALUES('' @ [Lit ident] @
     chars '')) AS source (id) ON target.id=source.id'' @
     (if ms_update_names model diff = [] then []
      else chars '' WHEN MATCHED THEN UPDATE SET '' @
           tok_join '','' (map (ms_update_toks model ob) (ms_update_names model diff))) @
     chars '' WHEN NOT MATCHED THEN INSERT ('' @ tok_join '','' (map (\<lambda>n. [Ident n]) (columns model)) @
     chars '') VALUES ('' @ tok_join '','' (map (ms_insert_toks model ob) (columns model)) @ chars '');''"

definition ms_event_toks :: "db_change_event \<Rightarrow> schema \<Rightarrow> tok list" where
  "ms_event_toks c model =
     (if ev_operation c = ''DELETE'' then
        chars ''DELETE FROM '' @ [Ident (ev_table c)] @ chars '' WHERE '' @
        tok_join '' AND '' (map (\<lambda>(pk, k). [Ident pk, Ch (CHR ''=''), Lit (ms_string k)])
                              (zip (s_primary_keys model) (or_empty (ev_key c)))) @ chars ('';'' @ [NL])
      else case object_or_empty c of
             Inl e \<Rightarrow> []
           | Inr ob \<Rightarrow>
               (case dget ob ''id'' of
                  Some v \<Rightarrow> ms_merge_toks model (ev_table c) (id_text v) ob (ev_diff c)
                | None \<Rightarrow> []))"

text \<open>The text of the identifier of the object, when it has one, has no quote.\<close>

definition ms_id_ok :: "db_change_event \<Rightarrow> bool" where
  "ms_id_ok c \<longleftrightarrow>
     (case object_or_empty c of
        Inl e \<Rightarrow> True
      | Inr ob \<Rightarrow> (case dget ob ''id'' of
                   Some v \<Rightarrow> SQ \<notin> set (id_text v)
                 | None \<Rightarrow> True))"

lemma ms_merge_lexes:
  assumes "ms_ident_ok table" "list_all ms_ident_ok (columns model)" "SQ \<notin> set ident"
    and u: "list_all2 (reads ms_dialect) us (map (ms_update_toks model ob) (ms_update_names model diff))"
    and i: "list_all2 (reads ms_dialect) ins (map (ms_insert_toks model ob) (columns model))"
  shows "lex_sql ms_dialect (ms_merge_sql model table ident us ins) = Some (ms_merge_toks model table ident ob diff)"
proof -
  let ?ut = "map (ms_update_toks model ob) (ms_update_names model diff)"
  have e: "us = [] \<longleftrightarrow> ms_update_names model diff = []" using u by (auto dest: list_all2_lengthD)
  let ?upd = "if us = [] then [] else [Txt '' WHEN MATCHED THEN UPDATE SET '', Item (join '','' us) (tok_join '','' ?ut)]"
  let ?ps = "[Txt ''MERGE '', Item (ms_quote_identifier table) [Ident table], Txt '' AS target USING (VALUES('',
      Item (SQ # ident @ [SQ]) [Lit ident], Txt '')) AS source (id) ON target.id=source.id''] @ ?upd @
     [Txt '' WHEN NOT MATCHED THEN INSERT ('', Item (csv ms_quote_identifier (columns model)) (tok_join '','' (map (\<lambda>n. [Ident n]) (columns model))),
      Txt '') VALUES ('', Item (join '','' ins) (tok_join '','' (map (ms_insert_toks model ob) (columns model))), Txt '');'']"
  have "reads ms_dialect (SQ # ident @ [SQ]) [Lit ident]"
    using assms(3) by (intro reads_lit [OF ms_dialect_ok] spells_plain) (simp_all add: ms_dialect_def)
  then have "parts_ok ms_dialect ?ps"
    using ms.ident_reads [OF assms(1)] ms.idents_read [OF assms(2)] ms.values_read [OF u] ms.values_read [OF i]
    by (simp add: neutral_def)
  moreover have "ms_merge_sql model table ident us ins = concat (map part_text ?ps)" by (simp add: ms_merge_sql_def)
  ultimately have "lex_sql ms_dialect (ms_merge_sql model table ident us ins) = Some (concat (map part_toks ?ps))"
    by (rule ms.statement_reads)
  then show ?thesis using e by (simp add: ms_merge_toks_def)
qed

section \<open>Properties\<close>

text \<open>C22: SQL Server reads the statements of the stream as they are meant, if the text of the object's \<open>id\<close> has no quote
  and the table, its columns and its keys have no closing bracket in their names. Whatever the other values contain, the
  statement \<open>to_sql\<close> builds is cut by the server into the intended tokens: one literal for each string value, one
  inserted value for each column in column order, and one assignment for each changed column of the table other than
  \<open>id\<close>. The audit statements and those for tables are not covered.\<close>

theorem mssql_statement_reads:
  assumes "ms_ident_ok (ev_table c)" "list_all ms_ident_ok (columns model)" "list_all ms_ident_ok (s_primary_keys model)"
    and "ms_id_ok c" "ms_to_sql c model = Inr sql"
  shows "lex_sql ms_dialect sql = Some (ms_event_toks c model)"
proof (cases "ev_operation c = ''DELETE''")
  case True
  with assms(5) obtain preds where p: "ms_key_preds (s_primary_keys model) (or_empty (ev_key c)) = Inr preds"
    and sql: "sql = ''DELETE FROM '' @ ms_quote_identifier (ev_table c) @ '' WHERE '' @ join '' AND '' preds @ '';'' @ [NL]"
    by (auto simp: ms_to_sql_def andthen_Inr_conv)
  from ms.delete_reads [OF assms(1) ms_key_preds_read [OF p assms(3)]] show ?thesis
    by (simp only: sql ms_event_toks_def True simp_thms if_True)
next
  case False
  with assms(5) obtain ob us ins v where ob: "object_or_empty c = Inr ob"
    and us: "mapM (ms_update_value model ob) (ms_update_names model (ev_diff c)) = Inr us"
    and ins: "mapM (ms_insert_value model ob) (columns model) = Inr ins"
    and v: "dget ob ''id'' = Some v"
    and sql: "sql = ms_merge_sql model (ev_table c) (id_text v) us ins"
    by (auto simp: ms_to_sql_def ms_to_sql_from_object_def andthen_Inr_conv split: option.splits)
  have names: "ms_ident_ok n" if "n \<in> set (ms_update_names model (ev_diff c))" for n
    using that assms(2) by (auto simp: ms_update_names_def list_all_iff)
  have "SQ \<notin> set (id_text v)" using assms(4) ob v by (simp add: ms_id_ok_def)
  from ms_merge_lexes [OF assms(1,2) this mapM_reads [OF ms_update_reads [OF _ names] us] mapM_reads [OF ms_insert_reads ins]]
  show ?thesis using False ob v sql by (simp add: ms_event_toks_def)
qed

theorem mssql_statement_reads_witness:
  "let c = sample_event ''INSERT'' ''t'' [''a''] (Some (''{'' @ [DQ] @ ''id'' @ [DQ] @ '':'' @ [DQ] @ ''a'' @ [DQ] @ ''}''))
   in ms_ident_ok (ev_table c) \<and> list_all ms_ident_ok (columns sample_schema) \<and> list_all ms_ident_ok (s_primary_keys sample_schema) \<and>
      ms_id_ok c \<and>
      (case ms_to_sql c sample_schema of Inr sql \<Rightarrow> lex_sql ms_dialect sql = Some (ms_event_toks c sample_schema) | Inl e \<Rightarrow> False)"
proof -
  let ?c = "sample_event ''INSERT'' ''t'' [''a''] (Some (''{'' @ [DQ] @ ''id'' @ [DQ] @ '':'' @ [DQ] @ ''a'' @ [DQ] @ ''}''))"
  have ok: "ms_ident_ok (ev_table ?c)" "list_all ms_ident_ok (columns sample_schema)"
    "list_all ms_ident_ok (s_primary_keys sample_schema)" "ms_id_ok ?c"
    by code_simp+
  have "\<not> isl (ms_to_sql ?c sample_schema)" by code_simp
  then obtain sql where "ms_to_sql ?c sample_schema = Inr sql" by (cases "ms_to_sql ?c sample_schema") auto
  with mssql_statement_reads [OF ok this] ok show ?thesis by (simp add: Let_def)
qed

text \<open>The \<open>id\<close> is not escaped in the \<open>MERGE\<close>. An identifier with a quote ends its literal early, and the rest of
  it is read as SQL.\<close>

theorem mssql_id_breakout:
  "let ident = ''x'' @ [SQ] @ '')) AS source (id) ON 1=0; DROP TABLE t; SELECT ('' @ [SQ] in
   lex_sql ms_dialect (ms_merge_sql empty_schema ''t'' ident [] []) =
     Some (chars ''MERGE '' @ [Ident ''t''] @ chars '' AS target USING (VALUES('' @ [Lit ''x''] @
           chars '')) AS source (id) ON 1=0; DROP TABLE t; SELECT ('' @ [Lit ''''] @
           chars '')) AS source (id) ON target.id=source.id WHEN NOT MATCHED THEN INSERT () VALUES ();'')"
  by code_simp

definition ms_special :: "char \<Rightarrow> bool" where
  "ms_special c \<longleftrightarrow> c \<in> {NUL, NL, CR, CHR 0x1A, DQ, BS}"

lemma ms_stored_char_plain: "\<not> ms_special c \<Longrightarrow> ms_stored_char c = [c]"
  by (simp add: ms_special_def ms_stored_char_def ms_escape_char_def MS_ESCAPE_def)

lemma ms_stored_char_length: "length (ms_stored_char c) = (if ms_special c then 2 else 1)"
  by (simp add: ms_special_def ms_stored_char_def ms_escape_char_def MS_ESCAPE_def)

lemma ms_stored_length: "length (ms_stored s) = length s + length (filter ms_special s)"
  by (induction s) (simp_all add: ms_stored_def ms_stored_char_length)

lemma ms_stored_plain: "filter ms_special s = [] \<Longrightarrow> ms_stored s = s"
  by (induction s) (simp_all add: ms_stored_def ms_stored_char_plain split: if_splits)

text \<open>The stored text. SQL Server keeps the backslash sequences that the escaping writes, so a string is stored as
  it is exactly if it has no NUL, line feed, carriage return, substitute, double quote or backslash; any other
  string is stored as a longer one.\<close>

theorem mssql_string_altered:
  "lex_sql ms_dialect (SQ # ms_escape_string s @ [SQ]) = Some [Lit (ms_stored s)] \<and>
   length (ms_stored s) = length s + length (filter (\<lambda>c. c \<in> {NUL, NL, CR, CHR 0x1A, DQ, BS}) s) \<and>
   (ms_stored s = s \<longleftrightarrow> filter (\<lambda>c. c \<in> {NUL, NL, CR, CHR 0x1A, DQ, BS}) s = [])"
proof -
  have f: "filter (\<lambda>c. c \<in> {NUL, NL, CR, CHR 0x1A, DQ, BS}) s = filter ms_special s"
    by (rule filter_cong) (simp_all only: ms_special_def)
  have "lex_sql ms_dialect (SQ # ms_escape_string s @ [SQ]) = Some [Lit (ms_stored s)]"
    by (rule reads_lex [OF ms.lit_reads]) simp
  moreover have "ms_stored s = s \<longleftrightarrow> filter ms_special s = []"
    using ms_stored_length [of s] ms_stored_plain [of s] by fastforce
  ultimately show ?thesis unfolding f using ms_stored_length by blast
qed

end
