(* ===== verification/Sink.thy ===== *)
theory Sink
  imports Prelude
begin

text \<open>
  What the consumer relies on in a driver that buffers: \<open>process\<close> accepts an event by adding one item to the
  buffer, and a \<open>flush\<close> that returns normally has made the whole buffer durable and emptied it. The locale
  \<open>sink\<close> states this, \<open>keeping_sink\<close> adds that a failed flush keeps the buffer. The lemmas about whole runs,
  in which calls fail at will, are proved here once; the SQL drivers and the Snowflake driver interpret them.
\<close>

text \<open>A run of a driver: \<open>Some i\<close> is a call of \<open>process\<close>, \<open>None\<close> a call of \<open>flush\<close>. The second component collects
  the batches that were made durable, the third the items that were accepted.\<close>

fun sink_run ::
    "('i \<Rightarrow> 's \<Rightarrow> bool res \<times> 's) \<Rightarrow> ('s \<Rightarrow> unit res \<times> 's) \<Rightarrow> ('s \<Rightarrow> 'x list) \<Rightarrow> 'i option list \<Rightarrow> 's \<Rightarrow> 's \<times> 'x list list \<times> 'x list" where
  "sink_run put flush buf [] s = (s, [], [])"
| "sink_run put flush buf (Some i # cs) s =
     (case put i s of
        (Inr _, s1) \<Rightarrow> (case sink_run put flush buf cs s1 of (s2, durable, acc) \<Rightarrow> (s2, durable, last (buf s1) # acc))
      | (Inl _, s1) \<Rightarrow> sink_run put flush buf cs s1)"
| "sink_run put flush buf (None # cs) s =
     (case flush s of
        (Inr _, s1) \<Rightarrow> (case sink_run put flush buf cs s1 of (s2, durable, acc) \<Rightarrow> (s2, buf s # durable, acc))
      | (Inl _, s1) \<Rightarrow> sink_run put flush buf cs s1)"

locale sink =
  fixes put :: "'i \<Rightarrow> 's \<Rightarrow> bool res \<times> 's" and flush :: "'s \<Rightarrow> unit res \<times> 's"
    and buf :: "'s \<Rightarrow> 'x list" and inv :: "'s \<Rightarrow> bool"
  assumes put_inv: "inv s \<Longrightarrow> inv (snd (put i s))"
    and put_ok: "inv s \<Longrightarrow> put i s = (Inr b, s') \<Longrightarrow> \<exists>x. buf s' = buf s @ [x]"
    and put_fail: "inv s \<Longrightarrow> put i s = (Inl e, s') \<Longrightarrow> buf s' = buf s"
    and flush_inv: "inv s \<Longrightarrow> inv (snd (flush s))"
    and flush_ok: "inv s \<Longrightarrow> flush s = (Inr u, s') \<Longrightarrow> buf s' = []"
    and flush_fail: "inv s \<Longrightarrow> flush s = (Inl e, s') \<Longrightarrow> buf s' \<in> {[], buf s}"
begin

lemma run_inv: "inv s \<Longrightarrow> inv (fst (sink_run put flush buf cs s))"
proof (induction cs arbitrary: s)
  case (Cons c cs)
  show ?case
  proof (cases c)
    case None
    obtain r s1 where f: "flush s = (r, s1)" by fastforce
    with Cons.IH [of s1] flush_inv [OF Cons.prems] have "inv (fst (sink_run put flush buf cs s1))" by simp
    with None f show ?thesis by (cases r) (simp_all add: case_prod_unfold)
  next
    case (Some i)
    obtain r s1 where p: "put i s = (r, s1)" by fastforce
    with Cons.IH [of s1] put_inv [OF Cons.prems, of i] have "inv (fst (sink_run put flush buf cs s1))" by simp
    with Some p show ?thesis by (cases r) (simp_all add: case_prod_unfold)
  qed
qed simp

text \<open>Nothing is made durable twice or out of order: what is durable, and then what is still buffered, is a
  subsequence of what was buffered and accepted.\<close>

lemma run_subseq:
  "inv s \<Longrightarrow> sink_run put flush buf cs s = (s', durable, acc) \<Longrightarrow> subseq (concat durable @ buf s') (buf s @ acc)"
proof (induction cs arbitrary: s s' durable acc)
  case (Cons c cs)
  show ?case
  proof (cases c)
    case c: None
    obtain r s1 where f: "flush s = (r, s1)" by fastforce
    have i: "inv s1" using flush_inv [OF Cons.prems(1)] f by simp
    obtain s2 d a where r: "sink_run put flush buf cs s1 = (s2, d, a)" by (cases "sink_run put flush buf cs s1")
    note IH = Cons.IH [OF i r]
    show ?thesis
    proof (cases r)
      case (Inl e)
      with f flush_fail Cons.prems(1) have "buf s1 = [] \<or> buf s1 = buf s" by blast
      moreover have "s' = s2" "durable = d" "acc = a" using Cons.prems(2) c f Inl r by auto
      ultimately show ?thesis using IH by (auto intro: subseq_order.trans list_emb_append2)
    next
      case (Inr u)
      with f flush_ok Cons.prems(1) have "buf s1 = []" by blast
      moreover have "s' = s2" "durable = buf s # d" "acc = a" using Cons.prems(2) c f Inr r by auto
      ultimately show ?thesis using IH by (auto intro: list_emb_append_mono)
    qed
  next
    case c: (Some i)
    obtain r s1 where p: "put i s = (r, s1)" by fastforce
    have inv: "inv s1" using put_inv [OF Cons.prems(1), of i] p by simp
    obtain s2 d a where r: "sink_run put flush buf cs s1 = (s2, d, a)" by (cases "sink_run put flush buf cs s1")
    note IH = Cons.IH [OF inv r]
    show ?thesis
    proof (cases r)
      case (Inl e)
      with IH p c r put_fail [OF Cons.prems(1), of i e s1] Cons.prems(2) show ?thesis by auto
    next
      case (Inr b)
      with p put_ok Cons.prems(1) obtain x where "buf s1 = buf s @ [x]" by blast
      with IH Cons.prems(2) p c Inr r show ?thesis by auto
    qed
  qed
qed simp

end

locale keeping_sink = sink +
  assumes flush_keep: "inv s \<Longrightarrow> flush s = (Inl e, s') \<Longrightarrow> buf s' = buf s"
begin

text \<open>With a buffer that survives a failed flush, every accepted item is durable or still buffered, once and in order.\<close>

lemma run_exact:
  "inv s \<Longrightarrow> sink_run put flush buf cs s = (s', durable, acc) \<Longrightarrow> concat durable @ buf s' = buf s @ acc"
proof (induction cs arbitrary: s s' durable acc)
  case (Cons c cs)
  show ?case
  proof (cases c)
    case c: None
    obtain r s1 where f: "flush s = (r, s1)" by fastforce
    have i: "inv s1" using flush_inv [OF Cons.prems(1)] f by simp
    obtain s2 d a where r: "sink_run put flush buf cs s1 = (s2, d, a)" by (cases "sink_run put flush buf cs s1")
    with Cons.IH [OF i r] Cons.prems c f flush_keep flush_ok show ?thesis by (cases r) auto
  next
    case c: (Some i)
    obtain r s1 where p: "put i s = (r, s1)" by fastforce
    have inv: "inv s1" using put_inv [OF Cons.prems(1), of i] p by simp
    obtain s2 d a where r: "sink_run put flush buf cs s1 = (s2, d, a)" by (cases "sink_run put flush buf cs s1")
    note IH = Cons.IH [OF inv r]
    show ?thesis
    proof (cases r)
      case (Inl e)
      with IH p c r put_fail [OF Cons.prems(1), of i e s1] Cons.prems(2) show ?thesis by auto
    next
      case (Inr b)
      with p put_ok Cons.prems(1) obtain x where "buf s1 = buf s @ [x]" by blast
      with IH Cons.prems(2) p c Inr r show ?thesis by auto
    qed
  qed
qed simp

end

end
