(* ===== verification/SqlBase.thy ===== *)
theory SqlBase
  imports PgSql MySqlText MsSql Sink
begin

text \<open>
  The orchestration that the PostgreSQL, MySQL and SQL Server drivers share,
  \<open>src/eds/drivers/sql_base.py\<close>, and the three drivers, \<open>src/eds/drivers/*/driver.py\<close>, as the hooks they
  supply. The database behind the \<open>SqlDb\<close> seam and the schema registry are operations on an abstract world
  \<open>'w\<close>; every call may fail. The executor that an import uses is the seam's import executor. Locks are
  left out: each operation runs under the driver's lock, so operations do not overlap.
\<close>

section \<open>The seams\<close>

record 'w db_ops =
  o_get_table_version :: "string \<Rightarrow> 'w \<Rightarrow> (bool \<times> string) res \<times> 'w"
  o_get_schema :: "string \<Rightarrow> string \<Rightarrow> 'w \<Rightarrow> schema res \<times> 'w"
  o_open :: "string \<Rightarrow> 'w \<Rightarrow> unit res \<times> 'w"
  o_close :: "'w \<Rightarrow> 'w"
  o_query_single_value :: "string \<Rightarrow> 'w \<Rightarrow> string res \<times> 'w"
  o_build_schema :: "string \<Rightarrow> string \<Rightarrow> bool \<Rightarrow> 'w \<Rightarrow> database_schema res \<times> 'w"
  o_execute_in_transaction :: "string \<Rightarrow> 'w \<Rightarrow> unit res \<times> 'w"
  o_exec :: "string \<Rightarrow> 'w \<Rightarrow> unit res \<times> 'w"
  o_drop_table :: "string \<Rightarrow> 'w \<Rightarrow> unit res \<times> 'w"
  o_import_exec :: "bool \<Rightarrow> string \<Rightarrow> 'w \<Rightarrow> unit res \<times> 'w"

record hooks =
  h_db_name_function :: string
  h_schema_column :: string
  h_quote_identifier :: "string \<Rightarrow> string"
  h_to_sql :: "db_change_event \<Rightarrow> schema \<Rightarrow> string res"
  h_to_append_sql :: "db_change_event \<Rightarrow> schema \<Rightarrow> string res"
  h_create_append_table_sql :: "schema \<Rightarrow> string"
  h_create_current_view_sql :: "schema \<Rightarrow> string"
  h_create_timeline_view_sql :: "schema \<Rightarrow> string"
  h_drop_views_sql :: "schema \<Rightarrow> string list"
  h_to_sql_from_object :: "string \<Rightarrow> schema \<Rightarrow> string \<Rightarrow> pydict \<Rightarrow> string list option \<Rightarrow> string res"
  h_create_table_sql :: "schema \<Rightarrow> string"
  h_add_new_columns_sql :: "string list \<Rightarrow> schema \<Rightarrow> database_schema \<Rightarrow> string list"
  h_connection_string :: "string \<Rightarrow> string res"
  h_max_batch_size :: nat
  h_default_port :: int
  h_scheme :: string

text \<open>The connection string of PostgreSQL is built by the URL component; here it is a parameter.\<close>

definition postgresql_driver :: "(string \<Rightarrow> string res) \<Rightarrow> hooks" where
  "postgresql_driver connection_string =
     \<lparr>h_db_name_function = ''current_database()'', h_schema_column = ''table_catalog'',
      h_quote_identifier = pg_quote_identifier, h_to_sql = pg_to_sql, h_to_append_sql = pg_to_append_sql,
      h_create_append_table_sql = pg_create_append_sql, h_create_current_view_sql = pg_create_current_view_sql,
      h_create_timeline_view_sql = pg_create_timeline_view_sql, h_drop_views_sql = pg_drop_views_sql,
      h_to_sql_from_object = (\<lambda>op s t ob d. Inr (pg_to_sql_from_object op s t ob d)),
      h_create_table_sql = pg_create_sql, h_add_new_columns_sql = pg_add_new_columns_sql,
      h_connection_string = connection_string, h_max_batch_size = 500, h_default_port = 5432, h_scheme = ''postgres''\<rparr>"

definition mysql_driver :: hooks where
  "mysql_driver =
     \<lparr>h_db_name_function = ''DATABASE()'', h_schema_column = ''table_schema'',
      h_quote_identifier = my_quote_identifier, h_to_sql = my_to_sql, h_to_append_sql = my_to_append_sql,
      h_create_append_table_sql = my_create_append_sql, h_create_current_view_sql = my_create_current_view_sql,
      h_create_timeline_view_sql = my_create_timeline_view_sql, h_drop_views_sql = my_drop_views_sql,
      h_to_sql_from_object = my_to_sql_from_object,
      h_create_table_sql = my_create_sql, h_add_new_columns_sql = my_add_new_columns_sql,
      h_connection_string = Inr, h_max_batch_size = 500, h_default_port = 3306, h_scheme = ''mysql''\<rparr>"

definition sqlserver_driver :: hooks where
  "sqlserver_driver =
     \<lparr>h_db_name_function = ''DB_NAME()'', h_schema_column = ''table_catalog'',
      h_quote_identifier = ms_quote_identifier, h_to_sql = ms_to_sql, h_to_append_sql = ms_to_append_sql,
      h_create_append_table_sql = ms_create_append_sql, h_create_current_view_sql = ms_create_current_view_sql,
      h_create_timeline_view_sql = ms_create_timeline_view_sql, h_drop_views_sql = ms_drop_views_sql,
      h_to_sql_from_object = (\<lambda>op s t ob d. ms_to_sql_from_object s t ob d),
      h_create_table_sql = ms_create_sql, h_add_new_columns_sql = ms_add_new_columns_sql,
      h_connection_string = Inr, h_max_batch_size = 500, h_default_port = 1433, h_scheme = ''sqlserver''\<rparr>"

record driver_config =
  dc_url :: string
  dc_append :: bool

record importer_config =
  ic_url :: string
  ic_data_dir :: string
  ic_dry_run :: bool
  ic_tables :: "string list"
  ic_single :: bool
  ic_schema_only :: bool
  ic_no_delete :: bool
  ic_recovery_enabled :: bool
  ic_run_id :: string

section \<open>State\<close>

record 'w sql_driver =
  sd_world :: 'w
  sd_db :: bool
  sd_registry :: bool
  sd_pending :: "string list"
  sd_count :: nat
  sd_size :: nat
  sd_dbname :: string
  sd_dbschema :: database_schema
  sd_import :: "importer_config option"
  sd_stopped :: bool
  sd_append :: bool

definition new_sql_driver :: "'w \<Rightarrow> 'w sql_driver" where
  "new_sql_driver w =
     \<lparr>sd_world = w, sd_db = False, sd_registry = False, sd_pending = [], sd_count = 0, sd_size = 0, sd_dbname = '''',
      sd_dbschema = [], sd_import = None, sd_stopped = False, sd_append = False\<rparr>"

definition MAX_BYTES_SIZE_INSERT :: nat where "MAX_BYTES_SIZE_INSERT = 5000000"

definition on_db :: "('w \<Rightarrow> 'a \<times> 'w) \<Rightarrow> 'w sql_driver \<Rightarrow> 'a \<times> 'w sql_driver" where
  "on_db f d = (case f (sd_world d) of (r, w) \<Rightarrow> (r, d\<lparr>sd_world := w\<rparr>))"

text \<open>\<open>raise ValueError(f"...{e}")\<close> around a call.\<close>

definition wrapping :: "string \<Rightarrow> 'a res \<times> 's \<Rightarrow> 'a res \<times> 's" where
  "wrapping m r = (map_exc (\<lambda>e. ValueError (m @ exc_str e)) (fst r), snd r)"

section \<open>Lifecycle\<close>

definition refresh_schema :: "'w db_ops \<Rightarrow> hooks \<Rightarrow> bool \<Rightarrow> 'w sql_driver \<Rightarrow> unit res \<times> 'w sql_driver" where
  "refresh_schema ops h fail_if_empty d =
     andthen_st
       (if sd_dbname d = '''' then
          andthen_st (wrapping ''error getting current database name: '' (on_db (o_query_single_value ops (h_db_name_function h)) d))
            (\<lambda>n d1. (Inr (), d1\<lparr>sd_dbname := n\<rparr>))
        else (Inr (), d))
       (\<lambda>_ d2.
          andthen_st (wrapping ''error building database schema: ''
              (on_db (o_build_schema ops (h_schema_column h) (sd_dbname d2) fail_if_empty) d2))
            (\<lambda>s d3. (Inr (), d3\<lparr>sd_dbschema := s\<rparr>)))"

definition connect_to_db :: "'w db_ops \<Rightarrow> hooks \<Rightarrow> string \<Rightarrow> 'w sql_driver \<Rightarrow> unit res \<times> 'w sql_driver" where
  "connect_to_db ops h url d =
     (case h_connection_string h url of
        Inl e \<Rightarrow> (Inl e, d)
      | Inr conninfo \<Rightarrow>
          andthen_st (on_db (o_open ops conninfo) d) (\<lambda>_ d1.
            case refresh_schema ops h False d1 of
              (Inl e, d2) \<Rightarrow> (Inl e, d2\<lparr>sd_world := o_close ops (sd_world d2)\<rparr>)
            | (Inr _, d2) \<Rightarrow> (Inr (), d2)))"

definition sql_start :: "'w db_ops \<Rightarrow> hooks \<Rightarrow> driver_config \<Rightarrow> 'w sql_driver \<Rightarrow> unit res \<times> 'w sql_driver" where
  "sql_start ops h config d =
     andthen_st (connect_to_db ops h (dc_url config) (d\<lparr>sd_registry := True, sd_append := dc_append config\<rparr>))
       (\<lambda>_ d1. (Inr (), d1\<lparr>sd_db := True\<rparr>))"

definition sql_stop :: "'w db_ops \<Rightarrow> 'w sql_driver \<Rightarrow> 'w sql_driver" where
  "sql_stop ops d =
     (if sd_stopped d then d
      else if sd_db d then d\<lparr>sd_stopped := True, sd_world := o_close ops (sd_world d), sd_db := False\<rparr>
      else d\<lparr>sd_stopped := True\<rparr>)"

definition sql_test :: "'w db_ops \<Rightarrow> hooks \<Rightarrow> string \<Rightarrow> 'w sql_driver \<Rightarrow> unit res \<times> 'w sql_driver" where
  "sql_test ops h url d =
     andthen_st (connect_to_db ops h url d) (\<lambda>_ d1. (Inr (), d1\<lparr>sd_world := o_close ops (sd_world d1)\<rparr>))"

section \<open>Streaming\<close>

text \<open>The statement of an event under the version the registry has for its table.\<close>

definition event_sql :: "'w db_ops \<Rightarrow> hooks \<Rightarrow> db_change_event \<Rightarrow> 'w sql_driver \<Rightarrow> string res \<times> 'w sql_driver" where
  "event_sql ops h event d =
     andthen_st (wrapping (''unable to get table version for table: '' @ ev_table event @ '': '')
         (on_db (o_get_table_version ops (ev_table event)) d)) (\<lambda>found_version d1.
     andthen_st (wrapping (''unable to get schema for table: '' @ ev_table event @ '' ('' @ snd found_version @ ''). '')
         (on_db (o_get_schema ops (ev_table event) (snd found_version)) d1)) (\<lambda>schema d2.
       ((if sd_append d2 then h_to_append_sql h else h_to_sql h) event schema, d2)))"

definition sql_process :: "'w db_ops \<Rightarrow> hooks \<Rightarrow> db_change_event \<Rightarrow> 'w sql_driver \<Rightarrow> bool res \<times> 'w sql_driver" where
  "sql_process ops h event d =
     (if \<not> sd_registry d then (Inl AssertionError, d)
      else andthen_st (event_sql ops h event d) (\<lambda>sql d1.
        (Inr False, d1\<lparr>sd_pending := sd_pending d1 @ [sql], sd_count := sd_count d1 + 1\<rparr>)))"

definition sql_flush :: "'w db_ops \<Rightarrow> 'w sql_driver \<Rightarrow> unit res \<times> 'w sql_driver" where
  "sql_flush ops d =
     (if \<not> sd_db d then (Inl AssertionError, d)
      else andthen_st
        (if sd_count d > 0 then on_db (o_execute_in_transaction ops (concat (sd_pending d))) d else (Inr (), d))
        (\<lambda>_ d1. (Inr (), d1\<lparr>sd_pending := [], sd_count := 0\<rparr>)))"

section \<open>Migration\<close>

fun exec_all :: "'w db_ops \<Rightarrow> string list \<Rightarrow> 'w sql_driver \<Rightarrow> unit res \<times> 'w sql_driver" where
  "exec_all ops [] d = (Inr (), d)"
| "exec_all ops (s # ss) d = andthen_st (on_db (o_exec ops s) d) (\<lambda>_ d1. exec_all ops ss d1)"

definition migrate_new_table :: "'w db_ops \<Rightarrow> hooks \<Rightarrow> schema \<Rightarrow> 'w sql_driver \<Rightarrow> unit res \<times> 'w sql_driver" where
  "migrate_new_table ops h s d =
     (if \<not> sd_db d then (Inl AssertionError, d)
      else if sd_append d then
        andthen_st (exec_all ops [h_create_append_table_sql h s, h_create_current_view_sql h s, h_create_timeline_view_sql h s] d)
          (\<lambda>_ d1. refresh_schema ops h True d1)
      else
        andthen_st (if s_table s \<in> set (dkeys (sd_dbschema d))
                    then on_db (o_drop_table ops (h_quote_identifier h (s_table s))) d else (Inr (), d)) (\<lambda>_ d1.
        andthen_st (exec_all ops [h_create_table_sql h s] d1) (\<lambda>_ d2. refresh_schema ops h True d2)))"

definition migrate_new_columns ::
    "'w db_ops \<Rightarrow> hooks \<Rightarrow> schema \<Rightarrow> string list \<Rightarrow> 'w sql_driver \<Rightarrow> unit res \<times> 'w sql_driver" where
  "migrate_new_columns ops h s cols d =
     (if \<not> sd_db d then (Inl AssertionError, d)
      else if sd_append d then
        andthen_st (exec_all ops (h_drop_views_sql h s) d) (\<lambda>_ d1.
        andthen_st (exec_all ops (h_add_new_columns_sql h cols s (sd_dbschema d1)) d1) (\<lambda>_ d2.
        andthen_st (exec_all ops [h_create_current_view_sql h s, h_create_timeline_view_sql h s] d2) (\<lambda>_ d3.
          refresh_schema ops h True d3)))
      else
        andthen_st (exec_all ops (h_add_new_columns_sql h cols s (sd_dbschema d)) d) (\<lambda>_ d1. refresh_schema ops h True d1))"

definition get_destination_schema :: "'w sql_driver \<Rightarrow> database_schema" where
  "get_destination_schema d = sd_dbschema d"

section \<open>Import\<close>

definition run_executor :: "'w db_ops \<Rightarrow> importer_config \<Rightarrow> string \<Rightarrow> 'w sql_driver \<Rightarrow> unit res \<times> 'w sql_driver" where
  "run_executor ops config sql d = on_db (o_import_exec ops (ic_dry_run config) sql) d"

fun create_tables ::
    "'w db_ops \<Rightarrow> hooks \<Rightarrow> importer_config \<Rightarrow> (string \<times> schema) list \<Rightarrow> string list \<Rightarrow> 'w sql_driver \<Rightarrow> unit res \<times> 'w sql_driver" where
  "create_tables ops h config schemas [] d = (Inr (), d)"
| "create_tables ops h config schemas (table # tables) d =
     (case dget schemas table of
        None \<Rightarrow> (Inl (KeyError table), d)
      | Some data \<Rightarrow>
          andthen_st (wrapping (''error creating table: '' @ table @ ''. '')
              (run_executor ops config (h_create_table_sql h data) d))
            (\<lambda>_ d1. create_tables ops h config schemas tables d1))"

definition create_datasource ::
    "'w db_ops \<Rightarrow> hooks \<Rightarrow> (string \<times> schema) list \<Rightarrow> 'w sql_driver \<Rightarrow> unit res \<times> 'w sql_driver" where
  "create_datasource ops h schemas d =
     (case sd_import d of
        None \<Rightarrow> (Inl AssertionError, d)
      | Some config \<Rightarrow> create_tables ops h config schemas (ic_tables config) d)"

definition flush_import :: "'w db_ops \<Rightarrow> 'w sql_driver \<Rightarrow> unit res \<times> 'w sql_driver" where
  "flush_import ops d =
     (case sd_import d of
        None \<Rightarrow> (Inl AssertionError, d)
      | Some config \<Rightarrow>
          andthen_st (wrapping ''unable to execute sql: '' (run_executor ops config (concat (sd_pending d)) d))
            (\<lambda>_ d1. (Inr (), d1\<lparr>sd_pending := [], sd_size := 0\<rparr>)))"

definition import_event ::
    "'w db_ops \<Rightarrow> hooks \<Rightarrow> db_change_event \<Rightarrow> schema \<Rightarrow> 'w sql_driver \<Rightarrow> unit res \<times> 'w sql_driver" where
  "import_event ops h event data d =
     (case sd_import d of
        None \<Rightarrow> (Inl AssertionError, d)
      | Some config \<Rightarrow>
          (case andthen (object_or_empty event) (\<lambda>ob. h_to_sql_from_object h ''INSERT'' data (ev_table event) ob None) of
             Inl e \<Rightarrow> (Inl e, d)
           | Inr sql \<Rightarrow>
               let d1 = d\<lparr>sd_pending := sd_pending d @ [sql], sd_count := sd_count d + 1, sd_size := sd_size d + length sql\<rparr>
               in if MAX_BYTES_SIZE_INSERT \<le> sd_size d1 \<or> ic_single config then flush_import ops d1 else (Inr (), d1)))"

definition import_completed :: "'w db_ops \<Rightarrow> 'w sql_driver \<Rightarrow> unit res \<times> 'w sql_driver" where
  "import_completed ops d =
     (case sd_import d of
        None \<Rightarrow> (Inl AssertionError, d)
      | Some config \<Rightarrow>
          if sd_size d > 0
          then wrapping ''unable to execute sql: '' (run_executor ops config (concat (sd_pending d)) d)
          else (Inr (), d))"

definition flush_imported :: "'w db_ops \<Rightarrow> 'w sql_driver \<Rightarrow> unit res \<times> 'w sql_driver" where
  "flush_imported ops d = (if sd_size d > 0 then flush_import ops d else (Inr (), d))"

text \<open>\<open>run_import\<close>, with the importer's run loop as an argument.\<close>

definition run_import ::
    "'w db_ops \<Rightarrow> hooks \<Rightarrow> ('w sql_driver \<Rightarrow> unit res \<times> 'w sql_driver) \<Rightarrow> importer_config \<Rightarrow> 'w sql_driver \<Rightarrow> unit res \<times> 'w sql_driver" where
  "run_import ops h importer_run config d =
     andthen_st (connect_to_db ops h (ic_url config) (d\<lparr>sd_registry := True\<rparr>)) (\<lambda>_ d1.
       case importer_run (d1\<lparr>sd_db := True, sd_import := Some config, sd_pending := [], sd_count := 0, sd_size := 0\<rparr>) of
         (r, d2) \<Rightarrow> (r, d2\<lparr>sd_world := o_close ops (sd_world d2), sd_db := False\<rparr>))"

section \<open>The drivers as sinks\<close>

text \<open>What the calls leave alone: the world is all that a call through the seams changes.\<close>

lemma on_db_simps [simp]:
  "sd_pending (snd (on_db f d)) = sd_pending d" "sd_count (snd (on_db f d)) = sd_count d" "sd_size (snd (on_db f d)) = sd_size d"
  "sd_import (snd (on_db f d)) = sd_import d" "sd_db (snd (on_db f d)) = sd_db d" "sd_registry (snd (on_db f d)) = sd_registry d"
  "sd_append (snd (on_db f d)) = sd_append d"
  by (simp_all add: on_db_def split: prod.splits)

lemma wrapping_snd [simp]: "snd (wrapping m r) = snd r"
  by (simp add: wrapping_def)

lemma snd_andthen_st:
  "P (snd r) \<Longrightarrow> (\<And>x s. fst r = Inr x \<Longrightarrow> s = snd r \<Longrightarrow> P (snd (f x s))) \<Longrightarrow> P (snd (andthen_st r f))"
  by (cases r; cases "fst r") auto

definition stream_inv :: "'w sql_driver \<Rightarrow> bool" where
  "stream_inv d \<longleftrightarrow> sd_count d = length (sd_pending d)"

definition same_buffers :: "'w sql_driver \<Rightarrow> 'w sql_driver \<Rightarrow> bool" where
  "same_buffers d d' \<longleftrightarrow> sd_pending d' = sd_pending d \<and> sd_count d' = sd_count d \<and> sd_size d' = sd_size d \<and> sd_import d' = sd_import d"

lemma same_buffers_on_db: "same_buffers d0 d \<Longrightarrow> same_buffers d0 (snd (on_db f d))"
  by (simp add: same_buffers_def)

lemma event_sql_buffers: "same_buffers d (snd (event_sql ops h event d))"
  unfolding event_sql_def
  by (intro snd_andthen_st [where P = "same_buffers d"]) (simp_all add: same_buffers_on_db same_buffers_def)

lemma sql_process_cases:
  obtains (fail) e d' where "sql_process ops h event d = (Inl e, d')" "same_buffers d d'"
  | (ok) sql d1 where "sql_process ops h event d =
      (Inr False, d1\<lparr>sd_pending := sd_pending d @ [sql], sd_count := sd_count d + 1\<rparr>)" "same_buffers d d1"
      "event_sql ops h event d = (Inr sql, d1)"
proof (cases "sd_registry d")
  case False
  then show thesis by (intro fail) (simp_all add: sql_process_def same_buffers_def)
next
  case True
  obtain r d1 where e: "event_sql ops h event d = (r, d1)" by fastforce
  have s: "same_buffers d d1" using event_sql_buffers [of d ops h event] e by simp
  show thesis
  proof (cases r)
    case (Inl x)
    with e s True show thesis by (intro fail [of x d1]) (simp_all add: sql_process_def)
  next
    case (Inr sql)
    with e s True show thesis by (intro ok [of sql d1]) (simp_all add: sql_process_def same_buffers_def)
  qed
qed

lemma sql_flush_cases:
  obtains (fail) e d' where "sql_flush ops d = (Inl e, d')" "same_buffers d d'"
  | (ok) d1 where "sql_flush ops d = (Inr (), d1\<lparr>sd_pending := [], sd_count := 0\<rparr>)" "same_buffers d d1"
proof (cases "sd_db d \<and> sd_count d > 0")
  case True
  obtain r d1 where e: "on_db (o_execute_in_transaction ops (concat (sd_pending d))) d = (r, d1)" by fastforce
  have s: "same_buffers d d1" using same_buffers_on_db [of d d] e by (simp add: same_buffers_def) (metis on_db_simps(1-4) snd_conv)
  show thesis
  proof (cases r)
    case (Inl x)
    with e s True show thesis by (intro fail [of x d1]) (simp_all add: sql_flush_def)
  next
    case (Inr u)
    with e s True show thesis by (intro ok [of d1]) (simp_all add: sql_flush_def)
  qed
next
  case False
  then show thesis
    using fail [of AssertionError d] ok [of d] by (cases "sd_db d") (auto simp: sql_flush_def same_buffers_def)
qed

interpretation sqls: keeping_sink "sql_process ops h" "sql_flush ops" sd_pending stream_inv for ops h
proof unfold_locales
  fix d d' :: "'a sql_driver" and event b u e
  assume inv: "stream_inv d"
  show "stream_inv (snd (sql_process ops h event d))"
    using inv by (cases rule: sql_process_cases [of ops h event d]) (simp_all add: stream_inv_def same_buffers_def)
  show "stream_inv (snd (sql_flush ops d))"
    using inv by (cases rule: sql_flush_cases [of ops d]) (simp_all add: stream_inv_def same_buffers_def)
  show "\<exists>x. sd_pending d' = sd_pending d @ [x]" if "sql_process ops h event d = (Inr b, d')"
    using that by (cases rule: sql_process_cases [of ops h event d]) auto
  show "sd_pending d' = sd_pending d" if "sql_process ops h event d = (Inl e, d')"
    using that by (cases rule: sql_process_cases [of ops h event d]) (auto simp: same_buffers_def)
  show "sd_pending d' = []" if "sql_flush ops d = (Inr u, d')"
    using that by (cases rule: sql_flush_cases [of ops d]) auto
  show "sd_pending d' = sd_pending d" if "sql_flush ops d = (Inl e, d')"
    using that by (cases rule: sql_flush_cases [of ops d]) (auto simp: same_buffers_def)
  then show "sd_pending d' \<in> {[], sd_pending d}" if "sql_flush ops d = (Inl e, d')"
    using that by simp
qed

text \<open>With the invariant, the test of \<open>_count\<close> in \<open>flush\<close> is a test for an empty buffer.\<close>

lemma sql_flush_transaction:
  assumes "stream_inv d" "sd_db d"
  shows "sql_flush ops d =
    (if sd_pending d = [] then (Inr (), d)
     else case o_execute_in_transaction ops (concat (sd_pending d)) (sd_world d) of
            (Inl e, w) \<Rightarrow> (Inl e, d\<lparr>sd_world := w\<rparr>)
          | (Inr u, w) \<Rightarrow> (Inr (), d\<lparr>sd_world := w, sd_pending := [], sd_count := 0\<rparr>))"
  using assms by (cases d) (auto simp: sql_flush_def stream_inv_def on_db_def split: prod.splits sum.splits)

text \<open>The buffer of an import: its size in bytes, and the executor it goes to.\<close>

definition import_inv :: "importer_config \<Rightarrow> 'w sql_driver \<Rightarrow> bool" where
  "import_inv config d \<longleftrightarrow> sd_import d = Some config \<and> sd_size d = length (concat (sd_pending d))"

text \<open>One call of \<open>import_event\<close> or \<open>flush_imported\<close>: the texts the executor was given, and which of them it took.\<close>

definition import_batch :: "'w db_ops \<Rightarrow> importer_config \<Rightarrow> string \<Rightarrow> 'w sql_driver \<Rightarrow> bool" where
  "import_batch ops config text d \<longleftrightarrow> (\<exists>w. o_import_exec ops (ic_dry_run config) text (sd_world d) = (Inr (), w))"

lemma flush_import_cases:
  assumes "import_inv config d"
  obtains (fail) e d' where "flush_import ops d = (Inl (ValueError (''unable to execute sql: '' @ exc_str e)), d')"
      "same_buffers d d'" "\<not> import_batch ops config (concat (sd_pending d)) d"
  | (ok) d1 where "flush_import ops d = (Inr (), d1\<lparr>sd_pending := [], sd_size := 0\<rparr>)" "same_buffers d d1"
      "import_batch ops config (concat (sd_pending d)) d"
proof -
  obtain r w where x: "o_import_exec ops (ic_dry_run config) (concat (sd_pending d)) (sd_world d) = (r, w)" by fastforce
  show thesis
  proof (cases r)
    case (Inl e)
    with x assms show thesis
      by (intro fail [of e "d\<lparr>sd_world := w\<rparr>"])
         (simp_all add: flush_import_def import_inv_def run_executor_def on_db_def wrapping_def same_buffers_def import_batch_def)
  next
    case (Inr u)
    with x assms show thesis
      by (intro ok [of "d\<lparr>sd_world := w\<rparr>"])
         (simp_all add: flush_import_def import_inv_def run_executor_def on_db_def wrapping_def same_buffers_def import_batch_def)
  qed
qed

lemma flush_import_inv:
  assumes "import_inv config d"
  shows "import_inv config (snd (flush_import ops d))"
  using assms by (cases rule: flush_import_cases [OF assms, of ops]) (simp_all add: import_inv_def same_buffers_def)

lemma flush_imported_inv: "import_inv config d \<Longrightarrow> import_inv config (snd (flush_imported ops d))"
  by (simp add: flush_imported_def flush_import_inv)

lemma import_inv_size: "import_inv config d \<Longrightarrow> sd_size d = 0 \<longleftrightarrow> concat (sd_pending d) = []"
  by (simp only: import_inv_def length_0_conv)

lemma flush_imported_cases:
  assumes "import_inv config d"
  obtains (empty) "flush_imported ops d = (Inr (), d)" "concat (sd_pending d) = []"
  | (fail) e d' where "flush_imported ops d = (Inl e, d')" "same_buffers d d'" "\<not> import_batch ops config (concat (sd_pending d)) d"
  | (ok) d1 where "flush_imported ops d = (Inr (), d1\<lparr>sd_pending := [], sd_size := 0\<rparr>)" "same_buffers d d1"
      "import_batch ops config (concat (sd_pending d)) d"
proof (cases "sd_size d = 0")
  case True
  with import_inv_size [OF assms] show thesis by (intro empty) (simp_all add: flush_imported_def)
next
  case False
  show thesis
    by (cases rule: flush_import_cases [OF assms, of ops]) (use False fail ok in \<open>simp_all add: flush_imported_def\<close>)
qed

lemma import_event_cases:
  assumes "import_inv config d"
  obtains (build) e where "import_event ops h event data d = (Inl e, d)"
  | (buffer) sql where "import_event ops h event data d =
       (Inr (), d\<lparr>sd_pending := sd_pending d @ [sql], sd_count := sd_count d + 1, sd_size := sd_size d + length sql\<rparr>)"
       "sd_size d + length sql < MAX_BYTES_SIZE_INSERT"
  | (flush) sql where "import_event ops h event data d =
       flush_import ops (d\<lparr>sd_pending := sd_pending d @ [sql], sd_count := sd_count d + 1, sd_size := sd_size d + length sql\<rparr>)"
       "import_inv config (d\<lparr>sd_pending := sd_pending d @ [sql], sd_count := sd_count d + 1, sd_size := sd_size d + length sql\<rparr>)"
proof -
  let ?sql = "andthen (object_or_empty event) (\<lambda>ob. h_to_sql_from_object h ''INSERT'' data (ev_table event) ob None)"
  from assms have i: "sd_import d = Some config" by (simp add: import_inv_def)
  show thesis
  proof (cases ?sql)
    case (Inl e)
    with i show thesis by (intro build [of e]) (simp add: import_event_def)
  next
    case (Inr sql)
    show thesis
    proof (cases "MAX_BYTES_SIZE_INSERT \<le> sd_size d + length sql \<or> ic_single config")
      case True
      with i Inr assms show thesis by (intro flush [of sql]) (auto simp: import_event_def Let_def import_inv_def)
    next
      case False
      with i Inr show thesis by (intro buffer [of sql]) (simp_all add: import_event_def Let_def)
    qed
  qed
qed

lemma import_event_step:
  assumes "import_inv config d"
  shows "import_inv config (snd (import_event ops h event data d)) \<and>
    (fst (import_event ops h event data d) = Inr () \<longrightarrow> sd_size (snd (import_event ops h event data d)) < MAX_BYTES_SIZE_INSERT)"
  using assms
proof (cases rule: import_event_cases [of config d ops h event data])
  case (build e)
  with assms show ?thesis by simp
next
  case (buffer sql)
  with assms show ?thesis by (simp add: import_inv_def)
next
  case (flush sql)
  show ?thesis
    unfolding flush(1)
    by (cases rule: flush_import_cases [OF flush(2), of ops])
       (use flush_import_inv [OF flush(2), of ops] in \<open>simp_all add: MAX_BYTES_SIZE_INSERT_def\<close>)
qed

section \<open>Properties\<close>

text \<open>C11: no event is lost, repeated or reordered between the buffer and the database. In any sequence of \<open>process\<close>
  and \<open>flush\<close> calls, with any of them failing, the statements of the committed transactions, in order, followed by the
  ones still buffered, are the ones buffered at the start followed by those of the accepted events: each once. A
  flush sends exactly the buffered statements, in one transaction, and none for an empty buffer.\<close>

theorem sql_stream_exact:
  assumes "stream_inv d" and "sink_run (sql_process ops h) (sql_flush ops) sd_pending calls d = (d', durable, accepted)"
  shows "concat durable @ sd_pending d' = sd_pending d @ accepted \<and> stream_inv d' \<and>
    (sd_db d' \<longrightarrow> sql_flush ops d' =
      (if sd_pending d' = [] then (Inr (), d')
       else case o_execute_in_transaction ops (concat (sd_pending d')) (sd_world d') of
              (Inl e, w) \<Rightarrow> (Inl e, d'\<lparr>sd_world := w\<rparr>)
            | (Inr u, w) \<Rightarrow> (Inr (), d'\<lparr>sd_world := w, sd_pending := [], sd_count := 0\<rparr>)))"
proof -
  have "stream_inv d'" using sqls.run_inv [OF assms(1), of ops h calls] assms(2) by simp
  with sqls.run_exact [OF assms] sql_flush_transaction [of d' ops] show ?thesis by blast
qed

text \<open>A database that keeps the transactions it has been given, and refuses the first.\<close>

definition sample_db :: "string list db_ops" where
  "sample_db =
     \<lparr>o_get_table_version = (\<lambda>t w. (Inr (True, ''v1''), w)), o_get_schema = (\<lambda>t v w. (Inr sample_schema, w)),
      o_open = (\<lambda>c w. (Inr (), w)), o_close = (\<lambda>w. w), o_query_single_value = (\<lambda>f w. (Inr ''db'', w)),
      o_build_schema = (\<lambda>c v f w. (Inr [], w)),
      o_execute_in_transaction = (\<lambda>s w. if w = [] then (Inl (OSError ''down''), [s]) else (Inr (), w @ [s])),
      o_exec = (\<lambda>s w. (Inr (), w)), o_drop_table = (\<lambda>s w. (Inr (), w)), o_import_exec = (\<lambda>b s w. (Inr (), w))\<rparr>"

theorem sql_stream_exact_witness:
  "let d = (new_sql_driver [])\<lparr>sd_db := True, sd_registry := True\<rparr>; ev = sample_event ''DELETE'' ''t'' [''a''] None
   in stream_inv d \<and> (\<exists>d' durable accepted.
     sink_run (sql_process sample_db mysql_driver) (sql_flush sample_db) sd_pending [Some ev, None, Some ev, None] d = (d', durable, accepted) \<and>
     concat durable @ sd_pending d' = sd_pending d @ accepted \<and> stream_inv d')"
proof -
  let ?d = "(new_sql_driver [])\<lparr>sd_db := True, sd_registry := True\<rparr>"
  let ?ev = "sample_event ''DELETE'' ''t'' [''a''] None"
  have i: "stream_inv ?d" by (simp add: stream_inv_def new_sql_driver_def)
  obtain d' durable accepted where r: "sink_run (sql_process sample_db mysql_driver) (sql_flush sample_db) sd_pending
      [Some ?ev, None, Some ?ev, None] ?d = (d', durable, accepted)"
    by (rule prod_cases3)
  note x = sql_stream_exact [OF i r]
  show ?thesis unfolding Let_def
    by (intro conjI exI, rule i, rule r, rule conjunct1 [OF x], rule conjunct1 [OF conjunct2 [OF x]])
qed

text \<open>The import buffer. A call of \<open>import_event\<close> keeps the byte count of the buffer true, and when it returns
  normally the buffer is below five million bytes or was just executed and emptied. A flush of the import that
  returns normally has executed all buffered text; one that fails keeps it.\<close>

theorem sql_import_buffer:
  assumes "import_inv config d"
  shows "(case import_event ops h event data d of
            (Inr u, d') \<Rightarrow> import_inv config d' \<and> sd_size d' < MAX_BYTES_SIZE_INSERT
          | (Inl e, d') \<Rightarrow> import_inv config d') \<and>
    (case flush_imported ops d of
       (Inr u, d') \<Rightarrow> import_inv config d' \<and> concat (sd_pending d') = [] \<and>
         (concat (sd_pending d) = [] \<or> import_batch ops config (concat (sd_pending d)) d)
     | (Inl e, d') \<Rightarrow> import_inv config d' \<and> sd_pending d' = sd_pending d \<and> \<not> import_batch ops config (concat (sd_pending d)) d)"
proof
  show "case import_event ops h event data d of
      (Inr u, d') \<Rightarrow> import_inv config d' \<and> sd_size d' < MAX_BYTES_SIZE_INSERT | (Inl e, d') \<Rightarrow> import_inv config d'"
    using import_event_step [OF assms, of ops h event data] by (auto split: prod.splits sum.splits)
  show "case flush_imported ops d of
       (Inr u, d') \<Rightarrow> import_inv config d' \<and> concat (sd_pending d') = [] \<and>
         (concat (sd_pending d) = [] \<or> import_batch ops config (concat (sd_pending d)) d)
     | (Inl e, d') \<Rightarrow> import_inv config d' \<and> sd_pending d' = sd_pending d \<and> \<not> import_batch ops config (concat (sd_pending d)) d"
    by (cases rule: flush_imported_cases [OF assms, of ops])
       (use flush_imported_inv [OF assms, of ops] in \<open>simp_all add: same_buffers_def\<close>)
qed

theorem sql_import_buffer_witness:
  "let config = \<lparr>ic_url = '''', ic_data_dir = '''', ic_dry_run = False, ic_tables = [''t''], ic_single = False,
       ic_schema_only = False, ic_no_delete = False, ic_recovery_enabled = True, ic_run_id = ''r''\<rparr>;
     d = (new_sql_driver [])\<lparr>sd_db := True, sd_import := Some config, sd_pending := [''x''], sd_size := 1\<rparr>
   in import_inv config d \<and>
      (case flush_imported sample_db d of (Inr u, d') \<Rightarrow> concat (sd_pending d') = [] | (Inl e, d') \<Rightarrow> sd_pending d' = sd_pending d)"
proof -
  let ?c = "\<lparr>ic_url = '''', ic_data_dir = '''', ic_dry_run = False, ic_tables = [''t''], ic_single = False,
       ic_schema_only = False, ic_no_delete = False, ic_recovery_enabled = True, ic_run_id = ''r''\<rparr>"
  let ?d = "(new_sql_driver [])\<lparr>sd_db := True, sd_import := Some ?c, sd_pending := [''x''], sd_size := 1\<rparr>"
  have i: "import_inv ?c ?d" by (simp add: import_inv_def)
  have "case flush_imported sample_db ?d of (Inr u, d') \<Rightarrow> concat (sd_pending d') = [] | (Inl e, d') \<Rightarrow> sd_pending d' = sd_pending ?d"
    using conjunct2 [OF sql_import_buffer [OF i, of sample_db]] by (auto split: prod.splits sum.splits)
  with i show ?thesis by (simp only: Let_def)
qed

end
