(* ===== verification/Delivery.thy ===== *)
theory Delivery
  imports Consumer SqlBase
begin

text \<open>
  The consumer and a driver together. The locale \<open>call_relation\<close> relates the trace of the processor to the
  world of the driver: if every operation of the world keeps the relation, so does every run of the bufferer. It is
  interpreted on the SQL drivers, whose database records the transactions it has committed; with the order of calls
  proved in theory Consumer this gives the end-to-end property: an acknowledged message is in a
  committed transaction or was skipped.
\<close>

section \<open>The order of calls before an acknowledgement\<close>

definition processed_in :: "nat \<Rightarrow> call list \<Rightarrow> bool" where
  "processed_in m tr \<longleftrightarrow> (\<exists>a b. tr = a @ CProcess m True # b)"

definition durable_in :: "nat \<Rightarrow> call list \<Rightarrow> bool" where
  "durable_in m tr \<longleftrightarrow> (\<exists>a b c. tr = a @ CProcess m True # b @ CFlush True # c)"

lemma history_grows:
  "processed_in m tr \<Longrightarrow> processed_in m (tr @ [x])" "durable_in m tr \<Longrightarrow> durable_in m (tr @ [x])"
  "processed_in m tr \<Longrightarrow> durable_in m (tr @ [CFlush True])" "processed_in m (tr @ [CProcess m True])"
proof -
  show "processed_in m (tr @ [x])" "durable_in m (tr @ [CFlush True])" if p: "processed_in m tr"
  proof -
    obtain a b where t: "tr = a @ CProcess m True # b" using p by (auto simp: processed_in_def)
    show "processed_in m (tr @ [x])" unfolding processed_in_def by (rule exI [of _ a], rule exI [of _ "b @ [x]"]) (simp add: t)
    show "durable_in m (tr @ [CFlush True])"
      unfolding durable_in_def by (rule exI [of _ a], rule exI [of _ b], rule exI [of _ "[]"]) (simp add: t)
  qed
  show "durable_in m (tr @ [x])" if d: "durable_in m tr"
  proof -
    obtain a b c where t: "tr = a @ CProcess m True # b @ CFlush True # c" using d by (auto simp: durable_in_def)
    show ?thesis unfolding durable_in_def by (rule exI [of _ a], rule exI [of _ b], rule exI [of _ "c @ [x]"]) (simp add: t)
  qed
  show "processed_in m (tr @ [CProcess m True])" by (auto simp: processed_in_def)
qed

lemma deliver_history:
  "deliver_all tr no_delivery = Some d \<Longrightarrow>
     (m \<in> dl_processed d \<longrightarrow> processed_in m tr) \<and> (m \<in> dl_durable d \<longrightarrow> durable_in m tr) \<and> (m \<in> dl_skipped d \<longrightarrow> CSkip m \<in> set tr)"
proof (induction tr arbitrary: d rule: rev_induct)
  case Nil
  then show ?case by (auto simp: no_delivery_def)
next
  case (snoc x tr)
  then obtain d0 where d0: "deliver_all tr no_delivery = Some d0" and d: "deliver x d0 = Some d"
    by (auto simp: deliver_all_append split: option.splits)
  note IH = snoc.IH [OF d0]
  show ?case
    using IH d history_grows [of m tr] by (cases "(x, d0)" rule: deliver.cases) (auto split: if_splits)
qed

lemma acked_history:
  assumes "deliver_all (pre @ CAck m b # post) no_delivery = Some d" and "CSkip m \<notin> set pre"
  shows "\<exists>x y z. pre = x @ CProcess m True # y @ CFlush True # z"
proof -
  from assms(1) obtain d0 where "deliver_all pre no_delivery = Some d0" "m \<in> dl_durable d0 \<union> dl_skipped d0"
    by (auto simp: deliver_all_append split: option.splits if_splits)
  with deliver_history [of pre d0 m] assms(2) show ?thesis by (auto simp: durable_in_def)
qed

section \<open>Relating the trace to the world\<close>

fun delivers :: "call \<Rightarrow> bool" where
  "delivers (CProcess i b) = True"
| "delivers (CFlush b) = True"
| "delivers c = False"

locale call_relation =
  fixes W :: "'w world_ops" and R :: "call list \<Rightarrow> 'w \<Rightarrow> bool"
  assumes now_R: "R tr w \<Longrightarrow> R tr (snd (w_now W w))"
    and process_R: "R tr w \<Longrightarrow> w_process W evt w = (r, w') \<Longrightarrow> R (tr @ [CProcess i (ok r)]) w'"
    and flush_R: "R tr w \<Longrightarrow> w_flush W w = (r', w') \<Longrightarrow> R (tr @ [CFlush (ok r')]) w'"
    and table_R: "R tr w \<Longrightarrow> R tr (snd (w_migrate_new_table W sch w))"
    and columns_R: "R tr w \<Longrightarrow> R tr (snd (w_migrate_new_columns W sch cols w))"
    and version_R: "R tr w \<Longrightarrow> R tr (snd (w_get_table_version W t w))"
    and set_version_R: "R tr w \<Longrightarrow> R tr (snd (w_set_table_version W t v w))"
    and schema_R: "R tr w \<Longrightarrow> R tr (snd (w_get_schema W t v w))"
    and validate_R: "R tr w \<Longrightarrow> R tr (snd (w_validate W evt w))"
    and ack_R: "R tr w \<Longrightarrow> R tr (snd (w_ack W i w))"
    and nak_R: "R tr w \<Longrightarrow> R tr (snd (w_nak W i w))"
    and other_R: "R tr w \<Longrightarrow> \<not> delivers c \<Longrightarrow> R (tr @ [c]) w"
begin

definition holds :: "'w bp \<Rightarrow> bool" where
  "holds s \<longleftrightarrow> R (bp_trace s) (bp_world s)"

lemma others_R: "R tr w \<Longrightarrow> \<forall>c \<in> set cs. \<not> delivers c \<Longrightarrow> R (tr @ cs) w"
proof (induction cs arbitrary: tr)
  case (Cons c cs)
  with Cons.IH [of "tr @ [c]"] other_R [of tr w c] show ?case by simp
qed simp

lemma holds_log [simp]: "holds s \<Longrightarrow> \<forall>c \<in> set cs. \<not> delivers c \<Longrightarrow> holds (log_call cs s)"
  by (simp add: holds_def log_call_def others_R)

lemma holds_fields [simp]:
  "holds (s\<lparr>bp_pending := p\<rparr>) = holds s" "holds (s\<lparr>bp_pending_started := q\<rparr>) = holds s" "holds (s\<lparr>bp_sequence := n\<rparr>) = holds s"
  by (simp_all add: holds_def)

lemma holds_now: "holds s \<Longrightarrow> holds (snd (now W s))"
  using now_R by (auto simp: holds_def now_def split: prod.splits) (metis snd_conv)

lemma holds_calls:
  assumes "holds s" "\<And>tr w. R tr w \<Longrightarrow> R tr (snd (f w))" "\<And>b. \<forall>c \<in> set (tr b). \<not> delivers c"
  shows "holds (snd (calls f tr s))"
proof -
  obtain r w where f: "f (bp_world s) = (r, w)" by fastforce
  have "R (bp_trace s) w" using assms(2) [of "bp_trace s" "bp_world s"] assms(1) f by (simp add: holds_def)
  with f assms(3) show ?thesis by (simp add: calls_def holds_def log_call_def others_R)
qed

lemma holds_process: "holds s \<Longrightarrow> holds (snd (calls (w_process W evt) (\<lambda>b. [CProcess i b]) s))"
  using process_R by (auto simp: holds_def calls_def log_call_def split: prod.splits)

lemma holds_flush_call: "holds s \<Longrightarrow> holds (snd (calls (w_flush W) (\<lambda>b. [CFlush b]) s))"
  using flush_R by (auto simp: holds_def calls_def log_call_def split: prod.splits)

lemma holds_seq: "holds (snd r) \<Longrightarrow> (\<And>x s. holds s \<Longrightarrow> holds (snd (f x s))) \<Longrightarrow> holds (snd (andthen_st r f))"
  by (rule snd_andthen_st [where P = holds]) auto

lemma holds_nak: "holds s \<Longrightarrow> holds (nak_one W m s)"
  unfolding nak_one_def by (rule holds_calls) (auto intro: nak_R)

lemma holds_nack: "holds s \<Longrightarrow> holds (nack_everything W s)"
proof -
  have "holds (fold (nak_one W) ms s)" if "holds s" for ms s
    using that by (induction ms arbitrary: s) (auto intro: holds_nak)
  then show "holds s \<Longrightarrow> holds (nack_everything W s)" by (simp add: nack_everything_def)
qed

lemma holds_error: "holds s \<Longrightarrow> holds (snd (handle_error W err s))"
  by (simp add: handle_error_def holds_nack)

lemma holds_acks: "holds s \<Longrightarrow> holds (snd (ack_loop W ms n s))"
proof (induction ms arbitrary: n s)
  case (Cons m ms)
  obtain r s1 where c: "calls (w_ack W (m_id m)) (\<lambda>b. [CAck (m_id m) b, CPendingDec]) s = (r, s1)" by fastforce
  have "holds (snd (calls (w_ack W (m_id m)) (\<lambda>b. [CAck (m_id m) b, CPendingDec]) s))"
    using Cons.prems by (rule holds_calls) (auto intro: ack_R)
  with c have "holds s1" by simp
  with c Cons.IH show ?case by (cases r) (simp_all add: holds_nack)
qed simp

lemma holds_finish: "holds s \<Longrightarrow> holds (snd (finish_flush W t n s))"
proof -
  assume s: "holds s"
  obtain t1 s1 where n: "now W s = (t1, s1)" by fastforce
  define s2 where "s2 = (case bp_pending_started s of None \<Rightarrow> s
      | Some ps \<Rightarrow> (case now W s of (t, s') \<Rightarrow> log_call [CProcessingDuration (t - ps)] s'))"
  have "holds s1" using holds_now [OF s] n by simp
  with s n have s2: "holds s2" by (auto simp: s2_def split: option.splits)
  obtain t3 s3 where n3: "now W s2 = (t3, s3)" by fastforce
  have "holds s3" using holds_now [OF s2] n3 by simp
  with n3 show ?thesis unfolding finish_flush_def s2_def [symmetric] Let_def by simp
qed

lemma holds_flush: "holds s \<Longrightarrow> holds (snd (flush W s))"
proof -
  assume s: "holds s"
  obtain t s1 where n: "now W s = (t, s1)" by fastforce
  obtain r s2 where c: "calls (w_flush W) (\<lambda>b. [CFlush b]) s1 = (r, s2)" by fastforce
  have "holds s2" using holds_flush_call [of s1] holds_now [OF s] n c by simp
  with n c show ?thesis
    by (cases r) (auto simp: flush_def holds_nack holds_error split: exc.splits intro!: holds_seq holds_acks holds_finish)
qed

lemma holds_skip_test: "holds s \<Longrightarrow> holds (snd (should_skip W evt s))"
proof -
  assume s: "holds s"
  obtain r s1 where c: "calls (w_validate W evt) (\<lambda>_. []) s = (r, s1)" by fastforce
  have "holds (snd (calls (w_validate W evt) (\<lambda>_. []) s))" using s by (rule holds_calls) (auto intro: validate_R)
  with s c show ?thesis by (auto simp: should_skip_def split: sum.splits bool.splits)
qed

lemma holds_reads:
  assumes "holds s"
  shows "holds (snd (calls (w_get_table_version W t) (\<lambda>_. []) s))" "holds (snd (calls (w_get_schema W t v) (\<lambda>_. []) s))"
    "holds (snd (calls (w_set_table_version W t v) (\<lambda>_. []) s))"
    "holds (snd (calls (w_migrate_new_table W sch) (\<lambda>b. [CMigrateTable t b]) s))"
    "holds (snd (calls (w_migrate_new_columns W sch cols) (\<lambda>b. [CMigrateColumns t cols b]) s))"
  using assms by (auto intro!: holds_calls intro: version_R schema_R set_version_R table_R columns_R)

lemma holds_migration: "holds s \<Longrightarrow> holds (snd (handle_possible_migration W evt s))"
  unfolding handle_possible_migration_def Let_def
  by (auto intro!: holds_seq holds_reads)

lemma holds_strip: "holds s \<Longrightarrow> holds (snd (strip_unknown W evt s))"
  unfolding strip_unknown_def Let_def
  by (auto intro!: holds_seq holds_reads split: prod.splits sum.splits option.splits)

lemma now_holds: "now W s = (t, s1) \<Longrightarrow> holds s \<Longrightarrow> holds s1"
  using holds_now [of s] by simp

lemma holds_after: "holds s \<Longrightarrow> holds (snd (after_process W m fl force s))"
proof -
  assume s: "holds s"
  obtain ps s1 where p: "(case bp_pending_started s of Some t \<Rightarrow> (t, s)
      | None \<Rightarrow> (case now W s of (t, s') \<Rightarrow> (t, s'\<lparr>bp_pending_started := Some t\<rparr>))) = (ps, s1)" by fastforce
  have s1: "holds s1" using p s now_holds [OF _ s] by (auto split: option.splits prod.splits)
  let ?n = "case m_metadata m of Inl _ \<Rightarrow> 0 | Inr md \<Rightarrow> md_num_pending md"
  obtain bypass s2 where q: "(if ?n > bp_max s1 then (case now W s1 of (t, s') \<Rightarrow> (t - ps < bp_max_pending_latency s1 * 2, s'))
      else (False, s1)) = (bypass, s2)" by fastforce
  have s2: "holds s2" using q s1 now_holds [OF _ s1] by (auto split: if_splits prod.splits)
  obtain t s3 where t: "now W s2 = (t, s3)" by fastforce
  have "holds s3" using now_holds [OF t s2] .
  then show ?thesis
    using s s2 p q t by (simp add: after_process_def Let_def holds_flush holds_now)
qed

lemma holds_event: "holds s \<Longrightarrow> holds (snd (process_event W m evt s))"
proof -
  assume s: "holds s"
  obtain r s1 where c: "(if bp_supports_migration s then handle_possible_migration W evt s else (Inr (False, evt), s)) = (r, s1)" by fastforce
  have s1: "holds s1" using c s holds_migration [OF s, of evt] by (auto split: if_splits)
  show ?thesis
  proof (cases r)
    case (Inl e)
    with c s1 show ?thesis by (simp add: process_event_def holds_error)
  next
    case (Inr fe)
    obtain force evt1 where fe: "fe = (force, evt1)" by fastforce
    obtain q s2 where q: "strip_unknown W evt1 s1 = (q, s2)" by fastforce
    have s2: "holds s2" using holds_strip [OF s1, of evt1] q by simp
    show ?thesis
    proof (cases q)
      case (Inl e)
      with c s2 q Inr fe show ?thesis by (simp add: process_event_def holds_error)
    next
      case q': (Inr evt2)
      obtain p s3 where p: "calls (w_process W evt2) (\<lambda>b. [CProcess (m_id m) b]) s2 = (p, s3)" by fastforce
      have "holds s3" using holds_process [OF s2, of evt2 "m_id m"] p by simp
      with c q Inr fe q' p show ?thesis by (cases p) (simp_all add: process_event_def holds_error holds_after)
    qed
  qed
qed

lemma holds_skip: "holds s \<Longrightarrow> holds (snd (skip_message W m s))"
  unfolding skip_message_def Let_def by (auto intro!: holds_log holds_calls intro: ack_R)

lemma holds_message: "holds s \<Longrightarrow> holds (snd (process_message W m s))"
proof -
  assume s: "holds s"
  show ?thesis
  proof (cases "m_metadata m")
    case (Inl e)
    with s show ?thesis by (simp add: process_message_def holds_error)
  next
    case md: (Inr md)
    define s2 where "s2 = s\<lparr>bp_pending := bp_pending s @ [m], bp_sequence := md_consumer_seq md\<rparr>"
    have s2: "holds s2" using s by (simp add: s2_def)
    have skip: "holds (snd (case should_skip W evt s2 of
                    (Inl e, s3) \<Rightarrow> (Inl (Raised e), s3)
                  | (Inr (True, _), s3) \<Rightarrow> skip_message W m s3
                  | (Inr (False, evt1), s3) \<Rightarrow> process_event W m evt1 s3))" for evt
      using holds_skip_test [OF s2, of evt] by (auto simp: holds_skip holds_event split: prod.splits sum.splits bool.splits)
    with md s show ?thesis
      unfolding process_message_def Let_def
      by (auto simp: holds_error s2_def split: sum.splits)
  qed
qed

lemma holds_idle: "holds s \<Longrightarrow> holds (snd (on_idle W s))"
proof -
  assume s: "holds s"
  obtain t s1 where n: "now W s = (t, s1)" by fastforce
  have "holds s1" using holds_now [OF s] n by simp
  with s n show ?thesis by (auto simp: on_idle_def holds_flush split: option.splits)
qed

lemma holds_stop: "holds s \<Longrightarrow> holds (snd (handle_stop st s))"
  by (cases st) (simp_all add: handle_stop_def)

lemma stop_holds: "handle_stop st s = (e, s1) \<Longrightarrow> holds s \<Longrightarrow> holds s1"
  using holds_stop [of s st] by simp

lemma holds_item: "holds s \<Longrightarrow> holds (snd (handle_item W item s))"
  using holds_message [of s] holds_flush [of s] holds_stop
  by (auto simp: handle_item_def final_flush_def split: option.splits prod.splits sum.splits stop.splits) (metis snd_conv)+

lemma holds_run: "holds s \<Longrightarrow> holds (snd (snd (buf_run W ph ins s)))"
proof (induction ins arbitrary: ph s)
  case (Cons i ins)
  note s = Cons.prems
  have item: "holds (snd (snd (case handle_item W item s of
      (Running, s') \<Rightarrow> buf_run W Draining ins s' | (e, s') \<Rightarrow> (e, ins, s'))))" for item
    using holds_item [OF s, of item] Cons.IH by (auto split: prod.splits bend.splits)
  show ?case
  proof (cases i)
    case (BItem it)
    with item show ?thesis by (cases ph) auto
  next
    case (BNone c)
    show ?thesis
    proof (cases ph)
      case Waiting
      with BNone Cons show ?thesis by simp
    next
      case Draining
      obtain r s1 where o: "on_idle W s = (r, s1)" by fastforce
      have s1: "holds s1" using holds_idle [OF s] o by simp
      with BNone Draining o s Cons.IH show ?thesis
        by (cases r) (auto simp: holds_nack split: prod.splits intro: stop_holds)
    qed
  qed
qed simp

end

section \<open>The SQL drivers under the consumer\<close>

text \<open>A database that records the texts of the transactions it has committed.\<close>

definition lifted :: "('w \<Rightarrow> 'a \<times> 'w) \<Rightarrow> 'w \<times> 'l \<Rightarrow> 'a \<times> 'w \<times> 'l" where
  "lifted f wl = (case f (fst wl) of (r, w) \<Rightarrow> (r, w, snd wl))"

definition recording :: "'w db_ops \<Rightarrow> ('w \<times> string list) db_ops" where
  "recording ops =
     \<lparr>o_get_table_version = (\<lambda>t. lifted (o_get_table_version ops t)), o_get_schema = (\<lambda>t v. lifted (o_get_schema ops t v)),
      o_open = (\<lambda>c. lifted (o_open ops c)), o_close = (\<lambda>wl. (o_close ops (fst wl), snd wl)),
      o_query_single_value = (\<lambda>f. lifted (o_query_single_value ops f)), o_build_schema = (\<lambda>c v b. lifted (o_build_schema ops c v b)),
      o_execute_in_transaction = (\<lambda>sql wl.
         case o_execute_in_transaction ops sql (fst wl) of (Inr u, w) \<Rightarrow> (Inr u, w, snd wl @ [sql]) | (Inl e, w) \<Rightarrow> (Inl e, w, snd wl)),
      o_exec = (\<lambda>q. lifted (o_exec ops q)), o_drop_table = (\<lambda>t. lifted (o_drop_table ops t)),
      o_import_exec = (\<lambda>b q. lifted (o_import_exec ops b q))\<rparr>"

text \<open>What the consumer calls beside the driver.\<close>

record 'w env_ops =
  e_now :: "'w \<Rightarrow> int \<times> 'w"
  e_set_table_version :: "string \<Rightarrow> string \<Rightarrow> 'w \<Rightarrow> unit res \<times> 'w"
  e_validate :: "db_change_event \<Rightarrow> 'w \<Rightarrow> (bool \<times> bool \<times> string) res \<times> 'w"
  e_ack :: "nat \<Rightarrow> 'w \<Rightarrow> unit res \<times> 'w"
  e_nak :: "nat \<Rightarrow> 'w \<Rightarrow> unit res \<times> 'w"

text \<open>The driver as the consumer sees it; the second component lists the accepted events with their statements.\<close>

type_synonym 'w sql_state = "('w \<times> string list) sql_driver \<times> (db_change_event \<times> string) list"

definition on_driver :: "(('w \<times> string list) sql_driver \<Rightarrow> 'a \<times> ('w \<times> string list) sql_driver) \<Rightarrow> 'w sql_state \<Rightarrow> 'a \<times> 'w sql_state" where
  "on_driver f x = (case f (fst x) of (r, d) \<Rightarrow> (r, d, snd x))"

definition sql_world :: "'w db_ops \<Rightarrow> hooks \<Rightarrow> 'w env_ops \<Rightarrow> 'w sql_state world_ops" where
  "sql_world ops h env =
     \<lparr>w_now = on_driver (on_db (lifted (e_now env))),
      w_process = (\<lambda>evt x. case sql_process (recording ops) h evt (fst x) of
         (Inr b, d) \<Rightarrow> (Inr b, d, snd x @ [(evt, last (sd_pending d))]) | (Inl e, d) \<Rightarrow> (Inl e, d, snd x)),
      w_flush = on_driver (sql_flush (recording ops)),
      w_migrate_new_table = (\<lambda>s. on_driver (migrate_new_table (recording ops) h s)),
      w_migrate_new_columns = (\<lambda>s cols. on_driver (migrate_new_columns (recording ops) h s cols)),
      w_get_table_version = (\<lambda>t. on_driver (on_db (lifted (o_get_table_version ops t)))),
      w_set_table_version = (\<lambda>t v. on_driver (on_db (lifted (e_set_table_version env t v)))),
      w_get_schema = (\<lambda>t v. on_driver (on_db (lifted (o_get_schema ops t v)))),
      w_validate = (\<lambda>evt. on_driver (on_db (lifted (e_validate env evt)))),
      w_ack = (\<lambda>i. on_driver (on_db (lifted (e_ack env i)))), w_nak = (\<lambda>i. on_driver (on_db (lifted (e_nak env i))))\<rparr>"

text \<open>The successful \<open>process\<close> calls of a trace, all of them and those before the last successful \<open>flush\<close>.\<close>

fun count_call :: "call \<Rightarrow> nat \<times> nat \<Rightarrow> nat \<times> nat" where
  "count_call (CProcess i True) (n, f) = (n + 1, f)"
| "count_call (CFlush True) (n, f) = (n, n)"
| "count_call c nf = nf"

definition counts :: "call list \<Rightarrow> nat \<times> nat" where
  "counts tr = fold count_call tr (0, 0)"

definition committed :: "call list \<Rightarrow> 'w sql_state \<Rightarrow> bool" where
  "committed tr x \<longleftrightarrow> stream_inv (fst x) \<and> length (snd x) = fst (counts tr) \<and>
     (\<exists>batches. snd (sd_world (fst x)) = map concat (filter (\<lambda>b. b \<noteq> []) batches) \<and>
        concat batches @ sd_pending (fst x) = map snd (snd x) \<and> length (concat batches) = snd (counts tr))"

text \<open>Calls that leave the buffer and the record alone.\<close>

definition same_log :: "('w \<times> string list) sql_driver \<Rightarrow> ('w \<times> string list) sql_driver \<Rightarrow> bool" where
  "same_log d d' \<longleftrightarrow> same_buffers d d' \<and> snd (sd_world d') = snd (sd_world d)"

lemma same_log_refl [simp]: "same_log d d"
  by (simp add: same_log_def same_buffers_def)

lemma same_log_lifted: "same_log d0 d \<Longrightarrow> same_log d0 (snd (on_db (lifted f) d))"
  by (auto simp: same_log_def same_buffers_def on_db_def lifted_def split: prod.splits)

lemma same_log_seq: "same_log d (snd r) \<Longrightarrow> (\<And>x d1. same_log d d1 \<Longrightarrow> same_log d (snd (f x d1))) \<Longrightarrow> same_log d (snd (andthen_st r f))"
  by (rule snd_andthen_st [where P = "same_log d"]) auto

lemma recording_sels [simp]:
  "o_get_table_version (recording ops) t = lifted (o_get_table_version ops t)" "o_get_schema (recording ops) t v = lifted (o_get_schema ops t v)"
  "o_query_single_value (recording ops) f = lifted (o_query_single_value ops f)"
  "o_build_schema (recording ops) c v b = lifted (o_build_schema ops c v b)"
  "o_exec (recording ops) q = lifted (o_exec ops q)" "o_drop_table (recording ops) t = lifted (o_drop_table ops t)"
  by (simp_all add: recording_def)

lemma same_log_fields [simp]:
  "same_log d (d'\<lparr>sd_dbname := n\<rparr>) = same_log d d'" "same_log d (d'\<lparr>sd_dbschema := b\<rparr>) = same_log d d'"
  by (simp_all add: same_log_def same_buffers_def)

lemma same_log_event: "same_log d (snd (event_sql (recording ops) h evt d))"
  unfolding event_sql_def recording_sels
  by (intro same_log_seq) (auto intro: same_log_lifted)

lemma same_log_refresh: "same_log d0 d \<Longrightarrow> same_log d0 (snd (refresh_schema (recording ops) h b d))"
  unfolding refresh_schema_def recording_sels
  by (auto intro!: same_log_seq intro: same_log_lifted)

lemma same_log_exec: "same_log d0 d \<Longrightarrow> same_log d0 (snd (exec_all (recording ops) qs d))"
  by (induction qs arbitrary: d) (auto intro!: same_log_seq intro: same_log_lifted)

lemma same_log_table: "same_log d (snd (migrate_new_table (recording ops) h s d))"
  unfolding migrate_new_table_def recording_sels
  by (auto intro!: same_log_seq same_log_refresh same_log_exec same_log_lifted simp del: exec_all.simps)

lemma same_log_columns: "same_log d (snd (migrate_new_columns (recording ops) h s cols d))"
  unfolding migrate_new_columns_def
  by (auto intro!: same_log_seq same_log_refresh same_log_exec simp del: exec_all.simps)

lemma committed_same:
  assumes "committed tr x" "same_log (fst x) d"
  shows "committed tr (d, snd x)"
  using assms by (simp add: committed_def same_log_def same_buffers_def stream_inv_def)

lemma committed_on_driver: "committed tr x \<Longrightarrow> (\<And>d. same_log d (snd (f d))) \<Longrightarrow> committed tr (snd (on_driver f x))"
  using committed_same [of tr x "snd (f (fst x))"] by (simp add: on_driver_def split: prod.splits) (metis snd_conv)

lemma counts_snoc: "counts (tr @ [c]) = count_call c (counts tr)"
  by (simp add: counts_def)

lemma count_other: "\<not> delivers c \<Longrightarrow> count_call c nf = nf"
  by (cases "(c, nf)" rule: count_call.cases) auto

lemma committed_process:
  assumes "committed tr x" "w_process (sql_world ops h env) evt x = (r, x')"
  shows "committed (tr @ [CProcess i (ok r)]) x'"
proof (cases rule: sql_process_cases [of "recording ops" h evt "fst x"])
  case (fail e d')
  have "same_log (fst x) d'"
    using fail(1) same_log_event [of "fst x" ops h evt]
    by (cases "event_sql (recording ops) h evt (fst x)"; cases "fst (event_sql (recording ops) h evt (fst x))")
       (auto simp: sql_process_def split: if_splits)
  with fail assms show ?thesis
    using committed_same [OF assms(1)] by (auto simp: sql_world_def ok_def counts_snoc committed_def)
next
  case (ok sql d1)
  have l: "same_log (fst x) d1" using same_log_event [of "fst x" ops h evt] ok(3) by simp
  let ?d = "d1\<lparr>sd_pending := sd_pending (fst x) @ [sql], sd_count := sd_count (fst x) + 1\<rparr>"
  have x': "r = Inr False" "x' = (?d, snd x @ [(evt, sql)])" using assms(2) ok(1) by (auto simp: sql_world_def)
  obtain n f where c: "counts tr = (n, f)" by fastforce
  from assms(1) obtain bs where "stream_inv (fst x)" "length (snd x) = n" "snd (sd_world (fst x)) = map concat (filter (\<lambda>b. b \<noteq> []) bs)"
    "concat bs @ sd_pending (fst x) = map snd (snd x)" "length (concat bs) = f" by (auto simp: committed_def c)
  with l c x' show ?thesis
    unfolding committed_def by (auto simp: counts_snoc ok_def stream_inv_def same_log_def intro!: exI [of _ bs])
qed

lemma committed_flush:
  assumes "committed tr x" "w_flush (sql_world ops h env) x = (r, x')"
  shows "committed (tr @ [CFlush (ok r)]) x'"
proof -
  obtain d E where x: "x = (d, E)" by fastforce
  obtain n f where c: "counts tr = (n, f)" by fastforce
  from assms(1) obtain bs where i: "stream_inv d" "length E = n" "snd (sd_world d) = map concat (filter (\<lambda>b. b \<noteq> []) bs)"
    "concat bs @ sd_pending d = map snd E" "length (concat bs) = f" by (auto simp: committed_def c x)
  obtain q d' where q: "sql_flush (recording ops) d = (q, d')" by fastforce
  have x': "r = q" "x' = (d', E)" using assms(2) q by (simp_all add: sql_world_def on_driver_def x)
  show ?thesis
  proof (cases q)
    case (Inl e)
    then have "same_log d d'"
      using q i(1) sql_flush_transaction [OF i(1), of "recording ops"]
      by (cases "sd_db d") (auto simp: sql_flush_def recording_def same_log_def same_buffers_def split: if_splits prod.splits sum.splits)
    with assms(1) Inl x x' show ?thesis
      using committed_same [OF assms(1), of d'] by (simp add: ok_def counts_snoc committed_def)
  next
    case (Inr u)
    then have db: "sd_db d" using q by (auto simp: sql_flush_def split: if_splits)
    have d': "sd_pending d' = []" "sd_count d' = 0" "snd (sd_world d') = snd (sd_world d) @ (if sd_pending d = [] then [] else [concat (sd_pending d)])"
      using q Inr sql_flush_transaction [OF i(1) db, of "recording ops"] i(1)
      by (auto simp: recording_def stream_inv_def split: if_splits prod.splits sum.splits)
    have "length (concat (bs @ [sd_pending d])) = n" using i(2,4) arg_cong [OF i(4), of length] by simp
    with i d' Inr x' c show ?thesis
      unfolding committed_def by (auto simp: ok_def counts_snoc stream_inv_def intro!: exI [of _ "bs @ [sd_pending d]"])
  qed
qed

interpretation sql_delivery: call_relation "sql_world ops h env" committed for ops h env
proof unfold_locales
  fix tr x x' evt r i u
  assume c: "committed tr (x :: 'a sql_state)"
  show "committed (tr @ [CProcess i (ok r)]) x'" if "w_process (sql_world ops h env) evt x = (r, x')"
    using committed_process [OF c that] .
  show "committed (tr @ [CFlush (ok u)]) x'" if "w_flush (sql_world ops h env) x = (u, x')"
    using committed_flush [OF c that] .
  show "committed (tr @ [k]) x" if "\<not> delivers k" for k
    using c by (simp add: committed_def counts_snoc count_other [OF that])
qed (auto simp: sql_world_def intro!: committed_on_driver same_log_lifted same_log_table same_log_columns)

section \<open>Properties\<close>

lemma count_call_mono: "snd (count_call c nf) \<le> fst (count_call c nf) \<and> fst nf \<le> fst (count_call c nf) \<and> snd nf \<le> snd (count_call c nf)"
  if "snd nf \<le> fst nf"
  using that by (cases "(c, nf)" rule: count_call.cases) auto

lemma counts_mono: "snd (counts tr) \<le> fst (counts tr) \<and> fst (counts tr) \<le> fst (counts (tr @ cs)) \<and> snd (counts tr) \<le> snd (counts (tr @ cs))"
proof -
  have le: "snd (counts tr) \<le> fst (counts tr)" for tr
    by (induction tr rule: rev_induct) (simp_all add: counts_snoc count_call_mono, simp add: counts_def)
  have "fst (counts tr) \<le> fst (counts (tr @ cs)) \<and> snd (counts tr) \<le> snd (counts (tr @ cs))"
  proof (induction cs rule: rev_induct)
    case (snoc c cs)
    have "counts (tr @ cs @ [c]) = count_call c (counts (tr @ cs))" using counts_snoc [of "tr @ cs" c] by simp
    with snoc count_call_mono [OF le, of c "tr @ cs"] show ?case by (metis le_trans)
  qed simp
  with le show ?thesis by blast
qed

lemma counts_durable: "fst (counts a) < snd (counts (a @ CProcess m True # b @ CFlush True # c))"
proof -
  have p: "fst (counts (a @ [CProcess m True])) = fst (counts a) + 1" by (cases "counts a") (simp add: counts_snoc)
  have "snd (counts ((a @ [CProcess m True] @ b) @ [CFlush True])) = fst (counts ((a @ [CProcess m True]) @ b))"
    unfolding counts_snoc by (cases "counts (a @ [CProcess m True] @ b)") simp
  moreover have "fst (counts (a @ [CProcess m True])) \<le> fst (counts ((a @ [CProcess m True]) @ b))" using counts_mono by blast
  moreover have "snd (counts ((a @ [CProcess m True] @ b) @ [CFlush True])) \<le> snd (counts (((a @ [CProcess m True] @ b) @ [CFlush True]) @ c))"
    using counts_mono by blast
  ultimately show ?thesis using p by simp
qed

text \<open>C1: an acknowledged message is committed. A SQL driver under the consumer, from a fresh start, with any messages, timeouts,
  failures of the database, the registry and the connection: when a message has been acknowledged and was not skipped, the
  driver had accepted its event, as the \<open>k\<close>-th, and the \<open>k\<close>-th statement is in a committed transaction. The
  committed transactions, in order, and then the buffer are the statements of the accepted events, each once.\<close>

theorem sql_acked_committed:
  assumes "fresh s" and "bp_world s = (d, [])" and "sd_pending d = []" "sd_count d = 0" "snd (sd_world d) = []"
    and "buf_run (sql_world ops h env) Draining ins s = (e, rest, s')"
    and "bp_trace s' = pre @ CAck m b # post" and "CSkip m \<notin> set pre"
  shows "\<exists>k batches. (\<exists>x y. pre = x @ CProcess m True # y \<and> k = fst (counts x)) \<and> k < length (concat batches) \<and>
    snd (sd_world (fst (bp_world s'))) = map concat (filter (\<lambda>b. b \<noteq> []) batches) \<and>
    concat batches @ sd_pending (fst (bp_world s')) = map snd (snd (bp_world s'))"
proof -
  from progress_run [OF assms(6)] obtain used where "progress (known used) s e s'" by blast
  then obtain cs where "bp_trace s' = bp_trace s @ cs"
    "\<forall>d. taken (bp_pending s) d \<longrightarrow> (\<exists>d'. deliver_all cs d = Some d' \<and> (\<not> crashed e \<longrightarrow> taken (bp_pending s') d'))"
    unfolding progress_def by (elim conjE exE)
  with fresh_inv [OF assms(1), of no_delivery] assms(1,7)
  obtain dl where "deliver_all (pre @ CAck m b # post) no_delivery = Some dl" by (auto simp: fresh_def)
  from acked_history [OF this assms(8)] obtain x y z where pre: "pre = x @ CProcess m True # y @ CFlush True # z" by blast
  have "sql_delivery.holds s"
    using assms(1-5) by (auto simp: sql_delivery.holds_def committed_def fresh_def counts_def stream_inv_def intro!: exI [of _ "[]"])
  then have "committed (bp_trace s') (bp_world s')"
    using sql_delivery.holds_run [of s ops h env Draining ins] assms(6) by (simp add: sql_delivery.holds_def)
  then obtain batches where b: "snd (sd_world (fst (bp_world s'))) = map concat (filter (\<lambda>b. b \<noteq> []) batches)"
    "concat batches @ sd_pending (fst (bp_world s')) = map snd (snd (bp_world s'))" "length (concat batches) = snd (counts (bp_trace s'))"
    by (auto simp: committed_def)
  have "fst (counts x) < snd (counts pre)" using counts_durable [of x m y z] by (simp add: pre)
  also have "\<dots> \<le> snd (counts (bp_trace s'))" using counts_mono [of pre "CAck m b # post"] by (simp add: assms(7))
  finally have "fst (counts x) < length (concat batches)" by (simp only: b(3))
  with b(1,2) show ?thesis
    by (intro exI [of _ "fst (counts x)"] exI [of _ batches] conjI exI [of _ x] exI [of _ "y @ CFlush True # z"]) (simp_all add: pre)
qed

definition sample_env_ops :: "int env_ops" where
  "sample_env_ops =
     \<lparr>e_now = (\<lambda>w. (w, w + 1)), e_set_table_version = (\<lambda>t v w. (Inr (), w)), e_validate = (\<lambda>ev w. (Inr (True, True, ''''), w)),
      e_ack = (\<lambda>i w. (Inr (), w)), e_nak = (\<lambda>i w. (Inr (), w))\<rparr>"

definition sample_clock_db :: "int db_ops" where
  "sample_clock_db =
     \<lparr>o_get_table_version = (\<lambda>t w. (Inr (True, ''v1''), w)), o_get_schema = (\<lambda>t v w. (Inr empty_schema, w)),
      o_open = (\<lambda>c w. (Inr (), w)), o_close = (\<lambda>w. w), o_query_single_value = (\<lambda>f w. (Inr ''db'', w)),
      o_build_schema = (\<lambda>c v f w. (Inr [], w)), o_execute_in_transaction = (\<lambda>s w. (Inr (), w)),
      o_exec = (\<lambda>s w. (Inr (), w)), o_drop_table = (\<lambda>s w. (Inr (), w)), o_import_exec = (\<lambda>b s w. (Inr (), w))\<rparr>"

definition sample_sql_bp :: "int sql_state bp" where
  "sample_sql_bp =
     \<lparr>bp_max = 10, bp_min_pending_latency = 5, bp_max_pending_latency = 50, bp_table_timestamps = None,
      bp_supports_migration = False, bp_has_registry = False, bp_has_validator = False, bp_sequence = 0, bp_pending = [],
      bp_pending_started = None, bp_world = ((new_sql_driver (0, []))\<lparr>sd_db := True, sd_registry := True\<rparr>, []), bp_trace = []\<rparr>"

definition sample_sql_run :: "bend \<times> binput list \<times> int sql_state bp" where
  "sample_sql_run = buf_run (sql_world sample_clock_db mysql_driver sample_env_ops) Draining
     [BItem (Some (sample_msg 1 1 sample_data)), BItem None] sample_sql_bp"

lemma sample_sql_trace:
  "filter (\<lambda>c. \<not> quiet c) (bp_trace (snd (snd sample_sql_run))) = [CProcess 1 True, CFlush True, CAck 1 True]"
  by code_simp

theorem sql_acked_committed_witness:
  "\<exists>pre post k batches. bp_trace (snd (snd sample_sql_run)) = pre @ CAck 1 True # post \<and> CSkip 1 \<notin> set pre \<and>
     (\<exists>x y. pre = x @ CProcess 1 True # y \<and> k = fst (counts x)) \<and> k < length (concat batches) \<and>
     snd (sd_world (fst (bp_world (snd (snd sample_sql_run))))) = map concat (filter (\<lambda>b. b \<noteq> []) batches)"
proof -
  obtain e rest s' where r: "sample_sql_run = (e, rest, s')" by (rule prod_cases3)
  let ?t = "bp_trace s'"
  have t: "filter (\<lambda>c. \<not> quiet c) ?t = [CProcess 1 True, CFlush True, CAck 1 True]" using sample_sql_trace by (simp add: r)
  then have "CAck 1 True \<in> set (filter (\<lambda>c. \<not> quiet c) ?t)" by simp
  then have "CAck 1 True \<in> set ?t" by simp
  then obtain pre post where p: "?t = pre @ CAck 1 True # post" by (metis split_list)
  have "CSkip 1 \<notin> set (filter (\<lambda>c. \<not> quiet c) ?t)" by (simp add: t)
  then have no: "CSkip 1 \<notin> set pre" by (simp add: p)
  have f: "fresh sample_sql_bp" by (simp add: fresh_def sample_sql_bp_def)
  have w: "bp_world sample_sql_bp = ((new_sql_driver (0, []))\<lparr>sd_db := True, sd_registry := True\<rparr>, [])"
    by (simp add: sample_sql_bp_def)
  obtain k batches where k: "\<exists>x y. pre = x @ CProcess 1 True # y \<and> k = fst (counts x)" "k < length (concat batches)"
    "snd (sd_world (fst (bp_world s'))) = map concat (filter (\<lambda>b. b \<noteq> []) batches)"
    using sql_acked_committed [OF f w _ _ _ r [unfolded sample_sql_run_def] p no] by (auto simp: new_sql_driver_def)
  have q: "snd (snd sample_sql_run) = s'" by (simp add: r)
  show ?thesis unfolding q using p no k by blast
qed

end
