(* ===== verification/Tracker.thy ===== *)
theory Tracker
  imports Prelude
begin

text \<open>
  The two key/value stores of EDS and the interface they share.

  \<^item> \<open>src/eds/util/cache.py\<close>: the in-memory cache. Every entry has a deadline; \<open>get\<close> evicts an
    entry whose deadline has passed, a sweeper thread does so for all entries.
  \<^item> \<open>src/eds/tracker/__init__.py\<close>: the on-disk store over SQLite. Keys are compared by code
    point, so a key is the list of its code points; a time to live that is not positive means no
    expiry. \<open>delete_keys_with_prefix\<close> is a range scan between the prefix and its upper bound.

  Clock readings (\<open>time.monotonic()\<close>, \<open>time.time()\<close>) are arguments. The locale \<open>ttl_store\<close>
  states what a client of either store relies on; both stores are interpretations of it.
\<close>

section \<open>The interface\<close>

locale ttl_store =
  fixes live :: "int \<Rightarrow> 's \<Rightarrow> 'k \<Rightarrow> 'v option"
    and lookup :: "int \<Rightarrow> 'k \<Rightarrow> 's \<Rightarrow> 'v option \<times> 's"
    and put :: "int \<Rightarrow> 'k \<Rightarrow> 'v \<Rightarrow> int \<Rightarrow> 's \<Rightarrow> 's"
  assumes lookup_live: "fst (lookup t k s) = live t s k"
    and lookup_frame: "t \<le> t' \<Longrightarrow> live t' (snd (lookup t k s)) k' = live t' s k'"
    and put_hit: "t' \<le> t + ttl \<Longrightarrow> live t' (put t k v ttl s) k = Some v"
    and put_frame: "k' \<noteq> k \<Longrightarrow> live t' (put t k v ttl s) k' = live t' s k'"
begin

lemma lookup_after_put: "t' \<le> t + ttl \<Longrightarrow> fst (lookup t' k (put t k v ttl s)) = Some v"
  by (simp add: lookup_live put_hit)

lemma lookup_lookup: "t \<le> t' \<Longrightarrow> fst (lookup t' k' (snd (lookup t k s))) = fst (lookup t' k' s)"
  by (simp add: lookup_live lookup_frame)

lemma put_others:
  "k \<notin> set ks \<Longrightarrow> live t' (fold (\<lambda>k. put t k v ttl) ks s) k = live t' s k"
  by (induction ks arbitrary: s) (auto simp: put_frame)

lemma put_all:
  "t' \<le> t + ttl \<Longrightarrow> k \<in> set ks \<Longrightarrow> live t' (fold (\<lambda>k. put t k v ttl) ks s) k = Some v"
proof (induction ks arbitrary: s)
  case (Cons x xs)
  show ?case
  proof (cases "k \<in> set xs")
    case True
    with Cons show ?thesis by simp
  next
    case False
    with Cons.prems have "k = x" by simp
    with False Cons.prems show ?thesis by (simp add: put_others put_hit)
  qed
qed simp

end

section \<open>The in-memory cache\<close>

record 'v cache_value =
  cv_object :: 'v
  cv_expires :: int

record 'v in_memory_cache =
  cache_entries :: "(string \<times> 'v cache_value) list"
  cache_stopped :: bool

definition new_cache :: "'v in_memory_cache" where
  "new_cache = \<lparr>cache_entries = [], cache_stopped = False\<rparr>"

definition cache_get :: "int \<Rightarrow> string \<Rightarrow> 'v in_memory_cache \<Rightarrow> 'v option \<times> 'v in_memory_cache" where
  "cache_get now key c =
     (case dget (cache_entries c) key of
        None \<Rightarrow> (None, c)
      | Some val \<Rightarrow>
          if cv_expires val < now then (None, c\<lparr>cache_entries := ddel key (cache_entries c)\<rparr>)
          else (Some (cv_object val), c))"

definition cache_set :: "int \<Rightarrow> string \<Rightarrow> 'v \<Rightarrow> int \<Rightarrow> 'v in_memory_cache \<Rightarrow> 'v in_memory_cache" where
  "cache_set now key val expires c =
     c\<lparr>cache_entries := dset key \<lparr>cv_object = val, cv_expires = now + expires\<rparr> (cache_entries c)\<rparr>"

text \<open>One round of the sweeper loop, and \<open>close\<close>, which stops it.\<close>

definition cache_sweep :: "int \<Rightarrow> 'v in_memory_cache \<Rightarrow> 'v in_memory_cache" where
  "cache_sweep now c =
     (if cache_stopped c then c
      else let expired = map fst (filter (\<lambda>(k, v). cv_expires v < now) (cache_entries c))
           in c\<lparr>cache_entries := fold ddel expired (cache_entries c)\<rparr>)"

definition cache_close :: "'v in_memory_cache \<Rightarrow> 'v in_memory_cache" where
  "cache_close c = c\<lparr>cache_stopped := True\<rparr>"

text \<open>What a reader at time \<open>now\<close> sees.\<close>

definition cache_live :: "int \<Rightarrow> 'v in_memory_cache \<Rightarrow> string \<Rightarrow> 'v option" where
  "cache_live now c key =
     (case dget (cache_entries c) key of
        None \<Rightarrow> None
      | Some val \<Rightarrow> if cv_expires val < now then None else Some (cv_object val))"

interpretation cs: ttl_store cache_live cache_get cache_set
proof unfold_locales
  fix t t' ttl :: int and k k' :: string and c :: "'a in_memory_cache" and v :: 'a
  show "fst (cache_get t k c) = cache_live t c k"
    by (auto simp: cache_get_def cache_live_def split: option.splits)
  show "t \<le> t' \<Longrightarrow> cache_live t' (snd (cache_get t k c)) k' = cache_live t' c k'"
    by (auto simp: cache_get_def cache_live_def split: option.splits)
  show "t' \<le> t + ttl \<Longrightarrow> cache_live t' (cache_set t k v ttl c) k = Some v"
    by (simp add: cache_set_def cache_live_def)
  show "k' \<noteq> k \<Longrightarrow> cache_live t' (cache_set t k v ttl c) k' = cache_live t' c k'"
    by (simp add: cache_set_def cache_live_def)
qed

lemma map_of_fold_ddel:
  "map_of (fold ddel ks d) k = (if k \<in> set ks then None else map_of d k)"
  by (induction ks arbitrary: d) auto

text \<open>The sweeper is invisible to readers: it removes only what \<open>get\<close> would not return.\<close>

lemma cache_sweep_invisible:
  assumes "distinct (dkeys (cache_entries c))" and "now \<le> now'"
  shows "cache_live now' (cache_sweep now c) k = cache_live now' c k"
proof -
  have "k \<in> fst ` set (filter (\<lambda>(k, v). cv_expires v < now) (cache_entries c)) \<longleftrightarrow>
      (\<exists>v. map_of (cache_entries c) k = Some v \<and> cv_expires v < now)"
    using assms(1) by (force simp: map_of_eq_Some_iff)
  with assms(2) show ?thesis
    by (auto simp: cache_live_def cache_sweep_def Let_def map_of_fold_ddel split: option.splits)
qed

section \<open>The tracker\<close>

type_synonym key = "nat list"

record kv_row =
  row_value :: string
  row_expires_at :: "int option"

record tracker =
  kv :: "(key \<times> kv_row) list"
  tracker_closed :: bool

definition new_tracker :: tracker where
  "new_tracker = \<lparr>kv = [], tracker_closed = False\<rparr>"

text \<open>\<open>_deadline\<close>: no deadline unless the time to live is positive.\<close>

definition deadline :: "int \<Rightarrow> int \<Rightarrow> int option" where
  "deadline now expires = (if expires > 0 then Some (now + expires) else None)"

text \<open>Operations on a closed SQLite connection raise.\<close>

definition closed_error :: exc where
  "closed_error = ProgrammingError ''Cannot operate on a closed database.''"

definition row_expired :: "int \<Rightarrow> kv_row \<Rightarrow> bool" where
  "row_expired now r = (case row_expires_at r of None \<Rightarrow> False | Some e \<Rightarrow> e < now)"

definition kv_get :: "int \<Rightarrow> key \<Rightarrow> tracker \<Rightarrow> string option \<times> tracker" where
  "kv_get now key t =
     (case dget (kv t) key of
        None \<Rightarrow> (None, t)
      | Some r \<Rightarrow>
          if row_expired now r then (None, t\<lparr>kv := ddel key (kv t)\<rparr>)
          else (Some (row_value r), t))"

definition kv_put :: "int \<Rightarrow> key \<Rightarrow> string \<Rightarrow> int \<Rightarrow> tracker \<Rightarrow> tracker" where
  "kv_put now key value expires t =
     t\<lparr>kv := dset key \<lparr>row_value = value, row_expires_at = deadline now expires\<rparr> (kv t)\<rparr>"

definition get_key :: "int \<Rightarrow> key \<Rightarrow> tracker \<Rightarrow> (bool \<times> string) res \<times> tracker" where
  "get_key now key t =
     (if tracker_closed t then (Inl closed_error, t)
      else case kv_get now key t of
             (None, t') \<Rightarrow> (Inr (False, ''''), t')
           | (Some v, t') \<Rightarrow> (Inr (True, v), t'))"

definition set_key :: "int \<Rightarrow> key \<Rightarrow> string \<Rightarrow> int \<Rightarrow> tracker \<Rightarrow> unit res \<times> tracker" where
  "set_key now key value expires t =
     (if tracker_closed t then (Inl closed_error, t) else (Inr (), kv_put now key value expires t))"

definition set_keys :: "int \<Rightarrow> key list \<Rightarrow> string \<Rightarrow> int \<Rightarrow> tracker \<Rightarrow> unit res \<times> tracker" where
  "set_keys now keys value expires t =
     (if tracker_closed t then (Inl closed_error, t)
      else (Inr (), fold (\<lambda>k. kv_put now k value expires) keys t))"

definition delete_key :: "key list \<Rightarrow> tracker \<Rightarrow> unit res \<times> tracker" where
  "delete_key keys t =
     (if tracker_closed t then (Inl closed_error, t)
      else (Inr (), t\<lparr>kv := fold ddel keys (kv t)\<rparr>))"

text \<open>
  \<open>_prefix_upper_bound\<close>: the smallest string above every string with the prefix, \<open>None\<close> when there
  is none. Code points end at \<open>0x10FFFF\<close>.
\<close>

definition prefix_upper_bound :: "key \<Rightarrow> key option" where
  "prefix_upper_bound p =
     (if p = [] then None
      else if last p \<ge> 0x10FFFF then None
      else Some (butlast p @ [last p + 1]))"

definition in_scan :: "key \<Rightarrow> key \<Rightarrow> bool" where
  "in_scan p k = (case prefix_upper_bound p of None \<Rightarrow> p \<le> k | Some u \<Rightarrow> p \<le> k \<and> k < u)"

definition delete_keys_with_prefix :: "key \<Rightarrow> tracker \<Rightarrow> nat res \<times> tracker" where
  "delete_keys_with_prefix p t =
     (if tracker_closed t then (Inl closed_error, t)
      else (Inr (length (filter (\<lambda>r. in_scan p (fst r)) (kv t))),
            t\<lparr>kv := filter (\<lambda>r. \<not> in_scan p (fst r)) (kv t)\<rparr>))"

definition tracker_close :: "tracker \<Rightarrow> tracker" where
  "tracker_close t = t\<lparr>tracker_closed := True\<rparr>"

definition kv_live :: "int \<Rightarrow> tracker \<Rightarrow> key \<Rightarrow> string option" where
  "kv_live now t key =
     (case dget (kv t) key of
        None \<Rightarrow> None
      | Some r \<Rightarrow> if row_expired now r then None else Some (row_value r))"

interpretation ts: ttl_store kv_live kv_get kv_put
proof unfold_locales
  fix t t' ttl :: int and k k' :: key and c :: tracker and v :: string
  show "fst (kv_get t k c) = kv_live t c k"
    by (auto simp: kv_get_def kv_live_def split: option.splits)
  show "t \<le> t' \<Longrightarrow> kv_live t' (snd (kv_get t k c)) k' = kv_live t' c k'"
    by (auto simp: kv_get_def kv_live_def row_expired_def split: option.splits)
  show "t' \<le> t + ttl \<Longrightarrow> kv_live t' (kv_put t k v ttl c) k = Some v"
    by (simp add: kv_put_def kv_live_def row_expired_def deadline_def)
  show "k' \<noteq> k \<Longrightarrow> kv_live t' (kv_put t k v ttl c) k' = kv_live t' c k'"
    by (simp add: kv_put_def kv_live_def)
qed

text \<open>A key written without a time to live never expires, whatever the clock says.\<close>

lemma kv_put_forever: "ttl \<le> 0 \<Longrightarrow> kv_live t' (kv_put t k v ttl c) k = Some v"
  by (simp add: kv_put_def kv_live_def row_expired_def deadline_def)

subsection \<open>Prefix scans\<close>

lemma less_append_snoc:
  fixes p :: "nat list"
  shows "k < p @ [Suc a] \<Longrightarrow> p @ [a] \<le> k \<Longrightarrow> \<exists>r. k = p @ a # r"
proof (induction p arbitrary: k)
  case Nil
  then show ?case by (cases k) auto
next
  case (Cons x p)
  then show ?case by (cases k) auto
qed

lemma append_less_snoc:
  fixes p :: "nat list"
  shows "p @ a # r < p @ [Suc a]" "p @ [a] \<le> p @ a # r"
  by (induction p) auto

lemma in_scan_upper:
  assumes "prefix_upper_bound p = Some u"
  shows "in_scan p k \<longleftrightarrow> prefix p k"
proof -
  from assms have ne: "p \<noteq> []" and u: "u = butlast p @ [Suc (last p)]"
    by (auto simp: prefix_upper_bound_def split: if_splits)
  have p: "p = butlast p @ [last p]" using ne by simp
  show ?thesis
  proof
    assume "in_scan p k"
    with assms u p have "butlast p @ [last p] \<le> k" "k < butlast p @ [Suc (last p)]"
      by (auto simp: in_scan_def)
    then obtain r where "k = butlast p @ last p # r" using less_append_snoc by blast
    with p show "prefix p k" by (metis append_Cons append_assoc append_Nil prefixI)
  next
    assume "prefix p k"
    then obtain r where "k = butlast p @ last p # r"
      using p by (metis append_Cons append_assoc append_Nil prefixE)
    with append_less_snoc [of "butlast p" "last p" r] assms u p show "in_scan p k"
      by (simp add: in_scan_def)
  qed
qed

lemma in_scan_empty: "in_scan [] k"
  by (simp add: in_scan_def prefix_upper_bound_def)

text \<open>What a prefix delete leaves for readers, and that it counts what it removes.\<close>

lemma delete_keys_with_prefix_live:
  assumes "\<not> tracker_closed t" and "last p < 0x10FFFF"
  shows "kv_live now (snd (delete_keys_with_prefix p t)) k = (if prefix p k then None else kv_live now t k)"
proof (cases "p = []")
  case True
  with assms(1) show ?thesis
    by (simp add: delete_keys_with_prefix_def in_scan_empty kv_live_def)
next
  case False
  with assms(2) obtain u where "prefix_upper_bound p = Some u"
    by (simp add: prefix_upper_bound_def)
  from in_scan_upper [OF this] assms(1) show ?thesis
    by (auto simp: delete_keys_with_prefix_def kv_live_def
        map_of_filter_key [where P = "\<lambda>k. \<not> prefix p k"] split: option.splits)
qed

section \<open>Properties\<close>

text \<open>The sweeper of the in-memory cache is invisible: after one of its rounds, stopped or not, every
  read at the same or a later instant returns what it would have returned without the round.\<close>

theorem cache_sweeper_transparent:
  assumes "distinct (dkeys (cache_entries c))" and "now \<le> now'"
  shows "fst (cache_get now' k (cache_sweep now c)) = fst (cache_get now' k c)"
  using cache_sweep_invisible [OF assms] by (simp add: cs.lookup_live)

theorem cache_sweeper_transparent_witness:
  "let c = cache_set 5 ''b'' (7 :: int) 100 (cache_set 0 ''a'' 6 3 new_cache) in
     distinct (dkeys (cache_entries c)) \<and> cache_entries (cache_sweep 10 c) = [(''b'', \<lparr>cv_object = 7, cv_expires = 105\<rparr>)] \<and>
     fst (cache_get 10 ''a'' (cache_sweep 10 c)) = fst (cache_get 10 ''a'' c)"
  using cache_sweeper_transparent
    [of "cache_set 5 ''b'' (7 :: int) 100 (cache_set 0 ''a'' 6 3 new_cache)" 10 10 "''a''"]
  by (simp add: cache_set_def new_cache_def cache_sweep_def Let_def)

text \<open>C25: \<open>delete_keys_with_prefix\<close> on an open tracker removes exactly the keys that start with the prefix,
  counts them, and leaves every other key readable as before.\<close>

theorem tracker_prefix_delete:
  assumes "\<not> tracker_closed t" and "last p < 0x10FFFF"
  shows "\<exists>n t'. delete_keys_with_prefix p t = (Inr n, t') \<and> length (kv t) = n + length (kv t') \<and>
    (\<forall>now k. fst (kv_get now k t') = (if prefix p k then None else fst (kv_get now k t)))"
proof -
  let ?t = "snd (delete_keys_with_prefix p t)" and ?n = "length (filter (\<lambda>r. in_scan p (fst r)) (kv t))"
  have "delete_keys_with_prefix p t = (Inr ?n, ?t)" using assms(1) by (simp add: delete_keys_with_prefix_def)
  moreover have "length (kv t) = ?n + length (kv ?t)"
    using assms(1) sum_length_filter_compl [of "\<lambda>r. in_scan p (fst r)" "kv t"] by (simp add: delete_keys_with_prefix_def)
  moreover have "\<forall>now k. fst (kv_get now k ?t) = (if prefix p k then None else fst (kv_get now k t))"
    using delete_keys_with_prefix_live [OF assms] by (simp add: ts.lookup_live)
  ultimately show ?thesis by blast
qed

theorem tracker_prefix_delete_witness:
  "let t = kv_put 0 [97, 98] ''x'' 0 (kv_put 0 [97, 99] ''y'' 0 (kv_put 0 [98] ''z'' 0 new_tracker)) in
   \<exists>t'. delete_keys_with_prefix [97] t = (Inr 2, t') \<and> fst (kv_get 9 [97, 98] t') = None \<and> fst (kv_get 9 [98] t') = Some ''z''"
proof -
  let ?t = "kv_put 0 [97, 98] ''x'' 0 (kv_put 0 [97, 99] ''y'' 0 (kv_put 0 [98] ''z'' 0 new_tracker))"
  obtain n t' where n: "delete_keys_with_prefix [97] ?t = (Inr n, t')"
      "length (kv ?t) = n + length (kv t')"
    and g: "\<forall>now k. fst (kv_get now k t') = (if prefix [97] k then None else fst (kv_get now k ?t))"
    using tracker_prefix_delete [of ?t "[97]"] by (auto simp: kv_put_def new_tracker_def)
  have "n = 2" using n(1)
    by (simp add: delete_keys_with_prefix_def kv_put_def new_tracker_def in_scan_def prefix_upper_bound_def)
  with n g show ?thesis
    by (auto simp: Let_def) (simp add: kv_get_def kv_put_def new_tracker_def row_expired_def deadline_def)
qed

text \<open>A value stored in the tracker with a time to live is read back up to the deadline and by no
  other key's write lost; one stored without is read back at any clock; \<open>get_key\<close> reports exactly this.\<close>

theorem tracker_read_back:
  assumes "\<not> tracker_closed t" and "ttl \<le> 0 \<or> now' \<le> now + ttl" and "k' \<noteq> k"
  shows "\<exists>t1 t2. set_key now k v ttl t = (Inr (), t1) \<and> set_key now2 k' v' ttl2 t1 = (Inr (), t2) \<and>
    fst (get_key now' k t2) = Inr (True, v)"
proof -
  let ?t1 = "kv_put now k v ttl t" and ?t2 = "kv_put now2 k' v' ttl2 (kv_put now k v ttl t)"
  have "kv_live now' ?t1 k = Some v"
  proof (cases "ttl \<le> 0")
    case True
    then show ?thesis by (rule kv_put_forever)
  next
    case False
    with assms(2) show ?thesis by (intro ts.put_hit) simp
  qed
  then have "fst (kv_get now' k ?t2) = Some v" using assms(3) by (simp add: ts.lookup_live ts.put_frame)
  moreover have "\<not> tracker_closed ?t1" "\<not> tracker_closed ?t2" using assms(1) by (simp_all add: kv_put_def)
  ultimately show ?thesis
    using assms(1) by (auto simp: set_key_def get_key_def split: prod.splits option.splits)
qed

theorem tracker_read_back_witness:
  "\<exists>t1 t2. set_key 10 [1] ''v'' 0 new_tracker = (Inr (), t1) \<and> set_key 11 [2] ''w'' 5 t1 = (Inr (), t2) \<and>
    fst (get_key 1000000 [1] t2) = Inr (True, ''v'')"
  using tracker_read_back [of new_tracker 0 1000000 10 "[2]" "[1]" "''v''" 11 "''w''" 5] by (simp add: new_tracker_def)

end
