(* ===== verification/Registry.thy ===== *)
theory Registry
  imports Schema Tracker
begin

text \<open>
  \<open>src/eds/util/http.py\<close> (the retrying request) and \<open>src/eds/registry/__init__.py\<close> (the schema
  registry): reads go to the in-memory cache, then to the tracker, then to the API; writes go to the
  cache for a day and to the tracker for good.

  The HTTP transport is a parameter: for one request, what the session answers, either the text of a
  raised exception or a status and a body. A registry operation reads the monotonic clock of the cache
  and the wall clock of the tracker; the readings are the fields of a \<open>clock\<close>. The text of
  a JSON syntax error is not reproduced. The tracker compares keys by code point; \<open>codes\<close> gives the
  bytes of a key, which is injective and monotone on UTF-8 strings.
\<close>

section \<open>The retrying request\<close>

type_synonym http_outcome = "string + (int \<times> string)"

definition RETRY_STATUS :: "int list" where
  "RETRY_STATUS = [408, 429, 502, 503, 504]"

definition contains :: "string \<Rightarrow> string \<Rightarrow> bool" where
  "contains sub s \<longleftrightarrow> sublist sub s"

text \<open>\<open>HttpRetry._should_retry\<close>; times are in milliseconds.\<close>

definition should_retry :: "int \<Rightarrow> int \<Rightarrow> int \<Rightarrow> http_outcome \<Rightarrow> bool" where
  "should_retry timeout started now r =
     (case r of
        Inl msg \<Rightarrow>
          if contains ''connection reset'' (lower msg) \<or> contains ''connection refused'' (lower msg)
          then started + timeout > now else False
      | Inr (status, _) \<Rightarrow> status \<in> set RETRY_STATUS)"

text \<open>
  \<open>HttpRetry.do\<close> on the sequence of what the environment delivers at each attempt: the outcome of the
  send, the clock read by \<open>_should_retry\<close>, and a draw \<open>u\<close> from which \<open>randrange(k)\<close> is \<open>u mod k\<close>. The
  result is the returned response or raised exception with the sleeps taken; there is none while the
  environment keeps asking for a retry. \<open>n\<close> is \<open>_attempts\<close> before the attempt.
\<close>

fun http_do :: "int \<Rightarrow> int \<Rightarrow> nat \<Rightarrow> (http_outcome \<times> int \<times> int) list \<Rightarrow> (http_outcome \<times> int list) option" where
  "http_do timeout started n [] = None"
| "http_do timeout started n ((r, now, u) # env) =
     (if \<not> should_retry timeout started now r then Some (r, [])
      else map_option (\<lambda>(x, sleeps). (x, (100 + u mod (500 * int (Suc n))) # sleeps)) (http_do timeout started (Suc n) env))"

section \<open>Keys\<close>

definition PREFIX :: string where "PREFIX = ''registry:''"

definition DEFAULT_CACHE :: int where "DEFAULT_CACHE = 86400000"

definition schema_cache_key :: "string \<Rightarrow> string \<Rightarrow> string" where
  "schema_cache_key table version = PREFIX @ table @ ''-'' @ version"

definition version_cache_key :: "string \<Rightarrow> string" where
  "version_cache_key table = PREFIX @ table @ '':version''"

definition codes :: "string \<Rightarrow> key" where
  "codes s = map of_char s"

definition sort_table :: "(string \<times> schema) list \<Rightarrow> (string \<times> schema) list \<times> (string \<times> string) list" where
  "sort_table by_object =
     foldl (\<lambda>(kv, otm) (obj, d). (dset (s_table d) d kv, dset (s_table d) obj otm)) ([], []) by_object"

section \<open>The registry\<close>

text \<open>The cache holds both versions and schemas, under keys of different shapes.\<close>

datatype cached = CVersion string | CSchema schema

record clock =
  ck_get :: int
  ck_set :: int
  ck_wall :: int

record api_registry =
  ar_api_url :: string
  ar_user_agent :: string
  ar_tracker :: "tracker option"
  ar_cache :: "cached in_memory_cache"
  ar_schema :: "(string \<times> schema) list"
  ar_objects :: "(string \<times> string) list"
  ar_closed :: bool

definition get_latest_schema :: "api_registry \<Rightarrow> (string \<times> schema) list" where
  "get_latest_schema r = ar_schema r"

definition cache_put :: "clock \<Rightarrow> string \<Rightarrow> cached \<Rightarrow> api_registry \<Rightarrow> api_registry" where
  "cache_put ck k v r = r\<lparr>ar_cache := cache_set (ck_set ck) k v DEFAULT_CACHE (ar_cache r)\<rparr>"

text \<open>A read of the tracker when there is one.\<close>

definition tracker_read :: "clock \<Rightarrow> string \<Rightarrow> api_registry \<Rightarrow> string option res \<times> api_registry" where
  "tracker_read ck k r =
     (case ar_tracker r of
        None \<Rightarrow> (Inr None, r)
      | Some t \<Rightarrow>
          (case get_key (ck_wall ck) (codes k) t of
             (Inl e, t') \<Rightarrow> (Inl e, r\<lparr>ar_tracker := Some t'\<rparr>)
           | (Inr (found, v), t') \<Rightarrow> (Inr (if found then Some v else None), r\<lparr>ar_tracker := Some t'\<rparr>)))"

definition tracker_write :: "clock \<Rightarrow> string \<Rightarrow> string \<Rightarrow> api_registry \<Rightarrow> unit res \<times> api_registry" where
  "tracker_write ck k v r =
     (case ar_tracker r of
        None \<Rightarrow> (Inr (), r)
      | Some t \<Rightarrow>
          (case set_key (ck_wall ck) (codes k) v 0 t of
             (res, t') \<Rightarrow> (res, r\<lparr>ar_tracker := Some t'\<rparr>)))"

definition get_table_version :: "clock \<Rightarrow> string \<Rightarrow> api_registry \<Rightarrow> (bool \<times> string) res \<times> api_registry" where
  "get_table_version ck table r =
     (let key = version_cache_key table in
      case cache_get (ck_get ck) key (ar_cache r) of
        (Some (CVersion v), c) \<Rightarrow> (Inr (True, v), r\<lparr>ar_cache := c\<rparr>)
      | (Some (CSchema _), c) \<Rightarrow> (Inl (TypeError key), r\<lparr>ar_cache := c\<rparr>)
      | (None, c) \<Rightarrow>
          andthen_st (tracker_read ck key (r\<lparr>ar_cache := c\<rparr>)) (\<lambda>found r'.
            case found of
              Some version \<Rightarrow> (Inr (True, version), cache_put ck key (CVersion version) r')
            | None \<Rightarrow> (Inr (False, ''''), r')))"

definition set_table_version :: "clock \<Rightarrow> string \<Rightarrow> string \<Rightarrow> api_registry \<Rightarrow> unit res \<times> api_registry" where
  "set_table_version ck table version r =
     (let key = version_cache_key table in
      tracker_write ck key version (cache_put ck key (CVersion version) r))"

text \<open>\<open>type(x).__name__\<close> of what \<open>json.loads\<close> returns.\<close>

fun type_name :: "pyval \<Rightarrow> string" where
  "type_name PNone = ''NoneType''"
| "type_name (PBool _) = ''bool''"
| "type_name (PInt _) = ''int''"
| "type_name (PFloat _) = ''float''"
| "type_name (PStr _) = ''str''"
| "type_name (PList _) = ''list''"
| "type_name (PDict _) = ''dict''"
| "type_name (PRaw _) = ''RawJson''"
| "type_name (PStruct _) = ''struct''"
| "type_name (PBytes _) = ''bytes''"
| "type_name (POther t) = t"

definition decode_error :: "string \<Rightarrow> string \<Rightarrow> string" where
  "decode_error table version =
     ''error decoding schema for table: '' @ table @ '', modelVersion: '' @ version @ '': ''"

definition decode_schema :: "string \<Rightarrow> string \<Rightarrow> string \<Rightarrow> schema res" where
  "decode_schema body table version =
     (case loads opts_default body of
        None \<Rightarrow> Inl (ValueError (decode_error table version))
      | Some PNone \<Rightarrow> Inr empty_schema
      | Some (PDict d) \<Rightarrow> schema_from_dict d
      | Some v \<Rightarrow> Inl (ValueError (decode_error table version @ ''cannot unmarshal '' @ type_name v @ '' into Schema'')))"

definition get_schema ::
    "(string \<Rightarrow> http_outcome) \<Rightarrow> clock \<Rightarrow> string \<Rightarrow> string \<Rightarrow> api_registry \<Rightarrow> schema res \<times> api_registry" where
  "get_schema session ck table version r =
     (let key = schema_cache_key table version in
      case cache_get (ck_get ck) key (ar_cache r) of
        (Some (CSchema s), c) \<Rightarrow> (Inr s, r\<lparr>ar_cache := c\<rparr>)
      | (Some (CVersion _), c) \<Rightarrow> (Inl (TypeError key), r\<lparr>ar_cache := c\<rparr>)
      | (None, c) \<Rightarrow>
          andthen_st (tracker_read ck key (r\<lparr>ar_cache := c\<rparr>)) (\<lambda>found r'.
            case found of
              Some valstr \<Rightarrow>
                (case decode_schema valstr table version of
                   Inl e \<Rightarrow> (Inl e, r')
                 | Inr s \<Rightarrow> (Inr s, cache_put ck key (CSchema s) r'))
            | None \<Rightarrow>
                let obj = (case dget (ar_objects r') table of Some x \<Rightarrow> if x = '''' then table else x | None \<Rightarrow> table);
                    url = ar_api_url r' @ ''/v3/schema/'' @ obj @ ''/'' @ version in
                (case session url of
                   Inl e \<Rightarrow> (Inl (ValueError (''error fetching schema: '' @ e)), r')
                 | Inr (status, body) \<Rightarrow>
                     if status \<noteq> 200 then
                       (Inl (ValueError (''error fetching schema for table: '' @ table @ '', modelVersion: '' @ version @
                          ''. status code was: '' @ str_int status @ '', '' @ body)), r')
                     else
                       (case decode_schema body table version of
                          Inl e \<Rightarrow> (Inl e, r')
                        | Inr s \<Rightarrow>
                            andthen_st (tracker_write ck key (stringify (schema_struct s))
                                         (cache_put ck key (CSchema s) r'))
                              (\<lambda>_ r''. (Inr s, r''))))))"

definition registry_close :: "api_registry \<Rightarrow> api_registry" where
  "registry_close r = (if ar_closed r then r else r\<lparr>ar_closed := True, ar_cache := cache_close (ar_cache r)\<rparr>)"

subsection \<open>Construction\<close>

definition named_schema :: "string \<times> pyval \<Rightarrow> (string \<times> schema) res" where
  "named_schema p =
     (case p of (obj, v) \<Rightarrow>
        (case v of
           PDict d \<Rightarrow> andthen (schema_from_dict d) (\<lambda>s. Inr (obj, s))
         | _ \<Rightarrow> Inl (ValueError (''error decoding schema: cannot unmarshal '' @ type_name v @ '' into Schema''))))"

definition decode_schema_map :: "string \<Rightarrow> (string \<times> schema) list res" where
  "decode_schema_map body =
     (case loads opts_default body of
        None \<Rightarrow> Inl (ValueError ''error decoding schema: '')
      | Some PNone \<Rightarrow> Inr []
      | Some (PDict raw) \<Rightarrow>
          mapM named_schema raw
      | Some v \<Rightarrow> Inl (ValueError (''error decoding schema: cannot unmarshal '' @ type_name v @ '' into schema map'')))"

definition fetch_error :: "int \<Rightarrow> string \<Rightarrow> exc" where
  "fetch_error status body =
     (let message = (case loads opts_default body of
                       Some (PDict d) \<Rightarrow> (case dget d ''message'' of Some (PStr m) \<Rightarrow> m | _ \<Rightarrow> '''')
                     | _ \<Rightarrow> '''') in
      if message \<noteq> '''' then ValueError (''error fetching schema: '' @ message)
      else ValueError (''error fetching schema: '' @ str_int status @ '': '' @ body))"

text \<open>One round of the seeding loop: tracker first (when there is one), then the cache with time to live 0.\<close>

definition seed_one :: "clock \<Rightarrow> schema \<Rightarrow> api_registry \<Rightarrow> unit res \<times> api_registry" where
  "seed_one ck s r =
     (let key = schema_cache_key (s_table s) (s_model_version s) in
      andthen_st (tracker_write ck key (stringify (schema_struct s)) r) (\<lambda>_ r1.
      andthen_st (tracker_write ck (version_cache_key (s_table s)) (s_model_version s) r1) (\<lambda>_ r2.
        (Inr (), r2\<lparr>ar_cache := cache_set (ck_set ck) key (CSchema s) 0 (ar_cache r2)\<rparr>))))"

fun seed_all :: "clock \<Rightarrow> schema list \<Rightarrow> api_registry \<Rightarrow> unit res \<times> api_registry" where
  "seed_all ck [] r = (Inr (), r)"
| "seed_all ck (s # ss) r = andthen_st (seed_one ck s r) (\<lambda>_. seed_all ck ss)"

text \<open>
  \<open>_new_api_registry_modified\<close>, given what the retrying fetch of the full schema ended with. An
  exception leaves the tracker with what was written before it.
\<close>

definition new_api_registry ::
    "clock \<Rightarrow> string \<Rightarrow> string \<Rightarrow> tracker option \<Rightarrow> http_outcome \<Rightarrow> api_registry res \<times> tracker option" where
  "new_api_registry ck api_url eds_version t fetched =
     (case fetched of
        Inl e \<Rightarrow> (Inl (ValueError (''error fetching schema: '' @ e)), t)
      | Inr (status, body) \<Rightarrow>
          if status \<noteq> 200 then (Inl (fetch_error status body), t)
          else (case decode_schema_map body of
                  Inl e \<Rightarrow> (Inl e, t)
                | Inr by_object \<Rightarrow>
                    (case sort_table by_object of (sm, objs) \<Rightarrow>
                       (case seed_all ck (map snd sm)
                          \<lparr>ar_api_url = api_url, ar_user_agent = ''Shopmonkey EDS Server/'' @ eds_version,
                            ar_tracker = t, ar_cache = new_cache, ar_schema = sm, ar_objects = objs,
                            ar_closed = False\<rparr> of
                          (Inl e, r) \<Rightarrow> (Inl e, ar_tracker r)
                        | (Inr _, r) \<Rightarrow> (Inr r, ar_tracker r)))))"

definition private_modifier :: "string \<Rightarrow> string res" where
  "private_modifier apikey =
     (if apikey = '''' then Inl (ValueError ''SM_API_PRIVATE_SCHEMA_KEY is not set; see the backend for details'')
      else Inr (''/private?apikey='' @ apikey))"

definition schema_url :: "string \<Rightarrow> string \<Rightarrow> string" where
  "schema_url api_url url_modifier = api_url @ ''/v3/schema'' @ url_modifier"

section \<open>Lemmas on the retrying request\<close>

lemma http_do_returns:
  "\<exists>x \<in> set env. \<not> should_retry timeout started (fst (snd x)) (fst x) \<Longrightarrow> \<exists>y. http_do timeout started n env = Some y"
  by (induction timeout started n env rule: http_do.induct) auto

lemma http_do_sleeps:
  "http_do timeout started n env = Some (r, sleeps) \<Longrightarrow> i < length sleeps \<Longrightarrow>
    100 \<le> sleeps ! i \<and> sleeps ! i < 100 + 500 * int (n + i + 1)"
proof (induction timeout started n env arbitrary: sleeps i rule: http_do.induct)
  case (2 timeout started n r now u env)
  then show ?case by (cases i) (fastforce split: if_splits)+
qed simp

section \<open>Keys of the registry\<close>

text \<open>Model versions are hashes: no separator of the key syntax occurs in them.\<close>

definition wf_version :: "string \<Rightarrow> bool" where
  "wf_version v \<longleftrightarrow> CHR ''-'' \<notin> set v \<and> CHR '':'' \<notin> set v"

lemma codes_inject [simp]: "codes a = codes b \<longleftrightarrow> a = b"
  by (auto simp: codes_def inj_map_eq_map inj_on_def)

lemma version_key_inject [key_simps]: "version_cache_key a = version_cache_key b \<longleftrightarrow> a = b"
  by (simp add: version_cache_key_def)

lemma schema_key_inject [key_simps]:
  assumes "wf_version v" "wf_version v'"
  shows "schema_cache_key t v = schema_cache_key t' v' \<longleftrightarrow> t = t' \<and> v = v'"
proof
  assume "schema_cache_key t v = schema_cache_key t' v'"
  then have "rpartition_at (CHR ''-'') (t @ CHR ''-'' # v) = rpartition_at (CHR ''-'') (t' @ CHR ''-'' # v')"
    by (simp add: schema_cache_key_def)
  with assms show "t = t' \<and> v = v'" by (simp add: wf_version_def)
qed simp

lemma first_separator: "a @ x # b = c @ y # d \<Longrightarrow> y \<notin> set a \<Longrightarrow> x \<notin> set c \<Longrightarrow> x = y"
proof (induction a arbitrary: c)
  case Nil
  then show ?case by (cases c) auto
next
  case (Cons z a)
  then show ?case by (cases c) auto
qed

lemma keys_disjoint [key_simps]:
  assumes "wf_version v"
  shows "schema_cache_key t v \<noteq> version_cache_key t'"
proof
  assume "schema_cache_key t v = version_cache_key t'"
  then have e: "t @ CHR ''-'' # v = t' @ '':version''" by (simp add: schema_cache_key_def version_cache_key_def)
  from arg_cong [OF e, of rev] have r: "rev v @ CHR ''-'' # rev t = ''noisrev'' @ CHR '':'' # rev t'" by simp
  have "CHR '':'' \<notin> set (rev v)" "CHR ''-'' \<notin> set ''noisrev''" using assms by (auto simp: wf_version_def)
  from first_separator [OF r this] show False by simp
qed

lemma prefix_keys [simp]: "prefix PREFIX (schema_cache_key t v)" "prefix PREFIX (version_cache_key t)"
  by (simp_all add: schema_cache_key_def version_cache_key_def)

section \<open>The registry implements a persistent store\<close>

text \<open>The rows the tracker holds under registry keys: the abstract state of the registry.\<close>

definition row :: "api_registry \<Rightarrow> string \<Rightarrow> kv_row option" where
  "row r k = (case ar_tracker r of None \<Rightarrow> None | Some t \<Rightarrow> dget (kv t) (codes k))"

definition backs :: "kv_row option \<Rightarrow> cached \<Rightarrow> bool" where
  "backs x v =
     (case v of
        CVersion s \<Rightarrow> x = Some \<lparr>row_value = s, row_expires_at = None\<rparr>
      | CSchema s \<Rightarrow> (\<exists>text s'. x = Some \<lparr>row_value = text, row_expires_at = None\<rparr> \<and>
                       (\<forall>t m. decode_schema text t m = Inr s') \<and> norm_schema s' = norm_schema s))"

definition kind_ok :: "string \<Rightarrow> cached \<Rightarrow> bool" where
  "kind_ok k v =
     (case v of CVersion _ \<Rightarrow> \<exists>t. k = version_cache_key t
      | CSchema _ \<Rightarrow> \<exists>t m. wf_version m \<and> k = schema_cache_key t m)"

text \<open>Every cache entry, live or dead, agrees with a tracker row that does not expire.\<close>

definition reg_inv :: "api_registry \<Rightarrow> bool" where
  "reg_inv r \<longleftrightarrow>
     (\<exists>t. ar_tracker r = Some t \<and> \<not> tracker_closed t) \<and>
     (\<forall>k x. prefix PREFIX k \<longrightarrow> row r k = Some x \<longrightarrow> row_expires_at x = None) \<and>
     (\<forall>k e. dget (cache_entries (ar_cache r)) k = Some e \<longrightarrow> kind_ok k (cv_object e) \<and> backs (row r k) (cv_object e))"

lemma row_cache [simp]: "row (r\<lparr>ar_cache := c\<rparr>) = row r" "row (cache_put ck k v r) = row r"
  by (simp_all add: row_def cache_put_def fun_eq_iff)

lemma cache_read_inv:
  assumes "reg_inv r" "cache_get now k (ar_cache r) = (x, c)"
  shows "reg_inv (r\<lparr>ar_cache := c\<rparr>) \<and> (\<forall>v. x = Some v \<longrightarrow> kind_ok k v \<and> backs (row r k) v)"
  using assms by (auto simp: cache_get_def reg_inv_def split: option.splits if_splits)

lemma tracker_read_inv:
  assumes "reg_inv r" "prefix PREFIX k"
  shows "tracker_read ck k r = (Inr (map_option row_value (row r k)), r)"
proof -
  obtain t where t: "ar_tracker r = Some t" "\<not> tracker_closed t" using assms(1) by (auto simp: reg_inv_def)
  have r: "r\<lparr>ar_tracker := Some t\<rparr> = r" using t(1) by (metis api_registry.surjective api_registry.update_convs(3))
  show ?thesis
  proof (cases "dget (kv t) (codes k)")
    case None
    with t r show ?thesis by (simp add: tracker_read_def get_key_def kv_get_def row_def)
  next
    case (Some x)
    with assms t(1) have "row_expires_at x = None" by (auto simp: reg_inv_def row_def)
    with t Some r show ?thesis by (simp add: tracker_read_def get_key_def kv_get_def row_def row_expired_def)
  qed
qed

lemma cache_put_inv:
  "reg_inv r \<Longrightarrow> kind_ok k v \<Longrightarrow> backs (row r k) v \<Longrightarrow> reg_inv (cache_put ck k v r)"
  by (auto simp: reg_inv_def cache_put_def cache_set_def)

text \<open>A write-through: cache, then tracker. It leaves the invariant and changes one row.\<close>

lemma write_through:
  assumes "reg_inv r" "kind_ok k v" "backs (Some \<lparr>row_value = x, row_expires_at = None\<rparr>) v"
  shows "\<exists>r'. tracker_write ck k x (cache_put ck k v r) = (Inr (), r') \<and> reg_inv r' \<and>
    row r' = (row r)(k \<mapsto> \<lparr>row_value = x, row_expires_at = None\<rparr>) \<and> ar_objects r' = ar_objects r \<and>
    cache_entries (ar_cache r') = dset k \<lparr>cv_object = v, cv_expires = ck_set ck + DEFAULT_CACHE\<rparr> (cache_entries (ar_cache r))"
proof -
  obtain t where t: "ar_tracker r = Some t" "\<not> tracker_closed t" using assms(1) by (auto simp: reg_inv_def)
  define t' where "t' = t\<lparr>kv := dset (codes k) \<lparr>row_value = x, row_expires_at = None\<rparr> (kv t)\<rparr>"
  define r' where "r' = (cache_put ck k v r)\<lparr>ar_tracker := Some t'\<rparr>"
  have w: "tracker_write ck k x (cache_put ck k v r) = (Inr (), r')"
    using t by (simp add: tracker_write_def cache_put_def set_key_def kv_put_def deadline_def r'_def t'_def)
  have row: "row r' = (row r)(k \<mapsto> \<lparr>row_value = x, row_expires_at = None\<rparr>)"
    using t by (auto simp: row_def r'_def t'_def fun_eq_iff)
  have "reg_inv r'"
    unfolding reg_inv_def row
    using assms t by (auto simp: r'_def t'_def cache_put_def cache_set_def reg_inv_def)
  with w row show ?thesis by (auto simp: r'_def cache_put_def cache_set_def)
qed

lemma stringify_schema:
  assumes "distinct (dkeys (s_properties s))"
  shows "decode_schema (stringify (schema_struct s)) table version = Inr (norm_schema s)"
proof -
  obtain d where d: "canon True (schema_struct s) = PDict d" "schema_from_dict d = Inr (norm_schema s)"
    using schema_from_dict_canon by blast
  obtain t where "marshal True (schema_struct s) = Inr t" "loads opts_default t = Some (canon True (schema_struct s))"
    using loads_marshal [OF plain_schema [OF assms], of opts_default True] by auto
  with d show ?thesis by (simp add: stringify_def decode_schema_def)
qed

lemma decode_schema_distinct: "decode_schema body table version = Inr s \<Longrightarrow> distinct (dkeys (s_properties s))"
  by (auto simp: decode_schema_def empty_schema_def split: option.splits pyval.splits
      intro: schema_from_dict_distinct dest: loads_distinct_keys)

lemma decode_schema_any: "decode_schema body table version = Inr s \<Longrightarrow> decode_schema body t m = Inr s"
  by (auto simp: decode_schema_def split: option.splits pyval.splits)

section \<open>What the registry promises\<close>

definition versions :: "api_registry \<Rightarrow> string \<Rightarrow> string option" where
  "versions r table = map_option row_value (row r (version_cache_key table))"

text \<open>The schema stored for a table and version, as far as the JSON form determines it.\<close>

definition schemas :: "api_registry \<Rightarrow> string \<Rightarrow> string \<Rightarrow> schema option" where
  "schemas r table version =
     (case row r (schema_cache_key table version) of
        None \<Rightarrow> None
      | Some x \<Rightarrow> (case decode_schema (row_value x) table version of Inl _ \<Rightarrow> None | Inr s \<Rightarrow> Some (norm_schema s)))"

lemma versions_row: "row r' = row r \<Longrightarrow> versions r' = versions r"
  by (simp add: versions_def fun_eq_iff)

lemma schemas_row: "row r' = row r \<Longrightarrow> schemas r' = schemas r"
  by (simp add: schemas_def fun_eq_iff)

lemmas keys_disjoint' [key_simps] = keys_disjoint [symmetric]

lemma kind_version: "kind_ok (version_cache_key t) v \<Longrightarrow> \<exists>s. v = CVersion s"
  by (cases v) (auto simp: kind_ok_def key_simps)

lemma kind_simps [simp]:
  "kind_ok (version_cache_key t) (CVersion s)"
  "wf_version m \<Longrightarrow> kind_ok (schema_cache_key t m) (CSchema x)"
  by (auto simp: kind_ok_def)

lemma backs_version [simp]: "backs (Some \<lparr>row_value = s, row_expires_at = None\<rparr>) (CVersion s)"
  by (simp add: backs_def)

lemma row_no_expiry: "reg_inv r \<Longrightarrow> prefix PREFIX k \<Longrightarrow> row r k = Some x \<Longrightarrow> x = \<lparr>row_value = row_value x, row_expires_at = None\<rparr>"
  by (simp add: reg_inv_def)

lemma kind_schema: "wf_version m \<Longrightarrow> kind_ok (schema_cache_key t m) v \<Longrightarrow> \<exists>s. v = CSchema s"
  by (cases v) (auto simp: kind_ok_def key_simps)

lemma get_table_version_spec:
  assumes "reg_inv r"
  shows "\<exists>r'. get_table_version ck table r =
      (Inr (case versions r table of None \<Rightarrow> (False, '''') | Some v \<Rightarrow> (True, v)), r') \<and> reg_inv r' \<and> row r' = row r"
proof -
  let ?k = "version_cache_key table"
  obtain x c where c: "cache_get (ck_get ck) ?k (ar_cache r) = (x, c)" by (cases "cache_get (ck_get ck) ?k (ar_cache r)")
  let ?r = "r\<lparr>ar_cache := c\<rparr>"
  note inv = cache_read_inv [OF assms c]
  show ?thesis
  proof (cases x)
    case (Some v)
    with inv obtain s where "v = CVersion s" using kind_version by blast
    with Some inv c show ?thesis by (auto simp: get_table_version_def versions_def backs_def)
  next
    case None
    have t: "tracker_read ck ?k ?r = (Inr (map_option row_value (row r ?k)), ?r)"
      using tracker_read_inv [of ?r ?k] inv by simp
    show ?thesis
    proof (cases "row r ?k")
      case None
      with \<open>x = None\<close> c t inv show ?thesis by (simp add: get_table_version_def versions_def)
    next
      case (Some y)
      then have "backs (row ?r ?k) (CVersion (row_value y))"
        using row_no_expiry [OF assms _ Some] by (simp add: backs_def)
      then have "reg_inv (cache_put ck ?k (CVersion (row_value y)) ?r)"
        using inv by (intro cache_put_inv) auto
      with Some \<open>x = None\<close> c t show ?thesis by (simp add: get_table_version_def versions_def)
    qed
  qed
qed

lemma set_table_version_spec:
  assumes "reg_inv r"
  shows "\<exists>r'. set_table_version ck table version r = (Inr (), r') \<and> reg_inv r' \<and>
    versions r' = (versions r)(table \<mapsto> version) \<and>
    (\<forall>t m. wf_version m \<longrightarrow> schemas r' t m = schemas r t m)"
proof -
  obtain r' where "set_table_version ck table version r = (Inr (), r')" "reg_inv r'"
    "row r' = (row r)(version_cache_key table \<mapsto> \<lparr>row_value = version, row_expires_at = None\<rparr>)"
    using write_through [OF assms, of "version_cache_key table" "CVersion version" version ck]
    by (auto simp: set_table_version_def Let_def)
  then show ?thesis
    by (auto simp: versions_def schemas_def key_simps fun_eq_iff)
qed

text \<open>
  One call of \<open>get_schema\<close>, whatever the network does: the invariant and all versions are kept; a returned
  schema is the one stored afterwards; an error stores nothing; and a schema that was stored is returned,
  so it never changes.
\<close>

definition schema_read :: "string \<Rightarrow> string \<Rightarrow> api_registry \<Rightarrow> schema res \<times> api_registry \<Rightarrow> bool" where
  "schema_read table version r out =
     (case out of (res, r') \<Rightarrow>
        reg_inv r' \<and> versions r' = versions r \<and>
        (\<forall>t m. wf_version m \<longrightarrow> (t, m) \<noteq> (table, version) \<longrightarrow> schemas r' t m = schemas r t m) \<and>
        (case res of Inl _ \<Rightarrow> row r' = row r | Inr s \<Rightarrow> schemas r' table version = Some (norm_schema s)) \<and>
        (\<forall>s. schemas r table version = Some s \<longrightarrow> row r' = row r \<and> (\<exists>s'. res = Inr s' \<and> norm_schema s' = s)))"

lemma schema_read_same:
  "reg_inv r' \<Longrightarrow> row r' = row r \<Longrightarrow> schemas r table version = Some (norm_schema s) \<Longrightarrow>
    schema_read table version r (Inr s, r')"
  by (simp add: schema_read_def versions_row [of r' r] schemas_row [of r' r])

lemma schema_read_error:
  "reg_inv r' \<Longrightarrow> row r' = row r \<Longrightarrow> schemas r table version = None \<Longrightarrow> schema_read table version r (Inl e, r')"
  by (simp add: schema_read_def versions_row [of r' r] schemas_row [of r' r])

lemma schema_read_frame: "row r' = row r \<Longrightarrow> schema_read table version r' out = schema_read table version r out"
  by (cases out; cases "fst out") (simp_all add: schema_read_def versions_row [of r' r] schemas_row [of r' r])

lemma backs_schemas:
  "backs (row r (schema_cache_key t m)) (CSchema s) \<Longrightarrow> schemas r t m = Some (norm_schema s)"
  by (auto simp: backs_def schemas_def)

lemma get_schema_fetched:
  assumes inv: "reg_inv r" and wf: "wf_version version" and none: "row r (schema_cache_key table version) = None"
    and dec: "decode_schema body table version = Inr s"
  shows "schema_read table version r
    (andthen_st (tracker_write ck (schema_cache_key table version) (stringify (schema_struct s))
       (cache_put ck (schema_cache_key table version) (CSchema s) r)) (\<lambda>_ r''. (Inr s, r'')))"
proof -
  let ?k = "schema_cache_key table version"
  note st = stringify_schema [OF decode_schema_distinct [OF dec]]
  then have "backs (Some \<lparr>row_value = stringify (schema_struct s), row_expires_at = None\<rparr>) (CSchema s)"
    by (simp add: backs_def)
  from write_through [OF inv kind_simps(2) [OF wf] this, of ck table] obtain r'
    where w: "tracker_write ck ?k (stringify (schema_struct s)) (cache_put ck ?k (CSchema s) r) = (Inr (), r')"
      "reg_inv r'" and row: "row r' = (row r)(?k \<mapsto> \<lparr>row_value = stringify (schema_struct s), row_expires_at = None\<rparr>)"
    by blast
  have "versions r' = versions r" by (simp add: versions_def row key_simps wf fun_eq_iff)
  moreover have "schemas r' t m = schemas r t m" if "wf_version m" "(t, m) \<noteq> (table, version)" for t m
    using that wf by (auto simp: schemas_def row schema_key_inject)
  moreover have "schemas r' table version = Some (norm_schema s)" by (simp add: schemas_def row st)
  moreover have "schemas r table version = None" by (simp add: schemas_def none)
  ultimately show ?thesis using w by (simp add: schema_read_def)
qed

lemma get_schema_spec:
  assumes "reg_inv r" "wf_version version"
  shows "schema_read table version r (get_schema session ck table version r)"
proof -
  let ?k = "schema_cache_key table version"
  obtain x c where c: "cache_get (ck_get ck) ?k (ar_cache r) = (x, c)" by (cases "cache_get (ck_get ck) ?k (ar_cache r)")
  let ?r = "r\<lparr>ar_cache := c\<rparr>"
  note inv = cache_read_inv [OF assms(1) c]
  show ?thesis
  proof (cases x)
    case (Some v)
    with inv obtain s where v: "v = CSchema s" using kind_schema [OF assms(2)] by blast
    with Some inv have "schemas r table version = Some (norm_schema s)" by (auto intro: backs_schemas)
    with v Some inv c show ?thesis by (auto simp: get_schema_def intro: schema_read_same)
  next
    case None
    have t: "tracker_read ck ?k ?r = (Inr (map_option row_value (row r ?k)), ?r)"
      using tracker_read_inv [of ?r ?k] inv by simp
    show ?thesis
    proof (cases "row r ?k")
      case None
      have err: "schema_read table version r (Inl e, ?r)" for e
        using inv None by (intro schema_read_error) (simp_all add: schemas_def)
      have ok: "schema_read table version r
          (andthen_st (tracker_write ck ?k (stringify (schema_struct s)) (cache_put ck ?k (CSchema s) ?r)) (\<lambda>_ r''. (Inr s, r'')))"
        if "decode_schema body table version = Inr s" for body s
        using get_schema_fetched [OF _ assms(2) _ that, of ?r ck] inv None schema_read_frame [of ?r r] by simp
      show ?thesis
        by (simp add: get_schema_def c t \<open>x = None\<close> None Let_def) (auto split: sum.split simp: err ok)
    next
      case (Some y)
      show ?thesis
      proof (cases "decode_schema (row_value y) table version")
        case (Inl e)
        with Some have "schemas r table version = None" by (simp add: schemas_def)
        with Inl Some \<open>x = None\<close> c t inv show ?thesis by (auto simp: get_schema_def intro: schema_read_error)
      next
        case (Inr s)
        have "backs (row ?r ?k) (CSchema s)"
          using row_no_expiry [OF assms(1) _ Some] decode_schema_any [OF Inr] Some by (auto simp: backs_def)
        then have "reg_inv (cache_put ck ?k (CSchema s) ?r)" "schemas r table version = Some (norm_schema s)"
          using inv assms(2) by (auto intro: cache_put_inv backs_schemas)
        with Inr Some \<open>x = None\<close> c t show ?thesis by (auto simp: get_schema_def intro: schema_read_same)
      qed
    qed
  qed
qed

section \<open>Seeding\<close>

definition seed_ok :: "schema \<Rightarrow> bool" where
  "seed_ok s \<longleftrightarrow> wf_version (s_model_version s) \<and> distinct (dkeys (s_properties s))"

text \<open>While seeding, the cache holds only schemas that expired when they were written.\<close>

definition seeding :: "int \<Rightarrow> api_registry \<Rightarrow> bool" where
  "seeding now r \<longleftrightarrow> reg_inv r \<and>
     (\<forall>k e. dget (cache_entries (ar_cache r)) k = Some e \<longrightarrow> cv_expires e = now \<and> (\<exists>s. cv_object e = CSchema s))"

lemma tracker_write_open:
  assumes "ar_tracker r = Some t" "\<not> tracker_closed t"
  shows "\<exists>r' t'. tracker_write ck k x r = (Inr (), r') \<and> ar_tracker r' = Some t' \<and> \<not> tracker_closed t' \<and>
    ar_cache r' = ar_cache r \<and> row r' = (row r)(k \<mapsto> \<lparr>row_value = x, row_expires_at = None\<rparr>)"
  using assms by (auto simp: tracker_write_def set_key_def kv_put_def deadline_def row_def fun_eq_iff)

lemma seed_one_spec:
  assumes "seeding (ck_set ck) r" "seed_ok s"
  shows "\<exists>r'. seed_one ck s r = (Inr (), r') \<and> seeding (ck_set ck) r' \<and>
    row r' = (row r)(schema_cache_key (s_table s) (s_model_version s) \<mapsto> \<lparr>row_value = stringify (schema_struct s), row_expires_at = None\<rparr>,
                     version_cache_key (s_table s) \<mapsto> \<lparr>row_value = s_model_version s, row_expires_at = None\<rparr>)"
proof -
  let ?k = "schema_cache_key (s_table s) (s_model_version s)" and ?v = "version_cache_key (s_table s)"
  let ?x = "\<lparr>row_value = stringify (schema_struct s), row_expires_at = None\<rparr>"
  from assms have wf: "wf_version (s_model_version s)" and b: "backs (Some ?x) (CSchema s)"
    by (auto simp: seed_ok_def backs_def stringify_schema)
  from assms(1) obtain t where "ar_tracker r = Some t" "\<not> tracker_closed t" by (auto simp: seeding_def reg_inv_def)
  then obtain r1 t1 where r1: "tracker_write ck ?k (stringify (schema_struct s)) r = (Inr (), r1)" "ar_tracker r1 = Some t1"
    "\<not> tracker_closed t1" "ar_cache r1 = ar_cache r" "row r1 = (row r)(?k \<mapsto> ?x)"
    using tracker_write_open by blast
  then obtain r2 t2 where r2: "tracker_write ck ?v (s_model_version s) r1 = (Inr (), r2)" "ar_tracker r2 = Some t2"
    "\<not> tracker_closed t2" "ar_cache r2 = ar_cache r1"
    "row r2 = (row r1)(?v \<mapsto> \<lparr>row_value = s_model_version s, row_expires_at = None\<rparr>)"
    using tracker_write_open by blast
  define r' where "r' = r2\<lparr>ar_cache := cache_set (ck_set ck) ?k (CSchema s) 0 (ar_cache r2)\<rparr>"
  have row: "row r' = (row r)(?k \<mapsto> ?x, ?v \<mapsto> \<lparr>row_value = s_model_version s, row_expires_at = None\<rparr>)"
    using r1 r2 by (simp add: r'_def)
  have "\<not> kind_ok ?v (CSchema x)" for x using kind_version by blast
  then have "reg_inv r'"
    unfolding reg_inv_def row
    using assms(1) r1 r2 wf b by (auto simp: r'_def cache_set_def seeding_def reg_inv_def key_simps) metis+
  moreover have "seed_one ck s r = (Inr (), r')" using r1 r2 by (simp add: seed_one_def Let_def r'_def)
  ultimately show ?thesis
    using assms(1) r1 r2 row by (auto simp: seeding_def r'_def cache_set_def)
qed

lemma seed_all_spec:
  assumes "seeding (ck_set ck) r" "list_all seed_ok ss" "distinct (map s_table ss)"
  shows "\<exists>r'. seed_all ck ss r = (Inr (), r') \<and> seeding (ck_set ck) r' \<and>
    (\<forall>s \<in> set ss. versions r' (s_table s) = Some (s_model_version s) \<and>
        schemas r' (s_table s) (s_model_version s) = Some (norm_schema s)) \<and>
    (\<forall>t. t \<notin> s_table ` set ss \<longrightarrow> versions r' t = versions r t \<and>
        (\<forall>m. wf_version m \<longrightarrow> schemas r' t m = schemas r t m))"
  using assms
proof (induction ss arbitrary: r)
  case (Cons s ss)
  from Cons.prems have ok: "seed_ok s" by simp
  then obtain r1 where r1: "seed_one ck s r = (Inr (), r1)" "seeding (ck_set ck) r1"
    "row r1 = (row r)(schema_cache_key (s_table s) (s_model_version s) \<mapsto> \<lparr>row_value = stringify (schema_struct s), row_expires_at = None\<rparr>,
       version_cache_key (s_table s) \<mapsto> \<lparr>row_value = s_model_version s, row_expires_at = None\<rparr>)"
    using seed_one_spec Cons.prems(1) by blast
  from ok have new: "versions r1 (s_table s) = Some (s_model_version s)"
      "schemas r1 (s_table s) (s_model_version s) = Some (norm_schema s)"
    by (simp_all add: versions_def schemas_def r1(3) key_simps seed_ok_def stringify_schema)
  have old: "versions r1 t = versions r t" "wf_version m \<Longrightarrow> schemas r1 t m = schemas r t m" if "t \<noteq> s_table s" for t m
    using that ok by (auto simp: versions_def schemas_def r1(3) key_simps seed_ok_def)
  from Cons.IH [of r1] r1(2) Cons.prems(2,3) obtain r' where r': "seed_all ck ss r1 = (Inr (), r')" "seeding (ck_set ck) r'"
    "\<forall>s \<in> set ss. versions r' (s_table s) = Some (s_model_version s) \<and>
        schemas r' (s_table s) (s_model_version s) = Some (norm_schema s)"
    "\<forall>t. t \<notin> s_table ` set ss \<longrightarrow> versions r' t = versions r1 t \<and> (\<forall>m. wf_version m \<longrightarrow> schemas r' t m = schemas r1 t m)"
    by auto
  have "s_table s \<notin> s_table ` set ss" using Cons.prems(3) by auto
  with r1 r' new old ok show ?case by (auto simp: seed_ok_def)
qed simp

lemma sort_table_spec:
  "sort_table xs = (sm, objs) \<Longrightarrow> dkeys sm = map s_table (map snd sm) \<and> distinct (dkeys sm) \<and>
     set (map snd sm) \<subseteq> set (map snd xs)"
proof (unfold sort_table_def, induction xs arbitrary: sm objs rule: rev_induct)
  case (snoc x xs)
  obtain obj d where x: "x = (obj, d)" by (cases x)
  obtain sm' objs' where f: "foldl (\<lambda>(kv, otm) (obj, d). (dset (s_table d) d kv, dset (s_table d) obj otm)) ([], []) xs = (sm', objs')"
    by fastforce
  have k: "dkeys kv = map s_table (map snd kv) \<Longrightarrow> dkeys (dset (s_table d) d kv) = map s_table (map snd (dset (s_table d) d kv))"
    for kv by (induction kv) auto
  have v: "set (map snd (dset (s_table d) d kv)) \<subseteq> insert d (set (map snd kv))" for kv
    by (induction kv) auto
  from snoc.IH [OF f] have ih: "dkeys sm' = map s_table (map snd sm')" "distinct (dkeys sm')" "set (map snd sm') \<subseteq> set (map snd xs)"
    by simp_all
  from snoc.prems f x have sm: "sm = dset (s_table d) d sm'" by simp
  have "set (map snd sm) \<subseteq> set (map snd (xs @ [x]))"     unfolding sm using order_trans [OF v [of sm'] insert_mono [OF ih(3)]] x by simp
  moreover have "distinct (dkeys sm)" unfolding sm by (rule distinct_dset [OF ih(2)])
  moreover have "dkeys sm = map s_table (map snd sm)" unfolding sm by (rule k [OF ih(1)])
  ultimately show ?case by (intro conjI)
qed simp

lemma decode_schema_map_distinct:
  assumes "decode_schema_map body = Inr xs" "s \<in> set (map snd xs)"
  shows "distinct (dkeys (s_properties s))"
proof (cases "loads opts_default body")
  case (Some v)
  note dk = loads_distinct_keys [OF Some]
  have "mapM named_schema raw = Inr xs \<Longrightarrow> list_all (\<lambda>p. distinct_keys (snd p)) raw \<Longrightarrow> s \<in> snd ` set xs \<Longrightarrow> ?thesis" for raw
  proof (induction raw arbitrary: xs)
    case (Cons p raw)
    from Cons.prems(1) obtain y ys where y: "named_schema p = Inr y" "mapM named_schema raw = Inr ys" "xs = y # ys"
      by (auto simp: andthen_Inr_conv)
    from y(1) obtain d where "snd p = PDict d" "schema_from_dict d = Inr (snd y)"
      by (cases p) (auto simp: named_schema_def andthen_Inr_conv split: pyval.splits)
    with Cons.prems(2) have "distinct (dkeys (s_properties (snd y)))" by (auto intro: schema_from_dict_distinct)
    with Cons y show ?case by auto
  qed simp
  with assms Some dk show ?thesis by (auto simp: decode_schema_map_def split: pyval.splits)
qed (use assms in \<open>simp add: decode_schema_map_def\<close>)

text \<open>What the constructor leaves, when the fetch answers 200 with a decodable body.\<close>

lemma new_api_registry_spec:
  assumes "\<not> tracker_closed t"
    and "\<forall>k x. prefix PREFIX k \<longrightarrow> dget (kv t) (codes k) = Some x \<longrightarrow> row_expires_at x = None"
    and dec: "decode_schema_map body = Inr by_object" and wf: "\<forall>s \<in> set (map snd by_object). wf_version (s_model_version s)"
  shows "\<exists>r. new_api_registry ck api_url v (Some t) (Inr (200, body)) = (Inr r, ar_tracker r) \<and>
    ar_schema r = fst (sort_table by_object) \<and> seeding (ck_set ck) r \<and>
    (\<forall>(table, s) \<in> set (ar_schema r). table = s_table s \<and> versions r table = Some (s_model_version s) \<and>
        schemas r table (s_model_version s) = Some (norm_schema s))"
proof -
  obtain sm objs where st: "sort_table by_object = (sm, objs)" by (cases "sort_table by_object")
  note sp = sort_table_spec [OF st]
  define r0 where "r0 = \<lparr>ar_api_url = api_url, ar_user_agent = ''Shopmonkey EDS Server/'' @ v,
    ar_tracker = Some t, ar_cache = new_cache, ar_schema = sm, ar_objects = objs, ar_closed = False\<rparr>"
  have "seeding (ck_set ck) r0"
    using assms(1,2) by (auto simp: seeding_def reg_inv_def r0_def new_cache_def row_def)
  moreover have "list_all seed_ok (map snd sm)"
    using sp wf decode_schema_map_distinct [OF dec] unfolding list_all_iff seed_ok_def by blast
  moreover have "distinct (map s_table (map snd sm))" using sp by metis
  ultimately obtain r where r: "seed_all ck (map snd sm) r0 = (Inr (), r)" "seeding (ck_set ck) r"
    "\<forall>s \<in> set (map snd sm). versions r (s_table s) = Some (s_model_version s) \<and>
        schemas r (s_table s) (s_model_version s) = Some (norm_schema s)"
    using seed_all_spec by blast
  have keep: "ar_schema (snd (seed_one ck s x)) = ar_schema x" for s x
    by (auto simp: seed_one_def tracker_write_def andthen_st_def Let_def split: option.splits sum.splits prod.splits)
  have "ar_schema (snd (seed_all ck ss x)) = ar_schema x" for ss x
  proof (induction ss arbitrary: x)
    case (Cons s ss)
    then show ?case using keep [of s x] by (auto simp: andthen_st_def split: sum.splits prod.splits)
  qed simp
  from this [of "map snd sm" r0] r(1) have "ar_schema r = sm" by (simp add: r0_def)
  moreover have "table = s_table s" if "(table, s) \<in> set sm" for table s
    using sp that by (metis fst_conv in_set_conv_nth length_map nth_map snd_conv)
  ultimately have "\<forall>(table, s) \<in> set (ar_schema r). table = s_table s \<and> versions r table = Some (s_model_version s) \<and>
        schemas r table (s_model_version s) = Some (norm_schema s)"
    using r(3) by fastforce
  moreover have "new_api_registry ck api_url v (Some t) (Inr (200, body)) = (Inr r, ar_tracker r)"
    using r(1) st dec by (simp add: new_api_registry_def r0_def)
  ultimately show ?thesis using r(2) st \<open>ar_schema r = sm\<close> by auto
qed

lemma seeding_dead: "seeding now r \<Longrightarrow> now < now' \<Longrightarrow> cache_live now' (ar_cache r) k = None"
  by (auto simp: seeding_def cache_live_def split: option.splits)

section \<open>Properties\<close>

text \<open>C10: a version written for a table is what every later read of that table returns, whatever the
  clocks say (the cache entry may have expired, the tracker row never does); reads and writes of one
  table do not change another, and both keep the invariant between cache and tracker.\<close>

theorem registry_versions:
  assumes "reg_inv r"
  shows "\<exists>r1. set_table_version ck table version r = (Inr (), r1) \<and> reg_inv r1 \<and>
    versions r1 = (versions r)(table \<mapsto> version) \<and>
    (\<forall>ck' t. \<exists>r2. get_table_version ck' t r1 =
         (Inr (case ((versions r)(table \<mapsto> version)) t of None \<Rightarrow> (False, '''') | Some v \<Rightarrow> (True, v)), r2) \<and>
       reg_inv r2 \<and> versions r2 = versions r1)"
proof -
  obtain r1 where r1: "set_table_version ck table version r = (Inr (), r1)" "reg_inv r1"
    "versions r1 = (versions r)(table \<mapsto> version)"
    using set_table_version_spec [OF assms] by blast
  have "\<exists>r2. get_table_version ck' t r1 =
         (Inr (case ((versions r)(table \<mapsto> version)) t of None \<Rightarrow> (False, '''') | Some v \<Rightarrow> (True, v)), r2) \<and>
       reg_inv r2 \<and> versions r2 = versions r1" for ck' t
    using get_table_version_spec [OF r1(2), of ck' t] r1(3) versions_row by metis
  with r1 show ?thesis by blast
qed

definition sample_registry :: api_registry where
  "sample_registry = \<lparr>ar_api_url = ''https://api'', ar_user_agent = ''ua'', ar_tracker = Some new_tracker,
     ar_cache = new_cache, ar_schema = [], ar_objects = [], ar_closed = False\<rparr>"

lemma sample_registry_inv: "reg_inv sample_registry"
  by (simp add: reg_inv_def sample_registry_def new_tracker_def new_cache_def row_def)

lemma sample_registry_empty: "versions sample_registry = Map.empty" "row sample_registry k = None"
  by (simp_all add: versions_def row_def sample_registry_def new_tracker_def fun_eq_iff)

theorem registry_versions_witness:
  "reg_inv sample_registry \<and>
   (\<exists>r1. set_table_version \<lparr>ck_get = 1, ck_set = 2, ck_wall = 3\<rparr> ''order'' ''abc'' sample_registry = (Inr (), r1) \<and>
     (\<exists>r2. get_table_version \<lparr>ck_get = 99999999, ck_set = 99999999, ck_wall = 99999999\<rparr> ''order'' r1 = (Inr (True, ''abc''), r2)) \<and>
     (\<exists>r2. get_table_version \<lparr>ck_get = 4, ck_set = 5, ck_wall = 6\<rparr> ''part'' r1 = (Inr (False, ''''), r2)))"
proof -
  obtain r1 where r1: "set_table_version \<lparr>ck_get = 1, ck_set = 2, ck_wall = 3\<rparr> ''order'' ''abc'' sample_registry = (Inr (), r1)"
    and g: "\<forall>ck' t. \<exists>r2. get_table_version ck' t r1 =
         (Inr (case ((versions sample_registry)(''order'' \<mapsto> ''abc'')) t of None \<Rightarrow> (False, '''') | Some v \<Rightarrow> (True, v)), r2) \<and>
       reg_inv r2 \<and> versions r2 = versions r1"
    using registry_versions [OF sample_registry_inv] by blast
  have "\<exists>r2. get_table_version ck ''order'' r1 = (Inr (True, ''abc''), r2)" for ck
    using g [rule_format, of ck "''order''"] by auto
  moreover have "\<exists>r2. get_table_version ck ''part'' r1 = (Inr (False, ''''), r2)" for ck
    using g [rule_format, of ck "''part''"] by (auto simp: sample_registry_empty)
  ultimately show ?thesis using r1 sample_registry_inv by blast
qed

text \<open>One call of \<open>get_schema\<close>, whatever the network answers. All versions and all other schemas are
  kept. A returned schema is stored, up to what its JSON text keeps of it; an error changes no row. A
  schema that is stored is returned again, with no change to any row, for every answer of the network.\<close>

theorem registry_schema_stable:
  assumes "reg_inv r" "wf_version version" "get_schema session ck table version r = (res, r')"
  shows "reg_inv r' \<and> versions r' = versions r \<and>
    (\<forall>t m. wf_version m \<longrightarrow> (t, m) \<noteq> (table, version) \<longrightarrow> schemas r' t m = schemas r t m) \<and>
    (case res of Inl _ \<Rightarrow> row r' = row r | Inr s \<Rightarrow> schemas r' table version = Some (norm_schema s)) \<and>
    (\<forall>s. schemas r table version = Some s \<longrightarrow> row r' = row r \<and> (\<exists>s'. res = Inr s' \<and> norm_schema s' = s))"
  using get_schema_spec [OF assms(1,2), of table session ck] assms(3) by (simp add: schema_read_def)

definition sample_body :: string where
  "sample_body = [CHR ''{'', DQ, CHR ''t'', CHR ''a'', CHR ''b'', CHR ''l'', CHR ''e'', DQ, CHR '':'', DQ, CHR ''x'', DQ, CHR ''}'']"

theorem registry_schema_stable_witness:
  "\<exists>r'. get_schema (\<lambda>_. Inr (200, sample_body)) \<lparr>ck_get = 1, ck_set = 2, ck_wall = 3\<rparr> ''x'' ''v1'' sample_registry =
     (Inr (empty_schema\<lparr>s_table := ''x''\<rparr>), r') \<and> reg_inv r' \<and>
     schemas r' ''x'' ''v1'' = Some (norm_schema (empty_schema\<lparr>s_table := ''x''\<rparr>))"
proof -
  let ?s = "empty_schema\<lparr>s_table := ''x''\<rparr>"
  let ?g = "get_schema (\<lambda>_. Inr (200, sample_body)) \<lparr>ck_get = 1, ck_set = 2, ck_wall = 3\<rparr> ''x'' ''v1'' sample_registry"
  have "decode_schema sample_body ''x'' ''v1'' = Inr ?s"
    unfolding sample_body_def by code_simp
  then have "fst ?g = Inr ?s"
    by (simp add: get_schema_def Let_def sample_registry_def new_cache_def new_tracker_def cache_get_def tracker_read_def
        get_key_def kv_get_def tracker_write_def cache_put_def set_key_def)
  then obtain r' where g: "?g = (Inr ?s, r')" by (cases ?g) simp
  from registry_schema_stable [OF sample_registry_inv _ g] g show ?thesis by (auto simp: wf_version_def)
qed

text \<open>Construction. When the fetch of the full schema answers 200 with a decodable body and the
  tracker holds no expiring registry rows, the constructor succeeds; the tracker then holds, for every
  table, its model version and its schema; and the cache, seeded with time to live 0, answers nothing at
  any later instant, so the first reads go to the tracker.\<close>

theorem registry_seed:
  assumes "\<not> tracker_closed t"
    and "\<forall>k x. prefix PREFIX k \<longrightarrow> dget (kv t) (codes k) = Some x \<longrightarrow> row_expires_at x = None"
    and "decode_schema_map body = Inr by_object" "\<forall>s \<in> set (map snd by_object). wf_version (s_model_version s)"
  shows "\<exists>r. new_api_registry ck api_url v (Some t) (Inr (200, body)) = (Inr r, ar_tracker r) \<and> reg_inv r \<and>
    get_latest_schema r = fst (sort_table by_object) \<and>
    (\<forall>(table, s) \<in> set (get_latest_schema r). table = s_table s \<and> versions r table = Some (s_model_version s) \<and>
        schemas r table (s_model_version s) = Some (norm_schema s)) \<and>
    (\<forall>now k. ck_set ck < now \<longrightarrow> fst (cache_get now k (ar_cache r)) = None)"
proof -
  obtain r where "new_api_registry ck api_url v (Some t) (Inr (200, body)) = (Inr r, ar_tracker r)"
    "ar_schema r = fst (sort_table by_object)" "seeding (ck_set ck) r"
    "\<forall>(table, s) \<in> set (ar_schema r). table = s_table s \<and> versions r table = Some (s_model_version s) \<and>
        schemas r table (s_model_version s) = Some (norm_schema s)"
    using new_api_registry_spec [OF assms, of ck api_url v] by blast
  then show ?thesis
    by (intro exI [of _ r]) (simp add: get_latest_schema_def seeding_dead cs.lookup_live, simp add: seeding_def)
qed

theorem registry_seed_witness:
  "\<exists>r. new_api_registry \<lparr>ck_get = 1, ck_set = 2, ck_wall = 3\<rparr> ''u'' ''1'' (Some new_tracker)
       (Inr (200, [CHR ''{'', DQ, CHR ''o'', DQ, CHR '':''] @ sample_body @ ''}'')) = (Inr r, ar_tracker r) \<and>
     versions r ''x'' = Some '''' \<and> fst (cache_get 3 (schema_cache_key ''x'' '''') (ar_cache r)) = None"
proof -
  have d: "decode_schema_map ([CHR ''{'', DQ, CHR ''o'', DQ, CHR '':''] @ sample_body @ ''}'') =
      Inr [(''o'', empty_schema\<lparr>s_table := ''x''\<rparr>)]"
    unfolding sample_body_def by code_simp
  have s: "sort_table [(''o'', empty_schema\<lparr>s_table := ''x''\<rparr>)] = ([(''x'', empty_schema\<lparr>s_table := ''x''\<rparr>)], [(''x'', ''o'')])"
    by (simp add: sort_table_def empty_schema_def)
  have s2: "s_table (empty_schema\<lparr>s_table := ''x''\<rparr>) = ''x''" "s_model_version (empty_schema\<lparr>s_table := ''x''\<rparr>) = ''''"
    by (simp_all add: empty_schema_def)
  show ?thesis
    using registry_seed [OF _ _ d, of new_tracker "\<lparr>ck_get = 1, ck_set = 2, ck_wall = 3\<rparr>" "''u''" "''1''"]
    by (auto simp: s s2 new_tracker_def wf_version_def)
qed

text \<open>What the retrying request must send again, in the words of its documentation: the answers 408, 429, 502, 503 and 504 always, a
  connection that was reset or refused until the time is up, and nothing else.\<close>

definition send_again :: "int \<Rightarrow> http_outcome \<times> int \<times> int \<Rightarrow> bool" where
  "send_again end_time x \<longleftrightarrow>
     (case x of
        (Inr (status, body), now, u) \<Rightarrow> status = 408 \<or> status = 429 \<or> status = 502 \<or> status = 503 \<or> status = 504
      | (Inl msg, now, u) \<Rightarrow>
          (sublist ''connection reset'' (lower msg) \<or> sublist ''connection refused'' (lower msg)) \<and> now < end_time)"

lemma should_retry_send_again: "should_retry timeout started now r \<longleftrightarrow> send_again (started + timeout) (r, now, u)"
  by (auto simp: should_retry_def send_again_def RETRY_STATUS_def contains_def split: sum.splits)

lemma http_do_first:
  "http_do timeout started n env = Some (r, sleeps) \<longleftrightarrow>
   (\<exists>pre now u post. env = pre @ (r, now, u) # post \<and> list_all (send_again (started + timeout)) pre \<and> \<not> send_again (started + timeout) (r, now, u) \<and>
      sleeps = map (\<lambda>(i, x). 100 + snd (snd x) mod (500 * int (n + i + 1))) (enumerate 0 pre))"
proof (induction timeout started n env arbitrary: sleeps rule: http_do.induct)
  case (2 timeout started n x now u env)
  have shift: "map (\<lambda>(i, x). 100 + snd (snd x) mod (500 * int (Suc n + i + 1))) (enumerate 0 pre) =
      map (\<lambda>(i, x). 100 + snd (snd x) mod (500 * int (n + i + 1))) (enumerate 1 pre)" for pre :: "(http_outcome \<times> int \<times> int) list"
    by (rule nth_equalityI) (auto simp: nth_enumerate_eq)
  show ?case
  proof (cases "should_retry timeout started now x")
    case False
    have ns: "\<not> send_again (started + timeout) (x, now, u)" using False should_retry_send_again by blast
    have "(\<exists>pre now' u' post. (x, now, u) # env = pre @ (r, now', u') # post \<and> list_all (send_again (started + timeout)) pre \<and>
        \<not> send_again (started + timeout) (r, now', u') \<and> sleeps = map (\<lambda>(i, x). 100 + snd (snd x) mod (500 * int (n + i + 1))) (enumerate 0 pre))
      \<longleftrightarrow> r = x \<and> sleeps = []" (is "?R \<longleftrightarrow> _")
    proof
      assume ?R
      then obtain pre now' u' post where "(x, now, u) # env = pre @ (r, now', u') # post" "list_all (send_again (started + timeout)) pre"
        "sleeps = map (\<lambda>(i, x). 100 + snd (snd x) mod (500 * int (n + i + 1))) (enumerate 0 pre)" by blast
      with ns show "r = x \<and> sleeps = []" by (cases pre) auto
    next
      assume "r = x \<and> sleeps = []"
      with ns show ?R by (intro exI [of _ "[]"] exI [of _ now] exI [of _ u] exI [of _ env]) simp
    qed
    with False show ?thesis by auto
  next
    case True
    then have nn: "\<not> \<not> should_retry timeout started now x" by simp
    have sa: "send_again (started + timeout) (x, now, u)" using True should_retry_send_again by blast
    show ?thesis (is "?L \<longleftrightarrow> ?R")
    proof
      assume ?L
      with True obtain rest where rest: "http_do timeout started (Suc n) env = Some (r, rest)" "sleeps = (100 + u mod (500 * int (Suc n))) # rest"
        by auto
      from 2 [OF nn, of rest] rest(1) obtain pre now' u' post where
        "env = pre @ (r, now', u') # post" "list_all (send_again (started + timeout)) pre" "\<not> send_again (started + timeout) (r, now', u')"
        "rest = map (\<lambda>(i, x). 100 + snd (snd x) mod (500 * int (Suc n + i + 1))) (enumerate 0 pre)" by auto
      with sa rest(2) show ?R unfolding shift
        by (intro exI [of _ "(x, now, u) # pre"] exI [of _ now'] exI [of _ u'] exI [of _ post]) simp
    next
      assume ?R
      then obtain pre now' u' post where p: "(x, now, u) # env = pre @ (r, now', u') # post" "list_all (send_again (started + timeout)) pre"
        "\<not> send_again (started + timeout) (r, now', u')"
        "sleeps = map (\<lambda>(i, x). 100 + snd (snd x) mod (500 * int (n + i + 1))) (enumerate 0 pre)" by blast
      with sa obtain pre' where pre: "pre = (x, now, u) # pre'" by (auto simp: Cons_eq_append_conv)
      with p have "http_do timeout started (Suc n) env = Some (r, map (\<lambda>(i, x). 100 + snd (snd x) mod (500 * int (Suc n + i + 1))) (enumerate 0 pre'))"
        by (subst 2 [OF nn]) auto
      with True p(4) pre shift [of pre'] show ?L by simp
    qed
  qed
qed simp

text \<open>C35: the retrying request. It returns or raises the first outcome that is not to be sent again: it sends again exactly after the answers
  408, 429, 502, 503 and 504 and, within its time, after a reset or refused connection. Before attempt \<open>i + 2\<close> it has slept once, at least 100 ms and
  less than \<open>100 + 500 * (i + 1)\<close> ms, and there are no other sleeps. It does return as soon as there is such an outcome.\<close>

theorem http_retry:
  "(\<forall>r sleeps. http_do timeout started 0 env = Some (r, sleeps) \<longleftrightarrow>
      (\<exists>pre now u post. env = pre @ (r, now, u) # post \<and> list_all (send_again (started + timeout)) pre \<and> \<not> send_again (started + timeout) (r, now, u) \<and>
        sleeps = map (\<lambda>(i, x). 100 + snd (snd x) mod (500 * int (i + 1))) (enumerate 0 pre))) \<and>
   (\<forall>r sleeps i. http_do timeout started 0 env = Some (r, sleeps) \<longrightarrow> i < length sleeps \<longrightarrow>
      100 \<le> sleeps ! i \<and> sleeps ! i < 100 + 500 * int (i + 1)) \<and>
   ((\<exists>x \<in> set env. \<not> send_again (started + timeout) x) \<longrightarrow> (\<exists>y. http_do timeout started 0 env = Some y))"
proof (intro conjI allI impI)
  show "100 \<le> sleeps ! i" "sleeps ! i < 100 + 500 * int (i + 1)" if "http_do timeout started 0 env = Some (r, sleeps)" "i < length sleeps" for r sleeps i
    using http_do_sleeps [OF that] by simp_all
  show "\<exists>y. http_do timeout started 0 env = Some y" if "\<exists>x \<in> set env. \<not> send_again (started + timeout) x"
  proof (rule http_do_returns)
    from that obtain r now u where "(r, now, u) \<in> set env" "\<not> send_again (started + timeout) (r, now, u)" by auto
    then show "\<exists>x \<in> set env. \<not> should_retry timeout started (fst (snd x)) (fst x)"
      by (intro bexI [of _ "(r, now, u)"]) (simp_all add: should_retry_send_again [of _ _ _ _ u])
  qed
qed (use http_do_first [of timeout started 0 env] in simp)

theorem http_retry_witness:
  "http_do 30000 0 0 [(Inr (503, ''busy''), 10, 7), (Inr (200, ''ok''), 900, 1)] = Some (Inr (200, ''ok''), [107]) \<and>
   (100 :: int) \<le> 107 \<and> (107 :: int) < 100 + 500 * int (0 + 1)"
proof -
  have e: "http_do 30000 0 0 [(Inr (503, ''busy''), 10, 7), (Inr (200, ''ok''), 900, 1)] = Some (Inr (200, ''ok''), [107])"
    by (simp add: should_retry_def RETRY_STATUS_def)
  note h = http_retry [of 30000 0 "[(Inr (503, ''busy''), 10, 7), (Inr (200, ''ok''), 900, 1)]", THEN conjunct2, THEN conjunct1, rule_format, OF e, of 0]
  from e h show ?thesis by simp
qed

end
