(* ===== verification/Recovery.thy ===== *)
theory Recovery
  imports Registry
begin

text \<open>
  The import recovery state machine of \<open>src/eds/cmd/import_cmd.py\<close> (\<open>is_recoverable\<close>, \<open>backoff_ladder\<close>,
  \<open>resolve_max_retries\<close>, \<open>run_with_recovery\<close>), with the export job client it drives,
  \<open>src/eds/cmd/import_client.py\<close> (\<open>failed_tables\<close>, \<open>check_export_job\<close>, \<open>poll_until_complete\<close>).

  The four stages, the progress markers and the cancel flag are operations on a state \<open>'w\<close>, as the code
  takes them as arguments. Exceptions are classified by the classes \<open>is_recoverable\<close> distinguishes, in the
  order it tests them. The sleeps taken are recorded.
\<close>

section \<open>Errors\<close>

datatype rexc =
    UsageError string
  | RecoveryCancelled
  | SchemaInvalid string
  | ValueErr string
  | PermissionErr string
  | DownloadStageError string bool
  | ApiStatusError string int
  | ConnectionErr string
  | TimeoutErr string
  | RequestsErr string
  | OsErr string "int option"
  | OtherErr string

fun rexc_str :: "rexc \<Rightarrow> string" where
  "rexc_str (UsageError m) = m"
| "rexc_str RecoveryCancelled = ''''"
| "rexc_str (SchemaInvalid m) = m"
| "rexc_str (ValueErr m) = m"
| "rexc_str (PermissionErr m) = m"
| "rexc_str (DownloadStageError m _) = m"
| "rexc_str (ApiStatusError m _) = m"
| "rexc_str (ConnectionErr m) = m"
| "rexc_str (TimeoutErr m) = m"
| "rexc_str (RequestsErr m) = m"
| "rexc_str (OsErr m _) = m"
| "rexc_str (OtherErr m) = m"

definition RETRYABLE_STATUS :: "int list" where
  "RETRYABLE_STATUS = [408, 429, 500, 502, 503, 504]"

definition TRANSPORT_MARKERS :: "string list" where
  "TRANSPORT_MARKERS =
     [''connection reset'', ''connection refused'', ''broken pipe'', ''timed out'', ''eof'', ''no such host'',
      ''tls handshake'', ''dns'', ''failed to resolve'', ''getaddrinfo'', ''name resolution'', ''name or service not known'']"

text \<open>\<open>_FATAL_ERRNOS\<close>: ENOSPC, EACCES, EPERM, EROFS, EDQUOT, EISDIR, ENOENT, ENOTDIR, EMFILE, ENFILE on Linux.\<close>

definition FATAL_ERRNOS :: "int list" where
  "FATAL_ERRNOS = [28, 13, 1, 30, 122, 21, 2, 20, 24, 23]"

definition matches_transport :: "string \<Rightarrow> bool" where
  "matches_transport msg = list_ex (\<lambda>s. contains s (lower msg)) TRANSPORT_MARKERS"

fun is_recoverable :: "rexc \<Rightarrow> bool" where
  "is_recoverable (UsageError _) = False"
| "is_recoverable RecoveryCancelled = False"
| "is_recoverable (SchemaInvalid _) = False"
| "is_recoverable (ValueErr _) = False"
| "is_recoverable (PermissionErr _) = False"
| "is_recoverable (DownloadStageError _ _) = True"
| "is_recoverable (ApiStatusError _ code) = (code \<in> set RETRYABLE_STATUS)"
| "is_recoverable (ConnectionErr _) = True"
| "is_recoverable (TimeoutErr _) = True"
| "is_recoverable (RequestsErr _) = True"
| "is_recoverable (OsErr m errno) =
     (if (case errno of None \<Rightarrow> False | Some e \<Rightarrow> e \<in> set FATAL_ERRNOS) then False else matches_transport m)"
| "is_recoverable (OtherErr m) = matches_transport m"

definition backoff_ladder :: "int \<Rightarrow> int list" where
  "backoff_ladder max_retries = map (\<lambda>n. 30 * 2 ^ n) [0..<nat max_retries]"

text \<open>
  \<open>resolve_max_retries\<close>: the explicit flag, the configured value, the default; with what is written back
  to the configuration.
\<close>

definition resolve_max_retries :: "int option \<Rightarrow> int option \<Rightarrow> int \<times> int option" where
  "resolve_max_retries explicit configured =
     (case explicit of
        Some e \<Rightarrow> (max 0 e, Some (max 0 e))
      | None \<Rightarrow>
          (case configured of
             Some c \<Rightarrow> (max 0 c, None)
           | None \<Rightarrow> (5, Some 5)))"

definition download_urls_expired :: "int option \<Rightarrow> string \<Rightarrow> bool" where
  "download_urls_expired status msg =
     (status = Some 403 \<or> status = Some 410 \<or> contains ''403'' (lower msg) \<or> contains ''410'' (lower msg))"

section \<open>Export jobs\<close>

record export_table =
  et_error :: string
  et_status :: string
  et_urls :: "string list"
  et_cursor :: string

record export_job =
  ej_completed :: bool
  ej_tables :: "(string \<times> export_table) list"

definition failed_tables :: "export_job \<Rightarrow> string list" where
  "failed_tables job = map fst (filter (\<lambda>p. et_status (snd p) = ''Failed'') (ej_tables job))"

definition check_export_job :: "export_job \<Rightarrow> rexc + export_job" where
  "check_export_job job =
     (case find (\<lambda>p. et_status (snd p) = ''Failed'') (ej_tables job) of
        Some (t, td) \<Rightarrow> Inl (OtherErr (''error exporting table '' @ t @ '': '' @ et_error td))
      | None \<Rightarrow> Inr job)"

text \<open>
  \<open>poll_until_complete\<close> on what the environment delivers at each round: the outcome of fetching the job and
  whether the cancel flag is seen set before the next fetch. The outer \<open>None\<close> is a poll still under way, the
  inner one a cancelled poll.
\<close>

fun poll_until_complete :: "bool \<Rightarrow> ((rexc + export_job) \<times> bool) list \<Rightarrow> (rexc + export_job option) option" where
  "poll_until_complete raise_on_failed [] = None"
| "poll_until_complete raise_on_failed ((fetched, cancelled) # env) =
     (case (if raise_on_failed then andthen fetched check_export_job else fetched) of
        Inl e \<Rightarrow> Some (Inl e)
      | Inr job \<Rightarrow>
          if \<not> raise_on_failed \<and> failed_tables job \<noteq> [] then Some (Inr (Some job))
          else if ej_completed job then Some (Inr (Some job))
          else if cancelled then Some (Inr None)
          else poll_until_complete raise_on_failed env)"

section \<open>The state machine\<close>

record 'w stages =
  export_fn :: "string list \<Rightarrow> 'w \<Rightarrow> (rexc + string) \<times> 'w"
  poll_fn :: "string \<Rightarrow> 'w \<Rightarrow> (rexc + export_job) \<times> 'w"
  download_fn :: "export_job \<Rightarrow> string list \<Rightarrow> string \<Rightarrow> 'w \<Rightarrow> (rexc + (string \<times> int) list \<times> string) \<times> 'w"
  import_fn :: "string \<Rightarrow> string list \<Rightarrow> string \<Rightarrow> 'w \<Rightarrow> (rexc + unit) \<times> 'w"
  marker_present :: "string \<Rightarrow> 'w \<Rightarrow> bool \<times> 'w"
  cancelled :: "'w \<Rightarrow> bool \<times> 'w"
  sleep_for :: "int \<Rightarrow> 'w \<Rightarrow> 'w"

record 'w recovery =
  rv_imported :: "string list"
  rv_info_all :: "(string \<times> int) list"
  rv_export_tables :: "string list"
  rv_job_id :: string
  rv_need_post :: bool
  rv_working :: "string list option"
  rv_last_error :: string
  rv_sleeps :: "int list"
  rv_world :: 'w

record recovery_result =
  rr_imported :: "string list"
  rr_permanently_failed :: "string list"
  rr_table_export_info :: "(string \<times> int) list"
  rr_job_id :: string
  rr_last_error :: string

definition on_world :: "('w \<Rightarrow> 'a \<times> 'w) \<Rightarrow> 'w recovery \<Rightarrow> 'a \<times> 'w recovery" where
  "on_world f s = (case f (rv_world s) of (r, w) \<Rightarrow> (r, s\<lparr>rv_world := w\<rparr>))"

definition add_new :: "string list \<Rightarrow> string list \<Rightarrow> string list" where
  "add_new imported ts = foldl (\<lambda>acc t. if t \<in> set acc then acc else acc @ [t]) imported ts"

text \<open>The body of the \<open>try\<close>: \<open>Inr True\<close> is its \<open>break\<close>.\<close>

definition export_step :: "'w stages \<Rightarrow> 'w recovery \<Rightarrow> (rexc + unit) \<times> 'w recovery" where
  "export_step S s =
     (if rv_need_post s then
        andthen_st (on_world (export_fn S (rv_export_tables s)) s) (\<lambda>job_id s1.
          (Inr (), s1\<lparr>rv_job_id := job_id, rv_need_post := False\<rparr>))
      else (Inr (), s))"

definition present_tables :: "export_job \<Rightarrow> 'w recovery \<Rightarrow> string list" where
  "present_tables job s = filter (\<lambda>t. t \<notin> set (rv_imported s)) (dkeys (ej_tables job))"

definition load_step :: "'w stages \<Rightarrow> export_job \<Rightarrow> string list \<Rightarrow> 'w recovery \<Rightarrow> (rexc + unit) \<times> 'w recovery" where
  "load_step S job ready s =
     (if ready = [] then (Inr (), s)
      else
        andthen_st (on_world (download_fn S job ready (rv_job_id s)) s) (\<lambda>(info, attempt_dir) s1.
        andthen_st (on_world (import_fn S (rv_job_id s1) ready attempt_dir) s1) (\<lambda>_ s2.
          (Inr (), s2\<lparr>rv_imported := add_new (rv_imported s2) ready,
                      rv_info_all := rv_info_all s2 @ info,
                      rv_working := map_option (filter (\<lambda>t. t \<notin> set ready)) (rv_working s2)\<rparr>))))"

definition ready_tables :: "export_job \<Rightarrow> string list \<Rightarrow> string list" where
  "ready_tables job present =
     (let failed = filter (\<lambda>t. t \<in> set present) (failed_tables job) in filter (\<lambda>t. t \<notin> set failed) present)"

definition conclude_attempt :: "'w recovery \<Rightarrow> (rexc + bool) \<times> 'w recovery" where
  "conclude_attempt s =
     (let working = (case rv_working s of Some w \<Rightarrow> w | None \<Rightarrow> []) in
      if working = [] then (Inr True, s)
      else (Inr False, s\<lparr>rv_last_error := ''error exporting tables: '' @ join '', '' working,
                         rv_export_tables := working, rv_need_post := True\<rparr>))"

definition attempt_body :: "'w stages \<Rightarrow> 'w recovery \<Rightarrow> (rexc + bool) \<times> 'w recovery" where
  "attempt_body S s =
     andthen_st (export_step S s) (\<lambda>_ s1.
     andthen_st (on_world (poll_fn S (rv_job_id s1)) s1) (\<lambda>job s2.
       let present = present_tables job s2 in
       andthen_st (load_step S job (ready_tables job present) (s2\<lparr>rv_working := Some present\<rparr>)) (\<lambda>_. conclude_attempt)))"

text \<open>The \<open>except\<close> clause for a recoverable error.\<close>

fun markers :: "'w stages \<Rightarrow> string list \<Rightarrow> 'w recovery \<Rightarrow> string list \<times> 'w recovery" where
  "markers S [] s = ([], s)"
| "markers S (t # ts) s =
     (case on_world (marker_present S t) s of
        (b, s1) \<Rightarrow> (case markers S ts s1 of (fs, s2) \<Rightarrow> (if b then t # fs else fs, s2)))"

definition recover :: "'w stages \<Rightarrow> bool \<Rightarrow> string list \<Rightarrow> rexc \<Rightarrow> 'w recovery \<Rightarrow> 'w recovery" where
  "recover S track initial e s =
     (let scope = (case rv_working s of
                     Some w \<Rightarrow> Some w
                   | None \<Rightarrow> if initial \<noteq> [] then Some initial else None);
          (scope', s1) =
            (case scope of
               None \<Rightarrow> (None, s)
             | Some ts \<Rightarrow>
                 if track then
                   (case markers S ts s of
                      (flushed, s') \<Rightarrow>
                        (Some (filter (\<lambda>t. t \<notin> set flushed) ts), s'\<lparr>rv_imported := add_new (rv_imported s') flushed\<rparr>))
                 else (Some ts, s))
      in s1\<lparr>rv_last_error := rexc_str e, rv_working := scope',
            rv_export_tables := (case scope' of Some ts \<Rightarrow> ts | None \<Rightarrow> initial),
            rv_need_post := (rv_need_post s1 \<or> (case e of DownloadStageError _ expired \<Rightarrow> expired | _ \<Rightarrow> False))\<rparr>)"

definition finish :: "bool \<Rightarrow> string list \<Rightarrow> 'w recovery \<Rightarrow> recovery_result" where
  "finish exhausted initial s =
     \<lparr>rr_imported = rv_imported s,
      rr_permanently_failed =
        (if exhausted then
           (case rv_working s of Some w \<Rightarrow> w | None \<Rightarrow> if initial \<noteq> [] then initial else [''*''])
         else []),
      rr_table_export_info = rv_info_all s,
      rr_job_id = rv_job_id s,
      rr_last_error = rv_last_error s\<rparr>"

text \<open>The two cancellation checks around the sleep of one retry.\<close>

definition back_off :: "'w stages \<Rightarrow> int \<Rightarrow> 'w recovery \<Rightarrow> (rexc + unit) \<times> 'w recovery" where
  "back_off S delay s =
     (case on_world (cancelled S) s of
        (True, s1) \<Rightarrow> (Inl RecoveryCancelled, s1)
      | (False, s1) \<Rightarrow>
          (case on_world (cancelled S) (s1\<lparr>rv_world := sleep_for S delay (rv_world s1), rv_sleeps := rv_sleeps s1 @ [delay]\<rparr>) of
             (True, s2) \<Rightarrow> (Inl RecoveryCancelled, s2)
           | (False, s2) \<Rightarrow> (Inr (), s2)))"

text \<open>One round of the loop: \<open>Inr None\<close> asks for another one.\<close>

definition recovery_round ::
    "'w stages \<Rightarrow> bool \<Rightarrow> int \<Rightarrow> string list \<Rightarrow> int \<Rightarrow> 'w recovery \<Rightarrow> (rexc + recovery_result option) \<times> 'w recovery" where
  "recovery_round S track max_retries initial attempt s =
     (case (case attempt_body S s of
              (Inr True, s1) \<Rightarrow> (Inr True, s1)
            | (Inr False, s1) \<Rightarrow> (Inr False, s1)
            | (Inl e, s1) \<Rightarrow> if \<not> is_recoverable e then (Inl e, s1) else (Inr False, recover S track initial e s1)) of
        (Inl e, s1) \<Rightarrow> (Inl e, s1)
      | (Inr True, s1) \<Rightarrow> (Inr (Some (finish False initial s1)), s1)
      | (Inr False, s1) \<Rightarrow>
          if rv_working s1 = Some [] then (Inr (Some (finish False initial s1)), s1)
          else if attempt > max_retries then (Inr (Some (finish True initial s1)), s1)
          else (case back_off S (backoff_ladder max_retries ! nat (attempt - 1)) s1 of
                  (Inl e, s2) \<Rightarrow> (Inl e, s2)
                | (Inr _, s2) \<Rightarrow> (Inr None, s2)))"

lemma recovery_round_again: "recovery_round S track max_retries initial attempt s = (Inr None, s1) \<Longrightarrow> attempt \<le> max_retries"
  by (auto simp: recovery_round_def split: prod.splits sum.splits bool.splits if_splits)

function recovery_loop ::
    "'w stages \<Rightarrow> bool \<Rightarrow> int \<Rightarrow> string list \<Rightarrow> int \<Rightarrow> 'w recovery \<Rightarrow> (rexc + recovery_result) \<times> 'w recovery" where
  "recovery_loop S track max_retries initial attempt s =
     (case recovery_round S track max_retries initial attempt s of
        (Inl e, s1) \<Rightarrow> (Inl e, s1)
      | (Inr (Some r), s1) \<Rightarrow> (Inr r, s1)
      | (Inr None, s1) \<Rightarrow> recovery_loop S track max_retries initial (attempt + 1) s1)"
  by pat_completeness auto
termination
  by (relation "measure (\<lambda>(S, track, max_retries, initial, attempt, s). nat (max_retries + 1 - attempt))")
     (auto dest: recovery_round_again [OF sym])

declare recovery_loop.simps [simp del]

definition run_with_recovery ::
    "'w stages \<Rightarrow> bool \<Rightarrow> int \<Rightarrow> string list \<Rightarrow> string \<Rightarrow> string list \<Rightarrow> 'w \<Rightarrow> (rexc + recovery_result) \<times> 'w recovery" where
  "run_with_recovery S track max_retries initial initial_job completed w =
     recovery_loop S track max_retries initial 1
       \<lparr>rv_imported = completed, rv_info_all = [], rv_export_tables = initial, rv_job_id = initial_job,
        rv_need_post = (initial_job = ''''), rv_working = None, rv_last_error = '''', rv_sleeps = [], rv_world = w\<rparr>"

section \<open>Lemmas\<close>

lemma set_add_new [simp]: "set (add_new imported ts) = set imported \<union> set ts"
  unfolding add_new_def by (induction ts arbitrary: imported) auto

lemma distinct_add_new: "distinct imported \<Longrightarrow> distinct (add_new imported ts)"
  unfolding add_new_def by (induction ts arbitrary: imported) auto

lemma on_world_frame: "on_world f s = (r, s') \<Longrightarrow> \<exists>w. s' = s\<lparr>rv_world := w\<rparr>"
  by (auto simp: on_world_def split: prod.splits)

lemma markers_frame: "markers S ts s = (fs, s') \<Longrightarrow> (\<exists>w. s' = s\<lparr>rv_world := w\<rparr>) \<and> set fs \<subseteq> set ts"
proof (induction S ts s arbitrary: fs s' rule: markers.induct)
  case (1 S s)
  then show ?case by (auto intro: exI [of _ "rv_world s"])
next
  case (2 S t ts s)
  obtain b s1 where b: "on_world (marker_present S t) s = (b, s1)" by (cases "on_world (marker_present S t) s")
  obtain gs s2 where g: "markers S ts s1 = (gs, s2)" by (cases "markers S ts s1")
  from "2.IH" [OF b [symmetric] g] on_world_frame [OF b] "2.prems" b g show ?case by (auto split: if_splits)
qed

text \<open>What an attempt keeps: the sleeps; and that no table is both imported and still to do.\<close>

definition rv_inv :: "string list \<Rightarrow> 'w recovery \<Rightarrow> bool" where
  "rv_inv initial s \<longleftrightarrow>
     distinct (rv_imported s) \<and>
     (case rv_working s of
        Some w \<Rightarrow> set w \<inter> set (rv_imported s) = {}
      | None \<Rightarrow> set initial \<inter> set (rv_imported s) = {})"

text \<open>The fields of two states that agree but for the world, the job and the exported tables.\<close>

definition same_work :: "'w recovery \<Rightarrow> 'w recovery \<Rightarrow> bool" where
  "same_work s s' \<longleftrightarrow> rv_imported s' = rv_imported s \<and> rv_working s' = rv_working s \<and> rv_sleeps s' = rv_sleeps s"

lemma same_work_refl [simp]: "same_work s s"
  by (simp add: same_work_def)

lemma same_work_trans: "same_work s s1 \<Longrightarrow> same_work s1 s2 \<Longrightarrow> same_work s s2"
  by (simp add: same_work_def)

lemma same_work_inv: "same_work s s' \<Longrightarrow> rv_inv initial s \<Longrightarrow>
    rv_inv initial s' \<and> rv_sleeps s' = rv_sleeps s \<and> set (rv_imported s) \<subseteq> set (rv_imported s')"
  by (auto simp: same_work_def rv_inv_def split: option.splits)

lemma on_world_same: "on_world f s = (r, s') \<Longrightarrow> same_work s s'"
  by (auto simp: on_world_def same_work_def split: prod.splits)

lemma export_step_same: "export_step S s = (r, s') \<Longrightarrow> same_work s s'"
  by (auto simp: export_step_def andthen_st_def same_work_def on_world_def split: if_splits prod.splits sum.splits)

lemma load_step_spec:
  assumes "load_step S job ready s = (r, s')"
  shows "(same_work s s' \<and> (r = Inr () \<longrightarrow> ready = [])) \<or>
    (r = Inr () \<and> rv_imported s' = add_new (rv_imported s) ready \<and> rv_sleeps s' = rv_sleeps s \<and>
     rv_working s' = map_option (filter (\<lambda>t. t \<notin> set ready)) (rv_working s))"
proof (cases "ready = []")
  case True
  with assms show ?thesis by (simp add: load_step_def)
next
  case False
  obtain x s1 where d: "on_world (download_fn S job ready (rv_job_id s)) s = (x, s1)"
    by (cases "on_world (download_fn S job ready (rv_job_id s)) s")
  note s1 = on_world_same [OF d]
  show ?thesis
  proof (cases x)
    case (Inl e)
    with assms False d s1 show ?thesis by (auto simp: load_step_def)
  next
    case (Inr id)
    obtain info dir where id: "id = (info, dir)" by (cases id)
    obtain y s2 where i: "on_world (import_fn S (rv_job_id s1) ready dir) s1 = (y, s2)"
      by (cases "on_world (import_fn S (rv_job_id s1) ready dir) s1")
    note s2 = on_world_same [OF i]
    show ?thesis using assms False d Inr id i s1 s2 by (cases y) (auto simp: load_step_def same_work_def)
  qed
qed

lemma attempt_body_spec:
  assumes "attempt_body S s = (r, s')" "rv_inv initial s"
  shows "rv_inv initial s' \<and> rv_sleeps s' = rv_sleeps s \<and> set (rv_imported s) \<subseteq> set (rv_imported s') \<and>
    (r = Inr True \<longrightarrow> rv_working s' = Some []) \<and> (r = Inr False \<longrightarrow> (\<exists>w. rv_working s' = Some w \<and> w \<noteq> []))"
proof -
  obtain x s1 where x: "export_step S s = (x, s1)" by (cases "export_step S s")
  note w1 = export_step_same [OF x]
  show ?thesis
  proof (cases x)
    case (Inl e)
    with assms x same_work_inv [OF w1 assms(2)] show ?thesis by (auto simp: attempt_body_def)
  next
    case (Inr u)
    obtain y s2 where y: "on_world (poll_fn S (rv_job_id s1)) s1 = (y, s2)" by (cases "on_world (poll_fn S (rv_job_id s1)) s1")
    note w2 = on_world_same [OF y]
    show ?thesis
    proof (cases y)
      case (Inl e)
      with assms x Inr y same_work_inv [OF same_work_trans [OF w1 w2] assms(2)] show ?thesis by (auto simp: attempt_body_def)
    next
      case (Inr job)
      define present where "present = present_tables job s2"
      define ready where "ready = ready_tables job present"
      define s2' where "s2' = s2\<lparr>rv_working := Some present\<rparr>"
      obtain z s3 where z: "load_step S job ready s2' = (z, s3)" by (cases "load_step S job ready s2'")
      have disj: "set present \<inter> set (rv_imported s) = {}" and im: "rv_imported s2 = rv_imported s" "rv_sleeps s2 = rv_sleeps s"
        using w1 w2 by (auto simp: present_def present_tables_def same_work_def)
      have dist: "distinct (rv_imported s)" using assms(2) by (simp add: rv_inv_def)
      from load_step_spec [OF z] have l: "rv_sleeps s3 = rv_sleeps s \<and> distinct (rv_imported s3) \<and> set (rv_imported s) \<subseteq> set (rv_imported s3) \<and>
          (\<exists>w. rv_working s3 = Some w \<and> set w \<inter> set (rv_imported s3) = {})"
        using disj im dist by (auto simp: same_work_def s2'_def distinct_add_new)
      have "(r, s') = (case z of Inl e \<Rightarrow> (Inl e, s3) | Inr _ \<Rightarrow> conclude_attempt s3)"
        using assms(1) x \<open>x = Inr u\<close> y Inr z
        by (cases z) (simp_all add: attempt_body_def present_def [symmetric] ready_def [symmetric] s2'_def [symmetric])
      then show ?thesis using l by (cases z) (auto simp: rv_inv_def conclude_attempt_def split: if_splits)
    qed
  qed
qed

lemma recover_spec:
  assumes "rv_inv initial s"
  shows "rv_inv initial (recover S track initial e s) \<and> rv_sleeps (recover S track initial e s) = rv_sleeps s \<and>
    set (rv_imported s) \<subseteq> set (rv_imported (recover S track initial e s)) \<and>
    (rv_working s = None \<longrightarrow> initial = [] \<longrightarrow> rv_working (recover S track initial e s) = None)"
proof -
  define scope where "scope = (case rv_working s of Some w \<Rightarrow> Some w | None \<Rightarrow> if initial \<noteq> [] then Some initial else None)"
  have none: "scope = None \<longleftrightarrow> rv_working s = None \<and> initial = []" by (auto simp: scope_def split: option.splits)
  show ?thesis
  proof (cases scope)
    case None
    then have "rv_working s = None" "initial = []" using none by simp_all
    with assms None show ?thesis by (simp add: recover_def scope_def [symmetric] rv_inv_def)
  next
    case (Some ts)
    have disj: "set ts \<inter> set (rv_imported s) = {}"
      using assms Some by (auto simp: scope_def rv_inv_def split: option.splits if_splits)
    obtain fs s' where m: "markers S ts s = (fs, s')" by (cases "markers S ts s")
    with markers_frame [OF m] obtain w where s': "s' = s\<lparr>rv_world := w\<rparr>" by blast
    show ?thesis
      using assms Some none disj m s' by (auto simp: recover_def scope_def [symmetric] rv_inv_def Let_def distinct_add_new)
  qed
qed

lemma back_off_spec:
  assumes "back_off S delay s = (r, s')"
  shows "rv_imported s' = rv_imported s \<and> rv_working s' = rv_working s \<and>
    (r = Inr () \<and> rv_sleeps s' = rv_sleeps s @ [delay] \<or>
     r = Inl RecoveryCancelled \<and> (rv_sleeps s' = rv_sleeps s \<or> rv_sleeps s' = rv_sleeps s @ [delay]))"
  using assms by (auto simp: back_off_def on_world_def split: prod.splits bool.splits)

text \<open>The three ways an attempt goes on: a fatal error, all done, or something left to do.\<close>

definition settle :: "'w stages \<Rightarrow> bool \<Rightarrow> string list \<Rightarrow> 'w recovery \<Rightarrow> (rexc + bool) \<times> 'w recovery" where
  "settle S track initial s =
     (case attempt_body S s of
        (Inr b, s1) \<Rightarrow> (Inr b, s1)
      | (Inl e, s1) \<Rightarrow> if \<not> is_recoverable e then (Inl e, s1) else (Inr False, recover S track initial e s1))"

lemma recovery_round_settle:
  "recovery_round S track max_retries initial attempt s =
     (case settle S track initial s of
        (Inl e, s1) \<Rightarrow> (Inl e, s1)
      | (Inr b, s1) \<Rightarrow>
          if b \<or> rv_working s1 = Some [] then (Inr (Some (finish False initial s1)), s1)
          else if attempt > max_retries then (Inr (Some (finish True initial s1)), s1)
          else (case back_off S (backoff_ladder max_retries ! nat (attempt - 1)) s1 of
                  (Inl e, s2) \<Rightarrow> (Inl e, s2)
                | (Inr _, s2) \<Rightarrow> (Inr None, s2)))"
  unfolding recovery_round_def settle_def
  by (cases "attempt_body S s") (auto split: sum.splits bool.splits)

lemma settle_spec:
  assumes "settle S track initial s = (r, s')" "rv_inv initial s"
  shows "rv_inv initial s' \<and> rv_sleeps s' = rv_sleeps s \<and> set (rv_imported s) \<subseteq> set (rv_imported s') \<and>
    (r = Inr True \<longrightarrow> rv_working s' = Some []) \<and> (\<forall>e. r = Inl e \<longrightarrow> \<not> is_recoverable e)"
proof -
  obtain x s1 where x: "attempt_body S s = (x, s1)" by (cases "attempt_body S s")
  note a = attempt_body_spec [OF x assms(2)]
  show ?thesis
  proof (cases x)
    case (Inl e)
    with assms(1) x a recover_spec [of initial s1 S track e] show ?thesis
      by (auto simp: settle_def split: if_splits)
  next
    case (Inr b)
    with assms(1) x a show ?thesis by (auto simp: settle_def)
  qed
qed

lemma take_ladder:
  assumes "1 \<le> attempt" "attempt \<le> max_retries"
  shows "take (nat (attempt - 1)) (backoff_ladder max_retries) @ [backoff_ladder max_retries ! nat (attempt - 1)] =
    take (nat attempt) (backoff_ladder max_retries)"
proof -
  have "nat attempt = Suc (nat (attempt - 1))" "nat (attempt - 1) < length (backoff_ladder max_retries)"
    using assms by (auto simp: backoff_ladder_def)
  then show ?thesis by (simp add: take_Suc_conv_app_nth)
qed

text \<open>The loop from any round: what it has slept, and what its result says.\<close>

lemma recovery_loop_spec:
  assumes "recovery_loop S track max_retries initial attempt s = (r, s')" "rv_inv initial s"
    "1 \<le> attempt" "attempt \<le> max 0 max_retries + 1" "rv_sleeps s = take (nat (attempt - 1)) (backoff_ladder max_retries)"
  shows "(\<exists>k. rv_sleeps s' = take k (backoff_ladder max_retries)) \<and> set (rv_imported s) \<subseteq> set (rv_imported s') \<and>
    (case r of
       Inl e \<Rightarrow> \<not> is_recoverable e
     | Inr res \<Rightarrow> rr_imported res = rv_imported s' \<and> distinct (rr_imported res) \<and>
         (rr_permanently_failed res = [] \<or>
          rr_permanently_failed res = [''*''] \<and> rv_working s' = None \<and> initial = [] \<and> length (rv_sleeps s') = nat max_retries \<or>
          rr_permanently_failed res = (case rv_working s' of Some w \<Rightarrow> w | None \<Rightarrow> initial) \<and>
          set (rr_permanently_failed res) \<inter> set (rr_imported res) = {} \<and> length (rv_sleeps s') = nat max_retries) \<and>
         (rr_permanently_failed res = [] \<longrightarrow> rv_working s' = Some []))"
  using assms
proof (induction S track max_retries initial attempt s rule: recovery_loop.induct)
  case (1 S track max_retries initial attempt s)
  obtain x s1 where x: "settle S track initial s = (x, s1)" by (cases "settle S track initial s")
  note sp = settle_spec [OF x "1.prems"(2)]
  show ?case
  proof (cases x)
    case (Inl e)
    then have "recovery_round S track max_retries initial attempt s = (Inl e, s1)" by (simp add: recovery_round_settle x)
    then have "r = Inl e" "s' = s1" using "1.prems"(1) by (simp_all add: recovery_loop.simps)
    with sp Inl "1.prems"(5) show ?thesis by auto
  next
    case (Inr b)
    show ?thesis
    proof (cases "b \<or> rv_working s1 = Some []")
      case True
      then have "recovery_round S track max_retries initial attempt s = (Inr (Some (finish False initial s1)), s1)"
        by (simp add: recovery_round_settle x Inr)
      then have "r = Inr (finish False initial s1)" "s' = s1" using "1.prems"(1) by (auto simp: recovery_loop.simps)
      with sp Inr True "1.prems"(5) show ?thesis by (auto simp: finish_def rv_inv_def)
    next
      case go: False
      show ?thesis
      proof (cases "attempt > max_retries")
        case True
        with go have "recovery_round S track max_retries initial attempt s = (Inr (Some (finish True initial s1)), s1)"
          by (simp add: recovery_round_settle x Inr)
        then have r: "r = Inr (finish True initial s1)" "s' = s1" using "1.prems"(1) by (auto simp: recovery_loop.simps)
        have len: "length (rv_sleeps s') = nat max_retries"
          using True "1.prems"(3-5) r sp by (auto simp: backoff_ladder_def)
        have "\<exists>k. rv_sleeps s' = take k (backoff_ladder max_retries)" using sp r "1.prems"(5) by auto
        moreover have "rv_inv initial s1" "set (rv_imported s) \<subseteq> set (rv_imported s1)" using sp by simp_all
        ultimately show ?thesis using r go len
          by (cases "rv_working s1") (auto simp: finish_def rv_inv_def)
      next
        case False
        obtain y s2 where y: "back_off S (backoff_ladder max_retries ! nat (attempt - 1)) s1 = (y, s2)"
          by (cases "back_off S (backoff_ladder max_retries ! nat (attempt - 1)) s1")
        note bo = back_off_spec [OF y]
        have sl: "rv_sleeps s1 @ [backoff_ladder max_retries ! nat (attempt - 1)] = take (nat attempt) (backoff_ladder max_retries)"
          using sp "1.prems"(3,5) False take_ladder [of attempt max_retries] by simp
        have inv2: "rv_inv initial s2" using sp bo by (auto simp: rv_inv_def split: option.splits)
        show ?thesis
        proof (cases y)
          case (Inl e)
          then have "recovery_round S track max_retries initial attempt s = (Inl e, s2)"
            using go False y Inr by (simp add: recovery_round_settle x)
          then have "r = Inl e" "s' = s2" using "1.prems"(1) by (simp_all add: recovery_loop.simps)
          moreover have "e = RecoveryCancelled" using bo Inl by simp
          moreover have "\<exists>k. rv_sleeps s2 = take k (backoff_ladder max_retries)" using bo sl sp "1.prems"(5) by auto
          moreover have "set (rv_imported s) \<subseteq> set (rv_imported s2)" using sp bo by simp
          ultimately show ?thesis by simp
        next
          case (Inr u)
          then have rr: "recovery_round S track max_retries initial attempt s = (Inr None, s2)"
            using go False y \<open>x = Inr b\<close> by (simp add: recovery_round_settle x)
          then have "recovery_loop S track max_retries initial (attempt + 1) s2 = (r, s')"
            using "1.prems"(1) by (simp add: recovery_loop.simps [of _ _ _ _ attempt])
          moreover have "rv_sleeps s2 = take (nat (attempt + 1 - 1)) (backoff_ladder max_retries)" using bo Inr sl by simp
          moreover have "1 \<le> attempt + 1" "attempt + 1 \<le> max 0 max_retries + 1" using False "1.prems"(3) by auto
          moreover have "set (rv_imported s) \<subseteq> set (rv_imported s2)" using sp bo by simp
          ultimately show ?thesis
            using "1.IH" [OF rr [symmetric] refl refl _ inv2] by (blast intro: subset_trans)
        qed
      qed
    qed
  qed
qed

lemma poll_fails_settle:
  assumes "\<And>j w. \<exists>e. fst (poll_fn S j w) = Inl e" "settle S track [] s = (r, s')" "rv_working s = None"
  shows "(\<forall>b. r = Inr b \<longrightarrow> \<not> b \<and> rv_working s' = None) \<and> rv_imported s' = rv_imported s"
proof -
  obtain x s1 where x: "attempt_body S s = (x, s1)" by (cases "attempt_body S s")
  obtain y s0 where y: "export_step S s = (y, s0)" by (cases "export_step S s")
  obtain z s2 where z: "on_world (poll_fn S (rv_job_id s0)) s0 = (z, s2)" by (cases "on_world (poll_fn S (rv_job_id s0)) s0")
  have "\<exists>e. z = Inl e" using z assms(1) [of "rv_job_id s0" "rv_world s0"] by (auto simp: on_world_def split: prod.splits)
  then have "(\<exists>e. x = Inl e) \<and> same_work s s1"
    using x y z export_step_same [OF y] same_work_trans [OF export_step_same [OF y] on_world_same [OF z]]
    by (cases y) (auto simp: attempt_body_def)
  then obtain e where "x = Inl e" "rv_working s1 = None" "rv_imported s1 = rv_imported s"
    using assms(3) by (auto simp: same_work_def)
  with assms(2) x show ?thesis by (auto simp: settle_def recover_def split: if_splits)
qed

lemma poll_fails_loop:
  assumes "recovery_loop S track max_retries [] attempt s = (Inr res, s')" "rv_working s = None"
    and p: "\<And>j w. \<exists>e. fst (poll_fn S j w) = Inl e"
  shows "rr_permanently_failed res = [''*''] \<and> rr_imported res = rv_imported s"
  using assms(1,2)
proof (induction "nat (max_retries + 1 - attempt)" arbitrary: attempt s rule: less_induct)
  case less
  obtain x s1 where x: "settle S track [] s = (x, s1)" by (cases "settle S track [] s")
  note sp = poll_fails_settle [OF p x less.prems(2)]
  note step = less.prems(1) [unfolded recovery_loop.simps [of S track max_retries "[]" attempt] recovery_round_settle x]
  show ?case
  proof (cases x)
    case (Inl e)
    with step show ?thesis by simp
  next
    case (Inr b)
    with sp have b: "\<not> b" "rv_working s1 = None" "rv_imported s1 = rv_imported s" by auto
    show ?thesis
    proof (cases "attempt > max_retries")
      case True
      with step Inr b show ?thesis by (auto simp: finish_def)
    next
      case False
      obtain y s2 where y: "back_off S (backoff_ladder max_retries ! nat (attempt - 1)) s1 = (y, s2)"
        by (cases "back_off S (backoff_ladder max_retries ! nat (attempt - 1)) s1")
      note bo = back_off_spec [OF y]
      from step Inr b False y have "recovery_loop S track max_retries [] (attempt + 1) s2 = (Inr res, s')" by (cases y) auto
      moreover have "nat (max_retries + 1 - (attempt + 1)) < nat (max_retries + 1 - attempt)" using False by simp
      ultimately show ?thesis using less.hyps [of "attempt + 1" s2] bo b by simp
    qed
  qed
qed

lemma sum_ladder: "sum_list (backoff_ladder n) = 30 * (2 ^ nat n - 1)"
proof -
  have "sum_list (map (\<lambda>n. 30 * 2 ^ n) [0..<k]) = 30 * (2 ^ k - (1 :: int))" for k :: nat by (induction k) auto
  then show ?thesis by (simp add: backoff_ladder_def)
qed

lemma ladder_nonneg: "x \<in> set (backoff_ladder n) \<Longrightarrow> 0 \<le> x"
  by (auto simp: backoff_ladder_def)

lemma sum_take_ladder: "sum_list (take k (backoff_ladder n)) \<le> sum_list (backoff_ladder n)"
proof -
  have "0 \<le> sum_list (drop k (backoff_ladder n))"
    by (rule sum_list_nonneg) (auto dest: in_set_dropD ladder_nonneg)
  moreover have "sum_list (backoff_ladder n) = sum_list (take k (backoff_ladder n)) + sum_list (drop k (backoff_ladder n))"
    by (metis append_take_drop_id sum_list_append)
  ultimately show ?thesis by simp
qed

section \<open>What was done\<close>

text \<open>A log beside the world records the calls that went well: the jobs that polls returned, the sets of tables that were imported and the answers
  of the completion markers. The stages themselves do not see it.\<close>

datatype stage_call = Polled export_job | Imported "string list" | Marker string bool

definition with_note :: "('r \<Rightarrow> stage_call list) \<Rightarrow> ('w \<Rightarrow> 'r \<times> 'w) \<Rightarrow> 'w \<times> stage_call list \<Rightarrow> 'r \<times> 'w \<times> stage_call list" where
  "with_note g f x = (case f (fst x) of (r, w) \<Rightarrow> (r, w, snd x @ g r))"

definition logged_stages :: "'w stages \<Rightarrow> ('w \<times> stage_call list) stages" where
  "logged_stages S =
     \<lparr>export_fn = (\<lambda>ts. with_note (\<lambda>_. []) (export_fn S ts)),
      poll_fn = (\<lambda>j. with_note (\<lambda>r. case r of Inr job \<Rightarrow> [Polled job] | Inl _ \<Rightarrow> []) (poll_fn S j)),
      download_fn = (\<lambda>job ts j. with_note (\<lambda>_. []) (download_fn S job ts j)),
      import_fn = (\<lambda>j ts d. with_note (\<lambda>r. case r of Inr _ \<Rightarrow> [Imported ts] | Inl _ \<Rightarrow> []) (import_fn S j ts d)),
      marker_present = (\<lambda>t. with_note (\<lambda>b. [Marker t b]) (marker_present S t)),
      cancelled = with_note (\<lambda>_. []) (cancelled S), sleep_for = (\<lambda>d x. (sleep_for S d (fst x), snd x))\<rparr>"

definition last_job :: "stage_call list \<Rightarrow> export_job option" where
  "last_job L = fold (\<lambda>c acc. case c of Polled job \<Rightarrow> Some job | _ \<Rightarrow> acc) L None"

text \<open>Why a table counts as imported, and that no table of the request is lost from sight.\<close>

definition was_imported :: "string list \<Rightarrow> stage_call list \<Rightarrow> string \<Rightarrow> bool" where
  "was_imported completed L t \<longleftrightarrow> t \<in> set completed \<or> (\<exists>ts. Imported ts \<in> set L \<and> t \<in> set ts) \<or> Marker t True \<in> set L"

definition in_sight :: "string list \<Rightarrow> stage_call list \<Rightarrow> string set \<Rightarrow> string list option \<Rightarrow> bool" where
  "in_sight initial L done working \<longleftrightarrow>
     (case last_job L of
        Some job \<Rightarrow> \<exists>w. working = Some w \<and> set (dkeys (ej_tables job)) \<subseteq> done \<union> set w
      | None \<Rightarrow> (case working of None \<Rightarrow> True | Some w \<Rightarrow> initial \<noteq> [] \<and> set initial \<subseteq> done \<union> set w))"

definition traced :: "string list \<Rightarrow> string list \<Rightarrow> ('w \<times> stage_call list) recovery \<Rightarrow> bool" where
  "traced completed initial s \<longleftrightarrow> list_all (was_imported completed (snd (rv_world s))) (rv_imported s) \<and>
     in_sight initial (snd (rv_world s)) (set (rv_imported s)) (rv_working s)"

lemma last_job_append: "last_job (L @ M) = (case last_job M of None \<Rightarrow> last_job L | Some j \<Rightarrow> Some j)"
proof (induction M rule: rev_induct)
  case (snoc c M)
  then show ?case by (cases c) (simp_all add: last_job_def)
qed (simp add: last_job_def)

lemma last_job_simps [simp]: "last_job [] = None" "last_job [Polled j] = Some j" "last_job [Imported ts] = None" "last_job [Marker t b] = None"
  by (simp_all add: last_job_def)

lemma was_imported_more: "was_imported completed L t \<Longrightarrow> was_imported completed (L @ M) t"
  by (auto simp: was_imported_def)

lemma in_sight_same: "last_job M = None \<Longrightarrow> in_sight initial (L @ M) d w = in_sight initial L d w"
  by (simp add: in_sight_def last_job_append)

lemma noted_call: "on_world (with_note g f) s = (r, s') \<Longrightarrow> \<exists>w. s' = s\<lparr>rv_world := (w, snd (rv_world s) @ g r)\<rparr>"
  by (auto simp: on_world_def with_note_def split: prod.splits)

lemma traced_quiet:
  assumes "traced completed initial s" "rv_imported s' = rv_imported s" "rv_working s' = rv_working s"
    "snd (rv_world s') = snd (rv_world s) @ M" "last_job M = None"
  shows "traced completed initial s'"
  using assms by (auto simp: traced_def in_sight_same list_all_iff was_imported_more)

lemma traced_export:
  assumes "export_step (logged_stages S) s = (r, s')" "traced completed initial s"
  shows "traced completed initial s'"
proof (rule traced_quiet [OF assms(2), of _ "[]"])
  from assms(1) show "snd (rv_world s') = snd (rv_world s) @ []" "rv_imported s' = rv_imported s" "rv_working s' = rv_working s"
    by (auto simp: export_step_def logged_stages_def elim!: andthen_st_cases dest!: noted_call split: if_splits)
qed simp

lemma traced_load:
  assumes "load_step (logged_stages S) job ready s = (r, s')" "traced completed initial s" "rv_working s = Some w0"
  shows "traced completed initial s'"
proof (cases "ready = []")
  case True
  with assms show ?thesis by (simp add: load_step_def)
next
  case False
  obtain x s1 where d: "on_world (download_fn (logged_stages S) job ready (rv_job_id s)) s = (x, s1)" by fastforce
  from d obtain w1 where s1: "s1 = s\<lparr>rv_world := (w1, snd (rv_world s))\<rparr>" by (auto simp: logged_stages_def dest!: noted_call)
  have t1: "traced completed initial s1" using assms(2) by (rule traced_quiet [of _ _ _ _ "[]"]) (simp_all add: s1)
  show ?thesis
  proof (cases x)
    case (Inl e)
    with assms(1) False d t1 show ?thesis by (simp add: load_step_def)
  next
    case (Inr p)
    obtain info dir where p: "p = (info, dir)" by (cases p)
    obtain y s2 where i: "on_world (import_fn (logged_stages S) (rv_job_id s1) ready dir) s1 = (y, s2)" by fastforce
    from i obtain w2 where s2: "s2 = s1\<lparr>rv_world := (w2, snd (rv_world s) @ (case y of Inr _ \<Rightarrow> [Imported ready] | Inl _ \<Rightarrow> []))\<rparr>"
      by (auto simp: logged_stages_def s1 dest!: noted_call)
    show ?thesis
    proof (cases y)
      case e: (Inl e)
      have "traced completed initial s2" using t1 by (rule traced_quiet [of _ _ _ _ "[]"]) (simp_all add: s2 s1 e)
      with assms(1) False d i Inr p e show ?thesis by (simp add: load_step_def)
    next
      case u: (Inr u)
      have s': "s' = s2\<lparr>rv_imported := add_new (rv_imported s2) ready, rv_info_all := rv_info_all s2 @ info,
          rv_working := Some (filter (\<lambda>t. t \<notin> set ready) w0)\<rparr>"
        using assms(1,3) False d i Inr p u by (auto simp: load_step_def s1 s2)
      from assms(2,3) show ?thesis
        by (auto simp: s' s2 s1 u traced_def list_all_iff was_imported_def in_sight_def last_job_append split: option.splits)
    qed
  qed
qed

lemma traced_attempt:
  assumes "attempt_body (logged_stages S) s = (r, s')" "traced completed initial s"
  shows "traced completed initial s'"
proof -
  obtain x s1 where x: "export_step (logged_stages S) s = (x, s1)" by fastforce
  note t1 = traced_export [OF x assms(2)]
  show ?thesis
  proof (cases x)
    case (Inl e)
    with assms(1) x t1 show ?thesis by (simp add: attempt_body_def)
  next
    case (Inr u)
    obtain y s2 where y: "on_world (poll_fn (logged_stages S) (rv_job_id s1)) s1 = (y, s2)" by fastforce
    from y obtain w2 where s2: "s2 = s1\<lparr>rv_world := (w2, snd (rv_world s1) @ (case y of Inr job \<Rightarrow> [Polled job] | Inl _ \<Rightarrow> []))\<rparr>"
      by (auto simp: logged_stages_def dest!: noted_call)
    show ?thesis
    proof (cases y)
      case e: (Inl e)
      have "traced completed initial s2" using t1 by (rule traced_quiet [of _ _ _ _ "[]"]) (simp_all add: s2 e)
      with assms(1) x Inr y e show ?thesis by (simp add: attempt_body_def)
    next
      case j: (Inr job)
      let ?s = "s2\<lparr>rv_working := Some (present_tables job s2)\<rparr>"
      obtain z s3 where z: "load_step (logged_stages S) job (ready_tables job (present_tables job s2)) ?s = (z, s3)" by fastforce
      have "traced completed initial ?s" using t1
        by (auto simp: s2 j traced_def list_all_iff was_imported_more in_sight_def last_job_append present_tables_def)
      from traced_load [OF z this] have t3: "traced completed initial s3" by simp
      have "rv_imported (snd (conclude_attempt s3)) = rv_imported s3" "rv_working (snd (conclude_attempt s3)) = rv_working s3"
        "rv_world (snd (conclude_attempt s3)) = rv_world s3" by (simp_all add: conclude_attempt_def Let_def)
      with t3 have "traced completed initial (snd (conclude_attempt s3))" by (simp add: traced_def)
      with assms(1) x Inr y j z t3 show ?thesis by (cases z) (auto simp: attempt_body_def Let_def)
    qed
  qed
qed

lemma markers_noted:
  "markers (logged_stages S) ts s = (fs, s') \<Longrightarrow>
   \<exists>w M. s' = s\<lparr>rv_world := (w, snd (rv_world s) @ M)\<rparr> \<and> last_job M = None \<and> (\<forall>t \<in> set fs. Marker t True \<in> set M)"
proof (induction ts arbitrary: s fs s')
  case Nil
  then show ?case by (auto intro!: exI [of _ "fst (rv_world s)"] exI [of _ "[]"])
next
  case (Cons t ts)
  obtain b s1 where b: "on_world (marker_present (logged_stages S) t) s = (b, s1)" by fastforce
  then obtain w1 where s1: "s1 = s\<lparr>rv_world := (w1, snd (rv_world s) @ [Marker t b])\<rparr>" by (auto simp: logged_stages_def dest!: noted_call)
  obtain gs s2 where g: "markers (logged_stages S) ts s1 = (gs, s2)" by fastforce
  from Cons.IH [OF g] obtain w M where "s2 = s1\<lparr>rv_world := (w, snd (rv_world s1) @ M)\<rparr>" "last_job M = None" "\<forall>t \<in> set gs. Marker t True \<in> set M"
    by blast
  with Cons.prems b g s1 show ?case
    by (intro exI [of _ w] exI [of _ "Marker t b # M"]) (auto simp: last_job_append [of "[Marker t b]" M, simplified] split: if_splits)
qed

lemma traced_recover:
  assumes "traced completed initial s"
  shows "traced completed initial (recover (logged_stages S) track initial e s)"
proof -
  define scope where "scope = (case rv_working s of Some w \<Rightarrow> Some w | None \<Rightarrow> if initial \<noteq> [] then Some initial else None)"
  have t0: "in_sight initial (snd (rv_world s)) (set (rv_imported s)) scope"
    using assms by (auto simp: traced_def in_sight_def scope_def split: option.splits)
  show ?thesis
  proof (cases scope)
    case None
    with t0 assms show ?thesis by (simp add: recover_def scope_def [symmetric] Let_def traced_def)
  next
    case (Some ts)
    obtain fs s1 where m: "markers (logged_stages S) ts s = (fs, s1)" by fastforce
    from markers_noted [OF m] obtain w M where
      s1: "s1 = s\<lparr>rv_world := (w, snd (rv_world s) @ M)\<rparr>" "last_job M = None" "\<forall>t \<in> set fs. Marker t True \<in> set M" by blast
    have "in_sight initial (snd (rv_world s) @ M) (set (rv_imported s) \<union> set fs) (Some (filter (\<lambda>t. t \<notin> set fs) ts))"
      using t0 Some s1(2) by (auto simp: in_sight_def last_job_append split: option.splits)
    moreover have "list_all (was_imported completed (snd (rv_world s) @ M)) (add_new (rv_imported s) fs)"
      using assms s1(3) by (auto simp: traced_def list_all_iff was_imported_def)
    ultimately show ?thesis
      using t0 assms Some m s1(1) by (auto simp: recover_def scope_def [symmetric] Let_def traced_def)
  qed
qed

lemma traced_back_off:
  assumes "back_off (logged_stages S) delay s = (r, s')" "traced completed initial s"
  shows "traced completed initial s'"
proof (rule traced_quiet [OF assms(2), of _ "[]"])
  from assms(1) show "snd (rv_world s') = snd (rv_world s) @ []" "rv_imported s' = rv_imported s" "rv_working s' = rv_working s"
    by (auto simp: back_off_def logged_stages_def dest!: noted_call split: prod.splits bool.splits)
qed simp

lemma traced_loop:
  "recovery_loop (logged_stages S) track max_retries initial attempt s = (r, s') \<Longrightarrow> traced completed initial s \<Longrightarrow> traced completed initial s'"
proof (induction "nat (max_retries + 1 - attempt)" arbitrary: attempt s rule: less_induct)
  case less
  obtain x s1 where x: "settle (logged_stages S) track initial s = (x, s1)" by fastforce
  have t1: "traced completed initial s1"
    using x traced_attempt [of S s _ _ completed initial] less.prems(2) traced_recover
    by (auto simp: settle_def split: prod.splits sum.splits if_splits)
  note step = less.prems(1) [unfolded recovery_loop.simps [of _ track max_retries initial attempt] recovery_round_settle x]
  show ?case
  proof (cases x)
    case (Inl e)
    with step t1 show ?thesis by simp
  next
    case (Inr b)
    show ?thesis
    proof (cases "b \<or> rv_working s1 = Some [] \<or> attempt > max_retries")
      case True
      with step Inr t1 show ?thesis by (auto split: if_splits)
    next
      case False
      obtain y s2 where y: "back_off (logged_stages S) (backoff_ladder max_retries ! nat (attempt - 1)) s1 = (y, s2)" by fastforce
      note t2 = traced_back_off [OF y t1]
      from False step Inr y have "(\<exists>e. y = Inl e \<and> s' = s2) \<or> recovery_loop (logged_stages S) track max_retries initial (attempt + 1) s2 = (r, s')"
        by (cases y) auto
      with less.hyps [of "attempt + 1" s2] False t2 show ?thesis by auto
    qed
  qed
qed

section \<open>Properties\<close>

text \<open>C5: the recovery state machine, for every behaviour of the export, poll, download and import stages. It
  ends; its sleeps are the first steps of the ladder 30, 60, 120, ..., in total at most
  \<open>30 * (2 ^ max_retries - 1)\<close> seconds; an error it passes on is one it may not retry. A result lists each imported table once, with those completed
  before, and every other one was in a set of tables that was imported without an error, or its completion marker was found. No table is lost: every
  table of the last job that was polled is imported or reported as permanently failed; if no poll succeeded, every table that was asked for is, or all of
  them are reported as \<open>*\<close> when none was named. A table is reported as permanently failed only after all retries, and then it is not among the
  imported ones.\<close>

theorem recovery_outcome:
  assumes "run_with_recovery (logged_stages S) track max_retries initial job completed (w, []) = (r, s')"
    and "distinct completed" "set initial \<inter> set completed = {}"
  shows "(\<exists>k. rv_sleeps s' = take k (backoff_ladder max_retries)) \<and> sum_list (rv_sleeps s') \<le> 30 * (2 ^ nat max_retries - 1) \<and>
    (case r of
       Inl e \<Rightarrow> \<not> is_recoverable e
     | Inr res \<Rightarrow> distinct (rr_imported res) \<and> set completed \<subseteq> set (rr_imported res) \<and>
         (\<forall>t \<in> set (rr_imported res). was_imported completed (snd (rv_world s')) t) \<and>
         (case last_job (snd (rv_world s')) of
            Some j \<Rightarrow> set (dkeys (ej_tables j)) \<subseteq> set (rr_imported res) \<union> set (rr_permanently_failed res)
          | None \<Rightarrow> if initial = [] then rr_permanently_failed res = [''*'']
                    else set initial \<subseteq> set (rr_imported res) \<union> set (rr_permanently_failed res)) \<and>
         (rr_permanently_failed res \<noteq> [] \<longrightarrow> length (rv_sleeps s') = nat max_retries \<and>
            (rr_permanently_failed res = [''*''] \<and> initial = [] \<or> set (rr_permanently_failed res) \<inter> set (rr_imported res) = {})))"
proof -
  let ?s = "\<lparr>rv_imported = completed, rv_info_all = [], rv_export_tables = initial, rv_job_id = job,
        rv_need_post = (job = []), rv_working = None, rv_last_error = [], rv_sleeps = [], rv_world = (w, [])\<rparr>"
  note run = assms(1) [unfolded run_with_recovery_def]
  have "rv_inv initial ?s" using assms(2,3) by (simp add: rv_inv_def)
  from recovery_loop_spec [OF run this]
  have l: "(\<exists>k. rv_sleeps s' = take k (backoff_ladder max_retries)) \<and> set completed \<subseteq> set (rv_imported s') \<and>
    (case r of
       Inl e \<Rightarrow> \<not> is_recoverable e
     | Inr res \<Rightarrow> rr_imported res = rv_imported s' \<and> distinct (rr_imported res) \<and>
         (rr_permanently_failed res = [] \<or>
          rr_permanently_failed res = [''*''] \<and> rv_working s' = None \<and> initial = [] \<and> length (rv_sleeps s') = nat max_retries \<or>
          rr_permanently_failed res = (case rv_working s' of Some w \<Rightarrow> w | None \<Rightarrow> initial) \<and>
          set (rr_permanently_failed res) \<inter> set (rr_imported res) = {} \<and> length (rv_sleeps s') = nat max_retries) \<and>
         (rr_permanently_failed res = [] \<longrightarrow> rv_working s' = Some []))" by simp
  have sum: "sum_list (rv_sleeps s') \<le> 30 * (2 ^ nat max_retries - 1)" using l sum_take_ladder sum_ladder by metis
  have "traced completed initial ?s" by (simp add: traced_def list_all_iff was_imported_def in_sight_def)
  from traced_loop [OF run this] have t: "list_all (was_imported completed (snd (rv_world s'))) (rv_imported s')"
    "in_sight initial (snd (rv_world s')) (set (rv_imported s')) (rv_working s')" by (simp_all add: traced_def)
  show ?thesis
  proof (cases r)
    case (Inl e)
    with l sum show ?thesis by simp
  next
    case (Inr res)
    note f = l [unfolded Inr, simplified]
    have "case last_job (snd (rv_world s')) of
            Some j \<Rightarrow> set (dkeys (ej_tables j)) \<subseteq> set (rr_imported res) \<union> set (rr_permanently_failed res)
          | None \<Rightarrow> if initial = [] then rr_permanently_failed res = [''*'']
                    else set initial \<subseteq> set (rr_imported res) \<union> set (rr_permanently_failed res)"
      using t(2) f by (cases "rv_working s'") (auto simp: in_sight_def split: option.splits)
    with t(1) f sum show ?thesis by (auto simp: Inr list_all_iff)
  qed
qed

text \<open>Stages for the witnesses: the world is the list of jobs the polls return.\<close>

definition sample_stages :: "export_job list stages" where
  "sample_stages = \<lparr>export_fn = (\<lambda>_ w. (Inr ''job'', w)),
     poll_fn = (\<lambda>_ w. case w of [] \<Rightarrow> (Inl (ConnectionErr ''reset''), []) | j # js \<Rightarrow> (Inr j, js)),
     download_fn = (\<lambda>_ ts _ w. (Inr (map (\<lambda>t. (t, 0)) ts, ''dir''), w)), import_fn = (\<lambda>_ _ _ w. (Inr (), w)),
     marker_present = (\<lambda>_ w. (False, w)), cancelled = (\<lambda>w. (False, w)), sleep_for = (\<lambda>_ w. w)\<rparr>"

definition sample_table :: "string \<Rightarrow> export_table" where
  "sample_table st = \<lparr>et_error = '''', et_status = st, et_urls = [], et_cursor = ''0''\<rparr>"

theorem recovery_outcome_witness:
  "\<exists>res s'. run_with_recovery (logged_stages sample_stages) False 2 [''a''] [] [] ([], []) = (Inr res, s') \<and> rr_permanently_failed res = [''a''] \<and>
     rv_sleeps s' = [30, 60] \<and> set [''a''] \<subseteq> set (rr_imported res) \<union> set (rr_permanently_failed res)"
proof -
  let ?run = "run_with_recovery (logged_stages sample_stages) False 2 [''a''] [] [] ([], [])"
  obtain r s' where rs: "?run = (r, s')" by (cases ?run)
  have "(case ?run of (Inr res, s') \<Rightarrow> rr_permanently_failed res = [''a''] \<and> rv_sleeps s' = [30, 60] \<and> last_job (snd (rv_world s')) = None | _ \<Rightarrow> False)"
    by code_simp
  with rs obtain res where "r = Inr res" "rr_permanently_failed res = [''a'']" "rv_sleeps s' = [30, 60]" "last_job (snd (rv_world s')) = None"
    by (cases r) auto
  with recovery_outcome [OF rs] rs show ?thesis by auto
qed

text \<open>An import of everything in which no poll ever succeeds is not reported as a success with no tables:
  if it returns at all, it returns every table as permanently failed and imports nothing new.\<close>

theorem recovery_never_collapses:
  assumes "\<And>j w. \<exists>e. fst (poll_fn S j w) = Inl e"
    and "run_with_recovery S track max_retries [] job completed w = (Inr res, s')"
  shows "rr_permanently_failed res = [''*''] \<and> rr_imported res = completed"
  using poll_fails_loop [OF assms(2) [unfolded run_with_recovery_def] _ assms(1)] by simp

definition dead_stages :: "unit stages" where
  "dead_stages = \<lparr>export_fn = (\<lambda>_ w. (Inr ''job'', w)), poll_fn = (\<lambda>_ w. (Inl (TimeoutErr ''''), w)),
     download_fn = (\<lambda>_ ts _ w. (Inr ([], ''dir''), w)), import_fn = (\<lambda>_ _ _ w. (Inr (), w)),
     marker_present = (\<lambda>_ w. (True, w)), cancelled = (\<lambda>w. (False, w)), sleep_for = (\<lambda>_ w. w)\<rparr>"

theorem recovery_never_collapses_witness:
  "\<exists>res s'. run_with_recovery dead_stages True 1 [] '''' [''t''] () = (Inr res, s') \<and>
     rr_permanently_failed res = [''*''] \<and> rr_imported res = [''t'']"
proof -
  obtain r s' where rs: "run_with_recovery dead_stages True 1 [] '''' [''t''] () = (r, s')"
    by (cases "run_with_recovery dead_stages True 1 [] '''' [''t''] ()")
  have "(case fst (run_with_recovery dead_stages True 1 [] '''' [''t''] ()) of Inr _ \<Rightarrow> True | Inl _ \<Rightarrow> False)" by code_simp
  with rs obtain res where "r = Inr res" by (cases r) auto
  with rs recovery_never_collapses [of dead_stages True 1 "''''" "[''t'']" "()"] show ?thesis by (auto simp: dead_stages_def)
qed

text \<open>The poll of the recovery path returns as soon as one table has failed, while others may still be in
  progress, and the loop takes every table that has not failed for ready. A table whose export was still
  pending, with no file to load, is then reported as imported and never exported again.\<close>

theorem recovery_imports_unfinished:
  "\<exists>job job2 res s'.
     \<not> ej_completed job \<and> dget (ej_tables job) ''b'' = Some (sample_table ''Pending'') \<and>
     poll_until_complete False [(Inr job, False)] = Some (Inr (Some job)) \<and>
     dkeys (ej_tables job2) = [''a''] \<and>
     run_with_recovery sample_stages False 5 [] '''' [] [job, job2] = (Inr res, s') \<and>
     rr_imported res = [''b'', ''a''] \<and> rr_permanently_failed res = []"
proof -
  let ?job = "\<lparr>ej_completed = False, ej_tables = [(''a'', sample_table ''Failed''), (''b'', sample_table ''Pending'')]\<rparr>"
  let ?job2 = "\<lparr>ej_completed = True, ej_tables = [(''a'', sample_table ''Completed'')]\<rparr>"
  have "(case run_with_recovery sample_stages False 5 [] '''' [] [?job, ?job2] of
      (Inr res, s') \<Rightarrow> rr_imported res = [''b'', ''a''] \<and> rr_permanently_failed res = [] | _ \<Rightarrow> False)" by code_simp
  then obtain res s' where "run_with_recovery sample_stages False 5 [] '''' [] [?job, ?job2] = (Inr res, s')"
    "rr_imported res = [''b'', ''a'']" "rr_permanently_failed res = []" by (auto split: prod.splits sum.splits)
  moreover have "poll_until_complete False [(Inr ?job, False)] = Some (Inr (Some ?job))"
    by (simp add: failed_tables_def sample_table_def)
  ultimately show ?thesis by (intro exI [of _ ?job] exI [of _ ?job2] exI [of _ res] exI [of _ s']) simp
qed

text \<open>The poll of the normal path. It returns a job only when that job is completed and none of its tables
  has failed; it raises on the first failed table; and it comes back as soon as one delivered job is
  completed or one fetch raises.\<close>

theorem poll_completes:
  "(\<forall>job. poll_until_complete True env = Some (Inr (Some job)) \<longrightarrow>
      ej_completed job \<and> failed_tables job = [] \<and> (\<exists>c. (Inr job, c) \<in> set env)) \<and>
   ((\<exists>x \<in> set env. case fst x of Inl _ \<Rightarrow> True | Inr job \<Rightarrow> ej_completed job) \<longrightarrow>
      (\<exists>y. poll_until_complete True env = Some y))"
proof (induction True env rule: poll_until_complete.induct)
  case (2 fetched c env)
  have none: "failed_tables job = []" if "check_export_job job = Inr job'" for job job'
    using that by (auto simp: check_export_job_def failed_tables_def find_None_iff filter_empty_conv split: option.splits)
  have same: "job' = job" if "check_export_job job = Inr job'" for job job'
    using that by (auto simp: check_export_job_def split: option.splits)
  show ?case
  proof (cases "andthen fetched check_export_job")
    case (Inl e)
    then show ?thesis by simp
  next
    case (Inr job)
    then obtain j where j: "fetched = Inr j" "check_export_job j = Inr job" by (auto simp: andthen_Inr_conv)
    with same none have "j = job" "failed_tables job = []" by auto
    with Inr j 2 show ?thesis by auto
  qed
qed simp

theorem poll_completes_witness:
  "poll_until_complete True [(Inr \<lparr>ej_completed = False, ej_tables = []\<rparr>, False), (Inr \<lparr>ej_completed = True, ej_tables = []\<rparr>, False)] =
     Some (Inr (Some \<lparr>ej_completed = True, ej_tables = []\<rparr>)) \<and> failed_tables \<lparr>ej_completed = True, ej_tables = []\<rparr> = []"
proof -
  have e: "poll_until_complete True [(Inr \<lparr>ej_completed = False, ej_tables = []\<rparr>, False), (Inr \<lparr>ej_completed = True, ej_tables = []\<rparr>, False)] =
     Some (Inr (Some \<lparr>ej_completed = True, ej_tables = []\<rparr>))" by (simp add: check_export_job_def)
  with poll_completes [of "[(Inr \<lparr>ej_completed = False, ej_tables = []\<rparr>, False), (Inr \<lparr>ej_completed = True, ej_tables = []\<rparr>, False)]"]
  show ?thesis by blast
qed

end
