(* ===== verification/Ndjson.thy ===== *)
theory Ndjson
  imports Sql
begin

text \<open>
  What an import reads: the names of the changefeed export files, \<open>src/eds/util/crdb.py\<close>, the listing of
  the download directory, \<open>list_dir\<close> of \<open>src/eds/util/file.py\<close>, and the decoder of their lines,
  \<open>NDJSONDecoder\<close> of \<open>src/eds/util/json.py\<close>. A directory is a tree of entries; a file is the sequence of lines
  that \<open>readline\<close> returns, and what happens after the last of them.
\<close>

section \<open>Names of export files\<close>

definition is_word :: "char \<Rightarrow> bool" where
  "is_word c \<longleftrightarrow> is_alpha c \<or> is_digit c \<or> c = CHR ''_''"

definition table_char :: "char \<Rightarrow> bool" where
  "table_char c \<longleftrightarrow> is_lower c \<or> is_digit c \<or> c = CHR ''_''"

definition word_or_dash :: "char \<Rightarrow> bool" where
  "word_or_dash c \<longleftrightarrow> is_word c \<or> c = CHR ''-''"

text \<open>
  The groups 1 and 2 of a match of the export file expression: thirty-three digits, a word, words and dashes, the table and
  a word, separated by dashes, before \<open>.ndjson.gz\<close>. No class has a dot, so the match ends at the first one; the
  last two parts have no dash, so they are what the last two dashes cut off.
\<close>

definition crdb_match :: "string \<Rightarrow> (string \<times> string) option" where
  "crdb_match name =
     (case partition_at (CHR ''.'') name of (stem, dot, ext) \<Rightarrow>
      case rpartition_at (CHR ''-'') stem of (front, d3, version) \<Rightarrow>
      case rpartition_at (CHR ''-'') front of (head, d2, table) \<Rightarrow>
      case partition_at (CHR ''-'') head of (date, d0, rest) \<Rightarrow>
      case partition_at (CHR ''-'') rest of (job, d1, middle) \<Rightarrow>
        if dot \<and> take 9 ext = ''ndjson.gz'' \<and> d0 \<and> d1 \<and> d2 \<and> d3 \<and>
           length date = 33 \<and> list_all is_digit date \<and> job \<noteq> [] \<and> list_all is_word job \<and>
           middle \<noteq> [] \<and> list_all word_or_dash middle \<and> table \<noteq> [] \<and> list_all table_char table \<and>
           version \<noteq> [] \<and> list_all is_word version
        then Some (date, table) else None)"

text \<open>Days from 1 January of year 1, as \<open>datetime.toordinal\<close> counts them.\<close>

definition days_before_month :: "nat \<Rightarrow> nat \<Rightarrow> nat" where
  "days_before_month y m = sum_list (map (days_in_month y) [1..<m])"

definition toordinal :: "nat \<Rightarrow> nat \<Rightarrow> nat \<Rightarrow> nat" where
  "toordinal y m d =
     365 * (y - 1) + (y - 1) div 4 - (y - 1) div 100 + (y - 1) div 400 + days_before_month y m + d"

definition unix_seconds :: "datetime \<Rightarrow> int" where
  "unix_seconds t =
     (int (toordinal (dt_year t) (dt_month t) (dt_day t)) - 719163) * 86400 +
     3600 * int (dt_hour t) + 60 * int (dt_minute t) + int (dt_second t)"

text \<open>\<open>strptime(head, "%Y%m%d%H%M%S")\<close> on fourteen digits: no field can be shorter than its width.\<close>

definition strptime_digits :: "string \<Rightarrow> datetime option" where
  "strptime_digits s =
     (let t = \<lparr>dt_year = field s 0 4, dt_month = field s 4 2, dt_day = field s 6 2, dt_hour = field s 8 2,
               dt_minute = field s 10 2, dt_second = field s 12 2, dt_microsecond = 0\<rparr>
      in if length s = 14 \<and> list_all is_digit s \<and> valid_datetime t then Some t else None)"

definition parse_precise_date :: "string \<Rightarrow> int \<times> bool" where
  "parse_precise_date date_str =
     (if length date_str < 23 then (0, False)
      else let head = take 14 date_str; nanos_str = take 9 (drop 14 date_str) in
        case strptime_digits head of
          None \<Rightarrow> (0, False)
        | Some t \<Rightarrow> if list_all is_digit nanos_str then (unix_seconds t * 1000000000 + int (nat_of_digits nanos_str), True) else (0, False))"

text \<open>\<open>os.path.basename\<close> and the test \<open>os.path.splitext(fn)[1] == ".gz"\<close>: the leading dots of a name are not an extension.\<close>

definition basename :: "string \<Rightarrow> string" where
  "basename path = snd (snd (rpartition_at (CHR ''/'') path))"

definition has_gz_ext :: "string \<Rightarrow> bool" where
  "has_gz_ext fn =
     (case rpartition_at (CHR ''.'') (dropWhile (\<lambda>c. c = CHR ''.'') (basename fn)) of (stem, dot, ext) \<Rightarrow> dot \<and> ext = ''gz'')"

record crdb_export_file =
  cf_table :: string
  cf_unix_nanos :: int
  cf_ok :: bool

definition parse_crdb_export_file :: "string \<Rightarrow> crdb_export_file" where
  "parse_crdb_export_file file =
     (case crdb_match (basename file) of
        None \<Rightarrow> \<lparr>cf_table = '''', cf_unix_nanos = 0, cf_ok = False\<rparr>
      | Some (date, table) \<Rightarrow>
          (case parse_precise_date date of
             (unix_nano, ok) \<Rightarrow>
               if ok then \<lparr>cf_table = table, cf_unix_nanos = unix_nano, cf_ok = True\<rparr>
               else \<lparr>cf_table = '''', cf_unix_nanos = 0, cf_ok = False\<rparr>))"

section \<open>The listing of a directory\<close>

datatype dir_entry = File string | Directory string "dir_entry list"

fun entry_name :: "dir_entry \<Rightarrow> string" where
  "entry_name (File n) = n"
| "entry_name (Directory n es) = n"

definition path_join :: "string \<Rightarrow> string \<Rightarrow> string" where
  "path_join dir n = (if dir = '''' \<or> last dir = CHR ''/'' then dir @ n else dir @ ''/'' @ n)"

fun list_entry :: "string \<Rightarrow> dir_entry \<Rightarrow> string list" where
  "list_entry dir (File n) = (if n = ''.DS_Store'' then [] else [path_join dir n])"
| "list_entry dir (Directory n es) =
     concat (map (\<lambda>e. list_entry (path_join dir n) e) (sort_key entry_name es))"

definition list_dir :: "string \<Rightarrow> dir_entry list \<Rightarrow> string list" where
  "list_dir dir es = concat (map (list_entry dir) (sort_key entry_name es))"

section \<open>The decoder\<close>

text \<open>After the last line: the end of the file, an \<open>OSError\<close> or \<open>EOFError\<close> of the reader, or another exception.\<close>

datatype stream_end = AtEof | ReadError | Raises exc

type_synonym stream = "string list \<times> stream_end"

record ndjson_decoder =
  nd_lines :: "string list"
  nd_end :: stream_end
  nd_peeked :: "string option"
  nd_has_peeked :: bool
  nd_count :: nat

text \<open>\<open>str.strip()\<close>: the UTF-8 encodings of the characters Python counts as white space.\<close>

definition PY_SPACES :: "string list" where
  "PY_SPACES =
     [[CHR 0x09], [CHR 0x0A], [CHR 0x0B], [CHR 0x0C], [CHR 0x0D], [CHR 0x1C], [CHR 0x1D], [CHR 0x1E], [CHR 0x1F],
      [CHR 0x20], [CHR 0xC2, CHR 0x85], [CHR 0xC2, CHR 0xA0], [CHR 0xE1, CHR 0x9A, CHR 0x80],
      [CHR 0xE2, CHR 0x80, CHR 0x80], [CHR 0xE2, CHR 0x80, CHR 0x81], [CHR 0xE2, CHR 0x80, CHR 0x82],
      [CHR 0xE2, CHR 0x80, CHR 0x83], [CHR 0xE2, CHR 0x80, CHR 0x84], [CHR 0xE2, CHR 0x80, CHR 0x85],
      [CHR 0xE2, CHR 0x80, CHR 0x86], [CHR 0xE2, CHR 0x80, CHR 0x87], [CHR 0xE2, CHR 0x80, CHR 0x88],
      [CHR 0xE2, CHR 0x80, CHR 0x89], [CHR 0xE2, CHR 0x80, CHR 0x8A], [CHR 0xE2, CHR 0x80, CHR 0xA8],
      [CHR 0xE2, CHR 0x80, CHR 0xA9], [CHR 0xE2, CHR 0x80, CHR 0xAF], [CHR 0xE2, CHR 0x81, CHR 0x9F],
      [CHR 0xE3, CHR 0x80, CHR 0x80]]"

fun strip_front :: "nat \<Rightarrow> string list \<Rightarrow> string \<Rightarrow> string" where
  "strip_front 0 spaces s = s"
| "strip_front (Suc n) spaces s =
     (case find (\<lambda>w. take (length w) s = w) spaces of
        None \<Rightarrow> s
      | Some w \<Rightarrow> strip_front n spaces (drop (length w) s))"

definition strip :: "string \<Rightarrow> string" where
  "strip s =
     (let s1 = strip_front (length s) PY_SPACES s
      in rev (strip_front (length s1) (map rev PY_SPACES) (rev s1)))"

definition ndjson_of_stream :: "stream \<Rightarrow> ndjson_decoder" where
  "ndjson_of_stream fp = \<lparr>nd_lines = fst fp, nd_end = snd fp, nd_peeked = None, nd_has_peeked = False, nd_count = 0\<rparr>"

text \<open>\<open>more\<close>: the loop over the lines, then the method.\<close>

fun next_value :: "string list \<Rightarrow> stream_end \<Rightarrow> string option res \<times> string list" where
  "next_value [] e = (case e of Raises x \<Rightarrow> Inl x | _ \<Rightarrow> Inr None, [])"
| "next_value (line # lines) e =
     (if line = '''' then (Inr None, lines)
      else if strip line = '''' then next_value lines e
      else (Inr (Some (strip line)), lines))"

definition nd_more :: "ndjson_decoder \<Rightarrow> bool res \<times> ndjson_decoder" where
  "nd_more d =
     (if nd_has_peeked d then (Inr (nd_peeked d \<noteq> None), d)
      else case next_value (nd_lines d) (nd_end d) of
             (Inl x, lines) \<Rightarrow> (Inl x, d\<lparr>nd_lines := lines\<rparr>)
           | (Inr v, lines) \<Rightarrow> (Inr (v \<noteq> None), d\<lparr>nd_lines := lines, nd_peeked := v, nd_has_peeked := True\<rparr>))"

definition decode_raw :: "ndjson_decoder \<Rightarrow> string res \<times> ndjson_decoder" where
  "decode_raw d =
     andthen_st (nd_more d) (\<lambda>m d1.
       case nd_peeked d1 of
         Some v \<Rightarrow>
           (let d2 = d1\<lparr>nd_peeked := None, nd_has_peeked := False\<rparr>
            in if \<not> m then (Inl (ValueError ''no more JSON values''), d1)
               else case loads opts_strict v of
                      None \<Rightarrow> (Inl (ValueError ''invalid JSON''), d2)
                    | Some _ \<Rightarrow> (Inr v, d2\<lparr>nd_count := nd_count d2 + 1\<rparr>))
       | None \<Rightarrow> (Inl (ValueError ''no more JSON values''), d1))"

section \<open>Properties\<close>

lemma rpartition_at_concat:
  assumes "rpartition_at c s = (a, True, b)"
  shows "s = a @ c # b \<and> c \<notin> set b"
proof -
  obtain x f y where p: "partition_at c (rev s) = (x, f, y)" by (rule prod_cases3)
  with assms have "f" "a = rev y" "b = rev x" by (auto simp: rpartition_at_def split: if_splits)
  moreover have "rev (rev s) = rev (x @ c # y)" "c \<notin> set x" using partition_at_concat [OF p] \<open>f\<close> by simp_all
  ultimately show ?thesis by simp
qed

lemma class_chars:
  "list_all is_word s \<Longrightarrow> CHR ''.'' \<notin> set s \<and> CHR ''-'' \<notin> set s"
  "list_all word_or_dash s \<Longrightarrow> CHR ''.'' \<notin> set s"
  "list_all table_char s \<Longrightarrow> CHR ''.'' \<notin> set s \<and> CHR ''-'' \<notin> set s"
  "list_all is_digit s \<Longrightarrow> CHR ''.'' \<notin> set s \<and> CHR ''-'' \<notin> set s"
  by (auto simp: list_all_iff is_word_def word_or_dash_def table_char_def is_alpha_def is_lower_def is_upper_def is_digit_def less_eq_char_def)

text \<open>The name of an export file. The cut at the first dot and the outer dashes finds exactly the matches of
  \<open>^([0-9]{33})-[A-Za-z0-9_]+-[A-Za-z0-9_-]+-([a-z0-9_]+)-([A-Za-z0-9_]+)\.ndjson\.gz\<close>, with their date and their table: the
  match is unique, although two of its parts can be split in several ways.\<close>

theorem crdb_file_name:
  "crdb_match name = Some (date, table) \<longleftrightarrow>
     (\<exists>job middle version rest.
        name = date @ ''-'' @ job @ ''-'' @ middle @ ''-'' @ table @ ''-'' @ version @ ''.ndjson.gz'' @ rest \<and>
        length date = 33 \<and> list_all is_digit date \<and> job \<noteq> [] \<and> list_all is_word job \<and>
        middle \<noteq> [] \<and> list_all word_or_dash middle \<and> table \<noteq> [] \<and> list_all table_char table \<and>
        version \<noteq> [] \<and> list_all is_word version)"
  (is "?match \<longleftrightarrow> ?regex")
proof
  assume ?regex
  then obtain job middle version rest where
    n: "name = date @ ''-'' @ job @ ''-'' @ middle @ ''-'' @ table @ ''-'' @ version @ ''.ndjson.gz'' @ rest"
    and c: "length date = 33" "list_all is_digit date" "job \<noteq> []" "list_all is_word job" "middle \<noteq> []" "list_all word_or_dash middle"
      "table \<noteq> []" "list_all table_char table" "version \<noteq> []" "list_all is_word version" by blast
  let ?head = "date @ CHR ''-'' # job @ CHR ''-'' # middle"
  have "partition_at (CHR ''.'') name = ((?head @ CHR ''-'' # table) @ CHR ''-'' # version, True, ''ndjson.gz'' @ rest)"
    using partition_at_append [of "CHR ''.''" "(?head @ CHR ''-'' # table) @ CHR ''-'' # version" "''ndjson.gz'' @ rest"]
      class_chars c by (simp add: n)
  moreover have "rpartition_at (CHR ''-'') ((?head @ CHR ''-'' # table) @ CHR ''-'' # version) = (?head @ CHR ''-'' # table, True, version)"
    by (rule rpartition_at_append) (use class_chars c in blast)
  moreover have "rpartition_at (CHR ''-'') (?head @ CHR ''-'' # table) = (?head, True, table)"
    by (rule rpartition_at_append) (use class_chars c in blast)
  moreover have "partition_at (CHR ''-'') ?head = (date, True, job @ CHR ''-'' # middle)"
    "partition_at (CHR ''-'') (job @ CHR ''-'' # middle) = (job, True, middle)"
    by (rule partition_at_append, use class_chars c in blast)+
  ultimately show ?match using c by (simp add: crdb_match_def)
next
  assume m: ?match
  obtain stem dot ext where a: "partition_at (CHR ''.'') name = (stem, dot, ext)" by (rule prod_cases3)
  obtain front d3 version where b: "rpartition_at (CHR ''-'') stem = (front, d3, version)" by (rule prod_cases3)
  obtain head d2 table' where c: "rpartition_at (CHR ''-'') front = (head, d2, table')" by (rule prod_cases3)
  obtain date' d0 rest where d: "partition_at (CHR ''-'') head = (date', d0, rest)" by (rule prod_cases3)
  obtain job d1 middle where e: "partition_at (CHR ''-'') rest = (job, d1, middle)" by (rule prod_cases3)
  have f: "dot" "take 9 ext = ''ndjson.gz''" "d0" "d1" "d2" "d3" "length date = 33" "list_all is_digit date" "job \<noteq> []" "list_all is_word job"
      "middle \<noteq> []" "list_all word_or_dash middle" "table \<noteq> []" "list_all table_char table" "version \<noteq> []" "list_all is_word version"
      "date' = date" "table' = table"
    using m by (simp_all add: crdb_match_def a b c d e split: if_splits)
  have "name = stem @ CHR ''.'' # ''ndjson.gz'' @ drop 9 ext"
    using partition_at_concat [OF a] f(1,2) append_take_drop_id [of 9 ext] by simp
  moreover have "stem = front @ CHR ''-'' # version" "front = head @ CHR ''-'' # table"
    using rpartition_at_concat [of "CHR ''-''" stem front version] rpartition_at_concat [of "CHR ''-''" front head table] b c f by simp_all
  moreover have "head = date @ CHR ''-'' # rest" "rest = job @ CHR ''-'' # middle"
    using partition_at_concat [OF d] partition_at_concat [OF e] f by simp_all
  ultimately have "name = date @ ''-'' @ job @ ''-'' @ middle @ ''-'' @ table @ ''-'' @ version @ ''.ndjson.gz'' @ drop 9 ext" by simp
  with f show ?regex by blast
qed

end
