(* ===== verification/UrlRound.thy ===== *)
theory UrlRound
  imports GoUrl
begin

text \<open>
  The parser and the printer of \<open>eds/util/gourl.py\<close> against each other. \<open>url_ok\<close> describes the
  URLs the parser can return; \<open>url_parse_ok\<close> shows that it returns no others, \<open>url_str_parse\<close> that
  the text of every such URL parses to that URL. The proofs follow the grammar: host, authority,
  path, scheme, query, and then the four forms of what follows the scheme.
\<close>

section \<open>Hosts\<close>

definition host_port_ok :: "string \<Rightarrow> bool" where
  "host_port_ok h =
     (if starts (CHR ''['') h then (case rpartition_at (CHR '']'') h of (_, f, p) \<Rightarrow> f \<and> valid_optional_port p)
      else (case rpartition_at (CHR '':'') h of (_, f, p) \<Rightarrow> f \<longrightarrow> list_all is_digit p))"

definition host_ok :: "string \<Rightarrow> bool" where
  "host_ok h \<longleftrightarrow> utf8_ok h \<and> list_all host_char h \<and> host_port_ok h"

lemma parse_host_iff: "parse_host r = Inr h \<longleftrightarrow> host_port_ok r \<and> unescape r EncodeHost = Inr h"
  by (auto simp: parse_host_def host_port_ok_def valid_optional_port_def split: prod.splits list.splits if_splits)

text \<open>A byte that can only stand for itself in an escaped host.\<close>

definition plain :: "char \<Rightarrow> bool" where
  "plain c \<longleftrightarrow> \<not> is_hex c \<and> c \<noteq> CHR ''%'' \<and> c \<noteq> CHR ''+'' \<and> byte c < 0x80"

lemma plain_delims [simp]: "plain (CHR '':'')" "plain (CHR '']'')" "plain (CHR ''['')"
  by (simp_all add: plain_def is_hex_def)

lemma unesc_split:
  "unesc m r h \<Longrightarrow> r = a @ c # b \<Longrightarrow> plain c \<Longrightarrow> \<exists>x y. h = x @ c # y \<and> unesc m a x \<and> unesc m b y"
proof (induction arbitrary: a rule: unesc.induct)
  case (unesc_nil m)
  then show ?case by simp
next
  case (unesc_hex p q m t h)
  then have "a \<noteq> []" "a \<noteq> [CHR ''%'']" "a \<noteq> [CHR ''%'', p]" by (auto simp: plain_def)
  with unesc_hex(6) obtain a' where a: "a = CHR ''%'' # p # q # a'" "t = a' @ c # b"
    by (auto simp: append_eq_Cons_conv Cons_eq_append_conv)
  from unesc_hex(5) [OF a(2) unesc_hex(7)] obtain x y where "h = x @ c # y" "unesc m a' x" "unesc m b y" by auto
  with unesc.unesc_hex [OF unesc_hex(1-3)] a(1) show ?case by (metis append_Cons)
next
  case (unesc_plus p m t h)
  then obtain a' where a: "a = CHR ''+'' # a'" "t = a' @ c # b"
    by (cases a) (auto simp: plain_def)
  from unesc_plus(3) [OF a(2) unesc_plus(5)] obtain x y where "h = x @ c # y" "unesc m a' x" "unesc m b y" by auto
  with unesc.unesc_plus [OF unesc_plus(1)] a(1) show ?case by (metis append_Cons)
next
  case (unesc_lit d m t h)
  show ?case
  proof (cases a)
    case Nil
    with unesc_lit show ?thesis by (metis append_Nil list.inject unesc.unesc_nil)
  next
    case (Cons d' a')
    with unesc_lit have a: "a = d # a'" "t = a' @ c # b" by auto
    from unesc_lit(5) [OF a(2) unesc_lit(7)] obtain x y where "h = x @ c # y" "unesc m a' x" "unesc m b y" by auto
    with unesc.unesc_lit [OF unesc_lit(1-3)] a(1) show ?thesis by (metis append_Cons)
  qed
qed

lemma unesc_byte_plain:
  assumes "is_hex a" "is_hex b" "8 \<le> unhex a \<or> a = CHR ''2'' \<and> b = CHR ''5''"
  shows "\<not> plain (char_of (unhex a * 16 + unhex b))" "\<not> is_digit (char_of (unhex a * 16 + unhex b))"
proof -
  have "unhex a < 16" "unhex b < 16" using assms(1,2) by (auto simp: is_hex_def unhex_def)
  then have v: "byte (char_of (unhex a * 16 + unhex b)) = unhex a * 16 + unhex b" by simp
  have w: "0x80 \<le> unhex a * 16 + unhex b \<or> unhex a * 16 + unhex b = 0x25"
    using assms(3) by (auto simp: unhex_def)
  then show "\<not> plain (char_of (unhex a * 16 + unhex b))" unfolding plain_def v by (auto simp: char_of_eqI)
  show "\<not> is_digit (char_of (unhex a * 16 + unhex b))"
    using w unfolding is_digit_def less_eq_char_def v by auto
qed

lemma unesc_host_mem: "unesc m r h \<Longrightarrow> m = EncodeHost \<Longrightarrow> plain c \<Longrightarrow> c \<in> set h \<longleftrightarrow> c \<in> set r"
proof (induction rule: unesc.induct)
  case (unesc_hex a b m t h)
  with unesc_byte_plain(1) [of a b] show ?case by (auto simp: plain_def)
qed auto

lemma unesc_host_digits: "unesc m r h \<Longrightarrow> m = EncodeHost \<Longrightarrow> list_all is_digit h \<longleftrightarrow> list_all is_digit r"
proof (induction rule: unesc.induct)
  case (unesc_hex a b m t h)
  with unesc_byte_plain(2) [of a b] show ?case by (auto simp: is_digit_def less_eq_char_def)
qed (auto simp: is_digit_def less_eq_char_def)

lemma unesc_host_starts: "unesc EncodeHost r h \<Longrightarrow> plain c \<Longrightarrow> starts c h \<longleftrightarrow> starts c r"
proof (induction EncodeHost r h rule: unesc.induct)
  case (unesc_hex a b t h)
  with unesc_byte_plain(1) [of a b] show ?case by (auto simp: starts_def plain_def)
qed (auto simp: starts_def)

lemma rpartition_cases:
  obtains (found) a b where "s = a @ c # b" "c \<notin> set b" "rpartition_at c s = (a, True, b)"
  | (none) "c \<notin> set s" "rpartition_at c s = ([], False, s)"
  by (cases "c \<in> set s") (auto dest: split_list_last)

lemma unesc_host_rpartition:
  assumes "unesc EncodeHost r h" "plain c"
  shows "\<exists>a b x y f. rpartition_at c r = (a, f, b) \<and> rpartition_at c h = (x, f, y) \<and> unesc EncodeHost b y"
proof (cases rule: rpartition_cases [of r c])
  case (found a b)
  from unesc_split [OF assms(1) found(1) assms(2)] obtain x y
    where h: "h = x @ c # y" "unesc EncodeHost b y" by auto
  then have "c \<notin> set y" using unesc_host_mem [of EncodeHost b y c] found(2) assms(2) by simp
  with h found(3) show ?thesis by auto
next
  case none
  with assms show ?thesis using unesc_host_mem [of EncodeHost r h c] by auto
qed

lemma unesc_host_port: "unesc EncodeHost b y \<Longrightarrow> valid_optional_port y \<longleftrightarrow> valid_optional_port b"
proof -
  assume u: "unesc EncodeHost b y"
  have s: "valid_optional_port p \<longleftrightarrow> p = [] \<or> starts (CHR '':'') p \<and> list_all is_digit (tl p)" for p
    by (cases p) (auto simp: valid_optional_port_def starts_def)
  show ?thesis
  proof (cases "starts (CHR '':'') b")
    case True
    then obtain b' where b: "b = [] @ CHR '':'' # b'" by (cases b) (auto simp: starts_def)
    from unesc_split [OF u this] obtain x y' where "unesc EncodeHost [] x" "y = x @ CHR '':'' # y'" "unesc EncodeHost b' y'"
      by auto
    then have "y = CHR '':'' # y'" "list_all is_digit y' = list_all is_digit b'"
      using unesc_host_digits by (auto elim: unesc_NilE)
    with b show ?thesis by (simp add: valid_optional_port_def)
  next
    case False
    moreover have "y = [] \<longleftrightarrow> b = []" using u by (auto elim: unesc.cases)
    ultimately show ?thesis using unesc_host_starts [OF u, of "CHR '':''"] by (simp add: s)
  qed
qed

lemma unesc_host_port_ok:
  assumes "unesc EncodeHost r h"
  shows "host_port_ok h \<longleftrightarrow> host_port_ok r"
  using unesc_host_rpartition [OF assms, of "CHR '':''"] unesc_host_rpartition [OF assms, of "CHR '']''"]
    unesc_host_starts [OF assms, of "CHR ''[''"] unesc_host_port unesc_host_digits
  by (auto simp: host_port_ok_def)

lemma parse_host_escape: "host_ok h \<Longrightarrow> parse_host (escape h EncodeHost) = Inr h"
  using unesc_host_port_ok [OF unesc_escape, of h]
  by (simp add: host_ok_def parse_host_iff unescape_escape)

lemma parse_host_ok: "parse_host r = Inr h \<Longrightarrow> host_ok h"
  by (auto simp: host_ok_def parse_host_iff unescape_iff unesc_host unesc_host_port_ok)

section \<open>Authorities\<close>

definition userinfo_ok :: "userinfo \<Rightarrow> bool" where
  "userinfo_ok i \<longleftrightarrow> utf8_ok (ui_username i) \<and> utf8_ok (ui_password i) \<and> (\<not> ui_password_set i \<longrightarrow> ui_password i = [])"

definition authority_ok :: "userinfo option \<Rightarrow> string \<Rightarrow> bool" where
  "authority_ok user h \<longleftrightarrow> (case user of None \<Rightarrow> True | Some i \<Rightarrow> userinfo_ok i) \<and> host_ok h"

definition authority_text :: "userinfo option \<Rightarrow> string \<Rightarrow> string" where
  "authority_text user h = (case user of None \<Rightarrow> [] | Some i \<Rightarrow> userinfo_str i @ ''@'') @ escape h EncodeHost"

lemma unesc_empty_iff: "unesc m r h \<Longrightarrow> h = [] \<longleftrightarrow> r = []"
  by (auto elim: unesc.cases)

lemma userinfo_str_partition:
  "partition_at (CHR '':'') (userinfo_str i) =
     (if ui_password_set i
      then (escape (ui_username i) EncodeUserPassword, True, escape (ui_password i) EncodeUserPassword)
      else (userinfo_str i, False, []))"
  by (simp add: userinfo_str_def notin_escape)

lemma userinfo_eqI:
  "ui_username i = n \<Longrightarrow> ui_password i = p \<Longrightarrow> ui_password_set i = b
    \<Longrightarrow> \<lparr>ui_username = n, ui_password = p, ui_password_set = b\<rparr> = i"
  by (cases i) simp

lemma parse_authority_text:
  assumes "authority_ok user h"
  shows "parse_authority (authority_text user h) = Inr (user, h)"
proof -
  have h: "parse_host (escape h EncodeHost) = Inr h" "CHR ''@'' \<notin> set (escape h EncodeHost)"
    using assms by (simp_all add: authority_ok_def parse_host_escape notin_escape)
  show ?thesis
  proof (cases user)
    case None
    with h show ?thesis by (simp add: parse_authority_def authority_text_def)
  next
    case (Some i)
    then have "userinfo_ok i" using assms by (simp add: authority_ok_def)
    moreover have "rpartition_at (CHR ''@'') (userinfo_str i @ CHR ''@'' # escape h EncodeHost)
        = (userinfo_str i, True, escape h EncodeHost)" using h(2) by simp
    moreover have "escape (ui_username i) EncodeUserPassword = userinfo_str i" if "\<not> ui_password_set i"
      using that by (simp add: userinfo_str_def)
    moreover have "unescape (escape x EncodeUserPassword) EncodeUserPassword = Inr x" if "utf8_ok x" for x
      using that by (simp add: unescape_escape)
    ultimately show ?thesis
      using Some h(1) userinfo_str_partition [of i]
      by (cases "ui_password_set i")
         (force simp: parse_authority_def authority_text_def userinfo_ok_def intro!: userinfo_eqI)+
  qed
qed

lemma authority_text_delims:
  "c \<in> {CHR ''/'', CHR ''?'', CHR ''#''} \<Longrightarrow> c \<notin> set (authority_text user h)"
  "list_ex is_ctl (authority_text user h) = False"
proof -
  have "list_ex is_ctl ''@'' = False" "list_ex is_ctl '':'' = False" by (simp_all add: is_ctl_def)
  then show "list_ex is_ctl (authority_text user h) = False"
    by (simp add: authority_text_def userinfo_str_def escape_no_ctl split: option.split)
  show "c \<notin> set (authority_text user h)" if "c \<in> {CHR ''/'', CHR ''?'', CHR ''#''}"
    using that by (auto simp: authority_text_def userinfo_str_def notin_escape split: option.split)
qed

lemma parse_authority_ok:
  assumes "parse_authority a = Inr (user, h)"
  shows "authority_ok user h" "a \<noteq> [] \<Longrightarrow> user \<noteq> None \<or> h \<noteq> []"
proof -
  have u: "utf8_ok y" if "unescape x m = Inr y" for x y m using that by (simp add: unescape_iff)
  obtain ui f r where r: "rpartition_at (CHR ''@'') a = (ui, f, r)" by (metis prod_cases3)
  obtain n g w where p: "partition_at (CHR '':'') ui = (n, g, w)" by (metis prod_cases3)
  show "authority_ok user h"
    using assms r p
    by (auto simp: parse_authority_def authority_ok_def userinfo_ok_def andthen_Inr_conv
             dest: u parse_host_ok split: if_splits)
  have "h \<noteq> []" if "parse_host a = Inr h" "a \<noteq> []"
    using that by (auto simp: parse_host_iff unescape_iff dest: unesc_empty_iff)
  then show "user \<noteq> None \<or> h \<noteq> []" if "a \<noteq> []"
    using assms that r p by (auto simp: parse_authority_def andthen_Inr_conv split: if_splits)
qed

section \<open>Paths and fragments with their raw forms\<close>

text \<open>
  The raw form is kept exactly if it is not the default encoding; \<open>part_text\<close> is what is printed.
\<close>

definition part_ok :: "string \<Rightarrow> string \<Rightarrow> mode \<Rightarrow> bool" where
  "part_ok raw p m \<longleftrightarrow> utf8_ok p \<and> (raw = [] \<or> raw \<noteq> escape p m \<and> unescape raw m = Inr p)"

definition part_text :: "string \<Rightarrow> string \<Rightarrow> mode \<Rightarrow> string" where
  "part_text raw p m = (if raw = [] then escape p m else raw)"

lemma part_text_ok:
  assumes "part_ok raw p m" "m \<noteq> EncodeHost"
  shows "escaped_part raw p m = Inr (part_text raw p m)"
    "unescape (part_text raw p m) m = Inr p"
    "(if escape p m \<noteq> part_text raw p m then part_text raw p m else []) = raw"
    "part_text raw p m = [] \<longleftrightarrow> p = []"
proof -
  show "escaped_part raw p m = Inr (part_text raw p m)"
    "(if escape p m \<noteq> part_text raw p m then part_text raw p m else []) = raw"
    using assms by (auto simp: escaped_part_def part_text_def part_ok_def)
  show u: "unescape (part_text raw p m) m = Inr p"
    using assms by (auto simp: part_text_def part_ok_def unescape_escape)
  then show "part_text raw p m = [] \<longleftrightarrow> p = []"
    by (auto simp: unescape_iff dest: unesc_empty_iff)
qed

lemma part_raw_nil: "part_ok raw [] m \<Longrightarrow> raw = []"
  by (auto simp: part_ok_def unescape_iff dest: unesc_empty_iff)

lemma part_okI:
  assumes "unescape r m = Inr p"
  shows "part_ok (if escape p m \<noteq> r then r else []) p m" "part_text (if escape p m \<noteq> r then r else []) p m = r"
  using assms unesc_empty_iff by (auto simp: part_ok_def part_text_def unescape_iff)

lemma part_text_delims:
  "c \<notin> set raw \<Longrightarrow> should_escape c m \<Longrightarrow> c \<noteq> CHR ''%'' \<Longrightarrow> c \<noteq> CHR ''+'' \<Longrightarrow> c \<notin> set (part_text raw p m)"
  "list_ex is_ctl raw = False \<Longrightarrow> list_ex is_ctl (part_text raw p m) = False"
  by (auto simp: part_text_def notin_escape escape_no_ctl)

section \<open>Schemes and queries\<close>

definition scheme_char :: "char \<Rightarrow> bool" where
  "scheme_char c \<longleftrightarrow> is_lower c \<or> is_digit c \<or> c \<in> set ''+-.''"

definition scheme_ok :: "string \<Rightarrow> bool" where
  "scheme_ok s \<longleftrightarrow> s = [] \<or> is_lower (hd s) \<and> list_all scheme_char s"

lemma get_scheme_from_run:
  assumes "list_all scheme_char t" "0 < i"
  shows "get_scheme_from raw i (t @ r) = get_scheme_from raw (i + length t) r"
  using assms by (induction t arbitrary: i) (auto simp: scheme_char_def)

lemma lower_scheme: "list_all scheme_char s \<Longrightarrow> lower s = s"
  by (induction s) (auto simp: lower_def lower_char_def scheme_char_def char_class_defs)

lemma get_scheme_text:
  assumes "scheme_ok s" "s \<noteq> []"
  shows "get_scheme (s @ CHR '':'' # r) = Inr (s, r)"
proof -
  obtain c t where s: "s = c # t" "is_lower c" "list_all scheme_char t"
    using assms by (cases s) (auto simp: scheme_ok_def)
  have "lower s = s" using assms by (simp add: scheme_ok_def lower_scheme)
  then show ?thesis
    using s get_scheme_from_run [of t 1]
    by (simp add: get_scheme_def is_lower_def is_upper_def is_digit_def less_eq_char_def)
qed

lemma get_scheme_none:
  "CHR '':'' \<notin> set a \<Longrightarrow> r = [] \<or> hd r \<in> {CHR ''/'', CHR ''?''} \<Longrightarrow> get_scheme_from raw i (a @ r) = Inr ([], raw)"
proof (induction a arbitrary: i)
  case Nil
  then show ?case by (cases r) (auto simp: char_class_defs)
qed auto

lemma lower_is_lower: "is_upper c \<or> is_lower c \<Longrightarrow> is_lower (lower_char c)"
  by (auto simp: lower_char_def char_class_defs)

lemma lower_scheme_char: "is_upper c \<or> scheme_char c \<Longrightarrow> scheme_char (lower_char c)"
  by (auto simp: lower_char_def scheme_char_def char_class_defs)

lemma get_scheme_from_ok:
  "get_scheme_from raw i t = Inr (s, rest) \<Longrightarrow> t = drop i raw \<Longrightarrow> i \<le> length raw
    \<Longrightarrow> list_all (\<lambda>c. is_upper c \<or> scheme_char c) (take i raw) \<Longrightarrow> (0 < i \<Longrightarrow> is_upper (hd raw) \<or> is_lower (hd raw))
    \<Longrightarrow> scheme_ok s \<and> set rest \<subseteq> set raw \<and> (s = [] \<longrightarrow> rest = raw)"
proof (induction raw i t rule: get_scheme_from.induct)
  case (2 raw i ch t)
  have i: "i < length raw" using 2(4) by (metis drop_all linorder_not_le list.discI)
  then have ch: "ch = raw ! i" "t = drop (Suc i) raw" using 2(4) by (simp_all add: Cons_nth_drop_Suc [symmetric])
  have tk: "take (Suc i) raw = take i raw @ [ch]" using i ch by (simp add: take_Suc_conv_app_nth)
  have hd0: "hd raw = ch" if "i = 0" using ch that i by (simp add: hd_conv_nth)
  consider (alpha) "is_lower ch \<or> is_upper ch"
    | (dig) "\<not> (is_lower ch \<or> is_upper ch)" "is_digit ch \<or> ch \<in> set ''+-.''"
    | (oth) "\<not> (is_lower ch \<or> is_upper ch)" "\<not> (is_digit ch \<or> ch \<in> set ''+-.'')" by blast
  then show ?case
  proof cases
    case alpha
    have "get_scheme_from raw (i + 1) t = Inr (s, rest)" using 2(3) alpha by simp
    moreover have "is_upper (hd raw) \<or> is_lower (hd raw)"
      using 2(7) alpha hd0 by (cases "i = 0") auto
    moreover have "is_upper ch \<or> scheme_char ch" using alpha by (auto simp: scheme_char_def)
    ultimately show ?thesis
      using 2(1) [OF alpha] 2(6) i ch(2) tk by simp
  next
    case dig
    show ?thesis
    proof (cases "i = 0")
      case True
      with 2(3) dig show ?thesis by (simp add: scheme_ok_def)
    next
      case False
      then have "get_scheme_from raw (i + 1) t = Inr (s, rest)" using 2(3) dig by simp
      moreover have "scheme_char ch" using dig(2) by (auto simp: scheme_char_def)
      ultimately show ?thesis
        using 2(2) [OF dig False] 2(6,7) i ch(2) tk False by simp
    qed
  next
    case oth
    show ?thesis
    proof (cases "ch = CHR '':''")
      case True
      with 2(3) oth have r: "0 < i" "s = lower (take i raw)" "rest = drop (Suc i) raw" by (auto split: if_splits)
      then have "s \<noteq> []" "hd s = lower_char (hd raw)" using i by (cases raw; cases i; auto simp: lower_def)+
      moreover have "list_all scheme_char s"
        using 2(6) r(2) by (auto simp: lower_def list_all_iff intro!: lower_scheme_char)
      ultimately show ?thesis
        using lower_is_lower 2(7) r by (auto simp: scheme_ok_def dest: in_set_dropD)
    next
      case False
      with 2(3) oth show ?thesis by (simp add: scheme_ok_def)
    qed
  qed
qed (simp add: scheme_ok_def)

lemma get_scheme_ok:
  "get_scheme raw = Inr (s, rest) \<Longrightarrow> scheme_ok s \<and> set rest \<subseteq> set raw \<and> (s = [] \<longrightarrow> rest = raw)"
  unfolding get_scheme_def by (drule get_scheme_from_ok) auto

definition query_text :: "bool \<Rightarrow> string \<Rightarrow> string" where
  "query_text force q = (if force \<or> q \<noteq> [] then CHR ''?'' # q else [])"

lemma split_query_text:
  assumes "CHR ''?'' \<notin> set h" "force \<longrightarrow> q = []"
  shows "split_query (h @ query_text force q) = (h, force, q)"
proof (cases "q = []")
  case True
  have "count_list h (CHR ''?'') = 0" using assms(1) by (simp add: count_list_0_iff)
  moreover have "\<not> starts (CHR ''?'') (rev h)" using assms(1) by (auto simp: starts_def split: list.splits dest: arg_cong [where f = set])
  ultimately show ?thesis using True assms(1) by (auto simp: split_query_def query_text_def starts_def)
next
  case False
  have "\<not> (starts (CHR ''?'') (rev q) \<and> count_list q (CHR ''?'') = 0)"
    by (auto simp: starts_def count_list_0_iff split: list.splits dest: arg_cong [where f = set])
  then show ?thesis
    using False assms by (auto simp: split_query_def query_text_def starts_def split: list.splits)
qed

lemma split_query_ok:
  assumes "split_query r = (h, force, q)"
  shows "CHR ''?'' \<notin> set h" "force \<longrightarrow> q = []" "set h \<subseteq> set r" "set q \<subseteq> set r"
proof -
  have "CHR ''?'' \<notin> set (butlast r)" if "starts (CHR ''?'') (rev r)" "count_list r (CHR ''?'') = 1"
  proof -
    from that(1) obtain a where "r = a @ ''?''" by (auto simp: starts_def split: list.splits)
    with that(2) show ?thesis by (simp add: count_list_0_iff)
  qed
  with assms show "CHR ''?'' \<notin> set h" "force \<longrightarrow> q = []" "set h \<subseteq> set r" "set q \<subseteq> set r"
    by (auto simp: split_query_def dest: in_set_butlastD partition_at_concat split: if_splits prod.splits)
qed

section \<open>Whole URLs\<close>

definition clean :: "string \<Rightarrow> bool" where
  "clean s \<longleftrightarrow> \<not> list_ex is_ctl s \<and> CHR ''#'' \<notin> set s"

definition path_text :: "gourl \<Rightarrow> string" where
  "path_text u = part_text (u_raw_path u) (u_path u) EncodePath"

definition has_authority :: "gourl \<Rightarrow> bool" where
  "has_authority u \<longleftrightarrow> u_user u \<noteq> None \<or> u_host u \<noteq> []"

text \<open>
  Which paths can follow: after a scheme or an authority an empty or absolute one; otherwise no
  colon in the first segment of a relative path, and not exactly two leading slashes.
\<close>

definition path_shape_ok :: "gourl \<Rightarrow> bool" where
  "path_shape_ok u =
     (let p = path_text u in
      if u_scheme u \<noteq> [] \<or> has_authority u then p = [] \<or> starts (CHR ''/'') p
      else (\<not> starts (CHR ''/'') p \<longrightarrow> CHR '':'' \<notin> set (fst (partition_at (CHR ''/'') p)))
           \<and> (prefix ''//'' p \<longrightarrow> prefix ''///'' p))"

definition opaque_ok :: "gourl \<Rightarrow> bool" where
  "opaque_ok u \<longleftrightarrow> u_scheme u \<noteq> [] \<and> \<not> has_authority u \<and> u_path u = []
      \<and> \<not> starts (CHR ''/'') (u_opaque u) \<and> clean (u_opaque u) \<and> CHR ''?'' \<notin> set (u_opaque u)"

definition hier_ok :: "gourl \<Rightarrow> bool" where
  "hier_ok u \<longleftrightarrow> scheme_ok (u_scheme u) \<and> authority_ok (u_user u) (u_host u)
      \<and> part_ok (u_raw_path u) (u_path u) EncodePath \<and> clean (u_raw_path u) \<and> CHR ''?'' \<notin> set (u_raw_path u)
      \<and> (if u_opaque u \<noteq> [] then opaque_ok u else path_shape_ok u)"

definition url_ok :: "gourl \<Rightarrow> bool" where
  "url_ok u \<longleftrightarrow> hier_ok u \<and> clean (u_raw_query u) \<and> (u_force_query u \<longrightarrow> u_raw_query u = [])
      \<and> part_ok (u_raw_fragment u) (u_fragment u) EncodeFragment \<and> \<not> list_ex is_ctl (u_raw_fragment u)"

lemma starts_conv: "starts c s \<longleftrightarrow> (\<exists>t. s = c # t)"
  by (cases s) (auto simp: starts_def)

lemma clean_simps [simp]:
  "clean []" "clean (a @ b) \<longleftrightarrow> clean a \<and> clean b" "clean (c # s) \<longleftrightarrow> \<not> is_ctl c \<and> c \<noteq> CHR ''#'' \<and> clean s"
  by (auto simp: clean_def)

lemma clean_subset: "set a \<subseteq> set b \<Longrightarrow> clean b \<Longrightarrow> clean a"
  by (auto simp: clean_def list_ex_iff)

subsection \<open>What follows the scheme\<close>

definition hier_text :: "gourl \<Rightarrow> string" where
  "hier_text u =
     (if u_opaque u \<noteq> [] then u_opaque u
      else if has_authority u \<or> u_scheme u \<noteq> [] \<and> u_path u \<noteq> []
      then ''//'' @ authority_text (u_user u) (u_host u) @ path_text u
      else path_text u)"

lemma path_text_facts:
  assumes "hier_ok u"
  shows "escaped_path u = Inr (path_text u)" "unescape (path_text u) EncodePath = Inr (u_path u)"
    "(if escape (u_path u) EncodePath \<noteq> path_text u then path_text u else []) = u_raw_path u"
    "path_text u = [] \<longleftrightarrow> u_path u = []" "clean (path_text u)" "CHR ''?'' \<notin> set (path_text u)"
  using assms part_text_ok [of "u_raw_path u" "u_path u" EncodePath]
  by (auto simp: hier_ok_def path_text_def escaped_path_def clean_def part_text_delims)

lemma hier_str_text:
  assumes "hier_ok u"
  shows "hier_str u = Inr (hier_text u)"
proof (cases "u_opaque u = []")
  case True
  note f = path_text_facts(1,4) [OF assms]
  have p: "path_text u = [] \<or> starts (CHR ''/'') (path_text u)" if "u_scheme u \<noteq> [] \<or> has_authority u"
    using assms True that by (simp add: hier_ok_def path_shape_ok_def Let_def)
  have e: "authority_text None [] = []" by (simp add: authority_text_def)
  show ?thesis
    using True f p e
    by (auto simp: hier_str_def hier_text_def authority_str_def authority_text_def has_authority_def split: option.splits)
qed (simp add: hier_str_def hier_text_def)

lemma hier_text_clean:
  assumes "hier_ok u"
  shows "clean (hier_text u)" "CHR ''?'' \<notin> set (hier_text u)"
proof -
  have "clean (authority_text (u_user u) (u_host u))" "clean ''//''"
    by (simp_all add: clean_def authority_text_delims is_ctl_def)
  then show "clean (hier_text u)" "CHR ''?'' \<notin> set (hier_text u)"
    using path_text_facts [OF assms] assms authority_text_delims(1) [of "CHR ''?''"]
    by (auto simp: hier_text_def hier_ok_def opaque_ok_def)
qed

lemma parse_path_text:
  "hier_ok u \<Longrightarrow> parse_path v (path_text u) = Inr (v\<lparr>u_path := u_path u, u_raw_path := u_raw_path u\<rparr>)"
  using path_text_facts [of u] by (auto simp: parse_path_def)

definition front :: "gourl \<Rightarrow> gourl" where
  "front u = empty_url\<lparr>u_scheme := u_scheme u, u_force_query := u_force_query u, u_raw_query := u_raw_query u\<rparr>"

lemma front_scheme [simp]: "u_scheme (front u) = u_scheme u"
  by (simp add: front_def)

lemma front_back:
  "(front u)\<lparr>u_opaque := u_opaque u, u_user := u_user u, u_host := u_host u, u_path := u_path u,
      u_raw_path := u_raw_path u, u_fragment := u_fragment u, u_raw_fragment := u_raw_fragment u\<rparr> = u"
  by (cases u) (simp add: front_def empty_url_def)

definition no_fragment :: "gourl \<Rightarrow> gourl" where
  "no_fragment u = u\<lparr>u_fragment := [], u_raw_fragment := []\<rparr>"

lemma parse_hier_authority:
  assumes "authority_ok user h" "p = [] \<or> starts (CHR ''/'') p" "u_scheme v \<noteq> [] \<or> user \<noteq> None \<or> h \<noteq> []"
  shows "parse_hier v (''//'' @ authority_text user h @ p) = parse_path (v\<lparr>u_user := user, u_host := h\<rparr>) p"
proof -
  let ?a = "authority_text user h"
  have sl: "CHR ''/'' \<notin> set ?a" by (simp add: authority_text_delims)
  have "\<not> prefix ''///'' (''//'' @ ?a @ p)" if "u_scheme v = []"
  proof -
    have "?a \<noteq> []" using assms(3) that by (auto simp: authority_text_def split: option.split)
    then obtain c t where "?a = c # t" by (cases ?a) auto
    with sl show ?thesis by auto
  qed
  moreover have "partition_at (CHR ''/'') (?a @ p) = (?a, p \<noteq> [], tl p)"
    using assms(2) sl by (auto simp: starts_conv)
  moreover have "(if p \<noteq> [] then CHR ''/'' # tl p else []) = p" using assms(2) by (auto simp: starts_conv)
  ultimately show ?thesis
    using parse_authority_text [OF assms(1)] by (simp add: parse_hier_def starts_def)
qed

lemma parse_hier_text:
  assumes "hier_ok u"
  shows "parse_hier (front u) (hier_text u) = Inr (no_fragment u)"
proof -
  have shape: "u_opaque u = [] \<Longrightarrow> path_shape_ok u" and op: "u_opaque u \<noteq> [] \<Longrightarrow> opaque_ok u"
    and auth: "authority_ok (u_user u) (u_host u)"
    using assms by (simp_all add: hier_ok_def)
  have raw: "u_path u = [] \<Longrightarrow> u_raw_path u = []" using assms part_raw_nil by (auto simp: hier_ok_def)
  have u: "u = (front u)\<lparr>u_opaque := u_opaque u, u_user := u_user u, u_host := u_host u, u_path := u_path u,
      u_raw_path := u_raw_path u, u_fragment := u_fragment u, u_raw_fragment := u_raw_fragment u\<rparr>"
    by (rule front_back [symmetric])
  consider (opaque) "u_opaque u \<noteq> []"
    | (auth) "u_opaque u = []" "has_authority u \<or> u_scheme u \<noteq> [] \<and> u_path u \<noteq> []"
    | (scheme) "u_opaque u = []" "\<not> has_authority u" "u_scheme u \<noteq> []" "u_path u = []"
    | (rel) "u_opaque u = []" "\<not> has_authority u" "u_scheme u = []" by blast
  then show ?thesis
  proof cases
    case opaque
    with op [OF opaque] raw show ?thesis
      by (cases u) (simp add: parse_hier_def hier_text_def opaque_ok_def no_fragment_def has_authority_def front_def empty_url_def)
  next
    case auth
    have "path_text u = [] \<or> starts (CHR ''/'') (path_text u)"
      using shape auth by (auto simp: path_shape_ok_def Let_def)
    moreover have "u_scheme (front u) \<noteq> [] \<or> u_user u \<noteq> None \<or> u_host u \<noteq> []"
      using auth by (auto simp: has_authority_def)
    ultimately have "parse_hier (front u) (hier_text u) = Inr ((front u)\<lparr>u_user := u_user u, u_host := u_host u,
        u_path := u_path u, u_raw_path := u_raw_path u\<rparr>)"
      using parse_hier_authority [OF \<open>authority_ok (u_user u) (u_host u)\<close>] parse_path_text [OF assms] auth
      by (auto simp: hier_text_def)
    with auth(1) show ?thesis
      by (cases u) (simp add: no_fragment_def front_def empty_url_def)
  next
    case scheme
    with path_text_facts(4) [OF assms] raw show ?thesis
      by (cases u) (simp add: parse_hier_def hier_text_def no_fragment_def has_authority_def front_def empty_url_def starts_def)
  next
    case rel
    have "parse_hier (front u) (hier_text u) = parse_path (front u) (path_text u)"
      using shape [OF rel(1)] rel by (auto simp: parse_hier_def hier_text_def path_shape_ok_def Let_def)
    with parse_path_text [OF assms] rel show ?thesis
      by (cases u) (simp add: no_fragment_def has_authority_def front_def empty_url_def)
  qed
qed

subsection \<open>The printed text parses to the URL\<close>

definition rest_text :: "gourl \<Rightarrow> string" where
  "rest_text u = hier_text u @ query_text (u_force_query u) (u_raw_query u)"

definition front_text :: "gourl \<Rightarrow> string" where
  "front_text u = (if u_scheme u \<noteq> [] then u_scheme u @ '':'' else []) @ rest_text u"

definition fragment_text :: "gourl \<Rightarrow> string" where
  "fragment_text u = (if u_fragment u \<noteq> []
     then CHR ''#'' # part_text (u_raw_fragment u) (u_fragment u) EncodeFragment else [])"

lemma url_str_text: "url_ok u \<Longrightarrow> url_str u = Inr (front_text u @ fragment_text u)"
  using part_text_ok(1) [of "u_raw_fragment u" "u_fragment u" EncodeFragment]
  by (simp add: url_ok_def url_str_def hier_str_text escaped_fragment_def front_text_def rest_text_def
      query_text_def fragment_text_def)

lemma get_scheme_front:
  assumes "hier_ok u"
  shows "get_scheme (front_text u) = Inr (u_scheme u, rest_text u)"
proof (cases "u_scheme u = []")
  case True
  obtain a f t where pt: "partition_at (CHR ''/'') (hier_text u) = (a, f, t)" by (metis prod_cases3)
  then obtain r where r: "hier_text u = a @ r" "r = [] \<or> hd r = CHR ''/''"
    by (auto dest: partition_at_concat)
  have "CHR '':'' \<notin> set (fst (partition_at (CHR ''/'') (hier_text u)))"
    using assms True
    by (auto simp: hier_text_def hier_ok_def opaque_ok_def path_shape_ok_def Let_def starts_conv split: if_splits)
  then have "CHR '':'' \<notin> set a" by (simp add: pt)
  moreover have "r @ q = [] \<or> hd (r @ q) \<in> {CHR ''/'', CHR ''?''}" if "q = query_text g w" for q g w
    using r(2) that by (cases r) (auto simp: query_text_def)
  ultimately have "get_scheme (a @ r @ query_text g w) = Inr ([], a @ r @ query_text g w)" for g w
    unfolding get_scheme_def by (rule get_scheme_none) simp
  with r(1) True show ?thesis by (simp add: front_text_def rest_text_def)
next
  case False
  with assms show ?thesis by (simp add: front_text_def get_scheme_text hier_ok_def)
qed

lemma parse_rest_text:
  assumes "hier_ok u" "u_force_query u \<longrightarrow> u_raw_query u = []"
  shows "parse_rest (front_text u) = Inr (no_fragment u)"
proof -
  have "split_query (rest_text u) = (hier_text u, u_force_query u, u_raw_query u)"
    unfolding rest_text_def using split_query_text hier_text_clean(2) [OF assms(1)] assms(2) by blast
  with parse_hier_text [OF assms(1)] show ?thesis
    by (simp add: parse_rest_def get_scheme_front [OF assms(1)] front_def)
qed

lemma scheme_clean: "scheme_ok s \<Longrightarrow> clean s"
proof -
  have "\<not> is_ctl c \<and> c \<noteq> CHR ''#''" if "scheme_char c" for c
    using that by (auto simp: scheme_char_def is_ctl_def char_class_defs)
  then show "scheme_ok s \<Longrightarrow> clean s" by (auto simp: scheme_ok_def clean_def list_all_iff list_ex_iff)
qed

lemma front_text_clean: "url_ok u \<Longrightarrow> clean (front_text u)"
  using hier_text_clean(1) [of u] scheme_clean [of "u_scheme u"]
  by (simp add: url_ok_def front_text_def rest_text_def query_text_def hier_ok_def is_ctl_def)

lemma url_str_parse:
  assumes "url_ok u"
  shows "\<exists>s. url_str u = Inr s \<and> url_parse s = Inr u"
proof -
  let ?f = "part_text (u_raw_fragment u) (u_fragment u) EncodeFragment"
  have frag: "part_ok (u_raw_fragment u) (u_fragment u) EncodeFragment" using assms by (simp add: url_ok_def)
  have ctl: "\<not> list_ex is_ctl (front_text u @ fragment_text u)"
    using front_text_clean [OF assms] assms
    by (auto simp: clean_def fragment_text_def url_ok_def part_text_delims is_ctl_def)
  have rest: "parse_rest (front_text u) = Inr (no_fragment u)"
    using assms by (simp add: url_ok_def parse_rest_text)
  have hash: "CHR ''#'' \<notin> set (front_text u)" using front_text_clean [OF assms] by (simp add: clean_def)
  have "url_parse (front_text u @ fragment_text u) = Inr u"
  proof (cases "u_fragment u = []")
    case True
    then have "u_raw_fragment u = []" using frag part_raw_nil by auto
    with True ctl rest hash show ?thesis
      by (cases u) (simp add: url_parse_def fragment_text_def no_fragment_def)
  next
    case False
    have "partition_at (CHR ''#'') (front_text u @ fragment_text u) = (front_text u, True, ?f)"
      using hash False by (simp add: fragment_text_def)
    with False ctl rest part_text_ok(2,3) [OF frag] show ?thesis
      by (cases u) (auto simp: url_parse_def no_fragment_def)
  qed
  with url_str_text [OF assms] show ?thesis by blast
qed

subsection \<open>What the parser returns\<close>

lemma parse_path_ok:
  assumes "parse_path v r = Inr u"
  shows "part_ok (u_raw_path u) (u_path u) EncodePath" "path_text u = r" "u_raw_path u = [] \<or> u_raw_path u = r"
    "u_scheme u = u_scheme v" "u_opaque u = u_opaque v" "u_user u = u_user v" "u_host u = u_host v"
    "u_force_query u = u_force_query v" "u_raw_query u = u_raw_query v" "u_fragment u = u_fragment v"
    "u_raw_fragment u = u_raw_fragment v"
  using assms part_okI by (auto simp: parse_path_def andthen_Inr_conv path_text_def)

definition parsed_front :: "gourl \<Rightarrow> gourl \<Rightarrow> bool" where
  "parsed_front v u \<longleftrightarrow> u_force_query u = u_force_query v \<and> u_raw_query u = u_raw_query v
      \<and> u_fragment u = [] \<and> u_raw_fragment u = []"

lemma parse_hier_ok:
  assumes "parse_hier v r = Inr u" "scheme_ok (u_scheme v)" "clean r" "CHR ''?'' \<notin> set r" "v = front v"
  shows "hier_ok u \<and> parsed_front v u"
proof -
  have v: "u_opaque v = []" "u_user v = None" "u_host v = []" "u_path v = []" "u_raw_path v = []"
    "u_fragment v = []" "u_raw_fragment v = []"
    using assms(5) by (cases v; simp add: front_def empty_url_def)+
  have h0: "authority_ok None []" by (simp add: authority_ok_def host_ok_def host_port_ok_def starts_def)
  have p0: "part_ok [] [] EncodePath" by (simp add: part_ok_def)
  show ?thesis
  proof (cases "\<not> starts (CHR ''/'') r \<and> u_scheme v \<noteq> []")
    case True
    then have "u = v\<lparr>u_opaque := r\<rparr>" using assms(1) by (simp add: parse_hier_def)
    with True v h0 p0 assms(2-4) show ?thesis
      by (simp add: hier_ok_def opaque_ok_def path_shape_ok_def has_authority_def parsed_front_def
          path_text_def part_text_def)
  next
    case opq: False
    show ?thesis
    proof (cases "(u_scheme v \<noteq> [] \<or> \<not> prefix ''///'' r) \<and> prefix ''//'' r")
      case True
      obtain a sl t where pt: "partition_at (CHR ''/'') (drop 2 r) = (a, sl, t)" by (metis prod_cases3)
      define p where "p = (if sl then CHR ''/'' # t else [])"
      have st: "starts (CHR ''/'') r" using True by (auto simp: prefix_def starts_def)
      obtain user h where a: "parse_authority a = Inr (user, h)"
        and p: "parse_path (v\<lparr>u_user := user, u_host := h\<rparr>) p = Inr u"
        using assms(1) opq True pt st by (auto simp: parse_hier_def andthen_Inr_conv p_def)
      have dr: "drop 2 r = a @ p" using partition_at_concat [OF pt] by (auto simp: p_def split: if_splits)
      have "set p \<subseteq> set (drop 2 r)" unfolding dr by simp
      then have "set p \<subseteq> set r" using set_drop_subset [of 2 r] by blast
      then have cl: "clean p" "CHR ''?'' \<notin> set p" using assms(3,4) clean_subset by blast+
      have sp: "p = [] \<or> starts (CHR ''/'') p" by (simp add: p_def starts_def)
      have au: "u_scheme v \<noteq> [] \<or> user \<noteq> None \<or> h \<noteq> [] \<or> p = []"
      proof (cases "a = []")
        case True
        with dr have "prefix ''//'' r \<Longrightarrow> p \<noteq> [] \<Longrightarrow> prefix ''///'' r"
          by (auto simp: prefix_def p_def split: if_splits)
        with \<open>(u_scheme v \<noteq> [] \<or> \<not> prefix ''///'' r) \<and> prefix ''//'' r\<close> show ?thesis by blast
      qed (use parse_authority_ok(2) [OF a] in blast)
      note f = parse_path_ok [OF p]
      have "path_shape_ok u"
        using sp au by (auto simp: path_shape_ok_def Let_def has_authority_def f)
      moreover have "clean (u_raw_path u)" "CHR ''?'' \<notin> set (u_raw_path u)" using f(3) cl by auto
      ultimately show ?thesis
        using parse_authority_ok(1) [OF a] v assms(2) by (simp add: hier_ok_def parsed_front_def f)
    next
      case False
      then have p: "parse_path v r = Inr u"
        and c: "\<not> starts (CHR ''/'') r \<longrightarrow> CHR '':'' \<notin> set (fst (partition_at (CHR ''/'') r))"
        using assms(1) opq by (auto simp: parse_hier_def split: if_splits)
      have "u_raw_path u = [] \<or> u_raw_path u = r" by (rule parse_path_ok(3) [OF p])
      then have "clean (u_raw_path u)" "CHR ''?'' \<notin> set (u_raw_path u)" using assms(3,4) by auto
      moreover have "path_shape_ok u"
        using c False opq v by (auto simp: path_shape_ok_def Let_def has_authority_def parse_path_ok [OF p])
      ultimately show ?thesis
        using v h0 assms(2) by (simp add: hier_ok_def parsed_front_def parse_path_ok [OF p])
    qed
  qed
qed

lemma parse_rest_ok:
  assumes "parse_rest r = Inr u" "clean r"
  shows "hier_ok u \<and> clean (u_raw_query u) \<and> (u_force_query u \<longrightarrow> u_raw_query u = [])
    \<and> u_fragment u = [] \<and> u_raw_fragment u = []"
proof -
  obtain s t where s: "get_scheme r = Inr (s, t)"
    using assms(1) by (auto simp: parse_rest_def andthen_Inr_conv)
  obtain h f q where q: "split_query t = (h, f, q)" by (metis prod_cases3)
  let ?v = "empty_url\<lparr>u_scheme := s, u_force_query := f, u_raw_query := q\<rparr>"
  have "parse_hier ?v h = Inr u" using assms(1) s q by (simp add: parse_rest_def)
  moreover have "clean h" "clean q" "CHR ''?'' \<notin> set h" "f \<longrightarrow> q = []"
    using split_query_ok [OF q] get_scheme_ok [OF s] assms(2) clean_subset by blast+
  moreover have "?v = front ?v" by (simp add: front_def empty_url_def)
  ultimately show ?thesis
    using parse_hier_ok [of ?v h u] get_scheme_ok [OF s] by (simp add: parsed_front_def)
qed

lemma url_parse_ok:
  assumes "url_parse raw = Inr u"
  shows "url_ok u"
proof -
  obtain r sep f where p: "partition_at (CHR ''#'') raw = (r, sep, f)" by (metis prod_cases3)
  have ctl: "\<not> list_ex is_ctl raw" using assms by (auto simp: url_parse_def split: if_splits)
  have f: "\<not> list_ex is_ctl f" "clean r"
    using partition_at_concat [OF p] ctl by (auto simp: clean_def split: if_splits)
  obtain v where v: "parse_rest r = Inr v"
    and u: "(if sep then andthen (unescape f EncodeFragment) (\<lambda>g. Inr (v\<lparr>u_fragment := g,
        u_raw_fragment := (if escape g EncodeFragment \<noteq> f then f else [])\<rparr>)) else Inr v) = Inr u"
    using assms p ctl by (auto simp: url_parse_def andthen_Inr_conv)
  have hier: "hier_ok (w\<lparr>u_fragment := a, u_raw_fragment := b\<rparr>) = hier_ok w" for w a b
    by (simp add: hier_ok_def opaque_ok_def path_shape_ok_def has_authority_def path_text_def)
  note ok = parse_rest_ok [OF v f(2)]
  show ?thesis
  proof (cases sep)
    case True
    with u obtain g where "unescape f EncodeFragment = Inr g" "u = v\<lparr>u_fragment := g,
        u_raw_fragment := (if escape g EncodeFragment \<noteq> f then f else [])\<rparr>"
      by (auto simp: andthen_Inr_conv)
    with True ok f(1) part_okI(1) [of f EncodeFragment g] hier
    show ?thesis by (simp add: url_ok_def)
  next
    case False
    with u ok show ?thesis by (simp add: url_ok_def part_ok_def)
  qed
qed

section \<open>URLs built by hand\<close>

text \<open>What the drivers build: a scheme, an authority, a path that is empty or absolute, a query.\<close>

definition mk_url :: "string \<Rightarrow> userinfo option \<Rightarrow> string \<Rightarrow> string \<Rightarrow> string \<Rightarrow> string \<Rightarrow> gourl" where
  "mk_url s user h p r q = empty_url\<lparr>u_scheme := s, u_user := user, u_host := h, u_path := p,
     u_raw_path := (if escape p EncodePath \<noteq> r then r else []), u_raw_query := q\<rparr>"

lemma mk_url_text:
  assumes "scheme_ok s" "s \<noteq> []" "authority_ok user h" "user \<noteq> None \<or> h \<noteq> [] \<or> r \<noteq> []"
    "r = [] \<or> starts (CHR ''/'') r" "unescape r EncodePath = Inr p" "clean r" "CHR ''?'' \<notin> set r" "clean q"
  shows "url_ok (mk_url s user h p r q)"
    "url_str (mk_url s user h p r q) = Inr (s @ ''://'' @ authority_text user h @ r @ query_text False q)"
    "url_parse (s @ ''://'' @ authority_text user h @ r @ query_text False q) = Inr (mk_url s user h p r q)"
proof -
  let ?u = "mk_url s user h p r q"
  note part = part_okI [OF assms(6)]
  have pt: "path_text ?u = r" using part(2) by (simp add: path_text_def mk_url_def)
  have pe: "p = [] \<longleftrightarrow> r = []" using assms(6) unesc_empty_iff by (auto simp: unescape_iff)
  have ha: "has_authority ?u \<longleftrightarrow> user \<noteq> None \<or> h \<noteq> []" by (simp add: has_authority_def mk_url_def)
  show ok: "url_ok ?u"
    using assms part(1) pt by (auto simp: url_ok_def hier_ok_def path_shape_ok_def Let_def mk_url_def empty_url_def part_ok_def)
  have "hier_text ?u = ''//'' @ authority_text user h @ r"
    using assms(2,4) pt pe ha by (auto simp: hier_text_def mk_url_def empty_url_def)
  then show str: "url_str ?u = Inr (s @ ''://'' @ authority_text user h @ r @ query_text False q)"
    using assms(2) url_str_text [OF ok]
    by (simp add: front_text_def rest_text_def fragment_text_def mk_url_def empty_url_def)
  from url_str_parse [OF ok] str
  show "url_parse (s @ ''://'' @ authority_text user h @ r @ query_text False q) = Inr ?u" by simp
qed

definition kept :: "mode \<Rightarrow> string \<Rightarrow> bool" where
  "kept m s \<longleftrightarrow> list_all (\<lambda>c. \<not> should_escape c m) s"

lemma utf8_ascii_list: "list_all (\<lambda>c. byte c < 0x80) s \<Longrightarrow> utf8_ok s"
  by (induction s) auto

lemma utf8_append: "utf8_ok a \<Longrightarrow> utf8_ok b \<Longrightarrow> utf8_ok (a @ b)"
proof (induction a rule: utf8_ok.induct)
  case (2 a s)
  consider (one) "byte a < 0x80" | (two) "0xC2 \<le> byte a" "byte a < 0xE0" | (three) "0xE0 \<le> byte a" "byte a < 0xF0"
    | (four) "0xF0 \<le> byte a" "byte a < 0xF5"
    using 2(5) by (fastforce simp: not_less split: if_splits)
  then show ?case
  proof cases
    case one
    with 2(1,5,6) show ?thesis by simp
  next
    case two
    with 2(5) obtain x t where "s = x # t" by (cases s) auto
    with two 2(2,5,6) show ?thesis by simp
  next
    case three
    with 2(5) obtain x y t where "s = x # y # t" by (auto split: list.splits)
    with three 2(3,5,6) show ?thesis by simp
  next
    case four
    with 2(5) obtain x y z t where "s = x # y # z # t" by (auto split: list.splits)
    with four 2(4,5,6) show ?thesis by simp
  qed
qed simp

lemma kept_escape: "kept m s \<Longrightarrow> escape s m = s"
proof (induction s)
  case (Cons c s)
  then have "c \<noteq> SP" using should_escape_outside [of SP m] by (auto simp: kept_def)
  with Cons show ?case by (simp add: kept_def escape_kept)
qed simp

lemma kept_utf8: "kept m s \<Longrightarrow> utf8_ok s"
  using should_escape_outside by (intro utf8_ascii_list) (force simp: kept_def list_all_iff not_less)

lemma kept_host: "kept EncodeHost s \<Longrightarrow> list_all host_char s"
  by (auto simp: kept_def host_char_def list_all_iff)

lemma kept_clean: "kept m s \<Longrightarrow> clean s"
  using kept_escape [of m s] escape_no_ctl [of s m] notin_escape [of "CHR ''#''" m s] by (simp add: clean_def)

lemma kept_digits: "list_all is_digit s \<Longrightarrow> kept m s"
  by (auto simp: kept_def list_all_iff)

lemma kept_path:
  assumes "kept EncodePath p"
  shows "unescape p EncodePath = Inr p" "clean p" "CHR ''?'' \<notin> set p"
  using unescape_escape [of p EncodePath] kept_escape [OF assms] kept_utf8 [OF assms] kept_clean [OF assms]
    notin_escape [of "CHR ''?''" EncodePath p] by simp_all

lemma host_ok_plain:
  assumes "kept EncodeHost h" "CHR '':'' \<notin> set h" "\<not> starts (CHR ''['') h" "list_all is_digit ds"
  shows "host_ok h" "host_ok (h @ CHR '':'' # ds)"
    "split_host_port h = (h, [])" "split_host_port (h @ CHR '':'' # ds) = (h, ds)"
proof -
  have c: "CHR '':'' \<notin> set ds" using assms(4) by (auto simp: list_all_iff is_digit_def less_eq_char_def)
  have k: "kept EncodeHost (h @ CHR '':'' # ds)" using assms(1) kept_digits [OF assms(4), of EncodeHost] by (simp add: kept_def)
  have s: "\<not> starts (CHR ''['') (h @ CHR '':'' # ds)" using assms(3) by (cases h) (auto simp: starts_def)
  show "host_ok h" "host_ok (h @ CHR '':'' # ds)"
    using assms k s c kept_utf8 [OF k] kept_utf8 [OF assms(1)] kept_host [OF k] kept_host [OF assms(1)]
    by (simp_all add: host_ok_def host_port_ok_def)
  show "split_host_port h = (h, [])" "split_host_port (h @ CHR '':'' # ds) = (h, ds)"
    using assms c by (auto simp: split_host_port_def valid_optional_port_def)
qed

section \<open>The contract of the URL component\<close>

text \<open>C40: the type of parsed URLs: whatever text is parsed, the scheme is lower case, user, password,
  host, path and fragment are UTF-8, the host has a decimal port or none and no character that would
  have to be escaped, a raw form is kept exactly if it is not the default encoding, and no part has a
  delimiter of a later part.\<close>

theorem url_parsed_type: "url_parse raw = Inr u \<Longrightarrow> url_ok u"
  by (rule url_parse_ok)

definition sample_url :: gourl where
  "sample_url = \<lparr>u_scheme = ''s3'', u_opaque = [], u_user = None, u_host = ''[::1]:80'', u_path = ''/a/b'', u_raw_path = ''/a%2Fb'',
     u_force_query = True, u_raw_query = [], u_fragment = ''x'', u_raw_fragment = []\<rparr>"

theorem url_parsed_type_witness: "url_parse ''S3://[::1]:80/a%2Fb?#x'' = Inr sample_url \<and> url_ok sample_url"
proof -
  have "url_parse ''S3://[::1]:80/a%2Fb?#x'' = Inr sample_url" by code_simp
  with url_parsed_type show ?thesis by blast
qed

text \<open>C33: printing and parsing: a URL with the invariant of the parser is printed, and its text is parsed to
  that URL again, in every field, raw forms and flags included.\<close>

theorem url_round_trip:
  assumes "url_ok u"
  shows "\<exists>s. url_str u = Inr s \<and> url_parse s = Inr u"
  by (rule url_str_parse [OF assms])

theorem url_round_trip_witness: "\<exists>s. url_str sample_url = Inr s \<and> url_parse s = Inr sample_url"
proof -
  have "url_ok sample_url" by code_simp
  then show ?thesis by (rule url_round_trip)
qed

end
