(* ===== verification/DriverConf.thy ===== *)
theory DriverConf
  imports GoJson UrlRound
begin

text \<open>
  The driver framework of \<open>eds/driver.py\<close> and the registration of the built-in drivers in
  \<open>eds/drivers/__init__.py\<close>: the fields of a driver's configuration, the getters that read the
  configured values, the URL that is built from them, and the four registries through which a URL
  finds its driver or importer.

  A driver object is a record of its capabilities: a capability of a \<open>Protocol\<close> class that the object
  need not have is an option. The operations of the objects on the world \<open>'w\<close> are its fields.
\<close>

section \<open>Modes, fields and errors\<close>

datatype driver_type = TSTRING | TNUMBER | TBOOLEAN

fun driver_type_str :: "driver_type \<Rightarrow> string" where
  "driver_type_str TSTRING = ''string''"
| "driver_type_str TNUMBER = ''number''"
| "driver_type_str TBOOLEAN = ''boolean''"

datatype driver_format = PASSWORD

fun driver_format_str :: "driver_format \<Rightarrow> string" where
  "driver_format_str PASSWORD = ''password''"

datatype ingest_mode = UPSERT | APPEND

text \<open>The text of the error shows \<open>s\<close> by the language's \<open>repr\<close>, which is a parameter.\<close>

definition parse_ingest_mode :: "(string \<Rightarrow> string) \<Rightarrow> string \<Rightarrow> ingest_mode res" where
  "parse_ingest_mode repr s =
     (let v = lower s in
      if v = ''upsert'' then Inr UPSERT
      else if v = ''append'' then Inr APPEND
      else Inl (ValueError (''invalid ingest mode: '' @ repr s @ '' (expected '' @ [SQ] @ ''upsert'' @ [SQ] @ '' or ''
                  @ [SQ] @ ''append'' @ [SQ] @ '')'')))"

record driver_field =
  f_name :: string
  f_type :: driver_type
  f_format :: "driver_format option"
  f_default :: "string option"
  f_description :: string
  f_required :: bool

definition opt_str :: "string option \<Rightarrow> pyval" where
  "opt_str s = (case s of None \<Rightarrow> PNone | Some t \<Rightarrow> PStr t)"

definition driver_field_json :: "driver_field \<Rightarrow> string res" where
  "driver_field_json f = gojson_struct
     [(''name'', NEVER, PStr (f_name f)),
      (''type'', NEVER, PStr (driver_type_str (f_type f))),
      (''format'', IF_FALSY, opt_str (map_option driver_format_str (f_format f))),
      (''default'', IF_NONE, opt_str (f_default f)),
      (''description'', NEVER, PStr (f_description f)),
      (''required'', NEVER, PBool (f_required f))]"

record field_error =
  fe_field :: string
  fe_message :: string

definition field_error_json :: "field_error \<Rightarrow> string" where
  "field_error_json e =
     ''{'' @ [DQ] @ ''field'' @ [DQ] @ '':'' @ encode_string (fe_field e) @ '','' @ [DQ] @ ''error'' @ [DQ] @ '':''
     @ encode_string (fe_message e) @ ''}''"

definition new_field_error :: "string \<Rightarrow> string \<Rightarrow> field_error" where
  "new_field_error f m = \<lparr>fe_field = f, fe_message = m\<rparr>"

definition string_pointer :: "string \<Rightarrow> string option" where
  "string_pointer s = (if s = [] then None else Some s)"

definition required_string_field :: "string \<Rightarrow> string \<Rightarrow> string option \<Rightarrow> driver_field" where
  "required_string_field n d v = \<lparr>f_name = n, f_type = TSTRING, f_format = None, f_default = v, f_description = d, f_required = True\<rparr>"

definition optional_string_field :: "string \<Rightarrow> string \<Rightarrow> string option \<Rightarrow> driver_field" where
  "optional_string_field n d v = \<lparr>f_name = n, f_type = TSTRING, f_format = None, f_default = v, f_description = d, f_required = False\<rparr>"

definition optional_password_field :: "string \<Rightarrow> string \<Rightarrow> string option \<Rightarrow> driver_field" where
  "optional_password_field n d v =
     \<lparr>f_name = n, f_type = TSTRING, f_format = Some PASSWORD, f_default = v, f_description = d, f_required = False\<rparr>"

definition optional_number_field :: "string \<Rightarrow> string \<Rightarrow> int option \<Rightarrow> driver_field" where
  "optional_number_field n d v =
     \<lparr>f_name = n, f_type = TNUMBER, f_format = None, f_default = map_option str_int v, f_description = d, f_required = False\<rparr>"

section \<open>Reading configured values\<close>

definition value_of :: "string \<Rightarrow> pydict \<Rightarrow> pyval" where
  "value_of name values = (case dget values name of None \<Rightarrow> PNone | Some v \<Rightarrow> v)"

definition not_found :: "string \<Rightarrow> field_error" where
  "not_found name = new_field_error name (''required field '' @ name @ '' not found'')"

definition get_required_string_value :: "string \<Rightarrow> pydict \<Rightarrow> string \<times> field_error option" where
  "get_required_string_value name values =
     (case value_of name values of PStr v \<Rightarrow> (v, None) | _ \<Rightarrow> ([], Some (not_found name)))"

definition get_required_int_value :: "string \<Rightarrow> pydict \<Rightarrow> int \<times> field_error option" where
  "get_required_int_value name values =
     (case value_of name values of PInt v \<Rightarrow> (v, None) | _ \<Rightarrow> (0, Some (not_found name)))"

definition get_optional_string_value :: "string \<Rightarrow> string \<Rightarrow> pydict \<Rightarrow> string" where
  "get_optional_string_value name dflt values =
     (case value_of name values of PStr v \<Rightarrow> if v \<noteq> [] then v else dflt | _ \<Rightarrow> dflt)"

text \<open>\<open>int(s)\<close> refuses more than 4300 digits.\<close>

definition atoi :: "string \<Rightarrow> int res" where
  "atoi s =
     (let signed = (take 1 s = ''+'' \<or> take 1 s = ''-''); body = (if signed then drop 1 s else s) in
      if body = [] \<or> \<not> list_all is_digit body then Inl (ValueError (''invalid int: '' @ s))
      else if 4300 < length body
      then Inl (ValueError (''Exceeds the limit (4300 digits) for integer string conversion: value has ''
                  @ str_nat (length body) @ '' digits; use sys.set_int_max_str_digits() to increase the limit''))
      else Inr (if take 1 s = ''-'' then - int (nat_of_digits body) else int (nat_of_digits body)))"

definition get_optional_int_value :: "string \<Rightarrow> int \<Rightarrow> pydict \<Rightarrow> int" where
  "get_optional_int_value name dflt values =
     (case value_of name values of
        PInt v \<Rightarrow> v
      | PStr v \<Rightarrow> (case atoi v of Inr n \<Rightarrow> n | Inl _ \<Rightarrow> dflt)
      | _ \<Rightarrow> dflt)"

definition opt_list :: "'a option \<Rightarrow> 'a list" where
  "opt_list x = (case x of None \<Rightarrow> [] | Some y \<Rightarrow> [y])"

definition url_from_database_configuration :: "string \<Rightarrow> int \<Rightarrow> pydict \<Rightarrow> string \<times> field_error list" where
  "url_from_database_configuration schema defport values =
     (let (hostname, e1) = get_required_string_value ''Hostname'' values;
          username = get_optional_string_value ''Username'' [] values;
          password = get_optional_string_value ''Password'' [] values;
          port = get_optional_int_value ''Port'' defport values;
          (database, e2) = get_required_string_value ''Database'' values;
          errors = opt_list e1 @ opt_list e2
      in if errors \<noteq> [] then ([], errors)
         else (schema @ ''://'' @ (if username \<noteq> [] then username @ '':'' @ password @ ''@'' else [])
               @ (if defport > 0 then hostname @ '':'' @ str_int port else hostname)
               @ ''/'' @ database, []))"

definition new_database_configuration :: "int \<Rightarrow> driver_field list" where
  "new_database_configuration defport =
     [required_string_field ''Database'' ''The database name to use'' None,
      optional_string_field ''Username'' ''The username to database'' None,
      optional_password_field ''Password'' ''The password to database'' None,
      required_string_field ''Hostname'' ''The hostname or ip address to database'' None]
     @ (if defport > 0 then [optional_number_field ''Port'' ''The port to database'' (Some defport)] else [])"

section \<open>The registries\<close>

record driver_help =
  h_name :: string
  h_description :: string
  h_example_url :: string
  h_help :: string

record 'w driver_obj =
  do_aliases :: "string list option"
  do_help :: "driver_help option"
  do_start :: "(string \<Rightarrow> ingest_mode \<Rightarrow> 'w \<Rightarrow> unit res \<times> 'w) option"
  do_migration :: bool
  do_configuration :: "driver_field list"
  do_validate :: "pydict \<Rightarrow> string \<times> field_error list"

record 'w registries =
  rg_drivers :: "(string \<times> 'w driver_obj) list"
  rg_driver_aliases :: "(string \<times> string) list"
  rg_importers :: "(string \<times> 'w driver_obj) list"
  rg_importer_aliases :: "(string \<times> string) list"

definition reset_registries :: "'w registries" where
  "reset_registries = \<lparr>rg_drivers = [], rg_driver_aliases = [], rg_importers = [], rg_importer_aliases = []\<rparr>"

definition add_aliases :: "'w driver_obj \<Rightarrow> string \<Rightarrow> (string \<times> string) list \<Rightarrow> (string \<times> string) list" where
  "add_aliases d protocol m =
     (case do_aliases d of None \<Rightarrow> m | Some as \<Rightarrow> foldl (\<lambda>m a. dset a protocol m) m as)"

definition register_driver :: "string \<Rightarrow> 'w driver_obj \<Rightarrow> 'w registries \<Rightarrow> 'w registries" where
  "register_driver protocol d r =
     r\<lparr>rg_drivers := dset protocol d (rg_drivers r),
       rg_driver_aliases := add_aliases d protocol (rg_driver_aliases r)\<rparr>"

definition register_importer :: "string \<Rightarrow> 'w driver_obj \<Rightarrow> 'w registries \<Rightarrow> 'w registries" where
  "register_importer protocol d r =
     r\<lparr>rg_importers := dset protocol d (rg_importers r),
       rg_importer_aliases := add_aliases d protocol (rg_importer_aliases r)\<rparr>"

definition resolve :: "(string \<times> 'd) list \<Rightarrow> (string \<times> string) list \<Rightarrow> string \<Rightarrow> 'd option" where
  "resolve drivers aliases scheme =
     (case dget drivers scheme of
        Some d \<Rightarrow> Some d
      | None \<Rightarrow> (case dget aliases scheme of
                   Some protocol \<Rightarrow> if protocol \<noteq> [] then dget drivers protocol else None
                 | None \<Rightarrow> None))"

definition resolve_driver :: "'w registries \<Rightarrow> string \<Rightarrow> 'w driver_obj option" where
  "resolve_driver r scheme = resolve (rg_drivers r) (rg_driver_aliases r) scheme"

text \<open>
  \<open>urlsplit(url).scheme\<close>: leading control characters and spaces are dropped, tabs and line ends are
  removed, and what is before the first colon is the scheme if it has only the characters of one. The
  checks that \<open>urlsplit\<close> makes on the network location are the parameter \<open>check\<close>.
\<close>

definition is_scheme_char :: "char \<Rightarrow> bool" where
  "is_scheme_char c \<longleftrightarrow> is_alpha c \<or> is_digit c \<or> c \<in> set ''+-.''"

definition urlsplit_scheme :: "(string \<Rightarrow> unit res) \<Rightarrow> string \<Rightarrow> string res" where
  "urlsplit_scheme check url =
     (let url = filter (\<lambda>c. c \<notin> {TAB, CR, NL}) (dropWhile (\<lambda>c. of_char c \<le> (0x20 :: nat)) url);
          (pre, colon, post) = partition_at (CHR '':'') url;
          (scheme, rest) =
            (if colon \<and> pre \<noteq> [] \<and> is_alpha (hd url) \<and> list_all is_scheme_char pre then (lower pre, post) else ([], url));
          netloc = (if prefix ''//'' rest then takeWhile (\<lambda>c. c \<notin> {CHR ''/'', CHR ''?'', CHR ''#''}) (drop 2 rest) else [])
      in andthen (check netloc) (\<lambda>_. Inr scheme))"

definition no_driver :: "string \<Rightarrow> exc" where
  "no_driver scheme = ValueError (''no driver registered for protocol '' @ scheme)"

definition new_driver_for_import :: "(string \<Rightarrow> unit res) \<Rightarrow> 'w registries \<Rightarrow> string \<Rightarrow> 'w driver_obj res" where
  "new_driver_for_import check r url =
     andthen (urlsplit_scheme check url) (\<lambda>scheme.
       case resolve_driver r scheme of None \<Rightarrow> Inl (no_driver scheme) | Some d \<Rightarrow> Inr d)"

definition new_driver ::
    "(string \<Rightarrow> unit res) \<Rightarrow> 'w registries \<Rightarrow> string \<Rightarrow> ingest_mode \<Rightarrow> 'w \<Rightarrow> 'w driver_obj res \<times> 'w" where
  "new_driver check r url mode w =
     andthen_st (new_driver_for_import check r url, w) (\<lambda>d w.
       case do_start d of
         None \<Rightarrow> (Inr d, w)
       | Some start \<Rightarrow> andthen_st (start url mode w) (\<lambda>_ w. (Inr d, w)))"

definition new_importer :: "(string \<Rightarrow> unit res) \<Rightarrow> 'w registries \<Rightarrow> string \<Rightarrow> 'w driver_obj res" where
  "new_importer check r url =
     andthen (urlsplit_scheme check url) (\<lambda>scheme.
       case resolve (rg_importers r) (rg_importer_aliases r) scheme of
         None \<Rightarrow> Inl (ValueError (''no importer registered for protocol '' @ scheme
                   @ ''. the following are supported: '' @ join '', '' (dkeys (rg_importers r))))
       | Some d \<Rightarrow> Inr d)"

definition validate :: "'w registries \<Rightarrow> string \<Rightarrow> pydict \<Rightarrow> (string \<times> field_error list) res" where
  "validate r schema values =
     (case resolve_driver r schema of None \<Rightarrow> Inl (no_driver schema) | Some d \<Rightarrow> Inr (do_validate d values))"

section \<open>Metadata\<close>

record driver_metadata =
  m_scheme :: string
  m_name :: string
  m_description :: string
  m_example_url :: string
  m_help :: string
  m_supports_import :: bool
  m_supports_migration :: bool

definition driver_metadata_json :: "driver_metadata \<Rightarrow> string res" where
  "driver_metadata_json m = gojson_struct
     [(''scheme'', NEVER, PStr (m_scheme m)),
      (''name'', NEVER, PStr (m_name m)),
      (''description'', NEVER, PStr (m_description m)),
      (''exampleURL'', NEVER, PStr (m_example_url m)),
      (''help'', NEVER, PStr (m_help m)),
      (''supportsImport'', NEVER, PBool (m_supports_import m)),
      (''supportsMigration'', NEVER, PBool (m_supports_migration m))]"

record driver_configurator =
  cf_metadata :: driver_metadata
  cf_fields :: "driver_field list"

text \<open>The match of \<open>\x1b\[[0-9;]*m\<close> at the front of a string, and its removal everywhere.\<close>

definition sgr_match :: "string \<Rightarrow> string option" where
  "sgr_match s =
     (if prefix [CHR 0x1B, CHR ''['' ] s
      then (case dropWhile (\<lambda>c. is_digit c \<or> c = CHR '';'') (drop 2 s) of
              c # t \<Rightarrow> if c = CHR ''m'' then Some t else None
            | [] \<Rightarrow> None)
      else None)"

lemma sgr_match_length: "sgr_match s = Some t \<Longrightarrow> length t < length s"
proof -
  assume "sgr_match s = Some t"
  then have "dropWhile (\<lambda>c. is_digit c \<or> c = CHR '';'') (drop 2 s) = CHR ''m'' # t"
    by (auto simp: sgr_match_def split: if_splits list.splits)
  then show "length t < length s"
    using length_dropWhile_le [of "\<lambda>c. is_digit c \<or> c = CHR '';''" "drop 2 s"] by simp
qed

function ansi_strip :: "string \<Rightarrow> string" where
  "ansi_strip [] = []"
| "ansi_strip (c # s) =
     (case sgr_match (c # s) of Some t \<Rightarrow> ansi_strip t | None \<Rightarrow> c # ansi_strip s)"
  by pat_completeness auto
termination by (relation "measure length") (auto dest: sgr_match_length)

definition help_metadata :: "'w registries \<Rightarrow> string \<Rightarrow> 'w driver_obj \<Rightarrow> driver_help \<Rightarrow> string \<Rightarrow> driver_metadata" where
  "help_metadata r scheme d h text =
     \<lparr>m_scheme = scheme, m_name = h_name h, m_description = h_description h, m_example_url = h_example_url h,
      m_help = text, m_supports_import = (dget (rg_importers r) scheme \<noteq> None), m_supports_migration = do_migration d\<rparr>"

definition plain_metadata :: "string \<Rightarrow> driver_metadata" where
  "plain_metadata scheme =
     \<lparr>m_scheme = scheme, m_name = scheme, m_description = [], m_example_url = [], m_help = [],
      m_supports_import = False, m_supports_migration = False\<rparr>"

definition get_driver_metadata :: "'w registries \<Rightarrow> driver_metadata list" where
  "get_driver_metadata r =
     List.map_filter (\<lambda>(scheme, d). map_option (\<lambda>h. help_metadata r scheme d h (h_help h)) (do_help d)) (rg_drivers r)"

definition get_driver_configurations :: "'w registries \<Rightarrow> (string \<times> driver_configurator) list" where
  "get_driver_configurations r =
     foldl (\<lambda>res (scheme, d).
        dset scheme \<lparr>cf_metadata = (case do_help d of None \<Rightarrow> plain_metadata scheme
                                   | Some h \<Rightarrow> help_metadata r scheme d h (ansi_strip (h_help h))),
                     cf_fields = do_configuration d\<rparr> res) [] (rg_drivers r)"

definition get_driver_metadata_for_url ::
    "(string \<Rightarrow> unit res) \<Rightarrow> 'w registries \<Rightarrow> string \<Rightarrow> driver_metadata option res" where
  "get_driver_metadata_for_url check r url =
     andthen (urlsplit_scheme check url) (\<lambda>proto.
       Inr (map_option (\<lambda>(scheme, d). case do_help d of
                None \<Rightarrow> plain_metadata scheme | Some h \<Rightarrow> help_metadata r scheme d h (h_help h))
          (find (\<lambda>(scheme, d). scheme = proto \<or> dget (rg_driver_aliases r) proto = Some scheme) (rg_drivers r))))"

section \<open>The built-in drivers\<close>

definition driver_aliases :: "string \<Rightarrow> string list option" where
  "driver_aliases p =
     (if p = ''postgres'' then Some [''postgresql''] else if p = ''sqlserver'' then Some [''mssql''] else None)"

definition builtin_protocols :: "string list" where
  "builtin_protocols = [''postgres'', ''mysql'', ''sqlserver'', ''snowflake'', ''snowflake-keypair'', ''file'', ''s3'',
     ''kafka'', ''eventhub'']"

text \<open>\<open>cls p\<close> is a new object of the class of the protocol, but for its aliases.\<close>

definition new_object :: "(string \<Rightarrow> 'w driver_obj) \<Rightarrow> string \<Rightarrow> 'w driver_obj" where
  "new_object cls p = (cls p)\<lparr>do_aliases := driver_aliases p\<rparr>"

definition register_all :: "(string \<Rightarrow> 'w driver_obj) \<Rightarrow> 'w registries \<Rightarrow> 'w registries" where
  "register_all cls r =
     foldl (\<lambda>r p. register_importer p (new_object cls p) (register_driver p (new_object cls p) r)) r builtin_protocols"

section \<open>What resolves\<close>

text \<open>After the built-in drivers are registered, each of the nine protocols resolves to its own driver,
  the aliases \<open>postgresql\<close> and \<open>mssql\<close> to those of PostgreSQL and SQL Server, and no other scheme
  resolves; importers resolve alike.\<close>

theorem builtin_resolution:
  "resolve_driver (register_all cls reset_registries) s =
     (if s \<in> set builtin_protocols then Some (new_object cls s)
      else if s = ''postgresql'' then Some (new_object cls ''postgres'')
      else if s = ''mssql'' then Some (new_object cls ''sqlserver'') else None)
   \<and> resolve (rg_importers (register_all cls reset_registries)) (rg_importer_aliases (register_all cls reset_registries)) s =
     resolve_driver (register_all cls reset_registries) s"
proof -
  have a: "do_aliases (new_object cls p) = driver_aliases p" for p by (simp add: new_object_def)
  let ?ds = "map (\<lambda>p. (p, new_object cls p)) builtin_protocols" and ?as = "[(''postgresql'', ''postgres''), (''mssql'', ''sqlserver'')]"
  have r: "register_all cls reset_registries = \<lparr>rg_drivers = ?ds, rg_driver_aliases = ?as, rg_importers = ?ds, rg_importer_aliases = ?as\<rparr>"
    by (simp add: register_all_def builtin_protocols_def register_driver_def register_importer_def reset_registries_def
        add_aliases_def a driver_aliases_def)
  have m: "dget ?ds s = (if s \<in> set builtin_protocols then Some (new_object cls s) else None)" for s
    by (simp add: map_of_map_restrict)
  show ?thesis by (auto simp: r resolve_driver_def resolve_def m) (simp_all add: builtin_protocols_def)
qed

end
