(* ===== verification/ExportInfo.thy ===== *)
theory ExportInfo
  imports Recovery Ndjson DriverConf
begin

text \<open>
  The times up to which tables were exported, \<open>TableExportInfo\<close> of \<open>eds/cmd/import_client.py\<close>: an import writes them to the
  tracker as RFC 3339 texts in JSON, and reads them again; the consumer process (\<open>_load_table_export_info\<close> of
  \<open>eds/cmd/fork.py\<close>) reads them to know where each table's stream has to begin. Also the download of the exported files,
  which computes these times.

  An aware \<open>datetime\<close> is the number of microseconds since 1970 in UTC.
\<close>

section \<open>Calendar\<close>

text \<open>The range of \<open>datetime\<close>, and \<open>_nanos_to_dt\<close>; the \<open>OverflowError\<close> of a time outside the range is caught nowhere by its class.\<close>

definition MIN_MICROS :: int where "MIN_MICROS = - 62135596800000000"
definition MAX_MICROS :: int where "MAX_MICROS = 253402300799999999"

definition nanos_to_dt :: "int \<Rightarrow> int res" where
  "nanos_to_dt unix_nanos =
     (let us = unix_nanos div 1000 in
      if MIN_MICROS \<le> us \<and> us \<le> MAX_MICROS then Inr us else Inl (RuntimeError ''date value out of range''))"

text \<open>The date of a day number, as \<open>date.fromordinal\<close> computes it: cycles of 400, 100, 4 years and single years, then months.\<close>

function month_day :: "nat \<Rightarrow> nat \<Rightarrow> nat \<Rightarrow> nat \<times> nat \<times> nat" where
  "month_day y m n = (if m < 12 \<and> days_in_month y m \<le> n then month_day y (Suc m) (n - days_in_month y m) else (y, m, Suc n))"
  by pat_completeness auto
termination by (relation "measure (\<lambda>(y, m, n). 12 - m)") auto

declare month_day.simps [simp del]

definition fromordinal :: "nat \<Rightarrow> nat \<times> nat \<times> nat" where
  "fromordinal n =
     (let a = (n - 1) div 146097; n1 = (n - 1) mod 146097;
          b = n1 div 36524; n2 = n1 mod 36524;
          c = n2 div 1461; n3 = n2 mod 1461;
          d = n3 div 365; n4 = n3 mod 365;
          year = 400 * a + 100 * b + 4 * c + d + 1
      in if d = 4 \<or> b = 4 then (year - 1, 12, 31) else month_day year 1 n4)"

definition utc_fields :: "int \<Rightarrow> datetime" where
  "utc_fields us =
     (let secs = us div 1000000; r = nat (secs mod 86400) in
      case fromordinal (nat (secs div 86400 + 719163)) of
        (y, m, d) \<Rightarrow> \<lparr>dt_year = y, dt_month = m, dt_day = d, dt_hour = r div 3600, dt_minute = r div 60 mod 60, dt_second = r mod 60,
                       dt_microsecond = nat (us mod 1000000)\<rparr>)"

definition micros :: "datetime \<Rightarrow> int" where
  "micros t = unix_seconds t * 1000000 + int (dt_microsecond t)"

subsection \<open>The calendar is consistent\<close>

lemma year_days: "sum_list (map (days_in_month y) [1..<13]) = (if leap_year y then 366 else 365)"
proof -
  have "[1..<13] = [1, 2, 3, 4, 5, 6, 7, 8, 9, 10, 11, 12::nat]" by (simp add: upt_rec)
  then show ?thesis by (simp add: days_in_month_def)
qed

lemma days_in_month_pos: "0 < days_in_month y m"
  by (simp add: days_in_month_def)

lemma days_before_Suc: "1 \<le> m \<Longrightarrow> days_before_month y (Suc m) = days_before_month y m + days_in_month y m"
  by (simp add: days_before_month_def)

lemma month_day_date:
  "month_day y m n = (y', m', d) \<Longrightarrow> 1 \<le> m \<Longrightarrow> m \<le> 12 \<Longrightarrow> days_before_month y m + n < days_before_month y 13 \<Longrightarrow>
   y' = y \<and> 1 \<le> m' \<and> m' \<le> 12 \<and> 1 \<le> d \<and> d \<le> days_in_month y m' \<and> days_before_month y m' + d = days_before_month y m + n + 1"
proof (induction y m n arbitrary: y' m' d rule: month_day.induct)
  case (1 y m n)
  show ?case
  proof (cases "m < 12 \<and> days_in_month y m \<le> n")
    case True
    with 1 show ?thesis by (auto simp: month_day.simps [of y m n] days_before_Suc)
  next
    case False
    have "m = 12 \<Longrightarrow> n < days_in_month y m" using 1(5) days_before_Suc [of 12 y] by simp
    with False 1 show ?thesis by (auto simp: month_day.simps [of y m n])
  qed
qed

definition days_before_year :: "nat \<Rightarrow> nat" where
  "days_before_year z = 365 * z + z div 4 - z div 100 + z div 400"

lemma toordinal_year: "toordinal y m d = days_before_year (y - 1) + days_before_month y m + d"
  by (simp add: toordinal_def days_before_year_def)

lemma cycle_days:
  fixes a b c d :: nat
  assumes "b \<le> 3" "c \<le> 24" "d \<le> 3"
  shows "days_before_year (400 * a + 100 * b + 4 * c + d) = 146097 * a + 36524 * b + 1461 * c + 365 * d"
proof -
  have "(400 * a + 100 * b + 4 * c + d) div 4 = 100 * a + 25 * b + c" using assms by linarith
  moreover have "(400 * a + 100 * b + 4 * c + d) div 100 = 4 * a + b" using assms by linarith
  moreover have "(400 * a + 100 * b + 4 * c + d) div 400 = a" using assms by linarith
  ultimately show ?thesis by (simp add: days_before_year_def)
qed

lemma dvd_top: "0 < n \<Longrightarrow> n \<le> k \<Longrightarrow> (k dvd k * q + n) = (n = k)"
  for k n q :: nat
  using dvd_imp_le [of k n] by (auto simp: dvd_add_right_iff)

lemma leap_iff:
  fixes a b c d :: nat
  assumes "b \<le> 3" "c \<le> 24" "d \<le> 3"
  shows "leap_year (400 * a + 100 * b + 4 * c + d + 1) \<longleftrightarrow> d = 3 \<and> (c \<noteq> 24 \<or> b = 3)"
proof -
  let ?y = "400 * a + 100 * b + 4 * c + d + 1"
  have y: "?y = 4 * (100 * a + 25 * b + c) + (d + 1)" "?y = 100 * (4 * a + b) + (4 * c + d + 1)" "?y = 400 * a + (100 * b + 4 * c + d + 1)"
    by simp_all
  have "4 dvd ?y \<longleftrightarrow> d = 3" unfolding y(1) using assms by (subst dvd_top) auto
  moreover have "100 dvd ?y \<longleftrightarrow> 4 * c + d + 1 = 100" unfolding y(2) using assms by (subst dvd_top) auto
  moreover have "400 dvd ?y \<longleftrightarrow> 100 * b + 4 * c + d + 1 = 400" unfolding y(3) using assms by (subst dvd_top) auto
  moreover have "4 * c + d + 1 = 100 \<longleftrightarrow> d = 3 \<and> c = 24" using assms by linarith
  moreover have "100 * b + 4 * c + d + 1 = 400 \<longleftrightarrow> d = 3 \<and> c = 24 \<and> b = 3" using assms by linarith
  ultimately show ?thesis by (auto simp: leap_year_def)
qed

lemma last_of_leap: "leap_year y \<Longrightarrow> days_before_month y 12 = 335"
proof -
  have "[1..<12] = [1, 2, 3, 4, 5, 6, 7, 8, 9, 10, 11::nat]" by (simp add: upt_rec)
  then show "leap_year y \<Longrightarrow> days_before_month y 12 = 335" by (simp add: days_before_month_def days_in_month_def)
qed

definition date_of :: "nat \<Rightarrow> nat \<times> nat \<times> nat \<Rightarrow> bool" where
  "date_of n t \<longleftrightarrow> (case t of (y, m, d) \<Rightarrow> toordinal y m d = n \<and> 1 \<le> y \<and> 1 \<le> m \<and> m \<le> 12 \<and> 1 \<le> d \<and> d \<le> days_in_month y m)"

lemma date_of_year:
  fixes a b c d :: nat
  assumes "b \<le> 3" "c \<le> 24" "d \<le> 3" "r < 365"
  shows "date_of (146097 * a + 36524 * b + 1461 * c + 365 * d + r + 1) (month_day (400 * a + 100 * b + 4 * c + d + 1) 1 r)"
proof -
  let ?y = "400 * a + 100 * b + 4 * c + d + 1"
  obtain y m e where md: "month_day ?y 1 r = (y, m, e)" by (cases "month_day ?y 1 r")
  have "days_before_month ?y 1 + r < days_before_month ?y 13"
    using year_days [of ?y] assms(4) by (simp add: days_before_month_def split: if_splits)
  from month_day_date [OF md _ _ this] have "y = ?y \<and> 1 \<le> m \<and> m \<le> 12 \<and> 1 \<le> e \<and> e \<le> days_in_month ?y m \<and> days_before_month ?y m + e = r + 1"
    by (simp add: days_before_month_def)
  with md cycle_days [OF assms(1-3), of a] show ?thesis by (simp add: date_of_def toordinal_year)
qed

lemma date_of_last:
  fixes a b c :: nat
  assumes "b \<le> 3" "c \<le> 24" "c \<noteq> 24 \<or> b = 3"
  shows "date_of (146097 * a + 36524 * b + 1461 * c + 1461) (400 * a + 100 * b + 4 * c + 4, 12, 31)"
proof -
  have "400 * a + 100 * b + 4 * c + 4 = 400 * a + 100 * b + 4 * c + 3 + 1" by simp
  then have l: "leap_year (400 * a + 100 * b + 4 * c + 4)" using leap_iff [of b c 3 a] assms by (simp only:)
  have "400 * a + 100 * b + 4 * c + 4 - 1 = 400 * a + 100 * b + 4 * c + 3" by simp
  then have "toordinal (400 * a + 100 * b + 4 * c + 4) 12 31 = 146097 * a + 36524 * b + 1461 * c + 1461"
    using cycle_days [of b c 3 a] last_of_leap [OF l] assms(1,2) unfolding toordinal_year by presburger
  then show ?thesis by (simp add: date_of_def days_in_month_def)
qed

lemma fromordinal_date:
  assumes "1 \<le> n"
  shows "date_of n (fromordinal n)"
proof -
  define a where "a = (n - 1) div 146097"
  define n1 where "n1 = (n - 1) mod 146097"
  define b where "b = n1 div 36524"
  define n2 where "n2 = n1 mod 36524"
  define c where "c = n2 div 1461"
  define n3 where "n3 = n2 mod 1461"
  define d where "d = n3 div 365"
  define r where "r = n3 mod 365"
  have f: "fromordinal n = (if d = 4 \<or> b = 4 then (400 * a + 100 * b + 4 * c + d, 12, 31) else month_day (400 * a + 100 * b + 4 * c + d + 1) 1 r)"
    by (simp add: fromordinal_def Let_def a_def b_def c_def d_def r_def n1_def n2_def n3_def)
  have n: "n = 146097 * a + n1 + 1" using assms by (simp add: a_def n1_def)
  have e: "n1 = 36524 * b + n2" "n2 = 1461 * c + n3" "n3 = 365 * d + r" by (simp_all add: b_def n2_def c_def n3_def d_def r_def)
  have l: "n1 < 146097" "n2 < 36524" "n3 < 1461" "r < 365" by (simp_all add: n1_def n2_def n3_def r_def)
  consider "b = 4" "n2 = 0" | "b \<le> 3" "c \<le> 24" "d = 4" "r = 0" "c \<noteq> 24" | "b \<le> 3" "c \<le> 24" "d \<le> 3" using e l by linarith
  then show ?thesis
  proof cases
    case 1
    then have "c = 0" "n3 = 0" "d = 0" "r = 0" using e by auto
    moreover from this 1 n e have "n = 146097 * a + 146097" by simp
    ultimately show ?thesis unfolding f using date_of_last [of 3 24 a] 1 by (simp add: add.commute)
  next
    case 2
    moreover from this n e have "n = 146097 * a + 36524 * b + 1461 * c + 1461" by simp
    ultimately show ?thesis unfolding f using date_of_last [of b c a] by simp
  next
    case 3
    moreover from n e have "n = 146097 * a + 36524 * b + 1461 * c + 365 * d + r + 1" by simp
    ultimately show ?thesis unfolding f using date_of_year [OF 3 l(4), of a] by simp
  qed
qed

text \<open>The fields of a time in UTC, within the range of \<open>datetime\<close>, are those of a valid time, and give the time back.\<close>

lemma ordinal_year:
  assumes "date_of n (y, m, d)" "n \<le> 3652059"
  shows "y \<le> 9999"
proof (rule ccontr)
  assume "\<not> y \<le> 9999"
  then have y: "9999 \<le> y - 1" by simp
  have "3652059 \<le> days_before_year z" if z: "9999 \<le> z" for z
  proof (cases "z = 9999")
    case False
    define q where "q = z div 4"
    have "z div 100 = q div 25" by (simp add: q_def div_mult2_eq [symmetric])
    moreover have "2500 \<le> q" using z False by (simp add: q_def)
    ultimately show ?thesis using z False unfolding days_before_year_def q_def [symmetric] by linarith
  qed (simp add: days_before_year_def)
  from this [OF y] assms show False by (simp add: date_of_def toordinal_year)
qed

lemma utc_fields_ok:
  assumes "MIN_MICROS \<le> us" "us \<le> MAX_MICROS"
  shows "valid_datetime (utc_fields us) \<and> micros (utc_fields us) = us"
proof -
  define secs where "secs = us div 1000000"
  define day where "day = secs div 86400"
  define r where "r = nat (secs mod 86400)"
  obtain y m d where f: "fromordinal (nat (day + 719163)) = (y, m, d)" by (cases "fromordinal (nat (day + 719163))")
  have s: "- 62135596800 \<le> secs" "secs \<le> 253402300799" using assms by (simp_all add: secs_def MIN_MICROS_def MAX_MICROS_def)
  then have day: "- 719162 \<le> day" "day \<le> 2932896" by (simp_all add: day_def)
  then have dt: "date_of (nat (day + 719163)) (y, m, d)" using fromordinal_date [of "nat (day + 719163)"] f by simp
  moreover have "nat (day + 719163) \<le> 3652059" using day by simp
  ultimately have y: "y \<le> 9999" by (rule ordinal_year)
  have u: "utc_fields us = \<lparr>dt_year = y, dt_month = m, dt_day = d, dt_hour = r div 3600, dt_minute = r div 60 mod 60, dt_second = r mod 60,
      dt_microsecond = nat (us mod 1000000)\<rparr>"
    using f by (simp add: utc_fields_def Let_def secs_def day_def r_def)
  have r: "r < 86400" by (simp add: r_def nat_less_iff)
  have hms: "3600 * (r div 3600) + 60 * (r div 60 mod 60) + r mod 60 = r"
  proof -
    have "r div 3600 = r div 60 div 60" by (simp add: div_mult2_eq [symmetric])
    moreover have "60 * (r div 60 div 60) + r div 60 mod 60 = r div 60" "60 * (r div 60) + r mod 60 = r" by simp_all
    ultimately show ?thesis by linarith
  qed
  have "secs = 86400 * day + int r" by (simp add: day_def r_def)
  moreover have "int (toordinal y m d) = day + 719163" using dt day by (simp add: date_of_def)
  moreover have "3600 * int (r div 3600) + 60 * int (r div 60 mod 60) + int (r mod 60) = int r"
    using arg_cong [OF hms, of int] by simp
  ultimately have "unix_seconds (utc_fields us) = secs" by (simp add: unix_seconds_def u algebra_simps)
  moreover have "us = 1000000 * secs + us mod 1000000" by (simp add: secs_def)
  ultimately have "micros (utc_fields us) = us" by (simp add: micros_def u)
  moreover have "valid_datetime (utc_fields us)"
    using dt y r by (auto simp: valid_datetime_def u date_of_def nat_le_iff)
  ultimately show ?thesis by simp
qed

section \<open>RFC 3339\<close>

text \<open>\<open>_rfc3339\<close>; \<open>strftime("%Y")\<close> does not pad a year before 1000.\<close>

definition year_text :: "nat \<Rightarrow> string" where
  "year_text y = (if y < 1000 then str_nat y else pad4 y)"

definition rfc3339_text :: "int \<Rightarrow> string" where
  "rfc3339_text us =
     (let t = utc_fields us in
      year_text (dt_year t) @ ''-'' @ pad2 (dt_month t) @ ''-'' @ pad2 (dt_day t) @ ''T'' @
      pad2 (dt_hour t) @ '':'' @ pad2 (dt_minute t) @ '':'' @ pad2 (dt_second t) @
      (if dt_microsecond t \<noteq> 0 then ''.'' @ rstrip (CHR ''0'') (pad6 (dt_microsecond t)) else []) @ ''Z'')"

text \<open>\<open>datetime.fromisoformat\<close> for the documented format \<open>YYYY-MM-DD[*HH[:MM[:SS[.fff[fff]]]][+HH:MM[:SS[.ffffff]]]]\<close> of the Python
  versions below 3.11; \<open>None\<close> is a \<open>ValueError\<close>.\<close>

datatype moment = Aware int | Naive datetime

definition iso_time :: "string \<Rightarrow> (nat \<times> nat \<times> nat \<times> nat) option" where
  "iso_time s =
     (if fits ''dd'' s then Some (field s 0 2, 0, 0, 0)
      else if fits ''dd:dd'' s then Some (field s 0 2, field s 3 2, 0, 0)
      else if fits ''dd:dd:dd'' s then Some (field s 0 2, field s 3 2, field s 6 2, 0)
      else if fits ''dd:dd:dd.ddd'' s then Some (field s 0 2, field s 3 2, field s 6 2, 1000 * field s 9 3)
      else if fits ''dd:dd:dd.dddddd'' s then Some (field s 0 2, field s 3 2, field s 6 2, field s 9 6)
      else None)"

definition iso_offset :: "string \<Rightarrow> int option" where
  "iso_offset s =
     (if fits ''dd:dd'' (tl s) \<or> fits ''dd:dd:dd'' (tl s) \<or> fits ''dd:dd:dd.dddddd'' (tl s) then
        case iso_time (tl s) of
          None \<Rightarrow> None
        | Some (h, m, sec, us) \<Rightarrow>
            (let off = 1000000 * (3600 * int h + 60 * int m + int sec) + int us in
             if off < 86400000000 then Some (if hd s = CHR ''-'' then - off else off) else None)
      else None)"

definition sign_char :: "char \<Rightarrow> bool" where
  "sign_char c \<longleftrightarrow> c = CHR ''+'' \<or> c = CHR ''-''"

definition fromisoformat :: "string \<Rightarrow> moment option" where
  "fromisoformat s =
     (let date = take 10 s; time = drop_code_point (drop 10 s);
          clock = takeWhile (\<lambda>c. \<not> sign_char c) time; tz = dropWhile (\<lambda>c. \<not> sign_char c) time in
      if \<not> fits ''dddd-dd-dd'' date then None
      else case (if drop 10 s = [] then Some (0, 0, 0, 0) else iso_time clock) of
             None \<Rightarrow> None
           | Some (h, mi, sec, us) \<Rightarrow>
               (let t = \<lparr>dt_year = field s 0 4, dt_month = field s 5 2, dt_day = field s 8 2, dt_hour = h, dt_minute = mi, dt_second = sec,
                         dt_microsecond = us\<rparr> in
                if \<not> valid_datetime t then None
                else if drop 10 s = [] \<or> tz = [] then Some (Naive t)
                else map_option (\<lambda>off. Aware (micros t - off)) (iso_offset tz)))"

text \<open>\<open>parse_rfc3339\<close>: \<open>Z\<close> is replaced by a zero offset, and a fraction, found by \<open>_FRAC_RE\<close>, is cut or filled to six digits. The greedy
  expression takes the last \<open>Tdd:dd:dd.d\<close>; its dots match no line feed, and its end matches before a final one.\<close>

definition replace_z :: "string \<Rightarrow> string" where
  "replace_z s = concat (map (\<lambda>c. if c = CHR ''Z'' then ''+00:00'' else [c]) s)"

definition frac_at :: "string \<Rightarrow> nat \<Rightarrow> bool" where
  "frac_at s i \<longleftrightarrow> fits ''Tdd:dd:dd.d'' (take 11 (drop i s))"

definition six_digits :: "string \<Rightarrow> string" where
  "six_digits s0 =
     (let s = (if s0 \<noteq> [] \<and> last s0 = NL then butlast s0 else s0) in
      if NL \<in> set s then s0
      else case filter (frac_at s) (rev [0..<length s]) of
             [] \<Rightarrow> s0
           | i # _ \<Rightarrow> take (i + 9) s @ ''.'' @ take 6 (takeWhile is_digit (drop (i + 10) s) @ ''000000'') @ dropWhile is_digit (drop (i + 10) s))"

definition parse_rfc3339 :: "string \<Rightarrow> moment res" where
  "parse_rfc3339 s =
     (case fromisoformat (six_digits (replace_z s)) of
        None \<Rightarrow> Inl (ValueError ''Invalid isoformat string'')
      | Some m \<Rightarrow> Inr m)"

subsection \<open>Round trip\<close>

lemma rstrip_fill: "rstrip c s @ replicate (length s - length (rstrip c s)) c = s"
proof -
  have "takeWhile (\<lambda>d. d = c) xs = replicate (length (takeWhile (\<lambda>d. d = c) xs)) c" for xs by (induction xs) auto
  moreover have "length s = length (takeWhile (\<lambda>d. d = c) (rev s)) + length (dropWhile (\<lambda>d. d = c) (rev s))"
    by (metis length_append length_rev takeWhile_dropWhile_id)
  ultimately show ?thesis unfolding rstrip_def
    by (metis add_diff_cancel_right' length_rev rev_append rev_replicate rev_rev_ident takeWhile_dropWhile_id)
qed

lemma rstrip_length: "length (rstrip c s) \<le> length s"
  using length_dropWhile_le [of "\<lambda>d. d = c" "rev s"] by (simp add: rstrip_def)

lemma fill_rstrip: "length s = 6 \<Longrightarrow> take 6 (rstrip (CHR ''0'') s @ ''000000'') = s"
proof -
  assume l: "length s = 6"
  have "''000000'' = replicate 6 (CHR ''0'')" by (simp add: numeral_eq_Suc)
  moreover have "take 6 (rstrip (CHR ''0'') s @ replicate 6 (CHR ''0'')) = rstrip (CHR ''0'') s @ replicate (6 - length (rstrip (CHR ''0'') s)) (CHR ''0'')"
    using rstrip_length [of "CHR ''0''" s] l by (simp add: min_def)
  ultimately show ?thesis using rstrip_fill [of "CHR ''0''" s] l by simp
qed

text \<open>The text around the \<open>T\<close>, and what of it the fraction expression and \<open>replace\<close> see.\<close>

definition plain_char :: "char \<Rightarrow> bool" where
  "plain_char c \<longleftrightarrow> is_digit c \<or> c \<in> set ''-:.+''"

lemma plain_char_not: "\<not> plain_char (CHR ''T'')" "\<not> plain_char (CHR ''Z'')" "\<not> plain_char NL"
  by (simp_all add: plain_char_def is_digit_def less_eq_char_def)

lemma plain_offset: "list_all plain_char ''+00:00''"
  by (simp add: plain_char_def is_digit_def less_eq_char_def)

lemma plain_pads: "list_all plain_char (pad2 n)" "list_all plain_char (pad4 n)" "list_all plain_char (pad6 n)"
  by (simp_all add: pad2_def pad4_def pad6_def plain_char_def)

lemma replace_z_append [simp]: "replace_z (a @ b) = replace_z a @ replace_z b"
  by (simp add: replace_z_def)

lemma replace_z_id: "CHR ''Z'' \<notin> set s \<Longrightarrow> replace_z s = s"
  by (induction s) (auto simp: replace_z_def)

lemma frac_at_T: "frac_at s i \<Longrightarrow> i < length s \<and> s ! i = CHR ''T''"
  by (cases "drop i s") (auto simp: frac_at_def fits_def nth_via_drop list_all2_Cons1 dest: arg_cong [of _ _ length])

lemma filter_unique: "(\<And>i. P i \<Longrightarrow> i = k) \<Longrightarrow> k < n \<Longrightarrow> filter P (rev [0..<n]) = (if P k then [k] else [])"
proof (induction n)
  case (Suc n)
  show ?case
  proof (cases "k = n")
    case True
    then have "filter P (rev [0..<n]) = []" using Suc.prems(1) by (auto simp: filter_empty_conv)
    with True show ?thesis by simp
  next
    case False
    then have "k < n" "\<not> P n" using Suc.prems by auto
    with Suc.IH [OF Suc.prems(1)] show ?thesis by simp
  qed
qed simp

lemma six_digits_one_T:
  assumes s: "s = D @ CHR ''T'' # E" and "length D = 10" "list_all plain_char D" "list_all plain_char E" "E \<noteq> []"
  shows "six_digits s =
    (if frac_at s 10 then take 19 s @ ''.'' @ take 6 (takeWhile is_digit (drop 20 s) @ ''000000'') @ dropWhile is_digit (drop 20 s) else s)"
proof -
  have n: "NL \<notin> set s" using assms plain_char_not by (auto simp: list_all_iff)
  then have l: "last s \<noteq> NL" by (metis assms(1) append_is_Nil_conv last_in_set list.distinct(1))
  have "i = 10" if f: "frac_at s i" for i
  proof (rule ccontr)
    assume "i \<noteq> 10"
    then consider "i < 10" | j where "i = 11 + j" by (metis Suc_leI le_iff_add linorder_neqE_nat numeral_eq_Suc pred_numeral_simps(3) eval_nat_numeral(3))
    then have "CHR ''T'' \<in> set D \<union> set E"
    proof cases
      case 1
      with frac_at_T [OF f] assms(2) have "D ! i = CHR ''T'' \<and> i < length D" by (simp add: s nth_append)
      then show ?thesis by (metis UnI1 nth_mem)
    next
      case (2 j)
      with frac_at_T [OF f] assms(2) have "E ! j = CHR ''T'' \<and> j < length E" by (simp add: s nth_append)
      then show ?thesis by (metis UnI2 nth_mem)
    qed
    with assms(3,4) plain_char_not(1) show False by (auto simp: list_all_iff)
  qed
  then have "filter (frac_at s) (rev [0..<length s]) = (if frac_at s 10 then [10] else [])" by (rule filter_unique) (use assms in simp_all)
  with n l show ?thesis by (simp add: six_digits_def)
qed

text \<open>The text of a time, after its offset and fraction are normalised.\<close>

definition date_text :: "datetime \<Rightarrow> string" where
  "date_text t = pad4 (dt_year t) @ ''-'' @ pad2 (dt_month t) @ ''-'' @ pad2 (dt_day t)"

definition time_text :: "datetime \<Rightarrow> string" where
  "time_text t = pad2 (dt_hour t) @ '':'' @ pad2 (dt_minute t) @ '':'' @ pad2 (dt_second t)"

lemma text_lengths [simp]: "length (date_text t) = 10" "length (time_text t) = 8"
  by (simp_all add: date_text_def time_text_def)

lemma text_plain: "list_all plain_char (date_text t)" "list_all plain_char (time_text t)"
  using plain_pads by (simp_all add: date_text_def time_text_def plain_char_def)

lemma rfc3339_text_split:
  assumes "1000 \<le> dt_year (utc_fields us)"
  shows "rfc3339_text us = date_text (utc_fields us) @ ''T'' @ time_text (utc_fields us) @
    (if dt_microsecond (utc_fields us) \<noteq> 0 then ''.'' @ rstrip (CHR ''0'') (pad6 (dt_microsecond (utc_fields us))) else []) @ ''Z''"
  using assms by (simp add: rfc3339_text_def date_text_def time_text_def year_text_def Let_def)

lemma time_text_digit: "fits ''dd:dd:dd'' (time_text t)"
  by (simp add: fits_def time_text_def pad2_def)

lemma date_text_digit: "fits ''dddd-dd-dd'' (date_text t)"
  by (simp add: fits_def date_text_def pad4_def pad2_def)

lemma fits_append: "length a = length s \<Longrightarrow> fits (a @ b) (s @ r) \<longleftrightarrow> fits a s \<and> fits b r"
  by (simp add: fits_def list_all2_append)

lemma fits_length: "fits a s \<Longrightarrow> length a = length s"
  by (simp add: fits_def list_all2_lengthD)

lemma rstrip_pad6:
  assumes "0 < n" "n < 1000000"
  shows "rstrip (CHR ''0'') (pad6 n) \<noteq> []" "list_all is_digit (rstrip (CHR ''0'') (pad6 n))"
proof -
  show "list_all is_digit (rstrip (CHR ''0'') (pad6 n))"
    using pad6_digits [of n] rstrip_subset [of "CHR ''0''" "pad6 n"] by (auto simp: list_all_iff)
  show "rstrip (CHR ''0'') (pad6 n) \<noteq> []"
  proof
    assume "rstrip (CHR ''0'') (pad6 n) = []"
    then have "pad6 n = replicate 6 (CHR ''0'')" using rstrip_fill [of "CHR ''0''" "pad6 n"] by simp
    then have "nat_of_digits (pad6 n) = 0" by (simp add: numeral_eq_Suc nat_of_digits_def)
    with nat_of_pad6 [OF assms(2)] assms(1) show False by simp
  qed
qed

lemma six_digits_text:
  assumes "valid_datetime t"
  shows "six_digits (date_text t @ ''T'' @ time_text t @
      (if dt_microsecond t \<noteq> 0 then ''.'' @ rstrip (CHR ''0'') (pad6 (dt_microsecond t)) else []) @ ''+00:00'') =
    date_text t @ ''T'' @ time_text t @ (if dt_microsecond t \<noteq> 0 then ''.'' @ pad6 (dt_microsecond t) else []) @ ''+00:00''"
proof (cases "dt_microsecond t = 0")
  case True
  let ?s = "date_text t @ CHR ''T'' # time_text t @ ''+00:00''"
  have "\<not> frac_at ?s 10"
    using fits_append [of "''Tdd:dd:dd''" "CHR ''T'' # time_text t" "''.d''" "''+0''"] by (simp add: frac_at_def) (simp add: fits_def)
  with six_digits_one_T [of ?s "date_text t" "time_text t @ ''+00:00''"] text_plain [of t] plain_offset True show ?thesis by simp
next
  case False
  let ?f = "rstrip (CHR ''0'') (pad6 (dt_microsecond t))"
  let ?s = "date_text t @ CHR ''T'' # time_text t @ CHR ''.'' # ?f @ ''+00:00''"
  have f: "?f \<noteq> []" "list_all is_digit ?f" using rstrip_pad6 [of "dt_microsecond t"] False assms by (simp_all add: valid_datetime_def)
  obtain c r where c: "?f = c # r" "is_digit c" using f by (cases ?f) auto
  have "frac_at ?s 10"
    using fits_append [of "''Tdd:dd:dd''" "CHR ''T'' # time_text t" "''.d''" "[CHR ''.'', c]"] time_text_digit [of t] c
    by (simp add: frac_at_def) (simp add: fits_def)
  moreover have "list_all plain_char ?f" using f(2) by (simp add: list_all_iff plain_char_def)
  moreover have "takeWhile is_digit (?f @ ''+00:00'') = ?f" "dropWhile is_digit (?f @ ''+00:00'') = ''+00:00''"
    using f(2) by (simp_all add: list_all_iff is_digit_def less_eq_char_def)
  ultimately show ?thesis
    using six_digits_one_T [of ?s "date_text t" "time_text t @ CHR ''.'' # ?f @ ''+00:00''"] text_plain [of t] plain_offset False
      fill_rstrip [of "pad6 (dt_microsecond t)"] by (simp add: plain_char_def [of "CHR ''.''"])
qed

lemma digit_ascii: "is_digit c \<Longrightarrow> \<not> (CHR 0x80 \<le> c \<and> c < CHR 0xC0)" "is_digit c \<Longrightarrow> \<not> sign_char c" "is_digit c \<Longrightarrow> c \<noteq> CHR '':''"
  by (auto simp: is_digit_def less_eq_char_def sign_char_def)

lemma iso_time_seconds: "fits ''dd:dd:dd'' s \<Longrightarrow> iso_time s = Some (field s 0 2, field s 3 2, field s 6 2, 0)"
  by (frule fits_length) (auto simp: iso_time_def dest: fits_length)

lemma iso_time_micros: "fits ''dd:dd:dd.dddddd'' s \<Longrightarrow> iso_time s = Some (field s 0 2, field s 3 2, field s 6 2, field s 9 6)"
  by (frule fits_length) (auto simp: iso_time_def dest: fits_length)

lemma iso_time_text:
  assumes "valid_datetime t"
  shows "iso_time (time_text t @ (if dt_microsecond t \<noteq> 0 then ''.'' @ pad6 (dt_microsecond t) else [])) =
    Some (dt_hour t, dt_minute t, dt_second t, dt_microsecond t)"
proof -
  let ?s = "time_text t @ (if dt_microsecond t \<noteq> 0 then ''.'' @ pad6 (dt_microsecond t) else [])"
  have b: "dt_hour t < 100" "dt_minute t < 100" "dt_second t < 100" "dt_microsecond t < 1000000" using assms by (auto simp: valid_datetime_def)
  then have f: "field ?s 0 2 = dt_hour t" "field ?s 3 2 = dt_minute t" "field ?s 6 2 = dt_second t"
    by (simp_all add: field_def time_text_def nat_of_pad2)
  show ?thesis
  proof (cases "dt_microsecond t = 0")
    case True
    with f time_text_digit [of t] show ?thesis by (simp only: iso_time_seconds append_Nil2 if_False simp_thms)
  next
    case False
    have "fits ''dd:dd:dd.dddddd'' ?s"
      using False time_text_digit [of t] fits_append [of "''dd:dd:dd''" "time_text t" "''.dddddd''" "CHR ''.'' # pad6 (dt_microsecond t)"]
      by (simp add: fits_def pad6_def pad2_def)
    moreover have "field ?s 9 6 = dt_microsecond t" using False b by (simp add: field_def nat_of_pad6)
    ultimately show ?thesis using f by (simp only: iso_time_micros)
  qed
qed

lemma fromisoformat_text:
  assumes "valid_datetime t"
  shows "fromisoformat (date_text t @ ''T'' @ time_text t @ (if dt_microsecond t \<noteq> 0 then ''.'' @ pad6 (dt_microsecond t) else []) @ ''+00:00'') =
    Some (Aware (micros t))"
proof -
  let ?k = "time_text t @ (if dt_microsecond t \<noteq> 0 then ''.'' @ pad6 (dt_microsecond t) else [])"
  let ?s = "date_text t @ CHR ''T'' # ?k @ ''+00:00''"
  have "dt_year t < 10000" "dt_month t < 100" "dt_day t < 100"
    using assms by (auto simp: valid_datetime_def days_in_month_def split: if_splits)
  then have f: "field ?s 0 4 = dt_year t" "field ?s 5 2 = dt_month t" "field ?s 8 2 = dt_day t"
    by (simp_all add: field_def date_text_def nat_of_pad2 nat_of_pad4)
  have d: "list_all (\<lambda>c. \<not> sign_char c) ?k" using digit_ascii(2)
    by (auto simp: time_text_def pad6_def pad2_def sign_char_def)
  then have k: "takeWhile (\<lambda>c. \<not> sign_char c) (?k @ ''+00:00'') = ?k" "dropWhile (\<lambda>c. \<not> sign_char c) (?k @ ''+00:00'') = ''+00:00''"
    by (simp_all add: list_all_iff sign_char_def)
  have c: "drop_code_point (CHR ''T'' # ?k @ ''+00:00'') = ?k @ ''+00:00''"
    using digit_ascii(1) by (simp add: drop_code_point_def time_text_def pad2_def)
  have o: "iso_offset ''+00:00'' = Some 0"
    by (simp add: iso_offset_def iso_time_def fits_def field_def nat_of_digits_def is_digit_def less_eq_char_def)
  show ?thesis
    using f k c o date_text_digit [of t] iso_time_text [OF assms] assms
    by (simp add: fromisoformat_def Let_def valid_datetime_def micros_def unix_seconds_def)
qed

lemma modern_year:
  assumes "0 \<le> us" "us \<le> MAX_MICROS"
  shows "1000 \<le> dt_year (utc_fields us)"
proof (rule ccontr)
  obtain y m d where f: "fromordinal (nat (us div 1000000 div 86400 + 719163)) = (y, m, d)"
    by (cases "fromordinal (nat (us div 1000000 div 86400 + 719163))")
  assume "\<not> 1000 \<le> dt_year (utc_fields us)"
  then have y: "y < 1000" using f by (simp add: utc_fields_def Let_def)
  have "0 \<le> us div 1000000 div 86400" using assms by simp
  then have n: "719163 \<le> nat (us div 1000000 div 86400 + 719163)" by simp
  define k where "k = nat (us div 1000000 div 86400 + 719163)"
  have k: "719163 \<le> k" "fromordinal k = (y, m, d)" using n f by (simp_all add: k_def)
  then have "date_of k (y, m, d)" using fromordinal_date [of k] by simp
  with k(1) have "719163 \<le> toordinal y m d" "1 \<le> m" "m \<le> 12" "d \<le> days_in_month y m" by (auto simp: date_of_def)
  moreover have "days_in_month y m \<le> 31" by (simp add: days_in_month_def)
  moreover have "days_before_month y m \<le> 31 * 12"
  proof -
    have "sum_list (map (days_in_month y) [1..<m]) \<le> sum_list (map (\<lambda>_. 31) [1..<m])" by (rule sum_list_mono) (simp add: days_in_month_def)
    also have "\<dots> \<le> 31 * 12" using \<open>m \<le> 12\<close> by (simp add: sum_list_triv)
    finally show ?thesis by (simp add: days_before_month_def)
  qed
  moreover have "days_before_year (y - 1) \<le> 367 * 1000"
  proof -
    have le: "365 * z + a - b + c \<le> 367 * z" if "a \<le> z" "c \<le> z" for a b c z :: nat using that by simp
    have "days_before_year (y - 1) \<le> 367 * (y - 1)" unfolding days_before_year_def by (rule le) simp_all
    with y show ?thesis by simp
  qed
  ultimately show False by (simp add: toordinal_year)
qed

lemma parse_rfc3339_text:
  assumes "0 \<le> us" "us \<le> MAX_MICROS"
  shows "parse_rfc3339 (rfc3339_text us) = Inr (Aware us)"
proof -
  let ?t = "utc_fields us"
  have v: "valid_datetime ?t" "micros ?t = us" using utc_fields_ok [of us] assms by (simp_all add: MIN_MICROS_def)
  let ?f = "if dt_microsecond ?t \<noteq> 0 then ''.'' @ rstrip (CHR ''0'') (pad6 (dt_microsecond ?t)) else []"
  have "list_all plain_char (date_text ?t)" "list_all plain_char (time_text ?t)" "list_all plain_char ?f"
    using text_plain [of ?t] plain_pads(3) rstrip_subset [of "CHR ''0''" "pad6 (dt_microsecond ?t)"]
    by (auto simp: list_all_iff plain_char_def [of "CHR ''.''"])
  then have z: "CHR ''Z'' \<notin> set (date_text ?t)" "CHR ''Z'' \<notin> set (time_text ?t)" "CHR ''Z'' \<notin> set ?f"
    using plain_char_not(2) by (auto simp: list_all_iff)
  have "replace_z ''T'' = ''T''" "replace_z ''Z'' = ''+00:00''" by (simp_all add: replace_z_def)
  then have "replace_z (rfc3339_text us) = date_text ?t @ ''T'' @ time_text ?t @ ?f @ ''+00:00''"
    unfolding rfc3339_text_split [OF modern_year [OF assms]] replace_z_append by (simp only: z [THEN replace_z_id])
  with six_digits_text [OF v(1)] fromisoformat_text [OF v(1)] v(2) show ?thesis by (simp only: parse_rfc3339_def) simp
qed

section \<open>The export API\<close>

record api_response =
  ap_status :: int
  ap_text :: string
  ap_request_id :: string

definition set_http_header :: "string \<Rightarrow> string \<Rightarrow> (string \<times> string) list" where
  "set_http_header api_key version =
     [(''Content-Type'', ''application/json''), (''User-Agent'', ''Shopmonkey EDS Server/'' @ version)]
     @ (if api_key \<noteq> [] then [(''Authorization'', ''Bearer '' @ api_key)] else [])"

text \<open>The text of a JSON value in a format string; \<open>py_str\<close> is \<open>str\<close> on the values that are not strings.\<close>

definition text_of :: "(pyval \<Rightarrow> string) \<Rightarrow> pyval option \<Rightarrow> string" where
  "text_of py_str v = (case v of None \<Rightarrow> [] | Some (PStr s) \<Rightarrow> s | Some x \<Rightarrow> py_str x)"

definition handle_api_error :: "(pyval \<Rightarrow> string) \<Rightarrow> api_response \<Rightarrow> string \<Rightarrow> rexc" where
  "handle_api_error py_str resp context =
     (let tag = (if ap_request_id resp \<noteq> [] then ''(requestId='' @ ap_request_id resp @ '')'' else []) in
      case loads opts_default (ap_text resp) of
        Some (PDict m) \<Rightarrow> ApiStatusError (context @ '': '' @ text_of py_str (dget m ''message'') @ '' '' @ tag) (ap_status resp)
      | _ \<Rightarrow> ApiStatusError (context @ '': '' @ ap_text resp @ '' (status code='' @ str_int (ap_status resp) @ '') '' @ tag) (ap_status resp))"

definition decode_api_response :: "(pyval \<Rightarrow> string) \<Rightarrow> api_response \<Rightarrow> rexc + pyval" where
  "decode_api_response py_str resp =
     (case loads opts_default (ap_text resp) of
        None \<Rightarrow> Inl (OtherErr ''error decoding response: invalid JSON'')
      | Some (PDict m) \<Rightarrow>
          if (case dget m ''success'' of None \<Rightarrow> True | Some v \<Rightarrow> falsy v)
          then Inl (OtherErr (''api error: '' @ text_of py_str (dget m ''message'')))
          else Inr (case dget m ''data'' of None \<Rightarrow> PDict [] | Some v \<Rightarrow> if falsy v then PDict [] else v)
      | Some _ \<Rightarrow> Inl (OtherErr (''object has no attribute '' @ [SQ] @ ''get'' @ [SQ])))"

definition value_get :: "pyval \<Rightarrow> string \<Rightarrow> rexc + pyval option" where
  "value_get v k =
     (case v of PDict d \<Rightarrow> Inr (dget d k) | _ \<Rightarrow> Inl (OtherErr (''object has no attribute '' @ [SQ] @ ''get'' @ [SQ])))"

text \<open>\<open>create_export_job\<close>: the body leaves out what is empty; the answer of the retrying request is given.\<close>

definition export_body :: "string list \<Rightarrow> string list \<Rightarrow> string list \<Rightarrow> int option \<Rightarrow> pydict" where
  "export_body tables company_ids location_ids time_offset_ms =
     (case time_offset_ms of None \<Rightarrow> [] | Some t \<Rightarrow> [(''timeOffset'', PInt t)])
     @ (if company_ids \<noteq> [] then [(''companyIds'', PList (map PStr company_ids))] else [])
     @ (if location_ids \<noteq> [] then [(''locationIds'', PList (map PStr location_ids))] else [])
     @ (if tables \<noteq> [] then [(''tables'', PList (map PStr tables))] else [])"

definition create_export_job :: "(pyval \<Rightarrow> string) \<Rightarrow> rexc + api_response \<Rightarrow> rexc + string" where
  "create_export_job py_str sent =
     andthen sent (\<lambda>resp.
       if ap_status resp \<noteq> 200 then Inl (handle_api_error py_str resp ''import'')
       else andthen (decode_api_response py_str resp) (\<lambda>data. andthen (value_get data ''jobId'') (\<lambda>j. Inr (text_of py_str j))))"

text \<open>\<open>ExportJobResponse.from_data\<close> and \<open>_fetch_export_job\<close>.\<close>

definition strings_of :: "(pyval \<Rightarrow> string) \<Rightarrow> pyval option \<Rightarrow> rexc + string list" where
  "strings_of py_str v =
     (case v of
        None \<Rightarrow> Inr []
      | Some (PList xs) \<Rightarrow> Inr (map (\<lambda>x. text_of py_str (Some x)) xs)
      | Some (PDict d) \<Rightarrow> Inr (dkeys d)
      | Some (PStr s) \<Rightarrow> Inr (map (\<lambda>c. [c]) s)
      | Some x \<Rightarrow> if falsy x then Inr [] else Inl (OtherErr ''object is not iterable''))"

definition table_data :: "(pyval \<Rightarrow> string) \<Rightarrow> string \<times> pyval \<Rightarrow> rexc + string \<times> export_table" where
  "table_data py_str p =
     andthen (value_get (snd p) ''error'') (\<lambda>err.
     andthen (value_get (snd p) ''status'') (\<lambda>status.
     andthen (value_get (snd p) ''urls'') (\<lambda>u.
     andthen (strings_of py_str u) (\<lambda>urls.
     andthen (value_get (snd p) ''cursor'') (\<lambda>cursor.
       Inr (fst p, \<lparr>et_error = text_of py_str err, et_status = text_of py_str status, et_urls = urls, et_cursor = text_of py_str cursor\<rparr>))))))"

definition job_of_data :: "(pyval \<Rightarrow> string) \<Rightarrow> pyval \<Rightarrow> rexc + export_job" where
  "job_of_data py_str data =
     andthen (value_get data ''tables'') (\<lambda>ts.
     andthen (case ts of
                None \<Rightarrow> Inr []
              | Some (PDict d) \<Rightarrow> mapM (table_data py_str) d
              | Some v \<Rightarrow> if falsy v then Inr [] else Inl (OtherErr (''object has no attribute '' @ [SQ] @ ''items'' @ [SQ]))) (\<lambda>tables.
     andthen (value_get data ''completed'') (\<lambda>c.
       Inr \<lparr>ej_completed = (case c of None \<Rightarrow> False | Some v \<Rightarrow> \<not> falsy v), ej_tables = tables\<rparr>)))"

definition fetch_export_job :: "(pyval \<Rightarrow> string) \<Rightarrow> rexc + api_response \<Rightarrow> rexc + export_job" where
  "fetch_export_job py_str sent =
     andthen sent (\<lambda>resp.
       if ap_status resp \<noteq> 200 then Inl (handle_api_error py_str resp ''import'')
       else andthen (decode_api_response py_str resp) (job_of_data py_str))"

section \<open>Downloads\<close>

text \<open>\<open>urlsplit(url).path\<close>, with the checks of the network location as in \<^const>\<open>urlsplit_scheme\<close>.\<close>

definition urlsplit_path :: "(string \<Rightarrow> unit res) \<Rightarrow> string \<Rightarrow> string res" where
  "urlsplit_path check url =
     (let url = filter (\<lambda>c. c \<notin> {TAB, CR, NL}) (dropWhile (\<lambda>c. of_char c \<le> (0x20 :: nat)) url);
          (pre, colon, post) = partition_at (CHR '':'') url;
          rest = (if colon \<and> pre \<noteq> [] \<and> is_alpha (hd url) \<and> list_all is_scheme_char pre then post else url);
          ends = (\<lambda>c. c \<in> {CHR ''/'', CHR ''?'', CHR ''#''});
          netloc = (if prefix ''//'' rest then takeWhile (\<lambda>c. \<not> ends c) (drop 2 rest) else []);
          path = (if prefix ''//'' rest then dropWhile (\<lambda>c. \<not> ends c) (drop 2 rest) else rest)
      in andthen (check netloc) (\<lambda>_. Inr (takeWhile (\<lambda>c. c \<noteq> CHR ''?'' \<and> c \<noteq> CHR ''#'') path)))"

text \<open>\<open>int(s)\<close> of a text: white space around it, a sign, digits with single underscores between them.\<close>

definition py_int :: "string \<Rightarrow> int option" where
  "py_int s =
     (let s = strip s; signed = (take 1 s = ''+'' \<or> take 1 s = ''-''); body = (if signed then drop 1 s else s);
          groups = split_on (CHR ''_'') body
      in if list_all (\<lambda>g. g \<noteq> [] \<and> list_all is_digit g) groups \<and> length (concat groups) \<le> 4300
         then Some (if take 1 s = ''-'' then - int (nat_of_digits (concat groups)) else int (nat_of_digits (concat groups)))
         else None)"

record http_response =
  rs_status :: int
  rs_reason :: string
  rs_content :: string

text \<open>\<open>download_file\<close>, with the request and the file system as operations.\<close>

record 'w dl_ops =
  dl_check :: "string \<Rightarrow> unit res"
  dl_get :: "string \<Rightarrow> 'w \<Rightarrow> http_response res \<times> 'w"
  dl_write :: "string \<Rightarrow> string \<Rightarrow> 'w \<Rightarrow> unit res \<times> 'w"

definition download_file :: "'w dl_ops \<Rightarrow> string \<Rightarrow> string \<Rightarrow> 'w \<Rightarrow> nat res \<times> 'w" where
  "download_file D directory url w =
     (case urlsplit_path (dl_check D) url of
        Inl e \<Rightarrow> (Inl e, w)
      | Inr path \<Rightarrow>
          andthen_st (dl_get D url w) (\<lambda>resp w1.
            if rs_status resp \<noteq> 200 then
              (Inl (RuntimeError (''error fetching data: '' @ str_int (rs_status resp) @ '' '' @ rs_reason resp)), w1)
            else andthen_st (dl_write D (path_join directory (basename path)) (rs_content resp) w1)
                   (\<lambda>_ w2. (Inr (length (rs_content resp)), w2))))"

text \<open>\<open>bulk_download_data\<close>: the final time of every table and the files to fetch; then the files, in the order in which the threads of the
  pool get to them (a permutation of their indices). The first error in the order of the files is reported. Without any file the result is empty.\<close>

fun final_nanos :: "(string \<Rightarrow> unit res) \<Rightarrow> string list \<Rightarrow> int \<Rightarrow> int res" where
  "final_nanos check [] acc = Inr acc"
| "final_nanos check (url # urls) acc =
     andthen (urlsplit_path check url) (\<lambda>path.
       let f = parse_crdb_export_file path in
       if cf_ok f then final_nanos check urls (max acc (cf_unix_nanos f))
       else Inl (RuntimeError (''unrecognized file path: '' @ basename path)))"

definition plan_table :: "(string \<Rightarrow> unit res) \<Rightarrow> string \<times> export_table \<Rightarrow> (string list \<times> string \<times> int) res" where
  "plan_table check p =
     (let (table, td) = p in
      if et_urls td = [] then
        (case py_int (et_cursor td) of
           None \<Rightarrow> Inl (RuntimeError (''error parsing timestamp value: '' @ et_cursor td))
         | Some n \<Rightarrow> andthen (nanos_to_dt n) (\<lambda>us. Inr ([], table, us)))
      else andthen (final_nanos check (et_urls td) 0) (\<lambda>n. andthen (nanos_to_dt n) (\<lambda>us. Inr (et_urls td, table, us))))"

fun run_downloads :: "'w dl_ops \<Rightarrow> string \<Rightarrow> string list \<Rightarrow> nat list \<Rightarrow> 'w \<Rightarrow> (nat \<times> nat res) list \<times> 'w" where
  "run_downloads D directory urls [] w = ([], w)"
| "run_downloads D directory urls (i # order) w =
     (case download_file D directory (urls ! i) w of
        (r, w1) \<Rightarrow> (case run_downloads D directory urls order w1 of (rs, w2) \<Rightarrow> ((i, r) # rs, w2)))"

definition first_error :: "nat \<Rightarrow> (nat \<times> nat res) list \<Rightarrow> exc option" where
  "first_error n rs =
     (case filter (\<lambda>i. case map_of rs i of Some (Inl _) \<Rightarrow> True | _ \<Rightarrow> False) [0..<n] of
        [] \<Rightarrow> None
      | i # _ \<Rightarrow> (case map_of rs i of Some (Inl e) \<Rightarrow> Some e | _ \<Rightarrow> None))"

definition bulk_download_data ::
    "'w dl_ops \<Rightarrow> (nat \<Rightarrow> 'w \<Rightarrow> nat list \<times> 'w) \<Rightarrow> (string \<times> export_table) list \<Rightarrow> string \<Rightarrow> 'w \<Rightarrow> (string \<times> int) list res \<times> 'w" where
  "bulk_download_data D order data directory w =
     (case mapM (plan_table (dl_check D)) data of
        Inl e \<Rightarrow> (Inl e, w)
      | Inr plans \<Rightarrow>
          let downloads = concat (map fst plans); tables = map snd plans in
          if downloads = [] then (Inr [], w)
          else case order (length downloads) w of
                 (ord, w1) \<Rightarrow>
                   (case run_downloads D directory downloads ord w1 of
                      (rs, w2) \<Rightarrow>
                        (case first_error (length downloads) rs of
                           Some e \<Rightarrow> (Inl (RuntimeError (''error downloading file: '' @ exc_str e)), w2)
                         | None \<Rightarrow> (Inr tables, w2))))"

text \<open>The tables of the result are those that were asked for, or there are none.\<close>

lemma nanos_to_dt_range: "nanos_to_dt n = Inr us \<Longrightarrow> MIN_MICROS \<le> us \<and> us \<le> MAX_MICROS"
  by (auto simp: nanos_to_dt_def Let_def split: if_splits)

lemma plan_table_info: "plan_table check p = Inr (urls, i) \<Longrightarrow> fst i = fst p \<and> MIN_MICROS \<le> snd i \<and> snd i \<le> MAX_MICROS"
  by (auto simp: plan_table_def andthen_Inr_conv dest: nanos_to_dt_range split: prod.splits if_splits option.splits)

lemma plan_infos:
  "mapM (plan_table check) data = Inr plans \<Longrightarrow> i \<in> snd ` set plans \<Longrightarrow> fst i \<in> fst ` set data \<and> MIN_MICROS \<le> snd i \<and> snd i \<le> MAX_MICROS"
proof (induction data arbitrary: plans)
  case (Cons p data)
  then obtain x ps where x: "plan_table check p = Inr x" "mapM (plan_table check) data = Inr ps" "plans = x # ps"
    by (auto simp: andthen_Inr_conv)
  with Cons plan_table_info [of check p "fst x" "snd x"] show ?case by auto
qed simp

lemma bulk_download_infos:
  assumes "bulk_download_data D order data directory w = (Inr infos, w')" "i \<in> set infos"
  shows "fst i \<in> fst ` set data \<and> MIN_MICROS \<le> snd i \<and> snd i \<le> MAX_MICROS"
proof -
  from assms(1) obtain plans where p: "mapM (plan_table (dl_check D)) data = Inr plans" "infos = [] \<or> infos = map snd plans"
    by (auto simp: bulk_download_data_def Let_def split: sum.splits if_splits prod.splits option.splits)
  with assms(2) have "i \<in> snd ` set plans" by auto
  then show ?thesis by (rule plan_infos [OF p(1)])
qed

section \<open>The stored times\<close>

definition TRACKER_TABLE_EXPORT_KEY :: string where
  "TRACKER_TABLE_EXPORT_KEY = ''table-export''"

definition export_info_json :: "string \<times> int \<Rightarrow> string" where
  "export_info_json i =
     [CHR ''{'', DQ] @ ''Table'' @ [DQ, CHR '':''] @ encode_string (fst i) @ [CHR '','', DQ] @ ''Timestamp'' @ [DQ, CHR '':''] @
     encode_string (rfc3339_text (snd i)) @ ''}''"

definition marshal_table_export_info :: "(string \<times> int) list \<Rightarrow> string" where
  "marshal_table_export_info infos = ''['' @ join '','' (map export_info_json infos) @ '']''"

text \<open>\<open>for item in data\<close> on what \<open>json.loads\<close> returns, \<open>item.get\<close>, and the truth of a value.\<close>

definition items_of :: "pyval \<Rightarrow> pyval list res" where
  "items_of v =
     (case v of
        PList xs \<Rightarrow> Inr xs
      | PDict d \<Rightarrow> Inr (map (\<lambda>p. PStr (fst p)) d)
      | PStr s \<Rightarrow> Inr (if s = [] then [] else [PStr s])
      | _ \<Rightarrow> Inl (TypeError ''object is not iterable''))"

definition item_get :: "pyval \<Rightarrow> string \<Rightarrow> pyval option res" where
  "item_get item k =
     (case item of PDict d \<Rightarrow> Inr (dget d k) | _ \<Rightarrow> Inl (AttributeError (''object has no attribute '' @ [SQ] @ ''get'' @ [SQ])))"

text \<open>\<open>parse_rfc3339(str(ts))\<close>; the text of a list, an object, a float or a truth value is no time.\<close>

definition parse_stamp :: "pyval \<Rightarrow> moment res" where
  "parse_stamp ts =
     (case ts of PStr s \<Rightarrow> parse_rfc3339 s | PInt n \<Rightarrow> parse_rfc3339 (str_int n) | _ \<Rightarrow> Inl (ValueError ''Invalid isoformat string''))"

definition stored_items :: "string \<Rightarrow> pyval list res" where
  "stored_items val = (case loads opts_default val of None \<Rightarrow> Inl (ValueError ''invalid JSON'') | Some v \<Rightarrow> items_of v)"

text \<open>\<open>load_table_export_info\<close> of the import: an entry without a time has the epoch.\<close>

definition load_info :: "pyval \<Rightarrow> (pyval \<times> moment) res" where
  "load_info item =
     andthen (item_get item ''Timestamp'') (\<lambda>ts.
     andthen (case ts of None \<Rightarrow> Inr (Aware 0) | Some v \<Rightarrow> if falsy v then Inr (Aware 0) else parse_stamp v) (\<lambda>when.
     andthen (item_get item ''Table'') (\<lambda>table. Inr (case table of None \<Rightarrow> PStr [] | Some v \<Rightarrow> v, when))))"

definition load_table_export_info :: "int \<Rightarrow> tracker \<Rightarrow> (pyval \<times> moment) list option res \<times> tracker" where
  "load_table_export_info clk t =
     andthen_st (get_key clk (codes TRACKER_TABLE_EXPORT_KEY) t) (\<lambda>(found, val) t1.
       if \<not> found then (Inr None, t1)
       else (andthen (stored_items val) (\<lambda>items. andthen (mapM load_info items) (\<lambda>infos. Inr (Some infos))), t1))"

text \<open>\<open>_load_table_export_info\<close> of the consumer process: a time that cannot be read counts as none, and a later entry of a table replaces an
  earlier one. A table name that cannot be a key raises.\<close>

definition hashable :: "pyval \<Rightarrow> bool" where
  "hashable v = (case v of PList _ \<Rightarrow> False | PDict _ \<Rightarrow> False | _ \<Rightarrow> True)"

fun add_cutoffs :: "pyval list \<Rightarrow> (pyval \<times> moment option) list \<Rightarrow> (pyval \<times> moment option) list res" where
  "add_cutoffs [] out = Inr out"
| "add_cutoffs (item # items) out =
     andthen (item_get item ''Table'') (\<lambda>tbl.
     andthen (item_get item ''Timestamp'') (\<lambda>ts.
       let table = (case tbl of None \<Rightarrow> PStr [] | Some v \<Rightarrow> v);
           cutoff = (case ts of None \<Rightarrow> None
                     | Some v \<Rightarrow> if falsy v then None else (case parse_stamp v of Inl _ \<Rightarrow> None | Inr m \<Rightarrow> Some m))
       in if hashable table then add_cutoffs items (AList.update table cutoff out)
          else Inl (TypeError ''unhashable type'')))"

definition load_cutoffs :: "int \<Rightarrow> tracker \<Rightarrow> (pyval \<times> moment option) list option res \<times> tracker" where
  "load_cutoffs clk t =
     andthen_st (get_key clk (codes TRACKER_TABLE_EXPORT_KEY) t) (\<lambda>(found, val) t1.
       if \<not> found then (Inr None, t1)
       else (andthen (stored_items val) (\<lambda>items. andthen (add_cutoffs items []) (\<lambda>out. Inr (Some out))), t1))"

subsection \<open>Round trip\<close>

definition info_value :: "string \<times> int \<Rightarrow> pyval" where
  "info_value i = PDict [(''Table'', PStr (fst i)), (''Timestamp'', PStr (rfc3339_text (snd i)))]"

lemma encode_info: "encode False (info_value i) = Inr (export_info_json i)"
proof -
  have "encode_string ''Table'' = [DQ] @ ''Table'' @ [DQ]" "encode_string ''Timestamp'' = [DQ] @ ''Timestamp'' @ [DQ]" by code_simp+
  then show ?thesis by (simp add: info_value_def export_info_json_def item_text_def)
qed

lemma marshal_infos: "marshal False (PList (map info_value infos)) = Inr (marshal_table_export_info infos)"
proof -
  have "encode_vals False (map info_value infos) = map (\<lambda>i. Inr (export_info_json i)) infos"
    by (induction infos) (simp_all add: encode_info)
  moreover have "mapM (\<lambda>r :: string res. r) (map (\<lambda>i. Inr (export_info_json i)) infos) = Inr (map export_info_json infos)"
    by (induction infos) simp_all
  ultimately show ?thesis by (simp add: marshal_def marshal_table_export_info_def)
qed

lemma stored_infos: "stored_items (marshal_table_export_info infos) = Inr (map info_value infos)"
proof -
  have "JsonRound.plain (PList (map info_value infos))" by (simp add: list_all_iff info_value_def)
  from loads_marshal [OF this, of opts_default False] marshal_infos [of infos]
  have "loads opts_default (marshal_table_export_info infos) = Some (PList (map info_value infos))"
    by (simp add: info_value_def comp_def)
  then show ?thesis by (simp add: stored_items_def items_of_def)
qed

definition stampable :: "(string \<times> int) list \<Rightarrow> bool" where
  "stampable infos \<longleftrightarrow> (\<forall>i \<in> set infos. 0 \<le> snd i \<and> snd i \<le> MAX_MICROS)"

lemma rfc3339_text_some: "rfc3339_text us \<noteq> []"
  by (simp add: rfc3339_text_def Let_def)

lemma load_info_value: "0 \<le> snd i \<Longrightarrow> snd i \<le> MAX_MICROS \<Longrightarrow> load_info (info_value i) = Inr (PStr (fst i), Aware (snd i))"
  by (simp add: load_info_def info_value_def item_get_def parse_stamp_def parse_rfc3339_text rfc3339_text_some)

lemma load_infos: "stampable infos \<Longrightarrow> mapM load_info (map info_value infos) = Inr (map (\<lambda>i. (PStr (fst i), Aware (snd i))) infos)"
  by (induction infos) (simp_all add: stampable_def load_info_value)

definition cutoffs_of :: "(string \<times> int) list \<Rightarrow> (pyval \<times> moment option) list" where
  "cutoffs_of infos = fold (\<lambda>i. AList.update (PStr (fst i)) (Some (Aware (snd i)))) infos []"

lemma add_cutoffs_infos:
  "stampable infos \<Longrightarrow> add_cutoffs (map info_value infos) out = Inr (fold (\<lambda>i. AList.update (PStr (fst i)) (Some (Aware (snd i)))) infos out)"
proof (induction infos arbitrary: out)
  case (Cons i infos)
  then show ?case
    by (simp add: stampable_def info_value_def item_get_def hashable_def parse_stamp_def parse_rfc3339_text rfc3339_text_some)
qed simp

lemma cutoffs_fold_lookup:
  "dget (fold (\<lambda>i. AList.update (PStr (fst i)) (Some (Aware (snd i)))) infos out) (PStr table) =
   (case dget (rev infos) table of None \<Rightarrow> dget out (PStr table) | Some us \<Rightarrow> Some (Some (Aware us)))"
  by (induction infos arbitrary: out) (auto simp: update_conv' map_add_def split: option.splits)

lemma cutoffs_of_lookup: "dget (cutoffs_of infos) (PStr table) = map_option (\<lambda>us. Some (Aware us)) (dget (rev infos) table)"
  by (simp add: cutoffs_of_def cutoffs_fold_lookup split: option.splits)

lemma read_back:
  assumes "set_key now (codes TRACKER_TABLE_EXPORT_KEY) (marshal_table_export_info infos) 0 t = (Inr (), t')" "stampable infos"
  shows "\<exists>t1. load_table_export_info later t' = (Inr (Some (map (\<lambda>i. (PStr (fst i), Aware (snd i))) infos)), t1)"
    "\<exists>t1. load_cutoffs later t' = (Inr (Some (cutoffs_of infos)), t1)"
proof -
  have g: "\<exists>t1. get_key later (codes TRACKER_TABLE_EXPORT_KEY) t' = (Inr (True, marshal_table_export_info infos), t1)"
    using assms(1) by (auto simp: set_key_def get_key_def kv_get_def kv_put_def deadline_def row_expired_def split: if_splits)
  then obtain t1 where "get_key later (codes TRACKER_TABLE_EXPORT_KEY) t' = (Inr (True, marshal_table_export_info infos), t1)" by blast
  then show "\<exists>t1. load_table_export_info later t' = (Inr (Some (map (\<lambda>i. (PStr (fst i), Aware (snd i))) infos)), t1)"
    "\<exists>t1. load_cutoffs later t' = (Inr (Some (cutoffs_of infos)), t1)"
    using load_infos [OF assms(2)] add_cutoffs_infos [OF assms(2), of "[]"]
    by (simp_all add: load_table_export_info_def load_cutoffs_def stored_infos cutoffs_of_def)
qed

text \<open>C38: The times up to which tables were exported, once stored in the tracker, read back at any later time as the same tables and instants: by the
  import that reloads a directory as the list that was stored, and by the consumer process as the cutoff of every table, the last one where a
  table occurs twice.\<close>

theorem cutoffs_round_trip:
  assumes "set_key now (codes TRACKER_TABLE_EXPORT_KEY) (marshal_table_export_info infos) 0 t = (Inr (), t')" "stampable infos"
  shows "(\<exists>t1. load_table_export_info later t' = (Inr (Some (map (\<lambda>i. (PStr (fst i), Aware (snd i))) infos)), t1)) \<and>
    (\<exists>d t1. load_cutoffs later t' = (Inr (Some d), t1) \<and>
      (\<forall>table. dget d (PStr table) = map_option (\<lambda>us. Some (Aware us)) (dget (rev infos) table)))"
  using read_back [OF assms, of later] cutoffs_of_lookup by blast

theorem cutoffs_round_trip_witness:
  "\<exists>d t1. load_cutoffs 7 (snd (set_key 3 (codes TRACKER_TABLE_EXPORT_KEY) (marshal_table_export_info [(''a'', 1), (''a'', 1700000000000005)]) 0
      \<lparr>kv = [], tracker_closed = False\<rparr>)) = (Inr (Some d), t1) \<and> dget d (PStr ''a'') = Some (Some (Aware 1700000000000005))"
proof -
  let ?i = "[(''a'', 1), (''a'', 1700000000000005)]"
  obtain t' where t: "set_key 3 (codes TRACKER_TABLE_EXPORT_KEY) (marshal_table_export_info ?i) 0 \<lparr>kv = [], tracker_closed = False\<rparr> = (Inr (), t')"
    by (simp add: set_key_def)
  have "stampable ?i" by (simp add: stampable_def MAX_MICROS_def)
  with cutoffs_round_trip [OF t, of 7] obtain d t1 where "load_cutoffs 7 t' = (Inr (Some d), t1)"
    "\<forall>table. dget d (PStr table) = map_option (\<lambda>us. Some (Aware us)) (dget (rev ?i) table)" by blast
  with t show ?thesis by auto
qed

end
