(* ===== verification/Hash.thy ===== *)
theory Hash
  imports Prelude "HOL-Library.Word"
begin

unbundle bit_operations_syntax

text \<open>
  \<open>eds/util/hash.py\<close>: the text that is hashed, and the 32-bit FNV-1a hash by which a key is mapped to a
  partition. The source computes with unbounded integers and masks every product; \<open>fnv1a_word\<close> shows that
  this is the hash on 32-bit words. The 64-bit xxHash of the digest is a library: the parameter \<open>xxh\<close> maps
  the bytes that were fed to it to the hexadecimal digest.
\<close>

text \<open>The values that are hashed; any other value is known by the name of its type.\<close>

datatype hash_val = HNone | HBool bool | HInt int | HStr string | HOther string

fun go_plus_v :: "hash_val \<Rightarrow> string res" where
  "go_plus_v HNone = Inr ''<nil>''"
| "go_plus_v (HBool b) = Inr (if b then ''true'' else ''false'')"
| "go_plus_v (HInt i) = Inr (str_int i)"
| "go_plus_v (HStr s) = Inr s"
| "go_plus_v (HOther t) = Inl (NotImplementedError (''Go %+v not implemented for '' @ t @ '' ''
     @ [CHR 0xE2, CHR 0x80, CHR 0x94] @ '' no Stage-1 production Hash call site hashes it''))"

definition hash_vals :: "(string \<Rightarrow> string) \<Rightarrow> hash_val list \<Rightarrow> string res" where
  "hash_vals xxh vals = andthen (mapM go_plus_v vals) (\<lambda>ts. Inr (xxh (concat ts)))"

definition FNV32_OFFSET :: int where "FNV32_OFFSET = 0x811C9DC5"
definition FNV32_PRIME :: int where "FNV32_PRIME = 0x01000193"
definition UINT32_MASK :: int where "UINT32_MASK = 0xFFFFFFFF"

definition fnv_step :: "int \<Rightarrow> char \<Rightarrow> int" where
  "fnv_step h b = ((h XOR of_char b) * FNV32_PRIME) AND UINT32_MASK"

definition fnv1a_32 :: "string \<Rightarrow> int" where
  "fnv1a_32 data = foldl fnv_step FNV32_OFFSET data"

definition modulo :: "string \<Rightarrow> int \<Rightarrow> int res" where
  "modulo v num =
     (if num = 0 then Inl ZeroDivisionError
      else let partition = fnv1a_32 v mod num in Inr (if partition < 0 then - partition else partition))"

section \<open>The hash on words\<close>

definition fnv_word_step :: "32 word \<Rightarrow> char \<Rightarrow> 32 word" where
  "fnv_word_step h b = (h XOR word_of_nat (of_char b)) * 0x01000193"

lemma fnv_step_word: "fnv_step (uint h) b = uint (fnv_word_step h b)"
proof -
  have b: "uint (word_of_nat (of_char b) :: 32 word) = of_char b"
  proof -
    have "of_char b < (256 :: nat)" by (metis of_char_mod_256 mod_less_divisor zero_less_numeral)
    then have "of_char b < (2 :: nat) ^ 32" by (rule order.strict_trans) simp
    then have "take_bit 32 (of_char b :: nat) = of_char b" by (rule take_bit_nat_eq_self)
    then show ?thesis unfolding unsigned_of_nat by (simp add: of_nat_of_char)
  qed
  have m: "UINT32_MASK = mask 32" by (simp add: UINT32_MASK_def mask_eq_exp_minus_1)
  show ?thesis
    by (simp add: fnv_step_def fnv_word_step_def m FNV32_PRIME_def unsigned_xor_eq b uint_word_ariths
        take_bit_eq_mod flip: take_bit_eq_mask)
qed

theorem fnv1a_word: "fnv1a_32 data = uint (foldl fnv_word_step (0x811C9DC5 :: 32 word) data)"
proof -
  have "foldl fnv_step (uint h) data = uint (foldl fnv_word_step h data)" for h
    by (induction data arbitrary: h) (simp_all add: fnv_step_word)
  from this [of "0x811C9DC5"] show ?thesis by (simp add: fnv1a_32_def FNV32_OFFSET_def)
qed

lemma fnv1a_bounds: "0 \<le> fnv1a_32 data" "fnv1a_32 data < 2 ^ 32"
  using unsigned_less [of "foldl fnv_word_step 0x811C9DC5 data"] by (simp_all add: fnv1a_word)

lemma modulo_bounds: "0 < num \<Longrightarrow> \<exists>p. modulo v num = Inr p \<and> 0 \<le> p \<and> p < num"
  using pos_mod_sign [of num "fnv1a_32 v"] by (simp add: modulo_def Let_def not_less [symmetric])

end
