(* ===== verification/Wrapper.thy ===== *)
theory Wrapper
  imports Prelude
begin

text \<open>
  \<open>_run_wrapper_loop\<close> of \<open>eds/cmd/server.py\<close> with \<open>eds/cmd/exit_codes.py\<close>: the supervisor that starts the server as a
  child process, waits for an event and starts it again.

  The state has the position of the main thread, the queue of events, the children and the exits that the waiter
  threads have not yet reported; \<open>wstep\<close> has a rule for each step of the main thread and for each thing that may happen
  meanwhile: a child exits, a waiter reports an exit, a restart is requested, a signal arrives. The theorems are
  invariants of the reachable states, that the supervisor can always come to an end, and two races of a restart.
\<close>

section \<open>Exit codes\<close>

definition EXIT_SUCCESS :: int where "EXIT_SUCCESS = 0"
definition EXIT_ERROR :: int where "EXIT_ERROR = 1"
definition EXIT_PANIC :: int where "EXIT_PANIC = 2"
definition EXIT_INCORRECT_USAGE :: int where "EXIT_INCORRECT_USAGE = 3"
definition EXIT_RESTART :: int where "EXIT_RESTART = 4"
definition EXIT_NATS_DISCONNECTED :: int where "EXIT_NATS_DISCONNECTED = 5"
definition MAX_FAILURES :: nat where "MAX_FAILURES = 5"

section \<open>The supervisor\<close>

datatype wrapper_event = Restart | Shutdown | Exited int

datatype wrapper_pc = AtLoop | AtWait | AtTerminate | AtDrain | AtShutdown | AtExit | AtCrash

text \<open>\<open>wr_dead\<close> has the children that have exited and are not yet reported; \<open>wr_restarts\<close>, \<open>wr_slept\<close> and \<open>wr_taken\<close> record the
  restarts that were carried out, the pauses and the events that the main thread has taken from its queue.\<close>

record wrapper =
  wr_pc :: wrapper_pc
  wr_failures :: nat
  wr_exit_code :: int
  wr_completed :: bool
  wr_queue :: "wrapper_event list"
  wr_current :: nat
  wr_spawned :: nat
  wr_running :: "nat list"
  wr_dead :: "(nat \<times> int) list"
  wr_signalled :: bool
  wr_restarts :: nat
  wr_slept :: "nat list"
  wr_taken :: "wrapper_event list"

definition wrapper_init :: wrapper where
  "wrapper_init = \<lparr>wr_pc = AtLoop, wr_failures = 0, wr_exit_code = 1, wr_completed = False, wr_queue = [], wr_current = 0,
     wr_spawned = 0, wr_running = [], wr_dead = [], wr_signalled = False, wr_restarts = 0, wr_slept = [], wr_taken = []\<rparr>"

definition again :: "wrapper \<Rightarrow> bool" where
  "again s \<longleftrightarrow> wr_failures s < MAX_FAILURES \<and> \<not> wr_completed s"

definition alive :: "wrapper \<Rightarrow> bool" where
  "alive s \<longleftrightarrow> wr_pc s \<noteq> AtExit \<and> wr_pc s \<noteq> AtCrash"

text \<open>A child ends, by itself or because it is terminated.\<close>

definition child_ends :: "nat \<Rightarrow> int \<Rightarrow> wrapper \<Rightarrow> wrapper" where
  "child_ends p c s = (if p \<in> set (wr_running s)
     then s\<lparr>wr_running := remove1 p (wr_running s), wr_dead := wr_dead s @ [(p, c)]\<rparr> else s)"

definition exited :: "int \<Rightarrow> wrapper \<Rightarrow> wrapper" where
  "exited c s =
     (if c = EXIT_SUCCESS \<or> c = 1 then s\<lparr>wr_pc := AtLoop, wr_exit_code := c, wr_completed := True\<rparr>
      else s\<lparr>wr_pc := AtLoop, wr_exit_code := c, wr_failures := Suc (wr_failures s), wr_slept := wr_slept s @ [Suc (wr_failures s)]\<rparr>)"

inductive wstep :: "wrapper \<Rightarrow> wrapper \<Rightarrow> bool" where
  spawn: "\<lbrakk>wr_pc s = AtLoop; again s\<rbrakk> \<Longrightarrow> wstep s (s\<lparr>wr_pc := AtWait, wr_current := wr_spawned s,
      wr_spawned := Suc (wr_spawned s), wr_running := wr_running s @ [wr_spawned s]\<rparr>)"
| spawn_error: "\<lbrakk>wr_pc s = AtLoop; again s\<rbrakk> \<Longrightarrow> wstep s (s\<lparr>wr_pc := AtCrash\<rparr>)"
| leave: "\<lbrakk>wr_pc s = AtLoop; \<not> again s\<rbrakk> \<Longrightarrow> wstep s (s\<lparr>wr_pc := AtExit\<rparr>)"
| take_restart: "\<lbrakk>wr_pc s = AtWait; wr_queue s = Restart # q\<rbrakk> \<Longrightarrow> wstep s (s\<lparr>wr_queue := q, wr_taken := wr_taken s @ [Restart], wr_pc := AtTerminate\<rparr>)"
| terminate: "wr_pc s = AtTerminate \<Longrightarrow> wstep s ((child_ends (wr_current s) c s)\<lparr>wr_pc := AtDrain\<rparr>)"
| drain: "wr_pc s = AtDrain \<Longrightarrow> wstep s (s\<lparr>wr_queue := [], wr_pc := AtLoop, wr_restarts := Suc (wr_restarts s)\<rparr>)"
| take_shutdown: "\<lbrakk>wr_pc s = AtWait; wr_queue s = Shutdown # q\<rbrakk> \<Longrightarrow> wstep s (s\<lparr>wr_queue := q, wr_taken := wr_taken s @ [Shutdown], wr_pc := AtShutdown\<rparr>)"
| finish_shutdown: "wr_pc s = AtShutdown \<Longrightarrow>
    wstep s ((child_ends (wr_current s) c s)\<lparr>wr_pc := AtLoop, wr_exit_code := EXIT_SUCCESS, wr_completed := True\<rparr>)"
| take_exited: "\<lbrakk>wr_pc s = AtWait; wr_queue s = Exited c # q\<rbrakk> \<Longrightarrow> wstep s (exited c (s\<lparr>wr_queue := q, wr_taken := wr_taken s @ [Exited c]\<rparr>))"
| child_exit: "p \<in> set (wr_running s) \<Longrightarrow> wstep s (child_ends p c s)"
| report: "\<lbrakk>alive s; (p, c) \<in> set (wr_dead s)\<rbrakk>
    \<Longrightarrow> wstep s (s\<lparr>wr_dead := remove1 (p, c) (wr_dead s), wr_queue := wr_queue s @ [Exited c]\<rparr>)"
| request: "alive s \<Longrightarrow> wstep s (s\<lparr>wr_queue := wr_queue s @ [Restart]\<rparr>)"
| signal: "\<lbrakk>alive s; \<not> wr_signalled s\<rbrakk> \<Longrightarrow> wstep s (s\<lparr>wr_signalled := True, wr_queue := wr_queue s @ [Shutdown]\<rparr>)"

abbreviation wreach :: "wrapper \<Rightarrow> bool" where
  "wreach s \<equiv> wstep\<^sup>*\<^sup>* wrapper_init s"

lemmas wrapper_defs = again_def alive_def child_ends_def exited_def EXIT_SUCCESS_def MAX_FAILURES_def

section \<open>Invariants\<close>

text \<open>The main thread is between the start of a child and the end of its round.\<close>

fun in_round :: "wrapper_pc \<Rightarrow> bool" where
  "in_round AtLoop = False"
| "in_round AtExit = False"
| "in_round AtCrash = False"
| "in_round _ = True"

definition backoffs :: "nat \<Rightarrow> nat list" where
  "backoffs n = [1..<Suc n]"

lemma backoffs_Suc: "backoffs (Suc n) = backoffs n @ [Suc n]"
  by (simp add: backoffs_def)

text \<open>An exit that counts as a failure.\<close>

fun failed_exit :: "wrapper_event \<Rightarrow> bool" where
  "failed_exit (Exited c) = (c \<noteq> 0 \<and> c \<noteq> 1)"
| "failed_exit _ = False"

text \<open>How the last event taken decides about the end: \<open>ended_by s\<close> when the supervisor leaves its loop.\<close>

definition ended_by :: "wrapper \<Rightarrow> bool" where
  "ended_by s \<longleftrightarrow> wr_taken s \<noteq> [] \<and> last (wr_taken s) \<noteq> Restart \<and> (last (wr_taken s) = Shutdown \<longrightarrow> wr_exit_code s = 0) \<and>
     (\<forall>c. last (wr_taken s) = Exited c \<longrightarrow> wr_exit_code s = c \<and> (c = 0 \<or> c = 1 \<or> wr_failures s = 5))"

definition wrapper_inv :: "wrapper \<Rightarrow> bool" where
  "wrapper_inv s \<longleftrightarrow> wr_failures s \<le> 5 \<and> wr_slept s = backoffs (wr_failures s)
     \<and> wr_spawned s = wr_failures s + wr_restarts s + (if wr_completed s \<or> in_round (wr_pc s) then 1 else 0)
     \<and> (wr_completed s \<longrightarrow> wr_pc s = AtLoop \<or> wr_pc s = AtExit)
     \<and> (wr_pc s = AtExit \<longrightarrow> wr_completed s \<or> wr_failures s = 5)
     \<and> (in_round (wr_pc s) \<longrightarrow> wr_failures s < 5 \<and> \<not> wr_completed s)"

lemma wrapper_inv_init: "wrapper_inv wrapper_init"
  by (simp add: wrapper_inv_def wrapper_init_def backoffs_def)

lemma wrapper_inv_step: "wstep s s' \<Longrightarrow> wrapper_inv s \<Longrightarrow> wrapper_inv s'"
  by (cases rule: wstep.cases, assumption)
     (simp_all add: wrapper_inv_def wrapper_defs backoffs_Suc split: if_splits, (auto)?)

lemma wrapper_inv_reach: "wreach s \<Longrightarrow> wrapper_inv s"
  by (induction rule: rtranclp_induct) (auto simp: wrapper_inv_init wrapper_inv_step)

text \<open>What the counters say of the events taken.\<close>

definition taken_inv :: "wrapper \<Rightarrow> bool" where
  "taken_inv s \<longleftrightarrow> wr_failures s = length (filter failed_exit (wr_taken s))
     \<and> wr_restarts s + (if wr_pc s = AtTerminate \<or> wr_pc s = AtDrain then 1 else 0) = count_list (wr_taken s) Restart"

lemma taken_inv_step: "wstep s s' \<Longrightarrow> taken_inv s \<Longrightarrow> taken_inv s'"
  by (cases rule: wstep.cases, assumption) (auto simp: taken_inv_def wrapper_defs)

lemma taken_inv_reach: "wreach s \<Longrightarrow> taken_inv s"
  by (induction rule: rtranclp_induct) (auto simp: taken_inv_step, simp add: taken_inv_def wrapper_init_def)

definition ends_well :: "wrapper \<Rightarrow> bool" where
  "ends_well s \<longleftrightarrow> (wr_completed s \<or> wr_failures s = 5 \<longrightarrow> ended_by s) \<and> (wr_pc s = AtShutdown \<longrightarrow> wr_taken s \<noteq> [] \<and> last (wr_taken s) = Shutdown)"

lemma ends_well_step:
  assumes "wstep s s'" "ends_well s" "wrapper_inv s"
  shows "ends_well s'"
  using assms(1)
proof cases
  case (take_exited c q)
  with assms(3) show ?thesis by (simp add: ends_well_def ended_by_def wrapper_defs wrapper_inv_def)
qed (use assms(2,3) in \<open>auto simp: ends_well_def ended_by_def wrapper_defs wrapper_inv_def\<close>)

lemma ends_well_reach: "wreach s \<Longrightarrow> ends_well s"
proof (induction rule: rtranclp_induct)
  case base
  then show ?case by (simp add: ends_well_def wrapper_init_def)
next
  case (step s s')
  with ends_well_step wrapper_inv_reach show ?case by blast
qed

text \<open>The exits in the queue.\<close>

fun exits :: "wrapper_event list \<Rightarrow> nat" where
  "exits [] = 0"
| "exits (Exited c # q) = Suc (exits q)"
| "exits (_ # q) = exits q"

lemma exits_append [simp]: "exits (p @ q) = exits p + exits q"
  by (induction p rule: exits.induct) auto

text \<open>As long as no restart was carried out, the exit of the child is somewhere on its way exactly if the child has exited.\<close>

definition one_child :: "wrapper \<Rightarrow> bool" where
  "one_child s \<longleftrightarrow> wr_restarts s = 0 \<longrightarrow>
     (if wr_completed s then wr_running s = []
      else if in_round (wr_pc s)
      then (wr_running s = [wr_current s] \<and> wr_dead s = [] \<and> exits (wr_queue s) = 0)
         \<or> (wr_running s = [] \<and> length (wr_dead s) + exits (wr_queue s) = 1)
      else wr_running s = [] \<and> wr_dead s = [] \<and> exits (wr_queue s) = 0)"

lemma one_child_step:
  assumes "wstep s s'" "one_child s" "wrapper_inv s"
  shows "one_child s'"
  using assms(1)
proof cases
  case (report p c)
  then obtain d ds where "wr_dead s = d # ds" by (cases "wr_dead s") auto
  with report assms(2) show ?thesis
    by (auto simp: one_child_def alive_def length_remove1 split: if_splits)
next
  case (child_exit p c)
  with assms(2) show ?thesis by (auto simp: one_child_def child_ends_def split: if_splits)
qed (use assms(2,3) in \<open>auto simp: one_child_def wrapper_inv_def wrapper_defs split: if_splits\<close>)

lemma one_child_reach: "wreach s \<Longrightarrow> one_child s"
proof (induction rule: rtranclp_induct)
  case base
  then show ?case by (simp add: one_child_def wrapper_init_def)
next
  case (step s s')
  with one_child_step wrapper_inv_reach show ?case by blast
qed

section \<open>Coming to an end\<close>

text \<open>While the main thread waits, the child it waits for is running or its exit is on its way.\<close>

definition awaited :: "wrapper \<Rightarrow> bool" where
  "awaited s \<longleftrightarrow> wr_pc s = AtWait \<longrightarrow>
     wr_current s \<in> set (wr_running s) \<or> wr_current s \<in> fst ` set (wr_dead s) \<or> 0 < exits (wr_queue s)"

lemma awaited_step:
  assumes "wstep s s'" "awaited s"
  shows "awaited s'"
  using assms(1)
proof cases
  case (report p c)
  then show ?thesis by (simp add: awaited_def)
next
  case (child_exit p c)
  with assms(2) show ?thesis by (cases "p = wr_current s") (auto simp: awaited_def child_ends_def)
qed (use assms(2) in \<open>auto simp: awaited_def exited_def split: if_splits\<close>)

lemma awaited_reach: "wreach s \<Longrightarrow> awaited s"
  by (induction rule: rtranclp_induct) (auto simp: awaited_step, simp add: awaited_def wrapper_init_def)

definition can_end :: "wrapper \<Rightarrow> bool" where
  "can_end s \<longleftrightarrow> (\<exists>t. wstep\<^sup>*\<^sup>* s t \<and> wr_pc t = AtExit)"

lemma can_end_step: "wstep s s' \<Longrightarrow> can_end s' \<Longrightarrow> can_end s"
  unfolding can_end_def by (meson converse_rtranclp_into_rtranclp)

lemma can_end_leave: "wr_pc s = AtLoop \<Longrightarrow> \<not> again s \<Longrightarrow> can_end s"
proof (rule can_end_step)
  show "wr_pc s = AtLoop \<Longrightarrow> \<not> again s \<Longrightarrow> wstep s (s\<lparr>wr_pc := AtExit\<rparr>)" by (rule wstep.leave)
  show "can_end (s\<lparr>wr_pc := AtExit\<rparr>)" unfolding can_end_def by (rule exI [of _ "s\<lparr>wr_pc := AtExit\<rparr>"]) simp
qed

lemma wait_exited:
  assumes "wr_pc s = AtWait" "wr_queue s = Exited c # q"
    "\<And>t. wr_pc t = AtLoop \<Longrightarrow> wr_failures t = Suc (wr_failures s) \<Longrightarrow> can_end t"
  shows "can_end s"
proof (rule can_end_step)
  let ?t = "exited c (s\<lparr>wr_queue := q, wr_taken := wr_taken s @ [Exited c]\<rparr>)"
  show "wstep s ?t" by (rule wstep.take_exited [OF assms(1,2)])
  have pc: "wr_pc ?t = AtLoop" by (simp add: exited_def)
  show "can_end ?t"
  proof (cases "c = EXIT_SUCCESS \<or> c = 1")
    case True
    then have "\<not> again ?t" by (auto simp: exited_def again_def)
    with pc show ?thesis by (rule can_end_leave)
  next
    case False
    then have "wr_failures ?t = Suc (wr_failures s)" by (simp add: exited_def)
    with pc show ?thesis by (rule assms(3))
  qed
qed

lemma wait_running:
  assumes "wr_pc s = AtWait" "wr_queue s = []" "wr_current s \<in> set (wr_running s)"
    "\<And>t. wr_pc t = AtLoop \<Longrightarrow> wr_failures t = Suc (wr_failures s) \<Longrightarrow> can_end t"
  shows "can_end s"
proof -
  let ?p = "wr_current s"
  let ?s1 = "child_ends ?p 0 s"
  let ?s2 = "?s1\<lparr>wr_dead := remove1 (?p, 0) (wr_dead ?s1), wr_queue := wr_queue ?s1 @ [Exited 0]\<rparr>"
  have 1: "wr_pc ?s1 = AtWait" "wr_queue ?s1 = []" "(?p, 0) \<in> set (wr_dead ?s1)" "wr_failures ?s1 = wr_failures s"
    using assms(1-3) by (simp_all add: child_ends_def)
  have "can_end ?s2" by (rule wait_exited [where c = 0 and q = "[]"]) (use 1 assms(4) in auto)
  moreover have "wstep ?s1 ?s2" by (rule wstep.report) (use 1 in \<open>simp_all add: alive_def\<close>)
  moreover have "wstep s ?s1" by (rule wstep.child_exit [OF assms(3)])
  ultimately show ?thesis using can_end_step by blast
qed

lemma loop_ends:
  assumes "wr_pc s = AtLoop" "\<And>t. wr_pc t = AtWait \<Longrightarrow> awaited t \<Longrightarrow> wr_failures t = wr_failures s \<Longrightarrow> can_end t"
  shows "can_end s"
proof (cases "again s")
  case True
  let ?t = "s\<lparr>wr_pc := AtWait, wr_current := wr_spawned s, wr_spawned := Suc (wr_spawned s), wr_running := wr_running s @ [wr_spawned s]\<rparr>"
  have "wstep s ?t" by (rule wstep.spawn [OF assms(1) True])
  moreover have "can_end ?t" by (rule assms(2)) (simp_all add: awaited_def)
  ultimately show ?thesis by (rule can_end_step)
qed (rule can_end_leave [OF assms(1)])

lemma wait_ends: "wr_pc s = AtWait \<Longrightarrow> awaited s \<Longrightarrow> k = MAX_FAILURES - wr_failures s \<Longrightarrow> can_end s"
proof (induction k arbitrary: s rule: less_induct)
  case (less k)
  have later: "can_end t" if "wr_pc t = AtLoop" "wr_failures t = Suc (wr_failures s)" for t
  proof (cases "again t")
    case True
    then have f: "wr_failures t < MAX_FAILURES" by (simp add: again_def)
    show ?thesis
    proof (rule loop_ends [OF that(1)])
      fix u assume "wr_pc u = AtWait" "awaited u" "wr_failures u = wr_failures t"
      with less.IH [of "MAX_FAILURES - wr_failures u" u] f that(2) less.prems(3) show "can_end u" by simp
    qed
  qed (rule can_end_leave [OF that(1)])
  have fresh: "can_end t" if "wr_pc t = AtLoop" "wr_queue t = []" "wr_failures t = wr_failures s" for t
  proof (cases "again t")
    case True
    let ?t = "t\<lparr>wr_pc := AtWait, wr_current := wr_spawned t, wr_spawned := Suc (wr_spawned t), wr_running := wr_running t @ [wr_spawned t]\<rparr>"
    have "can_end ?t" by (rule wait_running) (use that later in simp_all)
    with wstep.spawn [OF that(1) True] show ?thesis by (rule can_end_step)
  qed (rule can_end_leave [OF that(1)])
  show ?case
  proof (cases "wr_queue s")
    case Nil
    show ?thesis
    proof (cases "wr_current s \<in> set (wr_running s)")
      case True
      show ?thesis by (rule wait_running [OF less.prems(1) Nil True]) (rule later)
    next
      case False
      with less.prems(1,2) Nil obtain c where c: "(wr_current s, c) \<in> set (wr_dead s)" by (auto simp: awaited_def)
      let ?t = "s\<lparr>wr_dead := remove1 (wr_current s, c) (wr_dead s), wr_queue := wr_queue s @ [Exited c]\<rparr>"
      have "wstep s ?t" by (rule wstep.report [OF _ c]) (use less.prems(1) in \<open>simp add: alive_def\<close>)
      moreover have "can_end ?t" by (rule wait_exited [where c = c and q = "[]"]) (use less.prems(1) Nil later in simp_all)
      ultimately show ?thesis by (rule can_end_step)
    qed
  next
    case (Cons e q)
    show ?thesis
    proof (cases e)
      case Restart
      let ?s1 = "s\<lparr>wr_queue := q, wr_taken := wr_taken s @ [Restart], wr_pc := AtTerminate\<rparr>"
      let ?s2 = "(child_ends (wr_current ?s1) 0 ?s1)\<lparr>wr_pc := AtDrain\<rparr>"
      let ?s3 = "?s2\<lparr>wr_queue := [], wr_pc := AtLoop, wr_restarts := Suc (wr_restarts ?s2)\<rparr>"
      have "wstep s ?s1" using wstep.take_restart [OF less.prems(1)] Cons Restart by simp
      moreover have "wstep ?s1 ?s2" by (rule wstep.terminate) simp
      moreover have "wstep ?s2 ?s3" by (rule wstep.drain) simp
      moreover have "can_end ?s3" by (rule fresh) (simp_all add: child_ends_def)
      ultimately show ?thesis using can_end_step by blast
    next
      case Shutdown
      let ?s1 = "s\<lparr>wr_queue := q, wr_taken := wr_taken s @ [Shutdown], wr_pc := AtShutdown\<rparr>"
      let ?s2 = "(child_ends (wr_current ?s1) 0 ?s1)\<lparr>wr_pc := AtLoop, wr_exit_code := EXIT_SUCCESS, wr_completed := True\<rparr>"
      have "wstep s ?s1" using wstep.take_shutdown [OF less.prems(1)] Cons Shutdown by simp
      moreover have "wstep ?s1 ?s2" by (rule wstep.finish_shutdown) simp
      moreover have "can_end ?s2" by (rule can_end_leave) (simp_all add: again_def)
      ultimately show ?thesis using can_end_step by blast
    next
      case (Exited c)
      show ?thesis by (rule wait_exited [OF less.prems(1)]) (use Cons Exited later in simp_all)
    qed
  qed
qed

section \<open>Properties\<close>

text \<open>C16: What the supervisor does in every reachable state, in terms of the events it has taken. Its failures are the exits with a code
  other than 0 and 1, at most five; after each it has paused one second longer than after the one before; it has carried out every restart it has taken,
  but for the one it is about to; and it has started exactly one child for each failure, one for each restart, and one more unless it is
  between two rounds. When it has ended, the last event decides: 0 for a shutdown, the code of the child for an exit with 0 or 1, and the code of the child
  also for an exit that was the fifth failure.\<close>

theorem wrapper_supervises:
  assumes "wreach s"
  shows "wr_failures s = length (filter failed_exit (wr_taken s)) \<and> wr_failures s \<le> MAX_FAILURES \<and> wr_slept s = [1..<Suc (wr_failures s)]
    \<and> wr_restarts s + (if wr_pc s = AtTerminate \<or> wr_pc s = AtDrain then 1 else 0) = count_list (wr_taken s) Restart
    \<and> wr_spawned s = wr_failures s + wr_restarts s + (if wr_completed s \<or> in_round (wr_pc s) then 1 else 0)
    \<and> (wr_pc s = AtExit \<longrightarrow> wr_taken s \<noteq> [] \<and>
        (case last (wr_taken s) of
           Restart \<Rightarrow> False
         | Shutdown \<Rightarrow> wr_exit_code s = EXIT_SUCCESS
         | Exited c \<Rightarrow> wr_exit_code s = c \<and> (c = 0 \<or> c = 1 \<or> wr_failures s = MAX_FAILURES)))"
proof -
  note i = wrapper_inv_reach [OF assms, unfolded wrapper_inv_def backoffs_def] and t = taken_inv_reach [OF assms, unfolded taken_inv_def]
  have e: "ended_by s" if "wr_pc s = AtExit" using i ends_well_reach [OF assms] that by (auto simp: ends_well_def)
  have "wr_taken s \<noteq> [] \<and> (case last (wr_taken s) of
           Restart \<Rightarrow> False
         | Shutdown \<Rightarrow> wr_exit_code s = EXIT_SUCCESS
         | Exited c \<Rightarrow> wr_exit_code s = c \<and> (c = 0 \<or> c = 1 \<or> wr_failures s = MAX_FAILURES))" if "wr_pc s = AtExit"
    using e [OF that] by (auto simp: ended_by_def EXIT_SUCCESS_def MAX_FAILURES_def split: wrapper_event.splits)
  with i t show ?thesis unfolding MAX_FAILURES_def by blast
qed

text \<open>One child at a time, as long as no restart was carried out: no two children run, and the one that runs is the one
  that is waited for.\<close>

theorem wrapper_one_child:
  assumes "wreach s" "wr_restarts s = 0"
  shows "wr_running s = [] \<or> wr_running s = [wr_current s]"
  using one_child_reach [OF assms(1)] assms(2) by (auto simp: one_child_def split: if_splits)

text \<open>C27: The supervisor can always come to an end: from every reachable state in which the start of a child has not failed
  there is a continuation in which it exits.\<close>

theorem wrapper_can_end:
  assumes "wreach s" "wr_pc s \<noteq> AtCrash"
  shows "\<exists>t. wstep\<^sup>*\<^sup>* s t \<and> wr_pc t = AtExit"
proof -
  have loop: "can_end t" if "wr_pc t = AtLoop" for t
    by (rule loop_ends [OF that]) (rule wait_ends [OF _ _ refl])
  have "can_end s"
  proof (cases "wr_pc s")
    case AtWait
    then show ?thesis by (rule wait_ends [OF _ awaited_reach [OF assms(1)] refl])
  next
    case AtTerminate
    let ?s1 = "(child_ends (wr_current s) 0 s)\<lparr>wr_pc := AtDrain\<rparr>"
    have "can_end ?s1" using can_end_step [OF wstep.drain loop] by simp
    with wstep.terminate [OF AtTerminate] show ?thesis by (rule can_end_step)
  next
    case AtShutdown
    show ?thesis by (rule can_end_step [OF wstep.finish_shutdown [OF AtShutdown] loop]) simp
  next
    case AtDrain
    show ?thesis by (rule can_end_step [OF wstep.drain [OF AtDrain] loop]) simp
  qed (use assms(2) loop in \<open>auto simp: can_end_def\<close>)
  then show ?thesis by (simp add: can_end_def)
qed

text \<open>A restart: the child is terminated, its exit is still to be reported, and the next child is started.\<close>

definition restarted :: "int \<Rightarrow> bool \<Rightarrow> wrapper" where
  "restarted c sig = wrapper_init\<lparr>wr_pc := AtWait, wr_current := 1, wr_spawned := 2, wr_running := [1], wr_dead := [(0, c)],
     wr_signalled := sig, wr_restarts := 1, wr_taken := [Restart]\<rparr>"

lemma restart_trace: "wreach (restarted c sig)"
proof -
  let ?s1 = "wrapper_init\<lparr>wr_pc := AtWait, wr_spawned := 1, wr_running := [0]\<rparr>"
  let ?s2 = "?s1\<lparr>wr_queue := [Restart]\<rparr>"
  let ?s3 = "?s1\<lparr>wr_taken := [Restart], wr_pc := AtTerminate\<rparr>"
  let ?s4 = "?s3\<lparr>wr_signalled := True, wr_queue := [Shutdown]\<rparr>"
  let ?s5 = "\<lambda>q. ?s1\<lparr>wr_taken := [Restart], wr_pc := AtDrain, wr_running := [], wr_dead := [(0, c)], wr_signalled := sig, wr_queue := q\<rparr>"
  let ?s6 = "(?s5 [])\<lparr>wr_pc := AtLoop, wr_restarts := 1\<rparr>"
  have "wstep wrapper_init ?s1" using wstep.spawn [of wrapper_init] by (simp add: wrapper_init_def wrapper_defs)
  moreover have "wstep ?s1 ?s2" using wstep.request [of ?s1] by (simp add: wrapper_init_def wrapper_defs)
  moreover have "wstep ?s2 ?s3" using wstep.take_restart [of ?s2 "[]"] by (simp add: wrapper_init_def)
  ultimately have r: "wreach ?s3" by (meson rtranclp.rtrancl_into_rtrancl rtranclp.rtrancl_refl)
  have "\<exists>q. wreach (?s5 q)"
  proof (cases sig)
    case True
    have "wstep ?s3 ?s4" using wstep.signal [of ?s3] by (simp add: wrapper_init_def wrapper_defs)
    moreover have "wstep ?s4 (?s5 [Shutdown])" using wstep.terminate [of ?s4 c] True by (simp add: wrapper_init_def wrapper_defs)
    ultimately show ?thesis using r by (meson rtranclp.rtrancl_into_rtrancl)
  next
    case False
    have "wstep ?s3 (?s5 [])" using wstep.terminate [of ?s3 c] False by (simp add: wrapper_init_def wrapper_defs)
    then show ?thesis using r by (meson rtranclp.rtrancl_into_rtrancl)
  qed
  then obtain q where q: "wreach (?s5 q)" by blast
  have "wstep (?s5 q) ?s6" using wstep.drain [of "?s5 q"] by (simp add: wrapper_init_def)
  moreover have "wstep ?s6 (restarted c sig)" using wstep.spawn [of ?s6] by (simp add: wrapper_init_def wrapper_defs restarted_def numeral_2_eq_2)
  ultimately show ?thesis using q by (meson rtranclp.rtrancl_into_rtrancl)
qed

text \<open>C36: A restart can leave two servers running. The exit of the child that was terminated can be reported after the queue
  was emptied; it is then taken for the exit of the new child, counted as a failure, and a third child is started
  while the second one runs.\<close>

theorem wrapper_two_children:
  "\<exists>s. wreach s \<and> wr_restarts s = 1 \<and> wr_failures s = 1 \<and> wr_running s = [1, 2]"
proof -
  let ?s1 = "(restarted (-15) False)\<lparr>wr_dead := [], wr_queue := [Exited (-15)]\<rparr>"
  let ?s2 = "exited (-15) (?s1\<lparr>wr_queue := [], wr_taken := [Restart, Exited (-15)]\<rparr>)"
  let ?s3 = "?s2\<lparr>wr_pc := AtWait, wr_current := 2, wr_spawned := 3, wr_running := [1, 2]\<rparr>"
  have "wstep (restarted (-15) False) ?s1"
    using wstep.report [of "restarted (-15) False" 0 "-15"] by (simp add: restarted_def wrapper_init_def wrapper_defs)
  moreover have "wstep ?s1 ?s2" using wstep.take_exited [of ?s1 "-15" "[]"] by (simp add: restarted_def wrapper_init_def)
  moreover have "wstep ?s2 ?s3" using wstep.spawn [of ?s2] by (simp add: restarted_def wrapper_init_def wrapper_defs numeral_3_eq_3)
  ultimately have "wreach ?s3" using restart_trace by (meson rtranclp.rtrancl_into_rtrancl)
  then show ?thesis by (rule exI [of _ ?s3, OF conjI]) (simp add: restarted_def wrapper_init_def wrapper_defs)
qed

lemma no_shutdown_step:
  "wstep s s' \<Longrightarrow> wr_signalled s \<and> Shutdown \<notin> set (wr_queue s) \<and> wr_pc s \<noteq> AtShutdown
    \<Longrightarrow> wr_signalled s' \<and> Shutdown \<notin> set (wr_queue s') \<and> wr_pc s' \<noteq> AtShutdown"
  by (cases rule: wstep.cases, assumption) (auto simp: child_ends_def exited_def)

text \<open>A shutdown can be lost. A signal that arrives while a restart is carried out is thrown away with the queue; the
  supervisor has then started a new child, and in no continuation does it see a shutdown.\<close>

theorem wrapper_loses_shutdown:
  "\<exists>s. wreach s \<and> wr_signalled s \<and> wr_pc s = AtWait \<and> \<not> wr_completed s \<and> wr_running s = [1]
    \<and> (\<forall>t. wstep\<^sup>*\<^sup>* s t \<longrightarrow> Shutdown \<notin> set (wr_queue t) \<and> wr_pc t \<noteq> AtShutdown)"
proof -
  let ?s = "restarted (-15) True"
  have "wr_signalled t \<and> Shutdown \<notin> set (wr_queue t) \<and> wr_pc t \<noteq> AtShutdown" if "wstep\<^sup>*\<^sup>* ?s t" for t
    using that by (induction rule: rtranclp_induct) (simp add: restarted_def wrapper_init_def, metis no_shutdown_step)
  with restart_trace [of "-15" True] show ?thesis by (intro exI [of _ ?s]) (simp add: restarted_def wrapper_init_def)
qed

theorem wrapper_supervises_witness:
  "wr_spawned (restarted 0 False) = 2 \<and> count_list (wr_taken (restarted 0 False)) Restart = 1"
  using wrapper_supervises [OF restart_trace [of 0 False]] by (simp add: restarted_def wrapper_init_def)

theorem wrapper_one_child_witness:
  "wr_running (wrapper_init\<lparr>wr_pc := AtWait, wr_spawned := 1, wr_running := [0]\<rparr>) = [] \<or>
   wr_running (wrapper_init\<lparr>wr_pc := AtWait, wr_spawned := 1, wr_running := [0]\<rparr>) = [0]"
proof -
  let ?s = "wrapper_init\<lparr>wr_pc := AtWait, wr_spawned := 1, wr_running := [0]\<rparr>"
  have "wstep wrapper_init ?s" using wstep.spawn [of wrapper_init] by (simp add: wrapper_init_def wrapper_defs)
  then have "wreach ?s" by blast
  from wrapper_one_child [OF this] show ?thesis by (simp add: wrapper_init_def)
qed

theorem wrapper_can_end_witness: "\<exists>t. wstep\<^sup>*\<^sup>* (restarted 0 True) t \<and> wr_pc t = AtExit"
  by (rule wrapper_can_end [OF restart_trace]) (simp add: restarted_def)

end
