(* ===== verification/ImportCmd.thy ===== *)
theory ImportCmd
  imports ExportInfo Hash Wrapper SqlBase
begin

text \<open>
  The import command, \<open>eds/cmd/import_cmd.py\<close>: \<open>_do_import\<close> and \<open>_do_import_with_recovery\<close>, which run the state machine of
  \<open>Recovery\<close> with the stages of \<open>ExportInfo\<close> and keep the tracker: completion markers, the record of failed tables, and the times
  up to which the tables were exported, from which the consumer process starts the stream.

  The tracker is the one of \<open>Tracker\<close>. Driver, importer and registry, which have theories of their own, API and file system are
  operations on a world. The result is
  the exit code, or an exception that leaves the command.
\<close>

section \<open>State and operations\<close>

record import_flags =
  fl_url :: string
  fl_only :: "string list"
  fl_company_ids :: "string list"
  fl_location_ids :: "string list"
  fl_time_offset_ms :: "int option"
  fl_job_id :: string
  fl_dir :: string
  fl_dry_run :: bool
  fl_no_confirm :: bool
  fl_no_delete :: bool
  fl_no_cleanup :: bool
  fl_schema_only :: bool
  fl_validate_only :: bool
  fl_single :: bool
  fl_max_retries :: "int option"

text \<open>The driver and importer of the URL (\<open>io_new_importer\<close> says whether the importer is one that deletes nothing), the prompt, the number of retries
  in the configuration file, the registry, the requests of the API and the answers to the requests for the state
  of a job (each with the cancel flag as seen after it), temporary directories, downloads, the run of the
  importer, the clock and the cancel flag.\<close>

record 'w imp_ops =
  io_new_driver :: "'w \<Rightarrow> unit res \<times> 'w"
  io_test :: "'w \<Rightarrow> unit res \<times> 'w"
  io_new_importer :: "'w \<Rightarrow> bool res \<times> 'w"
  io_confirm :: "'w \<Rightarrow> bool \<times> 'w"
  io_stored_retries :: "'w \<Rightarrow> int option res \<times> 'w"
  io_store_retries :: "int \<Rightarrow> 'w \<Rightarrow> unit res \<times> 'w"
  io_migrates :: bool
  io_latest_schema :: "'w \<Rightarrow> (string \<times> string) list res \<times> 'w"
  io_set_table_version :: "string \<Rightarrow> string \<Rightarrow> tracker \<times> 'w \<Rightarrow> unit res \<times> tracker \<times> 'w"
  io_send :: "pydict \<Rightarrow> 'w \<Rightarrow> (rexc + api_response) \<times> 'w"
  io_answers :: "string \<Rightarrow> 'w \<Rightarrow> ((rexc + api_response) \<times> bool) list \<times> 'w"
  io_mkdtemp :: "string \<Rightarrow> 'w \<Rightarrow> (rexc + string) \<times> 'w"
  io_rmtree :: "string \<Rightarrow> 'w \<Rightarrow> 'w"
  io_dl :: "'w dl_ops"
  io_order :: "nat \<Rightarrow> 'w \<Rightarrow> nat list \<times> 'w"
  io_scan :: "string \<Rightarrow> 'w \<Rightarrow> dir_entry list res \<times> 'w"
  io_run_import :: "importer_config \<Rightarrow> tracker \<times> 'w \<Rightarrow> (rexc + unit) \<times> tracker \<times> 'w"
  io_clock :: "'w \<Rightarrow> int \<times> 'w"
  io_now :: "'w \<Rightarrow> int \<times> 'w"
  io_local :: "datetime \<Rightarrow> int"
  io_cancelled :: "'w \<Rightarrow> bool \<times> 'w"
  io_sleep :: "int \<Rightarrow> 'w \<Rightarrow> 'w"
  io_py_str :: "pyval \<Rightarrow> string"
  io_dumps :: "string list \<Rightarrow> string"
  io_xxh :: "string \<Rightarrow> string"

record 'w imp =
  im_tracker :: tracker
  im_world :: 'w
  im_temp_dirs :: "string list"
  im_removed :: "string list"

definition on_w :: "('w \<Rightarrow> 'a \<times> 'w) \<Rightarrow> 'w imp \<Rightarrow> 'a \<times> 'w imp" where
  "on_w f s = (case f (im_world s) of (r, w) \<Rightarrow> (r, s\<lparr>im_world := w\<rparr>))"

definition on_tw :: "(tracker \<times> 'w \<Rightarrow> 'a \<times> tracker \<times> 'w) \<Rightarrow> 'w imp \<Rightarrow> 'a \<times> 'w imp" where
  "on_tw f s = (case f (im_tracker s, im_world s) of (r, t, w) \<Rightarrow> (r, s\<lparr>im_tracker := t, im_world := w\<rparr>))"

definition with_tracker :: "'w imp_ops \<Rightarrow> (int \<Rightarrow> tracker \<Rightarrow> 'a \<times> tracker) \<Rightarrow> 'w imp \<Rightarrow> 'a \<times> 'w imp" where
  "with_tracker ops f s =
     (case on_w (io_clock ops) s of (clk, s1) \<Rightarrow> (case f clk (im_tracker s1) of (r, t) \<Rightarrow> (r, s1\<lparr>im_tracker := t\<rparr>)))"

definition put_key :: "'w imp_ops \<Rightarrow> string \<Rightarrow> string \<Rightarrow> 'w imp \<Rightarrow> unit res \<times> 'w imp" where
  "put_key ops k v = with_tracker ops (\<lambda>clk. set_key clk (codes k) v 0)"

text \<open>The export times are stored; a time that cannot be written as a text raises before, which is logged and ignored.\<close>

definition save_cutoffs :: "'w imp_ops \<Rightarrow> (string \<times> int) list \<Rightarrow> 'w imp \<Rightarrow> 'w imp" where
  "save_cutoffs ops infos s =
     (if list_all (\<lambda>i. MIN_MICROS \<le> snd i \<and> snd i \<le> MAX_MICROS) infos
      then snd (put_key ops TRACKER_TABLE_EXPORT_KEY (marshal_table_export_info infos) s) else s)"

definition remove_dirs :: "'w imp_ops \<Rightarrow> string list \<Rightarrow> 'w imp \<Rightarrow> 'w imp" where
  "remove_dirs ops ds s = s\<lparr>im_world := fold (io_rmtree ops) ds (im_world s), im_removed := im_removed s @ ds\<rparr>"

section \<open>The stages of the recovery\<close>

text \<open>\<open>compute_run_id\<close>; \<open>eds_hash\<close> of one string is the digest of that string (\<^const>\<open>hash_vals\<close>).\<close>

definition compute_run_id :: "(string \<Rightarrow> string) \<Rightarrow> import_flags \<Rightarrow> string" where
  "compute_run_id xxh fl =
     xxh (join ''|'' [fl_url fl, join '','' (sort (fl_only fl)), join '','' (sort (fl_company_ids fl)), join '','' (sort (fl_location_ids fl)),
       (case fl_time_offset_ms fl of None \<Rightarrow> ''None'' | Some t \<Rightarrow> str_int t)])"

definition progress_prefix :: "string \<Rightarrow> string" where
  "progress_prefix run_id = ''import-progress:'' @ run_id @ '':''"

definition failed_key :: "string \<Rightarrow> string" where
  "failed_key run_id = ''import-failed:'' @ run_id"

text \<open>The tracker is open while the command runs.\<close>

definition progress_marker_present :: "'w imp_ops \<Rightarrow> string \<Rightarrow> string \<Rightarrow> 'w imp \<Rightarrow> bool \<times> 'w imp" where
  "progress_marker_present ops run_id t s =
     (case with_tracker ops (\<lambda>clk. get_key clk (codes (progress_prefix run_id @ t))) s of
        (Inr (found, _), s1) \<Rightarrow> (found, s1)
      | (Inl _, s1) \<Rightarrow> (False, s1))"

definition export_stage :: "'w imp_ops \<Rightarrow> import_flags \<Rightarrow> string list \<Rightarrow> 'w imp \<Rightarrow> (rexc + string) \<times> 'w imp" where
  "export_stage ops fl tables s =
     (case on_w (io_send ops (export_body tables (fl_company_ids fl) (fl_location_ids fl) (fl_time_offset_ms fl))) s of
        (r, s1) \<Rightarrow> (create_export_job (io_py_str ops) r, s1))"

text \<open>The poll on the answers that come in; when they end before the poll does, it was cancelled there.\<close>

definition poll_job :: "'w imp_ops \<Rightarrow> bool \<Rightarrow> string \<Rightarrow> 'w \<Rightarrow> (rexc + export_job option) \<times> 'w" where
  "poll_job ops raise_on_failed job_id w =
     (case io_answers ops job_id w of
        (answers, w1) \<Rightarrow>
          (case poll_until_complete raise_on_failed (map (\<lambda>(r, c). (fetch_export_job (io_py_str ops) r, c)) answers) of
             None \<Rightarrow> (Inr None, w1)
           | Some r \<Rightarrow> (r, w1)))"

definition poll_stage :: "'w imp_ops \<Rightarrow> bool \<Rightarrow> string \<Rightarrow> 'w imp \<Rightarrow> (rexc + export_job) \<times> 'w imp" where
  "poll_stage ops raise_on_failed job_id s =
     andthen_st (on_w (poll_job ops raise_on_failed job_id) s) (\<lambda>job s1.
       case job of
         None \<Rightarrow> (Inl RecoveryCancelled, s1)
       | Some j \<Rightarrow> (case on_w (io_cancelled ops) s1 of (c, s2) \<Rightarrow> (if c then Inl RecoveryCancelled else Inr j, s2)))"

definition temp_dir :: "'w imp_ops \<Rightarrow> string \<Rightarrow> 'w imp \<Rightarrow> (rexc + string) \<times> 'w imp" where
  "temp_dir ops job_id s =
     andthen_st (on_w (io_mkdtemp ops (''import-'' @ job_id @ ''-'')) s) (\<lambda>d s1. (Inr d, s1\<lparr>im_temp_dirs := im_temp_dirs s1 @ [d]\<rparr>))"

definition download_stage ::
    "'w imp_ops \<Rightarrow> export_job \<Rightarrow> string list \<Rightarrow> string \<Rightarrow> 'w imp \<Rightarrow> (rexc + (string \<times> int) list \<times> string) \<times> 'w imp" where
  "download_stage ops job tables job_id s =
     andthen_st (temp_dir ops job_id s) (\<lambda>attempt_dir s1.
       let subset = filter (\<lambda>p. fst p \<in> set tables) (ej_tables job) in
       case on_w (bulk_download_data (io_dl ops) (io_order ops) subset attempt_dir) s1 of
         (Inl e, s2) \<Rightarrow> (Inl (DownloadStageError (exc_str e) (download_urls_expired None (exc_str e))), s2)
       | (Inr info, s2) \<Rightarrow>
           (case on_w (io_cancelled ops) s2 of (c, s3) \<Rightarrow> (if c then Inl RecoveryCancelled else Inr (info, attempt_dir), s3)))"

definition importer_settings :: "import_flags \<Rightarrow> string \<Rightarrow> string list \<Rightarrow> string option \<Rightarrow> importer_config" where
  "importer_settings fl dir tables run_id =
     \<lparr>ic_url = fl_url fl, ic_data_dir = dir, ic_dry_run = fl_dry_run fl, ic_tables = tables, ic_single = fl_single fl,
      ic_schema_only = (run_id = None \<and> fl_schema_only fl), ic_no_delete = fl_no_delete fl, ic_recovery_enabled = (run_id \<noteq> None),
      ic_run_id = (case run_id of None \<Rightarrow> [] | Some r \<Rightarrow> r)\<rparr>"

definition import_stages :: "'w imp_ops \<Rightarrow> import_flags \<Rightarrow> string \<Rightarrow> 'w imp stages" where
  "import_stages ops fl run_id =
     \<lparr>export_fn = export_stage ops fl, poll_fn = poll_stage ops False, download_fn = download_stage ops,
      import_fn = (\<lambda>job_id tables dir. on_tw (io_run_import ops (importer_settings fl dir tables (Some run_id)))),
      marker_present = progress_marker_present ops run_id, cancelled = on_w (io_cancelled ops),
      sleep_for = (\<lambda>d s. s\<lparr>im_world := io_sleep ops d (im_world s)\<rparr>)\<rparr>"

section \<open>The command with recovery\<close>

fun marked_tables :: "'w imp_ops \<Rightarrow> string \<Rightarrow> string list \<Rightarrow> 'w imp \<Rightarrow> string list \<times> 'w imp" where
  "marked_tables ops run_id [] s = ([], s)"
| "marked_tables ops run_id (t # ts) s =
     (case progress_marker_present ops run_id t s of
        (b, s1) \<Rightarrow> (case marked_tables ops run_id ts s1 of (fs, s2) \<Rightarrow> (if b \<and> t \<notin> set fs then t # fs else fs, s2)))"

fun set_versions :: "'w imp_ops \<Rightarrow> (string \<times> string) list \<Rightarrow> string list \<Rightarrow> (string \<times> int) list \<Rightarrow> 'w imp \<Rightarrow> unit res \<times> 'w imp" where
  "set_versions ops latest tables [] s = (Inr (), s)"
| "set_versions ops latest tables (i # infos) s =
     (case (if fst i \<in> set tables then dget latest (fst i) else None) of
        None \<Rightarrow> set_versions ops latest tables infos s
      | Some version \<Rightarrow>
          andthen_st (on_tw (io_set_table_version ops (fst i) version) s) (\<lambda>_. set_versions ops latest tables infos))"

definition clear_progress :: "'w imp_ops \<Rightarrow> string \<Rightarrow> 'w imp \<Rightarrow> int res \<times> 'w imp" where
  "clear_progress ops run_id s =
     andthen_st (with_tracker ops (\<lambda>_. delete_keys_with_prefix (codes (progress_prefix run_id))) s) (\<lambda>_ s1.
     andthen_st (with_tracker ops (\<lambda>_. delete_key [codes (failed_key run_id)]) s1) (\<lambda>_ s2. (Inr EXIT_SUCCESS, s2)))"

text \<open>What follows the state machine: versions, export times, directories, the record of failed tables or the end of all markers.\<close>

definition conclude_import ::
    "'w imp_ops \<Rightarrow> import_flags \<Rightarrow> (string \<times> string) list \<Rightarrow> string \<Rightarrow> recovery_result \<Rightarrow> 'w imp \<Rightarrow> int res \<times> 'w imp" where
  "conclude_import ops fl latest run_id r s =
     andthen_st (if io_migrates ops then set_versions ops latest (rr_imported r) (rr_table_export_info r) s else (Inr (), s)) (\<lambda>_ s1.
       let s2 = save_cutoffs ops (rr_table_export_info r) s1;
           s3 = (if fl_no_cleanup fl then s2 else remove_dirs ops (im_temp_dirs s2) s2)
       in if rr_permanently_failed r \<noteq> []
          then (Inr EXIT_ERROR, snd (put_key ops (failed_key run_id) (io_dumps ops (sort (rr_permanently_failed r))) s3))
          else clear_progress ops run_id s3)"

definition do_import_with_recovery :: "'w imp_ops \<Rightarrow> import_flags \<Rightarrow> int \<Rightarrow> 'w imp \<Rightarrow> int res \<times> 'w imp" where
  "do_import_with_recovery ops fl max_retries s =
     (case on_w (io_latest_schema ops) s of
        (Inl _, s1) \<Rightarrow> (Inr EXIT_ERROR, s1)
      | (Inr latest, s1) \<Rightarrow>
          let run_id = compute_run_id (io_xxh ops) fl; candidate = (if fl_only fl \<noteq> [] then fl_only fl else dkeys latest) in
          case marked_tables ops run_id candidate s1 of
            (completed, s2) \<Rightarrow>
              let initial = (if completed \<noteq> [] then filter (\<lambda>t. t \<notin> set completed) candidate else fl_only fl) in
              if completed \<noteq> [] \<and> initial = [] then clear_progress ops run_id s2
              else case run_with_recovery (import_stages ops fl run_id) (run_id \<noteq> []) max_retries initial (fl_job_id fl) completed s2 of
                     (Inl (UsageError _), rv) \<Rightarrow> (Inr EXIT_INCORRECT_USAGE, rv_world rv)
                   | (Inl _, rv) \<Rightarrow> (Inr EXIT_ERROR, rv_world rv)
                   | (Inr r, rv) \<Rightarrow> conclude_import ops fl latest run_id r (rv_world rv))"

section \<open>The command without recovery\<close>

text \<open>Where the data come from: an export job that is created or given, the schema alone, or a directory. An exception or a cancellation is the exit
  code 1.\<close>

definition or_exit :: "('e + 'a) \<times> 's \<Rightarrow> ('a \<Rightarrow> 's \<Rightarrow> (int + 'b) \<times> 's) \<Rightarrow> (int + 'b) \<times> 's" where
  "or_exit r f = (case r of (Inl _, s) \<Rightarrow> (Inl EXIT_ERROR, s) | (Inr x, s) \<Rightarrow> f x s)"

definition gather_export :: "'w imp_ops \<Rightarrow> import_flags \<Rightarrow> 'w imp \<Rightarrow> (int + (string \<times> int) list \<times> string list \<times> string) \<times> 'w imp" where
  "gather_export ops fl s =
     or_exit (if fl_job_id fl = [] then export_stage ops fl (fl_only fl) s else (Inr (fl_job_id fl), s)) (\<lambda>job_id s1.
     or_exit (poll_stage ops True job_id s1) (\<lambda>job s2.
     or_exit (temp_dir ops job_id s2) (\<lambda>dir s3.
     or_exit (on_w (bulk_download_data (io_dl ops) (io_order ops) (ej_tables job) dir) s3) (\<lambda>infos s4.
       case on_w (io_cancelled ops) s4 of (c, s5) \<Rightarrow> (if c then Inl EXIT_ERROR else Inr (infos, map fst infos, dir), s5)))))"

definition gather_schema :: "'w imp_ops \<Rightarrow> 'w imp \<Rightarrow> (int + (string \<times> int) list \<times> string list \<times> string) \<times> 'w imp" where
  "gather_schema ops s =
     or_exit (on_w (io_latest_schema ops) s) (\<lambda>schema s1.
       case on_w (io_now ops) s1 of (now, s2) \<Rightarrow> (Inr (map (\<lambda>t. (t, now)) (dkeys schema), dkeys schema, []), s2))"

definition table_name :: "pyval \<times> moment \<Rightarrow> string res" where
  "table_name i = (case fst i of PStr s \<Rightarrow> Inr s | _ \<Rightarrow> Inl (TypeError ''sequence item: expected str instance''))"

definition instant :: "'w imp_ops \<Rightarrow> moment \<Rightarrow> int" where
  "instant ops m = (case m of Aware us \<Rightarrow> us | Naive t \<Rightarrow> io_local ops t)"

definition file_tables :: "string list \<Rightarrow> string list" where
  "file_tables files =
     fold (\<lambda>f ts. let c = parse_crdb_export_file f in if cf_ok c \<and> cf_table c \<notin> set ts then ts @ [cf_table c] else ts) files []"

definition gather_dir :: "'w imp_ops \<Rightarrow> import_flags \<Rightarrow> 'w imp \<Rightarrow> (int + (string \<times> int) list \<times> string list \<times> string) \<times> 'w imp" where
  "gather_dir ops fl s =
     or_exit (with_tracker ops load_table_export_info s) (\<lambda>td s1.
       case td of
         Some infos \<Rightarrow>
           (case mapM table_name infos of
              Inl _ \<Rightarrow> (Inl EXIT_ERROR, s1)
            | Inr tables \<Rightarrow> (Inr (zip tables (map (\<lambda>i. instant ops (snd i)) infos), tables, fl_dir fl), s1))
       | None \<Rightarrow>
           or_exit (on_w (io_scan ops (fl_dir fl)) s1) (\<lambda>entries s2.
             (Inr ([], file_tables (list_dir (fl_dir fl) entries), fl_dir fl), s2)))"

definition gather :: "'w imp_ops \<Rightarrow> import_flags \<Rightarrow> 'w imp \<Rightarrow> (int + (string \<times> int) list \<times> string list \<times> string) \<times> 'w imp" where
  "gather ops fl s =
     (if fl_dir fl \<noteq> [] then gather_dir ops fl s else if fl_schema_only fl then gather_schema ops s else gather_export ops fl s)"

definition run_plain :: "'w imp_ops \<Rightarrow> import_flags \<Rightarrow> 'w imp \<Rightarrow> (int + (string \<times> int) list \<times> string) \<times> 'w imp" where
  "run_plain ops fl s =
     andthen_st (gather ops fl s) (\<lambda>(infos, names, dir) s1.
       let tables = (if fl_only fl \<noteq> [] then filter (\<lambda>t. t \<in> set (fl_only fl)) names else names) in
       or_exit (on_tw (io_run_import ops (importer_settings fl dir tables None)) s1) (\<lambda>_ s2.
       or_exit (if io_migrates ops
                then andthen_st (on_w (io_latest_schema ops) s2) (\<lambda>latest. set_versions ops latest tables infos)
                else (Inr (), s2)) (\<lambda>_ s3. (Inr (infos, dir), s3))))"

definition do_import_plain :: "'w imp_ops \<Rightarrow> import_flags \<Rightarrow> 'w imp \<Rightarrow> int \<times> 'w imp" where
  "do_import_plain ops fl s =
     (case run_plain ops fl s of
        (Inl code, s1) \<Rightarrow> (code, s1)
      | (Inr (infos, dir), s1) \<Rightarrow>
          let s2 = (if \<not> fl_no_cleanup fl \<and> fl_dir fl = [] \<and> dir \<noteq> [] then remove_dirs ops [dir] s1 else s1)
          in (EXIT_SUCCESS, save_cutoffs ops infos s2))"

section \<open>The whole command\<close>

definition max_retries_of :: "'w imp_ops \<Rightarrow> import_flags \<Rightarrow> 'w imp \<Rightarrow> int res \<times> 'w imp" where
  "max_retries_of ops fl s =
     andthen_st (on_w (io_stored_retries ops) s) (\<lambda>configured s1.
       case resolve_max_retries (fl_max_retries fl) configured of
         (n, None) \<Rightarrow> (Inr n, s1)
       | (n, Some v) \<Rightarrow> andthen_st (on_w (io_store_retries ops v) s1) (\<lambda>_ s2. (Inr n, s2)))"

definition do_import :: "'w imp_ops \<Rightarrow> import_flags \<Rightarrow> 'w imp \<Rightarrow> int res \<times> 'w imp" where
  "do_import ops fl s =
     (case on_w (io_new_driver ops) s of
        (Inl _, s1) \<Rightarrow> (Inr EXIT_INCORRECT_USAGE, s1)
      | (Inr _, s1) \<Rightarrow>
          (case on_w (io_test ops) s1 of
             (Inl _, s2) \<Rightarrow> (Inr EXIT_INCORRECT_USAGE, s2)
           | (Inr _, s2) \<Rightarrow>
               if fl_validate_only fl then (Inr EXIT_SUCCESS, s2)
               else case on_w (io_new_importer ops) s2 of
                 (Inl _, s3) \<Rightarrow> (Inr EXIT_ERROR, s3)
               | (Inr skip_delete_confirm, s3) \<Rightarrow>
                   (case (if fl_dry_run fl \<or> fl_no_confirm fl \<or> skip_delete_confirm \<or> fl_schema_only fl \<or> fl_no_delete fl
                          then (True, s3) else on_w (io_confirm ops) s3) of
                      (False, s4) \<Rightarrow> (Inr EXIT_SUCCESS, s4)
                    | (True, s4) \<Rightarrow>
                        andthen_st (max_retries_of ops fl s4) (\<lambda>max_retries s5.
                          if 0 < max_retries \<and> fl_dir fl = [] \<and> \<not> fl_schema_only fl
                          then do_import_with_recovery ops fl max_retries s5
                          else (case do_import_plain ops fl s5 of (code, s6) \<Rightarrow> (Inr code, s6))))))"

text \<open>\<open>run_import_command\<close>: what has to be there before, each with its exit code; the tracker that was opened is closed at the end.\<close>

record import_setup =
  su_config :: "(string \<times> string) res"
  su_url :: string
  su_api_key :: string
  su_time_offset :: string
  su_millis :: "int \<Rightarrow> int"
  su_api_url :: "unit res"
  su_tracker :: "tracker res"
  su_validator :: "unit res"
  su_registry :: "unit res"

definition time_offset :: "import_setup \<Rightarrow> int option res" where
  "time_offset e =
     (if su_time_offset e = [] then Inr None
      else andthen (parse_rfc3339 (su_time_offset e)) (\<lambda>m.
        case m of Naive _ \<Rightarrow> Inl (ValueError ''missing timezone'') | Aware us \<Rightarrow> Inr (Some (su_millis e us))))"

definition run_import_command :: "'w imp_ops \<Rightarrow> import_setup \<Rightarrow> import_flags \<Rightarrow> 'w \<Rightarrow> int res \<times> 'w imp option" where
  "run_import_command ops e fl w =
     (case su_config e of
        Inl x \<Rightarrow> (Inl x, None)
      | Inr (config_url, config_token) \<Rightarrow>
          let driver_url = (if su_url e \<noteq> [] then su_url e else config_url);
              api_key = (if su_api_key e \<noteq> [] then su_api_key e else config_token) in
          if driver_url = [] \<or> api_key = [] then (Inr EXIT_INCORRECT_USAGE, None)
          else case time_offset e of
            Inl _ \<Rightarrow> (Inr EXIT_ERROR, None)
          | Inr offset \<Rightarrow>
              (case (su_api_url e, su_tracker e) of
                 (Inl _, _) \<Rightarrow> (Inr EXIT_ERROR, None)
               | (Inr _, Inl _) \<Rightarrow> (Inr EXIT_ERROR, None)
               | (Inr _, Inr t) \<Rightarrow>
                   let s = \<lparr>im_tracker = t, im_world = w, im_temp_dirs = [], im_removed = []\<rparr>;
                       (r, s1) = (case (su_validator e, su_registry e) of
                           (Inr _, Inr _) \<Rightarrow> do_import ops (fl\<lparr>fl_url := driver_url, fl_time_offset_ms := offset\<rparr>) s
                         | _ \<Rightarrow> (Inr EXIT_ERROR, s))
                   in (r, Some (s1\<lparr>im_tracker := tracker_close (im_tracker s1)\<rparr>))))"

section \<open>What a run with recovery stores\<close>

text \<open>A table that counts as imported and has no export time among those collected never gets one; all times can be written.\<close>

definition timed_in :: "string set \<Rightarrow> (string \<times> int) list \<Rightarrow> bool" where
  "timed_in T infos \<longleftrightarrow> (\<forall>i \<in> set infos. fst i \<in> T \<and> MIN_MICROS \<le> snd i \<and> snd i \<le> MAX_MICROS)"

definition untimed :: "string \<Rightarrow> 'w recovery \<Rightarrow> bool" where
  "untimed t s \<longleftrightarrow> t \<in> set (rv_imported s) \<and> timed_in (- {t}) (rv_info_all s)"

lemma untimed_on_world: "on_world f s = (r, s') \<Longrightarrow> untimed t s' = untimed t s"
  by (auto simp: on_world_def untimed_def split: prod.splits)

lemma untimed_export: "export_step S s = (r, s') \<Longrightarrow> untimed t s \<Longrightarrow> untimed t s'"
  by (auto simp: export_step_def untimed_def on_world_def split: if_splits prod.splits elim!: andthen_st_cases)

lemma untimed_load:
  assumes "load_step S job ready s = (r, s')" "untimed t s" "t \<notin> set ready"
    "\<And>w info d w'. download_fn S job ready (rv_job_id s) w = (Inr (info, d), w') \<Longrightarrow> timed_in (set ready) info"
  shows "untimed t s'"
proof (cases "ready = []")
  case True
  with assms(1,2) show ?thesis by (simp add: load_step_def)
next
  case False
  obtain r1 s1 where d: "on_world (download_fn S job ready (rv_job_id s)) s = (r1, s1)" by fastforce
  have s1: "untimed t s1" using untimed_on_world [OF d] assms(2) by simp
  show ?thesis
  proof (cases r1)
    case (Inl e)
    with d False assms(1) s1 show ?thesis by (simp add: load_step_def)
  next
    case (Inr p)
    obtain info dir where p: "p = (info, dir)" by (cases p)
    have "timed_in (set ready) info" using assms(4) d Inr p by (fastforce simp: on_world_def split: prod.splits)
    with assms(3) have i: "timed_in (- {t}) info" by (auto simp: timed_in_def)
    obtain r2 s2 where m: "on_world (import_fn S (rv_job_id s1) ready dir) s1 = (r2, s2)" by fastforce
    have s2: "untimed t s2" using untimed_on_world [OF m] s1 by simp
    show ?thesis
    proof (cases r2)
      case (Inl e)
      with d m False assms(1) s2 Inr p show ?thesis by (simp add: load_step_def)
    next
      case r2: (Inr u)
      have "s' = s2\<lparr>rv_imported := add_new (rv_imported s2) ready, rv_info_all := rv_info_all s2 @ info,
          rv_working := map_option (filter (\<lambda>t. t \<notin> set ready)) (rv_working s2)\<rparr>"
        using d m False assms(1) Inr p r2 by (simp add: load_step_def)
      with s2 i show ?thesis by (auto simp: untimed_def timed_in_def)
    qed
  qed
qed

lemma untimed_conclude: "conclude_attempt s = (r, s') \<Longrightarrow> untimed t s' = untimed t s"
  by (auto simp: conclude_attempt_def Let_def untimed_def split: if_splits)

lemma ready_not_imported: "t \<in> set (rv_imported s) \<Longrightarrow> t \<notin> set (ready_tables job (present_tables job s))"
  by (simp add: ready_tables_def present_tables_def Let_def)

abbreviation names_asked :: "'w stages \<Rightarrow> bool" where
  "names_asked S \<equiv> \<forall>job ready j w info d w'. download_fn S job ready j w = (Inr (info, d), w') \<longrightarrow> timed_in (set ready) info"

lemma untimed_attempt:
  assumes "attempt_body S s = (r, s')" "untimed t s" "names_asked S"
  shows "untimed t s'"
proof -
  obtain r1 s1 where e: "export_step S s = (r1, s1)" by fastforce
  have s1: "untimed t s1" by (rule untimed_export [OF e assms(2)])
  show ?thesis
  proof (cases r1)
    case (Inl x)
    with e assms(1) s1 show ?thesis by (simp add: attempt_body_def)
  next
    case (Inr u)
    obtain r2 s2 where p: "on_world (poll_fn S (rv_job_id s1)) s1 = (r2, s2)" by fastforce
    have s2: "untimed t s2" using untimed_on_world [OF p] s1 by simp
    show ?thesis
    proof (cases r2)
      case (Inl x)
      with e p assms(1) s2 Inr show ?thesis by (simp add: attempt_body_def)
    next
      case r2: (Inr job)
      let ?present = "present_tables job s2"
      let ?s = "s2\<lparr>rv_working := Some ?present\<rparr>"
      obtain r3 s3 where l: "load_step S job (ready_tables job ?present) ?s = (r3, s3)" by fastforce
      have "untimed t s3"
      proof (rule untimed_load [OF l])
        show "untimed t ?s" using s2 by (simp add: untimed_def)
        show "t \<notin> set (ready_tables job ?present)" using s2 ready_not_imported [of t s2 job] by (simp add: untimed_def)
      qed (use assms(3) in blast)
      with e p l assms(1) Inr r2 untimed_conclude [of s3 r s'] show ?thesis
        by (cases r3) (auto simp: attempt_body_def Let_def)
    qed
  qed
qed

lemma untimed_recover: "untimed t s \<Longrightarrow> untimed t (recover S track initial e s)"
  by (auto simp: recover_def Let_def untimed_def split: option.splits if_splits prod.splits dest!: markers_frame)

lemma untimed_back_off: "back_off S d s = (r, s') \<Longrightarrow> untimed t s \<Longrightarrow> untimed t s'"
  by (auto simp: back_off_def on_world_def untimed_def split: prod.splits bool.splits)

lemma untimed_finish: "untimed t s \<Longrightarrow> t \<in> set (rr_imported (finish b initial s)) \<and> timed_in (- {t}) (rr_table_export_info (finish b initial s))"
  by (simp add: finish_def untimed_def)

lemma untimed_round:
  assumes "recovery_round S track max_retries initial attempt s = (r, s')" "untimed t s" "names_asked S"
  shows "untimed t s' \<and> (\<forall>res. r = Inr (Some res) \<longrightarrow> t \<in> set (rr_imported res) \<and> timed_in (- {t}) (rr_table_export_info res))"
proof -
  obtain r1 s1 where a: "attempt_body S s = (r1, s1)" by fastforce
  have s1: "untimed t s1" by (rule untimed_attempt [OF a assms(2,3)])
  obtain b s2 where body: "(case r1 of Inr x \<Rightarrow> (Inr x, s1) | Inl e \<Rightarrow> if \<not> is_recoverable e then (Inl e, s1) else (Inr False, recover S track initial e s1)) = (b, s2)"
    by fastforce
  have s2: "untimed t s2" using body s1 untimed_recover [OF s1] by (auto split: sum.splits if_splits)
  have r: "recovery_round S track max_retries initial attempt s =
      (case (b, s2) of
        (Inl e, s1) \<Rightarrow> (Inl e, s1)
      | (Inr True, s1) \<Rightarrow> (Inr (Some (finish False initial s1)), s1)
      | (Inr False, s1) \<Rightarrow>
          if rv_working s1 = Some [] then (Inr (Some (finish False initial s1)), s1)
          else if attempt > max_retries then (Inr (Some (finish True initial s1)), s1)
          else (case back_off S (backoff_ladder max_retries ! nat (attempt - 1)) s1 of
                  (Inl e, s2) \<Rightarrow> (Inl e, s2)
                | (Inr _, s2) \<Rightarrow> (Inr None, s2)))"
    unfolding recovery_round_def a body [symmetric] by (auto split: sum.splits bool.splits)
  show ?thesis
    using assms(1) s2 untimed_finish [OF s2] untimed_back_off [OF _ s2]
    by (auto simp: r split: sum.splits bool.splits if_splits prod.splits)
qed

lemma untimed_loop:
  "recovery_loop S track max_retries initial attempt s = (Inr res, s') \<Longrightarrow> untimed t s \<Longrightarrow> names_asked S \<Longrightarrow>
   t \<in> set (rr_imported res) \<and> timed_in (- {t}) (rr_table_export_info res)"
proof (induction S track max_retries initial attempt s rule: recovery_loop.induct)
  case (1 S track max_retries initial attempt s)
  obtain r s1 where r: "recovery_round S track max_retries initial attempt s = (r, s1)" by fastforce
  note u = untimed_round [OF r 1(3,4)]
  show ?case
  proof (cases r)
    case (Inl e)
    with 1(2) r show ?thesis by (simp add: recovery_loop.simps [of S])
  next
    case (Inr o')
    show ?thesis
    proof (cases o')
      case None
      with 1(2) r Inr have "recovery_loop S track max_retries initial (attempt + 1) s1 = (Inr res, s')"
        by (simp add: recovery_loop.simps [of S track max_retries initial attempt s])
      from 1(1) [OF r [symmetric] Inr None this] u 1(4) show ?thesis by simp
    next
      case (Some x)
      with 1(2) r Inr u show ?thesis by (simp add: recovery_loop.simps [of S])
    qed
  qed
qed

lemma download_stage_names:
  assumes "download_stage ops job tables j s = (Inr (info, d), s')"
  shows "timed_in (set tables) info"
proof -
  from assms obtain s1 s2 where "on_w (bulk_download_data (io_dl ops) (io_order ops) (filter (\<lambda>p. fst p \<in> set tables) (ej_tables job)) d) s1 = (Inr info, s2)"
    by (auto simp: download_stage_def Let_def split: sum.splits prod.splits if_splits elim!: andthen_st_cases)
  then obtain w w' where "bulk_download_data (io_dl ops) (io_order ops) (filter (\<lambda>p. fst p \<in> set tables) (ej_tables job)) d w = (Inr info, w')"
    by (auto simp: on_w_def split: prod.splits)
  from bulk_download_infos [OF this] show ?thesis by (fastforce simp: timed_in_def)
qed

lemma import_stages_names: "names_asked (import_stages ops fl run_id)"
  using download_stage_names by (fastforce simp: import_stages_def)

text \<open>Rows of the tracker without a deadline survive every read.\<close>

abbreviation lasting :: "string \<Rightarrow> string \<Rightarrow> tracker \<Rightarrow> bool" where
  "lasting k v t \<equiv> dget (kv t) (codes k) = Some \<lparr>row_value = v, row_expires_at = None\<rparr>"

lemma get_key_lasting: "lasting k v t \<Longrightarrow> get_key clk k' t = (r, t') \<Longrightarrow> lasting k v t' \<and> tracker_closed t' = tracker_closed t"
  by (auto simp: get_key_def kv_get_def row_expired_def delete_conv' split: if_splits option.splits)

lemma get_key_keeps:
  assumes "get_key clk k t = (r, t')"
  shows "tracker_closed t' = tracker_closed t" "dget (kv t) k' = None \<Longrightarrow> dget (kv t') k' = None"
  using assms by (auto simp: get_key_def kv_get_def delete_conv' split: if_splits option.splits)

lemma get_key_found: "\<not> tracker_closed t \<Longrightarrow> lasting k v t \<Longrightarrow> get_key clk (codes k) t = (Inr (True, v), t)"
  by (simp add: get_key_def kv_get_def row_expired_def)

lemma with_tracker_frame:
  assumes "with_tracker ops f s = (r, s')"
  shows "\<exists>clk w. f clk (im_tracker s) = (r, im_tracker s') \<and> s' = s\<lparr>im_world := w, im_tracker := im_tracker s'\<rparr>"
  using assms by (auto simp: with_tracker_def on_w_def split: prod.splits)

lemma marker_lasting:
  assumes "\<not> tracker_closed (im_tracker s)" "progress_marker_present ops run_id u s = (b, s')"
  shows "\<not> tracker_closed (im_tracker s')" "lasting k v (im_tracker s) \<Longrightarrow> lasting k v (im_tracker s')"
    "lasting (progress_prefix run_id @ u) v (im_tracker s) \<Longrightarrow> b"
    "dget (kv (im_tracker s)) (codes (progress_prefix run_id @ u)) = None \<Longrightarrow> \<not> b"
    "dget (kv (im_tracker s)) k' = None \<Longrightarrow> dget (kv (im_tracker s')) k' = None"
proof -
  obtain r s1 where t: "with_tracker ops (\<lambda>clk. get_key clk (codes (progress_prefix run_id @ u))) s = (r, s1)" by fastforce
  with assms(2) have s1: "s' = s1" "b = (case r of Inr (found, _) \<Rightarrow> found | Inl _ \<Rightarrow> False)"
    by (auto simp: progress_marker_present_def split: sum.splits prod.splits)
  from with_tracker_frame [OF t] obtain clk where g: "get_key clk (codes (progress_prefix run_id @ u)) (im_tracker s) = (r, im_tracker s1)" by blast
  show "\<not> tracker_closed (im_tracker s')" using get_key_keeps(1) [OF g] assms(1) by (simp add: s1)
  show "lasting k v (im_tracker s) \<Longrightarrow> lasting k v (im_tracker s')" using get_key_lasting [OF _ g] by (simp add: s1)
  show "lasting (progress_prefix run_id @ u) v (im_tracker s) \<Longrightarrow> b" using get_key_found [OF assms(1)] g by (auto simp: s1)
  show "dget (kv (im_tracker s)) (codes (progress_prefix run_id @ u)) = None \<Longrightarrow> \<not> b"
    using g assms(1) by (auto simp: s1 get_key_def kv_get_def)
  show "dget (kv (im_tracker s)) k' = None \<Longrightarrow> dget (kv (im_tracker s')) k' = None"
    using get_key_keeps(2) [OF g] by (simp add: s1)
qed

lemma marked_tables_spec:
  "marked_tables ops run_id ts s = (completed, s') \<Longrightarrow> \<not> tracker_closed (im_tracker s) \<Longrightarrow>
   (t \<in> set ts \<and> lasting (progress_prefix run_id @ t) v (im_tracker s) \<longrightarrow> t \<in> set completed) \<and>
   (dget (kv (im_tracker s)) (codes (progress_prefix run_id @ u)) = None \<longrightarrow> u \<notin> set completed)"
proof (induction ts arbitrary: s s' completed)
  case (Cons x ts)
  obtain b s1 where m: "progress_marker_present ops run_id x s = (b, s1)" by fastforce
  obtain fs s2 where rest: "marked_tables ops run_id ts s1 = (fs, s2)" by fastforce
  note l = marker_lasting [OF Cons.prems(2) m]
  have c: "completed = (if b \<and> x \<notin> set fs then x # fs else fs)" using Cons.prems(1) m rest by auto
  from Cons.IH [OF rest l(1)] l(2) [of "progress_prefix run_id @ t" v] l(3) [of v] l(4) l(5) [of "codes (progress_prefix run_id @ u)"]
  show ?case by (auto simp: c)
qed simp

text \<open>The stored export times: what the consumer process reads of them, and that the end of the command does not touch them.\<close>

lemma codes_append: "codes (a @ b) = codes a @ codes b"
  by (simp add: codes_def)

lemma codes_inj: "codes a = codes b \<longleftrightarrow> a = b"
proof -
  have "inj (of_char :: char \<Rightarrow> nat)" by (simp add: inj_of_char)
  then show ?thesis by (simp add: codes_def inj_map_eq_map)
qed

lemma progress_scan: "in_scan (codes (progress_prefix run_id)) k \<longleftrightarrow> prefix (codes (progress_prefix run_id)) k"
proof -
  have "\<exists>u. prefix_upper_bound (codes (progress_prefix run_id)) = Some u"
    by (simp add: prefix_upper_bound_def progress_prefix_def codes_def)
  then show ?thesis using in_scan_upper by blast
qed

lemma cutoff_key_apart:
  "codes TRACKER_TABLE_EXPORT_KEY \<noteq> codes (failed_key run_id)" "\<not> in_scan (codes (progress_prefix run_id)) (codes TRACKER_TABLE_EXPORT_KEY)"
  by (simp_all only: progress_scan) (simp_all add: codes_inj TRACKER_TABLE_EXPORT_KEY_def failed_key_def progress_prefix_def codes_def)

lemma dget_filter: "\<not> P k \<Longrightarrow> dget (filter (\<lambda>r. \<not> P (fst r)) d) k = dget d k"
  by (induction d) auto

lemma clear_progress_keeps:
  assumes "clear_progress ops run_id s = (Inr code, s')"
  shows "code = EXIT_SUCCESS" "\<not> tracker_closed (im_tracker s)" "\<not> tracker_closed (im_tracker s')"
    "dget (kv (im_tracker s')) (codes TRACKER_TABLE_EXPORT_KEY) = dget (kv (im_tracker s)) (codes TRACKER_TABLE_EXPORT_KEY)"
proof -
  from assms obtain r1 s1 r2 where
    a: "with_tracker ops (\<lambda>_. delete_keys_with_prefix (codes (progress_prefix run_id))) s = (Inr r1, s1)" and
    b: "with_tracker ops (\<lambda>_. delete_key [codes (failed_key run_id)]) s1 = (Inr r2, s')" and c: "code = EXIT_SUCCESS"
    by (auto simp: clear_progress_def elim!: andthen_st_cases)
  from with_tracker_frame [OF a] with_tracker_frame [OF b] have
    t: "delete_keys_with_prefix (codes (progress_prefix run_id)) (im_tracker s) = (Inr r1, im_tracker s1)"
      "delete_key [codes (failed_key run_id)] (im_tracker s1) = (Inr r2, im_tracker s')" by blast+
  from t(1) have 1: "\<not> tracker_closed (im_tracker s)" "im_tracker s1 = (im_tracker s)\<lparr>kv := filter (\<lambda>r. \<not> in_scan (codes (progress_prefix run_id)) (fst r)) (kv (im_tracker s))\<rparr>"
    by (auto simp: delete_keys_with_prefix_def split: if_splits)
  from t(2) have 2: "\<not> tracker_closed (im_tracker s1)" "im_tracker s' = (im_tracker s1)\<lparr>kv := ddel (codes (failed_key run_id)) (kv (im_tracker s1))\<rparr>"
    by (auto simp: delete_key_def split: if_splits)
  show "code = EXIT_SUCCESS" by (rule c)
  show "\<not> tracker_closed (im_tracker s)" "\<not> tracker_closed (im_tracker s')" using 1 2 by simp_all
  show "dget (kv (im_tracker s')) (codes TRACKER_TABLE_EXPORT_KEY) = dget (kv (im_tracker s)) (codes TRACKER_TABLE_EXPORT_KEY)"
    using 1 2 cutoff_key_apart [of run_id] dget_filter [of "in_scan (codes (progress_prefix run_id))"] by (simp add: delete_conv')
qed

lemma set_key_lasting: "set_key clk (codes k) v 0 t = (r, t') \<Longrightarrow> \<not> tracker_closed t' \<Longrightarrow> lasting k v t'"
  by (auto simp: set_key_def kv_put_def deadline_def split: if_splits)

lemma put_key_open:
  assumes "put_key ops k v s = (r, s')" "\<not> tracker_closed (im_tracker s')"
  shows "lasting k v (im_tracker s')"
proof -
  from with_tracker_frame [OF assms(1) [unfolded put_key_def]] obtain clk where "set_key clk (codes k) v 0 (im_tracker s) = (r, im_tracker s')" by blast
  with assms(2) show ?thesis by (rule_tac set_key_lasting)
qed

lemma add_cutoffs_keys: "\<exists>out'. add_cutoffs (map info_value infos) out = Inr out' \<and> set (dkeys out') \<subseteq> set (dkeys out) \<union> (PStr \<circ> fst) ` set infos"
proof (induction infos arbitrary: out)
  case (Cons i infos)
  obtain c where "add_cutoffs (map info_value (i # infos)) out = add_cutoffs (map info_value infos) (AList.update (PStr (fst i)) c out)"
    by (simp add: info_value_def item_get_def hashable_def Let_def)
  with Cons.IH [of "AList.update (PStr (fst i)) c out"] show ?case by (auto simp: dom_update)
qed simp

lemma stored_cutoffs_read:
  assumes "\<not> tracker_closed t" "lasting TRACKER_TABLE_EXPORT_KEY (marshal_table_export_info infos) t" "table \<notin> fst ` set infos"
  shows "\<exists>d. load_cutoffs later t = (Inr (Some d), t) \<and> dget d (PStr table) = None"
proof -
  obtain d where d: "add_cutoffs (map info_value infos) [] = Inr d" "set (dkeys d) \<subseteq> (PStr \<circ> fst) ` set infos"
    using add_cutoffs_keys [of infos "[]"] by auto
  have "PStr table \<notin> set (dkeys d)" using d(2) assms(3) by auto
  then have "dget d (PStr table) = None" by (simp add: map_of_eq_None_iff)
  with d(1) get_key_found [OF assms(1,2), of later] show ?thesis by (simp add: load_cutoffs_def stored_infos)
qed

lemma save_cutoffs_open:
  assumes "timed_in T infos" "\<not> tracker_closed (im_tracker (save_cutoffs ops infos s))"
  shows "lasting TRACKER_TABLE_EXPORT_KEY (marshal_table_export_info infos) (im_tracker (save_cutoffs ops infos s))"
proof -
  have "list_all (\<lambda>i. MIN_MICROS \<le> snd i \<and> snd i \<le> MAX_MICROS) infos" using assms(1) by (simp add: timed_in_def list_all_iff)
  then have e: "save_cutoffs ops infos s = snd (put_key ops TRACKER_TABLE_EXPORT_KEY (marshal_table_export_info infos) s)"
    by (simp add: save_cutoffs_def)
  show ?thesis unfolding e by (rule put_key_open [OF surjective_pairing assms(2) [unfolded e]])
qed

lemma conclude_stores:
  assumes "conclude_import ops fl latest run_id r s = (Inr EXIT_SUCCESS, s')" "timed_in (- {t}) (rr_table_export_info r)"
  shows "\<exists>d. load_cutoffs later (im_tracker s') = (Inr (Some d), im_tracker s') \<and> dget d (PStr t) = None"
proof -
  let ?s2 = "\<lambda>s1. save_cutoffs ops (rr_table_export_info r) s1"
  let ?s3 = "\<lambda>s1. if fl_no_cleanup fl then ?s2 s1 else remove_dirs ops (im_temp_dirs (?s2 s1)) (?s2 s1)"
  from assms(1) obtain s1 where c: "clear_progress ops run_id (?s3 s1) = (Inr EXIT_SUCCESS, s')"
    by (auto simp: conclude_import_def Let_def EXIT_SUCCESS_def EXIT_ERROR_def split: if_splits elim!: andthen_st_cases)
  have t: "im_tracker (?s3 s1) = im_tracker (?s2 s1)" by (simp add: remove_dirs_def)
  note k = clear_progress_keeps [OF c, unfolded t]
  from save_cutoffs_open [OF assms(2) k(2)] k(4)
  have "lasting TRACKER_TABLE_EXPORT_KEY (marshal_table_export_info (rr_table_export_info r)) (im_tracker s')" by simp
  moreover have "t \<notin> fst ` set (rr_table_export_info r)" using assms(2) by (auto simp: timed_in_def)
  ultimately show ?thesis by (rule stored_cutoffs_read [OF k(3)])
qed

lemma recovery_untimed:
  assumes "run_with_recovery (import_stages ops fl run_id) track n initial job completed w = (Inr r, rv)" "t \<in> set completed"
  shows "timed_in (- {t}) (rr_table_export_info r)"
proof -
  have "untimed t \<lparr>rv_imported = completed, rv_info_all = [], rv_export_tables = initial, rv_job_id = job, rv_need_post = (job = []),
        rv_working = None, rv_last_error = [], rv_sleeps = [], rv_world = w\<rparr>"
    using assms(2) by (simp add: untimed_def timed_in_def)
  from untimed_loop [OF assms(1) [unfolded run_with_recovery_def] this import_stages_names] show ?thesis by blast
qed

lemma resumed_run:
  assumes "do_import_with_recovery ops fl n s = (Inr EXIT_SUCCESS, s')"
    and "io_latest_schema ops (im_world s) = (Inr latest, w)"
    and "candidate = (if fl_only fl \<noteq> [] then fl_only fl else dkeys latest)" "t \<in> set candidate" "u \<in> set candidate"
    and "run_id = compute_run_id (io_xxh ops) fl" "\<not> tracker_closed (im_tracker s)"
    and "lasting (progress_prefix run_id @ t) v (im_tracker s)" "dget (kv (im_tracker s)) (codes (progress_prefix run_id @ u)) = None"
  shows "\<exists>d. load_cutoffs later (im_tracker s') = (Inr (Some d), im_tracker s') \<and> dget d (PStr t) = None"
proof -
  let ?s1 = "s\<lparr>im_world := w\<rparr>"
  obtain completed s2 where m: "marked_tables ops run_id candidate ?s1 = (completed, s2)" by fastforce
  from marked_tables_spec [OF m, of t v u] assms(4,7-9) have c: "t \<in> set completed" "u \<notin> set completed" by auto
  let ?initial = "filter (\<lambda>t. t \<notin> set completed) candidate"
  have ne: "completed \<noteq> []" "?initial \<noteq> []" using c assms(5) by (auto simp: filter_empty_conv)
  let ?run = "run_with_recovery (import_stages ops fl run_id) (run_id \<noteq> []) n ?initial (fl_job_id fl) completed s2"
  have "do_import_with_recovery ops fl n s =
      (case ?run of (Inl (UsageError _), rv) \<Rightarrow> (Inr EXIT_INCORRECT_USAGE, rv_world rv) | (Inl _, rv) \<Rightarrow> (Inr EXIT_ERROR, rv_world rv)
       | (Inr r, rv) \<Rightarrow> conclude_import ops fl latest run_id r (rv_world rv))"
    using ne m by (simp add: do_import_with_recovery_def on_w_def assms(2) assms(3,6) [symmetric] Let_def del: filter_empty_conv)
  with assms(1) obtain r rv where r: "?run = (Inr r, rv)" "conclude_import ops fl latest run_id r (rv_world rv) = (Inr EXIT_SUCCESS, s')"
    by (auto simp: EXIT_SUCCESS_def EXIT_ERROR_def EXIT_INCORRECT_USAGE_def split: prod.splits sum.splits rexc.splits)
  show ?thesis by (rule conclude_stores [OF r(2) recovery_untimed [OF r(1) c(1)]])
qed

text \<open>Exit code 0 is the end of the run: no marker and no record of failed tables is left.\<close>

lemma clear_progress_clears:
  assumes "clear_progress ops run_id s = (Inr code, s')"
  shows "(in_scan (codes (progress_prefix run_id)) k \<longrightarrow> dget (kv (im_tracker s')) k = None) \<and>
    dget (kv (im_tracker s')) (codes (failed_key run_id)) = None"
proof -
  from assms obtain r1 s1 r2 where
    a: "with_tracker ops (\<lambda>_. delete_keys_with_prefix (codes (progress_prefix run_id))) s = (Inr r1, s1)" and
    b: "with_tracker ops (\<lambda>_. delete_key [codes (failed_key run_id)]) s1 = (Inr r2, s')"
    by (auto simp: clear_progress_def elim!: andthen_st_cases)
  from with_tracker_frame [OF a] with_tracker_frame [OF b] have
    t: "delete_keys_with_prefix (codes (progress_prefix run_id)) (im_tracker s) = (Inr r1, im_tracker s1)"
      "delete_key [codes (failed_key run_id)] (im_tracker s1) = (Inr r2, im_tracker s')" by blast+
  from t(1) have "im_tracker s1 = (im_tracker s)\<lparr>kv := filter (\<lambda>r. \<not> in_scan (codes (progress_prefix run_id)) (fst r)) (kv (im_tracker s))\<rparr>"
    by (auto simp: delete_keys_with_prefix_def split: if_splits)
  then have "in_scan (codes (progress_prefix run_id)) k \<longrightarrow> dget (kv (im_tracker s1)) k = None"
    by (auto simp: map_of_eq_None_iff)
  moreover from t(2) have "im_tracker s' = (im_tracker s1)\<lparr>kv := ddel (codes (failed_key run_id)) (kv (im_tracker s1))\<rparr>"
    by (auto simp: delete_key_def split: if_splits)
  ultimately show ?thesis by (simp add: delete_conv')
qed

lemma conclude_cases:
  assumes "conclude_import ops fl latest run_id r s = (Inr code, s')"
  shows "code = EXIT_ERROR \<or> (\<exists>s1. clear_progress ops run_id s1 = (Inr code, s'))"
  using assms by (auto simp: conclude_import_def Let_def split: if_splits elim!: andthen_st_cases)

lemma recovery_run_cases:
  assumes "do_import_with_recovery ops fl n s = (Inr code, s')"
  shows "code = EXIT_ERROR \<or> code = EXIT_INCORRECT_USAGE \<or> (\<exists>s1. clear_progress ops (compute_run_id (io_xxh ops) fl) s1 = (Inr code, s'))"
proof -
  have "code = EXIT_ERROR \<or> code = EXIT_INCORRECT_USAGE \<or> (\<exists>s1. clear_progress ops (compute_run_id (io_xxh ops) fl) s1 = (Inr code, s')) \<or>
    (\<exists>latest r s1. conclude_import ops fl latest (compute_run_id (io_xxh ops) fl) r s1 = (Inr code, s'))"
    using assms by (simp add: do_import_with_recovery_def Let_def split: prod.splits sum.splits if_splits rexc.splits) blast+
  then show ?thesis using conclude_cases by blast
qed

text \<open>C14: The exit code of an import with recovery is 0, 1 or 3, and 0 is the end of the run: no completion marker of the run and no record of
  failed tables is left in the tracker, so that the next import of the same kind starts afresh.\<close>

theorem import_run_cleared:
  assumes "do_import_with_recovery ops fl n s = (Inr code, s')" "run_id = compute_run_id (io_xxh ops) fl"
  shows "code \<in> {EXIT_SUCCESS, EXIT_ERROR, EXIT_INCORRECT_USAGE} \<and>
    (code = EXIT_SUCCESS \<longrightarrow> dget (kv (im_tracker s')) (codes (failed_key run_id)) = None \<and>
      (\<forall>t. dget (kv (im_tracker s')) (codes (progress_prefix run_id @ t)) = None))"
proof -
  have p: "in_scan (codes (progress_prefix run_id)) (codes (progress_prefix run_id @ t))" for t
    using progress_scan [of run_id] by (simp add: codes_append)
  from recovery_run_cases [OF assms(1)] consider (failed) "code = EXIT_ERROR \<or> code = EXIT_INCORRECT_USAGE"
    | (cleared) s1 where "clear_progress ops run_id s1 = (Inr code, s')" unfolding assms(2) by blast
  then show ?thesis
  proof cases
    case failed
    then show ?thesis by (auto simp: EXIT_SUCCESS_def EXIT_ERROR_def EXIT_INCORRECT_USAGE_def)
  next
    case cleared
    with p clear_progress_clears [OF cleared] clear_progress_keeps(1) [OF cleared] show ?thesis by simp
  qed
qed

text \<open>An import with recovery of two tables for the witnesses: the export API and the file system answer at once, and the marker of the first
  table is in the tracker.\<close>

definition sample_answer :: "pyval \<Rightarrow> api_response" where
  "sample_answer v =
     \<lparr>ap_status = 200, ap_text = (case marshal False (PDict [(''success'', PBool True), (''data'', v)]) of Inr s \<Rightarrow> s | Inl _ \<Rightarrow> []), ap_request_id = []\<rparr>"

definition sample_imp_ops :: "unit imp_ops" where
  "sample_imp_ops =
     \<lparr>io_new_driver = (\<lambda>w. (Inr (), w)), io_test = (\<lambda>w. (Inr (), w)), io_new_importer = (\<lambda>w. (Inr True, w)), io_confirm = (\<lambda>w. (True, w)),
      io_stored_retries = (\<lambda>w. (Inr (Some 1), w)), io_store_retries = (\<lambda>_ w. (Inr (), w)), io_migrates = False,
      io_latest_schema = (\<lambda>w. (Inr [(''a'', ''1''), (''b'', ''1'')], w)), io_set_table_version = (\<lambda>_ _ tw. (Inr (), tw)),
      io_send = (\<lambda>_ w. (Inr (sample_answer (PDict [(''jobId'', PStr ''j'')])), w)),
      io_answers = (\<lambda>_ w. ([(Inr (sample_answer (PDict [(''completed'', PBool True),
        (''tables'', PDict [(''b'', PDict [(''status'', PStr ''Completed''), (''cursor'', PStr ''5000'')])])])), False)], w)),
      io_mkdtemp = (\<lambda>p w. (Inr p, w)), io_rmtree = (\<lambda>_ w. w),
      io_dl = \<lparr>dl_check = (\<lambda>_. Inr ()), dl_get = (\<lambda>_ w. (Inr \<lparr>rs_status = 200, rs_reason = [], rs_content = []\<rparr>, w)), dl_write = (\<lambda>_ _ w. (Inr (), w))\<rparr>,
      io_order = (\<lambda>n w. ([0..<n], w)), io_scan = (\<lambda>_ w. (Inr [], w)), io_run_import = (\<lambda>_ tw. (Inr (), tw)), io_clock = (\<lambda>w. (0, w)),
      io_now = (\<lambda>w. (0, w)), io_local = micros, io_cancelled = (\<lambda>w. (False, w)), io_sleep = (\<lambda>_ w. w), io_py_str = (\<lambda>_. []),
      io_dumps = join '','', io_xxh = (\<lambda>_. ''r'')\<rparr>"

definition sample_flags :: import_flags where
  "sample_flags =
     \<lparr>fl_url = ''u'', fl_only = [], fl_company_ids = [], fl_location_ids = [], fl_time_offset_ms = None, fl_job_id = [], fl_dir = [],
      fl_dry_run = False, fl_no_confirm = True, fl_no_delete = False, fl_no_cleanup = False, fl_schema_only = False, fl_validate_only = False,
      fl_single = False, fl_max_retries = None\<rparr>"

definition sample_imp :: "unit imp" where
  "sample_imp =
     \<lparr>im_tracker = \<lparr>kv = [(codes ''import-progress:r:a'', \<lparr>row_value = ''1'', row_expires_at = None\<rparr>)], tracker_closed = False\<rparr>,
      im_world = (), im_temp_dirs = [], im_removed = []\<rparr>"

definition sample_job :: export_job where
  "sample_job = \<lparr>ej_completed = True, ej_tables = [(''b'', \<lparr>et_error = [], et_status = ''Completed'', et_urls = [], et_cursor = ''5000''\<rparr>)]\<rparr>"

lemma sample_text:
  "JsonRound.plain v \<Longrightarrow> loads opts_default (ap_text (sample_answer v)) = Some (canon False (PDict [(''success'', PBool True), (''data'', v)]))"
  using loads_marshal [of "PDict [(''success'', PBool True), (''data'', v)]" opts_default False] by (auto simp: sample_answer_def)

lemma sample_status: "ap_status (sample_answer v) = 200"
  by (simp add: sample_answer_def)

lemma sample_export: "export_stage sample_imp_ops sample_flags ts s = (Inr ''j'', s)"
  by (simp add: export_stage_def sample_imp_ops_def on_w_def create_export_job_def sample_status decode_api_response_def sample_text value_get_def text_of_def)

lemma sample_poll:
  "poll_stage sample_imp_ops b j s = (Inr sample_job, s)"
  by (simp add: sample_job_def poll_stage_def poll_job_def sample_imp_ops_def on_w_def fetch_export_job_def sample_status decode_api_response_def sample_text
      value_get_def text_of_def job_of_data_def table_data_def strings_of_def check_export_job_def failed_tables_def)

lemma sample_plan: "plan_table check (''b'', \<lparr>et_error = [], et_status = ''Completed'', et_urls = [], et_cursor = ''5000''\<rparr>) = Inr ([], ''b'', 5)"
proof -
  have "py_int ''5000'' = Some 5000" "nanos_to_dt 5000 = Inr 5" by code_simp+
  then show ?thesis by (simp add: plan_table_def)
qed

lemma sample_download:
  "download_stage sample_imp_ops sample_job [''b''] j s = (Inr ([], ''import-'' @ j @ ''-''), s\<lparr>im_temp_dirs := im_temp_dirs s @ [''import-'' @ j @ ''-'']\<rparr>)"
  by (simp add: sample_job_def download_stage_def temp_dir_def sample_imp_ops_def on_w_def bulk_download_data_def sample_plan)

lemma sample_marked: "marked_tables sample_imp_ops ''r'' [''a'', ''b''] sample_imp = ([''a''], sample_imp)"
  by (simp add: progress_marker_present_def with_tracker_def on_w_def sample_imp_ops_def sample_imp_def get_key_def kv_get_def
      progress_prefix_def codes_def row_expired_def)

lemma sample_ops:
  "io_run_import sample_imp_ops c tw = (Inr (), tw)" "io_latest_schema sample_imp_ops w = (Inr [(''a'', ''1''), (''b'', ''1'')], w)"
  "io_xxh sample_imp_ops x = ''r''" "\<not> io_migrates sample_imp_ops" "io_clock sample_imp_ops w = (0, w)"
  by (simp_all add: sample_imp_ops_def)

lemma sample_ready: "ready_tables sample_job [''b''] = [''b'']" "dkeys (ej_tables sample_job) = [''b'']"
  by code_simp+

lemma sample_attempt:
  "\<exists>rv. attempt_body (import_stages sample_imp_ops sample_flags ''r'')
      \<lparr>rv_imported = [''a''], rv_info_all = [], rv_export_tables = [''b''], rv_job_id = [], rv_need_post = True, rv_working = None,
        rv_last_error = [], rv_sleeps = [], rv_world = sample_imp\<rparr> = (Inr True, rv) \<and> \<not> tracker_closed (im_tracker (rv_world rv))"
proof -
  have "\<not> tracker_closed (im_tracker sample_imp)" by (simp add: sample_imp_def)
  then show ?thesis
    by (simp add: attempt_body_def export_step_def on_world_def import_stages_def sample_export sample_poll sample_download present_tables_def
      sample_ready load_step_def on_tw_def conclude_attempt_def sample_ops Let_def)
qed

lemma sample_recovery:
  "\<exists>r s'. run_with_recovery (import_stages sample_imp_ops sample_flags ''r'') True 1 [''b''] [] [''a''] sample_imp =
     (Inr r, s') \<and> rr_permanently_failed r = [] \<and> \<not> tracker_closed (im_tracker (rv_world s'))"
proof -
  obtain rv where "attempt_body (import_stages sample_imp_ops sample_flags ''r'')
      \<lparr>rv_imported = [''a''], rv_info_all = [], rv_export_tables = [''b''], rv_job_id = [], rv_need_post = True, rv_working = None,
        rv_last_error = [], rv_sleeps = [], rv_world = sample_imp\<rparr> = (Inr True, rv)" "\<not> tracker_closed (im_tracker (rv_world rv))"
    using sample_attempt by blast
  then show ?thesis by (simp add: run_with_recovery_def recovery_loop.simps [of _ _ _ _ 1] recovery_round_def finish_def)
qed

lemma clear_progress_open: "\<not> tracker_closed (im_tracker s) \<Longrightarrow> \<exists>s'. clear_progress ops run_id s = (Inr EXIT_SUCCESS, s')"
  by (auto simp: clear_progress_def with_tracker_def on_w_def delete_keys_with_prefix_def delete_key_def split: prod.splits)

lemma save_cutoffs_closed: "tracker_closed (im_tracker (save_cutoffs ops infos s)) = tracker_closed (im_tracker s)"
  by (auto simp: save_cutoffs_def put_key_def with_tracker_def on_w_def set_key_def kv_put_def split: prod.splits)

lemma sample_import: "\<exists>s'. do_import_with_recovery sample_imp_ops sample_flags 1 sample_imp = (Inr EXIT_SUCCESS, s')"
proof -
  obtain r rv where r: "run_with_recovery (import_stages sample_imp_ops sample_flags ''r'') True 1 [''b''] [] [''a''] sample_imp = (Inr r, rv)"
    "rr_permanently_failed r = []" "\<not> tracker_closed (im_tracker (rv_world rv))" using sample_recovery by blast
  have only: "fl_only sample_flags = []" "fl_job_id sample_flags = []" "sample_imp\<lparr>im_world := ()\<rparr> = sample_imp"
    by (simp_all add: sample_flags_def sample_imp_def)
  have "do_import_with_recovery sample_imp_ops sample_flags 1 sample_imp =
      conclude_import sample_imp_ops sample_flags [(''a'', ''1''), (''b'', ''1'')] ''r'' r (rv_world rv)"
    using sample_marked
    by (simp add: do_import_with_recovery_def on_w_def sample_ops compute_run_id_def Let_def only r del: marked_tables.simps)
  then show ?thesis
    using r(2,3) by (simp add: conclude_import_def sample_ops Let_def) (auto intro!: clear_progress_open simp: save_cutoffs_closed remove_dirs_def)
qed

text \<open>C39: A run that takes up an earlier one (the marker of table \<open>t\<close> is there, and some other table is still to do) and ends with exit code 0
  leaves export times in the tracker in which \<open>t\<close> does not occur: the consumer process that starts next has no cutoff for \<open>t\<close>.\<close>

theorem resume_loses_cutoffs:
  assumes "do_import_with_recovery ops fl n s = (Inr EXIT_SUCCESS, s')"
    and "io_latest_schema ops (im_world s) = (Inr latest, w)"
    and "candidate = (if fl_only fl \<noteq> [] then fl_only fl else dkeys latest)" "t \<in> set candidate" "u \<in> set candidate"
    and "run_id = compute_run_id (io_xxh ops) fl" "\<not> tracker_closed (im_tracker s)"
    and "lasting (progress_prefix run_id @ t) v (im_tracker s)" "dget (kv (im_tracker s)) (codes (progress_prefix run_id @ u)) = None"
  shows "\<exists>d. load_cutoffs later (im_tracker s') = (Inr (Some d), im_tracker s') \<and> dget d (PStr t) = None"
  by (rule resumed_run [OF assms])

theorem resume_loses_cutoffs_witness:
  "\<exists>s' d. do_import_with_recovery sample_imp_ops sample_flags 1 sample_imp = (Inr EXIT_SUCCESS, s') \<and>
     load_cutoffs 9 (im_tracker s') = (Inr (Some d), im_tracker s') \<and> dget d (PStr ''a'') = None"
proof -
  obtain s' where s': "do_import_with_recovery sample_imp_ops sample_flags 1 sample_imp = (Inr EXIT_SUCCESS, s')" using sample_import by blast
  have f: "io_latest_schema sample_imp_ops (im_world sample_imp) = (Inr [(''a'', ''1''), (''b'', ''1'')], im_world sample_imp)"
    "[''a'', ''b''] = (if fl_only sample_flags \<noteq> [] then fl_only sample_flags else dkeys [(''a'', ''1''), (''b'', ''1'')])"
    "''a'' \<in> set [''a'', ''b'']" "''b'' \<in> set [''a'', ''b'']"
    "''r'' = compute_run_id (io_xxh sample_imp_ops) sample_flags" "\<not> tracker_closed (im_tracker sample_imp)"
    "lasting (progress_prefix ''r'' @ ''a'') ''1'' (im_tracker sample_imp)" "dget (kv (im_tracker sample_imp)) (codes (progress_prefix ''r'' @ ''b'')) = None"
    by (simp_all add: sample_ops sample_flags_def sample_imp_def compute_run_id_def progress_prefix_def codes_def)
  from resume_loses_cutoffs [OF s' f, of 9] s' show ?thesis by blast
qed

theorem import_run_cleared_witness:
  "\<exists>s'. do_import_with_recovery sample_imp_ops sample_flags 1 sample_imp = (Inr EXIT_SUCCESS, s') \<and>
     dget (kv (im_tracker sample_imp)) (codes (progress_prefix ''r'' @ ''a'')) \<noteq> None \<and> dget (kv (im_tracker s')) (codes (progress_prefix ''r'' @ ''a'')) = None"
proof -
  obtain s' where s': "do_import_with_recovery sample_imp_ops sample_flags 1 sample_imp = (Inr EXIT_SUCCESS, s')" using sample_import by blast
  have "''r'' = compute_run_id (io_xxh sample_imp_ops) sample_flags" by (simp add: sample_ops compute_run_id_def)
  note cleared = import_run_cleared [OF s' this]
  have "dget (kv (im_tracker sample_imp)) (codes (progress_prefix ''r'' @ ''a'')) \<noteq> None"
    by (simp add: sample_imp_def progress_prefix_def codes_def)
  with cleared s' show ?thesis by blast
qed

section \<open>What a run without recovery leaves\<close>

text \<open>No step before the end removes a directory, and every early end has exit code 1.\<close>

definition steady :: "'w imp \<Rightarrow> (int + 'a) \<times> 'w imp \<Rightarrow> bool" where
  "steady s r \<longleftrightarrow> im_removed (snd r) = im_removed s \<and> (\<forall>c. fst r = Inl c \<longrightarrow> c = EXIT_ERROR)"

lemma or_exit_steady:
  assumes "im_removed (snd r) = im_removed s" "\<And>x s1. r = (Inr x, s1) \<Longrightarrow> im_removed s1 = im_removed s \<Longrightarrow> steady s (f x s1)"
  shows "steady s (or_exit r f)"
proof (cases r)
  case (Pair a s1)
  then show ?thesis using assms by (cases a) (auto simp: or_exit_def steady_def)
qed

lemma kept_removed:
  "on_w f s = (r, s') \<Longrightarrow> im_removed s' = im_removed s" "on_tw g s = (r', s') \<Longrightarrow> im_removed s' = im_removed s"
  "with_tracker ops h s = (r'', s') \<Longrightarrow> im_removed s' = im_removed s"
  by (auto simp: on_w_def on_tw_def with_tracker_def split: prod.splits)

lemma on_removed: "im_removed (snd (on_w f s)) = im_removed s" "im_removed (snd (on_tw g s)) = im_removed s" "im_removed (snd (with_tracker ops h s)) = im_removed s"
  by (simp_all add: on_w_def on_tw_def with_tracker_def split: prod.splits)

lemma stages_removed:
  "im_removed (snd (export_stage ops fl ts s)) = im_removed s" "im_removed (snd (poll_stage ops b j s)) = im_removed s"
  "im_removed (snd (temp_dir ops j s)) = im_removed s" "im_removed (snd (on_w f s)) = im_removed s" "im_removed (snd (on_tw g s)) = im_removed s"
  "im_removed (snd (with_tracker ops h s)) = im_removed s"
  by (auto simp: export_stage_def poll_stage_def temp_dir_def andthen_st_def on_removed dest!: kept_removed
      split: prod.splits sum.splits option.splits)

lemma versions_removed: "im_removed (snd (set_versions ops latest tables infos s)) = im_removed s"
proof (induction infos arbitrary: s)
  case (Cons i infos)
  then show ?case by (auto simp: andthen_st_def dest: kept_removed split: option.splits prod.splits sum.splits)
qed simp

lemma gather_export_steady: "im_removed s0 = im_removed s \<Longrightarrow> steady s0 (gather_export ops fl s)"
  unfolding gather_export_def
  by (intro or_exit_steady) (auto simp: stages_removed steady_def dest: kept_removed split: prod.splits if_splits)

lemma gather_schema_steady: "im_removed s0 = im_removed s \<Longrightarrow> steady s0 (gather_schema ops s)"
  unfolding gather_schema_def
  by (intro or_exit_steady) (auto simp: stages_removed steady_def dest: kept_removed split: prod.splits)

lemma gather_dir_steady: "im_removed s0 = im_removed s \<Longrightarrow> steady s0 (gather_dir ops fl s)"
  unfolding gather_dir_def
  by (intro or_exit_steady) (auto simp: stages_removed steady_def or_exit_def dest: kept_removed split: option.splits sum.splits prod.splits)

lemma migrate_removed:
  "im_removed (snd (if m then andthen_st (on_w g s) (\<lambda>latest. set_versions ops latest tables infos) else (Inr (), s))) = im_removed s"
  by (auto simp: andthen_st_def versions_removed dest!: kept_removed split: prod.splits sum.splits)

lemma run_tables_steady:
  "im_removed s1 = im_removed s \<Longrightarrow>
   steady s (or_exit (on_tw f s1) (\<lambda>_ s2. or_exit (if m then andthen_st (on_w g s2) (\<lambda>latest. set_versions ops latest tables infos) else (Inr (), s2))
     (\<lambda>_ s3. (Inr y, s3))))"
  by (intro or_exit_steady) (simp_all only: on_removed migrate_removed, simp_all add: steady_def)

lemma save_cutoffs_removed: "im_removed (save_cutoffs ops infos s) = im_removed s"
  by (simp add: save_cutoffs_def put_key_def on_removed)

lemma stored_cutoffs:
  assumes "stampable infos" "\<not> tracker_closed (im_tracker s)"
  shows "\<exists>t1. load_cutoffs later (im_tracker (save_cutoffs ops infos s)) = (Inr (Some (cutoffs_of infos)), t1)"
proof -
  have "timed_in UNIV infos" using assms(1) by (auto simp: timed_in_def stampable_def MIN_MICROS_def)
  then have l: "lasting TRACKER_TABLE_EXPORT_KEY (marshal_table_export_info infos) (im_tracker (save_cutoffs ops infos s))"
    by (rule save_cutoffs_open) (simp add: save_cutoffs_closed assms(2))
  have o: "\<not> tracker_closed (im_tracker (save_cutoffs ops infos s))" by (simp add: save_cutoffs_closed assms(2))
  show ?thesis
    using get_key_found [OF o l, of later] add_cutoffs_infos [OF assms(1), of "[]"] by (simp add: load_cutoffs_def stored_infos cutoffs_of_def)
qed

lemma run_plain_steady: "steady s (run_plain ops fl s)"
proof -
  have g: "steady s (gather ops fl s)"
    by (simp add: gather_def gather_export_steady gather_schema_steady gather_dir_steady)
  show ?thesis
  proof (cases "gather ops fl s")
    case (Pair r s1)
    show ?thesis
    proof (cases r)
      case (Inl c)
      with g Pair show ?thesis by (simp add: run_plain_def steady_def)
    next
      case (Inr x)
      obtain infos names dir where x: "x = (infos, names, dir)" by (cases x)
      have "im_removed s1 = im_removed s" using g Pair by (simp add: steady_def)
      then show ?thesis unfolding run_plain_def Pair Inr x Let_def
        by (simp add: run_tables_steady)
    qed
  qed
qed

text \<open>
  Where the data of a run came from when that went well, stage by stage: an export job, created or given, whose files were
  downloaded into a new temporary directory without a cancellation; the schema alone; or a directory given by the user, with
  the stored export times or the tables of its files.
\<close>

inductive sourced ::
    "'w imp_ops \<Rightarrow> import_flags \<Rightarrow> 'w imp \<Rightarrow> (string \<times> int) list \<Rightarrow> string list \<Rightarrow> string \<Rightarrow> 'w imp \<Rightarrow> bool" for ops fl s where
  from_export: "sourced ops fl s infos (map fst infos) dir (s4\<lparr>im_world := w5\<rparr>)"
    if "fl_dir fl = []" "\<not> fl_schema_only fl"
      "if fl_job_id fl = [] then export_stage ops fl (fl_only fl) s = (Inr job_id, s1) else job_id = fl_job_id fl \<and> s1 = s"
      "poll_stage ops True job_id s1 = (Inr job, s2)"
      "io_mkdtemp ops (''import-'' @ job_id @ ''-'') (im_world s2) = (Inr dir, w3)"
      "on_w (bulk_download_data (io_dl ops) (io_order ops) (ej_tables job) dir)
         (s2\<lparr>im_world := w3, im_temp_dirs := im_temp_dirs s2 @ [dir]\<rparr>) = (Inr infos, s4)"
      "io_cancelled ops (im_world s4) = (False, w5)"
| from_schema: "sourced ops fl s (map (\<lambda>t. (t, now)) (dkeys schema)) (dkeys schema) [] (s\<lparr>im_world := w2\<rparr>)"
    if "fl_dir fl = []" "fl_schema_only fl" "io_latest_schema ops (im_world s) = (Inr schema, w1)" "io_now ops w1 = (now, w2)"
| from_stored: "sourced ops fl s (zip tables (map (\<lambda>i. instant ops (snd i)) infos)) tables (fl_dir fl) s1"
    if "fl_dir fl \<noteq> []" "with_tracker ops load_table_export_info s = (Inr (Some infos), s1)" "mapM table_name infos = Inr tables"
| from_files: "sourced ops fl s [] (file_tables (list_dir (fl_dir fl) entries)) (fl_dir fl) (s1\<lparr>im_world := w2\<rparr>)"
    if "fl_dir fl \<noteq> []" "with_tracker ops load_table_export_info s = (Inr None, s1)" "io_scan ops (fl_dir fl) (im_world s1) = (Inr entries, w2)"

text \<open>Every stage went well: the data are there, the importer ran on the tables asked for, and the versions of the tables are set.\<close>

definition all_well :: "'w imp_ops \<Rightarrow> import_flags \<Rightarrow> 'w imp \<Rightarrow> (string \<times> int) list \<Rightarrow> string \<Rightarrow> 'w imp \<Rightarrow> bool" where
  "all_well ops fl s infos dir s' \<longleftrightarrow>
     (\<exists>names tables s1 s2. sourced ops fl s infos names dir s1 \<and>
        tables = (if fl_only fl = [] then names else filter (\<lambda>t. t \<in> set (fl_only fl)) names) \<and>
        on_tw (io_run_import ops (importer_settings fl dir tables None)) s1 = (Inr (), s2) \<and>
        (if io_migrates ops
         then \<exists>latest s3. on_w (io_latest_schema ops) s2 = (Inr latest, s3) \<and> set_versions ops latest tables infos s3 = (Inr (), s')
         else s' = s2))"

lemma or_exit_Inr: "or_exit r f = (Inr y, s) \<longleftrightarrow> (\<exists>x s1. r = (Inr x, s1) \<and> f x s1 = (Inr y, s))"
  by (auto simp: or_exit_def split: prod.splits sum.splits)

lemma andthen_st_Inr: "andthen_st r f = (Inr y, s) \<longleftrightarrow> (\<exists>x s1. r = (Inr x, s1) \<and> f x s1 = (Inr y, s))"
  by (auto simp: andthen_st_def split: prod.splits sum.splits)

lemma on_w_conv: "on_w f s = (r, s') \<longleftrightarrow> (\<exists>w. f (im_world s) = (r, w) \<and> s' = s\<lparr>im_world := w\<rparr>)"
  by (auto simp: on_w_def split: prod.splits)

lemma case_on_w: "(case on_w f s of (c, s') \<Rightarrow> g c s') = y \<longleftrightarrow> (\<exists>c w. f (im_world s) = (c, w) \<and> g c (s\<lparr>im_world := w\<rparr>) = y)"
  by (auto simp: on_w_def split: prod.splits)

lemma temp_dir_Inr:
  "temp_dir ops j s = (Inr d, s') \<longleftrightarrow>
     (\<exists>w. io_mkdtemp ops (''import-'' @ j @ ''-'') (im_world s) = (Inr d, w) \<and> s' = s\<lparr>im_world := w, im_temp_dirs := im_temp_dirs s @ [d]\<rparr>)"
  by (auto simp: temp_dir_def andthen_st_Inr on_w_conv)

lemma gather_export_Inr:
  assumes "fl_dir fl = []" "\<not> fl_schema_only fl"
  shows "gather_export ops fl s = (Inr (infos, names, dir), s') \<longleftrightarrow> sourced ops fl s infos names dir s'"
proof
  assume "gather_export ops fl s = (Inr (infos, names, dir), s')"
  then obtain job_id s1 job s2 w3 s4 w5 where
    "if fl_job_id fl = [] then export_stage ops fl (fl_only fl) s = (Inr job_id, s1) else job_id = fl_job_id fl \<and> s1 = s"
    "poll_stage ops True job_id s1 = (Inr job, s2)" "io_mkdtemp ops (''import-'' @ job_id @ ''-'') (im_world s2) = (Inr dir, w3)"
    "on_w (bulk_download_data (io_dl ops) (io_order ops) (ej_tables job) dir)
         (s2\<lparr>im_world := w3, im_temp_dirs := im_temp_dirs s2 @ [dir]\<rparr>) = (Inr infos, s4)"
    "io_cancelled ops (im_world s4) = (False, w5)" "names = map fst infos" "s' = s4\<lparr>im_world := w5\<rparr>"
    unfolding gather_export_def or_exit_Inr temp_dir_Inr case_on_w
    by (auto split: if_splits)
  with assms show "sourced ops fl s infos names dir s'" by (auto intro: from_export)
next
  assume "sourced ops fl s infos names dir s'"
  then show "gather_export ops fl s = (Inr (infos, names, dir), s')"
    using assms by cases (auto simp: gather_export_def or_exit_def temp_dir_def on_w_def andthen_st_def split: if_splits)
qed

lemma gather_dir_Inr:
  assumes "fl_dir fl \<noteq> []"
  shows "gather_dir ops fl s = (Inr (infos, names, dir), s') \<longleftrightarrow> sourced ops fl s infos names dir s'"
proof -
  obtain r s1 where w: "with_tracker ops load_table_export_info s = (r, s1)" by fastforce
  consider e where "r = Inl e" | "r = Inr None" | x where "r = Inr (Some x)" by (cases r) auto
  then show ?thesis
  proof cases
    case 1
    with w assms show ?thesis by (subst sourced.simps) (simp add: gather_dir_def or_exit_def)
  next
    case 2
    with w assms show ?thesis by (subst sourced.simps) (auto simp: gather_dir_def or_exit_Inr on_w_conv)
  next
    case (3 x)
    with w assms show ?thesis by (cases "mapM table_name x"; subst sourced.simps) (auto simp: gather_dir_def or_exit_Inr)
  qed
qed

lemma sourced_mkdtemp:
  assumes "sourced ops fl s infos names dir s1" "fl_dir fl = []" "dir \<noteq> []"
  shows "\<exists>job_id w w'. io_mkdtemp ops (''import-'' @ job_id @ ''-'') w = (Inr dir, w')"
  using assms by cases (blast | simp)+

lemma gather_Inr: "gather ops fl s = (Inr (infos, names, dir), s') \<longleftrightarrow> sourced ops fl s infos names dir s'"
proof (cases "fl_dir fl = []")
  case True
  show ?thesis
  proof (cases "fl_schema_only fl")
    case schema: True
    have "gather_schema ops s = (Inr (infos, names, dir), s') \<longleftrightarrow> sourced ops fl s infos names dir s'"
      by (subst sourced.simps) (force simp: gather_schema_def or_exit_Inr case_on_w on_w_conv True schema)
    with True schema show ?thesis by (simp add: gather_def)
  qed (use True gather_export_Inr in \<open>simp add: gather_def\<close>)
next
  case False
  then show ?thesis by (simp add: gather_def gather_dir_Inr)
qed

lemma run_plain_Inr: "run_plain ops fl s = (Inr (infos, dir), s') \<longleftrightarrow> all_well ops fl s infos dir s'"
proof (cases "gather ops fl s")
  case (Pair r s1)
  show ?thesis
  proof (cases r)
    case (Inl e)
    then have "\<not> sourced ops fl s infos names dir s2" for names s2 using Pair by (simp flip: gather_Inr)
    with Pair Inl show ?thesis by (simp add: run_plain_def all_well_def)
  next
    case (Inr x)
    obtain i names d where x: "x = (i, names, d)" by (cases x)
    define tables where "tables = (if fl_only fl = [] then names else filter (\<lambda>t. t \<in> set (fl_only fl)) names)"
    have t: "(if fl_only fl \<noteq> [] then filter (\<lambda>t. t \<in> set (fl_only fl)) names else names) = tables" by (simp add: tables_def)
    have src: "sourced ops fl s infos n dir s2 \<longleftrightarrow> infos = i \<and> n = names \<and> dir = d \<and> s2 = s1" for n s2
      using Pair Inr x by (auto simp flip: gather_Inr)
    have "run_plain ops fl s =
      or_exit (on_tw (io_run_import ops (importer_settings fl d tables None)) s1) (\<lambda>_ s2.
       or_exit (if io_migrates ops
                then andthen_st (on_w (io_latest_schema ops) s2) (\<lambda>latest. set_versions ops latest tables i)
                else (Inr (), s2)) (\<lambda>_ s3. (Inr (i, d), s3)))"
      unfolding run_plain_def Pair Inr x andthen_st_simps prod.case Let_def t ..
    moreover have "all_well ops fl s infos dir s' \<longleftrightarrow> infos = i \<and> dir = d \<and>
        (\<exists>s2. on_tw (io_run_import ops (importer_settings fl d tables None)) s1 = (Inr (), s2) \<and>
          (if io_migrates ops
           then \<exists>latest s3. on_w (io_latest_schema ops) s2 = (Inr latest, s3) \<and> set_versions ops latest tables i s3 = (Inr (), s')
           else s' = s2))"
      unfolding all_well_def src by (auto simp: tables_def)
    ultimately show ?thesis by (cases "io_migrates ops") (auto simp: or_exit_Inr andthen_st_Inr)
  qed
qed

text \<open>C15: an import without recovery has exit code 0 exactly when every stage of it went well, and otherwise 1: the data were
  exported, polled, downloaded into a new directory without a cancellation, or taken from the schema or the directory of the
  user; the importer ran on the tables asked for; the versions of the tables were set. A failed run removes no directory; a
  successful one removes exactly the temporary directory that \<open>mkdtemp\<close> gave it, unless told to keep it, and never the
  directory given by the user. With the tracker open and the export times between 1970 and 9999, the times that the consumer
  process reads back are the cutoffs of the tables.\<close>

theorem plain_import_contract:
  assumes "do_import_plain ops fl s = (code, s')"
  shows "(code = EXIT_SUCCESS \<longleftrightarrow> (\<exists>infos dir s1. all_well ops fl s infos dir s1)) \<and>
    (code \<noteq> EXIT_SUCCESS \<longrightarrow> code = EXIT_ERROR \<and> im_removed s' = im_removed s) \<and>
    (\<forall>infos dir s1. all_well ops fl s infos dir s1 \<longrightarrow>
       im_removed s' = im_removed s @ (if fl_no_cleanup fl \<or> fl_dir fl \<noteq> [] \<or> dir = [] then [] else [dir]) \<and>
       (fl_dir fl = [] \<and> dir \<noteq> [] \<longrightarrow> (\<exists>job_id w w'. io_mkdtemp ops (''import-'' @ job_id @ ''-'') w = (Inr dir, w'))) \<and>
       (\<not> tracker_closed (im_tracker s1) \<and> stampable infos \<longrightarrow>
          (\<exists>t1. load_cutoffs later (im_tracker s') = (Inr (Some (cutoffs_of infos)), t1))))"
proof -
  obtain r s1 where r: "run_plain ops fl s = (r, s1)" by fastforce
  have st: "steady s (r, s1)" using run_plain_steady [of s ops fl] r by simp
  show ?thesis
  proof (cases r)
    case (Inl c)
    have "\<not> all_well ops fl s infos dir s2" for infos dir s2 using r Inl by (simp flip: run_plain_Inr)
    with assms r st Inl show ?thesis by (auto simp: do_import_plain_def steady_def EXIT_ERROR_def EXIT_SUCCESS_def)
  next
    case (Inr x)
    obtain infos dir where x: "x = (infos, dir)" by (cases x)
    have well: "all_well ops fl s infos' dir' s2 \<longleftrightarrow> infos' = infos \<and> dir' = dir \<and> s2 = s1" for infos' dir' s2
      using r Inr x by (auto simp flip: run_plain_Inr)
    define s2 where "s2 = (if \<not> fl_no_cleanup fl \<and> fl_dir fl = [] \<and> dir \<noteq> [] then remove_dirs ops [dir] s1 else s1)"
    have s': "code = EXIT_SUCCESS" "s' = save_cutoffs ops infos s2" using assms r Inr x by (simp_all add: do_import_plain_def s2_def Let_def)
    have r2: "im_removed s2 = im_removed s @ (if fl_no_cleanup fl \<or> fl_dir fl \<noteq> [] \<or> dir = [] then [] else [dir])" "im_tracker s2 = im_tracker s1"
      using st by (auto simp: s2_def remove_dirs_def steady_def)
    have "\<exists>t1. load_cutoffs later (im_tracker s') = (Inr (Some (cutoffs_of infos)), t1)" if "\<not> tracker_closed (im_tracker s1)" "stampable infos"
      using stored_cutoffs [OF that(2), of s2 later ops] that(1) r2(2) s'(2) by simp
    moreover have "\<exists>job_id w w'. io_mkdtemp ops (''import-'' @ job_id @ ''-'') w = (Inr dir, w')" if "fl_dir fl = []" "dir \<noteq> []"
    proof -
      have "all_well ops fl s infos dir s1" by (simp add: well)
      then obtain names s3 where "sourced ops fl s infos names dir s3" unfolding all_well_def by blast
      then show ?thesis using that by (rule sourced_mkdtemp)
    qed
    ultimately show ?thesis unfolding well using s' r2(1) save_cutoffs_removed [of ops infos s2] by simp
  qed
qed

theorem plain_import_contract_witness:
  "\<exists>s' t1. do_import_plain sample_imp_ops (sample_flags\<lparr>fl_schema_only := True\<rparr>) sample_imp = (EXIT_SUCCESS, s') \<and> im_removed s' = [] \<and>
     load_cutoffs 9 (im_tracker s') = (Inr (Some [(PStr ''a'', Some (Aware 0)), (PStr ''b'', Some (Aware 0))]), t1)"
proof -
  let ?fl = "sample_flags\<lparr>fl_schema_only := True\<rparr>"
  have fl: "fl_only ?fl = []" "fl_dir ?fl = []" by (simp_all add: sample_flags_def)
  have "io_now sample_imp_ops w = (0, w)" for w by (simp add: sample_imp_ops_def)
  then have "run_plain sample_imp_ops ?fl sample_imp = (Inr ([(''a'', 0), (''b'', 0)], []), sample_imp)"
    by (simp add: run_plain_def gather_def gather_schema_def or_exit_def on_w_def on_tw_def sample_ops fl sample_imp_def)
  then have well: "all_well sample_imp_ops ?fl sample_imp [(''a'', 0), (''b'', 0)] [] sample_imp" by (simp add: run_plain_Inr)
  obtain code s' where d: "do_import_plain sample_imp_ops ?fl sample_imp = (code, s')" by fastforce
  have "stampable [(''a'', 0), (''b'', 0)]" "\<not> tracker_closed (im_tracker sample_imp)" "im_removed sample_imp = []"
    "cutoffs_of [(''a'', 0), (''b'', 0)] = [(PStr ''a'', Some (Aware 0)), (PStr ''b'', Some (Aware 0))]"
    by (simp_all add: stampable_def MAX_MICROS_def sample_imp_def cutoffs_of_def)
  with plain_import_contract [OF d, of 9] well d show ?thesis by fastforce
qed

end
