(* ===== verification/Importer.thy ===== *)
theory Importer
  imports Ndjson Registry SqlBase
begin

text \<open>
  The replay of downloaded export files into a driver, \<open>src/eds/importer/__init__.py\<close>. What the run reads,
  the schema of the registry, the directory, the files and the answers of the validator, is a record of
  functions: it does not change during a run. What it writes, the driver's import handler and the tracker, are
  operations on an abstract world \<open>'w\<close>, each of which may fail. The counts that the code logs are returned.
\<close>

section \<open>The seams\<close>

type_synonym schema_map = "(string \<times> schema) list"

record import_source =
  src_latest_schema :: "schema_map res"
  src_scan :: "string \<Rightarrow> dir_entry list res"
  src_open :: "bool \<Rightarrow> string \<Rightarrow> stream res"
  src_peek :: "string \<Rightarrow> unit res"
  src_validate :: "(db_change_event \<Rightarrow> (bool \<times> bool \<times> string) res) option"
  src_hash :: "string \<Rightarrow> string"

text \<open>The \<open>Handler\<close> and \<open>ImportFlusher\<close> protocols, and \<open>set_key\<close> of the tracker of the configuration, if it has one.\<close>

record 'w import_handler =
  ih_create_datasource :: "schema_map \<Rightarrow> 'w \<Rightarrow> unit res \<times> 'w"
  ih_import_event :: "db_change_event \<Rightarrow> schema \<Rightarrow> 'w \<Rightarrow> unit res \<times> 'w"
  ih_import_completed :: "'w \<Rightarrow> unit res \<times> 'w"
  ih_flush_imported :: "('w \<Rightarrow> unit res \<times> 'w) option"
  ih_set_key :: "(string \<Rightarrow> string \<Rightarrow> 'w \<Rightarrow> unit res \<times> 'w) option"

definition os_error :: "string \<Rightarrow> exc \<Rightarrow> exc" where
  "os_error m e = (case e of OSError x \<Rightarrow> OSError (m @ x) | _ \<Rightarrow> e)"

definition os_runtime :: "string \<Rightarrow> exc \<Rightarrow> exc" where
  "os_runtime m e = (case e of OSError x \<Rightarrow> RuntimeError (m @ x) | _ \<Rightarrow> e)"

definition value_runtime :: "string \<Rightarrow> exc \<Rightarrow> exc" where
  "value_runtime m e = (case e of ValueError x \<Rightarrow> RuntimeError (m @ x) | _ \<Rightarrow> e)"

definition ndjson_open :: "import_source \<Rightarrow> string \<Rightarrow> ndjson_decoder res" where
  "ndjson_open S fn =
     andthen (map_exc (os_error (''error opening: '' @ fn @ ''. '')) (src_open S (has_gz_ext fn) fn)) (\<lambda>fp.
     andthen (if has_gz_ext fn then map_exc (os_error (''gzip: error opening: '' @ fn @ ''. '')) (src_peek S fn) else Inr ()) (\<lambda>_.
       Inr (ndjson_of_stream fp)))"

section \<open>One file\<close>

definition str_field :: "pydict \<Rightarrow> string \<Rightarrow> string option \<Rightarrow> string option" where
  "str_field ob key old = (case dget ob key of Some (PStr v) \<Rightarrow> Some v | _ \<Rightarrow> old)"

text \<open>The event of one line: the key is read before the object, and an error of that reading is dropped; the
  company identifier goes into the location, as in the code.\<close>

definition import_line_event :: "string \<Rightarrow> string \<Rightarrow> int \<Rightarrow> schema \<Rightarrow> string \<Rightarrow> db_change_event res" where
  "import_line_event event_id table unix_nano data raw =
     (let ev0 = \<lparr>ev_operation = ''INSERT'', ev_id = event_id, ev_table = table, ev_key = None,
                 ev_model_version = s_model_version data, ev_company_id = None, ev_location_id = None, ev_user_id = None,
                 ev_before = None, ev_after = Some raw, ev_diff = None, ev_timestamp = unix_nano div 1000000,
                 ev_mvcc_timestamp = str_int unix_nano, ev_imported = False, ev_nats_msg = None,
                 ev_schema_validated_path = None, ev_object = None\<rparr> in
      case get_primary_key ev0 of (k, ev1) \<Rightarrow>
      case get_object (ev1\<lparr>ev_key := Some [case k of Inr v \<Rightarrow> v | Inl _ \<Rightarrow> '''']\<rparr>) of
        (Inl e, ev2) \<Rightarrow> Inl (value_runtime ''unable to get object: '' e)
      | (Inr None, ev2) \<Rightarrow> Inr (ev2\<lparr>ev_imported := True\<rparr>)
      | (Inr (Some ob), ev2) \<Rightarrow>
          Inr (ev2\<lparr>ev_location_id := str_field ob ''companyId'' (str_field ob ''locationId'' (ev_location_id ev2)),
                   ev_user_id := str_field ob ''userId'' (ev_user_id ev2), ev_imported := True\<rparr>))"

text \<open>The validator: \<open>None\<close> when the event is skipped.\<close>

definition validated :: "import_source \<Rightarrow> db_change_event \<Rightarrow> db_change_event option res" where
  "validated S ev =
     (case src_validate S of
        None \<Rightarrow> Inr (Some ev)
      | Some validate \<Rightarrow>
          (case validate ev of
             Inl (SchemaValidationError m) \<Rightarrow> Inr None
           | Inl e \<Rightarrow> Inl (RuntimeError (''error validating schema: '' @ exc_str e))
           | Inr (found, valid, path) \<Rightarrow>
               if \<not> found \<or> \<not> valid then Inr None
               else Inr (Some (if path \<noteq> '''' then ev\<lparr>ev_schema_validated_path := Some path\<rparr> else ev))))"

definition import_line ::
    "import_source \<Rightarrow> 'w import_handler \<Rightarrow> (string \<Rightarrow> db_change_event res) \<Rightarrow> schema \<Rightarrow> string \<Rightarrow> 'w \<Rightarrow> nat res \<times> 'w" where
  "import_line S H mk data raw w =
     (case andthen (mk raw) (validated S) of
        Inl e \<Rightarrow> (Inl e, w)
      | Inr None \<Rightarrow> (Inr 0, w)
      | Inr (Some ev) \<Rightarrow> andthen_st (ih_import_event H ev data w) (\<lambda>_ w1. (Inr 1, w1)))"

definition nd_left :: "ndjson_decoder \<Rightarrow> nat" where
  "nd_left d = length (nd_lines d) + (if nd_has_peeked d then 1 else 0)"

lemma next_value_shrinks: "next_value lines e = (Inr (Some v), lines') \<Longrightarrow> length lines' < length lines"
  by (induction lines e rule: next_value.induct) (auto split: if_splits stream_end.splits)

lemma decode_raw_shrinks: "nd_more d = (Inr True, d1) \<Longrightarrow> decode_raw d1 = (Inr raw, d2) \<Longrightarrow> nd_left d2 < nd_left d"
  by (cases "nd_has_peeked d")
     (auto simp: nd_more_def decode_raw_def nd_left_def Let_def next_value_shrinks
           split: prod.splits sum.splits option.splits if_splits)

function (sequential) import_lines ::
    "import_source \<Rightarrow> 'w import_handler \<Rightarrow> (string \<Rightarrow> db_change_event res) \<Rightarrow> schema \<Rightarrow> nat \<Rightarrow> ndjson_decoder \<Rightarrow> 'w \<Rightarrow> nat res \<times> 'w" where
  "import_lines S H mk data cnt d w =
     (case nd_more d of
        (Inl e, d1) \<Rightarrow> (Inl e, w)
      | (Inr False, d1) \<Rightarrow> (Inr cnt, w)
      | (Inr True, d1) \<Rightarrow>
          (case decode_raw d1 of
             (Inl e, d2) \<Rightarrow> (Inl (value_runtime ''unable to decode JSON: '' e), w)
           | (Inr raw, d2) \<Rightarrow>
               (case import_line S H mk data raw w of
                  (Inl e, w1) \<Rightarrow> (Inl e, w1)
                | (Inr n, w1) \<Rightarrow> import_lines S H mk data (cnt + n) d2 w1)))"
  by pat_completeness auto
termination
  by (relation "measure (\<lambda>(S, H, mk, data, cnt, d, w). nd_left d)") (auto dest: decode_raw_shrinks [OF sym sym])

declare import_lines.simps [simp del]

definition process_file ::
    "import_source \<Rightarrow> 'w import_handler \<Rightarrow> schema_map \<Rightarrow> string \<Rightarrow> string \<Rightarrow> int \<Rightarrow> 'w \<Rightarrow> nat res \<times> 'w" where
  "process_file S H schema file table unix_nano w =
     (case dget schema table of
        None \<Rightarrow> (Inl (RuntimeError (''unexpected table ('' @ table @ '') not found in schema but in import directory: '' @ file)), w)
      | Some data \<Rightarrow>
          (case map_exc (os_runtime (''unable to create JSON decoder for '' @ file @ '': '')) (ndjson_open S file) of
             Inl e \<Rightarrow> (Inl e, w)
           | Inr dec \<Rightarrow>
               import_lines S H (import_line_event (src_hash S (basename file)) table unix_nano data) data 0 dec w))"

section \<open>The run\<close>

fun plain_files ::
    "import_source \<Rightarrow> 'w import_handler \<Rightarrow> importer_config \<Rightarrow> schema_map \<Rightarrow> nat \<Rightarrow> string list \<Rightarrow> 'w \<Rightarrow> nat res \<times> 'w" where
  "plain_files S H config schema acc [] w = (Inr acc, w)"
| "plain_files S H config schema acc (file # files) w =
     (let f = parse_crdb_export_file file in
      if \<not> cf_ok f \<or> cf_table f \<notin> set (ic_tables config) then plain_files S H config schema acc files w
      else andthen_st (process_file S H schema file (cf_table f) (cf_unix_nanos f) w)
             (\<lambda>n w1. plain_files S H config schema (acc + n) files w1))"

definition write_progress_marker :: "'w import_handler \<Rightarrow> importer_config \<Rightarrow> string \<Rightarrow> 'w \<Rightarrow> unit res \<times> 'w" where
  "write_progress_marker H config table w =
     (case ih_set_key H of
        None \<Rightarrow> (Inr (), w)
      | Some put \<Rightarrow>
          if ic_run_id config = '''' then (Inr (), w)
          else put (''import-progress:'' @ ic_run_id config @ '':'' @ table) ''1'' w)"

definition group_files :: "importer_config \<Rightarrow> string list \<Rightarrow> (string \<times> (string \<times> int) list) list" where
  "group_files config files =
     fold (\<lambda>file g.
             let f = parse_crdb_export_file file in
             if \<not> cf_ok f \<or> cf_table f \<notin> set (ic_tables config) then g
             else dset (cf_table f) ((case dget g (cf_table f) of None \<Rightarrow> [] | Some fs \<Rightarrow> fs) @ [(file, cf_unix_nanos f)]) g)
       files []"

fun table_files ::
    "import_source \<Rightarrow> 'w import_handler \<Rightarrow> schema_map \<Rightarrow> string \<Rightarrow> nat \<Rightarrow> (string \<times> int) list \<Rightarrow> 'w \<Rightarrow> nat res \<times> 'w" where
  "table_files S H schema table t_total [] w = (Inr t_total, w)"
| "table_files S H schema table t_total ((file, unix_nano) # files) w =
     andthen_st (process_file S H schema file table unix_nano w)
       (\<lambda>n w1. table_files S H schema table (t_total + n) files w1)"

fun each_table ::
    "import_source \<Rightarrow> 'w import_handler \<Rightarrow> importer_config \<Rightarrow> schema_map \<Rightarrow> (string \<times> (string \<times> int) list) list \<Rightarrow> nat \<Rightarrow> string list \<Rightarrow>
     'w \<Rightarrow> nat res \<times> 'w" where
  "each_table S H config schema g acc [] w = (Inr acc, w)"
| "each_table S H config schema g acc (table # tables) w =
     andthen_st (table_files S H schema table 0 (case dget g table of None \<Rightarrow> [] | Some fs \<Rightarrow> fs) w) (\<lambda>n w1.
     andthen_st (case ih_flush_imported H of
                   None \<Rightarrow> (Inr (), w1)
                 | Some fl \<Rightarrow> andthen_st (fl w1) (\<lambda>_. write_progress_marker H config table)) (\<lambda>_ w2.
       each_table S H config schema g (acc + n) tables w2))"

fun mark_all :: "'w import_handler \<Rightarrow> importer_config \<Rightarrow> string list \<Rightarrow> 'w \<Rightarrow> unit res \<times> 'w" where
  "mark_all H config [] w = (Inr (), w)"
| "mark_all H config (table # tables) w = andthen_st (write_progress_marker H config table w) (\<lambda>_ w1. mark_all H config tables w1)"

definition ordered_tables :: "importer_config \<Rightarrow> (string \<times> (string \<times> int) list) list \<Rightarrow> string list" where
  "ordered_tables config g = dkeys g @ filter (\<lambda>t. t \<notin> set (dkeys g)) (ic_tables config)"

definition run_recovery ::
    "import_source \<Rightarrow> 'w import_handler \<Rightarrow> importer_config \<Rightarrow> schema_map \<Rightarrow> string list \<Rightarrow> 'w \<Rightarrow> nat res \<times> 'w" where
  "run_recovery S H config schema files w =
     (let g = group_files config files; ordered = ordered_tables config g in
      andthen_st (each_table S H config schema g 0 ordered w) (\<lambda>acc w1.
      andthen_st (ih_import_completed H w1) (\<lambda>_ w2.
      andthen_st (if ih_flush_imported H = None then mark_all H config ordered w2 else (Inr (), w2)) (\<lambda>_ w3.
        (Inr acc, w3)))))"

definition importer_run :: "import_source \<Rightarrow> 'w import_handler \<Rightarrow> importer_config \<Rightarrow> 'w \<Rightarrow> unit res \<times> 'w" where
  "importer_run S H config w =
     (case map_exc (\<lambda>e. RuntimeError (''unable to get schema: '' @ exc_str e)) (src_latest_schema S) of
        Inl e \<Rightarrow> (Inl e, w)
      | Inr schema \<Rightarrow>
          andthen_st (if ic_no_delete config then (Inr (), w) else ih_create_datasource H schema w) (\<lambda>_ w1.
            if ic_schema_only config then (Inr (), w1)
            else
              (case map_exc (os_runtime ''unable to list files in directory: '') (src_scan S (ic_data_dir config)) of
                 Inl e \<Rightarrow> (Inl e, w1)
               | Inr entries \<Rightarrow>
                   (let files = list_dir (ic_data_dir config) entries in
                    andthen_st
                      (if ic_recovery_enabled config then run_recovery S H config schema files w1
                       else andthen_st (plain_files S H config schema 0 files w1)
                              (\<lambda>acc w2. andthen_st (ih_import_completed H w2) (\<lambda>_ w3. (Inr acc, w3))))
                      (\<lambda>_ w4. (Inr (), w4))))))"

section \<open>The calls of a run\<close>

text \<open>
  A handler that records its calls, the last one first: the calls that returned normally, and every attempt to
  write a marker with the world it was made in. \<open>erase\<close> forgets the record; a run of the recording handler is a
  run of the handler itself.
\<close>

datatype 'w import_call = Created | Imported db_change_event | Flushed | Completed | Marked string 'w

definition logging :: "'w import_call \<Rightarrow> 'w import_call list \<Rightarrow> unit res \<times> 'w \<Rightarrow> unit res \<times> 'w \<times> 'w import_call list" where
  "logging c L r = (case r of (Inr u, w) \<Rightarrow> (Inr u, w, c # L) | (Inl e, w) \<Rightarrow> (Inl e, w, L))"

definition logged :: "'w import_handler \<Rightarrow> ('w \<times> 'w import_call list) import_handler" where
  "logged H =
     \<lparr>ih_create_datasource = (\<lambda>s (w, L). logging Created L (ih_create_datasource H s w)),
      ih_import_event = (\<lambda>ev s (w, L). logging (Imported ev) L (ih_import_event H ev s w)),
      ih_import_completed = (\<lambda>(w, L). logging Completed L (ih_import_completed H w)),
      ih_flush_imported = map_option (\<lambda>f (w, L). logging Flushed L (f w)) (ih_flush_imported H),
      ih_set_key = map_option (\<lambda>f k v (w, L). case f k v w of (r, w') \<Rightarrow> (r, w', Marked k w # L)) (ih_set_key H)\<rparr>"

definition erase :: "'a res \<times> 'w \<times> 'w import_call list \<Rightarrow> 'a res \<times> 'w" where
  "erase x = (fst x, fst (snd x))"

lemma erase_simps [simp]: "erase (r, w, L) = (r, w)" "erase (logging c L x) = x"
  by (auto simp: erase_def logging_def split: prod.splits sum.splits)

lemma erase_andthen_st:
  "erase x = z \<Longrightarrow> (\<And>y v M. erase (f y (v, M)) = g y v) \<Longrightarrow> erase (andthen_st x f) = andthen_st z g"
proof -
  assume z: "erase x = z"
  assume f: "\<And>y v M. erase (f y (v, M)) = g y v"
  obtain r v M where "x = (r, v, M)" by (rule prod_cases3)
  with f z show ?thesis by (cases r) auto
qed

lemma logged_sels [simp]:
  "ih_create_datasource (logged H) s (w, L) = logging Created L (ih_create_datasource H s w)"
  "ih_import_event (logged H) ev data (w, L) = logging (Imported ev) L (ih_import_event H ev data w)"
  "ih_import_completed (logged H) (w, L) = logging Completed L (ih_import_completed H w)"
  "ih_flush_imported (logged H) = map_option (\<lambda>f (w, L). logging Flushed L (f w)) (ih_flush_imported H)"
  "ih_set_key (logged H) = map_option (\<lambda>f k v (w, L). case f k v w of (r, w') \<Rightarrow> (r, w', Marked k w # L)) (ih_set_key H)"
  by (simp_all add: logged_def)

lemma erase_import_line: "erase (import_line S (logged H) mk data raw (w, L)) = import_line S H mk data raw w"
  by (auto simp: import_line_def split: sum.splits option.splits intro!: erase_andthen_st)

lemma erase_import_lines: "erase (import_lines S (logged H) mk data cnt d (w, L)) = import_lines S H mk data cnt d w"
proof (induction S H mk data cnt d w arbitrary: L rule: import_lines.induct)
  case (1 S H mk data cnt d w)
  show ?case
  proof (cases "\<exists>d1 raw d2. nd_more d = (Inr True, d1) \<and> decode_raw d1 = (Inr raw, d2)")
    case True
    then obtain d1 raw d2 where m: "nd_more d = (Inr True, d1)" "decode_raw d1 = (Inr raw, d2)" by blast
    obtain r w1 L1 where i: "import_line S (logged H) mk data raw (w, L) = (r, w1, L1)"
      by (rule prod_cases3)
    with erase_import_line [of S H mk data raw w L] have "import_line S H mk data raw w = (r, w1)" by simp
    with i m 1 show ?thesis by (cases r) (simp_all add: import_lines.simps [of _ _ _ _ _ d])
  next
    case False
    then show ?thesis
      by (auto simp: import_lines.simps [of _ _ _ _ _ d] split: prod.splits sum.splits bool.splits)
  qed
qed

lemma erase_process_file: "erase (process_file S (logged H) sm f t u (w, L)) = process_file S H sm f t u w"
  by (auto simp: process_file_def erase_import_lines split: option.splits sum.splits)

lemma erase_marker: "erase (write_progress_marker (logged H) config t (w, L)) = write_progress_marker H config t w"
  by (auto simp: write_progress_marker_def split: option.splits prod.splits)

lemma erase_plain_files: "erase (plain_files S (logged H) config sm acc fs (w, L)) = plain_files S H config sm acc fs w"
  by (induction fs arbitrary: acc w L)
     (auto simp: Let_def erase_process_file intro!: erase_andthen_st)

lemma erase_table_files: "erase (table_files S (logged H) sm t acc fs (w, L)) = table_files S H sm t acc fs w"
  by (induction fs arbitrary: acc w L)
     (auto simp: erase_process_file intro!: erase_andthen_st)

lemma erase_mark_all: "erase (mark_all (logged H) config ts (w, L)) = mark_all H config ts w"
  by (induction ts arbitrary: w L) (auto simp: erase_marker intro!: erase_andthen_st)

lemma erase_each_table: "erase (each_table S (logged H) config sm g acc ts (w, L)) = each_table S H config sm g acc ts w"
proof (induction ts arbitrary: acc w L)
  case (Cons t ts)
  show ?case
    by (cases "ih_flush_imported H") (auto intro!: erase_andthen_st simp: erase_table_files erase_marker Cons.IH)
qed simp

lemma erase_run: "erase (importer_run S (logged H) config (w, L)) = importer_run S H config w"
  unfolding importer_run_def run_recovery_def Let_def
  by (auto intro!: erase_andthen_st simp: erase_each_table erase_mark_all erase_plain_files split: sum.splits)

section \<open>The replay of the files\<close>

text \<open>The values of a stream: its lines, stripped, up to the first empty one, without the blank ones.\<close>

definition stream_values :: "string list \<Rightarrow> string list" where
  "stream_values lines = filter (\<lambda>v. v \<noteq> '''') (map strip (takeWhile (\<lambda>l. l \<noteq> '''') lines))"

definition nd_values :: "ndjson_decoder \<Rightarrow> string list" where
  "nd_values d =
     (if nd_has_peeked d then (case nd_peeked d of None \<Rightarrow> [] | Some v \<Rightarrow> v # stream_values (nd_lines d))
      else stream_values (nd_lines d))"

lemma next_value_values:
  "next_value lines e = (Inr v, lines') \<Longrightarrow>
     stream_values lines = (case v of None \<Rightarrow> [] | Some x \<Rightarrow> x # stream_values lines')"
  by (induction lines e rule: next_value.induct) (auto simp: stream_values_def split: if_splits stream_end.splits)

lemma nd_more_values:
  assumes "nd_more d = (Inr b, d1)"
  shows "nd_values d = nd_values d1" "b \<longleftrightarrow> nd_values d \<noteq> []" "nd_has_peeked d1" "b \<longleftrightarrow> nd_peeked d1 \<noteq> None"
  using assms next_value_values [of "nd_lines d" "nd_end d"]
  by (auto simp: nd_more_def nd_values_def split: if_splits prod.splits sum.splits option.splits)

lemma decode_raw_values:
  assumes "nd_has_peeked d" "decode_raw d = (Inr raw, d2)"
  shows "nd_values d = raw # nd_values d2"
  using assms by (auto simp: decode_raw_def nd_more_def nd_values_def Let_def split: if_splits option.splits)

text \<open>Reading the object of an event changes nothing but its cache.\<close>

lemma get_primary_key_fields: "\<exists>x. snd (get_primary_key ev) = ev\<lparr>ev_object := x\<rparr>"
proof (cases "ev_key ev = None \<or> ev_key ev = Some []")
  case True
  obtain r ev1 where g: "get_object ev = (r, ev1)" by fastforce
  have "ev1 = ev\<lparr>ev_object := ev_object ev1\<rparr>" using get_object_frame [of ev] g by simp
  with g True show ?thesis by (intro exI [of _ "ev_object ev1"]; cases r) (auto simp: get_primary_key_def)
next
  case False
  moreover have "\<exists>x. ev = ev\<lparr>ev_object := x\<rparr>" by (rule exI [of _ "ev_object ev"]) simp
  ultimately show ?thesis by (auto simp: get_primary_key_def split: option.splits list.splits)
qed

lemma import_line_event_fields:
  assumes "import_line_event i t u data raw = Inr ev"
  shows "ev_table ev = t \<and> ev_after ev = Some raw"
proof -
  define ev0 where "ev0 = \<lparr>ev_operation = ''INSERT'', ev_id = i, ev_table = t, ev_key = None,
                 ev_model_version = s_model_version data, ev_company_id = None, ev_location_id = None, ev_user_id = None,
                 ev_before = None, ev_after = Some raw, ev_diff = None, ev_timestamp = u div 1000000,
                 ev_mvcc_timestamp = str_int u, ev_imported = False, ev_nats_msg = None,
                 ev_schema_validated_path = None, ev_object = None\<rparr>"
  obtain k ev1 where k: "get_primary_key ev0 = (k, ev1)" by fastforce
  define ev1' where "ev1' = ev1\<lparr>ev_key := Some [case k of Inr v \<Rightarrow> v | Inl _ \<Rightarrow> '''']\<rparr>"
  obtain r ev2 where o: "get_object ev1' = (r, ev2)" by fastforce
  obtain x y where "ev1 = ev0\<lparr>ev_object := x\<rparr>" "ev2 = ev1'\<lparr>ev_object := y\<rparr>"
    using get_primary_key_fields [of ev0] get_object_frame [of ev1'] k o by auto
  then have "ev_table ev2 = t" "ev_after ev2 = Some raw" by (simp_all add: ev1'_def ev0_def)
  with assms k o show ?thesis
    unfolding import_line_event_def Let_def ev0_def [symmetric]
    by (auto simp: ev1'_def split: sum.splits option.splits)
qed

text \<open>The calls of a file: its events, of the table of the file, and on success without a validator all of its values.\<close>

definition replays :: "string \<Rightarrow> string list option \<Rightarrow> db_change_event list \<Rightarrow> bool" where
  "replays table vals es \<longleftrightarrow>
     (\<forall>e \<in> set es. ev_table e = table) \<and> (case vals of None \<Rightarrow> True | Some vs \<Rightarrow> map ev_after es = map Some vs)"

definition whole :: "import_source \<Rightarrow> 'a res \<Rightarrow> string list \<Rightarrow> string list option" where
  "whole S r vs = (case r of Inr _ \<Rightarrow> if src_validate S = None then Some vs else None | Inl _ \<Rightarrow> None)"

lemma replays_Nil [simp]: "replays t None []" "replays t (Some []) []"
  by (simp_all add: replays_def)

lemma replays_append: "replays t a es \<Longrightarrow> replays t b fs \<Longrightarrow> replays t None (es @ fs)"
  "replays t (Some vs) es \<Longrightarrow> replays t (Some us) fs \<Longrightarrow> replays t (Some (vs @ us)) (es @ fs)"
  by (auto simp: replays_def)

lemma validated_fields: "validated S e = Inr (Some e') \<Longrightarrow> ev_table e' = ev_table e \<and> ev_after e' = ev_after e"
  by (auto simp: validated_def split: option.splits sum.splits exc.splits if_splits)

lemma import_line_log:
  assumes "\<And>raw e. mk raw = Inr e \<Longrightarrow> ev_table e = t \<and> ev_after e = Some raw"
    and "import_line S (logged H) mk data raw (w, L) = (r, w', L')"
  shows "\<exists>es. L' = map Imported (rev es) @ L \<and> replays t (whole S r [raw]) es"
proof (cases "andthen (mk raw) (validated S)")
  case (Inl e)
  with assms(2) show ?thesis by (intro exI [of _ "[]"]) (auto simp: import_line_def whole_def)
next
  case (Inr oe)
  then obtain e where e: "mk raw = Inr e" "validated S e = Inr oe" by (auto simp: andthen_Inr_conv)
  show ?thesis
  proof (cases oe)
    case None
    with e(2) have "src_validate S \<noteq> None" by (intro notI) (simp add: validated_def)
    with assms(2) e None show ?thesis by (intro exI [of _ "[]"]) (auto simp: import_line_def whole_def)
  next
    case (Some e')
    with e validated_fields assms(1) have f: "ev_table e' = t" "ev_after e' = Some raw" by auto
    obtain x v where x: "ih_import_event H e' data w = (x, v)" by fastforce
    with Some f e assms(2) show ?thesis
      by (cases x; intro exI [of _ "if x = Inr () then [e'] else []"])
         (auto simp: import_line_def whole_def logging_def replays_def)
  qed
qed

lemma import_lines_log:
  assumes "\<And>raw e. mk raw = Inr e \<Longrightarrow> ev_table e = t \<and> ev_after e = Some raw"
    and "import_lines S (logged H) mk data cnt d (w, L) = (r, w', L')"
  shows "\<exists>es. L' = map Imported (rev es) @ L \<and> replays t (whole S r (nd_values d)) es"
  using assms
proof (induction S H mk data cnt d w arbitrary: L rule: import_lines.induct)
  case (1 S H mk data cnt d w)
  note run = 1(3)
  show ?case
  proof (cases "\<exists>d1 raw d2 n w1 L1. nd_more d = (Inr True, d1) \<and> decode_raw d1 = (Inr raw, d2) \<and>
      import_line S (logged H) mk data raw (w, L) = (Inr n, w1, L1)")
    case True
    then obtain d1 raw d2 n w1 L1 where m: "nd_more d = (Inr True, d1)" "decode_raw d1 = (Inr raw, d2)"
      and i: "import_line S (logged H) mk data raw (w, L) = (Inr n, w1, L1)" by blast
    from run m i have rest: "import_lines S (logged H) mk data (cnt + n) d2 (w1, L1) = (r, w', L')"
      by (simp add: import_lines.simps [of _ _ _ _ _ d])
    have h: "import_line S H mk data raw w = (Inr n, w1)" using erase_import_line [of S H mk data raw w L] i by simp
    have IH: "\<exists>es. L' = map Imported (rev es) @ L1 \<and> replays t (whole S r (nd_values d2)) es"
      by (rule 1(1) [OF m(1) [symmetric] refl refl m(2) [symmetric] refl h [symmetric] refl 1(2) rest])
    obtain es fs where es: "L1 = map Imported (rev es) @ L" "replays t (whole S (Inr n :: nat res) [raw]) es"
      and fs: "L' = map Imported (rev fs) @ L1" "replays t (whole S r (nd_values d2)) fs"
      using import_line_log [OF 1(2) i] IH by blast
    have v: "nd_values d = raw # nd_values d2"
      using nd_more_values [OF m(1)] decode_raw_values [OF _ m(2)] by simp
    have "replays t (whole S r (nd_values d)) (es @ fs)"
      using es(2) fs(2) by (cases r) (auto simp: whole_def v replays_def)
    with es(1) fs(1) show ?thesis by (intro exI [of _ "es @ fs"]) simp
  next
    case False
    show ?thesis
    proof (cases "\<exists>d1 raw d2. nd_more d = (Inr True, d1) \<and> decode_raw d1 = (Inr raw, d2)")
      case True
      then obtain d1 raw d2 where m: "nd_more d = (Inr True, d1)" "decode_raw d1 = (Inr raw, d2)" by blast
      obtain x w1 L1 where i: "import_line S (logged H) mk data raw (w, L) = (x, w1, L1)" by (rule prod_cases3)
      with False m obtain e where x: "x = Inl e" by (cases x) auto
      with run m i have "r = Inl e" "L' = L1" by (simp_all add: import_lines.simps [of _ _ _ _ _ d])
      with import_line_log [OF 1(2) i] x show ?thesis by (auto simp: whole_def)
    next
      case no: False
      with run have "L' = L" and "r = Inr y \<Longrightarrow> \<exists>d1. nd_more d = (Inr False, d1)" for y
        by (auto simp: import_lines.simps [of _ _ _ _ _ d] split: prod.splits sum.splits bool.splits)
      then show ?thesis
        by (intro exI [of _ "[]"]; cases r) (auto simp: whole_def dest: nd_more_values(2))
    qed
  qed
qed

definition file_values :: "import_source \<Rightarrow> string \<Rightarrow> string list" where
  "file_values S file = (case src_open S (has_gz_ext file) file of Inl e \<Rightarrow> [] | Inr fp \<Rightarrow> stream_values (fst fp))"

lemma ndjson_open_values: "ndjson_open S file = Inr d \<Longrightarrow> nd_values d = file_values S file"
  by (auto simp: ndjson_open_def file_values_def andthen_Inr_conv ndjson_of_stream_def nd_values_def map_exc_def split: sum.splits)

lemma process_file_log:
  assumes "process_file S (logged H) sm file t u (w, L) = (r, w', L')"
  shows "\<exists>es. L' = map Imported (rev es) @ L \<and> replays t (whole S r (file_values S file)) es"
proof (cases "\<exists>data d. dget sm t = Some data \<and> ndjson_open S file = Inr d")
  case True
  then obtain data d where d: "dget sm t = Some data" "ndjson_open S file = Inr d" by blast
  with assms have "import_lines S (logged H) (import_line_event (src_hash S (basename file)) t u data) data 0 d (w, L) = (r, w', L')"
    by (simp add: process_file_def)
  from import_lines_log [OF import_line_event_fields this] d(2) show ?thesis by (simp add: ndjson_open_values)
next
  case False
  with assms show ?thesis
    by (intro exI [of _ "[]"]) (auto simp: process_file_def whole_def map_exc_def split: option.splits sum.splits)
qed

lemma table_files_log:
  "table_files S (logged H) sm t acc fs (w, L) = (r, w', L') \<Longrightarrow>
   \<exists>es. L' = map Imported (rev es) @ L \<and> replays t (whole S r (concat (map (\<lambda>f. file_values S (fst f)) fs))) es"
proof (induction fs arbitrary: acc w L)
  case Nil
  then show ?case by (intro exI [of _ "[]"]) (auto simp: whole_def)
next
  case (Cons f fs)
  obtain fn u where f: "f = (fn, u)" by fastforce
  obtain x w1 L1 where p: "process_file S (logged H) sm fn t u (w, L) = (x, w1, L1)" by (rule prod_cases3)
  from process_file_log [OF p] obtain es where es: "L1 = map Imported (rev es) @ L" "replays t (whole S x (file_values S fn)) es" by blast
  show ?case
  proof (cases x)
    case (Inl e)
    with Cons.prems f p es show ?thesis by (intro exI [of _ es]) (auto simp: whole_def)
  next
    case (Inr n)
    with Cons.prems f p have "table_files S (logged H) sm t (acc + n) fs (w1, L1) = (r, w', L')" by simp
    from Cons.IH [OF this] obtain gs where
      gs: "L' = map Imported (rev gs) @ L1" "replays t (whole S r (concat (map (\<lambda>f. file_values S (fst f)) fs))) gs" by blast
    have "replays t (whole S r (concat (map (\<lambda>f. file_values S (fst f)) (f # fs)))) (es @ gs)"
      using es(2) gs(2) Inr f by (cases r) (auto simp: whole_def replays_def)
    with es(1) gs(1) show ?thesis by (intro exI [of _ "es @ gs"]) simp
  qed
qed

section \<open>Markers\<close>

definition marker_key :: "importer_config \<Rightarrow> string \<Rightarrow> string" where
  "marker_key config t = ''import-progress:'' @ ic_run_id config @ '':'' @ t"

fun marked :: "'w import_call list \<Rightarrow> string set" where
  "marked [] = {}"
| "marked (Marked k w # L) = insert k (marked L)"
| "marked (c # L) = marked L"

fun given :: "'w import_call list \<Rightarrow> db_change_event list" where
  "given [] = []"
| "given (Imported e # L) = given L @ [e]"
| "given (c # L) = given L"

text \<open>The records of a table, in the order in which they were given to the driver.\<close>

definition records_of :: "string \<Rightarrow> 'w import_call list \<Rightarrow> string option list" where
  "records_of t L = map ev_after (filter (\<lambda>e. ev_table e = t) (given L))"

text \<open>A record of calls in which every marker directly follows a successful flush or comes after the successful
  end of the import, and no event of a table comes after its marker.\<close>

fun markers_ok :: "importer_config \<Rightarrow> 'w import_call list \<Rightarrow> bool" where
  "markers_ok config [] = True"
| "markers_ok config (Marked k w # L) \<longleftrightarrow> ((\<exists>M. L = Flushed # M) \<or> Completed \<in> set L) \<and> markers_ok config L"
| "markers_ok config (Imported e # L) \<longleftrightarrow> marker_key config (ev_table e) \<notin> marked L \<and> markers_ok config L"
| "markers_ok config (c # L) \<longleftrightarrow> markers_ok config L"

lemma given_append [simp]: "given (map Imported (rev es) @ L) = given L @ es"
  by (induction es rule: rev_induct) simp_all

lemma marked_append [simp]: "marked (map Imported es @ L) = marked L"
  by (induction es) simp_all

lemma markers_ok_append:
  "markers_ok config L \<Longrightarrow> (\<forall>e \<in> set es. marker_key config (ev_table e) \<notin> marked L) \<Longrightarrow> markers_ok config (map Imported es @ L)"
  by (induction es) simp_all

lemma marker_key_inject [simp]: "marker_key config s = marker_key config t \<longleftrightarrow> s = t"
  by (simp add: marker_key_def)

text \<open>The tables still to come: one with files comes once and has no marker yet.\<close>

fun unmarked_once :: "(string \<times> (string \<times> int) list) list \<Rightarrow> string set \<Rightarrow> string list \<Rightarrow> bool" where
  "unmarked_once g M [] \<longleftrightarrow> True"
| "unmarked_once g M (t # ts) \<longleftrightarrow> (dget g t \<noteq> None \<longrightarrow> t \<notin> M) \<and> unmarked_once g (insert t M) ts"

lemma unmarked_once_append:
  "unmarked_once g M (ts @ us) \<longleftrightarrow> unmarked_once g M ts \<and> unmarked_once g (M \<union> set ts) us"
  by (induction ts arbitrary: M) auto

lemma unmarked_once_distinct: "distinct ts \<Longrightarrow> set ts \<inter> M = {} \<Longrightarrow> unmarked_once g M ts"
  by (induction ts arbitrary: M) auto

lemma unmarked_once_fresh: "(\<forall>t \<in> set ts. dget g t = None) \<Longrightarrow> unmarked_once g M ts"
  by (induction ts arbitrary: M) auto

lemma unmarked_once_later: "unmarked_once g M ts \<Longrightarrow> t \<in> set ts \<Longrightarrow> t \<in> M \<Longrightarrow> dget g t = None"
  by (induction ts arbitrary: M) auto

lemma unmarked_once_ordered: "distinct (dkeys g) \<Longrightarrow> unmarked_once g {} (ordered_tables config g)"
  by (auto simp: ordered_tables_def unmarked_once_append unmarked_once_distinct map_of_eq_None_iff intro: unmarked_once_fresh)

definition table_values :: "import_source \<Rightarrow> (string \<times> (string \<times> int) list) list \<Rightarrow> string \<Rightarrow> string list" where
  "table_values S g t = (case dget g t of None \<Rightarrow> [] | Some fs \<Rightarrow> concat (map (\<lambda>f. file_values S (fst f)) fs))"

abbreviation writes_markers :: "'w import_handler \<Rightarrow> importer_config \<Rightarrow> bool" where
  "writes_markers H config \<equiv> ih_set_key H \<noteq> None \<and> ic_run_id config \<noteq> ''''"

lemma marker_log:
  assumes "write_progress_marker (logged H) config t (w, L) = (r, w', L')"
  shows "L' = (if writes_markers H config then Marked (marker_key config t) w # L else L)"
  using assms by (auto simp: write_progress_marker_def marker_key_def split: option.splits if_splits prod.splits)

lemma records_of_replays:
  "replays t (Some vs) es \<Longrightarrow>
     records_of s (map Imported (rev es) @ L) = records_of s L @ (if s = t then map Some vs else [])"
  by (auto simp: replays_def records_of_def filter_empty_conv filter_id_conv)

lemma records_of_simps [simp]:
  "records_of t [] = []" "records_of t (Flushed # L) = records_of t L" "records_of t (Marked k w # L) = records_of t L"
  "records_of t (Completed # L) = records_of t L" "records_of t (Created # L) = records_of t L"
  by (simp_all add: records_of_def)

text \<open>The step after the files of a table: the flush and the marker, or nothing.\<close>

lemma table_end_log:
  assumes "(case ih_flush_imported (logged H) of None \<Rightarrow> (Inr (), w, L)
            | Some fl \<Rightarrow> andthen_st (fl (w, L)) (\<lambda>_. write_progress_marker (logged H) config t)) = (r, w', L')"
    and "markers_ok config L"
  shows "markers_ok config L' \<and> marked L' \<subseteq> insert (marker_key config t) (marked L) \<and> records_of s L' = records_of s L \<and>
    (r = Inr () \<longrightarrow> ih_flush_imported H \<noteq> None \<longrightarrow> writes_markers H config \<longrightarrow> marker_key config t \<in> marked L') \<and> marked L \<subseteq> marked L'"
proof (cases "ih_flush_imported H")
  case None
  with assms show ?thesis by auto
next
  case (Some fl)
  obtain x v where f: "fl w = (x, v)" by fastforce
  show ?thesis
  proof (cases x)
    case (Inl e)
    with Some f assms show ?thesis by (auto simp: logging_def)
  next
    case (Inr u)
    with Some f assms(1) have "write_progress_marker (logged H) config t (v, Flushed # L) = (r, w', L')" by (simp add: logging_def)
    from marker_log [OF this] assms(2) show ?thesis by (cases "writes_markers H config") auto
  qed
qed

lemma each_table_log:
  assumes "each_table S (logged H) config sm g acc ts (w, L) = (r, w', L')"
    and "markers_ok config L" and "unmarked_once g M ts" and "marked L \<subseteq> marker_key config ` M"
  shows "markers_ok config L' \<and> marked L \<subseteq> marked L' \<and>
    (\<forall>n. r = Inr n \<longrightarrow>
       (ih_flush_imported H \<noteq> None \<longrightarrow> writes_markers H config \<longrightarrow> marker_key config ` set ts \<subseteq> marked L') \<and>
       (src_validate S = None \<longrightarrow>
          records_of s L' = records_of s L @ (if s \<in> set ts then map Some (table_values S g s) else [])))"
  using assms
proof (induction ts arbitrary: acc w L M)
  case (Cons t ts)
  let ?fs = "case dget g t of None \<Rightarrow> [] | Some fs \<Rightarrow> fs"
  obtain x w1 L1 where x: "table_files S (logged H) sm t 0 ?fs (w, L) = (x, w1, L1)" by (rule prod_cases3)
  obtain es where es: "L1 = map Imported (rev es) @ L" "replays t (whole S x (table_values S g t)) es"
    using table_files_log [OF x] by (auto simp: table_values_def split: option.splits)
  have fresh: "es = [] \<or> marker_key config t \<notin> marked L"
  proof (cases "dget g t")
    case None
    with x es(1) show ?thesis by simp
  next
    case (Some fs)
    with Cons.prems(3,4) show ?thesis by auto
  qed
  have tables: "\<forall>e \<in> set es. ev_table e = t" using es(2) by (simp add: replays_def)
  with fresh Cons.prems(2) have ok1: "markers_ok config L1"
    unfolding es(1) by (intro markers_ok_append) auto
  show ?case
  proof (cases x)
    case (Inl e)
    with Cons.prems(1) x have "r = Inl e" "L' = L1" by auto
    with ok1 es(1) show ?thesis by simp
  next
    case (Inr n)
    obtain y w2 L2 where y: "(case ih_flush_imported (logged H) of None \<Rightarrow> (Inr (), w1, L1)
            | Some fl \<Rightarrow> andthen_st (fl (w1, L1)) (\<lambda>_. write_progress_marker (logged H) config t)) = (y, w2, L2)"
      by (rule prod_cases3)
    note end_log = table_end_log [OF y ok1, of s]
    show ?thesis
    proof (cases y)
      case (Inl e)
      with Cons.prems(1) x y Inr have "r = Inl e" "L' = L2" by auto
      with end_log es(1) show ?thesis by simp
    next
      case y': (Inr u)
      with Cons.prems(1) x y Inr have rest: "each_table S (logged H) config sm g (acc + n) ts (w2, L2) = (r, w', L')" by simp
      have "marked L2 \<subseteq> marker_key config ` insert t M" using end_log es(1) Cons.prems(4) by auto
      with end_log Cons.prems(3) Cons.IH [OF rest, of "insert t M"] have IH: "markers_ok config L' \<and> marked L2 \<subseteq> marked L' \<and>
        (\<forall>n. r = Inr n \<longrightarrow>
          (ih_flush_imported H \<noteq> None \<longrightarrow> writes_markers H config \<longrightarrow> marker_key config ` set ts \<subseteq> marked L') \<and>
          (src_validate S = None \<longrightarrow>
             records_of s L' = records_of s L2 @ (if s \<in> set ts then map Some (table_values S g s) else [])))"
        by simp
      have r1: "records_of s L1 = records_of s L @ (if s = t then map Some (table_values S g t) else [])" if "src_validate S = None"
        using es that Inr by (simp add: records_of_replays whole_def)
      have later: "table_values S g t = []" if "t \<in> set ts"
        using Cons.prems(3) unmarked_once_later [OF _ that, of g "insert t M"] by (simp add: table_values_def)
      show ?thesis using IH end_log y' r1 later es(1) by auto
    qed
  qed
qed simp

text \<open>The files of a table, in the order of the listing.\<close>

definition files_of :: "importer_config \<Rightarrow> string list \<Rightarrow> string \<Rightarrow> string list" where
  "files_of config files t =
     (if t \<in> set (ic_tables config)
      then filter (\<lambda>f. cf_ok (parse_crdb_export_file f) \<and> cf_table (parse_crdb_export_file f) = t) files else [])"

lemma group_files_fold:
  fixes config
  defines "step \<equiv> \<lambda>file g.
             let f = parse_crdb_export_file file in
             if \<not> cf_ok f \<or> cf_table f \<notin> set (ic_tables config) then g
             else dset (cf_table f) ((case dget g (cf_table f) of None \<Rightarrow> [] | Some fs \<Rightarrow> fs) @ [(file, cf_unix_nanos f)]) g"
  shows "distinct (dkeys g) \<Longrightarrow> distinct (dkeys (fold step files g))"
    and "concat (map (\<lambda>f. F (fst f)) (case dget (fold step files g) t of None \<Rightarrow> [] | Some fs \<Rightarrow> fs)) =
         concat (map (\<lambda>f. F (fst f)) (case dget g t of None \<Rightarrow> [] | Some fs \<Rightarrow> fs)) @ concat (map F (files_of config files t))"
  by (induction files arbitrary: g) (auto simp: step_def Let_def files_of_def)

lemma group_files_distinct: "distinct (dkeys (group_files config files))"
  unfolding group_files_def by (rule group_files_fold(1)) simp

lemma group_files_values: "table_values S (group_files config files) t = concat (map (file_values S) (files_of config files t))"
  using group_files_fold(2) [of "file_values S" config files "[]" t]
  by (simp add: group_files_def table_values_def split: option.splits)

lemma plain_files_log:
  "plain_files S (logged H) config sm acc fs (w, L) = (r, w', L') \<Longrightarrow> markers_ok config L \<Longrightarrow> marked L = {} \<Longrightarrow>
   markers_ok config L' \<and> marked L' = {} \<and>
   (\<forall>n. r = Inr n \<longrightarrow> src_validate S = None \<longrightarrow>
      records_of s L' = records_of s L @ map Some (concat (map (file_values S) (files_of config fs s))))"
proof (induction fs arbitrary: acc w L)
  case (Cons f fs)
  let ?f = "parse_crdb_export_file f"
  show ?case
  proof (cases "cf_ok ?f \<and> cf_table ?f \<in> set (ic_tables config)")
    case False
    with Cons show ?thesis by (auto simp: Let_def files_of_def)
  next
    case True
    obtain x w1 L1 where x: "process_file S (logged H) sm f (cf_table ?f) (cf_unix_nanos ?f) (w, L) = (x, w1, L1)" by (rule prod_cases3)
    from process_file_log [OF x] obtain es where
      es: "L1 = map Imported (rev es) @ L" "replays (cf_table ?f) (whole S x (file_values S f)) es" by blast
    have ok: "markers_ok config L1" "marked L1 = {}"
      using Cons.prems(2,3) by (simp_all add: es(1) markers_ok_append)
    show ?thesis
    proof (cases x)
      case (Inl e)
      with Cons.prems(1) x True ok show ?thesis by (auto simp: Let_def)
    next
      case (Inr n)
      with Cons.prems(1) x True have rest: "plain_files S (logged H) config sm (acc + n) fs (w1, L1) = (r, w', L')" by (simp add: Let_def)
      have "records_of s L1 = records_of s L @ (if s = cf_table ?f then map Some (file_values S f) else [])" if "src_validate S = None"
        using es that Inr by (simp add: records_of_replays whole_def)
      with Cons.IH [OF rest ok] True show ?thesis by (auto simp: files_of_def)
    qed
  qed
qed (simp add: files_of_def)

lemma mark_all_log:
  "mark_all (logged H) config ts (w, L) = (r, w', L') \<Longrightarrow> markers_ok config L \<Longrightarrow> Completed \<in> set L \<Longrightarrow>
   markers_ok config L' \<and> records_of s L' = records_of s L \<and> marked L \<subseteq> marked L' \<and>
   (r = Inr () \<longrightarrow> writes_markers H config \<longrightarrow> marker_key config ` set ts \<subseteq> marked L')"
proof (induction ts arbitrary: w L)
  case (Cons t ts)
  obtain x w1 L1 where x: "write_progress_marker (logged H) config t (w, L) = (x, w1, L1)" by (rule prod_cases3)
  note m = marker_log [OF x]
  have ok: "markers_ok config L1" "Completed \<in> set L1" "records_of s L1 = records_of s L" "marked L \<subseteq> marked L1"
    using Cons.prems(2,3) m by auto
  show ?case
  proof (cases x)
    case (Inl e)
    with Cons.prems(1) x ok show ?thesis by auto
  next
    case (Inr u)
    with Cons.prems(1) x have "mark_all (logged H) config ts (w1, L1) = (r, w', L')" by simp
    from Cons.IH [OF this ok(1,2)] ok m show ?thesis by (auto split: if_splits)
  qed
qed simp

lemma run_recovery_log:
  assumes run: "run_recovery S (logged H) config sm files (w, L) = (r, w', L')"
    and L: "markers_ok config L" "marked L = {}"
  shows "markers_ok config L' \<and>
    (\<forall>n. r = Inr n \<longrightarrow>
      (writes_markers H config \<longrightarrow> marker_key config ` set (ic_tables config) \<subseteq> marked L') \<and>
      (src_validate S = None \<longrightarrow> records_of s L' = records_of s L @ map Some (concat (map (file_values S) (files_of config files s)))))"
proof -
  define g where "g = group_files config files"
  define ts where "ts = ordered_tables config g"
  have tables: "set (ic_tables config) \<subseteq> set ts" by (auto simp: ts_def ordered_tables_def)
  have values_s: "(if s \<in> set ts then map Some (table_values S g s) else []) = map Some (concat (map (file_values S) (files_of config files s)))"
    by (auto simp: ts_def ordered_tables_def g_def group_files_values [symmetric] table_values_def map_of_eq_None_iff split: option.splits)
       (metis domI dom_map_of_conv_image_fst)
  obtain x w1 L1 where x: "each_table S (logged H) config sm g 0 ts (w, L) = (x, w1, L1)" by (rule prod_cases3)
  have "unmarked_once g {} ts" unfolding ts_def g_def by (intro unmarked_once_ordered group_files_distinct)
  note e = each_table_log [OF x L(1) this, of s, unfolded values_s]
  note run' = run [unfolded run_recovery_def Let_def, folded g_def, folded ts_def, unfolded x]
  show ?thesis
  proof (cases x)
    case (Inl y)
    with run' e L(2) show ?thesis by auto
  next
    case x': (Inr n)
    obtain z v where c: "ih_import_completed H w1 = (z, v)" by fastforce
    show ?thesis
    proof (cases z)
      case (Inl y)
      with run' x' c e L(2) show ?thesis by (auto simp: logging_def)
    next
      case z: (Inr u)
      show ?thesis
      proof (cases "ih_flush_imported H = None")
        case False
        with run' x' c z e L(2) tables show ?thesis by (auto simp: logging_def image_subset_iff)
      next
        case True
        obtain y v2 L2 where m: "mark_all (logged H) config ts (v, Completed # L1) = (y, v2, L2)" by (rule prod_cases3)
        with run' x' c z True have "L' = L2" "\<exists>n. r = Inr n \<Longrightarrow> y = Inr ()" by (cases y; auto simp: logging_def)+
        with mark_all_log [OF m, of s] e x' L(2) tables show ?thesis by (auto simp: image_subset_iff)
      qed
    qed
  qed
qed

lemma importer_run_log:
  assumes run: "importer_run S (logged H) config (w, []) = (r, w', L')"
  shows "markers_ok config L' \<and>
    (r = Inr () \<longrightarrow> \<not> ic_schema_only config \<longrightarrow>
      (ic_recovery_enabled config \<longrightarrow> writes_markers H config \<longrightarrow> marker_key config ` set (ic_tables config) \<subseteq> marked L') \<and>
      (src_validate S = None \<longrightarrow> (\<exists>entries. src_scan S (ic_data_dir config) = Inr entries \<and>
         records_of s L' = map Some (concat (map (file_values S) (files_of config (list_dir (ic_data_dir config) entries) s))))))"
proof (cases "src_latest_schema S")
  case (Inl e)
  with run show ?thesis by (auto simp: importer_run_def)
next
  case (Inr sm)
  obtain x w1 L1 where x: "(if ic_no_delete config then (Inr (), w, []) else ih_create_datasource (logged H) sm (w, [])) = (x, w1, L1)"
    by (rule prod_cases3)
  then have L1: "markers_ok config L1" "marked L1 = {}" "records_of s L1 = []"
    by (cases "ih_create_datasource H sm w"; cases "fst (ih_create_datasource H sm w)"; force simp: logging_def split: if_splits)+
  note run' = run [unfolded importer_run_def Inr, simplified, unfolded x, simplified]
  show ?thesis
  proof (cases "(\<exists>e. x = Inl e) \<or> ic_schema_only config \<or> (\<exists>e. src_scan S (ic_data_dir config) = Inl e)")
    case True
    with run' L1 show ?thesis by (cases x) (auto split: if_splits)
  next
    case False
    then obtain entries where ok: "x = Inr ()" "\<not> ic_schema_only config" "src_scan S (ic_data_dir config) = Inr entries"
      by (cases x; cases "src_scan S (ic_data_dir config)") auto
    show ?thesis
    proof (cases "ic_recovery_enabled config")
      case True
      obtain y w2 L2 where y: "run_recovery S (logged H) config sm (list_dir (ic_data_dir config) entries) (w1, L1) = (y, w2, L2)"
        by (rule prod_cases3)
      with run' ok True have "L' = L2" "r = Inr () \<Longrightarrow> \<exists>n. y = Inr n" by (cases y; auto)+
      with run_recovery_log [OF y L1(1,2), of s] ok L1(3) show ?thesis by auto
    next
      case False
      obtain y w2 L2 where y: "plain_files S (logged H) config sm 0 (list_dir (ic_data_dir config) entries) (w1, L1) = (y, w2, L2)"
        by (rule prod_cases3)
      note log = plain_files_log [OF y L1(1,2), of s]
      obtain z v where c: "ih_import_completed H w2 = (z, v)" by fastforce
      with run' ok False y have "L' = L2 \<or> L' = Completed # L2" "r = Inr () \<Longrightarrow> \<exists>n. y = Inr n"
        by (cases y; cases z; auto simp: logging_def)+
      with log ok L1(3) False show ?thesis by auto
    qed
  qed
qed

section \<open>The end of the files\<close>

text \<open>A file that is opened and read to its end: with the lines of \<open>readline\<close>, which are not empty, the stream has
  no exception other than the read errors that the decoder takes for the end of the file.\<close>

definition ended :: "import_source \<Rightarrow> string \<Rightarrow> bool" where
  "ended S file \<longleftrightarrow> (\<exists>lines e. src_open S (has_gz_ext file) file = Inr (lines, e) \<and> ([] \<notin> set lines \<longrightarrow> e \<in> {AtEof, ReadError}))"

definition no_raise :: "ndjson_decoder \<Rightarrow> bool" where
  "no_raise d \<longleftrightarrow> (\<forall>x. nd_end d = Raises x \<longrightarrow> [] \<in> set (nd_lines d) \<or> nd_has_peeked d \<and> nd_peeked d = None)"

lemma next_value_ends:
  "next_value lines e = (Inr v, lines') \<Longrightarrow> e = Raises x \<Longrightarrow> [] \<in> set lines \<or> v \<noteq> None"
  by (induction lines e rule: next_value.induct) (auto split: if_splits)

lemma next_value_rest: "next_value lines e = (Inr v, lines') \<Longrightarrow> set lines' \<subseteq> set lines"
  by (induction lines e rule: next_value.induct) (auto split: if_splits)

lemma more_end:
  assumes "nd_more d = (Inr b, d1)"
  shows "nd_end d1 = nd_end d" "\<not> b \<Longrightarrow> no_raise d" "b \<Longrightarrow> no_raise d1 \<Longrightarrow> no_raise d"
  using assms
  by (auto simp: nd_more_def no_raise_def split: if_splits prod.splits sum.splits option.splits dest: next_value_ends [OF _ refl] subsetD [OF next_value_rest])

lemma decode_raw_end:
  assumes "nd_has_peeked d" "decode_raw d = (Inr raw, d2)" "no_raise d2"
  shows "no_raise d"
  using assms by (auto simp: decode_raw_def nd_more_def no_raise_def Let_def split: if_splits option.splits)

lemma import_lines_end: "import_lines S H mk data cnt d w = (Inr n, w') \<Longrightarrow> no_raise d"
proof (induction S H mk data cnt d w rule: import_lines.induct)
  case (1 S H mk data cnt d w)
  from 1(2) obtain b d1 where m: "nd_more d = (Inr b, d1)"
    by (auto simp: import_lines.simps [of _ _ _ _ _ d] split: prod.splits sum.splits)
  show ?case
  proof (cases b)
    case False
    then show ?thesis by (rule more_end(2) [OF m])
  next
    case True
    with 1(2) m obtain raw d2 k w1 where r: "decode_raw d1 = (Inr raw, d2)" "import_line S H mk data raw w = (Inr k, w1)"
      and rest: "import_lines S H mk data (cnt + k) d2 w1 = (Inr n, w')"
      by (auto simp: import_lines.simps [of _ _ _ _ _ d] split: prod.splits sum.splits)
    have "no_raise d2"
      by (rule 1(1) [OF m [symmetric] refl _ r(1) [symmetric] refl r(2) [symmetric] refl rest]) (simp add: True)
    then have "no_raise d1" using nd_more_values(3) [OF m] r(1) by (blast intro: decode_raw_end)
    with True show ?thesis by (rule more_end(3) [OF m])
  qed
qed

lemma process_file_ended:
  assumes "process_file S H sm file t u w = (Inr n, w')"
  shows "ended S file"
proof -
  obtain data d where d: "ndjson_open S file = Inr d" "import_lines S H (import_line_event (src_hash S (basename file)) t u data) data 0 d w = (Inr n, w')"
    using assms by (auto simp: process_file_def map_exc_def split: option.splits sum.splits)
  then obtain fp where fp: "src_open S (has_gz_ext file) file = Inr fp" "d = ndjson_of_stream fp"
    by (auto simp: ndjson_open_def andthen_Inr_conv map_exc_def split: sum.splits)
  with import_lines_end [OF d(2)] show ?thesis
    by (cases fp; cases "snd fp") (auto simp: ended_def no_raise_def ndjson_of_stream_def)
qed

lemma andthen_st_InrE:
  assumes "andthen_st r f = (Inr y, s)"
  obtains x s1 where "r = (Inr x, s1)" "f x s1 = (Inr y, s)"
  using assms by (cases r; cases "fst r") auto

lemma table_files_ended: "table_files S H sm t acc fs w = (Inr n, w') \<Longrightarrow> \<forall>f \<in> set fs. ended S (fst f)"
proof (induction fs arbitrary: acc w)
  case (Cons f fs)
  obtain fn u where f: "f = (fn, u)" by fastforce
  with Cons.prems obtain m w1 where "process_file S H sm fn t u w = (Inr m, w1)" "table_files S H sm t (acc + m) fs w1 = (Inr n, w')"
    by (auto elim: andthen_st_InrE)
  with process_file_ended Cons.IH f show ?case by fastforce
qed simp

lemma each_table_ended:
  "each_table S H config sm g acc ts w = (Inr n, w') \<Longrightarrow> t \<in> set ts \<Longrightarrow> dget g t = Some fs \<Longrightarrow> f \<in> set fs \<Longrightarrow> ended S (fst f)"
proof (induction ts arbitrary: acc w)
  case (Cons s ts)
  from Cons.prems(1) obtain m w1 acc2 w2 where "table_files S H sm s 0 (case dget g s of None \<Rightarrow> [] | Some fs \<Rightarrow> fs) w = (Inr m, w1)"
    and "each_table S H config sm g acc2 ts w2 = (Inr n, w')" by (auto elim!: andthen_st_InrE)
  with Cons table_files_ended show ?case by force
qed simp

lemma plain_files_ended:
  "plain_files S H config sm acc fs w = (Inr n, w') \<Longrightarrow> f \<in> set (files_of config fs t) \<Longrightarrow> ended S f"
proof (induction fs arbitrary: acc w)
  case (Cons g fs)
  show ?case
  proof (cases "cf_ok (parse_crdb_export_file g) \<and> cf_table (parse_crdb_export_file g) \<in> set (ic_tables config)")
    case False
    with Cons show ?thesis by (auto simp: Let_def files_of_def split: if_splits)
  next
    case True
    with Cons.prems(1) obtain m w1 where p: "process_file S H sm g (cf_table (parse_crdb_export_file g)) (cf_unix_nanos (parse_crdb_export_file g)) w = (Inr m, w1)"
      "plain_files S H config sm (acc + m) fs w1 = (Inr n, w')" by (auto simp: Let_def elim!: andthen_st_InrE)
    from Cons.prems(2) have "f = g \<or> f \<in> set (files_of config fs t)" by (auto simp: files_of_def split: if_splits)
    with process_file_ended [OF p(1)] Cons.IH [OF p(2)] show ?thesis by blast
  qed
qed (simp add: files_of_def)

lemma group_files_covers:
  assumes "f \<in> set (files_of config files t)"
  shows "\<exists>fs. dget (group_files config files) t = Some fs \<and> (\<exists>u. (f, u) \<in> set fs)"
proof -
  have "f \<in> set (concat (map (\<lambda>f. [fst f]) (case dget (group_files config files) t of None \<Rightarrow> [] | Some fs \<Rightarrow> fs)))"
    using group_files_fold(2) [of "\<lambda>f. [f]" config files "[]" t] assms by (simp add: group_files_def)
  then show ?thesis by (cases "dget (group_files config files) t") auto
qed

lemma run_recovery_ended:
  assumes "run_recovery S H config sm files w = (Inr n, w')" "f \<in> set (files_of config files t)"
  shows "ended S f"
proof -
  let ?g = "group_files config files"
  obtain acc w1 where e: "each_table S H config sm ?g 0 (ordered_tables config ?g) w = (Inr acc, w1)"
    using assms(1) by (auto simp: run_recovery_def Let_def elim!: andthen_st_InrE)
  obtain fs u where fs: "dget ?g t = Some fs" "(f, u) \<in> set fs" using group_files_covers [OF assms(2)] by blast
  have "t \<in> set (ordered_tables config ?g)" using fs(1) by (force simp: ordered_tables_def dest: map_of_SomeD)
  from each_table_ended [OF e this fs] show ?thesis by simp
qed

lemma run_ended:
  assumes "importer_run S H config w = (Inr (), w')" "\<not> ic_schema_only config" "src_scan S (ic_data_dir config) = Inr entries"
    "f \<in> set (files_of config (list_dir (ic_data_dir config) entries) t)"
  shows "ended S f"
proof -
  obtain sm where sm: "src_latest_schema S = Inr sm" using assms(1) by (cases "src_latest_schema S") (auto simp: importer_run_def)
  with assms(1-3) show ?thesis
    by (cases "ic_recovery_enabled config")
       (auto simp: importer_run_def Let_def elim!: andthen_st_InrE intro: run_recovery_ended [OF _ assms(4)] plain_files_ended [OF _ assms(4)])
qed

lemma takeWhile_nonempty: "[] \<notin> set xs \<Longrightarrow> takeWhile (\<lambda>l. l \<noteq> []) xs = xs"
  by (simp add: takeWhile_eq_all_conv) metis

lemma ended_streams:
  assumes "\<forall>f \<in> set fs. ended S f" "\<forall>gz fn lines e. src_open S gz fn = Inr (lines, e) \<longrightarrow> [] \<notin> set lines"
  shows "\<exists>streams. list_all2 (\<lambda>f fp. src_open S (has_gz_ext f) f = Inr fp \<and> snd fp \<in> {AtEof, ReadError}) fs streams \<and>
    concat (map (file_values S) fs) = concat (map (\<lambda>fp. filter (\<lambda>v. v \<noteq> []) (map strip (fst fp))) streams)"
  using assms(1)
proof (induction fs)
  case (Cons f fs)
  then obtain lines e where f: "src_open S (has_gz_ext f) f = Inr (lines, e)" "[] \<notin> set lines \<longrightarrow> e \<in> {AtEof, ReadError}"
    by (auto simp: ended_def)
  from Cons obtain streams where "list_all2 (\<lambda>f fp. src_open S (has_gz_ext f) f = Inr fp \<and> snd fp \<in> {AtEof, ReadError}) fs streams"
    "concat (map (file_values S) fs) = concat (map (\<lambda>fp. filter (\<lambda>v. v \<noteq> []) (map strip (fst fp))) streams)" by auto
  moreover have "file_values S f = filter (\<lambda>v. v \<noteq> []) (map strip lines)"
  proof -
    have "[] \<notin> set lines" using f(1) assms(2) by blast
    with f(1) show ?thesis by (simp add: file_values_def stream_values_def takeWhile_nonempty)
  qed
  ultimately show ?case
    using f assms(2) by (intro exI [of _ "(lines, e) # streams"]) auto
qed simp

section \<open>The contract of an import handler\<close>


section \<open>The SQL drivers as import handlers\<close>


text \<open>
  What a run has to execute, by its record of calls: the statements that create the tables, once they are created, and
  then the INSERT of each event given to the driver, in order.
\<close>

definition insert_text :: "hooks \<Rightarrow> schema_map \<Rightarrow> db_change_event \<Rightarrow> string" where
  "insert_text h sm ev =
     (case dget sm (ev_table ev) of
        None \<Rightarrow> []
      | Some data \<Rightarrow>
          (case andthen (object_or_empty ev) (\<lambda>ob. h_to_sql_from_object h ''INSERT'' data (ev_table ev) ob None) of
             Inl e \<Rightarrow> [] | Inr sql \<Rightarrow> sql))"

definition create_text :: "hooks \<Rightarrow> schema_map \<Rightarrow> string list \<Rightarrow> string" where
  "create_text h sm ts = concat (map (\<lambda>t. case dget sm t of None \<Rightarrow> [] | Some data \<Rightarrow> h_create_table_sql h data) ts)"

definition run_text :: "hooks \<Rightarrow> schema_map \<Rightarrow> importer_config \<Rightarrow> 'a import_call list \<Rightarrow> string" where
  "run_text h sm config L =
     (if Created \<in> set L then create_text h sm (ic_tables config) else []) @ concat (map (insert_text h sm) (given L))"


definition marks_true ::
    "hooks \<Rightarrow> schema_map \<Rightarrow> importer_config \<Rightarrow> ('w \<Rightarrow> string) \<Rightarrow> string \<Rightarrow> 'w sql_driver import_call list \<Rightarrow> bool" where
  "marks_true h sm config executed start L \<longleftrightarrow>
     (\<forall>post k s past. L = post @ Marked k s # past \<longrightarrow>
        concat (sd_pending s) = [] \<and> executed (sd_world s) = start @ run_text h sm config past)"

lemma splits_Cons: "c # L = post @ x # past \<longleftrightarrow> post = [] \<and> x = c \<and> past = L \<or> (\<exists>p. post = c # p \<and> L = p @ x # past)"
  by (cases post) auto

lemma marks_true_Nil [simp]: "marks_true h sm config executed start []"
  by (simp add: marks_true_def)

lemma marks_true_Cons [simp]:
  "marks_true h sm config executed start (c # L) \<longleftrightarrow>
     (case c of Marked k s \<Rightarrow> concat (sd_pending s) = [] \<and> executed (sd_world s) = start @ run_text h sm config L | _ \<Rightarrow> True) \<and>
     marks_true h sm config executed start L"
  unfolding marks_true_def splits_Cons by (cases c) (simp_all del: concat_eq_Nil_conv, blast+)

lemma run_text_calls [simp]:
  "run_text h sm config [] = []" "run_text h sm config (Flushed # L) = run_text h sm config L"
  "run_text h sm config (Completed # L) = run_text h sm config L" "run_text h sm config (Marked k s # L) = run_text h sm config L"
  "run_text h sm config (Imported ev # L) = run_text h sm config L @ insert_text h sm ev"
  by (simp_all add: run_text_def)















section \<open>Properties\<close>

lemma markers_ok_split:
  "markers_ok config (post @ Marked k s # past) \<Longrightarrow>
     ((\<exists>M. past = Flushed # M) \<or> Completed \<in> set past) \<and> (\<forall>e. Imported e \<in> set post \<longrightarrow> marker_key config (ev_table e) \<noteq> k)"
proof (induction post)
  case (Cons c post)
  have "k \<in> marked (post @ Marked k s # past)" by (induction post rule: marked.induct) auto
  with Cons show ?case by (cases c) auto
qed simp

text \<open>A directory with one export file of one record and a blank line, and a driver that counts its calls.\<close>

definition sample_file :: string where
  "sample_file = ''202401020304050000000010000000000-a-b-t-1.ndjson.gz''"

definition sample_path :: string where
  "sample_path = ''d/'' @ sample_file"

definition sample_source :: import_source where
  "sample_source =
     \<lparr>src_latest_schema = Inr [(''t'', sample_schema)], src_scan = (\<lambda>dir. Inr [File sample_file, File ''note'']),
      src_open = (\<lambda>gz fn. Inr ([[NL], ''{}'' @ [NL]], AtEof)), src_peek = (\<lambda>fn. Inr ()), src_validate = None, src_hash = (\<lambda>s. s)\<rparr>"

definition sample_handler :: "nat import_handler" where
  "sample_handler =
     \<lparr>ih_create_datasource = (\<lambda>s w. (Inr (), w)), ih_import_event = (\<lambda>ev data w. (Inr (), w + 1)),
      ih_import_completed = (\<lambda>w. (Inr (), w)), ih_flush_imported = Some (\<lambda>w. (Inr (), w)),
      ih_set_key = Some (\<lambda>k v w. (Inr (), w))\<rparr>"

definition sample_import :: importer_config where
  "sample_import =
     \<lparr>ic_url = '''', ic_data_dir = ''d'', ic_dry_run = False, ic_tables = [''t'', ''u''], ic_single = False,
      ic_schema_only = False, ic_no_delete = False, ic_recovery_enabled = True, ic_run_id = ''r''\<rparr>"

lemma sample_listing: "list_dir ''d'' [File sample_file, File ''note''] = [sample_path, ''d/note'']"
  by code_simp

lemma sample_names:
  "parse_crdb_export_file sample_path = \<lparr>cf_table = ''t'', cf_unix_nanos = 1704164645000000001, cf_ok = True\<rparr>"
  "cf_ok (parse_crdb_export_file ''d/note'') = False"
proof -
  have "parse_precise_date ''202401020304050000000010000000000'' = (1704164645000000001, True)"
    by (simp add: parse_precise_date_def strptime_digits_def Let_def field_def nat_of_digits_def valid_datetime_def
        days_in_month_def leap_year_def is_digit_def less_eq_char_def unix_seconds_def toordinal_def days_before_month_def)
  moreover have "crdb_match sample_file = Some (''202401020304050000000010000000000'', ''t'')" "crdb_match ''note'' = None"
    by (simp_all add: sample_file_def crdb_match_def rpartition_at_def is_digit_def is_word_def is_alpha_def is_lower_def
        is_upper_def word_or_dash_def table_char_def less_eq_char_def)
  moreover have "basename sample_path = sample_file" "basename ''d/note'' = ''note''" by code_simp+
  ultimately show "parse_crdb_export_file sample_path = \<lparr>cf_table = ''t'', cf_unix_nanos = 1704164645000000001, cf_ok = True\<rparr>"
    "cf_ok (parse_crdb_export_file ''d/note'') = False"
    by (simp_all only: parse_crdb_export_file_def option.case prod.case if_True crdb_export_file.simps)
qed

lemma sample_strip: "strip [NL] = ''''" "strip (''{}'' @ [NL]) = ''{}''"
proof -
  have a: "find (\<lambda>w. take (length w) (CHR ''{'' # s) = w) PY_SPACES = None" for s unfolding PY_SPACES_def by simp
  have b: "find (\<lambda>w. take (length w) (CHR ''}'' # s) = w) (map rev PY_SPACES) = None" for s unfolding PY_SPACES_def by simp
  have c: "find (\<lambda>w. take (length w) (NL # s) = w) (map rev PY_SPACES) = Some [NL]" for s unfolding PY_SPACES_def by simp
  have d: "find (\<lambda>w. take (length w) (NL # s) = w) PY_SPACES = Some [NL]" for s unfolding PY_SPACES_def by simp
  have "strip_front (Suc (Suc (Suc 0))) PY_SPACES ''{}\<newline>'' = ''{}\<newline>''" by (simp add: a)
  moreover have "strip_front (Suc (Suc (Suc 0))) (map rev PY_SPACES) [NL, CHR ''}'', CHR ''{''] = [CHR ''}'', CHR ''{'']" by (simp add: b c)
  ultimately show "strip (''{}'' @ [NL]) = ''{}''" by (simp add: strip_def)
  have "strip_front (Suc 0) PY_SPACES [NL] = ''''" by (simp add: d)
  then show "strip [NL] = ''''" by (simp add: strip_def)
qed

lemma sample_loads: "loads opts_strict ''{}'' = Some (PDict [])" "loads opts_float ''{}'' = Some (PDict [])"
  by code_simp+

lemma sample_lines:
  "import_line_event i ''t'' u data ''{}'' = Inr ev \<Longrightarrow>
   import_lines sample_source sample_handler (import_line_event i ''t'' u data) data 0 (ndjson_of_stream ([[NL], ''{}'' @ [NL]], AtEof)) w = (Inr 1, w + 1)"
  by (simp add: import_lines.simps nd_more_def decode_raw_def ndjson_of_stream_def sample_strip sample_strip [simplified] sample_loads import_line_def
      validated_def sample_source_def sample_handler_def)

lemma sample_event_ok: "\<exists>ev. import_line_event i t u data ''{}'' = Inr ev"
  by (simp add: import_line_event_def Let_def get_primary_key_def get_object_def parse_object_def sample_loads)

lemma sample_sels:
  "ic_data_dir sample_import = ''d''" "ic_tables sample_import = [''t'', ''u'']" "\<not> ic_no_delete sample_import"
  "\<not> ic_schema_only sample_import" "ic_recovery_enabled sample_import" "ic_run_id sample_import = ''r''"
  "src_latest_schema sample_source = Inr [(''t'', sample_schema)]" "src_scan sample_source dir = Inr [File sample_file, File ''note'']"
  "ih_create_datasource sample_handler s w = (Inr (), w)" "ih_import_completed sample_handler w = (Inr (), w)"
  "ih_flush_imported sample_handler = Some (\<lambda>w. (Inr (), w))" "ih_set_key sample_handler = Some (\<lambda>k v w. (Inr (), w))"
  by (simp_all add: sample_import_def sample_source_def sample_handler_def)

lemma sample_run: "importer_run sample_source sample_handler sample_import 0 = (Inr (), 1)"
proof -
  have g: "group_files sample_import [sample_path, ''d/note''] = [(''t'', [(sample_path, 1704164645000000001)])]"
    unfolding group_files_def by (simp add: sample_names Let_def sample_import_def)
  obtain ev where ev: "import_line_event (basename sample_path) ''t'' 1704164645000000001 sample_schema ''{}'' = Inr ev"
    using sample_event_ok by blast
  have p: "process_file sample_source sample_handler [(''t'', sample_schema)] sample_path ''t'' 1704164645000000001 0 = (Inr 1, 1)"
    using sample_lines [OF ev, of 0] by (simp add: process_file_def ndjson_open_def sample_source_def)
  show ?thesis
    unfolding importer_run_def run_recovery_def
    by (simp add: g p sample_listing Let_def sample_sels ordered_tables_def write_progress_marker_def)
qed

text \<open>C3: progress markers tell the truth. In every run of an import, whatever the driver, the tracker, the files and the
  errors: an attempt to write a completion marker comes right after a successful flush of the driver, or, for a driver
  without a flush, after the successful end of the import; and no record of that table is given to the driver
  afterwards. A run with recovery that returns normally has marked every configured table. The recording of calls does not
  change the run.\<close>

theorem importer_markers:
  assumes "importer_run S (logged H) config (w, []) = (r, w', L)"
  shows "importer_run S H config w = (r, w') \<and>
    (\<forall>post k s past. L = post @ Marked k s # past \<longrightarrow>
       ((\<exists>M. past = Flushed # M) \<or> Completed \<in> set past) \<and>
       (\<forall>e. Imported e \<in> set post \<longrightarrow> marker_key config (ev_table e) \<noteq> k)) \<and>
    (r = Inr () \<and> \<not> ic_schema_only config \<and> ic_recovery_enabled config \<and> ih_set_key H \<noteq> None \<and> ic_run_id config \<noteq> '''' \<longrightarrow>
       marker_key config ` set (ic_tables config) \<subseteq> marked L)"
proof (intro conjI)
  show "importer_run S H config w = (r, w')" using erase_run [of S H config w "[]"] assms by simp
  have ok: "markers_ok config L" using importer_run_log [OF assms] by (rule conjunct1)
  show "\<forall>post k s past. L = post @ Marked k s # past \<longrightarrow>
       ((\<exists>M. past = Flushed # M) \<or> Completed \<in> set past) \<and>
       (\<forall>e. Imported e \<in> set post \<longrightarrow> marker_key config (ev_table e) \<noteq> k)"
    using ok by (intro allI impI markers_ok_split) simp
qed (use importer_run_log [OF assms] in simp)

lemma sample_logged: "\<exists>L. importer_run sample_source (logged sample_handler) sample_import (0, []) = (Inr (), 1, L)"
  using erase_run [of sample_source sample_handler sample_import 0 "[]"]
  by (cases "importer_run sample_source (logged sample_handler) sample_import (0, [])") (simp add: sample_run)

theorem importer_markers_witness:
  "\<exists>L. importer_run sample_source (logged sample_handler) sample_import (0, []) = (Inr (), 1, L) \<and>
     marker_key sample_import ` {''t'', ''u''} \<subseteq> marked L"
proof -
  obtain L where L: "importer_run sample_source (logged sample_handler) sample_import (0, []) = (Inr (), 1, L)"
    using sample_logged by blast
  from importer_markers [OF L] have "marker_key sample_import ` {''t'', ''u''} \<subseteq> marked L" by (simp add: sample_sels)
  with L show ?thesis by blast
qed

text \<open>C12: an import that returns normally, is not schema-only and has no validator has given every record of every
  configured table to the driver. The records of a table are, in order, the non-blank lines of its files in the order of the
  listing, each once; with and without recovery. Every one of these files was opened and read up to the end of its stream
  or to a read error of the stream, which the decoder takes for the end: when no stream breaks off, these are all the
  non-blank lines of the files.\<close>

theorem importer_complete:
  assumes "importer_run S (logged H) config (w, []) = (Inr (), w', L)"
    and "\<not> ic_schema_only config" and "src_validate S = None" and "t \<in> set (ic_tables config)"
    and "\<forall>gz fn lines e. src_open S gz fn = Inr (lines, e) \<longrightarrow> [] \<notin> set lines"
  shows "\<exists>entries streams. src_scan S (ic_data_dir config) = Inr entries \<and>
    list_all2 (\<lambda>f fp. src_open S (has_gz_ext f) f = Inr fp \<and> snd fp \<in> {AtEof, ReadError})
      (filter (\<lambda>f. cf_ok (parse_crdb_export_file f) \<and> cf_table (parse_crdb_export_file f) = t) (list_dir (ic_data_dir config) entries))
      streams \<and>
    records_of t L = map Some (concat (map (\<lambda>fp. filter (\<lambda>v. v \<noteq> []) (map strip (fst fp))) streams))"
proof -
  have run: "importer_run S H config w = (Inr (), w')" using erase_run [of S H config w "[]"] assms(1) by simp
  obtain entries where e: "src_scan S (ic_data_dir config) = Inr entries"
    "records_of t L = map Some (concat (map (file_values S) (files_of config (list_dir (ic_data_dir config) entries) t)))"
    using importer_run_log [OF assms(1), of t] assms(2,3) by auto
  let ?files = "files_of config (list_dir (ic_data_dir config) entries) t"
  have "\<forall>f \<in> set ?files. ended S f" using run_ended [OF run assms(2) e(1)] by blast
  then obtain streams where "list_all2 (\<lambda>f fp. src_open S (has_gz_ext f) f = Inr fp \<and> snd fp \<in> {AtEof, ReadError}) ?files streams"
    "concat (map (file_values S) ?files) = concat (map (\<lambda>fp. filter (\<lambda>v. v \<noteq> []) (map strip (fst fp))) streams)"
    using ended_streams [OF _ assms(5)] by blast
  with e assms(4) show ?thesis by (intro exI [of _ entries] exI [of _ streams]) (simp add: files_of_def)
qed

theorem importer_complete_witness:
  "\<exists>L. importer_run sample_source (logged sample_handler) sample_import (0, []) = (Inr (), 1, L) \<and> records_of ''t'' L = [Some ''{}'']"
proof -
  obtain L where L: "importer_run sample_source (logged sample_handler) sample_import (0, []) = (Inr (), 1, L)"
    using sample_logged by blast
  have v: "src_validate sample_source = None" "\<not> ic_schema_only sample_import" "''t'' \<in> set (ic_tables sample_import)"
    by (simp_all add: sample_source_def sample_sels)
  have n: "\<forall>gz fn lines e. src_open sample_source gz fn = Inr (lines, e) \<longrightarrow> [] \<notin> set lines"
    by (auto simp: sample_source_def)
  have o: "src_open sample_source gz fn = Inr ([[NL], ''{}'' @ [NL]], AtEof)" for gz fn
    by (simp add: sample_source_def)
  from importer_complete [OF L v(2) v(1) v(3) n] obtain streams where
    st: "list_all2 (\<lambda>f fp. src_open sample_source (has_gz_ext f) f = Inr fp \<and> snd fp \<in> {AtEof, ReadError}) [sample_path] streams"
    "records_of ''t'' L = map Some (concat (map (\<lambda>fp. filter (\<lambda>v. v \<noteq> []) (map strip (fst fp))) streams))"
    by (auto simp: sample_sels sample_listing sample_names)
  from st(1) have "streams = [([[NL], ''{}'' @ [NL]], AtEof)]" by (auto simp: o list_all2_Cons1)
  with st(2) have "records_of ''t'' L = [Some ''{}'']" by (simp add: sample_strip sample_strip [simplified])
  with L show ?thesis by blast
qed




end
