(* ===== verification/SfSql.thy ===== *)
theory SfSql
  imports Sql
begin

text \<open>
  The Snowflake text builders, \<open>src/eds/drivers/snowflake/sql.py\<close>: quoting, the timestamp-gated
  \<open>MERGE\<close> and the delete that precedes it, the audit statements, tables, views and migration. They
  work on the records of a batch, not on events. The \<open>datetime\<close> branch of \<open>quote_value\<close> is not
  reachable from JSON and is left out, like the connection string builder.
\<close>

section \<open>Quoting\<close>

definition sf_escape_char :: "char \<Rightarrow> string" where
  "sf_escape_char c = (if c = BS then [BS, BS] else if c = SQ then [SQ, SQ] else [c])"

definition sf_wrap :: "string \<Rightarrow> string \<Rightarrow> string" where
  "sf_wrap fn res = (if fn \<noteq> '''' then fn @ ''('' @ res @ '')'' else res)"

definition sf_quote_string :: "string \<Rightarrow> string \<Rightarrow> string" where
  "sf_quote_string val fn =
     (if val = ''NULL'' then ''NULL'' else sf_wrap fn (SQ # concat (map sf_escape_char val) @ [SQ]))"

fun sf_quote_value :: "pyval \<Rightarrow> string \<Rightarrow> string" where
  "sf_quote_value PNone fn = ''NULL''"
| "sf_quote_value (PBool b) fn = (if b then ''true'' else ''false'')"
| "sf_quote_value (PFloat f) fn = format_f f"
| "sf_quote_value (PInt i) fn = str_int i"
| "sf_quote_value (PStr s) fn = sf_quote_string s fn"
| "sf_quote_value v fn = sf_quote_string (stringify v) fn"

section \<open>Statements\<close>

definition generate_insert_function :: "schema_property \<Rightarrow> string" where
  "generate_insert_function prop =
     (if sp_type prop = ''object'' then ''PARSE_JSON''
      else if sp_type prop = ''array'' then
        (case sp_items prop of Some i \<Rightarrow> if it_type i \<in> {''object'', ''string''} then ''PARSE_JSON'' else ''TO_VARIANT''
         | None \<Rightarrow> ''TO_VARIANT'')
      else '''')"

definition nullable_value :: "schema_property \<Rightarrow> bool \<Rightarrow> string" where
  "nullable_value c wrap =
     (if sp_nullable c then ''NULL''
      else if sp_type c = ''object'' then
        if wrap then ''PARSE_JSON('' @ [SQ] @ ''{}'' @ [SQ] @ '')'' else [SQ] @ ''{}'' @ [SQ]
      else if sp_type c = ''array'' then
        if wrap then ''PARSE_JSON('' @ [SQ] @ ''[]'' @ [SQ] @ '')'' else [SQ] @ ''[]'' @ [SQ]
      else if sp_type c \<in> {''number'', ''integer''} then ''0''
      else if sp_type c = ''boolean'' then ''false''
      else [SQ, SQ])"

definition to_delete_sql :: "change_record \<Rightarrow> string" where
  "to_delete_sql r =
     ''DELETE FROM '' @ sql_quote_identifier (r_table r) @ '' WHERE '' @ sql_quote_identifier ''id'' @ ''='' @
     sf_quote_value (PStr (r_id r)) '''' @ '';'' @ [NL]"

definition sf_object_value :: "schema \<Rightarrow> pyval \<Rightarrow> string \<Rightarrow> string" where
  "sf_object_value model v name = sf_quote_value v (generate_insert_function (prop_of model name))"

definition sf_update_vals :: "schema \<Rightarrow> pydict \<Rightarrow> string list" where
  "sf_update_vals model ob =
     concat (map (\<lambda>name. case dget ob name of
                            Some v \<Rightarrow> [sql_quote_identifier name @ ''='' @ sf_object_value model v name]
                          | None \<Rightarrow> []) (columns model))"

definition sf_insert_val :: "schema \<Rightarrow> pydict \<Rightarrow> string \<Rightarrow> string" where
  "sf_insert_val model ob name =
     (case dget ob name of
        Some v \<Rightarrow> sf_object_value model v name
      | None \<Rightarrow> nullable_value (prop_of model name) True)"

text \<open>\<open>after.get("updatedDate")\<close> of the event's object.\<close>

definition updated_date :: "change_record \<Rightarrow> pyval res" where
  "updated_date r =
     (case r_event r of
        None \<Rightarrow> Inr PNone
      | Some ev \<Rightarrow> andthen (object_or_empty ev) (\<lambda>after.
          Inr (case dget after ''updatedDate'' of Some v \<Rightarrow> v | None \<Rightarrow> PNone)))"

definition sf_merge_text :: "change_record \<Rightarrow> schema \<Rightarrow> pyval \<Rightarrow> string" where
  "sf_merge_text r model ud =
     (let qi_id = sql_quote_identifier ''id''; qi_ud = sql_quote_identifier ''updatedDate''; ob = or_empty (r_object r)
      in ''MERGE INTO '' @ sql_quote_identifier (r_table r) @ '' AS target USING (SELECT '' @
         sf_quote_value (PStr (r_id r)) '''' @ '' AS '' @ qi_id @ '', '' @ sf_quote_value ud '''' @ '' AS '' @ qi_ud @
         '') AS source '' @ ''ON target.'' @ qi_id @ '' = source.'' @ qi_id @ '' '' @
         ''WHEN MATCHED AND source.'' @ qi_ud @ '' > target.'' @ qi_ud @ '' THEN UPDATE SET '' @
         join '','' (sf_update_vals model ob) @ '' '' @
         ''WHEN NOT MATCHED THEN INSERT ('' @ csv sql_quote_identifier (columns model) @ '') VALUES ('' @
         csv (sf_insert_val model ob) (columns model) @ '');'' @ [NL])"

definition to_merge_sql :: "change_record \<Rightarrow> schema \<Rightarrow> string res" where
  "to_merge_sql r model = andthen (updated_date r) (\<lambda>ud. Inr (sf_merge_text r model ud))"

definition sf_to_sql :: "change_record \<Rightarrow> schema \<Rightarrow> bool \<Rightarrow> (string \<times> nat) res" where
  "sf_to_sql r model exists =
     (let (sql, n) = (if exists \<or> r_operation r = ''DELETE'' then (to_delete_sql r, 1) else ('''', 0))
      in if r_operation r \<noteq> ''DELETE'' then andthen (to_merge_sql r model) (\<lambda>m. Inr (sql @ m, n + 1))
         else Inr (sql, n))"

section \<open>Tables, migration\<close>

definition sf_prop_type_to_sql_type :: "schema_property \<Rightarrow> string" where
  "sf_prop_type_to_sql_type prop =
     (let t = sp_type prop in
      if t = ''string'' then if sp_format prop = ''date-time'' then ''TIMESTAMP_NTZ'' else ''STRING''
      else if t = ''integer'' then ''INTEGER''
      else if t = ''number'' then ''FLOAT''
      else if t = ''boolean'' then ''BOOLEAN''
      else if t = ''object'' then ''STRING''
      else if t = ''array'' then
        (case sp_items prop of Some i \<Rightarrow> if it_enum i \<noteq> None then ''STRING'' else ''VARIANT'' | None \<Rightarrow> ''VARIANT'')
      else ''STRING'')"

definition sf_column_line :: "schema \<Rightarrow> (string \<Rightarrow> bool) \<Rightarrow> string \<Rightarrow> string" where
  "sf_column_line s not_null name =
     [TAB] @ sql_quote_identifier name @ '' '' @ sf_prop_type_to_sql_type (prop_of s name) @
     (if not_null name then '' NOT NULL'' else '''') @ '','' @ [NL]"

definition sf_create_sql :: "schema \<Rightarrow> string" where
  "sf_create_sql s =
     (let body = concat (map (sf_column_line s (required_not_null s)) (columns s)) @
            (if s_primary_keys s \<noteq> []
             then [TAB] @ ''PRIMARY KEY ('' @ join '', '' (map sql_quote_identifier (s_primary_keys s)) @ '')'' else '''')
      in ''CREATE OR REPLACE TABLE '' @ sql_quote_identifier (s_table s) @ '' ('' @ [NL] @ body @ [NL] @ '');'' @ [NL])"

definition sf_alter :: "schema \<Rightarrow> string \<Rightarrow> string" where
  "sf_alter s column =
     ''ALTER TABLE '' @ sql_quote_identifier (s_table s) @ '' ADD COLUMN '' @ sql_quote_identifier column @ '' '' @
     sf_prop_type_to_sql_type (prop_of s column) @ '';''"

definition sf_add_new_columns_sql :: "string list \<Rightarrow> schema \<Rightarrow> database_schema \<Rightarrow> string list" where
  "sf_add_new_columns_sql cols s db =
     map (sf_alter s) (filter (\<lambda>column. \<not> fst (get_type db (s_table s) column)) cols)"

section \<open>Audit mode\<close>

definition sf_append_vals :: "change_record \<Rightarrow> schema \<Rightarrow> string list" where
  "sf_append_vals r model =
     (if r_operation r = ''DELETE'' then
        (let keys = (case r_event r of Some ev \<Rightarrow> or_empty (ev_key ev) | None \<Rightarrow> [])
         in map (\<lambda>name. if name \<in> set (s_primary_keys model)
                         then (let i = index_of name (s_primary_keys model)
                               in sf_quote_value (PStr (if i < length keys then keys ! i else r_id r)) '''')
                         else ''NULL'') (columns model))
      else map (\<lambda>name. case dget (or_empty (r_object r)) name of
                          Some v \<Rightarrow> sf_object_value model v name
                        | None \<Rightarrow> ''NULL'') (columns model))"

definition sf_to_append_sql :: "change_record \<Rightarrow> schema \<Rightarrow> string" where
  "sf_to_append_sql r model =
     ''INSERT INTO '' @ sql_quote_identifier (r_table r) @ '' ('' @
     csv sql_quote_identifier (columns model @ [EDS_OPERATION, EDS_MVCC, EDS_TIMESTAMP]) @ '')'' @ [NL] @ ''SELECT '' @
     join '','' (sf_append_vals r model @
       [sf_quote_value (PStr (r_operation r)) '''',
        (case r_event r of Some ev \<Rightarrow> if ev_mvcc_timestamp ev \<noteq> '''' then ev_mvcc_timestamp ev else ''NULL'' | None \<Rightarrow> ''NULL''),
        (case r_event r of Some ev \<Rightarrow> str_int (ev_timestamp ev) | None \<Rightarrow> ''0'')]) @ '';'' @ [NL]"

definition sf_create_append_sql :: "schema \<Rightarrow> string" where
  "sf_create_append_sql s =
     (let table = sql_quote_identifier (s_table s);
          body = concat (map (sf_column_line s (\<lambda>name. name \<in> set (s_primary_keys s))) (columns s)) @
            [TAB] @ sql_quote_identifier EDS_SEQ @ '' NUMBER AUTOINCREMENT,'' @ [NL] @
            [TAB] @ sql_quote_identifier EDS_OPERATION @ '' STRING NOT NULL,'' @ [NL] @
            [TAB] @ sql_quote_identifier EDS_MVCC @ '' NUMBER(38,10),'' @ [NL] @
            [TAB] @ sql_quote_identifier EDS_TIMESTAMP @ '' NUMBER,'' @ [NL] @
            [TAB] @ sql_quote_identifier EDS_APPENDED_AT @ '' TIMESTAMP_LTZ DEFAULT CURRENT_TIMESTAMP(),'' @ [NL] @
            [TAB] @ ''PRIMARY KEY ('' @ sql_quote_identifier EDS_SEQ @ '')''
      in ''CREATE OR REPLACE TABLE '' @ table @ '' ('' @ [NL] @ body @ [NL] @ '');'' @ [NL])"

definition sf_create_current_view_sql :: "schema \<Rightarrow> string" where
  "sf_create_current_view_sql s =
     (let obj_lines = join ('','' @ [NL]) (map (\<lambda>c. [TAB] @ sql_quote_identifier c) (columns s));
          partition = csv sql_quote_identifier (s_primary_keys s);
          order_by = join '', '' [sql_quote_identifier EDS_MVCC @ '' DESC NULLS LAST'',
            sql_quote_identifier EDS_TIMESTAMP @ '' DESC'', sql_quote_identifier EDS_SEQ @ '' DESC'']
      in ''CREATE OR REPLACE VIEW '' @ sql_quote_identifier (s_table s @ ''_current'') @ '' AS'' @ [NL] @
         ''SELECT'' @ [NL] @
         obj_lines @ [NL] @
         ''FROM '' @ sql_quote_identifier (s_table s) @ [NL] @
         ''QUALIFY ROW_NUMBER() OVER ('' @ [NL] @
         [TAB] @ ''PARTITION BY '' @ partition @ [NL] @
         [TAB] @ ''ORDER BY '' @ order_by @ [NL] @
         '') = 1'' @ [NL] @
         [TAB] @ ''AND '' @ sql_quote_identifier EDS_OPERATION @ '' <> '' @ [SQ] @ ''DELETE'' @ [SQ] @ '';'' @ [NL])"

definition sf_create_timeline_view_sql :: "schema \<Rightarrow> string" where
  "sf_create_timeline_view_sql s =
     (let obj_lines = concat (map (\<lambda>c. [TAB] @ sql_quote_identifier c @ '','' @ [NL]) (columns s));
          partition = csv sql_quote_identifier (s_primary_keys s);
          order_by = join '', '' (map (\<lambda>n. sql_quote_identifier n @ '' ASC'') [EDS_MVCC, EDS_TIMESTAMP, EDS_SEQ])
      in ''CREATE OR REPLACE VIEW '' @ sql_quote_identifier (s_table s @ ''_timeline'') @ '' AS'' @ [NL] @
         ''SELECT'' @ [NL] @
         obj_lines @
         [TAB] @ sql_quote_identifier EDS_OPERATION @ '','' @ [NL] @
         [TAB] @ sql_quote_identifier EDS_MVCC @ '' AS '' @ sql_quote_identifier ''valid_from'' @ '','' @ [NL] @
         [TAB] @ ''LEAD('' @ sql_quote_identifier EDS_MVCC @ '') OVER ('' @ [NL] @
         [TAB, TAB] @ ''PARTITION BY '' @ partition @ [NL] @
         [TAB, TAB] @ ''ORDER BY '' @ order_by @ [NL] @
         [TAB] @ '') AS '' @ sql_quote_identifier ''valid_to'' @ [NL] @
         ''FROM '' @ sql_quote_identifier (s_table s) @ '';'' @ [NL])"

section \<open>How Snowflake reads the statements\<close>

text \<open>
  Snowflake quotes identifiers by double quotes; in a string literal both a doubled quote and a backslash
  sequence stand for one character.
\<close>

definition sf_unescape :: "char \<Rightarrow> char" where
  "sf_unescape c =
     (if c = CHR ''n'' then NL else if c = CHR ''r'' then CR else if c = CHR ''t'' then TAB
      else if c = CHR ''b'' then CHR 0x08 else if c = CHR ''f'' then CHR 0x0C else if c = CHR ''0'' then NUL else c)"

definition sf_dialect :: dialect where
  "sf_dialect = \<lparr>d_open = DQ, d_close = DQ, d_unescape = Some sf_unescape, d_tag = None\<rparr>"

definition sf_ident_ok :: "string \<Rightarrow> bool" where
  "sf_ident_ok n \<longleftrightarrow> DQ \<notin> set n"

lemma sf_dialect_ok: "dialect_ok sf_dialect"
  by (simp add: dialect_ok_def sf_dialect_def)

lemma sf_escape_spells: "spells (Some sf_unescape) SQ (concat (map sf_escape_char s)) s"
proof -
  have "spells (Some sf_unescape) SQ (sf_escape_char c) [c]" for c
    using spells_escaped [of SQ sf_unescape BS] spells_doubled [of "Some sf_unescape" SQ] spells_self [of c SQ "Some sf_unescape"]
    by (auto simp: sf_escape_char_def sf_unescape_def)
  then show ?thesis using spells_map [of s "Some sf_unescape" SQ sf_escape_char "\<lambda>c. [c]"] by simp
qed

interpretation sf: sql_dialect sf_dialect sql_quote_identifier sf_ident_ok "\<lambda>n. n"
  "\<lambda>s. SQ # concat (map sf_escape_char s) @ [SQ]" "\<lambda>s. True" "\<lambda>s. s"
proof unfold_locales
  show "dialect_ok sf_dialect" by (rule sf_dialect_ok)
  show "reads sf_dialect (sql_quote_identifier n) [Ident n]" if "sf_ident_ok n" for n
    using that reads_ident [of sf_dialect n n] spells_plain [of DQ n None]
    by (simp add: sql_quote_identifier_def sf_dialect_def sf_ident_ok_def)
  show "reads sf_dialect (SQ # concat (map sf_escape_char s) @ [SQ]) [Lit s]" for s
    by (rule reads_lit [OF sf_dialect_ok]) (simp add: sf_dialect_def sf_escape_spells)
qed

text \<open>A string value is one literal, wrapped in a call if there is a function; the text NULL is the null value.\<close>

definition sf_string_toks :: "string \<Rightarrow> string \<Rightarrow> tok list" where
  "sf_string_toks val fn =
     (if val = ''NULL'' then chars ''NULL''
      else if fn \<noteq> '''' then chars (fn @ ''('') @ [Lit val] @ chars '')'' else [Lit val])"

fun sf_value_toks :: "pyval \<Rightarrow> string \<Rightarrow> tok list" where
  "sf_value_toks PNone fn = chars ''NULL''"
| "sf_value_toks (PBool b) fn = chars (if b then ''true'' else ''false'')"
| "sf_value_toks (PFloat f) fn = chars (format_f f)"
| "sf_value_toks (PInt i) fn = chars (str_int i)"
| "sf_value_toks (PStr s) fn = sf_string_toks s fn"
| "sf_value_toks v fn = sf_string_toks (stringify v) fn"

definition sf_null_toks :: "schema_property \<Rightarrow> tok list" where
  "sf_null_toks c =
     (if sp_nullable c then chars ''NULL''
      else if sp_type c = ''object'' then sf_string_toks ''{}'' ''PARSE_JSON''
      else if sp_type c = ''array'' then sf_string_toks ''[]'' ''PARSE_JSON''
      else if sp_type c \<in> {''number'', ''integer''} then chars ''0''
      else if sp_type c = ''boolean'' then chars ''false''
      else [Lit ''''])"

definition sf_object_toks :: "schema \<Rightarrow> pyval \<Rightarrow> string \<Rightarrow> tok list" where
  "sf_object_toks model v name = sf_value_toks v (generate_insert_function (prop_of model name))"

definition sf_insert_toks :: "schema \<Rightarrow> pydict \<Rightarrow> string \<Rightarrow> tok list" where
  "sf_insert_toks model ob name =
     (case dget ob name of Some v \<Rightarrow> sf_object_toks model v name | None \<Rightarrow> sf_null_toks (prop_of model name))"

definition sf_update_toks :: "schema \<Rightarrow> pydict \<Rightarrow> tok list list" where
  "sf_update_toks model ob =
     concat (map (\<lambda>name. case dget ob name of
                            Some v \<Rightarrow> [Ident name # Ch (CHR ''='') # sf_object_toks model v name]
                          | None \<Rightarrow> []) (columns model))"

definition sf_delete_toks :: "change_record \<Rightarrow> tok list" where
  "sf_delete_toks r =
     chars ''DELETE FROM '' @ [Ident (r_table r)] @ chars '' WHERE '' @ [Ident ''id''] @ chars ''='' @
     sf_string_toks (r_id r) '''' @ chars ('';'' @ [NL])"

definition sf_merge_toks :: "change_record \<Rightarrow> schema \<Rightarrow> pyval \<Rightarrow> tok list" where
  "sf_merge_toks r model ud =
     (let i = [Ident ''id'']; u = [Ident ''updatedDate'']; ob = or_empty (r_object r)
      in chars ''MERGE INTO '' @ [Ident (r_table r)] @ chars '' AS target USING (SELECT '' @
         sf_string_toks (r_id r) '''' @ chars '' AS '' @ i @ chars '', '' @ sf_value_toks ud '''' @ chars '' AS '' @ u @
         chars '') AS source ON target.'' @ i @ chars '' = source.'' @ i @
         chars '' WHEN MATCHED AND source.'' @ u @ chars '' > target.'' @ u @ chars '' THEN UPDATE SET '' @
         tok_join '','' (sf_update_toks model ob) @
         chars '' WHEN NOT MATCHED THEN INSERT ('' @ tok_join '','' (map (\<lambda>n. [Ident n]) (columns model)) @
         chars '') VALUES ('' @ tok_join '','' (map (sf_insert_toks model ob) (columns model)) @ chars ('');'' @ [NL]))"

lemma sf_string_reads:
  assumes "list_all neutral fn"
  shows "reads sf_dialect (sf_quote_string val fn) (sf_string_toks val fn)"
proof (cases "val = ''NULL'' \<or> fn = ''''")
  case True
  then show ?thesis
    using sf.words_read [of "''NULL''"] sf.lit_reads [of val]
    by (auto simp: sf_quote_string_def sf_string_toks_def sf_wrap_def)
next
  case False
  have "parts_ok sf_dialect [Txt (fn @ ''(''), Item (SQ # concat (map sf_escape_char val) @ [SQ]) [Lit val], Txt '')'']"
    using assms sf.lit_reads [of val] by (simp add: neutral_def)
  from parts_read [OF sf_dialect_ok this] False show ?thesis
    by (simp add: sf_quote_string_def sf_string_toks_def sf_wrap_def)
qed

lemma sf_value_reads: "list_all neutral fn \<Longrightarrow> reads sf_dialect (sf_quote_value v fn) (sf_value_toks v fn)"
  by (cases v) (auto simp del: list.map intro!: sf.words_read sf_string_reads)

lemma generate_insert_function_neutral: "list_all neutral (generate_insert_function prop)"
  by (simp add: generate_insert_function_def neutral_def split: option.splits)

lemma sf_object_reads: "reads sf_dialect (sf_object_value model v name) (sf_object_toks model v name)"
  unfolding sf_object_value_def sf_object_toks_def by (rule sf_value_reads [OF generate_insert_function_neutral])

lemma sf_null_reads: "reads sf_dialect (nullable_value c True) (sf_null_toks c)"
proof -
  have "list_all neutral ''PARSE_JSON''" by (simp add: neutral_def)
  from sf_string_reads [OF this, of "''{}''"] sf_string_reads [OF this, of "''[]''"]
  show ?thesis
    using sf.words_read [of "''NULL''"] sf.words_read [of "''0''"] sf.words_read [of "''false''"] sf.lit_reads [of "''''"]
    by (auto simp: nullable_value_def sf_null_toks_def sf_quote_string_def sf_wrap_def sf_escape_char_def)
qed

lemma sf_insert_reads: "reads sf_dialect (sf_insert_val model ob name) (sf_insert_toks model ob name)"
  using sf_object_reads sf_null_reads by (auto simp: sf_insert_val_def sf_insert_toks_def split: option.splits)

lemma sf_update_reads:
  assumes "list_all sf_ident_ok (columns model)"
  shows "list_all2 (reads sf_dialect) (sf_update_vals model ob) (sf_update_toks model ob)"
proof -
  have "list_all2 (reads sf_dialect)
     (concat (map (\<lambda>name. case dget ob name of Some v \<Rightarrow> [sql_quote_identifier name @ ''='' @ sf_object_value model v name] | None \<Rightarrow> []) cs))
     (concat (map (\<lambda>name. case dget ob name of Some v \<Rightarrow> [Ident name # Ch (CHR ''='') # sf_object_toks model v name] | None \<Rightarrow> []) cs))"
    if "list_all sf_ident_ok cs" for cs
    using that sf.assign_reads [OF _ sf_object_reads]
    by (induction cs) (auto split: option.splits)
  with assms show ?thesis by (simp add: sf_update_vals_def sf_update_toks_def)
qed

lemma sf_id_ident: "reads sf_dialect (sql_quote_identifier ''id'') [Ident ''id'']"
  "reads sf_dialect (sql_quote_identifier ''updatedDate'') [Ident ''updatedDate'']"
  by (intro sf.ident_reads, simp add: sf_ident_ok_def)+

lemma sf_delete_reads:
  assumes "sf_ident_ok (r_table r)"
  shows "reads sf_dialect (to_delete_sql r) (sf_delete_toks r)"
proof -
  let ?ps = "[Txt ''DELETE FROM '', Item (sql_quote_identifier (r_table r)) [Ident (r_table r)], Txt '' WHERE '',
    Item (sql_quote_identifier ''id'') [Ident ''id''], Txt ''='', Item (sf_quote_string (r_id r) '''') (sf_string_toks (r_id r) ''''),
    Txt ('';'' @ [NL])]"
  have "parts_ok sf_dialect ?ps"
    using sf.ident_reads [OF assms] sf_id_ident sf_string_reads [of "''''"] by (simp add: neutral_def)
  from parts_read [OF sf_dialect_ok this] show ?thesis by (simp add: to_delete_sql_def sf_delete_toks_def)
qed

lemma sf_merge_reads:
  assumes "sf_ident_ok (r_table r)" "list_all sf_ident_ok (columns model)"
  shows "reads sf_dialect (sf_merge_text r model ud) (sf_merge_toks r model ud)"
proof -
  let ?i = "Item (sql_quote_identifier ''id'') [Ident ''id'']" and ?u = "Item (sql_quote_identifier ''updatedDate'') [Ident ''updatedDate'']"
  let ?ob = "or_empty (r_object r)"
  let ?ps = "[Txt ''MERGE INTO '', Item (sql_quote_identifier (r_table r)) [Ident (r_table r)], Txt '' AS target USING (SELECT '',
    Item (sf_quote_string (r_id r) '''') (sf_string_toks (r_id r) ''''), Txt '' AS '', ?i, Txt '', '',
    Item (sf_quote_value ud '''') (sf_value_toks ud ''''), Txt '' AS '', ?u, Txt '') AS source ON target.'', ?i, Txt '' = source.'', ?i,
    Txt '' WHEN MATCHED AND source.'', ?u, Txt '' > target.'', ?u, Txt '' THEN UPDATE SET '',
    Item (join '','' (sf_update_vals model ?ob)) (tok_join '','' (sf_update_toks model ?ob)), Txt '' WHEN NOT MATCHED THEN INSERT ('',
    Item (csv sql_quote_identifier (columns model)) (tok_join '','' (map (\<lambda>n. [Ident n]) (columns model))), Txt '') VALUES ('',
    Item (csv (sf_insert_val model ?ob) (columns model)) (tok_join '','' (map (sf_insert_toks model ?ob) (columns model))), Txt ('');'' @ [NL])]"
  have "parts_ok sf_dialect ?ps"
    using sf.ident_reads [OF assms(1)] sf_id_ident sf_string_reads [of "''''"] sf_value_reads [of "''''"]
      sf.idents_read [OF assms(2)] sf.values_read [OF sf_update_reads [OF assms(2)]]
      sf.values_read [OF list_all2_map_reads [OF sf_insert_reads]]
    by (simp add: neutral_def csv_def)
  from parts_read [OF sf_dialect_ok this] show ?thesis by (simp add: sf_merge_text_def sf_merge_toks_def Let_def)
qed

subsection \<open>Counting statements\<close>

text \<open>The statements of a text are ended by the semicolons outside identifiers and literals.\<close>

definition semis :: "tok list \<Rightarrow> nat" where
  "semis ts = length (filter (\<lambda>t. t = Ch (CHR '';'')) ts)"

lemma semis_simps [simp]:
  "semis [] = 0" "semis (ts @ us) = semis ts + semis us" "semis (Lit s # ts) = semis ts" "semis (Ident s # ts) = semis ts"
  "semis (Ch c # ts) = (if c = CHR '';'' then Suc (semis ts) else semis ts)"
  by (simp_all add: semis_def)

lemma semis_words: "list_all word_char s \<Longrightarrow> semis (chars s) = 0"
  by (induction s) (auto simp: char_class_simps)

lemma semis_join: "CHR '';'' \<notin> set sep \<Longrightarrow> \<forall>ts \<in> set tss. semis ts = 0 \<Longrightarrow> semis (tok_join sep tss) = 0"
proof (induction sep tss rule: tok_join.induct)
  case (3 sep x y xs)
  have "semis (chars sep) = 0" if "CHR '';'' \<notin> set sep" for sep using that by (induction sep) auto
  with 3 show ?case by simp
qed simp_all

lemma semis_value: "fn \<in> {'''', ''PARSE_JSON'', ''TO_VARIANT''} \<Longrightarrow> semis (sf_value_toks v fn) = 0"
  by (cases v) (auto simp: sf_string_toks_def semis_words)

lemma semis_object: "semis (sf_object_toks model v name) = 0"
  unfolding sf_object_toks_def
  by (rule semis_value) (auto simp: generate_insert_function_def split: option.splits)

lemma semis_insert: "semis (sf_insert_toks model ob name) = 0"
  using semis_object by (auto simp: sf_insert_toks_def sf_null_toks_def sf_string_toks_def split: option.splits)

lemma semis_delete: "semis (sf_delete_toks r) = 1"
  by (simp add: sf_delete_toks_def sf_string_toks_def)

lemma semis_merge: "semis (sf_merge_toks r model ud) = 1"
proof -
  have "semis (tok_join '','' (sf_update_toks model ob)) = 0" for ob
    by (rule semis_join) (auto simp: sf_update_toks_def semis_object split: option.splits)
  moreover have "semis (tok_join '','' (map (sf_insert_toks model ob) (columns model))) = 0" for ob
    by (rule semis_join) (auto simp: semis_insert)
  moreover have "semis (tok_join '','' (map (\<lambda>n. [Ident n]) (columns model))) = 0"
    by (rule semis_join) auto
  moreover have "semis (sf_string_toks (r_id r) '''') = 0" "semis (sf_value_toks ud '''') = 0"
    using semis_value [of "''''" "PStr (r_id r)"] semis_value [of "''''" ud] by simp_all
  ultimately show ?thesis by (simp add: sf_merge_toks_def Let_def)
qed

end
