(* ===== verification/Snowflake.thy ===== *)
theory Snowflake
  imports SfSql Registry Sink
begin

text \<open>
  The Snowflake driver, \<open>src/eds/drivers/snowflake/snowflake.py\<close>: it batches records, collapses them,
  plans one query of several statements with its statement count, and keeps in the tracker the rows inserted within a
  day. The database and the registry are operations on an abstract world \<open>'w\<close>; the tracker is the one of
  theory Tracker. Within one flush the clock is read once for all lookups (\<open>tg\<close>) and once for the
  update (\<open>ts\<close>). Left out: locks, log lines, and the profiling figures that only log lines show.
\<close>

section \<open>Planning a flush\<close>

record flush_plan =
  fp_query :: string
  fp_statement_count :: nat
  fp_cache_keys :: "string list"
  fp_delete_keys :: "string list"

definition empty_plan :: flush_plan where
  "empty_plan = \<lparr>fp_query = '''', fp_statement_count = 0, fp_cache_keys = [], fp_delete_keys = []\<rparr>"

text \<open>What planning reads: the registry and the presence of a tracker key, in a state \<open>'s\<close>.\<close>

record 's plan_env =
  pe_get_table_version :: "string \<Rightarrow> 's \<Rightarrow> (bool \<times> string) res \<times> 's"
  pe_get_schema :: "string \<Rightarrow> string \<Rightarrow> 's \<Rightarrow> schema res \<times> 's"
  pe_has_key :: "string \<Rightarrow> 's \<Rightarrow> bool res \<times> 's"

definition record_key :: "change_record \<Rightarrow> string" where
  "record_key r = ''snowflake:'' @ r_table r @ '':'' @ r_id r"

definition update_noise :: "change_record \<Rightarrow> bool" where
  "update_noise r =
     (let diff = or_empty (r_diff r) in
      diff = [''updatedDate''] \<or> diff = [] \<or>
      length diff = 2 \<and> ''updatedDate'' \<in> set diff \<and> ''meta'' \<in> set diff)"

definition record_schema :: "'s plan_env \<Rightarrow> string \<Rightarrow> 's \<Rightarrow> schema res \<times> 's" where
  "record_schema E table s =
     andthen_st (pe_get_table_version E table s) (\<lambda>found_version s1. pe_get_schema E table (snd found_version) s1)"

definition plan_record :: "'s plan_env \<Rightarrow> change_record \<Rightarrow> flush_plan \<Rightarrow> 's \<Rightarrow> flush_plan res \<times> 's" where
  "plan_record E r plan s =
     (let op = r_operation r in
      if op = ''UPDATE'' \<and> update_noise r then (Inr plan, s)
      else
        andthen_st (if op = ''INSERT'' then pe_has_key E (record_key r) s else (Inr False, s)) (\<lambda>force s1.
        andthen_st (record_schema E (r_table r) s1) (\<lambda>schema s2.
          case sf_to_sql r schema force of
            Inl e \<Rightarrow> (Inl e, s2)
          | Inr (q, c) \<Rightarrow>
              (Inr (plan\<lparr>fp_query := fp_query plan @ q, fp_statement_count := fp_statement_count plan + c,
                         fp_cache_keys := fp_cache_keys plan @ (if op = ''INSERT'' \<or> op = ''DELETE'' then [record_key r] else []),
                         fp_delete_keys := fp_delete_keys plan @ (if op = ''DELETE'' then [record_key r] else [])\<rparr>), s2))))"

fun plan_records :: "'s plan_env \<Rightarrow> change_record list \<Rightarrow> flush_plan \<Rightarrow> 's \<Rightarrow> flush_plan res \<times> 's" where
  "plan_records E [] plan s = (Inr plan, s)"
| "plan_records E (r # rs) plan s = andthen_st (plan_record E r plan s) (\<lambda>plan1 s1. plan_records E rs plan1 s1)"

definition plan_flush :: "'s plan_env \<Rightarrow> change_record list \<Rightarrow> 's \<Rightarrow> flush_plan res \<times> 's" where
  "plan_flush E records s = plan_records E records empty_plan s"

fun append_query :: "'s plan_env \<Rightarrow> change_record list \<Rightarrow> string \<Rightarrow> 's \<Rightarrow> string res \<times> 's" where
  "append_query E [] q s = (Inr q, s)"
| "append_query E (r # rs) q s =
     andthen_st (record_schema E (r_table r) s) (\<lambda>schema s1. append_query E rs (q @ sf_to_append_sql r schema) s1)"

definition plan_flush_append :: "'s plan_env \<Rightarrow> change_record list \<Rightarrow> 's \<Rightarrow> flush_plan res \<times> 's" where
  "plan_flush_append E records s =
     andthen_st (append_query E records '''' s) (\<lambda>q s1.
       (Inr \<lparr>fp_query = q, fp_statement_count = length records, fp_cache_keys = [], fp_delete_keys = []\<rparr>, s1))"

section \<open>The driver\<close>

record 'w sf_ops =
  so_get_table_version :: "string \<Rightarrow> 'w \<Rightarrow> (bool \<times> string) res \<times> 'w"
  so_get_schema :: "string \<Rightarrow> string \<Rightarrow> 'w \<Rightarrow> schema res \<times> 'w"
  so_open_from_url :: "string \<Rightarrow> 'w \<Rightarrow> unit res \<times> 'w"
  so_close :: "'w \<Rightarrow> 'w"
  so_query_single_value :: "string \<Rightarrow> 'w \<Rightarrow> string res \<times> 'w"
  so_build_schema :: "string \<Rightarrow> string \<Rightarrow> bool \<Rightarrow> 'w \<Rightarrow> database_schema res \<times> 'w"
  so_exec_multi_statement :: "string \<Rightarrow> nat \<Rightarrow> 'w \<Rightarrow> nat res \<times> 'w"
  so_exec :: "string \<Rightarrow> 'w \<Rightarrow> unit res \<times> 'w"

record 'w sf_driver =
  sf_world :: 'w
  sf_db :: bool
  sf_registry :: bool
  sf_tracker :: "tracker option"
  sf_batcher :: batcher
  sf_dbname :: string
  sf_schema_name :: string
  sf_dbschema :: database_schema
  sf_session_id :: string
  sf_sequence :: nat
  sf_stopped :: bool
  sf_append :: bool

definition new_sf_driver :: "'w \<Rightarrow> 'w sf_driver" where
  "new_sf_driver w =
     \<lparr>sf_world = w, sf_db = False, sf_registry = False, sf_tracker = None, sf_batcher = [], sf_dbname = '''', sf_schema_name = '''',
      sf_dbschema = [], sf_session_id = '''', sf_sequence = 0, sf_stopped = False, sf_append = False\<rparr>"

definition SF_CACHE_TTL_SECONDS :: int where "SF_CACHE_TTL_SECONDS = 24 * 3600"

definition SF_MAX_BATCH_SIZE :: nat where "SF_MAX_BATCH_SIZE = 200"

definition on_sf :: "('w \<Rightarrow> 'a \<times> 'w) \<Rightarrow> 'w sf_driver \<Rightarrow> 'a \<times> 'w sf_driver" where
  "on_sf f s = (case f (sf_world s) of (r, w) \<Rightarrow> (r, s\<lparr>sf_world := w\<rparr>))"

text \<open>A call of the tracker; without one the attribute access fails.\<close>

definition on_tracker :: "(tracker \<Rightarrow> 'a res \<times> tracker) \<Rightarrow> 'w sf_driver \<Rightarrow> 'a res \<times> 'w sf_driver" where
  "on_tracker f s =
     (case sf_tracker s of
        None \<Rightarrow> (Inl (TypeError ''no tracker''), s)
      | Some t \<Rightarrow> (case f t of (r, t1) \<Rightarrow> (r, s\<lparr>sf_tracker := Some t1\<rparr>)))"

definition sf_refresh_schema :: "'w sf_ops \<Rightarrow> bool \<Rightarrow> 'w sf_driver \<Rightarrow> unit res \<times> 'w sf_driver" where
  "sf_refresh_schema ops fail_if_empty s =
     andthen_st
       (if sf_dbname s = '''' then
          andthen_st (on_sf (so_query_single_value ops ''CURRENT_DATABASE()'') s) (\<lambda>n s1. (Inr (), s1\<lparr>sf_dbname := n\<rparr>))
        else (Inr (), s)) (\<lambda>_ s2.
     andthen_st
       (if sf_schema_name s2 = '''' then
          andthen_st (on_sf (so_query_single_value ops ''CURRENT_SCHEMA()'') s2) (\<lambda>n s3. (Inr (), s3\<lparr>sf_schema_name := n\<rparr>))
        else (Inr (), s2)) (\<lambda>_ s4.
     andthen_st (on_sf (so_build_schema ops (sf_dbname s4) (sf_schema_name s4) fail_if_empty) s4)
       (\<lambda>db s5. (Inr (), s5\<lparr>sf_dbschema := db\<rparr>))))"

definition sf_connect_to_db :: "'w sf_ops \<Rightarrow> string \<Rightarrow> 'w sf_driver \<Rightarrow> unit res \<times> 'w sf_driver" where
  "sf_connect_to_db ops url s =
     andthen_st (on_sf (so_open_from_url ops url) s) (\<lambda>_ s1.
       case sf_refresh_schema ops False s1 of
         (Inl e, s2) \<Rightarrow> (Inl e, s2\<lparr>sf_world := so_close ops (sf_world s2)\<rparr>)
       | (Inr _, s2) \<Rightarrow> (Inr (), s2))"

definition sf_start :: "'w sf_ops \<Rightarrow> string \<Rightarrow> tracker option \<Rightarrow> bool \<Rightarrow> 'w sf_driver \<Rightarrow> unit res \<times> 'w sf_driver" where
  "sf_start ops url tr append_mode s =
     andthen_st (sf_connect_to_db ops url (s\<lparr>sf_registry := True, sf_tracker := tr, sf_append := append_mode\<rparr>))
       (\<lambda>_ s1. (Inr (), s1\<lparr>sf_db := True\<rparr>))"

definition sf_test :: "'w sf_ops \<Rightarrow> string \<Rightarrow> 'w sf_driver \<Rightarrow> unit res \<times> 'w sf_driver" where
  "sf_test ops url s =
     andthen_st (sf_connect_to_db ops url s) (\<lambda>_ s1. (Inr (), s1\<lparr>sf_world := so_close ops (sf_world s1)\<rparr>))"

text \<open>\<open>[0-9a-f]{8}-[0-9a-f]{4}-[0-9a-f]{4}-[0-9a-f]{4}-[0-9a-f]{12}\<close>, found anywhere in the text.\<close>

definition is_lower_hex :: "char \<Rightarrow> bool" where
  "is_lower_hex c \<longleftrightarrow> is_digit c \<or> CHR ''a'' \<le> c \<and> c \<le> CHR ''f''"

definition UUID_TEMPLATE :: string where
  "UUID_TEMPLATE = ''hhhhhhhh-hhhh-hhhh-hhhh-hhhhhhhhhhhh''"

definition has_uuid :: "string \<Rightarrow> bool" where
  "has_uuid s \<longleftrightarrow>
     list_ex (\<lambda>i. list_all2 (\<lambda>t c. if t = CHR ''h'' then is_lower_hex c else c = t) UUID_TEMPLATE (take 36 (drop i s)))
       [0..<length s]"

definition set_session_id :: "string \<Rightarrow> 'w sf_driver \<Rightarrow> 'w sf_driver" where
  "set_session_id session_id s = (if session_id \<noteq> '''' \<and> has_uuid session_id then s\<lparr>sf_session_id := session_id\<rparr> else s)"

definition sf_process :: "db_change_event \<Rightarrow> 'w sf_driver \<Rightarrow> bool res \<times> 'w sf_driver" where
  "sf_process event s =
     (case batcher_add event (sf_batcher s) of (r, b) \<Rightarrow> (andthen r (\<lambda>_. Inr False), s\<lparr>sf_batcher := b\<rparr>))"

definition sf_env :: "'w sf_ops \<Rightarrow> int \<Rightarrow> 'w sf_driver plan_env" where
  "sf_env ops tg =
     \<lparr>pe_get_table_version = (\<lambda>t. on_sf (so_get_table_version ops t)),
      pe_get_schema = (\<lambda>t v. on_sf (so_get_schema ops t v)),
      pe_has_key = (\<lambda>k s. andthen_st (on_tracker (get_key tg (codes k)) s) (\<lambda>fv s1. (Inr (fst fv), s1)))\<rparr>"

definition flush_tag :: "'w sf_driver \<Rightarrow> nat \<Rightarrow> string" where
  "flush_tag s n = ''eds-'' @ sf_session_id s @ ''/'' @ str_nat (sf_sequence s) @ ''/'' @ str_nat n"

text \<open>The part of \<open>flush\<close> after the batch has been taken.\<close>

definition sf_send :: "'w sf_ops \<Rightarrow> int \<Rightarrow> int \<Rightarrow> change_record list \<Rightarrow> 'w sf_driver \<Rightarrow> unit res \<times> 'w sf_driver" where
  "sf_send ops tg ts records s =
     (let sorted_records = sort_records_by_mvcc_timestamp records in
      andthen_st
        (if sf_append s then plan_flush_append (sf_env ops tg) sorted_records s
         else plan_flush (sf_env ops tg) (combine_records_with_same_primary_key sorted_records) s) (\<lambda>plan s1.
      andthen_st
        (if fp_statement_count plan > 0
         then andthen_st (on_sf (so_exec_multi_statement ops (fp_query plan) (fp_statement_count plan)) s1) (\<lambda>_ s2. (Inr (), s2))
         else (Inr (), s1)) (\<lambda>_ s2.
      andthen_st
        (if fp_cache_keys plan \<noteq> []
         then on_tracker (set_keys ts (map codes (fp_cache_keys plan)) (flush_tag s (length records)) SF_CACHE_TTL_SECONDS) s2
         else (Inr (), s2)) (\<lambda>_ s3.
        if fp_delete_keys plan \<noteq> [] then on_tracker (delete_key (map codes (fp_delete_keys plan))) s3 else (Inr (), s3)))))"

definition sf_flush :: "'w sf_ops \<Rightarrow> int \<Rightarrow> int \<Rightarrow> 'w sf_driver \<Rightarrow> unit res \<times> 'w sf_driver" where
  "sf_flush ops tg ts s =
     (if \<not> sf_registry s then (Inl AssertionError, s)
      else if \<not> sf_db s then (Inl DriverStoppedError, s)
      else
        (let records = sf_batcher s; s1 = s\<lparr>sf_batcher := batcher_clear (sf_batcher s)\<rparr> in
         if records = [] then (Inr (), s1) else sf_send ops tg ts records (s1\<lparr>sf_sequence := sf_sequence s1 + 1\<rparr>)))"

definition sf_stop :: "'w sf_ops \<Rightarrow> int \<Rightarrow> int \<Rightarrow> 'w sf_driver \<Rightarrow> 'w sf_driver" where
  "sf_stop ops tg ts s =
     (if sf_stopped s then s
      else let s1 = snd (sf_flush ops tg ts (s\<lparr>sf_stopped := True\<rparr>))
           in if sf_db s1 then s1\<lparr>sf_world := so_close ops (sf_world s1), sf_db := False\<rparr> else s1)"

section \<open>Migration\<close>

fun sf_exec_all :: "'w sf_ops \<Rightarrow> string list \<Rightarrow> 'w sf_driver \<Rightarrow> unit res \<times> 'w sf_driver" where
  "sf_exec_all ops [] s = (Inr (), s)"
| "sf_exec_all ops (q # qs) s = andthen_st (on_sf (so_exec ops q) s) (\<lambda>_ s1. sf_exec_all ops qs s1)"

definition forget_table :: "string \<Rightarrow> 'w sf_driver \<Rightarrow> unit res \<times> 'w sf_driver" where
  "forget_table table s =
     (if sf_tracker s = None then (Inr (), s)
      else andthen_st (on_tracker (delete_keys_with_prefix (codes (''snowflake:'' @ table @ '':''))) s) (\<lambda>_ s1. (Inr (), s1)))"

definition sf_migrate_new_table :: "'w sf_ops \<Rightarrow> schema \<Rightarrow> 'w sf_driver \<Rightarrow> unit res \<times> 'w sf_driver" where
  "sf_migrate_new_table ops schema s =
     (let known = s_table schema \<in> set (dkeys (sf_dbschema s)) in
      if \<not> sf_db s then (Inl AssertionError, s)
      else if sf_append s then
        andthen_st (if known then forget_table (s_table schema) s else (Inr (), s)) (\<lambda>_ s1.
        andthen_st (sf_exec_all ops [sf_create_append_sql schema, sf_create_current_view_sql schema, sf_create_timeline_view_sql schema] s1)
          (\<lambda>_ s2. sf_refresh_schema ops True s2))
      else
        andthen_st
          (if known then
             andthen_st (on_sf (so_exec ops (''DROP TABLE IF EXISTS '' @ sql_quote_identifier (s_table schema))) s)
               (\<lambda>_ s1. forget_table (s_table schema) s1)
           else (Inr (), s)) (\<lambda>_ s2.
        andthen_st (on_sf (so_exec ops (sf_create_sql schema)) s2) (\<lambda>_ s3. sf_refresh_schema ops True s3)))"

definition sf_migrate_new_columns :: "'w sf_ops \<Rightarrow> schema \<Rightarrow> string list \<Rightarrow> 'w sf_driver \<Rightarrow> unit res \<times> 'w sf_driver" where
  "sf_migrate_new_columns ops schema cols s =
     (if \<not> sf_db s then (Inl AssertionError, s)
      else
        andthen_st (sf_exec_all ops (sf_add_new_columns_sql cols schema (sf_dbschema s)) s) (\<lambda>_ s1.
        andthen_st (if sf_append s1 then sf_exec_all ops [sf_create_current_view_sql schema, sf_create_timeline_view_sql schema] s1
                    else (Inr (), s1)) (\<lambda>_ s2.
          sf_refresh_schema ops True s2)))"

definition sf_get_destination_schema :: "'w sf_driver \<Rightarrow> database_schema" where
  "sf_get_destination_schema s = sf_dbschema s"

section \<open>The plan\<close>

text \<open>A text that Snowflake reads as \<open>n\<close> statements, and that can follow any other.\<close>

definition statements :: "string \<Rightarrow> nat \<Rightarrow> bool" where
  "statements q n \<longleftrightarrow> closed sf_dialect q \<and> (\<exists>ts. reads sf_dialect q ts \<and> semis ts = n)"

lemma statements_append: "statements q m \<Longrightarrow> statements q' n \<Longrightarrow> statements (q @ q') (m + n)"
  unfolding statements_def
proof (elim conjE exE)
  fix ts ts'
  assume "closed sf_dialect q" "closed sf_dialect q'" "reads sf_dialect q ts" "semis ts = m" "reads sf_dialect q' ts'" "semis ts' = n"
  moreover from this have "reads sf_dialect (q @ q') (ts @ ts')" by (intro reads_append)
  moreover have "closed sf_dialect (q @ q')"
    using \<open>closed sf_dialect q\<close> \<open>closed sf_dialect q'\<close> by (cases q) (auto simp: closed_def)
  ultimately show "closed sf_dialect (q @ q') \<and> (\<exists>ts. reads sf_dialect (q @ q') ts \<and> semis ts = m + n)" by auto
qed

lemma statements_Nil: "statements '''' 0"
  unfolding statements_def by (auto simp: reads_def option.map_id0 intro!: exI [of _ "[]"])

lemma statements_delete: "sf_ident_ok (r_table r) \<Longrightarrow> statements (to_delete_sql r) 1"
  unfolding statements_def using sf_delete_reads [of r] semis_delete [of r] closed_neutral [OF sf_dialect_ok, of "CHR ''D''"]
  by (auto simp: to_delete_sql_def neutral_def)

lemma statements_merge:
  "sf_ident_ok (r_table r) \<Longrightarrow> list_all sf_ident_ok (columns model) \<Longrightarrow> statements (sf_merge_text r model ud) 1"
  unfolding statements_def using sf_merge_reads [of r model ud] semis_merge [of r model ud] closed_neutral [OF sf_dialect_ok, of "CHR ''M''"]
  by (auto simp: sf_merge_text_def Let_def neutral_def)

lemma statements_to_sql:
  assumes "sf_to_sql r model force = Inr (q, c)" "sf_ident_ok (r_table r)" "list_all sf_ident_ok (columns model)"
  shows "statements q c"
proof (cases "r_operation r = ''DELETE''")
  case True
  with assms statements_delete show ?thesis by (auto simp: sf_to_sql_def)
next
  case False
  with assms(1) obtain ud where "q = (if force then to_delete_sql r else '''') @ sf_merge_text r model ud" "c = (if force then 1 else 0) + 1"
    by (auto simp: sf_to_sql_def to_merge_sql_def andthen_Inr_conv split: if_splits)
  moreover have "statements (if force then to_delete_sql r else '''') (if force then 1 else 0)"
    using statements_delete [OF assms(2)] statements_Nil by simp
  ultimately show ?thesis using statements_append statements_merge [OF assms(2,3)] by blast
qed

definition schemas_ok :: "'s plan_env \<Rightarrow> bool" where
  "schemas_ok E \<longleftrightarrow> (\<forall>t v s x s'. pe_get_schema E t v s = (Inr x, s') \<longrightarrow> list_all sf_ident_ok (columns x))"

definition keys_of :: "change_record list \<Rightarrow> flush_plan \<Rightarrow> bool" where
  "keys_of rs plan \<longleftrightarrow>
     fp_cache_keys plan = map record_key (filter (\<lambda>r. r_operation r \<in> {''INSERT'', ''DELETE''}) rs) \<and>
     fp_delete_keys plan = map record_key (filter (\<lambda>r. r_operation r = ''DELETE'') rs)"

lemma record_schema_ok: "schemas_ok E \<Longrightarrow> record_schema E t s = (Inr x, s') \<Longrightarrow> list_all sf_ident_ok (columns x)"
  unfolding schemas_ok_def
  by (cases "pe_get_table_version E t s"; cases "fst (pe_get_table_version E t s)") (simp_all add: record_schema_def, blast)

lemma plan_record_cases:
  assumes "plan_record E r plan s = (Inr plan', s')"
  obtains (noise) "r_operation r = ''UPDATE''" "plan' = plan"
  | (sql) force model q c s1 s2 where "record_schema E (r_table r) s1 = (Inr model, s2)" "sf_to_sql r model force = Inr (q, c)"
      "plan' = plan\<lparr>fp_query := fp_query plan @ q, fp_statement_count := fp_statement_count plan + c,
          fp_cache_keys := fp_cache_keys plan @ (if r_operation r = ''INSERT'' \<or> r_operation r = ''DELETE'' then [record_key r] else []),
          fp_delete_keys := fp_delete_keys plan @ (if r_operation r = ''DELETE'' then [record_key r] else [])\<rparr>"
proof (cases "r_operation r = ''UPDATE'' \<and> update_noise r")
  case True
  with assms noise show thesis by (simp add: plan_record_def)
next
  case False
  obtain f s1 where f: "(if r_operation r = ''INSERT'' then pe_has_key E (record_key r) s else (Inr False, s)) = (f, s1)" by fastforce
  with False assms obtain force where force: "f = Inr force" by (cases f) (auto simp: plan_record_def Let_def)
  obtain x s2 where x: "record_schema E (r_table r) s1 = (x, s2)" by fastforce
  with False assms f force obtain model where model: "x = Inr model" by (cases x) (auto simp: plan_record_def Let_def)
  show thesis
    using False assms f force x model sql by (cases "sf_to_sql r model force") (auto simp: plan_record_def Let_def split: prod.splits)
qed

lemma plan_record_ok:
  assumes "schemas_ok E" "sf_ident_ok (r_table r)" "statements (fp_query plan) (fp_statement_count plan)"
    and "plan_record E r plan s = (Inr plan', s')"
  shows "statements (fp_query plan') (fp_statement_count plan')"
  using assms(4)
proof (cases rule: plan_record_cases)
  case (sql force model q c s1 s2)
  with statements_to_sql [OF sql(2) assms(2)] record_schema_ok [OF assms(1) sql(1)] have "statements q c" by blast
  with assms(3) sql(3) show ?thesis by (simp add: statements_append)
qed (use assms(3) in simp)

lemma plan_record_keys:
  assumes "keys_of rs plan" "plan_record E r plan s = (Inr plan', s')"
  shows "keys_of (rs @ [r]) plan'"
  using assms(2) by (cases rule: plan_record_cases) (use assms(1) in \<open>auto simp: keys_of_def\<close>)

lemma plan_records_ok:
  "schemas_ok E \<Longrightarrow> \<forall>r \<in> set rs. sf_ident_ok (r_table r) \<Longrightarrow> statements (fp_query plan) (fp_statement_count plan) \<Longrightarrow>
   plan_records E rs plan s = (Inr plan', s') \<Longrightarrow> statements (fp_query plan') (fp_statement_count plan')"
proof (induction rs arbitrary: plan s)
  case (Cons r rs)
  obtain x s1 where x: "plan_record E r plan s = (x, s1)" by fastforce
  with Cons.prems(4) obtain plan1 where p: "x = Inr plan1" by (cases x) auto
  with Cons.prems x plan_record_ok [of E r plan s plan1 s1] Cons.IH [of plan1 s1] show ?case by simp
qed simp

lemma plan_records_keys: "keys_of rs0 plan \<Longrightarrow> plan_records E rs plan s = (Inr plan', s') \<Longrightarrow> keys_of (rs0 @ rs) plan'"
proof (induction rs arbitrary: rs0 plan s)
  case (Cons r rs)
  obtain x s1 where x: "plan_record E r plan s = (x, s1)" by fastforce
  with Cons.prems(2) obtain plan1 where p: "x = Inr plan1" by (cases x) auto
  with Cons.prems x plan_record_keys [of rs0 plan E r s plan1 s1] Cons.IH [of "rs0 @ [r]" plan1 s1] show ?case by simp
qed simp

lemma plan_flush_keys: "plan_flush E rs s = (Inr plan, s') \<Longrightarrow> keys_of rs plan"
  using plan_records_keys [of "[]" empty_plan E rs s plan s'] by (simp add: plan_flush_def keys_of_def empty_plan_def)

section \<open>The driver as a sink\<close>

lemma on_sf_batcher [simp]: "sf_batcher (snd (on_sf f s)) = sf_batcher s"
  by (simp add: on_sf_def split: prod.splits)

lemma on_tracker_batcher [simp]: "sf_batcher (snd (on_tracker f s)) = sf_batcher s"
  by (simp add: on_tracker_def split: prod.splits option.splits)

lemma batcher_seq:
  "sf_batcher (snd r) = b \<Longrightarrow> (\<And>x s. sf_batcher s = b \<Longrightarrow> sf_batcher (snd (f x s)) = b) \<Longrightarrow> sf_batcher (snd (andthen_st r f)) = b"
  by (cases r; cases "fst r") auto

lemma sf_env_batcher:
  "sf_batcher (snd (pe_get_table_version (sf_env ops tg) t s)) = sf_batcher s"
  "sf_batcher (snd (pe_get_schema (sf_env ops tg) t v s)) = sf_batcher s"
  "sf_batcher (snd (pe_has_key (sf_env ops tg) k s)) = sf_batcher s"
  by (auto simp: sf_env_def intro!: batcher_seq)

lemma record_schema_batcher: "sf_batcher (snd (record_schema (sf_env ops tg) t s)) = sf_batcher s"
  unfolding record_schema_def by (intro batcher_seq) (simp_all add: sf_env_batcher)

lemma plan_batcher:
  "sf_batcher (snd (plan_records (sf_env ops tg) rs plan s)) = sf_batcher s"
  "sf_batcher (snd (append_query (sf_env ops tg) rs q s)) = sf_batcher s"
proof (induction rs arbitrary: plan q s)
  case (Cons r rs)
  case 1
  have "sf_batcher (snd (plan_record (sf_env ops tg) r plan s)) = sf_batcher s"
    unfolding plan_record_def Let_def
    by (auto intro!: batcher_seq simp: sf_env_batcher record_schema_batcher split: sum.splits)
  with Cons.IH(1) show ?case by (auto intro!: batcher_seq)
  case 2
  with Cons.IH(2) record_schema_batcher show ?case by (auto intro!: batcher_seq)
qed simp_all

lemma sf_send_batcher: "sf_batcher (snd (sf_send ops tg ts rs s)) = sf_batcher s"
  unfolding sf_send_def Let_def plan_flush_def plan_flush_append_def
  by (auto intro!: batcher_seq simp: plan_batcher)

lemma sf_flush_batcher:
  "sf_batcher (snd (sf_flush ops tg ts s)) = (if sf_registry s \<and> sf_db s then [] else sf_batcher s)"
  by (auto simp: sf_flush_def Let_def sf_send_batcher batcher_clear_def)

interpretation sfs: sink sf_process "sf_flush ops tg ts" sf_batcher "\<lambda>s. True" for ops tg ts
proof unfold_locales
  fix s s' :: "'a sf_driver" and i b u e
  show "\<exists>x. sf_batcher s' = sf_batcher s @ [x]" if "sf_process i s = (Inr b, s')"
    using that by (auto simp: sf_process_def batcher_add_def split: prod.splits sum.splits)
  show "sf_batcher s' = sf_batcher s" if "sf_process i s = (Inl e, s')"
    using that by (auto simp: sf_process_def batcher_add_def split: prod.splits sum.splits)
  show "sf_batcher s' = []" if "sf_flush ops tg ts s = (Inr u, s')"
    using that sf_flush_batcher [of ops tg ts s] by (auto simp: sf_flush_def split: if_splits)
  show "sf_batcher s' \<in> {[], sf_batcher s}" if "sf_flush ops tg ts s = (Inl e, s')"
    using that sf_flush_batcher [of ops tg ts s] by (auto split: if_splits)
qed simp_all

section \<open>The tracker after a flush\<close>

lemma kv_fold_put:
  "dget (kv (fold (\<lambda>k. kv_put now k v e) ks t)) k =
     (if k \<in> set ks then Some \<lparr>row_value = v, row_expires_at = deadline now e\<rparr> else dget (kv t) k)"
  by (induction ks arbitrary: t) (auto simp: kv_put_def)

lemma fold_put_open [simp]: "tracker_closed (fold (\<lambda>k. kv_put now k v e) ks t) = tracker_closed t"
  by (induction ks arbitrary: t) (auto simp: kv_put_def)

text \<open>The two tracker calls of a flush that returned normally: the cached keys have the tag and the deadline, the deleted
  ones are gone, also when they were cached by the same flush.\<close>

lemma bookkeeping:
  assumes "andthen_st (if cs \<noteq> [] then on_tracker (set_keys ts (map codes cs) tag ttl) s else (Inr (), s))
       (\<lambda>_ s3. if ds \<noteq> [] then on_tracker (delete_key (map codes ds)) s3 else (Inr (), s3)) = (Inr (), s')"
    and "k \<in> set cs"
  obtains t where "sf_tracker s' = Some t" "\<not> tracker_closed t"
    "dget (kv t) (codes k) = (if k \<in> set ds then None else Some \<lparr>row_value = tag, row_expires_at = deadline ts ttl\<rparr>)"
proof -
  from assms obtain t0 where t0: "sf_tracker s = Some t0" "\<not> tracker_closed t0"
    by (cases "sf_tracker s") (auto simp: on_tracker_def set_keys_def split: if_splits)
  let ?t = "fold (\<lambda>k. kv_put ts k tag ttl) (map codes cs) t0"
  have "codes k \<in> set (map codes cs)" using assms(2) by simp
  then have row: "dget (kv ?t) (codes k) = Some \<lparr>row_value = tag, row_expires_at = deadline ts ttl\<rparr>"
    by (simp add: kv_fold_put del: set_map)
  have ne: "cs \<noteq> []" using assms(2) by auto
  have ds: "codes k \<in> codes ` set ds \<longleftrightarrow> k \<in> set ds" by auto
  show thesis
  proof (cases "ds = []")
    case True
    with assms(1) t0 have "s' = s\<lparr>sf_tracker := Some ?t\<rparr>" by (simp add: ne on_tracker_def set_keys_def)
    with row t0 True that [of ?t] show thesis by simp
  next
    case False
    with assms(1) t0 have "s' = s\<lparr>sf_tracker := Some (?t\<lparr>kv := fold ddel (map codes ds) (kv ?t)\<rparr>)\<rparr>"
      by (simp add: ne on_tracker_def set_keys_def delete_key_def)
    with row t0 ds that [of "?t\<lparr>kv := fold ddel (map codes ds) (kv ?t)\<rparr>"] show thesis by (simp add: map_of_fold_ddel)
  qed
qed

lemma sf_send_upsert:
  assumes "sf_send ops tg ts records s = (Inr (), s')" "\<not> sf_append s"
  obtains plan s0 s1 where "keys_of (combine_records_with_same_primary_key (sort_records_by_mvcc_timestamp records)) plan"
    "andthen_st
        (if fp_cache_keys plan \<noteq> []
         then on_tracker (set_keys ts (map codes (fp_cache_keys plan)) (flush_tag s (length records)) SF_CACHE_TTL_SECONDS) s1
         else (Inr (), s1)) (\<lambda>_ s3.
        if fp_delete_keys plan \<noteq> [] then on_tracker (delete_key (map codes (fp_delete_keys plan))) s3 else (Inr (), s3)) = (Inr (), s')"
proof -
  let ?rs = "combine_records_with_same_primary_key (sort_records_by_mvcc_timestamp records)"
  obtain x s0 where x: "plan_flush (sf_env ops tg) ?rs s = (x, s0)" by fastforce
  with assms obtain plan where p: "x = Inr plan" by (cases x) (auto simp: sf_send_def Let_def)
  obtain y s1 where y: "(if fp_statement_count plan > 0
         then andthen_st (on_sf (so_exec_multi_statement ops (fp_query plan) (fp_statement_count plan)) s0) (\<lambda>_ s2. (Inr (), s2))
         else (Inr (), s0)) = (y :: unit res, s1)" by fastforce
  note run = assms(1) [unfolded sf_send_def Let_def]
  from run assms(2) x p y have "y = Inr ()" by (cases y) (auto simp: sf_send_def)
  with run assms(2) x p y plan_flush_keys [OF x [unfolded p]] show thesis by (intro that [of plan s1]) (auto simp only: andthen_st_simps if_False)
qed

section \<open>Properties\<close>

text \<open>C23: the statement count of a plan is right. If the names of tables and columns have no double
  quote, then whatever the values of the records, Snowflake reads the query of a plan for upserts and deletes as exactly as many
  statements as the driver announces, which the server checks; the tracker keys of the plan are those of the inserted
  and deleted rows, in order. The plans of the audit mode are not covered.\<close>

theorem sf_plan_counts:
  assumes "schemas_ok E" and "\<forall>r \<in> set rs. sf_ident_ok (r_table r)" and "plan_flush E rs s = (Inr plan, s')"
  shows "(\<exists>ts. lex_sql sf_dialect (fp_query plan) = Some ts \<and> semis ts = fp_statement_count plan) \<and>
    fp_cache_keys plan = map record_key (filter (\<lambda>r. r_operation r \<in> {''INSERT'', ''DELETE''}) rs) \<and>
    fp_delete_keys plan = map record_key (filter (\<lambda>r. r_operation r = ''DELETE'') rs)"
proof -
  have "statements (fp_query plan) (fp_statement_count plan)"
    using plan_records_ok [OF assms(1,2), of empty_plan s plan s'] assms(3) statements_Nil
    by (simp add: plan_flush_def empty_plan_def)
  then have "\<exists>ts. lex_sql sf_dialect (fp_query plan) = Some ts \<and> semis ts = fp_statement_count plan"
    using reads_lex by (auto simp: statements_def)
  with plan_flush_keys [OF assms(3)] show ?thesis by (simp add: keys_of_def)
qed

definition sample_env :: "unit plan_env" where
  "sample_env =
     \<lparr>pe_get_table_version = (\<lambda>t s. (Inr (True, ''v''), s)), pe_get_schema = (\<lambda>t v s. (Inr sample_schema, s)),
      pe_has_key = (\<lambda>k s. (Inr True, s))\<rparr>"

lemma sample_columns_ok: "list_all sf_ident_ok (columns sample_schema)"
  by code_simp

theorem sf_plan_counts_witness:
  "let r = sample_record ''t'' '';'' ''INSERT'' [] in
   schemas_ok sample_env \<and> sf_ident_ok (r_table r) \<and>
   (\<exists>plan. plan_flush sample_env [r] () = (Inr plan, ()) \<and> fp_statement_count plan = 2 \<and>
      (\<exists>ts. lex_sql sf_dialect (fp_query plan) = Some ts \<and> semis ts = 2))"
proof -
  let ?r = "sample_record ''t'' '';'' ''INSERT'' []"
  have e: "schemas_ok sample_env" by (simp add: schemas_ok_def sample_env_def sample_columns_ok)
  have i: "sf_ident_ok (r_table ?r)" by (simp add: sf_ident_ok_def sample_record_def)
  have "\<exists>plan. plan_flush sample_env [?r] () = (Inr plan, ()) \<and> fp_statement_count plan = 2"
    by (simp add: plan_flush_def plan_record_def record_schema_def sample_env_def sample_record_def sf_to_sql_def to_merge_sql_def
        updated_date_def empty_plan_def Let_def)
  then obtain plan where p: "plan_flush sample_env [?r] () = (Inr plan, ())" "fp_statement_count plan = 2" by blast
  from sf_plan_counts [OF e _ p(1)] i p e show ?thesis by (auto simp: Let_def)
qed

text \<open>No event is sent twice or out of order. In any sequence of \<open>process\<close> and \<open>flush\<close> calls with any of them
  failing, the records of the flushes that returned normally, followed by the batch, are a subsequence of the records that
  were accepted. A flush with a connection takes the whole batch, also when it fails: the records of a
  failed flush come back only by redelivery.\<close>

theorem sf_stream_once:
  assumes "sink_run sf_process (sf_flush ops tg ts) sf_batcher calls s = (s', durable, accepted)"
  shows "subseq (concat durable @ sf_batcher s') (sf_batcher s @ accepted) \<and>
    sf_batcher (snd (sf_flush ops tg ts s')) = (if sf_registry s' \<and> sf_db s' then [] else sf_batcher s')"
  using sfs.run_subseq [OF TrueI assms] by (simp add: sf_flush_batcher)

text \<open>A connection that accepts everything but the first query.\<close>

definition sample_sf_ops :: "nat sf_ops" where
  "sample_sf_ops =
     \<lparr>so_get_table_version = (\<lambda>t w. (Inr (True, ''v''), w)), so_get_schema = (\<lambda>t v w. (Inr sample_schema, w)),
      so_open_from_url = (\<lambda>u w. (Inr (), w)), so_close = (\<lambda>w. w), so_query_single_value = (\<lambda>f w. (Inr ''x'', w)),
      so_build_schema = (\<lambda>c d b w. (Inr [], w)),
      so_exec_multi_statement = (\<lambda>q n w. (if w = 0 then Inl (OSError ''down'') else Inr n, w + 1)),
      so_exec = (\<lambda>q w. (Inr (), w))\<rparr>"

definition sample_sf :: "nat \<Rightarrow> nat sf_driver" where
  "sample_sf w = (new_sf_driver w)\<lparr>sf_db := True, sf_registry := True, sf_tracker := Some new_tracker\<rparr>"

theorem sf_stream_once_witness:
  "let s = sample_sf 0; ev = sample_event ''INSERT'' ''t'' [''a''] None in
   \<exists>s' durable accepted.
     sink_run sf_process (sf_flush sample_sf_ops 0 0) sf_batcher [Some ev, None, Some ev, None] s = (s', durable, accepted) \<and>
     subseq (concat durable @ sf_batcher s') (sf_batcher s @ accepted)"
proof -
  let ?ev = "sample_event ''INSERT'' ''t'' [''a''] None"
  obtain s' durable accepted where r: "sink_run sf_process (sf_flush sample_sf_ops 0 0) sf_batcher [Some ?ev, None, Some ?ev, None]
      (sample_sf 0) = (s', durable, accepted)" by (rule prod_cases3)
  show ?thesis unfolding Let_def by (intro exI conjI, rule r, rule conjunct1 [OF sf_stream_once [OF r]])
qed

text \<open>Rows inserted within a day are remembered. After a flush in upsert mode that returned normally, the tracker key of
  every inserted row is found up to 24 hours later, with the tag of the flush, and not after; the key of a
  row that the same batch also deletes is not found.\<close>

theorem sf_inserts_remembered:
  assumes "sf_flush ops tg ts s = (Inr (), s')" and "\<not> sf_append s"
    and "r \<in> set (combine_records_with_same_primary_key (sort_records_by_mvcc_timestamp (sf_batcher s)))"
    and "r_operation r \<in> {''INSERT'', ''DELETE''}" and "sf_batcher s \<noteq> []"
  shows "\<exists>t. sf_tracker s' = Some t \<and> fst (get_key now (codes (record_key r)) t) =
    (if now \<le> ts + 86400 \<and>
        (\<forall>d \<in> set (combine_records_with_same_primary_key (sort_records_by_mvcc_timestamp (sf_batcher s))).
           r_operation d = ''DELETE'' \<longrightarrow> record_key d \<noteq> record_key r)
     then Inr (True, ''eds-'' @ sf_session_id s @ ''/'' @ str_nat (sf_sequence s + 1) @ ''/'' @ str_nat (length (sf_batcher s)))
     else Inr (False, ''''))"
proof -
  let ?rs = "combine_records_with_same_primary_key (sort_records_by_mvcc_timestamp (sf_batcher s))"
  let ?s = "s\<lparr>sf_batcher := [], sf_sequence := sf_sequence s + 1\<rparr>"
  have run: "sf_send ops tg ts (sf_batcher s) ?s = (Inr (), s')"
    using assms(1,5) by (simp add: sf_flush_def batcher_clear_def split: if_splits)
  obtain plan s1 where k: "keys_of ?rs plan" and b: "andthen_st
        (if fp_cache_keys plan \<noteq> []
         then on_tracker (set_keys ts (map codes (fp_cache_keys plan)) (flush_tag ?s (length (sf_batcher s))) SF_CACHE_TTL_SECONDS) s1
         else (Inr (), s1)) (\<lambda>_ s3.
        if fp_delete_keys plan \<noteq> [] then on_tracker (delete_key (map codes (fp_delete_keys plan))) s3 else (Inr (), s3)) = (Inr (), s')"
    by (rule sf_send_upsert [OF run]) (use assms(2) in auto)
  have c: "record_key r \<in> set (fp_cache_keys plan)" using k assms(3,4) by (auto simp: keys_of_def)
  have d: "record_key r \<in> set (fp_delete_keys plan) \<longleftrightarrow> \<not> (\<forall>d \<in> set ?rs. r_operation d = ''DELETE'' \<longrightarrow> record_key d \<noteq> record_key r)"
    using k by (auto simp: keys_of_def image_iff)
  obtain t where t: "sf_tracker s' = Some t" "\<not> tracker_closed t"
    "dget (kv t) (codes (record_key r)) = (if record_key r \<in> set (fp_delete_keys plan) then None
       else Some \<lparr>row_value = flush_tag ?s (length (sf_batcher s)), row_expires_at = deadline ts SF_CACHE_TTL_SECONDS\<rparr>)"
    using bookkeeping [OF b c] by blast
  have "fst (get_key now (codes (record_key r)) t) = (if now \<le> ts + 86400 \<and> record_key r \<notin> set (fp_delete_keys plan)
      then Inr (True, flush_tag ?s (length (sf_batcher s))) else Inr (False, ''''))"
    using t(2,3) by (auto simp: get_key_def kv_get_def row_expired_def deadline_def SF_CACHE_TTL_SECONDS_def)
  with t(1) d show ?thesis by (simp add: flush_tag_def)
qed

theorem sf_inserts_remembered_witness:
  "let r = sample_record ''t'' ''a'' ''INSERT'' []; s = (sample_sf 1)\<lparr>sf_batcher := [r]\<rparr> in
   combine_records_with_same_primary_key (sort_records_by_mvcc_timestamp [r]) = [r] \<and>
   (\<exists>s' t. sf_flush sample_sf_ops 0 5 s = (Inr (), s') \<and> sf_tracker s' = Some t \<and>
      fst (get_key 86405 (codes ''snowflake:t:a'') t) = Inr (True, ''eds-/1/1'') \<and>
      fst (get_key 86406 (codes ''snowflake:t:a'') t) = Inr (False, ''''))"
proof -
  let ?r = "sample_record ''t'' ''a'' ''INSERT'' []"
  let ?s = "(sample_sf 1)\<lparr>sf_batcher := [?r]\<rparr>"
  have c: "combine_records_with_same_primary_key (sort_records_by_mvcc_timestamp [?r]) = [?r]"
    by (simp add: combine_records_with_same_primary_key_def sort_records_by_mvcc_timestamp_def group_records_def sample_record_def or_empty_def Let_def)
  have "\<exists>s'. sf_flush sample_sf_ops 0 5 ?s = (Inr (), s')"
    unfolding sf_flush_def sf_send_def Let_def batcher_clear_def
    by (simp add: sample_sf_def new_sf_driver_def c [unfolded sample_record_def] plan_flush_def plan_record_def sample_sf_ops_def record_schema_def sf_env_def on_sf_def on_tracker_def
        get_key_def kv_get_def new_tracker_def sample_record_def sf_to_sql_def to_merge_sql_def updated_date_def empty_plan_def set_keys_def Let_def)
  then obtain s' where f: "sf_flush sample_sf_ops 0 5 ?s = (Inr (), s')" by blast
  have a: "\<not> sf_append ?s" "?r \<in> set (combine_records_with_same_primary_key (sort_records_by_mvcc_timestamp (sf_batcher ?s)))"
    "r_operation ?r \<in> {''INSERT'', ''DELETE''}" "sf_batcher ?s \<noteq> []"
    by (simp_all add: c sample_sf_def new_sf_driver_def, simp add: sample_record_def)
  have k: "record_key ?r = ''snowflake:t:a''" "r_operation ?r = ''INSERT''" by (simp_all add: record_key_def sample_record_def)
  note x = sf_inserts_remembered [OF f a]
  have one: "str_nat 1 = ''1''" by code_simp
  have g: "sf_session_id (sample_sf w) = ''''" "sf_sequence (sample_sf w) = 0" for w by (simp_all add: sample_sf_def new_sf_driver_def)
  obtain t where "sf_tracker s' = Some t" "fst (get_key 86405 (codes ''snowflake:t:a'') t) = Inr (True, ''eds-/1/1'')"
    using x [of 86405] by (auto simp: c k g one [simplified])
  moreover from this have "fst (get_key 86406 (codes ''snowflake:t:a'') t) = Inr (False, '''')"
    using x [of 86406] by (auto simp: c k g one [simplified])
  ultimately show ?thesis using f c by (auto simp: Let_def)
qed

end
