(* ===== verification/Kafka.thy ===== *)
theory Kafka
  imports Events Hash ConnStr
begin

text \<open>
  \<open>eds/drivers/kafka/__init__.py\<close>: keys, partitions, and the driver with its buffer of messages.

  The client library is a record of operations on the world \<open>'w\<close>; a clock reading is in nanoseconds. The
  messages that were handed to the producer are recorded in order. The theorems: a row always goes to the
  same partition, in order; a flush ends if the clock runs and sleeping takes the time it says; what it means that a flush returns normally or raises; and that a leader that stays
  unavailable for ten seconds makes a flush return normally with nothing produced and the buffer emptied.
\<close>

section \<open>Keys and partitions\<close>

definition str_with_def :: "string option \<Rightarrow> string \<Rightarrow> string" where
  "str_with_def val dflt = (case val of None \<Rightarrow> dflt | Some v \<Rightarrow> if v = [] then dflt else v)"

definition message_key :: "string \<Rightarrow> string \<Rightarrow> string option \<Rightarrow> string option \<Rightarrow> string \<Rightarrow> string" where
  "message_key table operation company_id location_id i =
     ''dbchange.'' @ table @ ''.'' @ operation @ ''.'' @ str_with_def company_id ''NONE'' @ ''.''
     @ str_with_def location_id ''NONE'' @ ''.'' @ i"

definition partition_key :: "string \<Rightarrow> string option \<Rightarrow> string option \<Rightarrow> string \<Rightarrow> string" where
  "partition_key table company_id location_id primary_key =
     table @ ''.'' @ str_with_def company_id ''NONE'' @ ''.'' @ str_with_def location_id ''NONE'' @ ''.'' @ primary_key"

definition balance :: "(string \<Rightarrow> string) \<Rightarrow> string option \<Rightarrow> string \<Rightarrow> int \<Rightarrow> int res" where
  "balance xxh partition_key_header msg_key partition_count =
     (if partition_count = 1 then Inr 0
      else andthen (hash_vals xxh [HStr (case partition_key_header of None \<Rightarrow> msg_key | Some h \<Rightarrow> h)])
             (\<lambda>h. modulo h partition_count))"

definition kafka_validate :: "pydict \<Rightarrow> string \<times> field_error list" where
  "kafka_validate values =
     (let (hostname, e1) = get_required_string_value ''Hostname'' values;
          port = get_optional_int_value ''Port'' 9092 values;
          (topic, e2) = get_required_string_value ''Topic'' values;
          errors = opt_list e1 @ opt_list e2
      in if errors \<noteq> [] then ([], errors) else (''kafka://'' @ hostname @ '':'' @ str_int port @ ''/'' @ topic, []))"

definition kafka_configuration :: "driver_field list" where
  "kafka_configuration =
     [required_string_field ''Hostname'' ''The hostname or ip address to the kafka broker'' None,
      optional_number_field ''Port'' ''The port to connect to the kafka broker'' (Some 9092),
      required_string_field ''Topic'' ''The kafka topic to stream data'' None]"

section \<open>The client library\<close>

text \<open>An exception of the library has a code, of which only \<open>LEADER_NOT_AVAILABLE\<close> matters, and a text.\<close>

datatype kafka_exc = KafkaException bool string | PyExc exc

text \<open>What connecting can raise.\<close>

datatype connect_exc = UrlExc url_error | ConnExc kafka_exc

definition LEADER_TEXT :: string where
  "LEADER_TEXT = ''leader not available''"

fun kafka_exc_text :: "kafka_exc \<Rightarrow> string" where
  "kafka_exc_text (KafkaException _ t) = t"
| "kafka_exc_text (PyExc e) = exc_str e"

fun is_leader_not_available :: "kafka_exc \<Rightarrow> bool" where
  "is_leader_not_available (KafkaException True _) = True"
| "is_leader_not_available e = sublist LEADER_TEXT (lower (kafka_exc_text e))"

type_synonym kafka_msg = "string \<times> string \<times> string"

record topic_metadata =
  t_error :: "kafka_exc option"
  t_partitions :: nat

record 'w kafka_ops =
  k_producer :: "string \<Rightarrow> 'w \<Rightarrow> (kafka_exc + unit) \<times> 'w"
  k_list_topics :: "string \<Rightarrow> 'w \<Rightarrow> (kafka_exc + topic_metadata option) \<times> 'w"
  k_produce :: "string \<Rightarrow> int \<Rightarrow> kafka_msg \<Rightarrow> 'w \<Rightarrow> (kafka_exc + unit) \<times> 'w"
  k_flush :: "'w \<Rightarrow> (kafka_exc + kafka_exc list) \<times> 'w"
  k_now :: "'w \<Rightarrow> int \<times> 'w"
  k_sleep :: "int \<Rightarrow> 'w \<Rightarrow> 'w"

section \<open>The driver\<close>

record 'w kafka =
  ka_world :: 'w
  ka_logger :: bool
  ka_producer :: bool
  ka_topic :: string
  ka_host :: string
  ka_partition_count :: int
  ka_import_dry_run :: "bool option"
  ka_pending :: "kafka_msg list"
  ka_produced :: "(int \<times> kafka_msg) list"

definition new_kafka :: "'w \<Rightarrow> 'w kafka" where
  "new_kafka w = \<lparr>ka_world = w, ka_logger = False, ka_producer = False, ka_topic = [], ka_host = [], ka_partition_count = 0,
     ka_import_dry_run = None, ka_pending = [], ka_produced = []\<rparr>"

text \<open>A call of the library on the state.\<close>

definition ka_call :: "('w \<Rightarrow> 'a \<times> 'w) \<Rightarrow> 'w kafka \<Rightarrow> 'a \<times> 'w kafka" where
  "ka_call f s = (case f (ka_world s) of (r, w) \<Rightarrow> (r, s\<lparr>ka_world := w\<rparr>))"

text \<open>A method of \<open>self._producer\<close>, which may be \<open>None\<close>.\<close>

definition on_producer :: "string \<Rightarrow> ('w \<Rightarrow> (kafka_exc + 'a) \<times> 'w) \<Rightarrow> 'w kafka \<Rightarrow> (kafka_exc + 'a) \<times> 'w kafka" where
  "on_producer name f s =
     (if ka_producer s then ka_call f s
      else (Inl (PyExc (AttributeError ([SQ] @ ''NoneType'' @ [SQ] @ '' object has no attribute '' @ [SQ] @ name @ [SQ]))), s))"

definition conn_exc :: "(kafka_exc + 'a) \<times> 's \<Rightarrow> (connect_exc + 'a) \<times> 's" where
  "conn_exc r = apfst (map_sum ConnExc id) r"

definition kafka_connect :: "'w kafka_ops \<Rightarrow> string \<Rightarrow> 'w kafka \<Rightarrow> (connect_exc + unit) \<times> 'w kafka" where
  "kafka_connect ops url s =
     (case url_parse url of
        Inl e \<Rightarrow> (Inl (UrlExc e), s)
      | Inr u \<Rightarrow>
          (if u_path u = [] then (Inl (ConnExc (PyExc (ValueError ''kafka url requires a path which is the topic''))), s)
           else andthen_st (conn_exc (ka_call (k_producer ops (u_host u))
                  (s\<lparr>ka_host := u_host u, ka_topic := tl (u_path u), ka_partition_count := 0\<rparr>)))
                (\<lambda>_ s. (Inr (), s\<lparr>ka_producer := True\<rparr>))))"

definition resolve_partition_count :: "'w kafka_ops \<Rightarrow> 'w kafka \<Rightarrow> (kafka_exc + int) \<times> 'w kafka" where
  "resolve_partition_count ops s =
     (if ka_partition_count s > 0 then (Inr (ka_partition_count s), s)
      else andthen_st (on_producer ''list_topics'' (k_list_topics ops (ka_topic s)) s) (\<lambda>md s.
        (let unable = PyExc (RuntimeError (''unable to resolve partition count for topic '' @ ka_topic s)) in
         case md of
           None \<Rightarrow> (Inl unable, s)
         | Some t \<Rightarrow>
             (case t_error t of
                Some e \<Rightarrow> (Inl e, s)
              | None \<Rightarrow> (if t_partitions t = 0 then (Inl unable, s)
                         else (Inr (int (t_partitions t)), s\<lparr>ka_partition_count := int (t_partitions t)\<rparr>))))))"

fun produce_msgs ::
    "'w kafka_ops \<Rightarrow> (string \<Rightarrow> string) \<Rightarrow> int \<Rightarrow> kafka_msg list \<Rightarrow> 'w kafka \<Rightarrow> (kafka_exc + unit) \<times> 'w kafka" where
  "produce_msgs ops xxh n [] s = (Inr (), s)"
| "produce_msgs ops xxh n ((key, val, pkey) # ms) s =
     (case balance xxh (Some pkey) key n of
        Inl e \<Rightarrow> (Inl (PyExc e), s)
      | Inr p \<Rightarrow>
          andthen_st (on_producer ''produce'' (k_produce ops (ka_topic s) p (key, val, pkey)) s) (\<lambda>_ s.
            produce_msgs ops xxh n ms (s\<lparr>ka_produced := ka_produced s @ [(p, (key, val, pkey))]\<rparr>)))"

definition produce_all :: "'w kafka_ops \<Rightarrow> (string \<Rightarrow> string) \<Rightarrow> 'w kafka \<Rightarrow> (kafka_exc + unit) \<times> 'w kafka" where
  "produce_all ops xxh s =
     andthen_st (resolve_partition_count ops s) (\<lambda>n s.
     andthen_st (produce_msgs ops xxh n (ka_pending s) s) (\<lambda>_ s.
     andthen_st (on_producer ''flush'' (k_flush ops) s) (\<lambda>errors s.
       case errors of [] \<Rightarrow> (Inr (), s) | e # _ \<Rightarrow> (Inl e, s))))"

definition TEN_SECONDS :: int where
  "TEN_SECONDS = 10 * 10 ^ 9"

text \<open>The loop of \<open>flush\<close>: \<open>None\<close> is a loop that does not end.\<close>

partial_function (option) flush_loop ::
    "'w kafka_ops \<Rightarrow> (string \<Rightarrow> string) \<Rightarrow> int \<Rightarrow> 'w kafka \<Rightarrow> ((kafka_exc + unit) \<times> 'w kafka) option" where
  "flush_loop ops xxh started s =
     (case ka_call (k_now ops) s of (t, s1) \<Rightarrow>
        (if t - started < TEN_SECONDS then
           (case produce_all ops xxh s1 of
              (Inr _, s2) \<Rightarrow> Some (Inr (), s2)
            | (Inl e, s2) \<Rightarrow>
                (if is_leader_not_available e
                 then flush_loop ops xxh started (s2\<lparr>ka_world := k_sleep ops (10 ^ 9) (ka_world s2)\<rparr>)
                 else Some (Inl (PyExc (RuntimeError (''error publishing message. '' @ kafka_exc_text e))), s2)))
         else Some (Inr (), s1)))"

definition kafka_flush ::
    "'w kafka_ops \<Rightarrow> (string \<Rightarrow> string) \<Rightarrow> 'w kafka \<Rightarrow> ((kafka_exc + unit) \<times> 'w kafka) option" where
  "kafka_flush ops xxh s =
     (if ka_pending s = [] then Some (Inr (), s)
      else case ka_call (k_now ops) s of (started, s1) \<Rightarrow>
        map_option (\<lambda>(r, s2). case r of Inl e \<Rightarrow> (Inl e, s2) | Inr _ \<Rightarrow> (Inr (), s2\<lparr>ka_pending := []\<rparr>))
          (flush_loop ops xxh started s1))"

definition KAFKA_MAX_IMPORT_BATCH_SIZE :: nat where
  "KAFKA_MAX_IMPORT_BATCH_SIZE = 1000"

definition kafka_process_event ::
    "'w kafka_ops \<Rightarrow> (string \<Rightarrow> string) \<Rightarrow> db_change_event \<Rightarrow> bool \<Rightarrow> 'w kafka \<Rightarrow> ((kafka_exc + unit) \<times> 'w kafka) option" where
  "kafka_process_event ops xxh ev dry_run s =
     (let key = message_key (ev_table ev) (ev_operation ev) (ev_company_id ev) (ev_location_id ev) (ev_id ev) in
      case get_primary_key ev of
        (Inl e, _) \<Rightarrow> Some (Inl (PyExc e), s)
      | (Inr pk, ev') \<Rightarrow>
          (let pkey = partition_key (ev_table ev) (ev_company_id ev) (ev_location_id ev) pk in
           if dry_run then Some (if ka_logger s then Inr () else Inl (PyExc AssertionError), s)
           else let s1 = s\<lparr>ka_pending := ka_pending s @ [(key, stringify (PStruct (event_struct ev')), pkey)]\<rparr> in
             if length (ka_pending s1) \<ge> KAFKA_MAX_IMPORT_BATCH_SIZE
             then (if ka_logger s1 then kafka_flush ops xxh s1 else Some (Inl (PyExc AssertionError), s1))
             else Some (Inr (), s1)))"

definition kafka_process ::
    "'w kafka_ops \<Rightarrow> (string \<Rightarrow> string) \<Rightarrow> db_change_event \<Rightarrow> 'w kafka \<Rightarrow> ((kafka_exc + bool) \<times> 'w kafka) option" where
  "kafka_process ops xxh ev s =
     map_option (\<lambda>(r, s). (map_sum id (\<lambda>_. False) r, s)) (kafka_process_event ops xxh ev False s)"

definition kafka_start :: "'w kafka_ops \<Rightarrow> string \<Rightarrow> 'w kafka \<Rightarrow> (connect_exc + unit) \<times> 'w kafka" where
  "kafka_start ops url s = kafka_connect ops url (s\<lparr>ka_logger := True\<rparr>)"

definition close_producer :: "'w kafka_ops \<Rightarrow> 'w kafka \<Rightarrow> (kafka_exc + unit) \<times> 'w kafka" where
  "close_producer ops s =
     (if ka_producer s then andthen_st (ka_call (k_flush ops) s) (\<lambda>_ s. (Inr (), s\<lparr>ka_producer := False\<rparr>)) else (Inr (), s))"

definition kafka_stop :: "'w kafka_ops \<Rightarrow> 'w kafka \<Rightarrow> (kafka_exc + unit) \<times> 'w kafka" where
  "kafka_stop ops s = close_producer ops s"

definition kafka_test :: "'w kafka_ops \<Rightarrow> string \<Rightarrow> 'w kafka \<Rightarrow> (connect_exc + unit) \<times> 'w kafka" where
  "kafka_test ops url s = andthen_st (kafka_connect ops url (s\<lparr>ka_logger := True\<rparr>)) (\<lambda>_ s. conn_exc (close_producer ops s))"

definition kafka_import_event ::
    "'w kafka_ops \<Rightarrow> (string \<Rightarrow> string) \<Rightarrow> db_change_event \<Rightarrow> 'w kafka \<Rightarrow> ((kafka_exc + unit) \<times> 'w kafka) option" where
  "kafka_import_event ops xxh ev s =
     kafka_process_event ops xxh ev (case ka_import_dry_run s of None \<Rightarrow> False | Some b \<Rightarrow> b) s"

definition kafka_import_completed ::
    "'w kafka_ops \<Rightarrow> (string \<Rightarrow> string) \<Rightarrow> 'w kafka \<Rightarrow> ((kafka_exc + unit) \<times> 'w kafka) option" where
  "kafka_import_completed ops xxh s =
     (if \<not> ka_logger s then Some (Inl (PyExc AssertionError), s)
      else map_option (\<lambda>(r, s). andthen_st (r, s) (\<lambda>_. close_producer ops)) (kafka_flush ops xxh s))"

text \<open>\<open>run_import\<close>; the run of the importer over this driver as its handler is the argument \<open>run\<close>.\<close>

definition kafka_run_import ::
    "'w kafka_ops \<Rightarrow> bool \<Rightarrow> bool \<Rightarrow> string \<Rightarrow> ('w kafka \<Rightarrow> (connect_exc + unit) \<times> 'w kafka) \<Rightarrow> 'w kafka \<Rightarrow> (connect_exc + unit) \<times> 'w kafka" where
  "kafka_run_import ops schema_only dry_run url run s =
     (if schema_only then (Inr (), s)
      else andthen_st (kafka_connect ops url (s\<lparr>ka_logger := True, ka_import_dry_run := Some dry_run\<rparr>)) (\<lambda>_. run))"

section \<open>Partitions\<close>

lemma balance_Inr: "0 < n \<Longrightarrow> \<exists>p. balance xxh (Some h) key n = Inr p \<and> 0 \<le> p \<and> p < n"
  using modulo_bounds [of n] by (auto simp: balance_def hash_vals_def)

lemma balance_key: "balance xxh (Some h) key n = balance xxh (Some h) key' n"
  by (simp add: balance_def)

definition routed :: "(string \<Rightarrow> string) \<Rightarrow> int \<Rightarrow> kafka_msg \<Rightarrow> int \<times> kafka_msg" where
  "routed xxh n m = (case m of (key, val, pkey) \<Rightarrow>
     ((case balance xxh (Some pkey) key n of Inr p \<Rightarrow> p | Inl _ \<Rightarrow> 0), m))"

section \<open>One attempt\<close>

lemma routed_bounds: "0 < n \<Longrightarrow> 0 \<le> fst (routed xxh n m) \<and> fst (routed xxh n m) < n"
proof -
  obtain key val pkey where m: "m = (key, val, pkey)" by (metis prod_cases3)
  assume "0 < n"
  from balance_Inr [OF this, of xxh pkey key] m show ?thesis by (auto simp: routed_def)
qed

lemma on_producer_state:
  assumes "on_producer name f s = (r, s')"
  shows "ka_pending s' = ka_pending s" "ka_produced s' = ka_produced s" "ka_partition_count s' = ka_partition_count s"
    "ka_topic s' = ka_topic s" "ka_producer s' = ka_producer s"
  using assms by (auto simp: on_producer_def ka_call_def split: if_splits prod.splits)

lemma produce_msgs_state:
  "produce_msgs ops xxh n ms s = (r, s') \<Longrightarrow> ka_pending s' = ka_pending s \<and> ka_partition_count s' = ka_partition_count s
    \<and> (\<exists>k. ka_produced s' = ka_produced s @ map (routed xxh n) (take k ms) \<and> (r = Inr () \<longrightarrow> k = length ms))"
proof (induction ms arbitrary: s)
  case Nil
  then show ?case by auto
next
  case (Cons m ms)
  obtain key val pkey where m: "m = (key, val, pkey)" by (metis prod_cases3)
  show ?case
  proof (cases "balance xxh (Some pkey) key n")
    case (Inl e)
    with Cons.prems m show ?thesis by (auto intro: exI [of _ 0])
  next
    case (Inr p)
    with Cons.prems m
    have "andthen_st (on_producer ''produce'' (k_produce ops (ka_topic s) p m) s) (\<lambda>_ s.
            produce_msgs ops xxh n ms (s\<lparr>ka_produced := ka_produced s @ [(p, m)]\<rparr>)) = (r, s')" by simp
    then show ?thesis
    proof (cases rule: andthen_st_cases)
      case (err e)
      with on_producer_state [OF err(1)] show ?thesis by (auto intro: exI [of _ 0])
    next
      case (ok x s1)
      from Cons.IH [OF ok(2)] obtain k where k: "ka_pending s' = ka_pending s1" "ka_partition_count s' = ka_partition_count s1"
        "ka_produced s' = (ka_produced s1 @ [(p, m)]) @ map (routed xxh n) (take k ms)" "r = Inr () \<longrightarrow> k = length ms" by auto
      have "routed xxh n m = (p, m)" using Inr m by (simp add: routed_def)
      with k on_producer_state [OF ok(1)] show ?thesis by (auto intro!: exI [of _ "Suc k"])
    qed
  qed
qed

lemma resolve_state:
  assumes "resolve_partition_count ops s = (r, s')"
  shows "ka_pending s' = ka_pending s" "ka_produced s' = ka_produced s" "r = Inr n \<Longrightarrow> 0 < n \<and> ka_partition_count s' = n"
    "0 < ka_partition_count s \<Longrightarrow> ka_partition_count s' = ka_partition_count s"
  using assms on_producer_state
  by (auto simp: resolve_partition_count_def Let_def elim!: andthen_st_cases split: if_splits option.splits)

lemma produce_all_state:
  assumes "produce_all ops xxh s = (r, s')"
  shows "ka_pending s' = ka_pending s"
    "r = Inr () \<Longrightarrow> 0 < ka_partition_count s'
       \<and> ka_produced s' = ka_produced s @ map (routed xxh (ka_partition_count s')) (ka_pending s) \<and> (\<exists>w. k_flush ops w = (Inr [], ka_world s'))"
    "\<exists>pre. ka_produced s' = ka_produced s @ pre"
proof -
  have "ka_pending s' = ka_pending s \<and> (r = Inr () \<longrightarrow> 0 < ka_partition_count s'
       \<and> ka_produced s' = ka_produced s @ map (routed xxh (ka_partition_count s')) (ka_pending s) \<and> (\<exists>w. k_flush ops w = (Inr [], ka_world s')))
    \<and> (\<exists>pre. ka_produced s' = ka_produced s @ pre)"
    using assms unfolding produce_all_def
  proof (cases rule: andthen_st_cases)
    case (err e)
    with resolve_state [OF err(1)] show ?thesis by auto
  next
    case (ok n s1)
    note s1 = resolve_state [OF ok(1)]
    from ok(2) show ?thesis
    proof (cases rule: andthen_st_cases)
      case (err e)
      with produce_msgs_state [OF err(1)] s1 show ?thesis by auto
    next
      case ok2: (ok x s2)
      note s2 = produce_msgs_state [OF ok2(1)]
      from ok2(2) show ?thesis
      proof (cases rule: andthen_st_cases)
        case (err e)
        with on_producer_state [OF err(1)] s1 s2 show ?thesis by auto
      next
        case (ok errs s3)
        note s3 = on_producer_state [OF ok(1)]
        have s': "s' = s3" "r = Inr () \<Longrightarrow> errs = []" using ok(2) by (auto split: list.splits)
        have "\<exists>w. k_flush ops w = (Inr errs, ka_world s3)" using ok(1) by (auto simp: on_producer_def ka_call_def split: if_splits prod.splits)
        with s1 s2 s3 s' show ?thesis by auto
      qed
    qed
  qed
  then show "ka_pending s' = ka_pending s"
    "r = Inr () \<Longrightarrow> 0 < ka_partition_count s'
       \<and> ka_produced s' = ka_produced s @ map (routed xxh (ka_partition_count s')) (ka_pending s) \<and> (\<exists>w. k_flush ops w = (Inr [], ka_world s'))"
    "\<exists>pre. ka_produced s' = ka_produced s @ pre" by blast+
qed

text \<open>Rows keep their order. An attempt that succeeds hands over the whole buffer in order, every message to a
  partition that exists, and all messages of a row, that is those with one partition key, to one partition.\<close>

theorem kafka_row_order:
  assumes "produce_all ops xxh s = (Inr (), s')"
  shows "\<exists>batch. ka_produced s' = ka_produced s @ batch \<and> map snd batch = ka_pending s
    \<and> (\<forall>m \<in> set batch. 0 \<le> fst m \<and> fst m < ka_partition_count s')
    \<and> (\<forall>m \<in> set batch. \<forall>m' \<in> set batch. snd (snd (snd m)) = snd (snd (snd m')) \<longrightarrow> fst m = fst m')"
proof -
  let ?n = "ka_partition_count s'"
  note s' = produce_all_state(2) [OF assms refl]
  have b: "0 \<le> fst (routed xxh ?n m) \<and> fst (routed xxh ?n m) < ?n" for m
    using routed_bounds s' by blast
  have k: "fst (routed xxh ?n m) = fst (routed xxh ?n m')" if "snd (snd m) = snd (snd m')" for m m'
    using that balance_key [of xxh "snd (snd m')" "fst m" ?n "fst m'"] by (simp add: routed_def case_prod_unfold)
  have r: "snd (routed xxh ?n m) = m" for m by (simp add: routed_def split: prod.splits)
  show ?thesis
  proof (intro exI [of _ "map (routed xxh ?n) (ka_pending s)"] conjI ballI impI)
    show "map snd (map (routed xxh ?n) (ka_pending s)) = ka_pending s" by (simp add: comp_def r)
    show "fst m = fst m'" if m: "m \<in> set (map (routed xxh ?n) (ka_pending s))" "m' \<in> set (map (routed xxh ?n) (ka_pending s))"
      and h: "snd (snd (snd m)) = snd (snd (snd m'))" for m m'
    proof -
      obtain x y where xy: "m = routed xxh ?n x" "m' = routed xxh ?n y" using m by auto
      from h k [of x y] show ?thesis by (simp add: r xy)
    qed
  qed (use s' b in auto)
qed

text \<open>A broker that answers at once, with three partitions, or with a leader that is away; the world is the clock.\<close>

definition demo_broker :: "kafka_exc option \<Rightarrow> int kafka_ops" where
  "demo_broker err = \<lparr>k_producer = \<lambda>h w. (Inr (), w),
     k_list_topics = \<lambda>t w. (Inr (Some \<lparr>t_error = err, t_partitions = 3\<rparr>), w),
     k_produce = \<lambda>t p m w. (Inr (), w), k_flush = \<lambda>w. (Inr [], w), k_now = \<lambda>w. (w, w + 1), k_sleep = \<lambda>d w. w + d\<rparr>"

definition demo_kafka :: "int kafka" where
  "demo_kafka = (new_kafka 0)\<lparr>ka_producer := True, ka_topic := ''t'', ka_pending := [(''k1'', ''1'', ''a''), (''k2'', ''2'', ''c'')]\<rparr>"

lemma demo_balance:
  "balance (\<lambda>t. t) (Some ''a'') ''k1'' 3 = Inr 1" "balance (\<lambda>t. t) (Some ''c'') ''k2'' 3 = Inr 2"
  by code_simp+

lemma demo_produce_all:
  "produce_all (demo_broker None) (\<lambda>t. t) (demo_kafka\<lparr>ka_world := w\<rparr>)
    = (Inr (), demo_kafka\<lparr>ka_world := w, ka_partition_count := 3, ka_produced := [(1, (''k1'', ''1'', ''a'')), (2, (''k2'', ''2'', ''c''))]\<rparr>)"
  using demo_balance
  by (simp add: demo_broker_def demo_kafka_def new_kafka_def produce_all_def resolve_partition_count_def on_producer_def ka_call_def)

theorem kafka_row_order_witness:
  "\<exists>s' batch. produce_all (demo_broker None) (\<lambda>t. t) (demo_kafka\<lparr>ka_world := 5\<rparr>) = (Inr (), s')
    \<and> ka_produced s' = batch \<and> map snd batch = [(''k1'', ''1'', ''a''), (''k2'', ''2'', ''c'')]"
  using kafka_row_order [OF demo_produce_all [of 5]] demo_produce_all [of 5] by (auto simp: demo_kafka_def new_kafka_def)

section \<open>The flush\<close>

text \<open>How a flush can return normally: its last attempt handed over the whole buffer, in order, each message to
  the partition of its row, and the last thing that happened was a flush of the producer that reported no error for any message; or ten
  seconds had gone by.\<close>

definition delivered :: "'w kafka_ops \<Rightarrow> (string \<Rightarrow> string) \<Rightarrow> 'w kafka \<Rightarrow> 'w kafka \<Rightarrow> bool" where
  "delivered ops xxh s s' \<longleftrightarrow> 0 < ka_partition_count s' \<and> (\<exists>w. k_flush ops w = (Inr [], ka_world s'))
     \<and> (\<exists>pre. ka_produced s' = ka_produced s @ pre @ map (routed xxh (ka_partition_count s')) (ka_pending s))"

definition expired :: "'w kafka_ops \<Rightarrow> int \<Rightarrow> 'w kafka \<Rightarrow> bool" where
  "expired ops started s' \<longleftrightarrow> (\<exists>w. ka_world s' = snd (k_now ops w) \<and> TEN_SECONDS \<le> fst (k_now ops w) - started)"

lemma ka_call_now:
  assumes "ka_call (k_now ops) s = (t, s1)"
  shows "ka_pending s1 = ka_pending s" "ka_produced s1 = ka_produced s" "t = fst (k_now ops (ka_world s))"
    "ka_world s1 = snd (k_now ops (ka_world s))" "ka_partition_count s1 = ka_partition_count s"
    "ka_producer s1 = ka_producer s" "ka_topic s1 = ka_topic s"
  using assms by (auto simp: ka_call_def split: prod.splits)

lemma flush_loop_result:
  assumes "flush_loop ops xxh started s = Some (r, s')"
  shows "ka_pending s' = ka_pending s \<and> (\<exists>pre. ka_produced s' = ka_produced s @ pre)
    \<and> (r = Inr () \<longrightarrow> delivered ops xxh s s' \<or> expired ops started s')"
proof -
  have "ka_pending (snd x) = ka_pending s \<and> (\<exists>pre. ka_produced (snd x) = ka_produced s @ pre)
    \<and> (fst x = Inr () \<longrightarrow> delivered ops xxh s (snd x) \<or> expired ops started (snd x))"
    if "flush_loop ops xxh started s = Some x" for x
    using that
  proof (induction rule: flush_loop.raw_induct [rotated, consumes 1, case_names 1])
    case (1 loop ops xxh started s x)
    obtain t s1 where n: "ka_call (k_now ops) s = (t, s1)" by force
    note s1 = ka_call_now [OF n]
    obtain q s2 where a: "produce_all ops xxh s1 = (q, s2)" by force
    note s2 = produce_all_state [OF a]
    show ?case
    proof (cases "t - started < TEN_SECONDS")
      case False
      then have "expired ops started s1" using s1(3,4) unfolding expired_def by (metis linorder_not_le)
      moreover have "x = (Inr (), s1)" using 1(2) n False by simp
      ultimately show ?thesis using s1(1,2) by simp
    next
      case True
      show ?thesis
      proof (cases q)
        case (Inr u)
        with 1(2) n True a s1 s2 show ?thesis by (auto simp: delivered_def intro: exI [of _ "[]"])
      next
        case (Inl e)
        show ?thesis
        proof (cases "is_leader_not_available e")
          case False
          with 1(2) n True a Inl s1 s2 show ?thesis by auto
        next
          case leader: True
          let ?s3 = "s2\<lparr>ka_world := k_sleep ops (10 ^ 9) (ka_world s2)\<rparr>"
          have "loop ops xxh started ?s3 = Some x" using 1(2) n True a Inl leader by simp
          from 1(1) [OF this] s1 s2 show ?thesis
            by (auto simp: delivered_def)
        qed
      qed
    qed
  qed
  from this [OF assms] show ?thesis by simp
qed

text \<open>C28: what the outcome of a Kafka flush means. If it raises, the buffer is kept, so the batch is sent again. If it
  returns normally, the buffer is empty, and either the last attempt handed the whole buffer to the producer in
  order, every message to the partition of its row, and ended with a flush of the producer that reported no delivery error, or ten seconds
  had gone by.\<close>

theorem kafka_flush_outcome:
  assumes "kafka_flush ops xxh s = Some (r, s')"
  shows "(\<forall>e. r = Inl e \<longrightarrow> ka_pending s' = ka_pending s)
    \<and> (r = Inr () \<longrightarrow> ka_pending s' = [] \<and> (ka_pending s = [] \<or> delivered ops xxh s s' \<or> expired ops (fst (k_now ops (ka_world s))) s'))"
proof (cases "ka_pending s = []")
  case True
  with assms show ?thesis by (auto simp: kafka_flush_def)
next
  case False
  obtain t s1 where n: "ka_call (k_now ops) s = (t, s1)" by force
  obtain q s2 where l: "flush_loop ops xxh t s1 = Some (q, s2)"
    using assms False n by (auto simp: kafka_flush_def)
  have "delivered ops xxh s (s2\<lparr>ka_pending := []\<rparr>) = delivered ops xxh s1 s2"
    using ka_call_now [OF n] by (simp add: delivered_def)
  moreover have "expired ops t (s2\<lparr>ka_pending := []\<rparr>) = expired ops t s2" by (simp add: expired_def)
  ultimately show ?thesis
    using assms False n l flush_loop_result [OF l] ka_call_now [OF n]
    by (auto simp: kafka_flush_def split: sum.splits)
qed

theorem kafka_flush_outcome_witness:
  "\<exists>s'. kafka_flush (demo_broker None) (\<lambda>t. t) demo_kafka = Some (Inr (), s') \<and> ka_pending s' = []
    \<and> (ka_pending demo_kafka = [] \<or> delivered (demo_broker None) (\<lambda>t. t) demo_kafka s' \<or> expired (demo_broker None) 0 s')"
proof -
  have w: "ka_world demo_kafka = 0" "ka_pending demo_kafka \<noteq> []" by (simp_all add: demo_kafka_def new_kafka_def)
  have "ka_call (k_now (demo_broker None)) (demo_kafka\<lparr>ka_world := w\<rparr>) = (w, demo_kafka\<lparr>ka_world := w + 1\<rparr>)" for w
    by (simp add: demo_broker_def ka_call_def)
  moreover have "ka_call (k_now (demo_broker None)) demo_kafka = (0, demo_kafka\<lparr>ka_world := 1\<rparr>)"
    using w by (simp add: demo_broker_def ka_call_def)
  ultimately have f: "\<exists>s'. kafka_flush (demo_broker None) (\<lambda>t. t) demo_kafka = Some (Inr (), s')"
    using w demo_produce_all by (simp add: kafka_flush_def) (subst flush_loop.simps, simp add: TEN_SECONDS_def)
  have n: "fst (k_now (demo_broker None) (ka_world demo_kafka)) = 0" using w by (simp add: demo_broker_def)
  from f obtain s' where s': "kafka_flush (demo_broker None) (\<lambda>t. t) demo_kafka = Some (Inr (), s')" by blast
  from kafka_flush_outcome [OF s'] s' n show ?thesis by auto
qed

section \<open>A flush ends\<close>

text \<open>The clock runs: it is never set back, and a sleep takes at least the time it was asked for.\<close>

definition clock_runs :: "'w kafka_ops \<Rightarrow> ('w \<Rightarrow> int) \<Rightarrow> bool" where
  "clock_runs ops tm \<longleftrightarrow> (\<forall>w. fst (k_now ops w) = tm w \<and> tm w \<le> tm (snd (k_now ops w)))
     \<and> (\<forall>d w. tm w + d \<le> tm (k_sleep ops d w))
     \<and> (\<forall>t w. tm w \<le> tm (snd (k_list_topics ops t w)))
     \<and> (\<forall>t p m w. tm w \<le> tm (snd (k_produce ops t p m w))) \<and> (\<forall>w. tm w \<le> tm (snd (k_flush ops w)))"

lemma on_producer_clock:
  assumes "on_producer name f s = (r, s')" "\<And>w. tm w \<le> tm (snd (f w))"
  shows "tm (ka_world s) \<le> (tm (ka_world s') :: int)"
  using assms by (auto simp: on_producer_def ka_call_def split: if_splits prod.splits) (metis snd_conv)

lemma produce_msgs_clock:
  assumes "clock_runs ops tm" "produce_msgs ops xxh n ms s = (r, s')"
  shows "tm (ka_world s) \<le> tm (ka_world s')"
  using assms(2)
proof (induction ms arbitrary: s)
  case (Cons m ms)
  have pr: "tm w \<le> tm (snd (k_produce ops t p m' w))" for t p m' w
    using assms(1) unfolding clock_runs_def by blast
  obtain key val pkey where m: "m = (key, val, pkey)" by (metis prod_cases3)
  show ?case
  proof (cases "balance xxh (Some pkey) key n")
    case (Inr p)
    with Cons.prems m
    have "andthen_st (on_producer ''produce'' (k_produce ops (ka_topic s) p m) s) (\<lambda>_ s.
            produce_msgs ops xxh n ms (s\<lparr>ka_produced := ka_produced s @ [(p, m)]\<rparr>)) = (r, s')" by simp
    then show ?thesis
    proof (cases rule: andthen_st_cases)
      case (err e)
      show ?thesis by (rule on_producer_clock [OF err(1)]) (rule pr)
    next
      case (ok x s1)
      have "tm (ka_world s) \<le> tm (ka_world s1)"
        by (rule on_producer_clock [OF ok(1)]) (rule pr)
      with Cons.IH [OF ok(2)] show ?thesis by simp
    qed
  qed (use Cons.prems m in simp)
qed simp

lemma resolve_clock:
  assumes "clock_runs ops tm" "resolve_partition_count ops s = (r, s')"
  shows "tm (ka_world s) \<le> tm (ka_world s')"
proof -
  have "tm (ka_world s) \<le> tm (ka_world s1)" if "on_producer ''list_topics'' (k_list_topics ops (ka_topic s)) s = (q, s1)" for q s1
    by (rule on_producer_clock [OF that]) (use assms(1) in \<open>simp add: clock_runs_def\<close>)
  with assms(2) show ?thesis
    by (auto simp: resolve_partition_count_def Let_def elim!: andthen_st_cases split: if_splits option.splits)
qed

lemma produce_all_clock:
  assumes "clock_runs ops tm" "produce_all ops xxh s = (r, s')"
  shows "tm (ka_world s) \<le> tm (ka_world s')"
proof -
  have f: "tm (ka_world s) \<le> tm (ka_world s1)" if "on_producer ''flush'' (k_flush ops) s = (q, s1)" for q s s1
    by (rule on_producer_clock [OF that]) (use assms(1) in \<open>simp add: clock_runs_def\<close>)
  from assms(2) show ?thesis unfolding produce_all_def
    by (elim andthen_st_cases)
       (auto dest!: f resolve_clock [OF assms(1)] produce_msgs_clock [OF assms(1)] split: list.splits)
qed

lemma flush_loop_ends:
  assumes "clock_runs ops tm" "started + TEN_SECONDS \<le> tm (ka_world s) + int k * 10 ^ 9"
  shows "\<exists>x. flush_loop ops xxh started s = Some x"
  using assms(2)
proof (induction k arbitrary: s)
  case 0
  obtain t s1 where n: "ka_call (k_now ops) s = (t, s1)" by force
  then have "t = tm (ka_world s)" using ka_call_now(3) [OF n] assms(1) by (simp add: clock_runs_def)
  with 0 n show ?case by (subst flush_loop.simps) simp
next
  case (Suc k)
  obtain t s1 where n: "ka_call (k_now ops) s = (t, s1)" by force
  obtain q s2 where a: "produce_all ops xxh s1 = (q, s2)" by force
  let ?s3 = "s2\<lparr>ka_world := k_sleep ops (10 ^ 9) (ka_world s2)\<rparr>"
  have "tm (ka_world s) \<le> tm (ka_world s1)" using ka_call_now(4) [OF n] assms(1) by (simp add: clock_runs_def)
  moreover have "tm (ka_world s1) \<le> tm (ka_world s2)" by (rule produce_all_clock [OF assms(1) a])
  moreover have "tm (ka_world s2) + 10 ^ 9 \<le> tm (ka_world ?s3)" using assms(1) unfolding clock_runs_def by simp
  ultimately have "started + TEN_SECONDS \<le> tm (ka_world ?s3) + int k * 10 ^ 9" using Suc.prems by (simp add: algebra_simps)
  from Suc.IH [OF this] obtain x where "flush_loop ops xxh started ?s3 = Some x" by blast
  with n a show ?case by (subst flush_loop.simps) (cases q; simp)
qed

text \<open>C31: a Kafka flush ends: if the clock runs and sleeping takes the time it says, the retry loop returns or
  raises, whatever the broker answers.\<close>

theorem kafka_flush_ends:
  assumes "clock_runs ops tm"
  shows "\<exists>r s'. kafka_flush ops xxh s = Some (r, s')"
proof (cases "ka_pending s = []")
  case True
  then show ?thesis by (simp add: kafka_flush_def)
next
  case False
  obtain t s1 where n: "ka_call (k_now ops) s = (t, s1)" by force
  have "t = tm (ka_world s)" "tm (ka_world s) \<le> tm (ka_world s1)"
    using ka_call_now [OF n] assms by (simp_all add: clock_runs_def)
  then have "t + TEN_SECONDS \<le> tm (ka_world s1) + int 10 * 10 ^ 9" by (simp add: TEN_SECONDS_def)
  from flush_loop_ends [OF assms this] obtain x where "flush_loop ops xxh t s1 = Some x" by blast
  with False n show ?thesis by (cases x; cases "fst x") (auto simp: kafka_flush_def)
qed

lemma demo_clock: "clock_runs (demo_broker err) (\<lambda>w. w)"
  by (simp add: clock_runs_def demo_broker_def)

theorem kafka_flush_ends_witness: "\<exists>r s'. kafka_flush (demo_broker None) (\<lambda>t. t) demo_kafka = Some (r, s')"
  by (rule kafka_flush_ends [OF demo_clock])

section \<open>A leader that stays away\<close>

text \<open>The metadata says that the leader is not available, at any time.\<close>

definition leaderless :: "'w kafka_ops \<Rightarrow> bool" where
  "leaderless ops \<longleftrightarrow> (\<forall>t w. \<exists>tx n. fst (k_list_topics ops t w) = Inr (Some \<lparr>t_error = Some (KafkaException True tx), t_partitions = n\<rparr>))"

lemma leaderless_attempt:
  assumes "leaderless ops" "ka_producer s" "ka_partition_count s \<le> 0" "produce_all ops xxh s = (r, s')"
  shows "(\<exists>tx. r = Inl (KafkaException True tx)) \<and> ka_producer s' \<and> ka_partition_count s' \<le> 0 \<and> ka_produced s' = ka_produced s"
proof -
  obtain tx n where "fst (k_list_topics ops (ka_topic s) (ka_world s)) = Inr (Some \<lparr>t_error = Some (KafkaException True tx), t_partitions = n\<rparr>)"
    using assms(1) unfolding leaderless_def by blast
  then obtain w where "k_list_topics ops (ka_topic s) (ka_world s)
      = (Inr (Some \<lparr>t_error = Some (KafkaException True tx), t_partitions = n\<rparr>), w)" by (metis prod.collapse)
  with assms show ?thesis
    by (auto simp: produce_all_def resolve_partition_count_def on_producer_def ka_call_def Let_def)
qed

lemma leaderless_loop:
  assumes "leaderless ops" "flush_loop ops xxh started s = Some (r, s')" "ka_producer s" "ka_partition_count s \<le> 0"
  shows "r = Inr () \<and> ka_produced s' = ka_produced s"
proof -
  have "fst x = Inr () \<and> ka_produced (snd x) = ka_produced s"
    if "flush_loop ops xxh started s = Some x" "leaderless ops" "ka_producer s" "ka_partition_count s \<le> 0" for x
    using that
  proof (induction rule: flush_loop.raw_induct [rotated, consumes 1, case_names 1])
    case (1 loop ops xxh started s x)
    obtain t s1 where n: "ka_call (k_now ops) s = (t, s1)" by force
    note s1 = ka_call_now [OF n]
    obtain q s2 where a: "produce_all ops xxh s1 = (q, s2)" by force
    have s2: "(\<exists>tx. q = Inl (KafkaException True tx)) \<and> ka_producer s2 \<and> ka_partition_count s2 \<le> 0 \<and> ka_produced s2 = ka_produced s"
      using leaderless_attempt [OF 1(3) _ _ a] 1(4,5) s1 by simp
    show ?case
    proof (cases "t - started < TEN_SECONDS")
      case True
      with 1(2) n a s2 have "loop ops xxh started (s2\<lparr>ka_world := k_sleep ops (10 ^ 9) (ka_world s2)\<rparr>) = Some x" by auto
      from 1(1) [OF this 1(3)] s2 show ?thesis by simp
    next
      case False
      with 1(2) n s1 show ?thesis by auto
    qed
  qed
  from this [OF assms(2,1,3,4)] show ?thesis by simp
qed

text \<open>A leader that stays away loses the batch. If the broker has no leader for the topic, a flush returns
  normally after ten seconds with an empty buffer, although no message was ever handed to the producer; the
  consumer then acknowledges the messages.\<close>

theorem kafka_flush_loses_batch:
  assumes "clock_runs ops tm" "leaderless ops" "ka_producer s" "ka_partition_count s = 0" "ka_pending s \<noteq> []"
  shows "\<exists>s'. kafka_flush ops xxh s = Some (Inr (), s') \<and> ka_pending s' = [] \<and> ka_produced s' = ka_produced s"
proof -
  obtain t s1 where n: "ka_call (k_now ops) s = (t, s1)" by force
  note s1 = ka_call_now [OF n]
  have "t = tm (ka_world s)" "tm (ka_world s) \<le> tm (ka_world s1)"
    using s1 assms(1) by (simp_all add: clock_runs_def)
  then have "t + TEN_SECONDS \<le> tm (ka_world s1) + int 10 * 10 ^ 9" by (simp add: TEN_SECONDS_def)
  from flush_loop_ends [OF assms(1) this] obtain r s2 where l: "flush_loop ops xxh t s1 = Some (r, s2)" by force
  from leaderless_loop [OF assms(2) l] s1 assms(3,4) have "r = Inr ()" "ka_produced s2 = ka_produced s" by auto
  with n l assms(5) show ?thesis by (simp add: kafka_flush_def)
qed

theorem kafka_flush_loses_batch_witness:
  "\<exists>s'. kafka_flush (demo_broker (Some (KafkaException True ''no leader''))) (\<lambda>t. t) demo_kafka = Some (Inr (), s')
    \<and> ka_pending demo_kafka \<noteq> [] \<and> ka_pending s' = [] \<and> ka_produced s' = []"
proof -
  have "leaderless (demo_broker (Some (KafkaException True ''no leader'')))" by (simp add: leaderless_def demo_broker_def)
  from kafka_flush_loses_batch [OF demo_clock this, of demo_kafka "\<lambda>t. t"] show ?thesis
    by (simp add: demo_kafka_def new_kafka_def)
qed

end
