(* ===== verification/EventHub.thy ===== *)
theory EventHub
  imports Events Sink ConnStr
begin

text \<open>
  \<open>eds/drivers/eventhub/__init__.py\<close>: keys, the plan of a flush, and the driver. (The connection string and the
  validation of the configuration are in \<open>ConnStr\<close>.)

  The SDK is a record of operations on the world \<open>'w\<close>; the batches that were sent are recorded in order. The
  theorems: the plan keeps every record once and in order and starts a new group exactly when the partition key
  changes; what the outcome of a flush means for what was sent; and the driver as a \<open>sink\<close>.
\<close>

section \<open>Keys and the plan of a flush\<close>

definition eh_str_with_def :: "string option \<Rightarrow> string \<Rightarrow> string" where
  "eh_str_with_def val dflt = (case val of None \<Rightarrow> dflt | Some v \<Rightarrow> if v = [] then dflt else v)"

definition new_partition_key :: "string \<Rightarrow> string option \<Rightarrow> string option \<Rightarrow> string \<Rightarrow> string" where
  "new_partition_key table company_id location_id i =
     table @ ''.'' @ eh_str_with_def company_id ''NONE'' @ ''.'' @ eh_str_with_def location_id ''NONE'' @ ''.'' @ i"

definition get_keys :: "string \<Rightarrow> string \<Rightarrow> string \<Rightarrow> string \<Rightarrow> string \<Rightarrow> string \<times> string" where
  "get_keys table operation company_id location_id i =
     (''dbchange.'' @ table @ ''.'' @ operation @ ''.'' @ eh_str_with_def (Some company_id) ''NONE'' @ ''.''
        @ eh_str_with_def (Some location_id) ''NONE'' @ ''.'' @ i,
      new_partition_key table (Some company_id) (Some location_id) i)"

record event_batch_group =
  g_partition_key :: string
  g_events :: "(change_record \<times> string) list"

text \<open>A property of the object, if it is a string.\<close>

definition object_str :: "string \<Rightarrow> change_record \<Rightarrow> string" where
  "object_str k r = (case r_object r of None \<Rightarrow> [] | Some d \<Rightarrow> (case dget d k of Some (PStr c) \<Rightarrow> c | _ \<Rightarrow> []))"

definition record_keys :: "change_record \<Rightarrow> string \<times> string" where
  "record_keys r = get_keys (r_table r) (r_operation r) (object_str ''companyId'' r) (object_str ''locationId'' r) (r_id r)"

definition eh_plan_record ::
    "event_batch_group list \<times> string option \<Rightarrow> change_record \<Rightarrow> event_batch_group list \<times> string option" where
  "eh_plan_record st record =
     (case st of (groups, pending) \<Rightarrow>
        (let (key, pkey) = record_keys record in
         if pending = Some pkey \<and> groups \<noteq> []
         then (butlast groups @ [(last groups)\<lparr>g_events := g_events (last groups) @ [(record, key)]\<rparr>], pending)
         else (groups @ [\<lparr>g_partition_key = pkey, g_events = [(record, key)]\<rparr>], Some pkey)))"

definition plan_batches :: "change_record list \<Rightarrow> event_batch_group list" where
  "plan_batches records = fst (foldl eh_plan_record ([], None) records)"

section \<open>The driver\<close>

record event_data =
  ed_body :: string
  ed_message_id :: string
  ed_object_id :: string

text \<open>A batch is its partition key and its content. \<open>batch.add\<close> raises when the batch is full.\<close>

type_synonym event_batch = "string \<times> event_data list"

record 'w eh_ops =
  eh_connect :: "string \<Rightarrow> 'w \<Rightarrow> unit res \<times> 'w"
  eh_create_batch :: "string \<Rightarrow> 'w \<Rightarrow> unit res \<times> 'w"
  eh_batch_add :: "event_batch \<Rightarrow> event_data \<Rightarrow> 'w \<Rightarrow> unit res \<times> 'w"
  eh_send_batch :: "event_batch \<Rightarrow> 'w \<Rightarrow> unit res \<times> 'w"
  eh_close :: "'w \<Rightarrow> unit res \<times> 'w"

record 'w eventhub =
  eh_world :: 'w
  eh_logger :: bool
  eh_batcher :: batcher
  eh_producer :: bool
  eh_dry_run :: bool
  eh_stopped :: bool
  eh_sent :: "event_batch list"

definition new_eventhub :: "'w \<Rightarrow> 'w eventhub" where
  "new_eventhub w = \<lparr>eh_world = w, eh_logger = False, eh_batcher = [], eh_producer = False, eh_dry_run = False,
     eh_stopped = False, eh_sent = []\<rparr>"

definition eh_call :: "('w \<Rightarrow> 'a \<times> 'w) \<Rightarrow> 'w eventhub \<Rightarrow> 'a \<times> 'w eventhub" where
  "eh_call f s = (case f (eh_world s) of (r, w) \<Rightarrow> (r, s\<lparr>eh_world := w\<rparr>))"

text \<open>The errors of \<open>_connect\<close>: the text of a URL error or of an exception after ``error connecting to eventhub: ''.\<close>

datatype eh_connect_error = EhParse url_error | EhClient exc

definition eventhub_connect :: "'w eh_ops \<Rightarrow> string \<Rightarrow> 'w eventhub \<Rightarrow> (eh_connect_error + unit) \<times> 'w eventhub" where
  "eventhub_connect ops url s =
     (case eventhub_connection_string url of
        Inl e \<Rightarrow> (Inl (EhParse e), s)
      | Inr conn \<Rightarrow>
          (case eh_call (eh_connect ops conn) s of
             (Inl e, s) \<Rightarrow> (Inl (EhClient e), s)
           | (Inr _, s) \<Rightarrow> (Inr (), s\<lparr>eh_producer := True\<rparr>)))"

definition eventhub_start :: "'w eh_ops \<Rightarrow> string \<Rightarrow> 'w eventhub \<Rightarrow> (eh_connect_error + unit) \<times> 'w eventhub" where
  "eventhub_start ops url s = eventhub_connect ops url (s\<lparr>eh_batcher := [], eh_logger := True\<rparr>)"

definition eventhub_process :: "db_change_event \<Rightarrow> 'w eventhub \<Rightarrow> bool res \<times> 'w eventhub" where
  "eventhub_process ev s =
     (case batcher_add ev (eh_batcher s) of
        (Inl e, b) \<Rightarrow> (Inl e, s\<lparr>eh_batcher := b\<rparr>)
      | (Inr _, b) \<Rightarrow> (Inr False, s\<lparr>eh_batcher := b\<rparr>))"

definition snapshot_and_plan :: "'w eventhub \<Rightarrow> (nat \<times> event_batch_group list) \<times> 'w eventhub" where
  "snapshot_and_plan s =
     (let records = eh_batcher s; cnt = length records in
      if cnt = 0 then ((0, []), s) else ((cnt, plan_batches records), s\<lparr>eh_batcher := []\<rparr>))"

fun add_events ::
    "'w eh_ops \<Rightarrow> event_batch \<Rightarrow> (change_record \<times> string) list \<Rightarrow> 'w eventhub \<Rightarrow> event_batch res \<times> 'w eventhub" where
  "add_events ops batch [] s = (Inr batch, s)"
| "add_events ops batch ((record, object_id_key) # es) s =
     (case r_event record of
        None \<Rightarrow> (Inl AssertionError, s)
      | Some ev \<Rightarrow>
          (let data = \<lparr>ed_body = stringify (PStruct (event_struct ev)), ed_message_id = ev_id ev, ed_object_id = object_id_key\<rparr> in
           andthen_st (eh_call (eh_batch_add ops batch data) s)
             (\<lambda>_ s. add_events ops (fst batch, snd batch @ [data]) es s)))"

fun build_batches ::
    "'w eh_ops \<Rightarrow> event_batch_group list \<Rightarrow> 'w eventhub \<Rightarrow> event_batch list res \<times> 'w eventhub" where
  "build_batches ops [] s = (Inr [], s)"
| "build_batches ops (g # gs) s =
     (if \<not> eh_producer s
      then (Inl (AttributeError ([SQ] @ ''NoneType'' @ [SQ] @ '' object has no attribute '' @ [SQ] @ ''create_batch'' @ [SQ])), s)
      else andthen_st (eh_call (eh_create_batch ops (g_partition_key g)) s) (\<lambda>_ s.
           andthen_st (add_events ops (g_partition_key g, []) (g_events g) s) (\<lambda>batch s.
           andthen_st (build_batches ops gs s) (\<lambda>built s. (Inr (batch # built), s)))))"

fun send_batches :: "'w eh_ops \<Rightarrow> event_batch list \<Rightarrow> 'w eventhub \<Rightarrow> unit res \<times> 'w eventhub" where
  "send_batches ops [] s = (Inr (), s)"
| "send_batches ops (b # bs) s =
     (if eh_dry_run s then send_batches ops bs s
      else andthen_st (eh_call (eh_send_batch ops b) s) (\<lambda>_ s. send_batches ops bs (s\<lparr>eh_sent := eh_sent s @ [b]\<rparr>)))"

definition eventhub_flush :: "'w eh_ops \<Rightarrow> 'w eventhub \<Rightarrow> unit res \<times> 'w eventhub" where
  "eventhub_flush ops s =
     (case snapshot_and_plan s of ((cnt, groups), s) \<Rightarrow>
        if cnt = 0 then (Inr (), s)
        else andthen_st (build_batches ops groups s) (\<lambda>built s. send_batches ops built s))"

definition eh_close_producer :: "'w eh_ops \<Rightarrow> 'w eventhub \<Rightarrow> unit res \<times> 'w eventhub" where
  "eh_close_producer ops s = (if eh_producer s then eh_call (eh_close ops) s else (Inr (), s))"

definition eventhub_stop :: "'w eh_ops \<Rightarrow> 'w eventhub \<Rightarrow> unit res \<times> 'w eventhub" where
  "eventhub_stop ops s =
     (if eh_stopped s then (Inr (), s)
      else let s = s\<lparr>eh_stopped := True\<rparr> in
        if \<not> eh_logger s then (Inl AssertionError, s)
        else andthen_st (eventhub_flush ops s) (\<lambda>_ s. eh_close_producer ops s))"

definition eventhub_test :: "'w eh_ops \<Rightarrow> string \<Rightarrow> 'w eventhub \<Rightarrow> (eh_connect_error + unit) \<times> 'w eventhub" where
  "eventhub_test ops url s =
     andthen_st (eventhub_connect ops url s) (\<lambda>_ s. apfst (map_sum EhClient id) (eh_close_producer ops s))"

definition EH_MAX_IMPORT_BATCH_SIZE :: nat where
  "EH_MAX_IMPORT_BATCH_SIZE = 100"

definition eventhub_import_event :: "'w eh_ops \<Rightarrow> db_change_event \<Rightarrow> 'w eventhub \<Rightarrow> unit res \<times> 'w eventhub" where
  "eventhub_import_event ops ev s =
     andthen_st (eventhub_process ev s) (\<lambda>_ s.
       if length (eh_batcher s) \<ge> EH_MAX_IMPORT_BATCH_SIZE
       then (if eh_logger s then eventhub_flush ops s else (Inl AssertionError, s))
       else (Inr (), s))"

definition eventhub_import_completed :: "'w eh_ops \<Rightarrow> 'w eventhub \<Rightarrow> unit res \<times> 'w eventhub" where
  "eventhub_import_completed ops s = (if eh_logger s then eventhub_flush ops s else (Inl AssertionError, s))"

text \<open>The run of the importer over this driver as its handler is the argument \<open>run\<close>.\<close>

definition eventhub_run_import ::
    "'w eh_ops \<Rightarrow> bool \<Rightarrow> bool \<Rightarrow> string \<Rightarrow> ('w eventhub \<Rightarrow> (eh_connect_error + unit) \<times> 'w eventhub) \<Rightarrow> 'w eventhub
      \<Rightarrow> (eh_connect_error + unit) \<times> 'w eventhub" where
  "eventhub_run_import ops schema_only dry_run url run s =
     (if schema_only then (Inr (), s)
      else andthen_st (eventhub_connect ops url (s\<lparr>eh_logger := True\<rparr>)) (\<lambda>_ s.
             run (s\<lparr>eh_dry_run := dry_run, eh_batcher := []\<rparr>)))"

definition eventhub_configuration :: "driver_field list" where
  "eventhub_configuration =
     [required_string_field ''Connection String'' ''The connection string primary key from the Event Hub console.'' None]"

section \<open>The plan\<close>

definition pkey_of :: "change_record \<Rightarrow> string" where
  "pkey_of r = snd (record_keys r)"

definition group_ok :: "event_batch_group \<Rightarrow> bool" where
  "group_ok g \<longleftrightarrow> g_events g \<noteq> [] \<and> (\<forall>e \<in> set (g_events g). pkey_of (fst e) = g_partition_key g)"

definition plan_ok :: "change_record list \<Rightarrow> event_batch_group list \<Rightarrow> bool" where
  "plan_ok records groups \<longleftrightarrow>
     concat (map g_events groups) = map (\<lambda>r. (r, fst (record_keys r))) records
     \<and> list_all group_ok groups
     \<and> successively (\<lambda>g h. g_partition_key g \<noteq> g_partition_key h) groups"

lemma eh_plan_record_ok:
  assumes "plan_ok rs groups" "pending = (if groups = [] then None else Some (g_partition_key (last groups)))"
    "eh_plan_record (groups, pending) r = (groups', pending')"
  shows "plan_ok (rs @ [r]) groups' \<and> pending' = (if groups' = [] then None else Some (g_partition_key (last groups')))"
proof (cases "groups \<noteq> [] \<and> g_partition_key (last groups) = pkey_of r")
  case True
  then obtain gs g where g: "groups = gs @ [g]" by (metis rev_exhaust)
  with True assms(2,3) have "groups' = gs @ [g\<lparr>g_events := g_events g @ [(r, fst (record_keys r))]\<rparr>]"
    "pending' = Some (g_partition_key g)"
    by (auto simp: eh_plan_record_def pkey_of_def Let_def case_prod_unfold)
  with assms(1) True g show ?thesis
    by (auto simp: plan_ok_def group_ok_def successively_append_iff)
next
  case False
  with assms(2,3) have "groups' = groups @ [\<lparr>g_partition_key = pkey_of r, g_events = [(r, fst (record_keys r))]\<rparr>]"
    "pending' = Some (pkey_of r)"
    by (auto simp: eh_plan_record_def pkey_of_def Let_def case_prod_unfold split: if_splits)
  with assms(1) False show ?thesis
    by (auto simp: plan_ok_def group_ok_def successively_append_iff)
qed

lemma plan_batches_ok: "plan_ok records (plan_batches records)"
proof -
  have "foldl eh_plan_record ([], None) records = (groups, pending)
      \<Longrightarrow> plan_ok records groups \<and> pending = (if groups = [] then None else Some (g_partition_key (last groups)))" for groups pending
  proof (induction records arbitrary: groups pending rule: rev_induct)
    case Nil
    then show ?case by (simp add: plan_ok_def)
  next
    case (snoc r rs)
    obtain gs p where f: "foldl eh_plan_record ([], None) rs = (gs, p)" by force
    with snoc.prems have "eh_plan_record (gs, p) r = (groups, pending)" by simp
    with snoc.IH [OF f] eh_plan_record_ok show ?case by blast
  qed
  then show ?thesis unfolding plan_batches_def by (metis prod.collapse)
qed

text \<open>The groups are the maximal runs of records with one key, so the plan is the only one of its kind.\<close>

lemma first_group:
  assumes "group_ok g" "list_all group_ok gs" "successively (\<lambda>g h. g_partition_key g \<noteq> g_partition_key h) (g # gs)"
  shows "takeWhile (\<lambda>e. pkey_of (fst e) = g_partition_key g) (g_events g @ concat (map g_events gs)) = g_events g"
proof (cases gs)
  case Nil
  with assms(1) show ?thesis by (simp add: group_ok_def takeWhile_eq_all_conv)
next
  case (Cons h hs)
  with assms(2) obtain e es where "g_events h = e # es" "pkey_of (fst e) = g_partition_key h"
    by (cases "g_events h") (auto simp: group_ok_def)
  with Cons assms(1,3) show ?thesis by (auto simp: group_ok_def takeWhile_append)
qed

lemma groups_unique:
  "\<lbrakk>list_all group_ok gs; list_all group_ok hs; successively (\<lambda>g h. g_partition_key g \<noteq> g_partition_key h) gs;
    successively (\<lambda>g h. g_partition_key g \<noteq> g_partition_key h) hs; concat (map g_events gs) = concat (map g_events hs)\<rbrakk>
   \<Longrightarrow> gs = hs"
proof (induction gs arbitrary: hs)
  case Nil
  then show ?case by (cases hs) (auto simp: group_ok_def)
next
  case (Cons g gs)
  then obtain h hs' where hs: "hs = h # hs'" by (cases hs) (auto simp: group_ok_def)
  have "hd (g_events g) = hd (g_events h)"
    using Cons.prems hs by (auto simp: group_ok_def) (metis hd_append2)
  then have k: "g_partition_key g = g_partition_key h"
    using Cons.prems(1,2) hs by (auto simp: group_ok_def) (metis list.set_sel(1))
  then have e: "g_events g = g_events h"
    using first_group [of g gs] first_group [of h hs'] Cons.prems hs by simp
  then have "gs = hs'" using Cons.IH [of hs'] Cons.prems hs by (auto simp: successively_Cons)
  with k e hs show ?case by simp
qed

lemma plan_unique: "plan_ok rs gs \<Longrightarrow> plan_ok rs hs \<Longrightarrow> gs = hs"
  unfolding plan_ok_def by (rule groups_unique) simp_all

section \<open>A flush\<close>

lemma eh_call_state:
  assumes "eh_call f s = (r, s')"
  shows "eh_batcher s' = eh_batcher s" "eh_sent s' = eh_sent s" "eh_dry_run s' = eh_dry_run s" "eh_producer s' = eh_producer s"
  using assms by (auto simp: eh_call_def split: prod.splits)

text \<open>The content of the batch that is built for a group.\<close>

definition data_of :: "change_record \<times> string \<Rightarrow> event_data" where
  "data_of e = (case r_event (fst e) of
     Some ev \<Rightarrow> \<lparr>ed_body = stringify (PStruct (event_struct ev)), ed_message_id = ev_id ev, ed_object_id = snd e\<rparr>
   | None \<Rightarrow> \<lparr>ed_body = [], ed_message_id = [], ed_object_id = []\<rparr>)"

definition batch_of :: "event_batch_group \<Rightarrow> event_batch" where
  "batch_of g = (g_partition_key g, map data_of (g_events g))"

lemma add_events_state:
  "add_events ops b es s = (r, s') \<Longrightarrow> eh_batcher s' = eh_batcher s \<and> eh_sent s' = eh_sent s \<and> eh_dry_run s' = eh_dry_run s
    \<and> (\<forall>b'. r = Inr b' \<longrightarrow> b' = (fst b, snd b @ map data_of es))"
proof (induction es arbitrary: b s)
  case (Cons e es)
  obtain rc key where e: "e = (rc, key)" by force
  show ?case
  proof (cases "r_event rc")
    case None
    with Cons.prems e show ?thesis by auto
  next
    case (Some ev)
    with Cons.prems e
    have "andthen_st (eh_call (eh_batch_add ops b (data_of e)) s) (\<lambda>_ s. add_events ops (fst b, snd b @ [data_of e]) es s) = (r, s')"
      by (simp add: data_of_def Let_def)
    then show ?thesis
    proof (cases rule: andthen_st_cases)
      case (err x)
      with eh_call_state [OF err(1)] show ?thesis by auto
    next
      case (ok x s1)
      with eh_call_state [OF ok(1)] Cons.IH [OF ok(2)] show ?thesis by simp
    qed
  qed
qed auto

lemma build_batches_state:
  "build_batches ops gs s = (r, s') \<Longrightarrow> eh_batcher s' = eh_batcher s \<and> eh_sent s' = eh_sent s \<and> eh_dry_run s' = eh_dry_run s
    \<and> (\<forall>bs. r = Inr bs \<longrightarrow> bs = map batch_of gs)"
proof (induction gs arbitrary: r s s')
  case (Cons g gs)
  show ?case
  proof (cases "eh_producer s")
    case False
    with Cons.prems show ?thesis by auto
  next
    case True
    with Cons.prems have "andthen_st (eh_call (eh_create_batch ops (g_partition_key g)) s) (\<lambda>_ s.
           andthen_st (add_events ops (g_partition_key g, []) (g_events g) s) (\<lambda>batch s.
           andthen_st (build_batches ops gs s) (\<lambda>built s. (Inr (batch # built), s)))) = (r, s')" by simp
    then show ?thesis
    proof (cases rule: andthen_st_cases)
      case (err x)
      with eh_call_state [OF err(1)] show ?thesis by auto
    next
      case (ok x s1)
      note s1 = eh_call_state [OF ok(1)]
      from ok(2) show ?thesis
      proof (cases rule: andthen_st_cases)
        case (err x)
        with add_events_state [OF err(1)] s1 show ?thesis by auto
      next
        case ok2: (ok b s2)
        note s2 = add_events_state [OF ok2(1)]
        from ok2(2) show ?thesis
        proof (cases rule: andthen_st_cases)
          case (err x)
          with Cons.IH [OF err(1)] s1 s2 show ?thesis by auto
        next
          case (ok bs s3)
          with Cons.IH [OF ok(1)] s1 s2 show ?thesis by (auto simp: batch_of_def)
        qed
      qed
    qed
  qed
qed auto

lemma send_batches_state:
  "send_batches ops bs s = (r, s') \<Longrightarrow> eh_batcher s' = eh_batcher s
    \<and> (\<exists>k. eh_sent s' = eh_sent s @ take k bs \<and> (eh_dry_run s \<longrightarrow> k = 0) \<and> (r = Inr () \<longrightarrow> \<not> eh_dry_run s \<longrightarrow> k = length bs))"
proof (induction bs arbitrary: s)
  case (Cons b bs)
  show ?case
  proof (cases "eh_dry_run s")
    case True
    with Cons.prems Cons.IH [of s] show ?thesis by auto
  next
    case False
    with Cons.prems have "andthen_st (eh_call (eh_send_batch ops b) s)
        (\<lambda>_ s. send_batches ops bs (s\<lparr>eh_sent := eh_sent s @ [b]\<rparr>)) = (r, s')" by simp
    then show ?thesis
    proof (cases rule: andthen_st_cases)
      case (err x)
      with eh_call_state [OF err(1)] show ?thesis by (auto intro: exI [of _ 0])
    next
      case (ok x s1)
      from Cons.IH [OF ok(2)] eh_call_state [OF ok(1)] False obtain k where
        "eh_batcher s' = eh_batcher s" "eh_sent s' = (eh_sent s @ [b]) @ take k bs" "r = Inr () \<longrightarrow> k = length bs" by auto
      with False show ?thesis by (auto intro!: exI [of _ "Suc k"])
    qed
  qed
qed auto

text \<open>What was sent by a flush, as a number of batches of the plan.\<close>

definition sent_of :: "'w eventhub \<Rightarrow> nat \<Rightarrow> event_batch list" where
  "sent_of s k = take k (map batch_of (plan_batches (eh_batcher s)))"

lemma plan_batches_Nil: "plan_batches [] = []"
  by (simp add: plan_batches_def)

lemma eventhub_flush_state:
  assumes "eventhub_flush ops s = (r, s')"
  shows "eh_batcher s' = [] \<and> (\<exists>k. eh_sent s' = eh_sent s @ sent_of s k
    \<and> (eh_dry_run s \<longrightarrow> k = 0) \<and> (r = Inr () \<longrightarrow> \<not> eh_dry_run s \<longrightarrow> k = length (plan_batches (eh_batcher s))))"
proof (cases "eh_batcher s = []")
  case True
  with assms show ?thesis by (auto simp: eventhub_flush_def snapshot_and_plan_def sent_of_def plan_batches_Nil)
next
  case False
  let ?s = "s\<lparr>eh_batcher := []\<rparr>"
  from False assms have "andthen_st (build_batches ops (plan_batches (eh_batcher s)) ?s) (\<lambda>built s. send_batches ops built s) = (r, s')"
    by (simp add: eventhub_flush_def snapshot_and_plan_def Let_def)
  then show ?thesis
  proof (cases rule: andthen_st_cases)
    case (err e)
    with build_batches_state [OF err(1)] show ?thesis by (auto simp: sent_of_def intro: exI [of _ 0])
  next
    case (ok bs s1)
    with build_batches_state [OF ok(1)] send_batches_state [OF ok(2)] show ?thesis by (auto simp: sent_of_def)
  qed
qed

interpretation ehs: sink eventhub_process "eventhub_flush ops" eh_batcher "\<lambda>s. True" for ops
proof unfold_locales
  fix s s' :: "'a eventhub" and i b u e
  show "\<exists>x. eh_batcher s' = eh_batcher s @ [x]" if "eventhub_process i s = (Inr b, s')"
    using that by (auto simp: eventhub_process_def batcher_add_def split: prod.splits sum.splits)
  show "eh_batcher s' = eh_batcher s" if "eventhub_process i s = (Inl e, s')"
    using that by (auto simp: eventhub_process_def batcher_add_def split: prod.splits sum.splits)
  show "eh_batcher s' = []" if "eventhub_flush ops s = (Inr u, s')"
    using eventhub_flush_state [OF that] by simp
  show "eh_batcher s' \<in> {[], eh_batcher s}" if "eventhub_flush ops s = (Inl e, s')"
    using eventhub_flush_state [OF that] by simp
qed simp_all

section \<open>Properties\<close>

text \<open>C32: the plan of an Event Hubs flush. Its groups, one after the other, hold every record once and in order with its
  key; every group is non-empty and has the partition key of all its records; neighbouring groups have different
  keys. No other plan has these properties.\<close>

theorem eventhub_plan: "plan_ok records groups \<longleftrightarrow> groups = plan_batches records"
  using plan_batches_ok plan_unique by blast

text \<open>What an Event Hubs flush sends. The buffer is empty afterwards in any case. The batches that were sent are the
  first ones of the plan, in order: all of them if the flush returned normally, none in a dry run.\<close>

theorem eventhub_flush_outcome:
  assumes "eventhub_flush ops s = (r, s')"
  shows "eh_batcher s' = [] \<and> (\<exists>k. eh_sent s' = eh_sent s @ take k (map batch_of (plan_batches (eh_batcher s)))
    \<and> (eh_dry_run s \<longrightarrow> k = 0) \<and> (r = Inr () \<longrightarrow> \<not> eh_dry_run s \<longrightarrow> k = length (plan_batches (eh_batcher s))))"
  using eventhub_flush_state [OF assms] unfolding sent_of_def .

text \<open>Event Hubs streaming. In any run of the driver in which calls fail at will, the batches of records that were
  flushed normally, followed by what is still buffered, are a subsequence of the accepted records: none is doubled
  and none is out of order.\<close>

theorem eventhub_stream_once:
  assumes "sink_run eventhub_process (eventhub_flush ops) eh_batcher cs s = (s', durable, acc)"
  shows "subseq (concat durable @ eh_batcher s') (eh_batcher s @ acc)"
  by (rule ehs.run_subseq [OF _ assms]) simp

text \<open>An SDK that takes everything and two changes of one row.\<close>

definition demo_hub :: "unit eh_ops" where
  "demo_hub = \<lparr>eh_connect = \<lambda>c w. (Inr (), w), eh_create_batch = \<lambda>k w. (Inr (), w), eh_batch_add = \<lambda>b d w. (Inr (), w),
     eh_send_batch = \<lambda>b w. (Inr (), w), eh_close = \<lambda>w. (Inr (), w)\<rparr>"

definition demo_change :: "string \<Rightarrow> db_change_event" where
  "demo_change i = \<lparr>ev_operation = ''INSERT'', ev_id = i, ev_table = ''t'', ev_key = Some [''k''], ev_model_version = [],
     ev_company_id = None, ev_location_id = None, ev_user_id = None, ev_before = None, ev_after = None, ev_diff = None, ev_timestamp = 0,
     ev_mvcc_timestamp = [], ev_imported = False, ev_nats_msg = None, ev_schema_validated_path = None, ev_object = None\<rparr>"

theorem eventhub_stream_once_witness:
  "\<exists>s' durable acc. sink_run eventhub_process (eventhub_flush demo_hub) eh_batcher
      [Some (demo_change ''a''), Some (demo_change ''b''), None] ((new_eventhub ())\<lparr>eh_producer := True\<rparr>) = (s', durable, acc)
    \<and> length acc = 2 \<and> concat durable = acc \<and> subseq (concat durable @ eh_batcher s') acc"
proof -
  let ?s = "(new_eventhub ())\<lparr>eh_producer := True\<rparr>"
  obtain s' durable acc where r: "sink_run eventhub_process (eventhub_flush demo_hub) eh_batcher
      [Some (demo_change ''a''), Some (demo_change ''b''), None] ?s = (s', durable, acc)" by (metis prod_cases3)
  have e: "eh_batcher ?s = []" by (simp add: new_eventhub_def)
  have "length acc = 2 \<and> concat durable = acc"
    using r by (simp add: eventhub_process_def batcher_add_def get_object_def get_primary_key_def demo_change_def new_eventhub_def
        eventhub_flush_def snapshot_and_plan_def plan_batches_def eh_plan_record_def record_keys_def get_keys_def object_str_def demo_hub_def eh_call_def
        new_partition_key_def eh_str_with_def_def Let_def) (elim conjE, hypsubst, simp)
  with r eventhub_stream_once [OF r] e show ?thesis by auto
qed

definition demo_record :: "string \<Rightarrow> change_record" where
  "demo_record i = \<lparr>r_table = ''t'', r_id = i, r_operation = ''INSERT'', r_diff = None, r_object = None, r_event = Some (demo_change i)\<rparr>"

theorem eventhub_flush_outcome_witness:
  "\<exists>s'. eventhub_flush demo_hub ((new_eventhub ())\<lparr>eh_producer := True, eh_batcher := [demo_record ''a'', demo_record ''b'']\<rparr>) = (Inr (), s')
    \<and> eh_batcher s' = [] \<and> length (eh_sent s') = 2"
proof -
  let ?s = "(new_eventhub ())\<lparr>eh_producer := True, eh_batcher := [demo_record ''a'', demo_record ''b'']\<rparr>"
  have p: "length (plan_batches (eh_batcher ?s)) = 2"
    by (simp add: plan_batches_def eh_plan_record_def record_keys_def get_keys_def new_partition_key_def demo_record_def Let_def)
  obtain s' where f: "eventhub_flush demo_hub ?s = (Inr (), s')"
    by (simp add: eventhub_flush_def snapshot_and_plan_def plan_batches_def eh_plan_record_def record_keys_def get_keys_def
        new_partition_key_def demo_record_def new_eventhub_def demo_hub_def eh_call_def Let_def)
  have s: "eh_sent ?s = []" "\<not> eh_dry_run ?s" by (simp_all add: new_eventhub_def)
  from eventhub_flush_outcome [OF f] s p have "eh_batcher s' = [] \<and> length (eh_sent s') = 2" by auto
  with f show ?thesis by blast
qed

end
