(* ===== verification/S3.thy ===== *)
theory S3
  imports Events Sink ConnStr "HOL-Library.Multiset"
begin

text \<open>
  \<open>eds/drivers/s3/__init__.py\<close>: object keys, the configuration, the connection and the driver, which buffers a
  batch and uploads it with a pool of threads.

  The SDK is a record of operations on the world \<open>'w\<close>; the objects that were stored are recorded in order. The
  order in which the uploads of a flush take effect is an argument: a permutation of the jobs in which, with
  \<open>k\<close> threads, a job is less than \<open>k\<close> places early, since the pool starts the jobs in order. The theorems: the
  loop that collapses slashes; what is configured is what is connected to; what the outcome of a flush means under
  every order; and that two changes of a row within one second race.
\<close>

section \<open>Keys\<close>

datatype s3_provider = AWS | GOOGLE | LOCALSTACK

definition get_cloud_provider :: "string \<Rightarrow> s3_provider" where
  "get_cloud_provider host = (if is_localhost host then LOCALSTACK else if sublist ''googleapis.com'' host then GOOGLE else AWS)"

definition add_final_slash :: "string \<Rightarrow> string" where
  "add_final_slash s = (if s = [] then [] else if last s \<noteq> CHR ''/'' then s @ ''/'' else s)"

definition trim_leading_slash :: "string \<Rightarrow> string" where
  "trim_leading_slash s = (if starts (CHR ''/'') s then tl s else s)"

definition get_bucket_info :: "string \<Rightarrow> string \<Rightarrow> s3_provider \<Rightarrow> string \<times> string \<times> string" where
  "get_bucket_info host path provider =
     (if provider = AWS then ([], host, add_final_slash (trim_leading_slash path))
      else let parts = split_on (CHR ''/'') (trim_leading_slash path);
               (bucket, prefix) = (case parts of [] \<Rightarrow> ([], []) | b # ps \<Rightarrow> (b, add_final_slash (join ''/'' ps)))
           in ((if provider = LOCALSTACK then ''http://'' else ''https://'') @ host, bucket, prefix))"

text \<open>\<open>joined.replace("//", "/")\<close>, and the loop around it.\<close>

fun replace_slashes :: "string \<Rightarrow> string" where
  "replace_slashes (c # d # s) =
     (if c = CHR ''/'' \<and> d = CHR ''/'' then CHR ''/'' # replace_slashes s else c # replace_slashes (d # s))"
| "replace_slashes s = s"

lemma replace_slashes_length: "length (replace_slashes s) \<le> length s"
  by (induction s rule: replace_slashes.induct) auto

lemma replace_slashes_less: "sublist ''//'' s \<Longrightarrow> length (replace_slashes s) < length s"
proof (induction s rule: replace_slashes.induct)
  case (1 c d s)
  show ?case
  proof (cases "c = CHR ''/'' \<and> d = CHR ''/''")
    case True
    with replace_slashes_length [of s] show ?thesis by simp
  next
    case False
    with 1 show ?thesis by (auto simp: sublist_Cons_right)
  qed
qed (auto simp: sublist_Cons_right)

function collapse_slashes :: "string \<Rightarrow> string" where
  "collapse_slashes joined = (if sublist ''//'' joined then collapse_slashes (replace_slashes joined) else joined)"
  by pat_completeness auto
termination
  by (relation "measure length") (auto simp: replace_slashes_less)

declare collapse_slashes.simps [simp del]

definition s3_path_join :: "string list \<Rightarrow> string" where
  "s3_path_join parts = collapse_slashes (join ''/'' (filter (\<lambda>p. p \<noteq> []) parts))"

definition object_key :: "string \<Rightarrow> db_change_event \<Rightarrow> string res \<times> db_change_event" where
  "object_key pre event =
     (case ev_schema_validated_path event of
        Some p \<Rightarrow> (Inr (s3_path_join [pre, p]), event)
      | None \<Rightarrow>
          andthen_st (get_primary_key event) (\<lambda>pk event.
            (Inr (s3_path_join [pre, ev_table event, str_int (ev_timestamp event div 1000) @ ''-'' @ pk @ ''.json'']), event)))"

section \<open>Configuration\<close>

definition s3_url :: "pydict \<Rightarrow> gourl" where
  "s3_url values =
     (let bucket = fst (get_required_string_value ''Bucket'' values);
          prfx = get_optional_string_value ''Prefix'' [] values;
          region = get_optional_string_value ''Region'' [] values;
          accesskey = get_optional_string_value ''Access Key ID'' [] values;
          secret = get_optional_string_value ''Secret Access Key'' [] values;
          endpoint = get_optional_string_value ''Endpoint'' [] values;
          u = empty_url\<lparr>u_scheme := ''s3''\<rparr>;
          u = (if endpoint \<noteq> [] then u\<lparr>u_host := endpoint, u_path := bucket\<rparr> else u\<lparr>u_host := bucket\<rparr>);
          u = (if prfx \<noteq> [] then u\<lparr>u_path := (if u_path u = [] then prfx else s3_path_join [u_path u, prfx])\<rparr> else u);
          q = [];
          q = (if region \<noteq> [] then values_set ''region'' region q else q);
          q = (if accesskey \<noteq> [] then values_set ''access-key-id'' accesskey q else q);
          q = (if secret \<noteq> [] then values_set ''secret-access-key'' secret q else q)
      in u\<lparr>u_raw_query := values_encode q\<rparr>)"

definition s3_validate :: "pydict \<Rightarrow> url_error + string \<times> field_error list" where
  "s3_validate values =
     (case snd (get_required_string_value ''Bucket'' values) of
        Some e \<Rightarrow> Inr ([], [e])
      | None \<Rightarrow> andthen (url_str (s3_url values)) (\<lambda>s. Inr (s, [])))"

definition s3_configuration :: "driver_field list" where
  "s3_configuration =
     [required_string_field ''Bucket'' ''The bucket name'' None,
      optional_string_field ''Prefix'' ''The prefix to prepend to the filename'' None,
      optional_string_field ''Region'' ''The AWS region to use'' None,
      optional_password_field ''Access Key ID'' ''The AWS AWS Key ID'' None,
      optional_password_field ''Secret Access Key'' ''The AWS Secret Access Key'' None,
      optional_string_field ''Endpoint'' ''The Endpoint hostname to override if using an AWS compatible provider'' None]"

section \<open>Connecting\<close>

type_synonym environment = "string \<Rightarrow> string option"

definition resolve_region :: "environment \<Rightarrow> url_values \<Rightarrow> string" where
  "resolve_region environ q =
     (if values_has ''region'' q then values_get ''region'' q
      else case environ ''AWS_REGION'' of
        Some (c # r) \<Rightarrow> c # r
      | _ \<Rightarrow> (case environ ''AWS_DEFAULT_REGION'' of Some (c # r) \<Rightarrow> c # r | _ \<Rightarrow> ''us-west-2''))"

definition query_or_env :: "environment \<Rightarrow> url_values \<Rightarrow> string \<Rightarrow> string \<Rightarrow> string" where
  "query_or_env environ q key env_var =
     (if values_has key q then values_get key q else case environ env_var of Some v \<Rightarrow> v | None \<Rightarrow> [])"

definition s3_atoi :: "string \<Rightarrow> int res" where
  "s3_atoi s =
     (let signed = (take 1 s = ''+'' \<or> take 1 s = ''-''); body = (if signed then drop 1 s else s) in
      if body = [] \<or> \<not> list_all is_digit body then Inl (ValueError (''invalid int: '' @ s))
      else if 4300 < length body
      then Inl (ValueError (''Exceeds the limit (4300 digits) for integer string conversion: value has ''
                  @ str_nat (length body) @ '' digits; use sys.set_int_max_str_digits() to increase the limit''))
      else Inr (if take 1 s = ''-'' then - int (nat_of_digits body) else int (nat_of_digits body)))"

definition s3_resolve_max_retries :: "url_values \<Rightarrow> int" where
  "s3_resolve_max_retries q =
     (if \<not> values_has ''max-retries'' q then 5
      else case s3_atoi (values_get ''max-retries'' q) of Inr n \<Rightarrow> n | Inl _ \<Rightarrow> 5)"

definition resolve_positive_int :: "url_values \<Rightarrow> string \<Rightarrow> int \<Rightarrow> int res" where
  "resolve_positive_int q key dflt =
     (let raw = values_get key q in
      if raw = [] then Inr dflt
      else case s3_atoi raw of
        Inl _ \<Rightarrow> Inl (ValueError (''unable to parse '' @ key @ '': '' @ raw))
      | Inr n \<Rightarrow> Inr (if n \<le> 0 then dflt else n))"

definition S3_MAX_BATCH_SIZE :: int where "S3_MAX_BATCH_SIZE = 1000"
definition DEFAULT_UPLOAD_TASKS :: int where "DEFAULT_UPLOAD_TASKS = 4"

text \<open>The arguments of \<open>boto3.client\<close>.\<close>

record client_config =
  cc_max_attempts :: int
  cc_access_key_id :: string
  cc_secret_access_key :: string
  cc_session_token :: string
  cc_region_name :: string
  cc_endpoint_url :: "string option"
  cc_checksum_when_required :: bool

record 'w s3_ops =
  s3_new_client :: "client_config \<Rightarrow> 'w \<Rightarrow> unit res \<times> 'w"
  s3_put_object :: "string \<Rightarrow> string \<Rightarrow> string \<Rightarrow> 'w \<Rightarrow> unit res \<times> 'w"

type_synonym s3_object = "string \<times> string \<times> string"

record 'w s3_driver =
  s3_world :: 'w
  s3_logger :: bool
  s3_bucket :: string
  s3_prefix :: string
  s3_client :: bool
  s3_upload_tasks :: int
  s3_import_dry_run :: "bool option"
  s3_pending :: "(string \<times> db_change_event) list"
  s3_stored :: "s3_object list"

definition new_s3 :: "'w \<Rightarrow> 'w s3_driver" where
  "new_s3 w = \<lparr>s3_world = w, s3_logger = False, s3_bucket = [], s3_prefix = [], s3_client = False,
     s3_upload_tasks = DEFAULT_UPLOAD_TASKS, s3_import_dry_run = None, s3_pending = [], s3_stored = []\<rparr>"

definition client_config_of :: "environment \<Rightarrow> s3_provider \<Rightarrow> string \<Rightarrow> url_values \<Rightarrow> client_config" where
  "client_config_of environ provider endpoint q =
     \<lparr>cc_max_attempts = s3_resolve_max_retries q,
      cc_access_key_id = query_or_env environ q ''access-key-id'' ''AWS_ACCESS_KEY_ID'',
      cc_secret_access_key = query_or_env environ q ''secret-access-key'' ''AWS_SECRET_ACCESS_KEY'',
      cc_session_token = query_or_env environ q ''session-token'' ''AWS_SESSION_TOKEN'',
      cc_region_name = (if provider = GOOGLE then ''auto'' else resolve_region environ q),
      cc_endpoint_url = (if provider = GOOGLE then Some ''https://storage.googleapis.com''
                         else if endpoint \<noteq> [] then Some endpoint else None),
      cc_checksum_when_required = (provider = GOOGLE)\<rparr>"

datatype s3_error = S3Url url_error | S3Exc exc

definition s3_connect :: "'w s3_ops \<Rightarrow> environment \<Rightarrow> string \<Rightarrow> 'w s3_driver \<Rightarrow> (s3_error + unit) \<times> 'w s3_driver" where
  "s3_connect ops environ url s =
     (case url_parse url of
        Inl e \<Rightarrow> (Inl (S3Url e), s)
      | Inr u \<Rightarrow>
          (let provider = get_cloud_provider (u_host u);
               (endpoint, bucket, prfx) = get_bucket_info (u_host u) (u_path u) provider;
               s = s\<lparr>s3_bucket := bucket, s3_prefix := prfx\<rparr>
           in case query u of
                Inl e \<Rightarrow> (Inl (S3Url e), s)
              | Inr q \<Rightarrow>
                  andthen_st (map_sum S3Exc id (resolve_positive_int q ''maxBatchSize'' S3_MAX_BATCH_SIZE), s) (\<lambda>_ s.
                  andthen_st (map_sum S3Exc id (resolve_positive_int q ''uploadTasks'' DEFAULT_UPLOAD_TASKS), s) (\<lambda>n s.
                    (let s = s\<lparr>s3_upload_tasks := n\<rparr> in
                     case s3_new_client ops (client_config_of environ provider endpoint q) (s3_world s) of
                       (Inl e, w) \<Rightarrow> (Inl (S3Exc e), s\<lparr>s3_world := w\<rparr>)
                     | (Inr _, w) \<Rightarrow> (Inr (), s\<lparr>s3_world := w, s3_client := True\<rparr>))))))"

section \<open>The driver\<close>

definition s3_start :: "'w s3_ops \<Rightarrow> environment \<Rightarrow> string \<Rightarrow> 'w s3_driver \<Rightarrow> (s3_error + unit) \<times> 'w s3_driver" where
  "s3_start ops environ url s = s3_connect ops environ url (s\<lparr>s3_logger := True\<rparr>)"

definition s3_process_event :: "db_change_event \<Rightarrow> bool \<Rightarrow> 'w s3_driver \<Rightarrow> bool res \<times> 'w s3_driver" where
  "s3_process_event event dry_run s =
     (case object_key (s3_prefix s) event of
        (Inl e, _) \<Rightarrow> (Inl e, s)
      | (Inr key, event) \<Rightarrow> (Inr False, if dry_run then s else s\<lparr>s3_pending := s3_pending s @ [(key, event)]\<rparr>))"

definition s3_process :: "db_change_event \<Rightarrow> 'w s3_driver \<Rightarrow> bool res \<times> 'w s3_driver" where
  "s3_process event s = s3_process_event event False s"

text \<open>One upload, and a sequence of uploads with the errors they collect.\<close>

definition s3_upload :: "'w s3_ops \<Rightarrow> string \<times> db_change_event \<Rightarrow> 'w s3_driver \<Rightarrow> exc list \<times> 'w s3_driver" where
  "s3_upload ops job s =
     (case job of (key, event) \<Rightarrow>
        (let buf = stringify (PStruct (event_struct event));
             failed = (\<lambda>e. RuntimeError (''error storing s3 object to '' @ s3_bucket s @ '':'' @ key @ '': '' @ exc_str e)) in
         if \<not> s3_client s
         then ([failed (AttributeError ([SQ] @ ''NoneType'' @ [SQ] @ '' object has no attribute '' @ [SQ] @ ''put_object'' @ [SQ]))], s)
         else case s3_put_object ops (s3_bucket s) key buf (s3_world s) of
           (Inl e, w) \<Rightarrow> ([failed e], s\<lparr>s3_world := w\<rparr>)
         | (Inr _, w) \<Rightarrow> ([], s\<lparr>s3_world := w, s3_stored := s3_stored s @ [(s3_bucket s, key, buf)]\<rparr>)))"

fun s3_uploads :: "'w s3_ops \<Rightarrow> (string \<times> db_change_event) list \<Rightarrow> 'w s3_driver \<Rightarrow> exc list \<times> 'w s3_driver" where
  "s3_uploads ops [] s = ([], s)"
| "s3_uploads ops (job # jobs) s =
     (case s3_upload ops job s of (es, s1) \<Rightarrow> (case s3_uploads ops jobs s1 of (es', s2) \<Rightarrow> (es @ es', s2)))"

definition pool_order :: "int \<Rightarrow> nat \<Rightarrow> nat list \<Rightarrow> bool" where
  "pool_order workers n order \<longleftrightarrow>
     distinct order \<and> set order = {0..<n} \<and> (\<forall>p < n. int (order ! p) < int p + workers)"

definition s3_flush :: "'w s3_ops \<Rightarrow> nat list \<Rightarrow> 'w s3_driver \<Rightarrow> unit res \<times> 'w s3_driver" where
  "s3_flush ops order s =
     (if s3_pending s = [] then (Inr (), s)
      else let jobs = s3_pending s; s = s\<lparr>s3_pending := []\<rparr> in
        case s3_uploads ops (map ((!) jobs) order) s of
          ([], s) \<Rightarrow> (Inr (), s)
        | ([e], s) \<Rightarrow> (Inl e, s)
        | (es, s) \<Rightarrow> (Inl (RuntimeError (join [NL] (map exc_str es))), s))"

definition s3_test :: "'w s3_ops \<Rightarrow> environment \<Rightarrow> string \<Rightarrow> 'w s3_driver \<Rightarrow> (s3_error + unit) \<times> 'w s3_driver" where
  "s3_test ops environ url s = s3_connect ops environ url (s\<lparr>s3_logger := True\<rparr>)"

definition s3_import_event :: "db_change_event \<Rightarrow> 'w s3_driver \<Rightarrow> unit res \<times> 'w s3_driver" where
  "s3_import_event event s =
     (if \<not> s3_logger s then (Inl AssertionError, s)
      else andthen_st (s3_process_event event (case s3_import_dry_run s of None \<Rightarrow> False | Some b \<Rightarrow> b) s) (\<lambda>_ s. (Inr (), s)))"

definition s3_import_completed :: "'w s3_ops \<Rightarrow> nat list \<Rightarrow> 'w s3_driver \<Rightarrow> unit res \<times> 'w s3_driver" where
  "s3_import_completed ops order s = (if \<not> s3_logger s then (Inl AssertionError, s) else s3_flush ops order s)"

text \<open>The run of the importer over this driver as its handler is the argument \<open>run\<close>.\<close>

definition s3_run_import ::
    "'w s3_ops \<Rightarrow> environment \<Rightarrow> bool \<Rightarrow> bool \<Rightarrow> string \<Rightarrow> ('w s3_driver \<Rightarrow> (s3_error + unit) \<times> 'w s3_driver) \<Rightarrow> 'w s3_driver
      \<Rightarrow> (s3_error + unit) \<times> 'w s3_driver" where
  "s3_run_import ops environ schema_only dry_run url run s =
     (if schema_only then (Inr (), s)
      else andthen_st (s3_connect ops environ url (s\<lparr>s3_logger := True, s3_import_dry_run := Some dry_run\<rparr>)) (\<lambda>_. run))"

section \<open>Slashes\<close>

text \<open>A run of slashes becomes one.\<close>

fun squeeze :: "string \<Rightarrow> string" where
  "squeeze (c # d # s) = (if c = CHR ''/'' \<and> d = CHR ''/'' then squeeze (d # s) else c # squeeze (d # s))"
| "squeeze s = s"

lemma squeeze_slash: "squeeze (CHR ''/'' # s) = CHR ''/'' # (if starts (CHR ''/'') s then tl (squeeze s) else squeeze s)"
proof (induction s)
  case (Cons c s)
  then show ?case by (cases s) (auto simp: starts_def)
qed (simp add: starts_def)

lemma starts_Cons: "starts c (d # s) \<longleftrightarrow> d = c"
  by (simp add: starts_def)

lemma squeeze_other: "c \<noteq> CHR ''/'' \<Longrightarrow> squeeze (c # s) = c # squeeze s"
  by (cases s) auto

lemma starts_replace [simp]: "starts c (replace_slashes s) = starts c s"
  by (cases s rule: replace_slashes.cases) (auto simp: starts_def)

lemma squeeze_replace: "squeeze (replace_slashes s) = squeeze s"
proof (induction s rule: replace_slashes.induct)
  case (1 c d s)
  show ?case
  proof (cases "c = CHR ''/''")
    case True
    show ?thesis
    proof (cases "d = CHR ''/''")
      case True
      with \<open>c = CHR ''/''\<close> 1 show ?thesis by (simp add: squeeze_slash starts_Cons)
    next
      case False
      then have "\<not> starts (CHR ''/'') (replace_slashes (d # s))" by (simp add: starts_Cons)
      with False \<open>c = CHR ''/''\<close> 1 show ?thesis by (simp add: squeeze_slash starts_Cons)
    qed
  next
    case False
    with 1 show ?thesis by (simp add: squeeze_other)
  qed
qed auto

lemma squeeze_id: "\<not> sublist ''//'' s \<Longrightarrow> squeeze s = s"
  by (induction s rule: squeeze.induct) (auto simp: sublist_Cons_right)

lemma squeeze_single: "\<not> sublist ''//'' (squeeze s)"
proof (induction s rule: squeeze.induct)
  case (1 c d s)
  then show ?case
    by (cases "c = CHR ''/''"; cases "d = CHR ''/''") (auto simp: sublist_Cons_right squeeze_other split: if_splits)
qed (auto simp: sublist_Cons_right)

lemma collapse_squeeze: "collapse_slashes s = squeeze s"
proof (induction s rule: collapse_slashes.induct)
  case (1 s)
  then show ?case by (subst collapse_slashes.simps) (simp add: squeeze_replace squeeze_id)
qed

text \<open>The loop of \<open>_path_join\<close> ends, and what it leaves is the joined text with every run of slashes made one.\<close>

theorem s3_path_join_squeeze:
  "s3_path_join parts = squeeze (join ''/'' (filter (\<lambda>p. p \<noteq> []) parts)) \<and> \<not> sublist ''//'' (s3_path_join parts)"
  by (simp add: s3_path_join_def collapse_squeeze squeeze_single)

section \<open>Uploads\<close>

definition object_of :: "string \<Rightarrow> string \<times> db_change_event \<Rightarrow> s3_object" where
  "object_of bucket job = (bucket, fst job, stringify (PStruct (event_struct (snd job))))"

text \<open>What the bucket holds under a key: the last object that was stored there.\<close>

definition s3_content :: "'w s3_driver \<Rightarrow> string \<times> string \<Rightarrow> string option" where
  "s3_content s = map_of (rev (map (\<lambda>(b, k, v). ((b, k), v)) (s3_stored s)))"

lemma s3_upload_state:
  assumes "s3_upload ops job s = (es, s')"
  shows "s3_pending s' = s3_pending s" "s3_bucket s' = s3_bucket s" "s3_client s' = s3_client s"
    "s3_stored s' = s3_stored s @ (if es = [] then [object_of (s3_bucket s) job] else [])"
  using assms by (auto simp: s3_upload_def object_of_def Let_def split: if_splits prod.splits sum.splits)

lemma s3_uploads_state:
  "s3_uploads ops jobs s = (es, s') \<Longrightarrow> s3_pending s' = s3_pending s
    \<and> (\<exists>done. s3_stored s' = s3_stored s @ map (object_of (s3_bucket s)) done \<and> subseq done jobs \<and> (es = [] \<longleftrightarrow> done = jobs))"
proof (induction jobs arbitrary: s es s')
  case Nil
  then show ?case by simp
next
  case (Cons job jobs)
  obtain es1 s1 where u: "s3_upload ops job s = (es1, s1)" by force
  obtain es2 s2 where us: "s3_uploads ops jobs s1 = (es2, s2)" by force
  from Cons.prems u us have e: "es = es1 @ es2" "s' = s2" by auto
  from Cons.IH [OF us] s3_upload_state [OF u] obtain dn where d: "s3_pending s2 = s3_pending s"
    "s3_stored s2 = s3_stored s @ (if es1 = [] then [object_of (s3_bucket s) job] else []) @ map (object_of (s3_bucket s)) dn"
    "subseq dn jobs" "es2 = [] \<longleftrightarrow> dn = jobs" by auto
  show ?case
  proof (cases "es1 = []")
    case True
    with d e show ?thesis by (intro conjI exI [of _ "job # dn"]) auto
  next
    case False
    have "dn \<noteq> job # jobs" using list_emb_length [OF d(3)] by auto
    with False d e show ?thesis by (intro conjI exI [of _ dn]) auto
  qed
qed

lemma subseq_mset: "subseq xs ys \<Longrightarrow> mset xs \<subseteq># mset ys"
  by (induction rule: list_emb.induct) (auto intro: subset_mset.order_trans)

lemma uploads_succeed:
  assumes "\<forall>b k v w. \<exists>w'. s3_put_object ops b k v w = (Inr (), w')" "s3_client s" "s3_uploads ops jobs s = (es, s')"
  shows "es = []" "s3_stored s' = s3_stored s @ map (object_of (s3_bucket s)) jobs"
proof -
  have "es = [] \<and> s3_stored s' = s3_stored s @ map (object_of (s3_bucket s)) jobs"
    using assms(2,3)
  proof (induction jobs arbitrary: s es)
    case (Cons job jobs)
    obtain es1 s1 where u: "s3_upload ops job s = (es1, s1)" by force
    have "es1 = []" using u assms(1) Cons.prems(1) by (auto simp: s3_upload_def Let_def split: prod.splits sum.splits) (metis Inl_Inr_False prod.inject)
    with Cons s3_upload_state [OF u] u show ?case by (auto split: prod.splits)
  qed simp
  then show "es = []" "s3_stored s' = s3_stored s @ map (object_of (s3_bucket s)) jobs" by blast+
qed

lemma mset_order: "pool_order k (length jobs) order \<Longrightarrow> mset (map ((!) jobs) order) = mset jobs"
proof -
  assume "pool_order k (length jobs) order"
  then have "mset order = mset [0..<length jobs]" by (intro set_eq_iff_mset_eq_distinct [THEN iffD1]) (auto simp: pool_order_def)
  then have "mset (map ((!) jobs) order) = mset (map ((!) jobs) [0..<length jobs])" by (simp add: mset_map)
  then show ?thesis by (simp add: map_nth)
qed

text \<open>One thread takes the jobs in order.\<close>

lemma single_order: "pool_order 1 n order \<Longrightarrow> order = [0..<n]"
proof -
  assume o: "pool_order 1 n order"
  then have len: "length order = n" by (metis card_atLeastLessThan diff_zero distinct_card pool_order_def)
  have "order ! p = p" if "p < n" for p
    using that
  proof (induction p rule: less_induct)
    case (less p)
    have le: "order ! p \<le> p" using o less.prems by (auto simp: pool_order_def)
    moreover have "order ! p \<noteq> q" if "q < p" for q
    proof -
      have "order ! q = q" using less that by simp
      moreover have "order ! p \<noteq> order ! q" using o that less.prems len by (auto simp: pool_order_def nth_eq_iff_index_eq)
      ultimately show ?thesis by simp
    qed
    ultimately show ?case using le_neq_implies_less by blast
  qed
  then show ?thesis using len by (intro nth_equalityI) auto
qed

lemma s3_flush_state:
  assumes "s3_flush ops order s = (r, s')"
  shows "s3_pending s' = [] \<and> (\<exists>done. s3_stored s' = s3_stored s @ map (object_of (s3_bucket s)) done
    \<and> (s3_pending s \<noteq> [] \<longrightarrow> subseq done (map ((!) (s3_pending s)) order) \<and> (r = Inr () \<longleftrightarrow> done = map ((!) (s3_pending s)) order))
    \<and> (s3_pending s = [] \<longrightarrow> done = [] \<and> r = Inr ()))"
proof (cases "s3_pending s = []")
  case True
  with assms show ?thesis by (auto simp: s3_flush_def)
next
  case False
  obtain es s2 where u: "s3_uploads ops (map ((!) (s3_pending s)) order) (s\<lparr>s3_pending := []\<rparr>) = (es, s2)" by force
  have "s' = s2 \<and> (r = Inr () \<longleftrightarrow> es = [])"
    using False assms u by (auto simp: s3_flush_def Let_def split: list.splits)
  with False s3_uploads_state [OF u] show ?thesis by auto
qed

lemma content_stored:
  assumes "s3_stored s' = s3_stored s @ map (object_of b) jobs" "distinct (map fst jobs)" "job \<in> set jobs"
  shows "s3_content s' (b, fst job) = Some (snd (snd (object_of b job)))"
proof -
  let ?e = "\<lambda>job. ((b, fst job), snd (snd (object_of b job)))"
  have "(\<lambda>(b, k, v). ((b, k), v)) (object_of b j) = ?e j" for j by (simp add: object_of_def)
  then have "s3_content s' = map_of (rev (map ?e jobs) @ rev (map (\<lambda>(b, k, v). ((b, k), v)) (s3_stored s)))"
    using assms(1) by (simp add: s3_content_def comp_def)
  moreover have "map_of (rev (map ?e jobs)) (b, fst job) = Some (snd (snd (object_of b job)))"
  proof (rule map_of_is_SomeI)
    have "distinct (map (Pair b) (map fst jobs))" using assms(2) by (simp add: distinct_map inj_on_def)
    then show "distinct (map fst (rev (map ?e jobs)))" by (simp add: comp_def rev_map [symmetric])
    show "((b, fst job), snd (snd (object_of b job))) \<in> set (rev (map ?e jobs))" using assms(3) by auto
  qed
  ultimately show ?thesis by (simp add: map_add_def)
qed

interpretation s3s: sink s3_process "\<lambda>s. s3_flush ops (ord s) s" s3_pending "\<lambda>s. True" for ops ord
proof unfold_locales
  fix s s' :: "'a s3_driver" and i b u e
  show "\<exists>x. s3_pending s' = s3_pending s @ [x]" if "s3_process i s = (Inr b, s')"
    using that by (auto simp: s3_process_def s3_process_event_def split: prod.splits sum.splits)
  show "s3_pending s' = s3_pending s" if "s3_process i s = (Inl e, s')"
    using that by (auto simp: s3_process_def s3_process_event_def split: prod.splits sum.splits)
  show "s3_pending s' = []" if "s3_flush ops (ord s) s = (Inr u, s')"
    using s3_flush_state [OF that] by simp
  show "s3_pending s' \<in> {[], s3_pending s}" if "s3_flush ops (ord s) s = (Inl e, s')"
    using s3_flush_state [OF that] by simp
qed simp_all

section \<open>Properties\<close>

text \<open>C29: what an S3 flush stores, under every order in which its threads may finish. The buffer is empty afterwards in any
  case. It returns normally if and only if every buffered object was stored, each once; with one upload task they are
  stored in the order of the events; and if their keys are distinct the bucket then holds them all.\<close>

theorem s3_flush_outcome:
  assumes "s3_flush ops order s = (r, s')" "pool_order (s3_upload_tasks s) (length (s3_pending s)) order"
  shows "s3_pending s' = [] \<and> (\<exists>new. s3_stored s' = s3_stored s @ new
    \<and> mset new \<subseteq># mset (map (object_of (s3_bucket s)) (s3_pending s))
    \<and> (r = Inr () \<longleftrightarrow> mset new = mset (map (object_of (s3_bucket s)) (s3_pending s)))
    \<and> (r = Inr () \<and> s3_upload_tasks s = 1 \<longrightarrow> new = map (object_of (s3_bucket s)) (s3_pending s)))
    \<and> (r = Inr () \<and> distinct (map fst (s3_pending s))
       \<longrightarrow> (\<forall>job \<in> set (s3_pending s). s3_content s' (s3_bucket s, fst job) = Some (snd (snd (object_of (s3_bucket s) job)))))"
proof -
  let ?b = "s3_bucket s" and ?P = "s3_pending s"
  let ?js = "map ((!) ?P) order"
  have m: "mset ?js = mset ?P" by (rule mset_order [OF assms(2)])
  then have e: "?P = [] \<longleftrightarrow> ?js = []" by (metis mset_zero_iff)
  from s3_flush_state [OF assms(1)] obtain dn where d: "s3_pending s' = []" "s3_stored s' = s3_stored s @ map (object_of ?b) dn"
    "subseq dn ?js" "r = Inr () \<longleftrightarrow> dn = ?js" using e by (cases "?P = []") auto
  have sub: "mset dn \<subseteq># mset ?P" using subseq_mset [OF d(3)] m by simp
  have full: "dn = ?js" if "mset (map (object_of ?b) dn) = mset (map (object_of ?b) ?P)"
  proof -
    have "length dn = length ?js" using m that by (metis length_map size_mset)
    then show ?thesis using d(3) subseq_same_length by blast
  qed
  have one: "?js = ?P" if "s3_upload_tasks s = 1"
    using single_order [of "length ?P" order] assms(2) that by (simp add: map_nth)
  have content: "s3_content s' (?b, fst job) = Some (snd (snd (object_of ?b job)))"
    if "r = Inr ()" "distinct (map fst ?P)" "job \<in> set ?P" for job
  proof -
    have "distinct (map fst ?js)" using that(2) m by (metis distinct_map mset_eq_imp_distinct_iff mset_map)
    moreover have "job \<in> set ?js" using that(3) m by (metis set_mset_mset)
    ultimately show ?thesis using content_stored [of s' s ?b ?js job] d(2,4) that(1) by simp
  qed
  show ?thesis
  proof (intro conjI exI [of _ "map (object_of ?b) dn"])
    show "mset (map (object_of ?b) dn) \<subseteq># mset (map (object_of ?b) ?P)"
      using sub by (simp add: image_mset_subseteq_mono)
    show "r = Inr () \<longleftrightarrow> mset (map (object_of ?b) dn) = mset (map (object_of ?b) ?P)"
      using d(4) full m by (metis mset_map)
    show "r = Inr () \<and> s3_upload_tasks s = 1 \<longrightarrow> map (object_of ?b) dn = map (object_of ?b) ?P"
      using d(4) one by simp
  qed (use d(1,2) content in blast)+
qed

text \<open>A store that takes everything, and two changes of a row.\<close>

definition demo_s3 :: "unit s3_ops" where
  "demo_s3 = \<lparr>s3_new_client = \<lambda>c w. (Inr (), w), s3_put_object = \<lambda>b k v w. (Inr (), w)\<rparr>"

definition demo_event :: "string \<Rightarrow> int \<Rightarrow> db_change_event" where
  "demo_event i ts = \<lparr>ev_operation = ''UPDATE'', ev_id = i, ev_table = ''orders'', ev_key = Some [''k''], ev_model_version = [],
     ev_company_id = None, ev_location_id = None, ev_user_id = None, ev_before = None, ev_after = None, ev_diff = None,
     ev_timestamp = ts, ev_mvcc_timestamp = [], ev_imported = False, ev_nats_msg = None, ev_schema_validated_path = None,
     ev_object = None\<rparr>"

theorem s3_flush_outcome_witness:
  "\<exists>s'. s3_flush demo_s3 [1, 0] ((new_s3 ())\<lparr>s3_client := True, s3_pending := [(''a'', demo_event ''1'' 0), (''b'', demo_event ''2'' 0)]\<rparr>)
      = (Inr (), s') \<and> s3_pending s' = [] \<and> length (s3_stored s') = 2"
proof -
  let ?s = "(new_s3 ())\<lparr>s3_client := True, s3_pending := [(''a'', demo_event ''1'' 0), (''b'', demo_event ''2'' 0)]\<rparr>"
  have o: "pool_order (s3_upload_tasks ?s) (length (s3_pending ?s)) [1, 0]"
    by (auto simp: pool_order_def new_s3_def DEFAULT_UPLOAD_TASKS_def less_Suc_eq)
  obtain s' where f: "s3_flush demo_s3 [1, 0] ?s = (Inr (), s')"
    by (simp add: s3_flush_def s3_upload_def demo_s3_def new_s3_def Let_def)
  have "s3_stored ?s = []" by (simp add: new_s3_def)
  with s3_flush_outcome [OF f o] obtain new where "s3_pending s' = []" "s3_stored s' = new"
    "mset new = mset (map (object_of (s3_bucket ?s)) (s3_pending ?s))" by auto
  moreover from this(3) have "length new = 2" by (drule_tac arg_cong [where f = size]) simp
  ultimately show ?thesis using f by auto
qed

lemma primary_key_fields:
  "get_primary_key e = (r, e') \<Longrightarrow> ev_table e' = ev_table e \<and> ev_timestamp e' = ev_timestamp e"
  by (auto simp: get_primary_key_def get_object_def parse_object_def elim!: andthen_st_cases
      split: option.splits list.splits if_splits pyval.splits)

text \<open>Two changes of a row within one second race. They have the same key; with two upload tasks or more both orders
  of their uploads are possible, the flush returns normally under both, and under one of them the bucket is left
  with the older change.\<close>

theorem s3_flush_race:
  assumes "get_primary_key e1 = (Inr pk, e1')" "get_primary_key e2 = (Inr pk, e2')" "ev_table e1 = ev_table e2"
    "ev_timestamp e1 div 1000 = ev_timestamp e2 div 1000" "ev_schema_validated_path e1 = None" "ev_schema_validated_path e2 = None"
    "2 \<le> s3_upload_tasks s" "s3_client s" "s3_pending s = []" "\<forall>b k v w. \<exists>w'. s3_put_object ops b k v w = (Inr (), w')"
  shows "\<exists>s1 s2 key. s3_process e1 s = (Inr False, s1) \<and> s3_process e2 s1 = (Inr False, s2)
    \<and> pool_order (s3_upload_tasks s2) (length (s3_pending s2)) [0, 1] \<and> pool_order (s3_upload_tasks s2) (length (s3_pending s2)) [1, 0]
    \<and> (\<exists>s'. s3_flush ops [0, 1] s2 = (Inr (), s') \<and> s3_content s' (s3_bucket s, key) = Some (stringify (PStruct (event_struct e2'))))
    \<and> (\<exists>s'. s3_flush ops [1, 0] s2 = (Inr (), s') \<and> s3_content s' (s3_bucket s, key) = Some (stringify (PStruct (event_struct e1'))))"
proof -
  let ?key = "s3_path_join [s3_prefix s, ev_table e1, str_int (ev_timestamp e1 div 1000) @ ''-'' @ pk @ ''.json'']"
  let ?s2 = "s\<lparr>s3_pending := [(?key, e1'), (?key, e2')]\<rparr>"
  note f = primary_key_fields [OF assms(1)] primary_key_fields [OF assms(2)]
  have k: "object_key (s3_prefix s) e1 = (Inr ?key, e1')" "object_key (s3_prefix s) e2 = (Inr ?key, e2')"
    using assms(1-6) f by (simp_all add: object_key_def)
  have p: "s3_process e1 s = (Inr False, s\<lparr>s3_pending := [(?key, e1')]\<rparr>)"
    "s3_process e2 (s\<lparr>s3_pending := [(?key, e1')]\<rparr>) = (Inr False, ?s2)"
    using k assms(9) by (simp_all add: s3_process_def s3_process_event_def)
  have fl: "\<exists>s'. s3_flush ops [i, j] ?s2 = (Inr (), s')
      \<and> s3_content s' (s3_bucket s, ?key) = Some (stringify (PStruct (event_struct (snd (s3_pending ?s2 ! j)))))"
    if "(i, j) = (0, 1) \<or> (i, j) = (1, 0)" for i j
  proof -
    obtain es s' where u: "s3_uploads ops (map ((!) (s3_pending ?s2)) [i, j]) (?s2\<lparr>s3_pending := []\<rparr>) = (es, s')" by force
    have "es = []" and st: "s3_stored s' = s3_stored s @ map (object_of (s3_bucket s)) (map ((!) (s3_pending ?s2)) [i, j])"
      using uploads_succeed [OF assms(10) _ u] assms(8) by simp_all
    then have "s3_flush ops [i, j] ?s2 = (Inr (), s')" using u by (simp add: s3_flush_def Let_def)
    moreover have "fst (s3_pending ?s2 ! j) = ?key" using that by auto
    then have "s3_content s' (s3_bucket s, ?key) = Some (stringify (PStruct (event_struct (snd (s3_pending ?s2 ! j)))))"
      using st by (simp add: s3_content_def object_of_def)
    ultimately show ?thesis by blast
  qed
  have o: "pool_order (s3_upload_tasks ?s2) (length (s3_pending ?s2)) [0, 1]" "pool_order (s3_upload_tasks ?s2) (length (s3_pending ?s2)) [1, 0]"
    using assms(7) by (auto simp: pool_order_def less_Suc_eq)
  show ?thesis using p o fl [of 0 1] fl [of 1 0] by (intro exI [of _ "s\<lparr>s3_pending := [(?key, e1')]\<rparr>"] exI [of _ ?s2] exI [of _ ?key]) simp
qed

theorem s3_flush_race_witness:
  "\<exists>s1 s2 key s'. s3_process (demo_event ''1'' 1700000000100) ((new_s3 ())\<lparr>s3_client := True\<rparr>) = (Inr False, s1)
    \<and> s3_process (demo_event ''2'' 1700000000900) s1 = (Inr False, s2) \<and> pool_order (s3_upload_tasks s2) (length (s3_pending s2)) [1, 0]
    \<and> s3_flush demo_s3 [1, 0] s2 = (Inr (), s')
    \<and> s3_content s' ([], key) = Some (stringify (PStruct (event_struct (demo_event ''1'' 1700000000100))))"
proof -
  have pk: "get_primary_key (demo_event i ts) = (Inr ''k'', demo_event i ts)" for i ts
    by (simp add: get_primary_key_def demo_event_def)
  have d: "ev_table (demo_event i ts) = ''orders''" "ev_timestamp (demo_event i ts) = ts" "ev_schema_validated_path (demo_event i ts) = None" for i ts
    by (simp_all add: demo_event_def)
  have n: "s3_bucket (new_s3 ()) = []" "s3_pending (new_s3 ()) = []" "2 \<le> s3_upload_tasks (new_s3 ())"
    by (simp_all add: new_s3_def DEFAULT_UPLOAD_TASKS_def)
  have "\<forall>b k v w. \<exists>w'. s3_put_object demo_s3 b k v w = (Inr (), w')" by (simp add: demo_s3_def)
  with s3_flush_race [OF pk [of "''1''" 1700000000100] pk [of "''2''" 1700000000900], of "(new_s3 ())\<lparr>s3_client := True\<rparr>" demo_s3]
  show ?thesis by (simp add: d n) blast
qed

section \<open>Configured buckets\<close>

text \<open>The optional values, as read from the configuration.\<close>

definition s3_opt :: "string \<Rightarrow> pydict \<Rightarrow> string" where
  "s3_opt name values = get_optional_string_value name [] values"

definition s3_query :: "pydict \<Rightarrow> url_values" where
  "s3_query values =
     (if s3_opt ''Region'' values = [] then [] else [(''region'', [s3_opt ''Region'' values])])
     @ (if s3_opt ''Access Key ID'' values = [] then [] else [(''access-key-id'', [s3_opt ''Access Key ID'' values])])
     @ (if s3_opt ''Secret Access Key'' values = [] then [] else [(''secret-access-key'', [s3_opt ''Secret Access Key'' values])])"

definition aws_configured :: "pydict \<Rightarrow> string \<Rightarrow> bool" where
  "aws_configured values bucket \<longleftrightarrow> get_required_string_value ''Bucket'' values = (bucket, None) \<and> bucket \<noteq> []
     \<and> kept EncodeHost bucket \<and> CHR '':'' \<notin> set bucket \<and> \<not> starts (CHR ''['') bucket \<and> get_cloud_provider bucket = AWS
     \<and> s3_opt ''Endpoint'' values = [] \<and> \<not> starts (CHR ''/'') (s3_opt ''Prefix'' values)
     \<and> list_all (\<lambda>n. utf8_ok (s3_opt n values)) [''Prefix'', ''Region'', ''Access Key ID'', ''Secret Access Key'']"

definition slashed :: "string \<Rightarrow> string" where
  "slashed p = (if p = [] then [] else CHR ''/'' # p)"

lemma s3_query_ok: "aws_configured values bucket \<Longrightarrow> values_ok (s3_query values)"
  by (auto simp: aws_configured_def s3_query_def values_ok_def)

lemma s3_url_eq:
  assumes "aws_configured values bucket"
  shows "s3_url values = empty_url\<lparr>u_scheme := ''s3'', u_host := bucket, u_path := s3_opt ''Prefix'' values,
    u_raw_query := values_encode (s3_query values)\<rparr>"
  using assms by (auto simp: aws_configured_def s3_url_def s3_opt_def s3_query_def values_set_def Let_def empty_url_def)

lemma escape_slash: "escape_byte EncodePath (CHR ''/'') = ''/''"
  by code_simp

lemma escape_nonempty: "escape p m = [] \<longleftrightarrow> p = []"
  by (cases p) (auto simp: escape_def escape_byte_def pct_def)

lemma escape_slashed: "escape (slashed p) EncodePath = slashed (escape p EncodePath)"
  using escape_nonempty [of p EncodePath] by (auto simp: slashed_def escape_def escape_slash)

lemma starts_escape: "starts (CHR ''/'') (escape p EncodePath) \<longleftrightarrow> starts (CHR ''/'') p"
proof (cases p)
  case (Cons c t)
  then show ?thesis
  proof (cases "c = CHR ''/''")
    case True
    with Cons show ?thesis by (simp add: escape_def escape_slash starts_def)
  next
    case False
    have "\<not> starts (CHR ''/'') (escape_byte EncodePath c @ r)" for r
      using False by (auto simp: escape_byte_def pct_def starts_def)
    with Cons False show ?thesis by (simp add: escape_def starts_Cons)
  qed
qed (simp add: escape_def)

lemma s3_url_text:
  assumes "aws_configured values bucket"
  defines "p \<equiv> s3_opt ''Prefix'' values" and "q \<equiv> values_encode (s3_query values)"
  shows "\<exists>url. url_str (s3_url values) = Inr url
    \<and> url_parse url = Inr (mk_url ''s3'' None bucket (slashed p) (slashed (escape p EncodePath)) q)"
proof -
  let ?r = "slashed (escape p EncodePath)"
  have b: "host_ok bucket" "kept EncodeHost bucket" using assms(1) host_ok_plain(1) [of bucket "[]"] by (auto simp: aws_configured_def)
  have "utf8_ok (slashed p)" using assms(1) utf8_append [of "''/''" p] by (auto simp: p_def aws_configured_def slashed_def)
  then have u: "unescape ?r EncodePath = Inr (slashed p)" using unescape_escape [of "slashed p" EncodePath] by (simp add: escape_slashed)
  have c: "clean ?r" "CHR ''?'' \<notin> set ?r" "clean q"
    using escape_no_ctl [of "slashed p" EncodePath] notin_escape [of "CHR ''#''" EncodePath "slashed p"] notin_escape [of "CHR ''?''" EncodePath "slashed p"]
    by (auto simp: clean_def escape_slashed q_def values_encode_clean [unfolded clean_def])
  have a: "authority_ok None bucket" "bucket \<noteq> []" using b assms(1) by (auto simp: authority_ok_def aws_configured_def)
  have t: "authority_text None bucket = bucket" using b by (simp add: authority_text_def kept_escape)
  note m = mk_url_text [of "''s3''", OF _ _ a(1) _ _ u c]
  have "url_str (s3_url values) = Inr (''s3://'' @ bucket @ ?r @ query_text False q)"
    using a(2) b(2) starts_escape [of p] assms(1)
    by (auto simp: s3_url_eq [OF assms(1)] url_str_def hier_str_def escaped_path_def escaped_part_def authority_str_def empty_url_def
        p_def [symmetric] q_def [symmetric] slashed_def query_text_def kept_escape aws_configured_def escape_nonempty)
  moreover have "url_parse (''s3://'' @ bucket @ ?r @ query_text False q) = Inr (mk_url ''s3'' None bucket (slashed p) ?r q)"
    using m(3) a(2) t by (simp add: scheme_ok_def scheme_char_def char_class_defs slashed_def starts_def split: if_splits)
  ultimately show ?thesis by blast
qed

definition or_else :: "string \<Rightarrow> string \<Rightarrow> string" where
  "or_else v d = (if v = [] then d else v)"

definition env_str :: "environment \<Rightarrow> string \<Rightarrow> string" where
  "env_str environ k = (case environ k of Some v \<Rightarrow> v | None \<Rightarrow> [])"

text \<open>The client of a configured bucket.\<close>

definition aws_client :: "environment \<Rightarrow> pydict \<Rightarrow> client_config" where
  "aws_client environ values =
     \<lparr>cc_max_attempts = 5,
      cc_access_key_id = or_else (s3_opt ''Access Key ID'' values) (env_str environ ''AWS_ACCESS_KEY_ID''),
      cc_secret_access_key = or_else (s3_opt ''Secret Access Key'' values) (env_str environ ''AWS_SECRET_ACCESS_KEY''),
      cc_session_token = env_str environ ''AWS_SESSION_TOKEN'',
      cc_region_name = or_else (s3_opt ''Region'' values)
        (or_else (env_str environ ''AWS_REGION'') (or_else (env_str environ ''AWS_DEFAULT_REGION'') ''us-west-2'')),
      cc_endpoint_url = None, cc_checksum_when_required = False\<rparr>"

lemma s3_query_client: "client_config_of environ AWS [] (s3_query values) = aws_client environ values"
  by (auto simp: client_config_of_def aws_client_def s3_resolve_max_retries_def query_or_env_def resolve_region_def values_has_def
      values_get_def s3_query_def or_else_def env_str_def split: option.splits list.splits)

lemma s3_query_tasks: "values_get ''maxBatchSize'' (s3_query values) = []" "values_get ''uploadTasks'' (s3_query values) = []"
  by (auto simp: values_get_def s3_query_def)

text \<open>What is configured is what is connected to. For a bucket of AWS, with any prefix and any credentials, the URL that the
  configuration is turned into makes the driver use that bucket, the prefix with a slash at its end, the configured
  region and keys or, where none is configured, those of the environment, and the default number of upload tasks.\<close>

theorem s3_configured:
  assumes "aws_configured values bucket"
  shows "\<exists>url. s3_validate values = Inr (url, []) \<and> s3_connect ops environ url s =
    (let s' = s\<lparr>s3_bucket := bucket, s3_prefix := add_final_slash (s3_opt ''Prefix'' values), s3_upload_tasks := 4\<rparr> in
     case s3_new_client ops (aws_client environ values) (s3_world s) of
       (Inl e, w) \<Rightarrow> (Inl (S3Exc e), s'\<lparr>s3_world := w\<rparr>)
     | (Inr _, w) \<Rightarrow> (Inr (), s'\<lparr>s3_world := w, s3_client := True\<rparr>))"
proof -
  let ?p = "s3_opt ''Prefix'' values" and ?m = "values_sorted (s3_query values)"
  from s3_url_text [OF assms] obtain url where u: "url_str (s3_url values) = Inr url"
    "url_parse url = Inr (mk_url ''s3'' None bucket (slashed ?p) (slashed (escape ?p EncodePath)) (values_encode (s3_query values)))"
    by blast
  let ?u = "mk_url ''s3'' None bucket (slashed ?p) (slashed (escape ?p EncodePath)) (values_encode (s3_query values))"
  have v: "s3_validate values = Inr (url, [])" using u(1) assms by (simp add: s3_validate_def aws_configured_def)
  have f: "u_host ?u = bucket" "u_path ?u = slashed ?p" by (simp_all add: mk_url_def)
  have q: "query ?u = Inr ?m" by (simp add: query_def mk_url_def query_encode s3_query_ok [OF assms])
  have same: "dget ?m = dget (s3_query values)" by (rule values_sorted_get [OF s3_query_ok [OF assms]])
  have c: "client_config_of environ AWS [] ?m = aws_client environ values"
    unfolding s3_query_client [symmetric]
    by (simp add: client_config_of_def s3_resolve_max_retries_def query_or_env_def resolve_region_def values_has_def values_get_def same)
  have n: "resolve_positive_int ?m ''maxBatchSize'' k = Inr k" "resolve_positive_int ?m ''uploadTasks'' k = Inr k" for k
    using s3_query_tasks [of "values"] by (simp_all add: resolve_positive_int_def values_get_def same)
  have b: "get_bucket_info bucket (slashed ?p) AWS = ([], bucket, add_final_slash ?p)"
    using assms by (simp add: get_bucket_info_def trim_leading_slash_def slashed_def starts_def aws_configured_def)
  have pr: "get_cloud_provider bucket = AWS" using assms by (simp add: aws_configured_def)
  show ?thesis
    using v by (intro exI [of _ url]) (simp add: s3_connect_def u(2) f q b pr n c DEFAULT_UPLOAD_TASKS_def Let_def)
qed

definition s3_cfg :: pydict where
  "s3_cfg = [(''Bucket'', PStr ''my-bucket''), (''Prefix'', PStr ''a b''), (''Secret Access Key'', PStr ''x/y+z='')]"

theorem s3_configured_witness:
  "\<exists>url. s3_validate s3_cfg = Inr (url, []) \<and> s3_connect demo_s3 (\<lambda>_. None) url (new_s3 ())
    = (Inr (), (new_s3 ())\<lparr>s3_bucket := ''my-bucket'', s3_prefix := ''a b/'', s3_upload_tasks := 4, s3_client := True\<rparr>)"
proof -
  have "aws_configured s3_cfg ''my-bucket''" by code_simp
  from s3_configured [OF this, of demo_s3 "\<lambda>_. None" "new_s3 ()"] show ?thesis
    by (simp add: demo_s3_def new_s3_def s3_opt_def s3_cfg_def get_optional_string_value_def value_of_def add_final_slash_def Let_def)
qed

end
