(* ===== verification/FileDriver.thy ===== *)
theory FileDriver
  imports Events ConnStr
begin

text \<open>
  \<open>eds/drivers/file/__init__.py\<close>: the driver that stores every event in a file of its own, with the parts of
  \<open>os.path\<close> (POSIX) that it uses.

  The file system is a record of operations on the world \<open>'w\<close>; \<open>fs_laws\<close> says what a write does to the contents
  of files. The theorems: which file holds which event after a run; that a configured directory is the one that
  is used; that the example URL of the driver is refused; and that a primary key with dots and slashes leaves the
  directory.
\<close>

section \<open>Paths\<close>

text \<open>\<open>posixpath.join\<close>, \<open>dirname\<close>, \<open>normpath\<close> and \<open>abspath\<close>.\<close>

definition path_add :: "string \<Rightarrow> string \<Rightarrow> string" where
  "path_add path b =
     (if starts (CHR ''/'') b then b
      else if path = [] \<or> last path = CHR ''/'' then path @ b else path @ ''/'' @ b)"

definition os_path_join :: "string \<Rightarrow> string list \<Rightarrow> string" where
  "os_path_join a ps = foldl path_add a ps"

definition os_path_dirname :: "string \<Rightarrow> string" where
  "os_path_dirname p =
     (let head = (case rpartition_at (CHR ''/'') p of (a, found, _) \<Rightarrow> if found then a @ ''/'' else []) in
      if list_all (\<lambda>c. c = CHR ''/'') head then head else rev (dropWhile (\<lambda>c. c = CHR ''/'') (rev head)))"

definition norm_step :: "bool \<Rightarrow> string list \<Rightarrow> string \<Rightarrow> string list" where
  "norm_step rooted new c =
     (if c = [] \<or> c = ''.'' then new
      else if c \<noteq> ''..'' \<or> (\<not> rooted \<and> new = []) \<or> (new \<noteq> [] \<and> last new = ''..'') then new @ [c]
      else butlast new)"

definition initial_slashes :: "string \<Rightarrow> nat" where
  "initial_slashes p = (if \<not> prefix ''/'' p then 0 else if prefix ''//'' p \<and> \<not> prefix ''///'' p then 2 else 1)"

definition os_path_normpath :: "string \<Rightarrow> string" where
  "os_path_normpath path =
     (if path = [] then ''.''
      else let n = initial_slashes path;
               new = foldl (norm_step (n > 0)) [] (split_on (CHR ''/'') path);
               res = replicate n (CHR ''/'') @ join ''/'' new
           in if res = [] then ''.'' else res)"

definition os_path_abspath :: "string \<Rightarrow> string \<Rightarrow> string" where
  "os_path_abspath cwd path = os_path_normpath (if starts (CHR ''/'') path then path else os_path_join cwd [path])"

section \<open>The driver\<close>

record 'w fs_ops =
  fs_exists :: "string \<Rightarrow> 'w \<Rightarrow> bool"
  fs_makedirs :: "string \<Rightarrow> 'w \<Rightarrow> unit res \<times> 'w"
  fs_write :: "string \<Rightarrow> string \<Rightarrow> 'w \<Rightarrow> unit res \<times> 'w"
  fs_dir_writable :: "string \<Rightarrow> 'w \<Rightarrow> (bool \<times> string) \<times> 'w"
  fs_cwd :: string

record 'w file_driver =
  fd_world :: 'w
  fd_logger :: bool
  fd_dir :: string
  fd_import_dry_run :: "bool option"

definition new_file_driver :: "'w \<Rightarrow> 'w file_driver" where
  "new_file_driver w = \<lparr>fd_world = w, fd_logger = False, fd_dir = [], fd_import_dry_run = None\<rparr>"

definition drive_letter_host :: "string \<Rightarrow> bool" where
  "drive_letter_host h = (case h of [c, d] \<Rightarrow> is_alpha c \<and> d = CHR '':'' | _ \<Rightarrow> False)"

datatype file_error = FileUrl url_error | FileExc exc

text \<open>\<open>if not exists(directory): os.makedirs(...)\<close>\<close>

definition ensure_dir :: "'w fs_ops \<Rightarrow> string \<Rightarrow> 'w \<Rightarrow> unit res \<times> 'w" where
  "ensure_dir ops d w = (if fs_exists ops d w then (Inr (), w) else fs_makedirs ops d w)"

definition get_path_from_url :: "'w fs_ops \<Rightarrow> string \<Rightarrow> 'w file_driver \<Rightarrow> (file_error + string) \<times> 'w file_driver" where
  "get_path_from_url ops url s =
     (case url_parse url of
        Inl e \<Rightarrow> (Inl (FileUrl (Wrapped ''unable to parse url: '' e)), s)
      | Inr u \<Rightarrow>
          (if \<not> drive_letter_host (u_host u) \<and> u_path u = []
           then (Inl (FileExc (ValueError ''path is required in url which should be the directory to store files'')), s)
           else let directory = os_path_abspath (fs_cwd ops) (if drive_letter_host (u_host u) then u_host u @ u_path u else u_path u) in
             case ensure_dir ops directory (fd_world s) of
               (Inl e, w) \<Rightarrow> (Inl (FileExc e), s\<lparr>fd_world := w\<rparr>)
             | (Inr _, w) \<Rightarrow> (Inr directory, s\<lparr>fd_world := w, fd_dir := directory\<rparr>)))"

definition file_start :: "'w fs_ops \<Rightarrow> string \<Rightarrow> 'w file_driver \<Rightarrow> (file_error + unit) \<times> 'w file_driver" where
  "file_start ops url s = andthen_st (get_path_from_url ops url (s\<lparr>fd_logger := True\<rparr>)) (\<lambda>_ s. (Inr (), s))"

definition get_file_name :: "string \<Rightarrow> int \<Rightarrow> string \<Rightarrow> string" where
  "get_file_name table timestamp_ms i = table @ ''/'' @ str_int (timestamp_ms div 1000) @ ''-'' @ i @ ''.json''"

definition event_path :: "string \<Rightarrow> string \<Rightarrow> int \<Rightarrow> string \<Rightarrow> string" where
  "event_path d table timestamp_ms i = os_path_join d (split_on (CHR ''/'') (get_file_name table timestamp_ms i))"

definition write_event :: "'w fs_ops \<Rightarrow> db_change_event \<Rightarrow> bool \<Rightarrow> 'w file_driver \<Rightarrow> unit res \<times> 'w file_driver" where
  "write_event ops event dry_run s =
     (case get_primary_key event of
        (Inl e, _) \<Rightarrow> (Inl e, s)
      | (Inr pk, event) \<Rightarrow>
          (let buf = stringify (PStruct (event_struct event));
               fp = event_path (fd_dir s) (ev_table event) (ev_timestamp event) pk in
           if dry_run then (Inr (), s)
           else case ensure_dir ops (os_path_dirname fp) (fd_world s) of
             (Inl e, w) \<Rightarrow> (Inl e, s\<lparr>fd_world := w\<rparr>)
           | (Inr _, w) \<Rightarrow> (case fs_write ops fp buf w of (r, w) \<Rightarrow> (r, s\<lparr>fd_world := w\<rparr>))))"

definition file_process :: "'w fs_ops \<Rightarrow> db_change_event \<Rightarrow> 'w file_driver \<Rightarrow> bool res \<times> 'w file_driver" where
  "file_process ops event s = andthen_st (write_event ops event False s) (\<lambda>_ s. (Inr False, s))"

definition file_flush :: "'w file_driver \<Rightarrow> unit res \<times> 'w file_driver" where
  "file_flush s = (Inr (), s)"

definition file_import_event :: "'w fs_ops \<Rightarrow> db_change_event \<Rightarrow> 'w file_driver \<Rightarrow> unit res \<times> 'w file_driver" where
  "file_import_event ops event s =
     (if \<not> fd_logger s then (Inl AssertionError, s)
      else write_event ops event (case fd_import_dry_run s of None \<Rightarrow> False | Some b \<Rightarrow> b) s)"

text \<open>The run of the importer over this driver as its handler is the argument \<open>run\<close>.\<close>

definition file_run_import ::
    "'w fs_ops \<Rightarrow> bool \<Rightarrow> bool \<Rightarrow> string \<Rightarrow> ('w file_driver \<Rightarrow> (file_error + unit) \<times> 'w file_driver) \<Rightarrow> 'w file_driver
      \<Rightarrow> (file_error + unit) \<times> 'w file_driver" where
  "file_run_import ops schema_only dry_run url run s =
     (if schema_only then (Inr (), s)
      else andthen_st (get_path_from_url ops url (s\<lparr>fd_logger := True\<rparr>)) (\<lambda>_ s. run (s\<lparr>fd_import_dry_run := Some dry_run\<rparr>)))"

definition file_test :: "'w fs_ops \<Rightarrow> string \<Rightarrow> 'w file_driver \<Rightarrow> (file_error + unit) \<times> 'w file_driver" where
  "file_test ops url s = andthen_st (get_path_from_url ops url s) (\<lambda>_ s. (Inr (), s))"

definition FILE_EXAMPLE_URL :: string where
  "FILE_EXAMPLE_URL = ''file://folder''"

definition file_configuration :: "driver_field list" where
  "file_configuration = [required_string_field ''Directory'' ''The directory on the server to store files'' None]"

definition file_validate :: "'w fs_ops \<Rightarrow> pydict \<Rightarrow> 'w \<Rightarrow> (string \<times> field_error list) \<times> 'w" where
  "file_validate ops values w =
     (let (directory, e) = get_required_string_value ''Directory'' values in
      if directory = ''/'' then (([], [new_field_error ''Directory'' ''cannot be the root directory'']), w)
      else let absdir = os_path_abspath (fs_cwd ops) directory;
               found = fs_exists ops absdir w;
               probe = (if found then absdir else os_path_dirname absdir) in
        case fs_dir_writable ops probe w of
          ((False, msg), w) \<Rightarrow>
            (([], [new_field_error ''Directory''
               (if found then absdir @ '' directory isn'' @ [SQ] @ ''t writable''
                else probe @ '' directory isn'' @ [SQ] @ ''t writable and directory currently does not exist: '' @ msg)]), w)
        | ((True, _), w) \<Rightarrow>
            (if e \<noteq> None then (([], opt_list e), w)
             else ((''file://'' @ map (\<lambda>c. if c = BS then CHR ''/'' else c) absdir, []), w)))"

section \<open>File names\<close>

lemma str_nat_no: "c \<in> {CHR ''-'', CHR ''/''} \<Longrightarrow> c \<notin> set (str_nat n)"
  using str_nat_digits [of n] by (auto simp: list_all_iff is_digit_def less_eq_char_def)

lemma str_int_no_slash: "CHR ''/'' \<notin> set (str_int n)"
  using str_nat_no [of "CHR ''/''"] by (simp add: str_int_def)

lemma split_first: "(c :: char) \<notin> set a \<Longrightarrow> c \<notin> set b \<Longrightarrow> a @ c # x = b @ c # y \<Longrightarrow> a = b \<and> x = y"
proof -
  assume a: "c \<notin> set a" "c \<notin> set b" "a @ c # x = b @ c # y"
  have "(a, True, x) = partition_at c (a @ c # x)" using a(1) by simp
  also have "\<dots> = partition_at c (b @ c # y)" unfolding a(3) ..
  also have "\<dots> = (b, True, y)" using a(2) by simp
  finally have "(a, True, x) = (b, True, y)" .
  then show ?thesis by simp
qed

lemma str_int_dash:
  assumes "str_int m @ CHR ''-'' # x = str_int n @ CHR ''-'' # y"
  shows "m = n \<and> x = y"
proof -
  have nd: "hd (str_nat k @ t) \<noteq> CHR ''-''" for k t
    using str_nat_no [of "CHR ''-''" k] by (cases "str_nat k") auto
  have s: "(m < 0) = (n < 0)"
    using arg_cong [OF assms, of hd] nd by (cases "m < 0"; cases "n < 0") (auto simp: str_int_def dest: sym)
  with assms have "str_nat (nat (if n < 0 then - m else m)) @ CHR ''-'' # x = str_nat (nat (if n < 0 then - n else n)) @ CHR ''-'' # y"
    by (simp add: str_int_def split: if_splits)
  from split_first [OF _ _ this] have "nat (if n < 0 then - m else m) = nat (if n < 0 then - n else n) \<and> x = y"
    by (simp add: str_nat_no)
  with s show ?thesis by (cases "n < 0") auto
qed

lemma get_file_name_inj:
  assumes "CHR ''/'' \<notin> set t" "CHR ''/'' \<notin> set t'" "get_file_name t ts i = get_file_name t' ts' i'"
  shows "t = t' \<and> ts div 1000 = ts' div 1000 \<and> i = i'"
proof -
  from assms(3) have "t @ CHR ''/'' # str_int (ts div 1000) @ ''-'' @ i @ ''.json'' = t' @ CHR ''/'' # str_int (ts' div 1000) @ ''-'' @ i' @ ''.json''"
    by (simp add: get_file_name_def)
  from split_first [OF assms(1,2) this] show ?thesis using str_int_dash [of "ts div 1000" "i @ ''.json''" "ts' div 1000" "i' @ ''.json''"] by auto
qed

section \<open>Normal paths\<close>

definition name_ok :: "string \<Rightarrow> bool" where
  "name_ok c \<longleftrightarrow> c \<noteq> [] \<and> c \<noteq> ''.'' \<and> c \<noteq> ''..'' \<and> CHR ''/'' \<notin> set c"

text \<open>The path of a list of names below the root.\<close>

definition root_path :: "string list \<Rightarrow> string" where
  "root_path cs = ''/'' @ join ''/'' cs"

lemma split_on_append: "c \<notin> set a \<Longrightarrow> split_on c (a @ c # b) = a # split_on c b"
  by (induction a) auto

lemma split_on_none: "c \<notin> set a \<Longrightarrow> split_on c a = [a]"
  by (induction a) auto

lemma split_on_join: "cs \<noteq> [] \<Longrightarrow> \<forall>a \<in> set cs. c \<notin> set a \<Longrightarrow> split_on c (join [c] cs) = cs"
  by (induction cs rule: induct_list012) (auto simp: split_on_append split_on_none)

lemma norm_names: "list_all name_ok cs \<Longrightarrow> foldl (norm_step r) new cs = new @ cs"
proof (induction cs arbitrary: new)
  case (Cons c cs)
  then have "norm_step r new c = new @ [c]" by (auto simp: norm_step_def name_ok_def)
  with Cons show ?case by simp
qed simp

lemma norm_up: "list_all name_ok cs \<Longrightarrow> foldl (norm_step True) cs (replicate (length cs + k) ''..'') = []"
proof (induction cs rule: rev_induct)
  case Nil
  have "foldl (norm_step True) [] (replicate k ''..'') = []" by (induction k) (simp_all add: norm_step_def)
  then show ?case by simp
next
  case (snoc c cs)
  have "norm_step True (cs @ [c]) ''..'' = cs" using snoc.prems by (simp add: norm_step_def name_ok_def)
  with snoc show ?case by simp
qed

lemma norm_climb:
  assumes "list_all name_ok as" "list_all name_ok bs"
  shows "foldl (norm_step True) [] (as @ replicate (length as) ''..'' @ bs) = bs"
  using norm_names [OF assms(1), of True "[]"] norm_names [OF assms(2), of True "[]"] norm_up [OF assms(1), of 0] by simp

lemma split_root: "cs \<noteq> [] \<Longrightarrow> list_all name_ok cs \<Longrightarrow> split_on (CHR ''/'') (root_path cs) = [] # cs"
  using split_on_join [of cs "CHR ''/''"] by (simp add: root_path_def list_all_iff name_ok_def)

lemma root_initial_gen: "cs \<noteq> [] \<Longrightarrow> \<forall>c \<in> set cs. c \<noteq> [] \<and> CHR ''/'' \<notin> set c \<Longrightarrow> initial_slashes (root_path cs) = 1"
proof -
  assume "cs \<noteq> []" "\<forall>c \<in> set cs. c \<noteq> [] \<and> CHR ''/'' \<notin> set c"
  then obtain c d cs' where c: "cs = (c # d) # cs'" "c \<noteq> CHR ''/''" by (cases cs; cases "hd cs") auto
  then obtain t where "join ''/'' cs = c # t" by (cases cs') auto
  with c(2) show ?thesis by (simp add: initial_slashes_def root_path_def)
qed

lemma root_initial: "cs \<noteq> [] \<Longrightarrow> list_all name_ok cs \<Longrightarrow> initial_slashes (root_path cs) = 1"
  by (rule root_initial_gen) (auto simp: list_all_iff name_ok_def)

lemma normpath_eval:
  assumes "split_on (CHR ''/'') p = [] # xs" "foldl (norm_step True) [] xs = ns" "initial_slashes p = 1"
  shows "os_path_normpath p = root_path ns"
proof -
  have "norm_step True [] [] = []" by (simp add: norm_step_def)
  moreover have "p \<noteq> []" using assms(3) by (auto simp: initial_slashes_def)
  ultimately show ?thesis using assms by (simp add: os_path_normpath_def Let_def root_path_def)
qed

lemma normpath_root: "cs \<noteq> [] \<Longrightarrow> list_all name_ok cs \<Longrightarrow> os_path_normpath (root_path cs) = root_path cs"
  using norm_names [of cs True "[]"] normpath_eval [OF split_root _ root_initial] by simp

text \<open>The components below a directory are added one by one.\<close>

lemma join_snoc: "cs \<noteq> [] \<Longrightarrow> join sep (cs @ [c]) = join sep cs @ sep @ c"
  by (induction cs rule: induct_list012) auto

lemma last_name: "CHR ''/'' \<notin> set c \<Longrightarrow> c \<noteq> [] \<Longrightarrow> last c \<noteq> CHR ''/''"
  by (metis last_in_set)

lemma join_last: "cs \<noteq> [] \<Longrightarrow> last cs \<noteq> [] \<Longrightarrow> last (join sep cs) = last (last cs) \<and> join sep cs \<noteq> []"
proof -
  assume "cs \<noteq> []" "last cs \<noteq> []"
  then obtain ds c where "cs = ds @ [c]" "c \<noteq> []" by (metis append_butlast_last_id)
  then show ?thesis by (cases "ds = []") (auto simp: join_snoc)
qed

lemma path_add_root:
  assumes "cs \<noteq> []" "last cs \<noteq> []" "CHR ''/'' \<notin> set (last cs)" "CHR ''/'' \<notin> set c"
  shows "path_add (root_path cs) c = root_path (cs @ [c])"
  using assms join_last [OF assms(1,2), of "''/''"] last_name [of "last cs"]
  by (cases c) (auto simp: path_add_def root_path_def join_snoc starts_def)

lemma os_join_root:
  assumes "cs \<noteq> []" "\<forall>c \<in> set (cs @ ds). c \<noteq> [] \<and> CHR ''/'' \<notin> set c"
  shows "os_path_join (root_path cs) ds = root_path (cs @ ds)"
  using assms
proof (induction ds arbitrary: cs)
  case (Cons d ds)
  have "path_add (root_path cs) d = root_path (cs @ [d])" using Cons.prems by (intro path_add_root) auto
  with Cons.IH [of "cs @ [d]"] Cons.prems show ?case by (simp add: os_path_join_def)
qed (simp add: os_path_join_def)

lemma event_path_root:
  assumes "cs \<noteq> []" "list_all name_ok cs" "name_ok t" "CHR ''/'' \<notin> set i"
  shows "event_path (root_path cs) t ts i = root_path (cs @ [t, str_int (ts div 1000) @ ''-'' @ i @ ''.json''])"
    "list_all name_ok (cs @ [t, str_int (ts div 1000) @ ''-'' @ i @ ''.json''])"
proof -
  let ?f = "str_int (ts div 1000) @ ''-'' @ i @ ''.json''"
  have f: "CHR ''/'' \<notin> set ?f" using assms(4) str_int_no_slash by simp
  have l: "5 < length ?f" by simp
  then have "?f \<noteq> []" "?f \<noteq> ''.''" "?f \<noteq> ''..''" by (auto dest: arg_cong [where f = length] simp del: append_assoc)
  with f have n: "name_ok ?f" by (simp add: name_ok_def)
  show "list_all name_ok (cs @ [t, ?f])" using assms(2,3) n by simp
  have "split_on (CHR ''/'') (get_file_name t ts i) = [t, ?f]"
    using assms(3) f by (simp add: get_file_name_def name_ok_def split_on_append split_on_none)
  then show "event_path (root_path cs) t ts i = root_path (cs @ [t, ?f])"
    using assms n by (simp add: event_path_def) (intro os_join_root, auto simp: name_ok_def list_all_iff)
qed

section \<open>What the directory holds\<close>

text \<open>Without links, a normal path names one file: a write that succeeds sets the contents of that file, one that fails
  may leave anything in it, and neither touches another file; making directories touches none.\<close>

definition normal :: "string \<Rightarrow> bool" where
  "normal p \<longleftrightarrow> starts (CHR ''/'') p \<and> os_path_normpath p = p"

definition fs_laws :: "'w fs_ops \<Rightarrow> ('w \<Rightarrow> string \<Rightarrow> string option) \<Rightarrow> bool" where
  "fs_laws ops rd \<longleftrightarrow>
     (\<forall>p c w w'. normal p \<longrightarrow> fs_write ops p c w = (Inr (), w') \<longrightarrow> rd w' p = Some c)
     \<and> (\<forall>p q c w r w'. normal p \<longrightarrow> normal q \<longrightarrow> q \<noteq> p \<longrightarrow> fs_write ops p c w = (r, w') \<longrightarrow> rd w' q = rd w q)
     \<and> (\<forall>d w r w' q. fs_makedirs ops d w = (r, w') \<longrightarrow> rd w' q = rd w q)"

text \<open>A run of \<open>process\<close> in which every call succeeds.\<close>

fun file_run :: "'w fs_ops \<Rightarrow> db_change_event list \<Rightarrow> 'w file_driver \<Rightarrow> 'w file_driver option" where
  "file_run ops [] s = Some s"
| "file_run ops (e # es) s = (case file_process ops e s of (Inr _, s) \<Rightarrow> file_run ops es s | (Inl _, _) \<Rightarrow> None)"

text \<open>What names the file of an event, and what is written to it.\<close>

definition event_name :: "db_change_event \<Rightarrow> (string \<times> int \<times> string) option" where
  "event_name e = (case get_primary_key e of (Inr pk, e') \<Rightarrow> Some (ev_table e', ev_timestamp e' div 1000, pk) | _ \<Rightarrow> None)"

definition event_text :: "db_change_event \<Rightarrow> string" where
  "event_text e = stringify (PStruct (event_struct (snd (get_primary_key e))))"

definition plain_name :: "string \<times> int \<times> string \<Rightarrow> bool" where
  "plain_name n = (case n of (t, _, i) \<Rightarrow> name_ok t \<and> CHR ''/'' \<notin> set i)"

definition name_path :: "string \<Rightarrow> string \<times> int \<times> string \<Rightarrow> string" where
  "name_path d n = (case n of (t, sec, i) \<Rightarrow> event_path d t (sec * 1000) i)"

definition dir_ok :: "string \<Rightarrow> bool" where
  "dir_ok d \<longleftrightarrow> (\<exists>cs. cs \<noteq> [] \<and> list_all name_ok cs \<and> d = root_path cs)"

lemma name_path_normal: "dir_ok d \<Longrightarrow> plain_name n \<Longrightarrow> normal (name_path d n)"
proof -
  assume "dir_ok d" "plain_name n"
  then obtain cs t sec i where c: "cs \<noteq> []" "list_all name_ok cs" "d = root_path cs" "n = (t, sec, i)" "name_ok t" "CHR ''/'' \<notin> set i"
    by (auto simp: dir_ok_def plain_name_def)
  note e = event_path_root [OF c(1,2,5,6), of "sec * 1000"]
  have "os_path_normpath (name_path d n) = name_path d n"
    unfolding name_path_def c(3,4) using e normpath_root by simp
  moreover have "starts (CHR ''/'') (name_path d n)" unfolding name_path_def c(3,4) using e by (simp add: root_path_def starts_def)
  ultimately show ?thesis by (simp add: normal_def)
qed

lemma root_path_inj: "cs \<noteq> [] \<Longrightarrow> ds \<noteq> [] \<Longrightarrow> list_all name_ok cs \<Longrightarrow> list_all name_ok ds \<Longrightarrow> root_path cs = root_path ds \<Longrightarrow> cs = ds"
  using split_root [of cs] split_root [of ds] by (metis list.inject)

lemma name_path_inj:
  assumes "dir_ok d" "plain_name n" "plain_name m" "name_path d n = name_path d m"
  shows "n = m"
proof -
  obtain t ts i where n: "n = (t, ts, i)" by (metis prod_cases3)
  obtain t' ts' i' where m: "m = (t', ts', i')" by (metis prod_cases3)
  from assms(1) obtain cs where cs: "cs \<noteq> []" "list_all name_ok cs" "d = root_path cs" by (auto simp: dir_ok_def)
  note e = event_path_root [OF cs(1,2), of t i "ts * 1000"] event_path_root [OF cs(1,2), of t' i' "ts' * 1000"]
  have "cs @ [t, str_int ts @ ''-'' @ i @ ''.json''] = cs @ [t', str_int ts' @ ''-'' @ i' @ ''.json'']"
    using assms(2-4) n m cs(3) e by (intro root_path_inj) (auto simp: plain_name_def name_path_def)
  with str_int_dash [of ts "i @ ''.json''" ts' "i' @ ''.json''"] n m show ?thesis by simp
qed

lemma event_path_second: "event_path d t ts i = name_path d (t, ts div 1000, i)"
  by (simp add: name_path_def event_path_def get_file_name_def)

lemma file_process_effect:
  assumes "fs_laws ops rd" "dir_ok (fd_dir s)" "event_name e = Some n" "plain_name n" "file_process ops e s = (Inr b, s')"
  shows "fd_dir s' = fd_dir s"
    "plain_name m \<Longrightarrow> rd (fd_world s') (name_path (fd_dir s) m)
      = (if m = n then Some (event_text e) else rd (fd_world s) (name_path (fd_dir s) m))"
proof -
  obtain pk e' where pk: "get_primary_key e = (Inr pk, e')" "n = (ev_table e', ev_timestamp e' div 1000, pk)"
    using assms(3) by (auto simp: event_name_def split: prod.splits sum.splits)
  let ?fp = "name_path (fd_dir s) n"
  from assms(5) pk obtain w w' where w: "ensure_dir ops (os_path_dirname ?fp) (fd_world s) = (Inr (), w)"
    "fs_write ops ?fp (event_text e) w = (Inr (), w')" "s' = s\<lparr>fd_world := w'\<rparr>"
    by (auto simp: file_process_def write_event_def event_path_second event_text_def Let_def elim!: andthen_st_cases
        split: prod.splits sum.splits)
  then show "fd_dir s' = fd_dir s" by simp
  have "rd w q = rd (fd_world s) q" for q
    using w(1) assms(1) unfolding fs_laws_def ensure_dir_def by (auto split: if_splits)
  moreover have "rd w' ?fp = Some (event_text e)"
    using w(2) assms(1) name_path_normal [OF assms(2,4)] unfolding fs_laws_def by blast
  moreover have "rd w' (name_path (fd_dir s) m) = rd w (name_path (fd_dir s) m)" if "plain_name m" "m \<noteq> n"
  proof -
    have "name_path (fd_dir s) m \<noteq> ?fp" using name_path_inj [OF assms(2) that(1) assms(4)] that(2) by blast
    with w(2) assms(1) name_path_normal [OF assms(2)] assms(4) that(1) show ?thesis unfolding fs_laws_def by blast
  qed
  ultimately show "plain_name m \<Longrightarrow> rd (fd_world s') (name_path (fd_dir s) m)
      = (if m = n then Some (event_text e) else rd (fd_world s) (name_path (fd_dir s) m))" using w(3) by auto
qed

lemma find_snoc: "find P (xs @ [x]) = (case find P xs of None \<Rightarrow> (if P x then Some x else None) | Some y \<Rightarrow> Some y)"
  by (induction xs) auto

lemma file_run_effect:
  assumes "fs_laws ops rd" "dir_ok (fd_dir s)" "\<forall>e \<in> set es. \<exists>n. event_name e = Some n \<and> plain_name n" "file_run ops es s = Some s'" "plain_name m"
  shows "rd (fd_world s') (name_path (fd_dir s) m) =
    (case find (\<lambda>e. event_name e = Some m) (rev es) of Some e \<Rightarrow> Some (event_text e) | None \<Rightarrow> rd (fd_world s) (name_path (fd_dir s) m))"
  using assms(2-4)
proof (induction es arbitrary: s)
  case (Cons e es)
  from Cons.prems obtain b s1 where p: "file_process ops e s = (Inr b, s1)" "file_run ops es s1 = Some s'"
    by (auto split: prod.splits sum.splits)
  from Cons.prems obtain n where n: "event_name e = Some n" "plain_name n" by auto
  note eff = file_process_effect [OF assms(1) Cons.prems(1) n p(1)]
  have "find (\<lambda>e. event_name e = Some m) (rev es @ [e]) =
      (case find (\<lambda>e. event_name e = Some m) (rev es) of None \<Rightarrow> (if event_name e = Some m then Some e else None) | Some x \<Rightarrow> Some x)"
    by (rule find_snoc)
  with Cons.IH [of s1] p(2) Cons.prems eff assms(5) n show ?case by (auto split: option.splits)
qed simp

text \<open>C30: what the directory holds after a run of the file driver in which every call succeeds, for tables and keys that are plain names (no
  slash, and the table no dot directory), and a directory of such names, on a file system where a write changes the file
  at its path and no other. The file of a table, a second and a primary key holds
  the last event with these three, and what it held before if there is none. (Two changes of a row within one second
  are one file.)\<close>

theorem file_holds_last:
  assumes "fs_laws ops rd" "dir_ok (fd_dir s)" "\<forall>e \<in> set es. \<exists>n. event_name e = Some n \<and> plain_name n"
    "file_run ops es s = Some s'" "plain_name (t, sec, i)"
  shows "rd (fd_world s') (event_path (fd_dir s) t (sec * 1000) i) =
    (case find (\<lambda>e. event_name e = Some (t, sec, i)) (rev es) of
       Some e \<Rightarrow> Some (event_text e)
     | None \<Rightarrow> rd (fd_world s) (event_path (fd_dir s) t (sec * 1000) i))"
  using file_run_effect [OF assms] by (simp add: name_path_def cong: option.case_cong)

text \<open>A file system as a map, without errors.\<close>

definition demo_fs :: "(string \<Rightarrow> string option) fs_ops" where
  "demo_fs = \<lparr>fs_exists = \<lambda>p w. True, fs_makedirs = \<lambda>p w. (Inr (), w), fs_write = \<lambda>p c w. (Inr (), w(p \<mapsto> c)),
     fs_dir_writable = \<lambda>p w. ((True, []), w), fs_cwd = ''/''\<rparr>"

definition demo_row :: "string \<Rightarrow> string \<Rightarrow> int \<Rightarrow> db_change_event" where
  "demo_row k i ts = \<lparr>ev_operation = ''UPDATE'', ev_id = i, ev_table = ''orders'', ev_key = Some [k], ev_model_version = [],
     ev_company_id = None, ev_location_id = None, ev_user_id = None, ev_before = None, ev_after = None, ev_diff = None,
     ev_timestamp = ts, ev_mvcc_timestamp = [], ev_imported = False, ev_nats_msg = None, ev_schema_validated_path = None,
     ev_object = None\<rparr>"

lemma demo_laws: "fs_laws demo_fs (\<lambda>w. w)"
  by (auto simp: fs_laws_def demo_fs_def)

lemma demo_key: "get_primary_key (demo_row k i ts) = (Inr k, demo_row k i ts)"
  by (simp add: get_primary_key_def demo_row_def)

lemma demo_name: "event_name (demo_row k i ts) = Some (''orders'', ts div 1000, k)"
  by (simp add: event_name_def demo_key) (simp add: demo_row_def)

lemma demo_dir: "dir_ok ''/data''"
  unfolding dir_ok_def by (rule exI [of _ "[''data'']"]) (simp add: name_ok_def root_path_def)

theorem file_holds_last_witness:
  "\<exists>s'. file_run demo_fs [demo_row ''k'' ''1'' 1700000000100, demo_row ''k'' ''2'' 1700000000900]
       ((new_file_driver Map.empty)\<lparr>fd_dir := ''/data''\<rparr>) = Some s'
    \<and> fd_world s' (event_path ''/data'' ''orders'' 1700000000000 ''k'') = Some (event_text (demo_row ''k'' ''2'' 1700000000900))"
proof -
  let ?es = "[demo_row ''k'' ''1'' 1700000000100, demo_row ''k'' ''2'' 1700000000900]"
  let ?s = "(new_file_driver Map.empty)\<lparr>fd_dir := ''/data''\<rparr>"
  obtain s' where r: "file_run demo_fs ?es ?s = Some s'"
    by (simp add: file_process_def write_event_def demo_key ensure_dir_def demo_fs_def Let_def)
  have p: "plain_name (''orders'', 1700000000, ''k'')" by (simp add: plain_name_def name_ok_def)
  have "\<forall>e \<in> set ?es. \<exists>n. event_name e = Some n \<and> plain_name n" using p by (simp add: demo_name)
  from file_holds_last [OF demo_laws _ this r p] demo_dir have
    "fd_world s' (event_path ''/data'' ''orders'' 1700000000000 ''k'') = Some (event_text (demo_row ''k'' ''2'' 1700000000900))"
    by (simp add: demo_name)
  with r show ?thesis by blast
qed

section \<open>The directory\<close>

text \<open>The directory that is configured is the one that is used, if it can be reached and its absolute path has no character
  that a URL would change: the URL that \<open>validate\<close> returns makes the driver store its files there.\<close>

theorem file_configured:
  fixes ops :: "'w fs_ops"
  assumes "get_required_string_value ''Directory'' values = (directory, None)" "directory \<noteq> ''/''"
  defines "absdir \<equiv> os_path_abspath (fs_cwd ops) directory"
  assumes "dir_ok absdir" "unescape absdir EncodePath = Inr absdir" "clean absdir" "CHR ''?'' \<notin> set absdir" "BS \<notin> set absdir"
    "fs_exists ops absdir w" "fs_dir_writable ops absdir w = ((True, msg), w')" "fs_exists ops absdir (fd_world s)"
  shows "\<exists>url. file_validate ops values w = ((url, []), w') \<and> get_path_from_url ops url s = (Inr absdir, s\<lparr>fd_dir := absdir\<rparr>)"
proof -
  from assms(4) obtain cs where cs: "cs \<noteq> []" "list_all name_ok cs" "absdir = root_path cs" by (auto simp: dir_ok_def)
  have st: "starts (CHR ''/'') absdir" "absdir \<noteq> []" using cs(3) by (simp_all add: root_path_def starts_def)
  have ab: "os_path_abspath (fs_cwd ops) absdir = absdir"
    using normpath_root [OF cs(1,2)] st(1) cs(3) by (simp add: os_path_abspath_def)
  have bs: "map (\<lambda>c. if c = BS then CHR ''/'' else c) absdir = absdir" using assms(8) by (induction absdir) auto
  have v: "file_validate ops values w = ((''file://'' @ absdir, []), w')"
    using assms(1,2,9,10) bs by (simp add: file_validate_def absdir_def [symmetric] Let_def)
  have "authority_ok None []" "authority_text None [] = []" by (code_simp, code_simp)
  with mk_url_text(3) [of "''file''" None "[]" absdir absdir "[]"] assms(5-7) st
  have "url_parse (''file://'' @ absdir) = Inr (mk_url ''file'' None [] absdir absdir [])"
    by (simp add: scheme_ok_def scheme_char_def char_class_defs query_text_def)
  then have "get_path_from_url ops (''file://'' @ absdir) s = (Inr absdir, s\<lparr>fd_dir := absdir\<rparr>)"
    using st(2) ab assms(11) by (simp add: get_path_from_url_def mk_url_def empty_url_def drive_letter_host_def ensure_dir_def Let_def)
  with v show ?thesis by blast
qed

theorem file_configured_witness:
  "\<exists>url. file_validate demo_fs [(''Directory'', PStr ''data'')] Map.empty = ((url, []), Map.empty)
    \<and> get_path_from_url demo_fs url (new_file_driver Map.empty) = (Inr ''/data'', (new_file_driver Map.empty)\<lparr>fd_dir := ''/data''\<rparr>)"
proof -
  have v: "get_required_string_value ''Directory'' [(''Directory'', PStr ''data'')] = (''data'', None)" by code_simp
  have a: "os_path_abspath (fs_cwd demo_fs) ''data'' = ''/data''" by code_simp
  have u: "unescape ''/data'' EncodePath = Inr ''/data''" "clean ''/data''" by code_simp+
  have fs: "fs_exists demo_fs p w" "fs_dir_writable demo_fs p w = ((True, []), w)" for p w by (simp_all add: demo_fs_def)
  show ?thesis
    using file_configured [OF v, of demo_fs Map.empty "[]" Map.empty "new_file_driver Map.empty"] a u demo_dir fs by simp
qed

text \<open>The URL that the driver gives as its example is refused: it names a host and no path.\<close>

theorem file_example_rejected:
  "get_path_from_url ops FILE_EXAMPLE_URL s
    = (Inl (FileExc (ValueError ''path is required in url which should be the directory to store files'')), s)"
proof -
  have "(case url_parse FILE_EXAMPLE_URL of Inr u \<Rightarrow> \<not> drive_letter_host (u_host u) \<and> u_path u = [] | Inl _ \<Rightarrow> False)" by code_simp
  then show ?thesis by (auto simp: get_path_from_url_def split: sum.splits)
qed

lemma join_json: "cs \<noteq> [] \<Longrightarrow> join sep (cs @ [f]) @ x = join sep (cs @ [f @ x])"
  by (simp add: join_snoc)

text \<open>A primary key with enough steps upward, below a directory of names \<open>cs\<close>.\<close>

definition climbing_key :: "string list \<Rightarrow> string list \<Rightarrow> string \<Rightarrow> string" where
  "climbing_key cs ds f = join ''/'' (''x'' # replicate (length cs + 2) ''..'' @ ds @ [f])"

text \<open>A primary key can lead out of the directory. With a key of steps upward and then any names, the event is written
  to the file of these names below the root, whatever the configured directory.\<close>

theorem file_leaves_directory:
  assumes "cs \<noteq> []" "list_all name_ok cs" "name_ok t" "list_all name_ok ds" "f \<noteq> []" "CHR ''/'' \<notin> set f"
  shows "os_path_normpath (event_path (root_path cs) t ts (climbing_key cs ds f)) = root_path (ds @ [f @ ''.json''])"
proof -
  let ?x = "str_int (ts div 1000) @ ''-x''"
  let ?ups = "replicate (length cs + 2) ''..''"
  let ?comps = "t # ?x # ?ups @ ds @ [f @ ''.json'']"
  have x: "name_ok ?x"
  proof -
    have "2 < length ?x" by (cases "str_int (ts div 1000)") (auto simp: str_int_def split: if_splits)
    then have "?x \<noteq> []" "?x \<noteq> ''.''" "?x \<noteq> ''..''" by (auto dest: arg_cong [where f = length])
    with str_int_no_slash show ?thesis by (simp add: name_ok_def)
  qed
  have fj: "name_ok (f @ ''.json'')" using assms(5,6) by (cases f) (auto simp: name_ok_def)
  have sl: "\<forall>c \<in> set ?comps. c \<noteq> [] \<and> CHR ''/'' \<notin> set c"
  proof
    fix c
    assume "c \<in> set ?comps"
    then consider "c = t" | "c = ?x" | "c = ''..''" | "c \<in> set ds" | "c = f @ ''.json''" by auto
    then show "c \<noteq> [] \<and> CHR ''/'' \<notin> set c"
    proof cases
      case 4
      with assms(4) show ?thesis by (simp add: list_all_iff name_ok_def)
    qed (use assms(3) x fj in \<open>simp_all add: name_ok_def\<close>)
  qed
  have "get_file_name t ts (climbing_key cs ds f) = join ''/'' ?comps"
  proof -
    define R where "R = ?ups @ ds"
    have j: "join ''/'' (R @ [f]) @ ''.json'' = join ''/'' (R @ [f @ ''.json''])" by (rule join_json) (simp add: R_def)
    have "climbing_key cs ds f = ''x/'' @ join ''/'' (R @ [f])" unfolding climbing_key_def R_def by (subst join_Cons) simp_all
    moreover have "join ''/'' ?comps = t @ ''/'' @ ?x @ ''/'' @ join ''/'' (R @ [f @ ''.json''])"
      unfolding R_def by (subst join_Cons, simp, subst join_Cons, simp_all)
    ultimately show ?thesis using j by (simp add: get_file_name_def)
  qed
  then have "split_on (CHR ''/'') (get_file_name t ts (climbing_key cs ds f)) = ?comps"
    using split_on_join [of ?comps "CHR ''/''"] sl by simp
  moreover have all: "\<forall>c \<in> set (cs @ ?comps). c \<noteq> [] \<and> CHR ''/'' \<notin> set c"
    using sl assms(2) by (auto simp: name_ok_def list_all_iff)
  ultimately have p: "event_path (root_path cs) t ts (climbing_key cs ds f) = root_path (cs @ ?comps)"
    using os_join_root [OF assms(1)] by (simp add: event_path_def)
  have "split_on (CHR ''/'') (root_path (cs @ ?comps)) = [] # cs @ ?comps"
    using split_on_join [of "cs @ ?comps" "CHR ''/''"] all by (simp add: root_path_def)
  moreover have "foldl (norm_step True) [] (cs @ ?comps) = ds @ [f @ ''.json'']"
    using norm_climb [of "cs @ [t, ?x]" "ds @ [f @ ''.json'']"] assms(2-4) x fj by simp
  moreover have "initial_slashes (root_path (cs @ ?comps)) = 1" by (rule root_initial_gen [OF _ all]) simp
  ultimately show ?thesis unfolding p by (rule normpath_eval)
qed

theorem file_leaves_directory_witness:
  "os_path_normpath (event_path (root_path [''data'', ''eds'']) ''orders'' 0 (climbing_key [''data'', ''eds''] [''etc''] ''x''))
    = ''/etc/x.json''"
  using file_leaves_directory [of "[''data'', ''eds'']" "''orders''" "[''etc'']" "''x''" 0] by (simp add: name_ok_def root_path_def)

end
