(* ===== verification/Handlers.thy ===== *)
theory Handlers
  imports FileDriver Ndjson
begin

text \<open>
  The closures of \<open>eds/cmd/notification_wiring.py\<close>: what the control plane does on a notification.

  The state is \<open>ControlPlaneContext\<close>; the loopback of the consumer process, the forked import, the configuration file, the
  API and the file system are a record of operations on the world \<open>'w\<close>, and every call is recorded. The theorems
  say when a server is de-enrolled, when the URL of the driver changes, and what an import does to the consumer
  process and reports.
\<close>

section \<open>State\<close>

record 'w ctl_ops =
  h_control_get :: "string \<Rightarrow> 'w \<Rightarrow> string res \<times> 'w"
  h_set_config_value :: "string \<Rightarrow> string \<Rightarrow> 'w \<Rightarrow> unit res \<times> 'w"
  h_fork_import :: "string list \<Rightarrow> 'w \<Rightarrow> (int \<times> string) res \<times> 'w"
  h_get_log_upload_url :: "string \<Rightarrow> 'w \<Rightarrow> string res \<times> 'w"
  h_upload_log_file :: "string \<Rightarrow> string \<Rightarrow> 'w \<Rightarrow> string res \<times> 'w"
  h_has_content :: "string \<Rightarrow> 'w \<Rightarrow> bool"
  h_remove :: "string \<Rightarrow> 'w \<Rightarrow> unit res \<times> 'w"
  h_create_export_job :: "'w \<Rightarrow> string res \<times> 'w"
  h_driver_validate :: "string \<Rightarrow> pydict \<Rightarrow> (string \<times> field_error list) res"
  h_mask_url :: "string \<Rightarrow> string res"
  h_in_docker :: bool

datatype hcall =
    HControl string bool
  | HSetConfig string string bool
  | HForkImport "string list" "int option"
  | HUpload string string bool
  | HRemove string
  | HJob bool
  | HPublish string pydict bool
  | HRespond string bool
  | HPong string bool

record 'w ctx =
  cx_api_key :: string
  cx_keep_logs :: bool
  cx_data_dir :: string
  cx_verbose :: bool
  cx_no_restart :: bool
  cx_driver_url :: string
  cx_configured :: bool
  cx_session_id :: string
  cx_session_dir :: string
  cx_fork_running :: bool
  cx_configure_event :: "bool option"
  cx_world :: 'w
  cx_trace :: "hcall list"

definition succeeded :: "'e + 'a \<Rightarrow> bool" where
  "succeeded r = (case r of Inl _ \<Rightarrow> False | Inr _ \<Rightarrow> True)"

definition does :: "('w \<Rightarrow> 'a res \<times> 'w) \<Rightarrow> (bool \<Rightarrow> hcall list) \<Rightarrow> 'w ctx \<Rightarrow> 'a res \<times> 'w ctx" where
  "does f tr x = (case f (cx_world x) of (r, w) \<Rightarrow> (r, x\<lparr>cx_world := w, cx_trace := cx_trace x @ tr (succeeded r)\<rparr>))"

definition control_get :: "'w ctl_ops \<Rightarrow> string \<Rightarrow> 'w ctx \<Rightarrow> string res \<times> 'w ctx" where
  "control_get C path x = does (h_control_get C path) (\<lambda>b. [HControl path b]) x"

section \<open>The forked import\<close>

record import_run_result =
  ir_success :: bool
  ir_validated :: bool
  ir_message :: "string option"
  ir_log_path :: "string option"

definition import_args :: "'w ctx \<Rightarrow> string \<Rightarrow> bool \<Rightarrow> bool \<Rightarrow> string \<Rightarrow> string list" where
  "import_args x url schema_only validate_only job_id =
     [''--url'', url, ''--api-key'', cx_api_key x, ''--no-confirm'', ''--data-dir'', cx_data_dir x]
     @ (if schema_only then [''--schema-only''] else [])
     @ (if job_id \<noteq> [] then [''--job-id'', job_id] else [])
     @ (if validate_only then [''--validate-only'', ''--silent''] else if cx_verbose x then [''--verbose''] else [])"

definition rstrip_nl :: "string \<Rightarrow> string" where
  "rstrip_nl s = rev (dropWhile (\<lambda>c. c = NL) (rev s))"

definition usage_message :: "string \<Rightarrow> string" where
  "usage_message text = (let lines = split_on NL (rstrip_nl text) in if 1 < length lines then last lines else strip text)"

definition upload_if_any :: "'w ctl_ops \<Rightarrow> string \<Rightarrow> string \<Rightarrow> 'w ctx \<Rightarrow> string \<times> 'w ctx" where
  "upload_if_any C url file x =
     (if h_has_content C file (cx_world x) then
        case does (h_upload_log_file C url file) (\<lambda>b. [HUpload url file b]) x of
          (Inl _, x1) \<Rightarrow> ([], x1) | (Inr path, x1) \<Rightarrow> (path, x1)
      else ([], x))"

text \<open>After a failure of the import its two log files are uploaded; the path of the first one is reported.\<close>

definition upload_import_logs :: "'w ctl_ops \<Rightarrow> 'w ctx \<Rightarrow> string \<times> 'w ctx" where
  "upload_import_logs C x =
     (case does (h_get_log_upload_url C (cx_session_id x)) (\<lambda>_. []) x of
        (Inl _, x1) \<Rightarrow> ([], x1)
      | (Inr url, x1) \<Rightarrow>
          (case upload_if_any C url (os_path_join (cx_session_dir x1) [''import_stdout.txt'']) x1 of
             (path, x2) \<Rightarrow> (path, snd (upload_if_any C url (os_path_join (cx_session_dir x2) [''import_stderr.txt'']) x2))))"

definition FORK_FAILED :: string where
  "FORK_FAILED = ''Error importing data. Please contact support for assistance.''"

definition IMPORT_FAILED :: string where
  "IMPORT_FAILED = ''Error importing data. See the error logs for more details or contact support for further assistance.''"

definition fork_import :: "'w ctl_ops \<Rightarrow> string list \<Rightarrow> 'w ctx \<Rightarrow> (int \<times> string) res \<times> 'w ctx" where
  "fork_import C args x =
     (case h_fork_import C args (cx_world x) of
        (r, w) \<Rightarrow> (r, x\<lparr>cx_world := w,
           cx_trace := cx_trace x @ [HForkImport args (case r of Inl _ \<Rightarrow> None | Inr (ec, _) \<Rightarrow> Some ec)]\<rparr>))"

text \<open>\<open>_run_import\<close>. With \<open>--no-restart\<close> it leaves the process with the exit code of the import (\<open>Inl\<close>).\<close>

definition run_import_fork ::
    "'w ctl_ops \<Rightarrow> string \<Rightarrow> bool \<Rightarrow> bool \<Rightarrow> string \<Rightarrow> 'w ctx \<Rightarrow> (int + import_run_result) \<times> 'w ctx" where
  "run_import_fork C url schema_only validate_only job_id x =
     (let args = import_args x url schema_only validate_only job_id in
      case fork_import C args x of
        (Inl _, x1) \<Rightarrow> (Inr \<lparr>ir_success = True, ir_validated = False, ir_message = Some FORK_FAILED, ir_log_path = None\<rparr>, x1)
      | (Inr (ec, lines), x1) \<Rightarrow>
          if cx_no_restart x1 then (Inl ec, x1)
          else if ec = 0 then (Inr \<lparr>ir_success = True, ir_validated = True, ir_message = None, ir_log_path = None\<rparr>, x1)
          else if ec = 3 then
            (Inr \<lparr>ir_success = False, ir_validated = False, ir_message = Some (usage_message lines), ir_log_path = None\<rparr>, x1)
          else case upload_import_logs C x1 of (path, x2) \<Rightarrow>
            (Inr \<lparr>ir_success = True, ir_validated = False, ir_message = Some IMPORT_FAILED, ir_log_path = Some path\<rparr>, x2))"

section \<open>The closures\<close>

definition nh_restart :: "'w ctl_ops \<Rightarrow> 'w ctx \<Rightarrow> 'w ctx" where
  "nh_restart C x = (if cx_fork_running x then snd (control_get C ''restart'' x) else x)"

definition nh_shutdown :: "'w ctl_ops \<Rightarrow> string \<Rightarrow> bool \<Rightarrow> 'w ctx \<Rightarrow> 'w ctx" where
  "nh_shutdown C message deleted x =
     (if \<not> cx_fork_running x then x
      else case control_get C ''shutdown'' x of
             (Inl _, x1) \<Rightarrow> x1
           | (Inr _, x1) \<Rightarrow>
               if deleted then snd (does (h_set_config_value C ''server_id'' []) (\<lambda>b. [HSetConfig ''server_id'' [] b]) x1) else x1)"

definition loopback :: "'w ctl_ops \<Rightarrow> string \<Rightarrow> 'w ctx \<Rightarrow> exc option \<times> 'w ctx" where
  "loopback C path x =
     (if cx_fork_running x then
        case control_get C path x of (Inl e, x1) \<Rightarrow> (Some e, x1) | (Inr _, x1) \<Rightarrow> (None, x1)
      else (None, x))"

definition nh_pause :: "'w ctl_ops \<Rightarrow> 'w ctx \<Rightarrow> exc option \<times> 'w ctx" where
  "nh_pause C = loopback C ''pause''"

definition nh_unpause :: "'w ctl_ops \<Rightarrow> 'w ctx \<Rightarrow> exc option \<times> 'w ctx" where
  "nh_unpause C = loopback C ''unpause''"

record upgrade_response =
  ur_success :: bool
  ur_message :: string
  ur_session_id :: string
  ur_log_path :: "string option"
  ur_version :: string

definition nh_upgrade :: "'w ctl_ops \<Rightarrow> string \<Rightarrow> 'w ctx \<Rightarrow> upgrade_response" where
  "nh_upgrade C version x =
     \<lparr>ur_success = False,
      ur_message = (if h_in_docker C then ''upgrade is not supported inside a virtualized container system''
                    else ''self-upgrade requires the packaged binary (not yet available)''),
      ur_session_id = cx_session_id x, ur_log_path = None, ur_version = version\<rparr>"

record send_logs_response =
  sl_path :: string
  sl_session_id :: string

definition nh_send_logs :: "'w ctl_ops \<Rightarrow> 'w ctx \<Rightarrow> send_logs_response option \<times> 'w ctx" where
  "nh_send_logs C x =
     (if cx_session_id x = [] then (None, x)
      else case control_get C ''logfile'' x of
        (Inl _, x1) \<Rightarrow> (None, x1)
      | (Inr log_file, x1) \<Rightarrow>
          if log_file = [] then (None, x1)
          else case does (h_get_log_upload_url C (cx_session_id x1)) (\<lambda>_. []) x1 of
            (Inl _, x2) \<Rightarrow> (None, x2)
          | (Inr url, x2) \<Rightarrow>
              (case does (h_upload_log_file C url log_file) (\<lambda>b. [HUpload url log_file b]) x2 of
                 (Inl _, x3) \<Rightarrow> (None, x3)
               | (Inr storage, x3) \<Rightarrow>
                   (Some \<lparr>sl_path = storage, sl_session_id = cx_session_id x3\<rparr>,
                    if cx_keep_logs x3 then x3 else snd (does (h_remove C log_file) (\<lambda>_. [HRemove log_file]) x3))))"

record configure_response =
  cr_success :: bool
  cr_message :: "string option"
  cr_masked_url :: "string option"
  cr_session_id :: string
  cr_backfill :: bool
  cr_log_path :: "string option"

text \<open>\<open>configure\<close>: the URL is validated by an import process, and only then stored and used.\<close>

definition nh_configure :: "'w ctl_ops \<Rightarrow> string \<Rightarrow> bool \<Rightarrow> 'w ctx \<Rightarrow> (int + configure_response) \<times> 'w ctx" where
  "nh_configure C url backfill x =
     (case run_import_fork C url False True [] x of
        (Inl code, x1) \<Rightarrow> (Inl code, x1)
      | (Inr r, x1) \<Rightarrow>
          let good = (ir_success r \<and> ir_validated r);
              x2 = (if good then (snd (does (h_set_config_value C ''url'' url) (\<lambda>b. [HSetConfig ''url'' url b]) x1))\<lparr>cx_driver_url := url\<rparr>
                    else x1);
              masked = (if good then (case h_mask_url C url of Inl _ \<Rightarrow> None | Inr m \<Rightarrow> Some m) else None);
              x3 = (if good \<and> \<not> cx_configured x2 then nh_restart C x2 else x2)
          in (Inr \<lparr>cr_success = ir_validated r, cr_message = ir_message r, cr_masked_url = masked, cr_session_id = cx_session_id x3,
                   cr_backfill = backfill, cr_log_path = ir_log_path r\<rparr>, x3))"

record init_backfill_response =
  ib_success :: bool
  ib_message :: "string option"
  ib_session_id :: string
  ib_job_id :: string

definition nh_backfill_init :: "'w ctl_ops \<Rightarrow> bool \<Rightarrow> 'w ctx \<Rightarrow> init_backfill_response \<times> 'w ctx" where
  "nh_backfill_init C backfill x =
     (if \<not> backfill then (\<lparr>ib_success = True, ib_message = None, ib_session_id = cx_session_id x, ib_job_id = []\<rparr>, x)
      else case does (h_create_export_job C) (\<lambda>b. [HJob b]) x of
             (Inl e, x1) \<Rightarrow> (\<lparr>ib_success = False, ib_message = Some (exc_str e), ib_session_id = cx_session_id x1, ib_job_id = []\<rparr>, x1)
           | (Inr job, x1) \<Rightarrow> (\<lparr>ib_success = True, ib_message = None, ib_session_id = cx_session_id x1, ib_job_id = job\<rparr>, x1))"

record import_response =
  im_success :: bool
  im_message :: "string option"
  im_session_id :: string
  im_log_path :: "string option"
  im_job_id :: string

definition signal_configured :: "'w ctx \<Rightarrow> 'w ctx" where
  "signal_configured x = x\<lparr>cx_configure_event := map_option (\<lambda>_. True) (cx_configure_event x)\<rparr>"

definition nh_import_action :: "'w ctl_ops \<Rightarrow> bool \<Rightarrow> string \<Rightarrow> 'w ctx \<Rightarrow> (int + import_response) \<times> 'w ctx" where
  "nh_import_action C backfill job_id x =
     (let x1 = snd (nh_pause C x) in
      case run_import_fork C (cx_driver_url x1) (\<not> backfill) False job_id x1 of
        (Inl code, x2) \<Rightarrow> (Inl code, x2)
      | (Inr r, x2) \<Rightarrow>
          if \<not> ir_success r then
            (Inr \<lparr>im_success = False, im_message = ir_message r, im_session_id = cx_session_id x2, im_log_path = ir_log_path r, im_job_id = []\<rparr>, x2)
          else
            let x3 = (if \<not> cx_configured x2 then signal_configured x2 else nh_restart C x2) in
            (Inr \<lparr>im_success = ir_success r, im_message = ir_message r, im_session_id = cx_session_id x3, im_log_path = ir_log_path r, im_job_id = []\<rparr>, x3))"

record validate_response =
  vr_success :: bool
  vr_message :: string
  vr_field_errors :: "field_error list"
  vr_session_id :: string
  vr_url :: string

definition nh_validate :: "'w ctl_ops \<Rightarrow> string \<Rightarrow> pydict \<Rightarrow> 'w ctx \<Rightarrow> validate_response" where
  "nh_validate C driver vals x =
     (case h_driver_validate C driver vals of
        Inl e \<Rightarrow> \<lparr>vr_success = False, vr_message = exc_str e, vr_field_errors = [], vr_session_id = cx_session_id x, vr_url = []\<rparr>
      | Inr (url, errs) \<Rightarrow> \<lparr>vr_success = (url \<noteq> []), vr_message = [], vr_field_errors = errs, vr_session_id = cx_session_id x, vr_url = url\<rparr>)"

section \<open>What the closures call\<close>

text \<open>Each closure extends the record of calls and leaves the settings of the context alone.\<close>

definition leaves :: "'w ctx \<Rightarrow> hcall list \<Rightarrow> 'w ctx \<Rightarrow> bool" where
  "leaves x cs x' \<longleftrightarrow> (\<exists>w. x' = x\<lparr>cx_world := w, cx_trace := cx_trace x @ cs\<rparr>)"

lemma leaves_refl [simp]: "leaves x [] x"
  by (auto simp: leaves_def intro: exI [of _ "cx_world x"])

lemma leaves_trans: "leaves x cs y \<Longrightarrow> leaves y ds z \<Longrightarrow> leaves x (cs @ ds) z"
  by (auto simp: leaves_def)

lemma leaves_fields:
  assumes "leaves x cs x'"
  shows "cx_trace x' = cx_trace x @ cs" "cx_configured x' = cx_configured x" "cx_fork_running x' = cx_fork_running x"
    "cx_session_id x' = cx_session_id x" "cx_driver_url x' = cx_driver_url x" "cx_no_restart x' = cx_no_restart x"
    "cx_configure_event x' = cx_configure_event x" "cx_session_dir x' = cx_session_dir x" "cx_api_key x' = cx_api_key x"
    "cx_data_dir x' = cx_data_dir x" "cx_verbose x' = cx_verbose x"
  using assms by (auto simp: leaves_def)

lemma leaves_does: "does f tr x = (r, x') \<Longrightarrow> leaves x (tr (succeeded r)) x'"
  by (auto simp: does_def leaves_def split: prod.splits)

lemma leaves_control_get: "control_get C path x = (r, x') \<Longrightarrow> leaves x [HControl path (succeeded r)] x'"
  unfolding control_get_def by (drule leaves_does) simp

lemma leaves_fork_import:
  "fork_import C args x = (r, x') \<Longrightarrow> leaves x [HForkImport args (case r of Inl _ \<Rightarrow> None | Inr (ec, _) \<Rightarrow> Some ec)] x'"
  by (auto simp: fork_import_def leaves_def split: prod.splits)

fun is_upload :: "hcall \<Rightarrow> bool" where
  "is_upload (HUpload _ _ _) = True"
| "is_upload _ = False"

lemma upload_if_any_leaves:
  assumes "upload_if_any C url file x = (p, x')"
  shows "\<exists>cs. leaves x cs x' \<and> list_all is_upload cs"
proof (cases "h_has_content C file (cx_world x)")
  case True
  obtain r x1 where r: "does (h_upload_log_file C url file) (\<lambda>b. [HUpload url file b]) x = (r, x1)" by fastforce
  with assms True have "x' = x1" by (auto simp: upload_if_any_def split: sum.splits)
  with leaves_does [OF r] show ?thesis by auto
next
  case False
  with assms show ?thesis by (auto simp: upload_if_any_def intro: exI [of _ "[]"])
qed

lemma upload_import_logs_leaves: "upload_import_logs C x = (p, x') \<Longrightarrow> \<exists>cs. leaves x cs x' \<and> list_all is_upload cs"
proof -
  assume a: "upload_import_logs C x = (p, x')"
  obtain r x1 where 1: "does (h_get_log_upload_url C (cx_session_id x)) (\<lambda>_. []) x = (r, x1)" by fastforce
  have l1: "leaves x [] x1" using leaves_does [OF 1] by simp
  show ?thesis
  proof (cases r)
    case (Inl e)
    with a 1 l1 show ?thesis by (auto simp: upload_import_logs_def intro: exI [of _ "[]"])
  next
    case (Inr url)
    obtain p2 x2 where 2: "upload_if_any C url (os_path_join (cx_session_dir x1) [''import_stdout.txt'']) x1 = (p2, x2)" by fastforce
    obtain p3 x3 where 3: "upload_if_any C url (os_path_join (cx_session_dir x2) [''import_stderr.txt'']) x2 = (p3, x3)" by fastforce
    from upload_if_any_leaves [OF 2] upload_if_any_leaves [OF 3] obtain cs ds where
      "leaves x1 cs x2" "list_all is_upload cs" "leaves x2 ds x3" "list_all is_upload ds" by blast
    with leaves_trans [OF leaves_trans [OF l1]] have "leaves x (([] @ cs) @ ds) x3" "list_all is_upload (([] @ cs) @ ds)" by auto
    with a 1 2 3 Inr show ?thesis by (auto simp: upload_import_logs_def)
  qed
qed

text \<open>What the result of an import says about its exit code; \<open>None\<close> if the process could not be started.\<close>

definition verdict :: "bool \<Rightarrow> int option \<Rightarrow> int + import_run_result \<Rightarrow> bool" where
  "verdict no_restart ec r \<longleftrightarrow>
     (case r of
        Inl code \<Rightarrow> no_restart \<and> ec = Some code
      | Inr q \<Rightarrow> \<not> (no_restart \<and> ec \<noteq> None) \<and> ir_success q = (ec \<noteq> Some 3) \<and> ir_validated q = (ec = Some 0)
          \<and> (ir_message q = None \<longleftrightarrow> ec = Some 0))"

lemma run_import_fork_leaves:
  assumes "run_import_fork C url so vo job x = (r, x')"
  shows "\<exists>ec cs. leaves x (HForkImport (import_args x url so vo job) ec # cs) x' \<and> list_all is_upload cs \<and> verdict (cx_no_restart x) ec r"
proof -
  let ?args = "import_args x url so vo job"
  obtain f x1 where f: "fork_import C ?args x = (f, x1)" by fastforce
  have l: "leaves x [HForkImport ?args (case f of Inl _ \<Rightarrow> None | Inr (ec, _) \<Rightarrow> Some ec)] x1" by (rule leaves_fork_import [OF f])
  show ?thesis
  proof (cases f)
    case (Inl e)
    with assms f have "x' = x1" "verdict (cx_no_restart x) None r" by (auto simp: run_import_fork_def verdict_def)
    with l Inl show ?thesis by fastforce
  next
    case (Inr b)
    obtain ec lines where b: "b = (ec, lines)" by (cases b)
    have l1: "leaves x [HForkImport ?args (Some ec)] x1" using l by (simp add: Inr b)
    note n = leaves_fields(6) [OF l]
    obtain p x2 where u: "upload_import_logs C x1 = (p, x2)" by fastforce
    from upload_import_logs_leaves [OF u] obtain cs where cs: "leaves x1 cs x2" "list_all is_upload cs" by blast
    from leaves_trans [OF l1 cs(1)] have l2: "leaves x (HForkImport ?args (Some ec) # cs) x2" by simp
    from assms f n u have v: "verdict (cx_no_restart x) (Some ec) r" "x' = x1 \<or> x' = x2"
      by (auto simp: run_import_fork_def Inr b verdict_def split: if_splits)
    from v(2) show ?thesis using l1 l2 cs(2) v(1) by (metis list.pred_inject(1))
  qed
qed

text \<open>The requests to the consumer process.\<close>

fun controls :: "hcall list \<Rightarrow> string list" where
  "controls [] = []"
| "controls (HControl path b # cs) = path # controls cs"
| "controls (_ # cs) = controls cs"

lemma controls_append [simp]: "controls (cs @ ds) = controls cs @ controls ds"
  by (induction cs rule: controls.induct) auto

lemma controls_uploads: "list_all is_upload cs \<Longrightarrow> controls cs = []"
  by (induction cs rule: controls.induct) auto

lemma loopback_leaves:
  "loopback C path x = (e, x') \<Longrightarrow> \<exists>b. leaves x (if cx_fork_running x then [HControl path b] else []) x' \<and> (cx_fork_running x \<longrightarrow> b = (e = None))"
  by (auto simp: loopback_def succeeded_def split: if_splits prod.splits sum.splits dest!: leaves_control_get)

lemma restart_leaves: "\<exists>b. leaves x (if cx_fork_running x then [HControl ''restart'' b] else []) (nh_restart C x)"
proof (cases "cx_fork_running x")
  case True
  obtain r x1 where "control_get C ''restart'' x = (r, x1)" by fastforce
  with leaves_control_get [OF this] True show ?thesis by (auto simp: nh_restart_def)
qed (simp add: nh_restart_def)

lemma import_action_calls:
  assumes "nh_import_action C backfill job_id x = (r, x')"
  shows "\<exists>ec p ups q x2. leaves x (p @ HForkImport (import_args x (cx_driver_url x) (\<not> backfill) False job_id) ec # ups) x2
    \<and> controls p = (if cx_fork_running x then [''pause''] else []) \<and> filter (\<lambda>c. \<not> is_upload c) ups = [] \<and> (\<exists>b. p = [] \<or> p = [HControl ''pause'' b])
    \<and> verdict (cx_no_restart x) ec q
    \<and> (case q of
         Inl code \<Rightarrow> r = Inl code \<and> x' = x2
       | Inr i \<Rightarrow> (\<exists>m. r = Inr m \<and> im_success m = ir_success i \<and> im_message m = ir_message i) \<and>
           x' = (if \<not> ir_success i then x2 else if cx_configured x then nh_restart C x2 else signal_configured x2))"
proof -
  obtain e x1 where p: "nh_pause C x = (e, x1)" by fastforce
  from loopback_leaves [OF p [unfolded nh_pause_def]] obtain b where
    b: "leaves x (if cx_fork_running x then [HControl ''pause'' b] else []) x1" by blast
  obtain q x2 where q: "run_import_fork C (cx_driver_url x1) (\<not> backfill) False job_id x1 = (q, x2)" by fastforce
  from run_import_fork_leaves [OF q] obtain ec ups where
    ups: "leaves x1 (HForkImport (import_args x1 (cx_driver_url x1) (\<not> backfill) False job_id) ec # ups) x2" "list_all is_upload ups"
    and v: "verdict (cx_no_restart x1) ec q" by blast
  note f = leaves_fields [OF b]
  have args: "import_args x1 (cx_driver_url x1) (\<not> backfill) False job_id = import_args x (cx_driver_url x) (\<not> backfill) False job_id"
    by (simp add: import_args_def f)
  let ?p = "if cx_fork_running x then [HControl ''pause'' b] else []"
  have "leaves x (?p @ HForkImport (import_args x (cx_driver_url x) (\<not> backfill) False job_id) ec # ups) x2"
    using leaves_trans [OF b ups(1)] by (simp add: args)
  moreover have "filter (\<lambda>c. \<not> is_upload c) ups = []" using ups(2) by (auto simp: filter_empty_conv list_all_iff)
  moreover have "case q of
         Inl code \<Rightarrow> r = Inl code \<and> x' = x2
       | Inr i \<Rightarrow> (\<exists>m. r = Inr m \<and> im_success m = ir_success i \<and> im_message m = ir_message i) \<and>
           x' = (if \<not> ir_success i then x2 else if cx_configured x then nh_restart C x2 else signal_configured x2)"
    using assms p q leaves_fields(2) [OF ups(1)] f(2) by (auto simp: nh_import_action_def Let_def split: sum.splits if_splits)
  moreover have "controls ?p = (if cx_fork_running x then [''pause''] else [])" "\<exists>b. ?p = [] \<or> ?p = [HControl ''pause'' b]" by auto
  ultimately show ?thesis using v unfolding f(6)
    by (intro exI [of _ ec] exI [of _ ?p] exI [of _ ups] exI [of _ q] exI [of _ x2] conjI)
qed

section \<open>Properties\<close>

lemma controls_no_uploads: "filter (\<lambda>c. \<not> is_upload c) cs = [] \<Longrightarrow> controls cs = []"
  by (rule controls_uploads) (simp add: filter_empty_conv list_all_iff)

fun import_codes :: "hcall list \<Rightarrow> int option list" where
  "import_codes [] = []"
| "import_codes (HForkImport _ ec # cs) = ec # import_codes cs"
| "import_codes (_ # cs) = import_codes cs"

lemma import_codes_append [simp]: "import_codes (cs @ ds) = import_codes cs @ import_codes ds"
  by (induction cs rule: import_codes.induct) auto

lemma import_codes_uploads: "filter (\<lambda>c. \<not> is_upload c) cs = [] \<Longrightarrow> import_codes cs = []"
  by (induction cs rule: import_codes.induct) auto

lemma import_action_result:
  assumes "\<not> cx_no_restart x" "nh_import_action C backfill job_id x = (r, x')"
  shows "\<exists>ec m cs. cx_trace x' = cx_trace x @ cs \<and> import_codes cs = [ec] \<and> r = Inr m \<and> im_success m = (ec \<noteq> Some 3)
    \<and> (im_message m = None \<longleftrightarrow> ec = Some 0)
    \<and> controls cs = (if \<not> cx_fork_running x then [] else if ec \<noteq> Some 3 \<and> cx_configured x then [''pause'', ''restart''] else [''pause''])
    \<and> cx_configure_event x' = (if ec \<noteq> Some 3 \<and> \<not> cx_configured x then map_option (\<lambda>_. True) (cx_configure_event x) else cx_configure_event x)"
proof -
  from import_action_calls [OF assms(2)] obtain ec p ups q x2 where
    l: "leaves x (p @ HForkImport (import_args x (cx_driver_url x) (\<not> backfill) False job_id) ec # ups) x2"
    and p: "controls p = (if cx_fork_running x then [''pause''] else [])" "\<exists>b. p = [] \<or> p = [HControl ''pause'' b]"
    and ups: "filter (\<lambda>c. \<not> is_upload c) ups = []" and v: "verdict (cx_no_restart x) ec q"
    and q: "case q of
         Inl code \<Rightarrow> r = Inl code \<and> x' = x2
       | Inr i \<Rightarrow> (\<exists>m. r = Inr m \<and> im_success m = ir_success i \<and> im_message m = ir_message i) \<and>
           x' = (if \<not> ir_success i then x2 else if cx_configured x then nh_restart C x2 else signal_configured x2)"
    by blast
  from v assms(1) obtain i where i: "q = Inr i" "ir_success i = (ec \<noteq> Some 3)" "ir_message i = None \<longleftrightarrow> ec = Some 0"
    by (auto simp: verdict_def split: sum.splits)
  with q obtain m where m: "r = Inr m" "im_success m = (ec \<noteq> Some 3)" "im_message m = None \<longleftrightarrow> ec = Some 0"
    and x': "x' = (if ec = Some 3 then x2 else if cx_configured x then nh_restart C x2 else signal_configured x2)" by auto
  let ?cs = "p @ HForkImport (import_args x (cx_driver_url x) (\<not> backfill) False job_id) ec # ups"
  have c: "controls ?cs = (if cx_fork_running x then [''pause''] else [])" "import_codes ?cs = [ec]"
    using p controls_no_uploads [OF ups] import_codes_uploads [OF ups] by auto
  from restart_leaves [of x2 C] leaves_fields [OF l] obtain b where
    rs: "leaves x2 (if cx_fork_running x then [HControl ''restart'' b] else []) (nh_restart C x2)" by auto
  show ?thesis
  proof (cases "ec \<noteq> Some 3 \<and> cx_configured x")
    case True
    then have "x' = nh_restart C x2" by (simp add: x')
    with leaves_fields [OF leaves_trans [OF l rs]] True c m show ?thesis
      by (intro exI [of _ ec] exI [of _ m] exI [of _ "?cs @ (if cx_fork_running x then [HControl ''restart'' b] else [])"]) auto
  next
    case False
    with leaves_fields [OF l] x' c m show ?thesis
      by (intro exI [of _ ec] exI [of _ m] exI [of _ ?cs]) (auto simp: signal_configured_def)
  qed
qed

text \<open>C19: what an import request does. One import process is run. The consumer process, if there is one, is asked to pause before; it
  is restarted afterwards exactly if the import did not end with the code of wrong usage and the server was configured; an unconfigured
  server is then released to start its first consumer. In particular the reply is a success for every import that failed with another code or was not
  even started, and after wrong usage the consumer process is left paused.\<close>

theorem import_action_outcome:
  assumes "\<not> cx_no_restart x" "nh_import_action C backfill job_id x = (r, x')"
  shows "\<exists>ec m cs. cx_trace x' = cx_trace x @ cs \<and> import_codes cs = [ec] \<and> r = Inr m \<and> im_success m = (ec \<noteq> Some 3)
    \<and> (im_message m = None \<longleftrightarrow> ec = Some 0)
    \<and> controls cs = (if \<not> cx_fork_running x then [] else if ec \<noteq> Some 3 \<and> cx_configured x then [''pause'', ''restart''] else [''pause''])
    \<and> cx_configure_event x' = (if ec \<noteq> Some 3 \<and> \<not> cx_configured x then map_option (\<lambda>_. True) (cx_configure_event x) else cx_configure_event x)"
  by (rule import_action_result [OF assms])

definition sample_ctl :: "unit ctl_ops" where
  "sample_ctl = \<lparr>h_control_get = (\<lambda>_ w. (Inr [], w)), h_set_config_value = (\<lambda>_ _ w. (Inr (), w)), h_fork_import = (\<lambda>_ w. (Inr (0, []), w)),
     h_get_log_upload_url = (\<lambda>_ w. (Inr [], w)), h_upload_log_file = (\<lambda>_ _ w. (Inr [], w)), h_has_content = (\<lambda>_ _. False),
     h_remove = (\<lambda>_ w. (Inr (), w)), h_create_export_job = (\<lambda>w. (Inr [], w)), h_driver_validate = (\<lambda>_ _. Inr ([], [])),
     h_mask_url = (\<lambda>u. Inr u), h_in_docker = False\<rparr>"

definition sample_ctx :: "unit ctx" where
  "sample_ctx = \<lparr>cx_api_key = ''k'', cx_keep_logs = False, cx_data_dir = ''d'', cx_verbose = False, cx_no_restart = False,
     cx_driver_url = ''old'', cx_configured = True, cx_session_id = ''s'', cx_session_dir = ''p'', cx_fork_running = True,
     cx_configure_event = Some False, cx_world = (), cx_trace = []\<rparr>"

theorem import_action_outcome_witness:
  "\<exists>ec cs. cx_trace (snd (nh_import_action sample_ctl False [] sample_ctx)) = cx_trace sample_ctx @ cs \<and> import_codes cs = [ec]"
proof -
  have "\<not> cx_no_restart sample_ctx" by (simp add: sample_ctx_def)
  from import_action_outcome [OF this, of sample_ctl False "[]" "fst (nh_import_action sample_ctl False [] sample_ctx)"
      "snd (nh_import_action sample_ctl False [] sample_ctx)"] show ?thesis by auto
qed

end
