(* ===== verification/Notify.thy ===== *)
theory Notify
  imports Handlers
begin

text \<open>
  \<open>eds/notification/__init__.py\<close> and \<open>eds/notification/dtos.py\<close>: the decoding of a notification, the dispatch to the closures
  of \<open>Handlers\<close>, and the replies, as JSON to the requester or as a message on a subject of the session.
\<close>

section \<open>The replies\<close>

definition opt_pystr :: "string option \<Rightarrow> pyval" where
  "opt_pystr o' = (case o' of None \<Rightarrow> PNone | Some s \<Rightarrow> PStr s)"

definition notification_struct :: "string \<Rightarrow> pydict \<Rightarrow> (string \<times> omit_empty \<times> pyval) list" where
  "notification_struct action data = [(''action'', NEVER, PStr action), (''data'', IF_FALSY, PDict data)]"

definition init_backfill_struct :: "init_backfill_response \<Rightarrow> (string \<times> omit_empty \<times> pyval) list" where
  "init_backfill_struct r = [(''success'', NEVER, PBool (ib_success r)), (''message'', IF_NONE, opt_pystr (ib_message r)),
     (''sessionId'', NEVER, PStr (ib_session_id r)), (''jobId'', NEVER, PStr (ib_job_id r))]"

definition configure_struct :: "configure_response \<Rightarrow> (string \<times> omit_empty \<times> pyval) list" where
  "configure_struct r = [(''success'', NEVER, PBool (cr_success r)), (''message'', IF_NONE, opt_pystr (cr_message r)),
     (''maskedURL'', IF_NONE, opt_pystr (cr_masked_url r)), (''sessionId'', NEVER, PStr (cr_session_id r)),
     (''backfill'', NEVER, PBool (cr_backfill r))]"

definition validate_struct :: "validate_response \<Rightarrow> (string \<times> omit_empty \<times> pyval) list" where
  "validate_struct r = [(''success'', NEVER, PBool (vr_success r)), (''messsage'', IF_FALSY, PStr (vr_message r)),
     (''field_errors'', IF_FALSY, PList (map (\<lambda>e. PStruct [(''field'', NEVER, PStr (fe_field e)), (''error'', NEVER, PStr (fe_message e))]) (vr_field_errors r))),
     (''sessionId'', NEVER, PStr (vr_session_id r)), (''url'', IF_FALSY, PStr (vr_url r))]"

definition send_logs_struct :: "send_logs_response \<Rightarrow> (string \<times> omit_empty \<times> pyval) list" where
  "send_logs_struct r = [(''path'', NEVER, PStr (sl_path r)), (''sessionId'', NEVER, PStr (sl_session_id r))]"

definition generic_struct :: "bool \<Rightarrow> string option \<Rightarrow> string \<Rightarrow> string \<Rightarrow> (string \<times> omit_empty \<times> pyval) list" where
  "generic_struct success message sid action = [(''success'', NEVER, PBool success), (''message'', IF_NONE, opt_pystr message),
     (''sessionId'', NEVER, PStr sid), (''action'', NEVER, PStr action)]"

definition import_struct :: "import_response \<Rightarrow> (string \<times> omit_empty \<times> pyval) list" where
  "import_struct r = [(''success'', NEVER, PBool (im_success r)), (''message'', IF_NONE, opt_pystr (im_message r)),
     (''sessionId'', NEVER, PStr (im_session_id r)), (''jobId'', NEVER, PStr (im_job_id r))]"

definition upgrade_struct :: "upgrade_response \<Rightarrow> (string \<times> omit_empty \<times> pyval) list" where
  "upgrade_struct r = [(''success'', NEVER, PBool (ur_success r)), (''message'', IF_FALSY, PStr (ur_message r)),
     (''sessionId'', NEVER, PStr (ur_session_id r)), (''version'', NEVER, PStr (ur_version r))]"

section \<open>Sending\<close>

text \<open>The connection: publishing to a subject, answering the request, a bare \<open>pong\<close>, and the JSON of the driver configurations.\<close>

record 'w notify_ops =
  n_publish :: "string \<Rightarrow> pydict \<Rightarrow> 'w \<Rightarrow> unit res \<times> 'w"
  n_respond :: "string \<Rightarrow> 'w \<Rightarrow> unit res \<times> 'w"
  n_pong :: "string \<Rightarrow> 'w \<Rightarrow> unit res \<times> 'w"
  n_driver_config :: "string \<Rightarrow> string res"

definition publish :: "'w notify_ops \<Rightarrow> string \<Rightarrow> string \<Rightarrow> string \<Rightarrow> (string \<times> omit_empty \<times> pyval) list \<Rightarrow> 'w ctx \<Rightarrow> unit res \<times> 'w ctx" where
  "publish P sid action md fs x =
     (let subject = ''eds.client.'' @ sid @ ''.'' @ action @ ''-'' @ md; data = msgpack_dict fs in
      does (n_publish P subject data) (\<lambda>b. [HPublish subject data b]) x)"

definition publish_response :: "'w notify_ops \<Rightarrow> string \<Rightarrow> string \<Rightarrow> (string \<times> omit_empty \<times> pyval) list \<Rightarrow> 'w ctx \<Rightarrow> unit res \<times> 'w ctx" where
  "publish_response P sid action = publish P sid action ''response''"

definition publish_status :: "'w notify_ops \<Rightarrow> string \<Rightarrow> string \<Rightarrow> (string \<times> omit_empty \<times> pyval) list \<Rightarrow> 'w ctx \<Rightarrow> unit res \<times> 'w ctx" where
  "publish_status P sid action = publish P sid action ''status''"

definition publish_simple_status :: "'w notify_ops \<Rightarrow> string \<Rightarrow> string \<Rightarrow> string \<Rightarrow> 'w ctx \<Rightarrow> 'w ctx" where
  "publish_simple_status P sid action err_msg x =
     snd (publish_status P sid action (generic_struct (err_msg = []) (Some err_msg) sid action) x)"

definition publish_send_logs_response :: "'w notify_ops \<Rightarrow> send_logs_response \<Rightarrow> 'w ctx \<Rightarrow> unit res \<times> 'w ctx" where
  "publish_send_logs_response P r = publish_response P (sl_session_id r) ''sendlogs'' (send_logs_struct r)"

definition call_send_logs :: "'w ctl_ops \<Rightarrow> 'w notify_ops \<Rightarrow> 'w ctx \<Rightarrow> 'w ctx" where
  "call_send_logs C P x =
     (case nh_send_logs C x of
        (None, x1) \<Rightarrow> x1
      | (Some r, x1) \<Rightarrow> snd (publish_send_logs_response P r x1))"

definition respond :: "'w notify_ops \<Rightarrow> string res \<Rightarrow> 'w ctx \<Rightarrow> unit res \<times> 'w ctx" where
  "respond P json x = (case json of Inl e \<Rightarrow> (Inl e, x) | Inr t \<Rightarrow> does (n_respond P t) (\<lambda>b. [HRespond t b]) x)"

text \<open>After a reply was sent, the path of an uploaded log is announced.\<close>

definition announce_log :: "'w notify_ops \<Rightarrow> string option \<Rightarrow> string \<Rightarrow> unit res \<times> 'w ctx \<Rightarrow> 'w ctx" where
  "announce_log P log_path sid sent =
     (case sent of
        (Inl _, x) \<Rightarrow> x
      | (Inr _, x) \<Rightarrow>
          (case log_path of
             None \<Rightarrow> x
           | Some path \<Rightarrow> snd (publish_send_logs_response P \<lparr>sl_path = path, sl_session_id = sid\<rparr> x)))"

definition respond_generically :: "'w notify_ops \<Rightarrow> string \<Rightarrow> string \<Rightarrow> exc option \<Rightarrow> 'w ctx \<Rightarrow> 'w ctx" where
  "respond_generically P sid action err x =
     snd (publish_response P sid action (generic_struct (err = None) (map_option exc_str err) sid action) x)"

section \<open>Dispatch\<close>

definition get_bool :: "pyval option \<Rightarrow> bool" where
  "get_bool v = (case v of Some (PBool b) \<Rightarrow> b | Some (PStr s) \<Rightarrow> s = ''true'' | _ \<Rightarrow> False)"

definition get_text :: "pydict \<Rightarrow> string \<Rightarrow> string option" where
  "get_text data k = (case dget data k of Some (PStr s) \<Rightarrow> Some s | _ \<Rightarrow> None)"

text \<open>How a dispatch ends: normally, with an import to be run by a task of its own, or by leaving the process.\<close>

datatype dispatched = DDone | DImport bool string | DExit int

definition do_configure :: "'w ctl_ops \<Rightarrow> 'w notify_ops \<Rightarrow> string \<Rightarrow> bool \<Rightarrow> 'w ctx \<Rightarrow> dispatched \<times> 'w ctx" where
  "do_configure C P url backfill x =
     (case nh_configure C url backfill x of
        (Inl code, x1) \<Rightarrow> (DExit code, x1)
      | (Inr r, x1) \<Rightarrow> (DDone, announce_log P (cr_log_path r) (cr_session_id r) (respond P (gojson_struct (configure_struct r)) x1)))"

definition do_upgrade :: "'w ctl_ops \<Rightarrow> 'w notify_ops \<Rightarrow> string \<Rightarrow> 'w ctx \<Rightarrow> 'w ctx" where
  "do_upgrade C P version x =
     (let r = nh_upgrade C version x in
      announce_log P (ur_log_path r) (ur_session_id r) (publish_response P (ur_session_id r) ''upgrade'' (upgrade_struct r) x))"

definition do_importaction :: "'w ctl_ops \<Rightarrow> 'w notify_ops \<Rightarrow> string \<Rightarrow> bool \<Rightarrow> 'w ctx \<Rightarrow> dispatched \<times> 'w ctx" where
  "do_importaction C P sid backfill x =
     (case nh_backfill_init C backfill x of
        (r, x1) \<Rightarrow>
          (case respond P (gojson_struct (init_backfill_struct r)) x1 of
             (Inl _, x2) \<Rightarrow> (DDone, x2)
           | (Inr _, x2) \<Rightarrow>
               if \<not> ib_success r then (DDone, x2)
               else (DImport backfill (ib_job_id r), publish_simple_status P sid ''import'' [] x2)))"

text \<open>\<open>_run_import\<close> of the consumer, the task of its own.\<close>

definition import_task :: "'w ctl_ops \<Rightarrow> 'w notify_ops \<Rightarrow> bool \<Rightarrow> string \<Rightarrow> 'w ctx \<Rightarrow> int option \<times> 'w ctx" where
  "import_task C P backfill job_id x =
     (case nh_import_action C backfill job_id x of
        (Inl code, x1) \<Rightarrow> (Some code, x1)
      | (Inr r, x1) \<Rightarrow>
          (None, announce_log P (im_log_path r) (im_session_id r) (publish_response P (im_session_id r) ''import'' (import_struct r) x1)))"

text \<open>\<open>text\<close> is the JSON of the notification, which goes into the messages.\<close>

definition dispatch ::
    "'w ctl_ops \<Rightarrow> 'w notify_ops \<Rightarrow> string \<Rightarrow> string \<Rightarrow> string \<Rightarrow> pydict \<Rightarrow> 'w ctx \<Rightarrow> dispatched \<times> 'w ctx" where
  "dispatch C P sid text action data x =
     (if action = ''restart'' then
        (DDone, respond_generically P sid action None (nh_restart C (publish_simple_status P sid ''restart'' [] x)))
      else if action = ''ping'' then
        (DDone, case get_text data ''subject'' of
                  None \<Rightarrow> x
                | Some subject \<Rightarrow> snd (does (n_pong P subject) (\<lambda>b. [HPong subject b]) x))
      else if action = ''shutdown'' then
        (DDone, case get_text data ''message'' of
                  None \<Rightarrow> x
                | Some message \<Rightarrow> nh_shutdown C message (get_bool (dget data ''deleted'')) x)
      else if action = ''pause'' then
        (DDone, case nh_pause C x of (err, x1) \<Rightarrow> respond_generically P sid action err x1)
      else if action = ''unpause'' then
        (DDone, case nh_unpause C x of (err, x1) \<Rightarrow> respond_generically P sid action err x1)
      else if action = ''upgrade'' then
        (DDone, case get_text data ''version'' of
                  None \<Rightarrow> publish_simple_status P sid ''upgrade'' (''invalid upgrade notification. missing version for: '' @ text) x
                | Some version \<Rightarrow> do_upgrade C P version (publish_simple_status P sid ''upgrade'' [] x))
      else if action = ''sendlogs'' then (DDone, call_send_logs C P x)
      else if action = ''configure'' then
        do_configure C P (case get_text data ''url'' of None \<Rightarrow> [] | Some url \<Rightarrow> url) (get_bool (dget data ''backfill'')) x
      else if action = ''import'' then do_importaction C P sid (get_bool (dget data ''backfill'')) x
      else if action = ''driverconfig'' then (DDone, snd (respond P (n_driver_config P (cx_session_id x)) x))
      else if action = ''validate'' then
        (DDone, case (get_text data ''driver'', dget data ''config'') of
                  (Some driver, Some (PDict config)) \<Rightarrow> snd (respond P (gojson_struct (validate_struct (nh_validate C driver config x))) x)
                | _ \<Rightarrow> x)
      else (DDone, x))"

text \<open>\<open>_callback\<close> on the decoded message: anything but an object is dropped.\<close>

definition notify_callback ::
    "'w ctl_ops \<Rightarrow> 'w notify_ops \<Rightarrow> string \<Rightarrow> pyval res \<Rightarrow> 'w ctx \<Rightarrow> (exc + dispatched) \<times> 'w ctx" where
  "notify_callback C P sid raw x =
     (case raw of
        Inr (PDict kv) \<Rightarrow>
          (let action = (case dget kv ''action'' of Some (PStr a) \<Rightarrow> a | _ \<Rightarrow> []);
               data = (case dget kv ''data'' of Some (PDict d) \<Rightarrow> d | _ \<Rightarrow> [])
           in case gojson_struct (notification_struct action data) of
                Inl e \<Rightarrow> (Inl e, x)
              | Inr text \<Rightarrow> (case dispatch C P sid text action data x of (d, x1) \<Rightarrow> (Inr d, x1)))
      | _ \<Rightarrow> (Inr DDone, x))"

section \<open>The configuration file\<close>

fun writes :: "hcall \<Rightarrow> bool" where
  "writes (HSetConfig _ _ _) = True"
| "writes _ = False"

text \<open>Steps that do not write the configuration file and keep the URL of the driver.\<close>

definition unwritten :: "'w ctx \<Rightarrow> 'w ctx \<Rightarrow> bool" where
  "unwritten x x' \<longleftrightarrow> (\<exists>cs. cx_trace x' = cx_trace x @ cs \<and> list_all (\<lambda>c. \<not> writes c) cs) \<and> cx_driver_url x' = cx_driver_url x"

lemma unwritten_refl [simp]: "unwritten x x"
  by (simp add: unwritten_def)

lemma unwritten_trans: "unwritten x y \<Longrightarrow> unwritten y z \<Longrightarrow> unwritten x z"
  by (fastforce simp: unwritten_def)

lemma unwritten_leaves: "leaves x cs x' \<Longrightarrow> list_all (\<lambda>c. \<not> writes c) cs \<Longrightarrow> unwritten x x'"
  by (auto simp: unwritten_def leaves_fields)

lemma unwritten_does: "does f tr x = (r, x') \<Longrightarrow> (\<And>b. list_all (\<lambda>c. \<not> writes c) (tr b)) \<Longrightarrow> unwritten x x'"
  by (rule unwritten_leaves [OF leaves_does])

lemma unwritten_snd_does: "(\<And>b. list_all (\<lambda>c. \<not> writes c) (tr b)) \<Longrightarrow> unwritten x (snd (does f tr x))"
  by (rule unwritten_does [of f tr x "fst (does f tr x)"]) simp_all

lemma unwritten_publish: "publish P sid action md fs x = (r, x') \<Longrightarrow> unwritten x x'"
  unfolding publish_def Let_def by (erule unwritten_does) simp

lemma unwritten_snd_publish [simp]:
  "unwritten x (snd (publish P sid action md fs x))" "unwritten x (snd (publish_response P sid action fs x))"
  "unwritten x (publish_simple_status P sid action e x)" "unwritten x (respond_generically P sid action err x)"
  "unwritten x (snd (publish_send_logs_response P r x))"
proof -
  show p: "unwritten x (snd (publish P sid action md fs x))" for P :: "'w notify_ops" and sid action md fs x
    by (cases "publish P sid action md fs x") (simp add: unwritten_publish)
  show "unwritten x (snd (publish_response P sid action fs x))" "unwritten x (publish_simple_status P sid action e x)"
    "unwritten x (respond_generically P sid action err x)" "unwritten x (snd (publish_send_logs_response P r x))"
    by (simp_all only: publish_response_def publish_simple_status_def publish_status_def respond_generically_def
        publish_send_logs_response_def p)
qed

lemma unwritten_respond: "respond P json x = (r, x') \<Longrightarrow> unwritten x x'"
  by (auto simp: respond_def split: sum.splits intro: unwritten_does)

lemma unwritten_announce: "unwritten x (snd sent) \<Longrightarrow> unwritten x (announce_log P log_path sid sent)"
  by (auto simp: announce_log_def split: prod.splits sum.splits option.splits intro: unwritten_trans)

lemma unwritten_loopback: "loopback C path x = (e, x') \<Longrightarrow> unwritten x x'"
  using loopback_leaves [of C path x e x'] by (auto intro: unwritten_leaves split: if_splits)

lemma unwritten_restart [simp]: "unwritten x (nh_restart C x)"
  using restart_leaves [of x C] by (auto intro: unwritten_leaves split: if_splits)

lemma upload_no_write: "is_upload c \<Longrightarrow> \<not> writes c"
  by (cases c) simp_all

lemma uploads_unwritten: "list_all is_upload cs \<Longrightarrow> list_all (\<lambda>c. \<not> writes c) cs"
  using upload_no_write by (simp add: list_all_iff)

lemma unwritten_run_import:
  assumes "run_import_fork C url so vo job x = (r, x')"
  shows "unwritten x x'"
proof -
  from run_import_fork_leaves [OF assms] obtain ec cs where
    l: "leaves x (HForkImport (import_args x url so vo job) ec # cs) x'" "list_all is_upload cs" by blast
  from unwritten_leaves [OF l(1)] uploads_unwritten [OF l(2)] show ?thesis by simp
qed

lemma unwritten_control_get: "control_get C path x = (r, x') \<Longrightarrow> unwritten x x'"
  by (drule leaves_control_get) (erule unwritten_leaves, simp)

lemma unwritten_send_logs:
  assumes "nh_send_logs C x = (r, x')"
  shows "unwritten x x'"
proof (cases "cx_session_id x = []")
  case False
  obtain r1 x1 where 1: "control_get C ''logfile'' x = (r1, x1)" by fastforce
  obtain r2 x2 where 2: "does (h_get_log_upload_url C (cx_session_id x1)) (\<lambda>_. []) x1 = (r2, x2)" by fastforce
  obtain r3 x3 where 3: "does (h_upload_log_file C (projr r2) (projr r1)) (\<lambda>b. [HUpload (projr r2) (projr r1) b]) x2 = (r3, x3)" by fastforce
  let ?x4 = "snd (does (h_remove C (projr r1)) (\<lambda>_. [HRemove (projr r1)]) x3)"
  have u1: "unwritten x x1" by (rule unwritten_control_get [OF 1])
  have u2: "unwritten x x2" by (rule unwritten_trans [OF u1 unwritten_does [OF 2]]) simp
  have u3: "unwritten x x3" by (rule unwritten_trans [OF u2 unwritten_does [OF 3]]) simp
  have u4: "unwritten x ?x4" by (rule unwritten_trans [OF u3 unwritten_snd_does]) simp
  have "x' = x1 \<or> x' = x2 \<or> x' = x3 \<or> x' = ?x4" using assms 1 2 3 False
    by (auto simp: nh_send_logs_def split: sum.splits if_splits)
  with u1 u2 u3 u4 show ?thesis by blast
qed (use assms in \<open>simp add: nh_send_logs_def\<close>)

lemma unwritten_backfill_init: "nh_backfill_init C b x = (r, x') \<Longrightarrow> unwritten x x'"
  by (auto simp: nh_backfill_init_def split: if_splits prod.splits sum.splits elim!: unwritten_does)

text \<open>A shutdown and a configuration.\<close>

lemma shutdown_writes:
  "unwritten x (nh_shutdown C m del x) \<or>
   (\<exists>b. del \<and> cx_fork_running x \<and> leaves x [HControl ''shutdown'' True, HSetConfig ''server_id'' [] b] (nh_shutdown C m del x))"
proof (cases "cx_fork_running x")
  case True
  obtain r x1 where r: "control_get C ''shutdown'' x = (r, x1)" by fastforce
  obtain r2 x2 where 2: "does (h_set_config_value C ''server_id'' []) (\<lambda>b. [HSetConfig ''server_id'' [] b]) x1 = (r2, x2)" by fastforce
  show ?thesis
  proof (cases "succeeded r \<and> del")
    case ok: True
    with r True 2 have "nh_shutdown C m del x = x2" by (auto simp: nh_shutdown_def succeeded_def split: sum.splits)
    with leaves_trans [OF leaves_control_get [OF r] leaves_does [OF 2]] ok True show ?thesis by auto
  next
    case False
    with r True have "nh_shutdown C m del x = x1" by (auto simp: nh_shutdown_def succeeded_def split: sum.splits)
    with unwritten_control_get [OF r] show ?thesis by simp
  qed
qed (simp add: nh_shutdown_def)

lemma configure_writes:
  assumes "nh_configure C url bf x = (r, x')"
  shows "unwritten x x' \<or> (\<exists>b pre rest. cx_driver_url x' = url \<and> list_all (\<lambda>c. \<not> writes c) (pre @ rest) \<and>
    cx_trace x' = cx_trace x @ HForkImport (import_args x url False True []) (Some 0) # pre @ HSetConfig ''url'' url b # rest)"
proof -
  obtain q x1 where q: "run_import_fork C url False True [] x = (q, x1)" by fastforce
  show ?thesis
  proof (cases "\<exists>i. q = Inr i \<and> ir_success i \<and> ir_validated i")
    case True
    then obtain i where i: "q = Inr i" "ir_success i" "ir_validated i" by blast
    obtain r2 x2 where 2: "does (h_set_config_value C ''url'' url) (\<lambda>b. [HSetConfig ''url'' url b]) x1 = (r2, x2)" by fastforce
    from run_import_fork_leaves [OF q] i obtain cs where
      l: "leaves x (HForkImport (import_args x url False True []) (Some 0) # cs) x1" "list_all is_upload cs"
      by (auto simp: verdict_def)
    let ?x2 = "x2\<lparr>cx_driver_url := url\<rparr>"
    from assms q i 2 have x': "x' = (if cx_configured ?x2 then ?x2 else nh_restart C ?x2)" by (auto simp: nh_configure_def Let_def)
    then have "unwritten ?x2 x'" by simp
    then obtain rest where rest: "cx_trace x' = cx_trace x2 @ rest" "list_all (\<lambda>c. \<not> writes c) rest" "cx_driver_url x' = url"
      by (auto simp: unwritten_def)
    from leaves_fields(1) [OF leaves_trans [OF l(1) leaves_does [OF 2]]] have
      "cx_trace x2 = cx_trace x @ HForkImport (import_args x url False True []) (Some 0) # cs @ [HSetConfig ''url'' url (succeeded r2)]" by simp
    with rest uploads_unwritten [OF l(2)] show ?thesis
      by (intro disjI2 exI [of _ "succeeded r2"] exI [of _ cs] exI [of _ rest]) simp
  next
    case False
    with assms q have "x' = x1" by (auto simp: nh_configure_def Let_def split: sum.splits if_splits)
    with unwritten_run_import [OF q] show ?thesis by simp
  qed
qed

lemma unwritten_pause: "unwritten x (case nh_pause C x of (err, x1) \<Rightarrow> respond_generically P sid action err x1)"
  by (cases "nh_pause C x") (auto simp: nh_pause_def intro: unwritten_trans [OF unwritten_loopback])

lemma unwritten_unpause: "unwritten x (case nh_unpause C x of (err, x1) \<Rightarrow> respond_generically P sid action err x1)"
  by (cases "nh_unpause C x") (auto simp: nh_unpause_def intro: unwritten_trans [OF unwritten_loopback])

lemma unwritten_upgrade: "unwritten x (do_upgrade C P version x)"
  by (simp add: do_upgrade_def Let_def unwritten_announce)

lemma unwritten_call_send_logs: "unwritten x (call_send_logs C P x)"
  by (auto simp: call_send_logs_def split: prod.splits option.splits
      intro: unwritten_send_logs unwritten_trans [OF unwritten_send_logs])

lemma unwritten_snd_respond: "unwritten x (snd (respond P json x))"
  by (cases "respond P json x") (simp add: unwritten_respond)

lemma unwritten_importaction: "unwritten x (snd (do_importaction C P sid b x))"
proof -
  obtain r x1 where 1: "nh_backfill_init C b x = (r, x1)" by fastforce
  obtain r2 x2 where 2: "respond P (gojson_struct (init_backfill_struct r)) x1 = (r2, x2)" by fastforce
  have u: "unwritten x x2" by (rule unwritten_trans [OF unwritten_backfill_init [OF 1] unwritten_respond [OF 2]])
  with 1 2 show ?thesis
    by (auto simp: do_importaction_def split: sum.splits intro: unwritten_trans [OF u])
qed

definition writes_config :: "string \<Rightarrow> pydict \<Rightarrow> 'w ctx \<Rightarrow> 'w ctx \<Rightarrow> bool" where
  "writes_config action data x x' \<longleftrightarrow> unwritten x x'
     \<or> (\<exists>b. action = ''shutdown'' \<and> get_bool (dget data ''deleted'') \<and> cx_driver_url x' = cx_driver_url x \<and>
          cx_trace x' = cx_trace x @ [HControl ''shutdown'' True, HSetConfig ''server_id'' [] b])
     \<or> (\<exists>url b pre rest. action = ''configure'' \<and> cx_driver_url x' = url \<and> list_all (\<lambda>c. \<not> writes c) (pre @ rest) \<and>
          cx_trace x' = cx_trace x @ HForkImport (import_args x url False True []) (Some 0) # pre @ HSetConfig ''url'' url b # rest)"

lemma do_configure_writes: "writes_config ''configure'' data x (snd (do_configure C P url bf x))"
proof -
  obtain r x1 where 1: "nh_configure C url bf x = (r, x1)" by fastforce
  obtain d x2 where 2: "do_configure C P url bf x = (d, x2)" by fastforce
  from 1 2 have u: "unwritten x1 x2"
    by (auto simp: do_configure_def unwritten_announce unwritten_snd_respond split: sum.splits)
  from configure_writes [OF 1] show ?thesis
  proof
    assume "unwritten x x1"
    from unwritten_trans [OF this u] 2 show ?thesis by (simp add: writes_config_def)
  next
    assume "\<exists>b pre rest. cx_driver_url x1 = url \<and> list_all (\<lambda>c. \<not> writes c) (pre @ rest) \<and>
      cx_trace x1 = cx_trace x @ HForkImport (import_args x url False True []) (Some 0) # pre @ HSetConfig ''url'' url b # rest"
    then obtain b pre rest where r: "cx_driver_url x1 = url" "list_all (\<lambda>c. \<not> writes c) (pre @ rest)"
      "cx_trace x1 = cx_trace x @ HForkImport (import_args x url False True []) (Some 0) # pre @ HSetConfig ''url'' url b # rest" by blast
    from u obtain cs where cs: "cx_trace x2 = cx_trace x1 @ cs" "list_all (\<lambda>c. \<not> writes c) cs" "cx_driver_url x2 = cx_driver_url x1"
      by (auto simp: unwritten_def)
    have "list_all (\<lambda>c. \<not> writes c) (pre @ rest @ cs)" using r(2) cs(2) by simp
    moreover have "cx_trace x2 = cx_trace x @ HForkImport (import_args x url False True []) (Some 0) # pre @ HSetConfig ''url'' url b # rest @ cs"
      using cs(1) r(3) by simp
    ultimately show ?thesis using 2 cs(3) r(1) unfolding writes_config_def by (intro disjI2) (auto intro!: exI [of _ b])
  qed
qed

lemma shutdown_writes_config:
  "writes_config ''shutdown'' data x (case get_text data ''message'' of None \<Rightarrow> x | Some m \<Rightarrow> nh_shutdown C m (get_bool (dget data ''deleted'')) x)"
proof (cases "get_text data ''message''")
  case (Some m)
  from shutdown_writes [of x C m "get_bool (dget data ''deleted'')"] Some show ?thesis
    by (auto simp: writes_config_def dest: leaves_fields(1,5))
qed (simp add: writes_config_def)

lemma writes_config_unwritten: "unwritten x x' \<Longrightarrow> writes_config action data x x'"
  by (simp add: writes_config_def)

lemma if_snd: "(\<not> b \<Longrightarrow> P (snd c)) \<Longrightarrow> (b \<Longrightarrow> P (snd a)) \<Longrightarrow> P (snd (if b then a else c))"
  by simp

lemma unwritten_validate:
  "unwritten x (case (get_text data ''driver'', dget data ''config'') of
     (Some driver, Some (PDict config)) \<Rightarrow> snd (respond P (gojson_struct (validate_struct (nh_validate C driver config x))) x) | _ \<Rightarrow> x)"
  by (auto simp: unwritten_snd_respond split: option.splits pyval.splits)

lemma unwritten_upgrade_request:
  "unwritten x (case get_text data ''version'' of None \<Rightarrow> publish_simple_status P sid ''upgrade'' m x
     | Some version \<Rightarrow> do_upgrade C P version (publish_simple_status P sid ''upgrade'' [] x))"
  by (auto intro: unwritten_trans [OF _ unwritten_upgrade] split: option.splits)

lemma unwritten_ping:
  "unwritten x (case get_text data ''subject'' of None \<Rightarrow> x | Some subject \<Rightarrow> snd (does (n_pong P subject) (\<lambda>b. [HPong subject b]) x))"
  by (auto intro: unwritten_snd_does split: option.splits)

lemma unwritten_restart_request:
  "unwritten x (respond_generically P sid action None (nh_restart C (publish_simple_status P sid ''restart'' [] x)))"
  by (rule unwritten_trans [OF unwritten_trans [OF unwritten_snd_publish(3) unwritten_restart] unwritten_snd_publish(4)])

lemmas unwritten_requests = unwritten_validate unwritten_upgrade_request unwritten_ping unwritten_restart_request unwritten_pause
  unwritten_unpause unwritten_call_send_logs unwritten_snd_respond unwritten_importaction unwritten_refl

lemma dispatch_writes: "writes_config action data x (snd (dispatch C P sid text action data x))"
  unfolding dispatch_def
  apply (rule if_snd [where P = "writes_config action data x"])+
             apply (unfold snd_conv)
             apply (rule writes_config_unwritten, rule unwritten_requests)+
     apply (erule ssubst, rule do_configure_writes)
    apply (rule writes_config_unwritten, rule unwritten_requests)+
   apply (erule ssubst, rule shutdown_writes_config)
  apply (rule writes_config_unwritten, rule unwritten_requests)+
  done

text \<open>The import that a notification has started, in its task.\<close>

lemma unwritten_nh_pause: "unwritten x (snd (nh_pause C x))"
  by (cases "nh_pause C x") (auto simp: nh_pause_def intro: unwritten_loopback)

lemma unwritten_signal: "unwritten x (signal_configured x)"
  by (simp add: unwritten_def signal_configured_def)

lemma unwritten_import_action:
  assumes "nh_import_action C backfill job_id x = (r, x')"
  shows "unwritten x x'"
proof -
  let ?x1 = "snd (nh_pause C x)"
  obtain q x2 where q: "run_import_fork C (cx_driver_url ?x1) (\<not> backfill) False job_id ?x1 = (q, x2)" by fastforce
  have "unwritten x x2" by (rule unwritten_trans [OF unwritten_nh_pause unwritten_run_import [OF q]])
  moreover have "unwritten x2 x'" using assms q
    by (auto simp: nh_import_action_def Let_def unwritten_signal split: sum.splits if_splits)
  ultimately show ?thesis by (rule unwritten_trans)
qed

lemma unwritten_import_task:
  assumes "import_task C P backfill job_id x = (r, x')"
  shows "unwritten x x'"
proof -
  obtain q x1 where q: "nh_import_action C backfill job_id x = (q, x1)" by fastforce
  have "unwritten x1 x'"
  proof (cases q)
    case (Inl code)
    with assms q show ?thesis by (simp add: import_task_def)
  next
    case (Inr m)
    with assms q show ?thesis by (auto simp: import_task_def intro!: unwritten_announce)
  qed
  with unwritten_import_action [OF q] show ?thesis by (rule unwritten_trans)
qed

section \<open>Properties\<close>

lemma writes_config_cases:
  assumes "writes_config action data x x'" "cx_trace x' = cx_trace x @ cs" "HSetConfig k v b \<in> set cs"
  shows "(k = ''server_id'' \<and> v = [] \<and> action = ''shutdown'' \<and> get_bool (dget data ''deleted'')
       \<and> cs = [HControl ''shutdown'' True, HSetConfig k v b])
    \<or> (k = ''url'' \<and> action = ''configure'' \<and> cx_driver_url x' = v
       \<and> (\<exists>pre rest. cs = HForkImport (import_args x v False True []) (Some 0) # pre @ HSetConfig k v b # rest))"
proof -
  have nw: "\<not> list_all (\<lambda>c. \<not> writes c) cs" using assms(3) by (metis list_all_iff writes.simps(1))
  from assms(1) consider "unwritten x x'"
    | c where "action = ''shutdown''" "get_bool (dget data ''deleted'')" "cs = [HControl ''shutdown'' True, HSetConfig ''server_id'' [] c]"
    | url c pre rest where "action = ''configure''" "cx_driver_url x' = url" "list_all (\<lambda>c. \<not> writes c) (pre @ rest)"
        "cs = HForkImport (import_args x url False True []) (Some 0) # pre @ HSetConfig ''url'' url c # rest"
    unfolding writes_config_def using assms(2) by auto
  then show ?thesis
  proof cases
    case 1
    with assms(2) nw show ?thesis by (auto simp: unwritten_def)
  next
    case 2
    with assms(3) show ?thesis by auto
  next
    case 3
    have "HSetConfig k v b \<notin> set (pre @ rest)" using 3(3) by (metis list_all_iff writes.simps(1))
    with 3(4) assms(3) have "HSetConfig k v b = HSetConfig ''url'' url c" by auto
    with 3 show ?thesis by blast
  qed
qed

lemma callback_writes:
  assumes "notify_callback C P sid raw x = (r, x')" "cx_trace x' = cx_trace x @ cs" "HSetConfig k v b \<in> set cs"
  shows "(\<exists>kv d. k = ''server_id'' \<and> v = [] \<and> raw = Inr (PDict kv) \<and> dget kv ''action'' = Some (PStr ''shutdown'')
       \<and> dget kv ''data'' = Some (PDict d) \<and> get_bool (dget d ''deleted'') \<and> cs = [HControl ''shutdown'' True, HSetConfig k v b])
    \<or> (\<exists>kv pre rest. k = ''url'' \<and> raw = Inr (PDict kv) \<and> dget kv ''action'' = Some (PStr ''configure'') \<and> cx_driver_url x' = v
       \<and> cs = HForkImport (import_args x v False True []) (Some 0) # pre @ HSetConfig k v b # rest)"
proof -
  have ne: "cs \<noteq> []" using assms(3) by auto
  from assms(1,2) ne obtain kv where kv: "raw = Inr (PDict kv)"
    by (auto simp: notify_callback_def split: sum.splits pyval.splits)
  define action where "action = (case dget kv ''action'' of Some (PStr a) \<Rightarrow> a | _ \<Rightarrow> [])"
  define data where "data = (case dget kv ''data'' of Some (PDict d) \<Rightarrow> d | _ \<Rightarrow> [])"
  from assms(1,2) ne obtain t where "x' = snd (dispatch C P sid t action data x)"
    by (auto simp: notify_callback_def kv Let_def action_def [symmetric] data_def [symmetric] split: sum.splits prod.splits) (metis snd_conv)
  with dispatch_writes [of action data x C P sid t] have w: "writes_config action data x x'" by simp
  have a: "action = s \<Longrightarrow> s \<noteq> [] \<Longrightarrow> dget kv ''action'' = Some (PStr s)" for s
    by (auto simp: action_def split: option.splits pyval.splits)
  have d: "get_bool (dget data ''deleted'') \<Longrightarrow> dget kv ''data'' = Some (PDict data)"
    by (auto simp: data_def get_bool_def split: option.splits pyval.splits)
  from writes_config_cases [OF w assms(2,3)] show ?thesis using kv a d by auto
qed

text \<open>C9: when the server process writes the configuration file on a notification, for every message and whatever the calls return. The
  server is de-enrolled only by a shutdown notification that says \<open>deleted\<close>, and only after the consumer process has accepted the
  shutdown. A URL is stored, and used for the driver, only by a configuration, and only after an import process has validated exactly this
  URL and ended with code 0. No other notification writes the file; nor does the task that runs the import which an import notification
  has started, which also keeps the URL of the driver. The import process itself is another process, which may store its number of
  retries.\<close>

theorem config_written:
  assumes "notify_callback C P sid raw x = (r, x')" "cx_trace x' = cx_trace x @ cs"
    and "import_task C P backfill job_id y = (q, y')" "cx_trace y' = cx_trace y @ ds"
  shows "(\<forall>k v b. HSetConfig k v b \<in> set cs \<longrightarrow>
      (\<exists>kv d. k = ''server_id'' \<and> v = [] \<and> raw = Inr (PDict kv) \<and> dget kv ''action'' = Some (PStr ''shutdown'')
         \<and> dget kv ''data'' = Some (PDict d) \<and> get_bool (dget d ''deleted'') \<and> cs = [HControl ''shutdown'' True, HSetConfig k v b])
      \<or> (\<exists>kv pre rest. k = ''url'' \<and> raw = Inr (PDict kv) \<and> dget kv ''action'' = Some (PStr ''configure'') \<and> cx_driver_url x' = v
         \<and> cs = HForkImport (import_args x v False True []) (Some 0) # pre @ HSetConfig k v b # rest))
    \<and> (\<forall>k v b. HSetConfig k v b \<notin> set ds) \<and> cx_driver_url y' = cx_driver_url y"
proof (intro conjI allI impI)
  fix k v b
  show "HSetConfig k v b \<notin> set ds"
    using unwritten_import_task [OF assms(3)] assms(4) by (force simp: unwritten_def list_all_iff)
qed (use callback_writes [OF assms(1,2)] unwritten_import_task [OF assms(3)] in \<open>simp_all add: unwritten_def\<close>)

definition sample_notify :: "unit notify_ops" where
  "sample_notify = \<lparr>n_publish = (\<lambda>_ _ w. (Inr (), w)), n_respond = (\<lambda>_ w. (Inr (), w)), n_pong = (\<lambda>_ w. (Inr (), w)),
     n_driver_config = (\<lambda>_. Inr [])\<rparr>"

definition sample_shutdown :: "pyval res" where
  "sample_shutdown = Inr (PDict [(''action'', PStr ''shutdown''), (''data'', PDict [(''message'', PStr ''m''), (''deleted'', PBool True)])])"

theorem config_written_witness:
  "(\<exists>kv d. sample_shutdown = Inr (PDict kv) \<and> dget kv ''data'' = Some (PDict d) \<and> get_bool (dget d ''deleted'')) \<and>
   cx_driver_url (snd (import_task sample_ctl sample_notify False [] sample_ctx)) = cx_driver_url sample_ctx"
proof -
  obtain r x' where n: "notify_callback sample_ctl sample_notify ''s'' sample_shutdown sample_ctx = (r, x')" by fastforce
  moreover have "cx_trace (snd (notify_callback sample_ctl sample_notify ''s'' sample_shutdown sample_ctx)) =
      [HControl ''shutdown'' True, HSetConfig ''server_id'' [] True]" by code_simp
  ultimately have t: "cx_trace x' = cx_trace sample_ctx @ [HControl ''shutdown'' True, HSetConfig ''server_id'' [] True]"
    by (simp add: sample_ctx_def)
  obtain q y' where i: "import_task sample_ctl sample_notify False [] sample_ctx = (q, y')" by fastforce
  have u: "cx_trace y' = cx_trace sample_ctx @ cx_trace y'" by (simp add: sample_ctx_def)
  from config_written [OF n t i u] i show ?thesis by auto
qed

end
