(* ===== verification/Durable.thy ===== *)
theory Durable
  imports Consumer
begin

text \<open>
  \<open>eds/consumer/consumer.py\<close> with the identities of \<open>eds/consumer/credentials.py\<close> and the connection of
  \<open>eds/consumer/connection.py\<close>: the consumer object, from its credentials and the durable JetStream consumer it creates or
  updates, through start, pause and unpause, to its stop.

  The NATS client is a record of operations on the world \<open>'w\<close>; every call is recorded. The theorems say what
  \<open>create\<close> asks JetStream for, that it never asks for a company that is not in the credentials, and what the life
  cycle keeps.
\<close>

section \<open>Credentials\<close>

text \<open>The two regular expressions: a literal prefix, a non-empty run of id characters, a dot. In the second one the dots
  of the prefix stand for any character but a line feed.\<close>

definition id_char :: "char \<Rightarrow> bool" where
  "id_char c \<longleftrightarrow> c \<in> set ''abcdef0123456789-''"

definition id_match :: "string \<Rightarrow> string" where
  "id_match s =
     (let i = takeWhile id_char s in
      case dropWhile id_char s of
        [] \<Rightarrow> []
      | c # _ \<Rightarrow> if i \<noteq> [] \<and> c = CHR ''.'' then i else [])"

definition after_prefix :: "string \<Rightarrow> string \<Rightarrow> string option" where
  "after_prefix p s = (if take (length p) s = p then Some (drop (length p) s) else None)"

definition after_any :: "string \<Rightarrow> string option" where
  "after_any s =
     (case s of
        [] \<Rightarrow> None
      | c # r \<Rightarrow> if c = NL then None else Some (dropWhile (\<lambda>d. 0x80 \<le> (of_char d :: nat) \<and> (of_char d :: nat) < 0xC0) r))"

definition extract_company_id_from_dbchange_subscription :: "string \<Rightarrow> string" where
  "extract_company_id_from_dbchange_subscription sub =
     (case after_prefix ''dbchange.*.*.'' sub of None \<Rightarrow> [] | Some r \<Rightarrow> id_match r)"

definition extract_session_id_from_eds_subscription :: "string \<Rightarrow> string" where
  "extract_session_id_from_eds_subscription sub =
     (case Option.bind (Option.bind (Option.bind (after_prefix ''eds'' sub) after_any) (after_prefix ''notify'')) after_any of
        None \<Rightarrow> [] | Some r \<Rightarrow> id_match r)"

record cred_info =
  ci_company_ids :: "string list"
  ci_server_id :: string
  ci_session_id :: string

text \<open>\<open>x.get(k) or {}\<close> on the claims; the loop over the allowed subjects (a string is iterated by its characters and a
  dictionary by its keys; single characters match neither expression).\<close>

definition claims_get :: "pyval \<Rightarrow> string \<Rightarrow> pyval \<Rightarrow> pyval res" where
  "claims_get v k d =
     (case v of
        PDict kv \<Rightarrow> (case dget kv k of Some x \<Rightarrow> Inr (if falsy x then d else x) | None \<Rightarrow> Inr d)
      | _ \<Rightarrow> Inl (AttributeError (''object has no attribute '' @ [SQ] @ ''get'' @ [SQ])))"

definition allowed_subjects :: "pyval \<Rightarrow> pyval list res" where
  "allowed_subjects v =
     (case v of
        PList xs \<Rightarrow> Inr xs
      | PDict kv \<Rightarrow> Inr (map (\<lambda>p. PStr (fst p)) kv)
      | PStr s \<Rightarrow> Inr []
      | _ \<Rightarrow> Inl (TypeError ''object is not iterable''))"

fun scan_subjects :: "pyval list \<Rightarrow> string list \<Rightarrow> string \<Rightarrow> (string list \<times> string) res" where
  "scan_subjects [] cids sid = Inr (cids, sid)"
| "scan_subjects (PStr sub # rest) cids sid =
     (let maybe_session = extract_session_id_from_eds_subscription sub in
      if maybe_session \<noteq> [] then scan_subjects rest cids maybe_session
      else let company_id = extract_company_id_from_dbchange_subscription sub in
           scan_subjects rest (if company_id \<noteq> [] then cids @ [company_id] else cids) sid)"
| "scan_subjects (_ # rest) cids sid = Inl (TypeError ''expected string or bytes-like object'')"

text \<open>\<open>get_nats_creds\<close> from the claims on: company ids, server id and session id.\<close>

definition get_nats_creds :: "pydict \<Rightarrow> (string list \<times> pyval \<times> string) res" where
  "get_nats_creds claims =
     andthen (claims_get (PDict claims) ''nats'' (PDict [])) (\<lambda>nats_perms.
     andthen (claims_get nats_perms ''sub'' (PDict [])) (\<lambda>sub_perms.
     andthen (claims_get sub_perms ''allow'' (PList [])) (\<lambda>allow.
     andthen (allowed_subjects allow) (\<lambda>allowed.
     andthen (scan_subjects allowed [] []) (\<lambda>(company_ids, session_id).
       if company_ids = [] then Inl (ValueError ''issue parsing company IDs from JWT claims. Ensure the JWT has the correct permissions'')
       else case dget claims ''name'' of
              None \<Rightarrow> Inl (ValueError ''missing server id in credential'')
            | Some server_id \<Rightarrow> if falsy server_id then Inl (ValueError ''missing server id in credential'')
                               else Inr (company_ids, server_id, session_id))))))"

section \<open>The JetStream side\<close>

datatype deliver_policy = DeliverAll | DeliverNew | DeliverByStartTime | DeliverOther string

record js_config =
  js_durable_name :: string
  js_max_ack_pending :: int
  js_max_deliver :: int
  js_ack_wait :: int
  js_filter_subjects :: "string list"
  js_inactive_threshold :: int
  js_max_waiting :: int
  js_deliver_policy :: deliver_policy
  js_opt_start_time :: "int option"

record js_info =
  ji_deliver_policy :: deliver_policy
  ji_opt_start_time :: "int option"
  ji_max_waiting :: int
  ji_num_waiting :: "int option"
  ji_consumer_seq :: int

text \<open>The settings of the consumer: those of the batches (\<^typ>\<open>consumer_config\<close>) and the rest of \<open>ConsumerConfig\<close>; of
  driver, registry and validator it matters what they are able to do.\<close>

record nats_config = consumer_config +
  nc_credentials :: string
  nc_company_ids :: "string list"
  nc_suffix :: string
  nc_export_table_timestamps :: "(string \<times> int option) list option"
  nc_deliver_all :: bool
  nc_session_handler :: bool
  nc_supports_migration :: bool
  nc_has_registry :: bool
  nc_has_validator :: bool
  nc_session_id_callback :: bool

text \<open>The operations of the client: the claims of a credential file, a fresh identifier, the connection, and JetStream's
  consumer calls (\<open>None\<close> is \<open>NotFoundError\<close>); of the driver and the registry: what the schema update needs.\<close>

record 'w nats_ops =
  n_claims :: "string \<Rightarrow> 'w \<Rightarrow> pydict res \<times> 'w"
  n_uuid :: "'w \<Rightarrow> string \<times> 'w"
  n_connect :: "string \<Rightarrow> 'w \<Rightarrow> unit res \<times> 'w"
  n_close :: "'w \<Rightarrow> unit res \<times> 'w"
  n_consumer_info :: "string \<Rightarrow> 'w \<Rightarrow> js_info option res \<times> 'w"
  n_add_consumer :: "js_config \<Rightarrow> 'w \<Rightarrow> unit res \<times> 'w"
  n_bind :: "string \<Rightarrow> 'w \<Rightarrow> unit res \<times> 'w"
  n_unsubscribe :: "'w \<Rightarrow> unit res \<times> 'w"
  n_set_session_id :: "string \<Rightarrow> 'w \<Rightarrow> unit res \<times> 'w"
  n_session_id_callback :: "string \<Rightarrow> 'w \<Rightarrow> unit res \<times> 'w"
  n_latest_schema :: "'w \<Rightarrow> (string \<times> schema) list res \<times> 'w"
  n_destination_schema :: "'w \<Rightarrow> database_schema res \<times> 'w"

datatype ncall =
    NConnect string | NClose | NInfo string | NAdd js_config | NBind string | NUnsubscribe
  | NSetSession string | NCallback string | NSchema "call list"
  | NSpawnConsume | NSpawnBufferer | NSpawnHeartbeat | NCancelConsume | NSentinel | NAbort | NAwaitBufferer | NCancelHeartbeat

section \<open>The consumer\<close>

datatype task = Absent | Active | Done

text \<open>The steps of \<open>stop\<close>, in order; between them the task that runs it waits, and other tasks go on. A stop that the
  consumer has scheduled for itself is a task of its own: \<open>cn_scheduled\<close> says that it was created and has not begun,
  \<open>cn_stop_left\<close> is what it still has to do.\<close>

datatype stop_step = SConsume | SUnsubscribe | SBufferer | SHeartbeat | SClose

definition STOP_STEPS :: "stop_step list" where
  "STOP_STEPS = [SConsume, SUnsubscribe, SBufferer, SHeartbeat, SClose]"

record 'w consumer =
  cn_connected :: bool
  cn_psub :: bool
  cn_session_id :: string
  cn_company_ids :: "string list"
  cn_durable :: string
  cn_processor :: "'w bp option"
  cn_stopping :: bool
  cn_scheduled :: bool
  cn_stop_left :: "stop_step list"
  cn_running :: bool
  cn_consume :: task
  cn_bufferer :: task
  cn_heartbeat :: task
  cn_error :: "string option"
  cn_fatal :: bool
  cn_disconnected :: bool
  cn_paused_at :: "int option"
  cn_world :: 'w
  cn_trace :: "ncall list"

definition new_consumer :: "'w \<Rightarrow> 'w consumer" where
  "new_consumer w = \<lparr>cn_connected = False, cn_psub = False, cn_session_id = [], cn_company_ids = [], cn_durable = [],
     cn_processor = None, cn_stopping = False, cn_scheduled = False, cn_stop_left = [], cn_running = False, cn_consume = Absent, cn_bufferer = Absent,
     cn_heartbeat = Absent, cn_error = None, cn_fatal = False, cn_disconnected = False, cn_paused_at = None,
     cn_world = w, cn_trace = []\<rparr>"

definition noted :: "ncall list \<Rightarrow> 'w consumer \<Rightarrow> 'w consumer" where
  "noted cs c = c\<lparr>cn_trace := cn_trace c @ cs\<rparr>"

definition ask :: "('w \<Rightarrow> 'a res \<times> 'w) \<Rightarrow> ncall list \<Rightarrow> 'w consumer \<Rightarrow> 'a res \<times> 'w consumer" where
  "ask f cs c = (case f (cn_world c) of (r, w) \<Rightarrow> (r, noted cs (c\<lparr>cn_world := w\<rparr>)))"

definition suppress :: "('w \<Rightarrow> 'a res \<times> 'w) \<Rightarrow> ncall list \<Rightarrow> 'w consumer \<Rightarrow> 'w consumer" where
  "suppress f cs c = snd (ask f cs c)"

subsection \<open>Create\<close>

text \<open>\<open>new_nats_connection\<close>: without a credential file the identity of a development server.\<close>

definition new_nats_connection :: "'w nats_ops \<Rightarrow> string \<Rightarrow> 'w consumer \<Rightarrow> cred_info res \<times> 'w consumer" where
  "new_nats_connection N creds c =
     (if creds = [] then
        case n_uuid N (cn_world c) of (u, w) \<Rightarrow>
          andthen_st (ask (n_connect N ''eds-dev'') [NConnect ''eds-dev''] (c\<lparr>cn_world := w\<rparr>))
            (\<lambda>_ c1. (Inr \<lparr>ci_company_ids = [''*''], ci_server_id = ''dev'', ci_session_id = u\<rparr>, c1))
      else
        andthen_st (ask (n_claims N creds) [] c) (\<lambda>claims c1.
          case get_nats_creds claims of
            Inl e \<Rightarrow> (Inl e, c1)
          | Inr (company_ids, PStr server_id, session_id) \<Rightarrow>
              andthen_st (ask (n_connect N (''eds-'' @ server_id)) [NConnect (''eds-'' @ server_id)] c1)
                (\<lambda>_ c2. (Inr \<lparr>ci_company_ids = company_ids, ci_server_id = server_id, ci_session_id = session_id\<rparr>, c2))
          | Inr _ \<Rightarrow> (Inl (TypeError ''can only concatenate str (not another type) to str''), c1)))"

text \<open>The override of the company ids; a refused one closes the connection.\<close>

definition resolve_companies :: "'w nats_ops \<Rightarrow> nats_config \<Rightarrow> cred_info \<Rightarrow> 'w consumer \<Rightarrow> unit res \<times> 'w consumer" where
  "resolve_companies N cfg info c =
     (if nc_company_ids cfg \<noteq> [] then
        case validate_company_ids (nc_company_ids cfg) (ci_company_ids info) of
          Inl e \<Rightarrow> andthen_st (ask (n_close N) [NClose] c) (\<lambda>_ c1. (Inl e, c1))
        | Inr companies \<Rightarrow> (Inr (), c\<lparr>cn_company_ids := companies\<rparr>)
      else (Inr (), c\<lparr>cn_company_ids := ci_company_ids info\<rparr>))"

definition base_js_config :: "nats_config \<Rightarrow> 'w consumer \<Rightarrow> js_config" where
  "base_js_config cfg c = \<lparr>js_durable_name = cn_durable c, js_max_ack_pending = batch_max (consumer_config.truncate cfg),
     js_max_deliver = 20, js_ack_wait = 300, js_filter_subjects = filter_subjects (cn_company_ids c),
     js_inactive_threshold = 259200, js_max_waiting = 1, js_deliver_policy = DeliverAll, js_opt_start_time = None\<rparr>"

definition deliver_config :: "nats_config \<Rightarrow> js_info option \<Rightarrow> js_config \<Rightarrow> js_config" where
  "deliver_config cfg existing j =
     (case existing of
        Some i \<Rightarrow> j\<lparr>js_deliver_policy := ji_deliver_policy i, js_opt_start_time := ji_opt_start_time i, js_max_waiting := ji_max_waiting i\<rparr>
      | None \<Rightarrow>
          if nc_deliver_all cfg then j\<lparr>js_deliver_policy := DeliverAll\<rparr>
          else case earliest_timestamp (nc_export_table_timestamps cfg) of
                 Some t \<Rightarrow> j\<lparr>js_deliver_policy := DeliverByStartTime, js_opt_start_time := Some t\<rparr>
               | None \<Rightarrow> j\<lparr>js_deliver_policy := DeliverNew\<rparr>)"

definition ALREADY_RUNNING :: exc where
  "ALREADY_RUNNING = RuntimeError []"

definition NOT_FOUND :: exc where
  "NOT_FOUND = RuntimeError ''nats: NotFoundError''"

definition new_processor :: "nats_config \<Rightarrow> int \<Rightarrow> 'w \<Rightarrow> 'w bp" where
  "new_processor cfg sequence w = \<lparr>bp_max = batch_max (consumer_config.truncate cfg),
     bp_min_pending_latency = effective_min_pending_latency (consumer_config.truncate cfg),
     bp_max_pending_latency = effective_max_pending_latency (consumer_config.truncate cfg),
     bp_table_timestamps = nc_export_table_timestamps cfg, bp_supports_migration = nc_supports_migration cfg,
     bp_has_registry = nc_has_registry cfg, bp_has_validator = nc_has_validator cfg, bp_sequence = sequence,
     bp_pending = [], bp_pending_started = None, bp_world = w, bp_trace = []\<rparr>"

text \<open>\<open>update_destination_schema\<close>: the tables of the registry, one after the other, against the schema of the destination.\<close>

definition update_destination_schema :: "'w nats_ops \<Rightarrow> 'w world_ops \<Rightarrow> 'w bp \<Rightarrow> unit res \<times> 'w bp" where
  "update_destination_schema N W p =
     (case n_latest_schema N (bp_world p) of
        (Inl e, w) \<Rightarrow> (Inl (RuntimeError (''error getting latest schema: '' @ exc_str e)), p\<lparr>bp_world := w\<rparr>)
      | (Inr latest, w) \<Rightarrow>
          (case n_destination_schema N w of
             (Inl e, w1) \<Rightarrow> (Inl e, p\<lparr>bp_world := w1\<rparr>)
           | (Inr dest, w1) \<Rightarrow> update_tables W dest latest (p\<lparr>bp_world := w1\<rparr>)))"

definition reconcile :: "'w nats_ops \<Rightarrow> 'w world_ops \<Rightarrow> nats_config \<Rightarrow> 'w bp \<Rightarrow> 'w consumer \<Rightarrow> unit res \<times> 'w consumer" where
  "reconcile N W cfg p c =
     (if nc_supports_migration cfg \<and> nc_has_registry cfg then
        case update_destination_schema N W p of (r, p1) \<Rightarrow>
          (r, noted [NSchema (bp_trace p1)] (c\<lparr>cn_world := bp_world p1, cn_processor := Some (p\<lparr>bp_world := bp_world p1\<rparr>)\<rparr>))
      else (Inr (), c))"

text \<open>The durable consumer: looked up, created or updated, and looked at again.\<close>

definition make_durable :: "'w nats_ops \<Rightarrow> nats_config \<Rightarrow> 'w consumer \<Rightarrow> int res \<times> 'w consumer" where
  "make_durable N cfg c =
     (let d = cn_durable c in
      andthen_st (ask (n_consumer_info N d) [NInfo d] c) (\<lambda>existing c1.
      let j = deliver_config cfg existing (base_js_config cfg c1) in
      andthen_st (ask (n_add_consumer N j) [NAdd j] c1) (\<lambda>_ c2.
      andthen_st (ask (n_consumer_info N d) [NInfo d] c2) (\<lambda>ci c3.
        case ci of
          None \<Rightarrow> (Inl NOT_FOUND, c3)
        | Some i \<Rightarrow>
            if (case ji_num_waiting i of None \<Rightarrow> False | Some n \<Rightarrow> 0 < n)
            then andthen_st (ask (n_close N) [NClose] c3) (\<lambda>_ c4. (Inl ALREADY_RUNNING, c4))
            else (Inr (ji_consumer_seq i), c3)))))"

definition create :: "'w nats_ops \<Rightarrow> 'w world_ops \<Rightarrow> nats_config \<Rightarrow> 'w consumer \<Rightarrow> unit res \<times> 'w consumer" where
  "create N W cfg c =
     andthen_st (new_nats_connection N (nc_credentials cfg) c) (\<lambda>info c1.
     andthen_st (resolve_companies N cfg info (c1\<lparr>cn_connected := True, cn_session_id := ci_session_id info\<rparr>)) (\<lambda>_ c2.
     andthen_st (if nc_session_handler cfg then ask (n_set_session_id N (cn_session_id c2)) [NSetSession (cn_session_id c2)] c2
                 else (Inr (), c2)) (\<lambda>_ c3.
     andthen_st (make_durable N cfg (c3\<lparr>cn_durable := durable_name (ci_server_id info) (nc_suffix cfg)\<rparr>)) (\<lambda>sequence c4.
     let p = new_processor cfg sequence (cn_world c4) in
     andthen_st (reconcile N W cfg p (c4\<lparr>cn_processor := Some p\<rparr>)) (\<lambda>_ c5.
       if nc_session_id_callback cfg then ask (n_session_id_callback N (cn_session_id c5)) [NCallback (cn_session_id c5)] c5
       else (Inr (), c5))))))"

subsection \<open>Start, pause, stop\<close>

definition ALREADY_STARTED :: exc where
  "ALREADY_STARTED = RuntimeError ''consumer already started''"

definition unpause :: "'w nats_ops \<Rightarrow> 'w consumer \<Rightarrow> unit res \<times> 'w consumer" where
  "unpause N c =
     (if cn_psub c then (Inl ALREADY_STARTED, c)
      else andthen_st (ask (n_bind N (cn_durable c)) [NBind (cn_durable c)] c) (\<lambda>_ c1.
             (Inr (), noted [NSpawnConsume] (c1\<lparr>cn_psub := True, cn_consume := Active, cn_paused_at := None\<rparr>))))"

definition start :: "'w nats_ops \<Rightarrow> 'w consumer \<Rightarrow> unit res \<times> 'w consumer" where
  "start N c =
     (if cn_running c then (Inl ALREADY_STARTED, c)
      else andthen_st (unpause N (c\<lparr>cn_running := True\<rparr>)) (\<lambda>_ c1.
             (Inr (), noted [NSpawnBufferer, NSpawnHeartbeat] (c1\<lparr>cn_bufferer := Active, cn_heartbeat := Active\<rparr>))))"

definition pause :: "'w nats_ops \<Rightarrow> int \<Rightarrow> 'w consumer \<Rightarrow> 'w consumer" where
  "pause N t c =
     (let c1 = (if cn_consume c \<noteq> Absent then noted [NCancelConsume] (c\<lparr>cn_consume := Absent\<rparr>) else c);
          c2 = (if cn_psub c1 then (suppress (n_unsubscribe N) [NUnsubscribe] c1)\<lparr>cn_psub := False\<rparr> else c1)
      in c2\<lparr>cn_paused_at := Some t\<rparr>)"

definition stop_bufferer :: "bool \<Rightarrow> 'w consumer \<Rightarrow> 'w consumer" where
  "stop_bufferer graceful c =
     (if cn_bufferer c = Absent then c
      else noted ((if cn_bufferer c = Done then [] else if graceful then [NSentinel] else [NAbort]) @ [NAwaitBufferer])
             (c\<lparr>cn_bufferer := Done\<rparr>))"

fun do_stop_step :: "'w nats_ops \<Rightarrow> bool \<Rightarrow> stop_step \<Rightarrow> 'w consumer \<Rightarrow> 'w consumer" where
  "do_stop_step N graceful SConsume c = (if cn_consume c \<noteq> Absent then noted [NCancelConsume] (c\<lparr>cn_consume := Done\<rparr>) else c)"
| "do_stop_step N graceful SUnsubscribe c = (if cn_psub c then suppress (n_unsubscribe N) [NUnsubscribe] c else c)"
| "do_stop_step N graceful SBufferer c = stop_bufferer graceful c"
| "do_stop_step N graceful SHeartbeat c = (if cn_heartbeat c \<noteq> Absent then noted [NCancelHeartbeat] (c\<lparr>cn_heartbeat := Done\<rparr>) else c)"
| "do_stop_step N graceful SClose c = (if cn_connected c then suppress (n_close N) [NClose] c else c)"

text \<open>A stop that is awaited: it does all steps, or returns at once when another stop has begun, whether that one has ended or not.\<close>

definition consumer_stop :: "'w nats_ops \<Rightarrow> bool \<Rightarrow> 'w consumer \<Rightarrow> 'w consumer" where
  "consumer_stop N graceful c =
     (if cn_stopping c then c else fold (do_stop_step N graceful) STOP_STEPS (c\<lparr>cn_stopping := True\<rparr>))"

text \<open>The callbacks: a fatal error of the bufferer, which has ended, and a lost connection. Both schedule a stop and do not wait for it.\<close>

definition set_fatal :: "string \<Rightarrow> 'w consumer \<Rightarrow> 'w consumer" where
  "set_fatal e c = c\<lparr>cn_error := Some e, cn_fatal := True, cn_bufferer := Done, cn_scheduled := True\<rparr>"

definition disconnected_cb :: "'w consumer \<Rightarrow> 'w consumer" where
  "disconnected_cb c = (if cn_stopping c then c else c\<lparr>cn_disconnected := True, cn_scheduled := True\<rparr>)"

text \<open>The scheduled stop: it begins, and later takes one step after the other.\<close>

definition self_stop_begins :: "'w consumer \<Rightarrow> 'w consumer" where
  "self_stop_begins c =
     (if \<not> cn_scheduled c then c
      else if cn_stopping c then c\<lparr>cn_scheduled := False\<rparr>
      else c\<lparr>cn_scheduled := False, cn_stopping := True, cn_stop_left := STOP_STEPS\<rparr>)"

definition self_stop_step :: "'w nats_ops \<Rightarrow> 'w consumer \<Rightarrow> 'w consumer" where
  "self_stop_step N c =
     (case cn_stop_left c of [] \<Rightarrow> c | st # left \<Rightarrow> (do_stop_step N True st c)\<lparr>cn_stop_left := left\<rparr>)"

section \<open>What the credentials allow\<close>

lemma id_match_prefix:
  assumes "id_match s \<noteq> []"
  shows "prefix (id_match s @ ''.'') s"
proof -
  from assms obtain r where "dropWhile id_char s = CHR ''.'' # r" "id_match s = takeWhile id_char s"
    by (auto simp: id_match_def Let_def split: list.splits if_splits)
  then have "s = (id_match s @ ''.'') @ r" by (metis append.assoc append_Cons append_Nil takeWhile_dropWhile_id)
  then show ?thesis unfolding prefix_def by blast
qed

lemma after_prefix_eq: "after_prefix p s = Some r \<Longrightarrow> s = p @ r"
  by (metis after_prefix_def append_take_drop_id option.distinct(1) option.inject)

lemma company_id_prefix:
  assumes "extract_company_id_from_dbchange_subscription sub \<noteq> []"
  shows "prefix (''dbchange.*.*.'' @ extract_company_id_from_dbchange_subscription sub @ ''.'') sub"
proof -
  let ?p = "''dbchange.*.*.''"
  from assms obtain r where r: "after_prefix ?p sub = Some r"
    and e: "extract_company_id_from_dbchange_subscription sub = id_match r"
    unfolding extract_company_id_from_dbchange_subscription_def by (auto split: option.splits)
  have "prefix (id_match r @ ''.'') r" using assms unfolding e by (rule id_match_prefix)
  then have "prefix (?p @ id_match r @ ''.'') (?p @ r)" by (simp only: same_prefix_prefix)
  then have "prefix (?p @ id_match r @ ''.'') sub" by (simp only: after_prefix_eq [OF r])
  then show ?thesis by (simp only: e)
qed

text \<open>The subjects that the claims grant, and the companies named in them.\<close>

definition granted :: "pydict \<Rightarrow> pyval list" where
  "granted claims =
     (case andthen (claims_get (PDict claims) ''nats'' (PDict [])) (\<lambda>n. andthen (claims_get n ''sub'' (PDict []))
         (\<lambda>s. andthen (claims_get s ''allow'' (PList [])) allowed_subjects)) of
        Inl _ \<Rightarrow> [] | Inr xs \<Rightarrow> xs)"

definition grants :: "pydict \<Rightarrow> string \<Rightarrow> bool" where
  "grants claims cid \<longleftrightarrow> (\<exists>sub. PStr sub \<in> set (granted claims) \<and> prefix (''dbchange.*.*.'' @ cid @ ''.'') sub)"

lemma scan_subjects_found:
  "scan_subjects xs acc sid = Inr (cids, s) \<Longrightarrow> cid \<in> set cids \<Longrightarrow>
   cid \<in> set acc \<or> (\<exists>sub. PStr sub \<in> set xs \<and> prefix (''dbchange.*.*.'' @ cid @ ''.'') sub)"
proof (induction xs acc sid rule: scan_subjects.induct)
  case (2 sub rest acc sid)
  show ?case
  proof (cases "extract_session_id_from_eds_subscription sub = []")
    case True
    let ?id = "extract_company_id_from_dbchange_subscription sub"
    from 2 True have "cid \<in> set (if ?id \<noteq> [] then acc @ [?id] else acc)
        \<or> (\<exists>sub. PStr sub \<in> set rest \<and> prefix (''dbchange.*.*.'' @ cid @ ''.'') sub)" by (simp add: Let_def)
    then consider "cid \<in> set acc" | "?id \<noteq> []" "cid = ?id"
      | "\<exists>sub. PStr sub \<in> set rest \<and> prefix (''dbchange.*.*.'' @ cid @ ''.'') sub" by (auto split: if_splits)
    then show ?thesis using company_id_prefix by cases (metis list.set_intros(1,2))+
  next
    case False
    with 2 show ?thesis by (auto simp: Let_def)
  qed
qed auto

lemma get_nats_creds_granted:
  assumes "get_nats_creds claims = Inr (cids, sid, sess)"
  shows "cids \<noteq> [] \<and> (\<forall>cid \<in> set cids. grants claims cid)"
proof -
  from assms obtain n s al xs where p: "claims_get (PDict claims) ''nats'' (PDict []) = Inr n" "claims_get n ''sub'' (PDict []) = Inr s"
      "claims_get s ''allow'' (PList []) = Inr al" "allowed_subjects al = Inr xs"
    and sc: "scan_subjects xs [] [] = Inr (cids, sess)" and ne: "cids \<noteq> []"
    by (fastforce simp: get_nats_creds_def andthen_Inr_conv split: if_splits option.splits)
  then have "granted claims = xs" by (simp add: granted_def)
  with scan_subjects_found [OF sc] ne show ?thesis by (simp add: grants_def)
qed

lemma validate_loop_sub: "validate_loop al acc xs = Inr ys \<Longrightarrow> set acc \<subseteq> set al \<Longrightarrow> set ys \<subseteq> set al \<and> ys \<noteq> []"
  by (induction al acc xs rule: validate_loop.induct) (auto split: if_splits)

lemma validate_company_ids_sub: "validate_company_ids xs al = Inr ys \<Longrightarrow> set ys \<subseteq> set al \<and> ys \<noteq> []"
  by (auto simp: validate_company_ids_def dest: validate_loop_sub)

section \<open>The calls of create\<close>

lemma ask_effect:
  "ask f cs c = (r, c') \<Longrightarrow> \<exists>w. c' = noted cs (c\<lparr>cn_world := w\<rparr>)"
  by (auto simp: ask_def split: prod.splits)

lemma noted_simps [simp]:
  "cn_trace (noted cs c) = cn_trace c @ cs" "cn_world (noted cs c) = cn_world c" "cn_psub (noted cs c) = cn_psub c"
  "cn_company_ids (noted cs c) = cn_company_ids c" "cn_durable (noted cs c) = cn_durable c"
  "cn_session_id (noted cs c) = cn_session_id c" "cn_processor (noted cs c) = cn_processor c"
  "cn_stopping (noted cs c) = cn_stopping c" "cn_scheduled (noted cs c) = cn_scheduled c" "cn_stop_left (noted cs c) = cn_stop_left c" "cn_running (noted cs c) = cn_running c" "cn_consume (noted cs c) = cn_consume c"
  "cn_bufferer (noted cs c) = cn_bufferer c" "cn_heartbeat (noted cs c) = cn_heartbeat c" "cn_connected (noted cs c) = cn_connected c"
  "cn_fatal (noted cs c) = cn_fatal c" "cn_disconnected (noted cs c) = cn_disconnected c" "cn_paused_at (noted cs c) = cn_paused_at c"
  by (simp_all add: noted_def)

text \<open>What happens to the identity.\<close>

lemma connection_identity:
  assumes "new_nats_connection N creds c = (Inr info, c')" "creds \<noteq> []" "n_claims N creds (cn_world c) = (Inr claims, w1)"
  shows "(\<exists>w t. c' = c\<lparr>cn_world := w, cn_trace := cn_trace c @ [NConnect t]\<rparr>) \<and> ci_company_ids info \<noteq> [] \<and>
    (\<forall>cid \<in> set (ci_company_ids info). grants claims cid) \<and>
    get_nats_creds claims = Inr (ci_company_ids info, PStr (ci_server_id info), ci_session_id info)"
  using assms get_nats_creds_granted
  by (auto simp: new_nats_connection_def ask_def noted_def elim!: andthen_st_cases split: sum.splits pyval.splits prod.splits)

lemma resolve_companies_sub:
  assumes "resolve_companies N cfg info c = (Inr u, c')" "ci_company_ids info \<noteq> []"
  shows "\<exists>companies. c' = c\<lparr>cn_company_ids := companies\<rparr> \<and> companies \<noteq> [] \<and> set companies \<subseteq> set (ci_company_ids info)"
  using assms validate_company_ids_sub
  by (fastforce simp: resolve_companies_def elim!: andthen_st_cases split: sum.splits if_splits)

lemma make_durable_calls:
  assumes "make_durable N cfg c = (r, c')"
  shows "\<exists>cs. cn_trace c' = cn_trace c @ cs \<and> cn_company_ids c' = cn_company_ids c \<and> cn_durable c' = cn_durable c \<and>
    (\<forall>j. NAdd j \<in> set cs \<longrightarrow> js_filter_subjects j = filter_subjects (cn_company_ids c) \<and> js_durable_name j = cn_durable c)"
proof -
  have j: "js_filter_subjects (deliver_config cfg e (base_js_config cfg c)) = filter_subjects (cn_company_ids c)
    \<and> js_durable_name (deliver_config cfg e (base_js_config cfg c)) = cn_durable c" for e and c :: "'a consumer"
    by (auto simp: deliver_config_def base_js_config_def split: option.splits)
  show ?thesis using assms j
    by (auto simp: make_durable_def Let_def ask_def elim!: andthen_st_cases split: prod.splits option.splits if_splits)
qed

lemma make_durable_ok:
  assumes "make_durable N cfg c = (Inr sequence, c')"
  shows "\<exists>existing w1 w2. n_consumer_info N (cn_durable c) (cn_world c) = (Inr existing, w1) \<and>
    c' = c\<lparr>cn_world := w2, cn_trace := cn_trace c @ [NInfo (cn_durable c), NAdd (deliver_config cfg existing (base_js_config cfg c)), NInfo (cn_durable c)]\<rparr>"
  using assms
  by (auto simp: make_durable_def Let_def ask_def noted_def base_js_config_def elim!: andthen_st_cases split: prod.splits option.splits if_splits)
     (rule exI, rule refl)+

lemma reconcile_keeps:
  assumes "reconcile N W cfg p c = (r, c')" "cn_processor c = Some p"
  shows "\<exists>w cs. cn_processor c' = Some (p\<lparr>bp_world := w\<rparr>) \<and> cn_trace c' = cn_trace c @ cs \<and> (\<forall>x \<in> set cs. \<exists>t. x = NSchema t)
    \<and> cn_company_ids c' = cn_company_ids c \<and> cn_durable c' = cn_durable c \<and> cn_session_id c' = cn_session_id c"
  using assms by (cases p) (auto simp: reconcile_def split: prod.splits if_splits)

text \<open>The times up to which tables were exported.\<close>

definition cutoff_times :: "(string \<times> int option) list option \<Rightarrow> int set" where
  "cutoff_times tts = {ts. \<exists>d table. tts = Some d \<and> (table, Some ts) \<in> set d}"

lemma foldl_min_Min: "foldl min a xs = Min (set (a # xs))" for a :: int
proof -
  have "(\<lambda>x s. min s x) = (min :: int \<Rightarrow> int \<Rightarrow> int)" by (simp add: fun_eq_iff min.commute)
  then show ?thesis by (simp only: Min.set_eq_fold foldl_conv_fold)
qed

lemma earliest_timestamp_Min:
  "earliest_timestamp tts = (if cutoff_times tts = {} then None else Some (Min (cutoff_times tts)))"
proof (cases tts)
  case None
  then show ?thesis by (simp add: earliest_timestamp_def cutoff_times_def)
next
  case (Some d)
  define stamps where "stamps = concat (map (\<lambda>p. case snd p of None \<Rightarrow> [] | Some t \<Rightarrow> [t :: int]) d)"
  have s: "set stamps = cutoff_times tts" by (force simp: stamps_def cutoff_times_def Some split: option.splits)
  have e: "earliest_timestamp tts = (if stamps = [] then None else Some (foldl min (hd stamps) (tl stamps)))"
    by (simp add: earliest_timestamp_def Some Let_def stamps_def [symmetric])
  show ?thesis unfolding e s [symmetric] by (cases stamps) (simp_all add: foldl_min_Min del: foldl_Cons)
qed

lemma batch_max_pos: "0 < batch_max c"
  by (auto simp: batch_max_def effective_max_ack_pending_def Let_def split: option.splits)

fun is_add :: "ncall \<Rightarrow> bool" where
  "is_add (NAdd _) = True"
| "is_add _ = False"

text \<open>The first calls of \<open>create\<close>, up to the durable consumer.\<close>

definition identified :: "'w nats_ops \<Rightarrow> nats_config \<Rightarrow> 'w consumer \<Rightarrow> cred_info res \<times> 'w consumer" where
  "identified N cfg c =
     andthen_st (new_nats_connection N (nc_credentials cfg) c) (\<lambda>info c1.
     andthen_st (resolve_companies N cfg info (c1\<lparr>cn_connected := True, cn_session_id := ci_session_id info\<rparr>)) (\<lambda>_ c2.
     andthen_st (if nc_session_handler cfg then ask (n_set_session_id N (cn_session_id c2)) [NSetSession (cn_session_id c2)] c2
                 else (Inr (), c2)) (\<lambda>_ c3. (Inr info, c3\<lparr>cn_durable := durable_name (ci_server_id info) (nc_suffix cfg)\<rparr>))))"

lemma andthen_st_assoc: "andthen_st (andthen_st p f) g = andthen_st p (\<lambda>x s. andthen_st (f x s) g)"
  by (cases p; cases "fst p") auto

lemma create_identified:
  "create N W cfg c =
     andthen_st (identified N cfg c) (\<lambda>_ c3.
     andthen_st (make_durable N cfg c3) (\<lambda>sequence c4.
     let p = new_processor cfg sequence (cn_world c4) in
     andthen_st (reconcile N W cfg p (c4\<lparr>cn_processor := Some p\<rparr>)) (\<lambda>_ c5.
       if nc_session_id_callback cfg then ask (n_session_id_callback N (cn_session_id c5)) [NCallback (cn_session_id c5)] c5
       else (Inr (), c5))))"
  by (simp add: create_def identified_def andthen_st_assoc)

lemma connection_no_add:
  "new_nats_connection N creds c = (r, c') \<Longrightarrow> filter is_add (cn_trace c') = filter is_add (cn_trace c)"
  by (auto simp: new_nats_connection_def ask_def elim!: andthen_st_cases split: if_splits sum.splits pyval.splits prod.splits)

lemma connection_companies: "new_nats_connection N creds c = (Inr info, c') \<Longrightarrow> ci_company_ids info \<noteq> []"
  using get_nats_creds_granted
  by (fastforce simp: new_nats_connection_def ask_def elim!: andthen_st_cases split: if_splits sum.splits pyval.splits prod.splits)

lemma resolve_no_add:
  "resolve_companies N cfg info c = (r, c') \<Longrightarrow> filter is_add (cn_trace c') = filter is_add (cn_trace c)"
  by (auto simp: resolve_companies_def ask_def elim!: andthen_st_cases split: if_splits sum.splits prod.splits)

lemma identified_no_add:
  "identified N cfg c = (r, c') \<Longrightarrow> filter is_add (cn_trace c') = filter is_add (cn_trace c)"
  by (auto simp: identified_def ask_def elim!: andthen_st_cases dest!: connection_no_add resolve_no_add split: if_splits prod.splits)

lemma identified_companies:
  assumes "identified N cfg c = (Inr info, c')"
  shows "\<exists>c1. new_nats_connection N (nc_credentials cfg) c = (Inr info, c1) \<and> cn_company_ids c' \<noteq> [] \<and>
    set (cn_company_ids c') \<subseteq> set (ci_company_ids info) \<and> cn_durable c' = durable_name (ci_server_id info) (nc_suffix cfg)"
  using assms connection_companies resolve_companies_sub
  by (fastforce simp: identified_def ask_def elim!: andthen_st_cases split: if_splits prod.splits)

lemma filter_is_add_nil: "(\<forall>x \<in> set cs. \<exists>t. x = NSchema t) \<Longrightarrow> filter is_add cs = []"
  by (auto simp: filter_empty_conv)

lemma create_adds:
  assumes "create N W cfg c = (r, c')" "NAdd j \<in> set (cn_trace c')" "filter is_add (cn_trace c) = []"
  shows "\<exists>info c3. identified N cfg c = (Inr info, c3) \<and> js_filter_subjects j = filter_subjects (cn_company_ids c3)"
proof -
  have add: "NAdd j \<in> set (filter is_add (cn_trace c'))" using assms(2) by simp
  from assms(1) show ?thesis unfolding create_identified
  proof (cases rule: andthen_st_cases)
    case err
    with identified_no_add assms(3) add show ?thesis by fastforce
  next
    case (ok info c3)
    have pre: "filter is_add (cn_trace c3) = []" using identified_no_add [OF ok(1)] assms(3) by simp
    then have npre: "NAdd j \<notin> set (cn_trace c3)" by (metis filter_empty_conv is_add.simps(1))
    from ok(2) have "js_filter_subjects j = filter_subjects (cn_company_ids c3)"
    proof (cases rule: andthen_st_cases)
      case err
      from make_durable_calls [OF err(1)] npre add show ?thesis by auto
    next
      case (ok sequence c4)
      from make_durable_calls [OF ok(1)] obtain cs where cs: "cn_trace c4 = cn_trace c3 @ cs"
        "\<And>j. NAdd j \<in> set cs \<Longrightarrow> js_filter_subjects j = filter_subjects (cn_company_ids c3)" by blast
      let ?p = "new_processor cfg sequence (cn_world c4)"
      obtain r5 c5 where rec: "reconcile N W cfg ?p (c4\<lparr>cn_processor := Some ?p\<rparr>) = (r5, c5)" by fastforce
      from reconcile_keeps [OF rec] obtain ds where ds: "cn_trace c5 = cn_trace c4 @ ds" "filter is_add ds = []"
        by (auto dest: filter_is_add_nil)
      from ok(2) rec have "filter is_add (cn_trace c') = filter is_add (cn_trace c5)"
        by (auto simp: Let_def ask_def elim!: andthen_st_cases split: if_splits prod.splits)
      with ds cs(1) pre add have "NAdd j \<in> set cs" by (auto simp: filter_empty_conv)
      then show ?thesis by (rule cs(2))
    qed
    with ok(1) show ?thesis by blast
  qed
qed

section \<open>The life cycle\<close>

text \<open>\<open>create\<close> does not touch the tasks: it starts nothing and is not stopped by anything.\<close>

fun starts_task :: "ncall \<Rightarrow> bool" where
  "starts_task NSpawnConsume = True"
| "starts_task NSpawnBufferer = True"
| "starts_task NSpawnHeartbeat = True"
| "starts_task _ = False"

definition idle :: "'w consumer \<Rightarrow> bool" where
  "idle c \<longleftrightarrow> \<not> cn_psub c \<and> \<not> cn_stopping c \<and> \<not> cn_scheduled c \<and> cn_stop_left c = [] \<and> \<not> cn_running c \<and> cn_consume c = Absent \<and> cn_bufferer c = Absent
     \<and> cn_heartbeat c = Absent \<and> \<not> cn_fatal c \<and> \<not> cn_disconnected c \<and> filter starts_task (cn_trace c) = []"

lemma new_consumer_idle: "idle (new_consumer w)"
  by (simp add: idle_def new_consumer_def)

lemma idle_noted: "idle c \<Longrightarrow> filter starts_task cs = [] \<Longrightarrow> idle (noted cs c)"
  by (simp add: idle_def)

lemma idle_ask: "ask f cs c = (r, c') \<Longrightarrow> idle c \<Longrightarrow> filter starts_task cs = [] \<Longrightarrow> idle c'"
  by (auto simp: ask_def idle_def split: prod.splits)

lemma idle_updates [simp]:
  "idle (c\<lparr>cn_connected := b\<rparr>) = idle c" "idle (c\<lparr>cn_session_id := sid\<rparr>) = idle c" "idle (c\<lparr>cn_durable := d\<rparr>) = idle c"
  "idle (c\<lparr>cn_company_ids := ids'\<rparr>) = idle c" "idle (c\<lparr>cn_processor := p\<rparr>) = idle c" "idle (c\<lparr>cn_world := w\<rparr>) = idle c"
  by (simp_all add: idle_def)

lemma idle_connection: "new_nats_connection N creds c = (r, c') \<Longrightarrow> idle c \<Longrightarrow> idle c'"
  by (auto simp: new_nats_connection_def elim!: andthen_st_cases idle_ask split: if_splits sum.splits pyval.splits prod.splits
      dest!: idle_ask)

lemma idle_resolve: "resolve_companies N cfg info c = (r, c') \<Longrightarrow> idle c \<Longrightarrow> idle c'"
  by (auto simp: resolve_companies_def elim!: andthen_st_cases split: if_splits sum.splits dest!: idle_ask)

lemma idle_identified: "identified N cfg c = (r, c') \<Longrightarrow> idle c \<Longrightarrow> idle c'"
  by (auto simp: identified_def elim!: andthen_st_cases split: if_splits dest!: idle_connection idle_resolve idle_ask)

lemma idle_make_durable: "make_durable N cfg c = (r, c') \<Longrightarrow> idle c \<Longrightarrow> idle c'"
  by (auto simp: make_durable_def Let_def elim!: andthen_st_cases split: option.splits if_splits dest!: idle_ask)

lemma idle_reconcile: "reconcile N W cfg p c = (r, c') \<Longrightarrow> idle c \<Longrightarrow> idle c'"
  by (auto simp: reconcile_def split: prod.splits if_splits intro!: idle_noted)

lemma create_idle: "create N W cfg c = (r, c') \<Longrightarrow> idle c \<Longrightarrow> idle c'"
  unfolding create_identified
  by (auto simp: Let_def elim!: andthen_st_cases split: if_splits dest!: idle_identified idle_make_durable idle_reconcile idle_ask)

lemma connected_ask: "ask f cs c = (r, c') \<Longrightarrow> cn_connected c' = cn_connected c"
  by (auto simp: ask_def split: prod.splits)

lemma connected_make_durable: "make_durable N cfg c = (r, c') \<Longrightarrow> cn_connected c' = cn_connected c"
  by (auto simp: make_durable_def Let_def elim!: andthen_st_cases split: option.splits if_splits dest!: connected_ask)

lemma connected_reconcile: "reconcile N W cfg p c = (r, c') \<Longrightarrow> cn_connected c' = cn_connected c"
  by (auto simp: reconcile_def split: prod.splits if_splits)

lemma connected_identified: "identified N cfg c = (Inr info, c') \<Longrightarrow> cn_connected c'"
  by (auto simp: identified_def resolve_companies_def elim!: andthen_st_cases split: if_splits sum.splits dest!: connected_ask)

lemma create_connected: "create N W cfg c = (Inr u, c') \<Longrightarrow> cn_connected c'"
  unfolding create_identified
  by (auto simp: Let_def elim!: andthen_st_cases split: if_splits
      dest!: connected_identified connected_make_durable connected_reconcile connected_ask)

text \<open>A consumer that was started: it has one subscription exactly if it has a task that reads it; once the stop has done
  the step for it, its bufferer was awaited and its connection closed; and only a fatal error or a lost connection makes it stop itself.\<close>

definition subscribed :: "'w consumer \<Rightarrow> bool" where
  "subscribed c \<longleftrightarrow> (cn_psub c \<longleftrightarrow> cn_consume c \<noteq> Absent)"

definition drained :: "'w consumer \<Rightarrow> bool" where
  "drained c \<longleftrightarrow> (NSpawnBufferer \<in> set (cn_trace c) \<longrightarrow> cn_bufferer c \<noteq> Absent \<and> cn_connected c)
     \<and> (cn_stopping c \<and> cn_bufferer c \<noteq> Absent \<and> SBufferer \<notin> set (cn_stop_left c) \<longrightarrow> NAwaitBufferer \<in> set (cn_trace c))
     \<and> (cn_stopping c \<and> cn_connected c \<and> SClose \<notin> set (cn_stop_left c) \<longrightarrow> NClose \<in> set (cn_trace c))
     \<and> (\<not> cn_stopping c \<longrightarrow> cn_stop_left c = [])
     \<and> (cn_scheduled c \<or> cn_stop_left c \<noteq> [] \<longrightarrow> cn_fatal c \<or> cn_disconnected c)"

definition settled :: "'w consumer \<Rightarrow> bool" where
  "settled c \<longleftrightarrow> subscribed c \<and> drained c"

lemma idle_settled: "idle c \<Longrightarrow> settled c"
  by (auto simp: idle_def settled_def subscribed_def drained_def filter_empty_conv)

lemma drained_later:
  assumes "drained c" "cn_bufferer c' = cn_bufferer c" "cn_connected c' = cn_connected c" "cn_stopping c' = cn_stopping c"
    "cn_stop_left c' = cn_stop_left c" "cn_scheduled c' = cn_scheduled c" "cn_fatal c' = cn_fatal c" "cn_disconnected c' = cn_disconnected c"
    "cn_trace c' = cn_trace c @ cs" "NSpawnBufferer \<notin> set cs"
  shows "drained c'"
  using assms unfolding drained_def by simp

lemma suppress_simps [simp]:
  "cn_psub (suppress f cs c) = cn_psub c" "cn_consume (suppress f cs c) = cn_consume c" "cn_bufferer (suppress f cs c) = cn_bufferer c"
  "cn_heartbeat (suppress f cs c) = cn_heartbeat c" "cn_stopping (suppress f cs c) = cn_stopping c"
  "cn_connected (suppress f cs c) = cn_connected c" "cn_fatal (suppress f cs c) = cn_fatal c" "cn_running (suppress f cs c) = cn_running c"
  "cn_scheduled (suppress f cs c) = cn_scheduled c" "cn_stop_left (suppress f cs c) = cn_stop_left c"
  "cn_disconnected (suppress f cs c) = cn_disconnected c" "cn_trace (suppress f cs c) = cn_trace c @ cs"
  by (simp_all add: suppress_def ask_def split: prod.splits)

lemma unpause_cases:
  assumes "unpause N c = (r, c')"
  obtains (same) "c' = c" | (refused) w where "c' = noted [NBind (cn_durable c)] (c\<lparr>cn_world := w\<rparr>)"
    | (bound) w where "c' = noted [NBind (cn_durable c), NSpawnConsume] (c\<lparr>cn_world := w, cn_psub := True, cn_consume := Active, cn_paused_at := None\<rparr>)"
proof (cases "cn_psub c")
  case True
  with assms show thesis by (intro same) (simp add: unpause_def)
next
  case False
  obtain x w where x: "n_bind N (cn_durable c) (cn_world c) = (x, w)" by fastforce
  show thesis
  proof (cases x)
    case (Inl e)
    with False x assms show thesis by (intro refused [of w]) (simp add: unpause_def ask_def)
  next
    case (Inr y)
    with False x assms show thesis by (intro bound [of w]) (simp add: unpause_def ask_def noted_def)
  qed
qed

lemma unpause_frame:
  assumes "unpause N c = (r, c')"
  shows "subscribed c \<Longrightarrow> subscribed c'" "drained c \<Longrightarrow> drained c'"
    "cn_stopping c' = cn_stopping c" "cn_scheduled c' = cn_scheduled c" "cn_stop_left c' = cn_stop_left c" "cn_connected c' = cn_connected c"
  using assms by (cases rule: unpause_cases; simp add: subscribed_def drained_def)+

lemma settled_start:
  assumes "idle c" "cn_connected c" "start N c = (r, c')"
  shows "settled c'"
proof -
  have run: "\<not> cn_running c" using assms(1) by (simp add: idle_def)
  obtain x c1 where u: "unpause N (c\<lparr>cn_running := True\<rparr>) = (x, c1)" by fastforce
  have "settled (c\<lparr>cn_running := True\<rparr>)" using idle_settled [OF assms(1)] by (simp add: settled_def subscribed_def drained_def)
  then have s: "subscribed c1" "drained c1" using unpause_frame(1,2) [OF u] by (simp_all add: settled_def)
  have f: "\<not> cn_stopping c1" "\<not> cn_scheduled c1" "cn_stop_left c1 = []" "cn_connected c1"
    using unpause_frame(3-6) [OF u] assms(1,2) by (simp_all add: idle_def)
  show ?thesis
  proof (cases x)
    case (Inl e)
    with assms(3) run u s show ?thesis by (simp add: start_def settled_def)
  next
    case (Inr y)
    with assms(3) run u have "c' = noted [NSpawnBufferer, NSpawnHeartbeat] (c1\<lparr>cn_bufferer := Active, cn_heartbeat := Active\<rparr>)"
      by (simp add: start_def)
    with s(1) f show ?thesis by (simp add: settled_def subscribed_def drained_def)
  qed
qed

lemma settled_unpause: "settled c \<Longrightarrow> unpause N c = (r, c') \<Longrightarrow> settled c'"
  by (simp add: settled_def unpause_frame)

lemma settled_pause:
  assumes "settled c"
  shows "settled (pause N t c)"
proof -
  obtain w where "pause N t c = noted ((if cn_consume c \<noteq> Absent then [NCancelConsume] else []) @ (if cn_psub c then [NUnsubscribe] else []))
      (c\<lparr>cn_world := w, cn_consume := Absent, cn_psub := False, cn_paused_at := Some t\<rparr>)"
  proof (cases "n_unsubscribe N (cn_world c)")
    case (Pair x w)
    then show ?thesis
      by (intro that [of "if cn_psub c then w else cn_world c"]) (cases "cn_consume c"; simp add: pause_def Let_def suppress_def ask_def noted_def)
  qed
  then show ?thesis using assms by (auto simp: settled_def subscribed_def intro: drained_later [of c])
qed

lemma stop_step_frame:
  "cn_stopping (do_stop_step N g st c) = cn_stopping c" "cn_stop_left (do_stop_step N g st c) = cn_stop_left c"
  "cn_scheduled (do_stop_step N g st c) = cn_scheduled c" "cn_fatal (do_stop_step N g st c) = cn_fatal c"
  "cn_disconnected (do_stop_step N g st c) = cn_disconnected c" "cn_psub (do_stop_step N g st c) = cn_psub c"
  "cn_connected (do_stop_step N g st c) = cn_connected c"
  by (cases st; simp add: stop_bufferer_def)+

lemma stop_step_tasks:
  "cn_bufferer (do_stop_step N g st c) = (if st = SBufferer \<and> cn_bufferer c \<noteq> Absent then Done else cn_bufferer c)"
  "cn_consume (do_stop_step N g st c) = (if st = SConsume \<and> cn_consume c \<noteq> Absent then Done else cn_consume c)"
  by (cases st; simp add: stop_bufferer_def)+

lemma stop_step_trace:
  "NSpawnBufferer \<in> set (cn_trace (do_stop_step N g st c)) \<longleftrightarrow> NSpawnBufferer \<in> set (cn_trace c)"
  "NAwaitBufferer \<in> set (cn_trace (do_stop_step N g st c)) \<longleftrightarrow> NAwaitBufferer \<in> set (cn_trace c) \<or> st = SBufferer \<and> cn_bufferer c \<noteq> Absent"
  "NClose \<in> set (cn_trace (do_stop_step N g st c)) \<longleftrightarrow> NClose \<in> set (cn_trace c) \<or> st = SClose \<and> cn_connected c"
  by (cases st; simp add: stop_bufferer_def)+

lemmas stop_step_simps = stop_step_frame stop_step_tasks stop_step_trace

lemma stop_step_subscribed: "subscribed c \<Longrightarrow> subscribed (do_stop_step N g st c)"
  by (auto simp: subscribed_def stop_step_simps simp del: do_stop_step.simps)

lemma stop_steps_frame:
  "cn_stopping (fold (do_stop_step N g) sts c) = cn_stopping c" "cn_stop_left (fold (do_stop_step N g) sts c) = cn_stop_left c"
  "cn_scheduled (fold (do_stop_step N g) sts c) = cn_scheduled c" "cn_fatal (fold (do_stop_step N g) sts c) = cn_fatal c"
  "cn_disconnected (fold (do_stop_step N g) sts c) = cn_disconnected c" "cn_connected (fold (do_stop_step N g) sts c) = cn_connected c"
  "cn_psub (fold (do_stop_step N g) sts c) = cn_psub c"
  "subscribed c \<Longrightarrow> subscribed (fold (do_stop_step N g) sts c)"
  by (induction sts arbitrary: c) (simp_all add: stop_step_frame stop_step_subscribed del: do_stop_step.simps)

lemma stop_steps_tasks:
  "cn_bufferer (fold (do_stop_step N g) sts c) = (if SBufferer \<in> set sts \<and> cn_bufferer c \<noteq> Absent then Done else cn_bufferer c)"
  "NSpawnBufferer \<in> set (cn_trace (fold (do_stop_step N g) sts c)) \<longleftrightarrow> NSpawnBufferer \<in> set (cn_trace c)"
  "NAwaitBufferer \<in> set (cn_trace (fold (do_stop_step N g) sts c)) \<longleftrightarrow> NAwaitBufferer \<in> set (cn_trace c) \<or> SBufferer \<in> set sts \<and> cn_bufferer c \<noteq> Absent"
  "NClose \<in> set (cn_trace (fold (do_stop_step N g) sts c)) \<longleftrightarrow> NClose \<in> set (cn_trace c) \<or> SClose \<in> set sts \<and> cn_connected c"
  by (induction sts arbitrary: c) (auto simp: stop_step_simps simp del: do_stop_step.simps)

lemma STOP_STEPS_members: "SBufferer \<in> set STOP_STEPS" "SClose \<in> set STOP_STEPS"
  by (simp_all add: STOP_STEPS_def)

lemma drained_stop: "drained c \<Longrightarrow> drained (consumer_stop N g c)"
  by (simp add: consumer_stop_def drained_def stop_steps_frame stop_steps_tasks STOP_STEPS_members)

lemma settled_stop: "settled c \<Longrightarrow> settled (consumer_stop N g c)"
  using stop_steps_frame(8) [of "c\<lparr>cn_stopping := True\<rparr>" N g STOP_STEPS]
  by (simp add: settled_def drained_stop) (simp add: consumer_stop_def subscribed_def)

lemma settled_callbacks:
  "settled c \<Longrightarrow> cn_bufferer c \<noteq> Absent \<Longrightarrow> settled (set_fatal e c)"
  "settled c \<Longrightarrow> settled (disconnected_cb c)"
  by (auto simp: set_fatal_def disconnected_cb_def settled_def subscribed_def drained_def)

lemma settled_begins: "settled c \<Longrightarrow> settled (self_stop_begins c)"
  by (auto simp: self_stop_begins_def settled_def subscribed_def drained_def STOP_STEPS_def)

lemma settled_step:
  assumes "settled c"
  shows "settled (self_stop_step N c)"
proof (cases "cn_stop_left c")
  case (Cons st left)
  then have c: "self_stop_step N c = (do_stop_step N True st c)\<lparr>cn_stop_left := left\<rparr>" by (simp add: self_stop_step_def)
  have "subscribed (self_stop_step N c)" using stop_step_subscribed [of c N True st] assms by (simp add: c settled_def subscribed_def)
  moreover have "drained (self_stop_step N c)"
    unfolding c using assms Cons
    by (cases st) (simp_all add: settled_def drained_def stop_step_simps del: do_stop_step.simps)
  ultimately show ?thesis by (simp add: settled_def)
qed (use assms in \<open>simp add: self_stop_step_def\<close>)

lemma stopping_stop: "cn_stopping (consumer_stop N g c)"
  by (simp add: consumer_stop_def stop_steps_frame)

lemma stop_left: "cn_stop_left (consumer_stop N g c) = cn_stop_left c" "cn_fatal (consumer_stop N g c) = cn_fatal c"
    "cn_disconnected (consumer_stop N g c) = cn_disconnected c"
  by (simp_all add: consumer_stop_def stop_steps_frame)

section \<open>Properties\<close>

text \<open>C8: the consumer never asks JetStream for a company that its credentials do not grant. Whatever \<open>create\<close> is configured
  with and however it ends, every subject in a consumer configuration that it has sent names a company id for
  which the claims of the credential file contain an allowed subject.\<close>

theorem durable_within_credentials:
  assumes "nc_credentials cfg \<noteq> []" "n_claims N (nc_credentials cfg) w = (Inr claims, w1)"
    "create N W cfg (new_consumer w) = (r, c')" "NAdd j \<in> set (cn_trace c')" "f \<in> set (js_filter_subjects j)"
  shows "\<exists>cid. f = ''dbchange.*.*.'' @ cid @ ''.*.PUBLIC.>'' \<and> grants claims cid"
proof -
  from create_adds [OF assms(3,4)] obtain info c3 where i: "identified N cfg (new_consumer w) = (Inr info, c3)"
    and f: "js_filter_subjects j = filter_subjects (cn_company_ids c3)" by (auto simp: new_consumer_def)
  from identified_companies [OF i] obtain c1 where c1: "new_nats_connection N (nc_credentials cfg) (new_consumer w) = (Inr info, c1)"
    "set (cn_company_ids c3) \<subseteq> set (ci_company_ids info)" by blast
  from connection_identity [OF c1(1) assms(1)] assms(2) have "\<forall>cid \<in> set (ci_company_ids info). grants claims cid"
    by (simp add: new_consumer_def)
  with c1(2) f assms(5) show ?thesis by (auto simp: filter_subjects_def)
qed

text \<open>C18: what a successful \<open>create\<close> leaves. JetStream was asked once, for one durable consumer whose name is made of the server of the
  credentials and the suffix, with the subjects of the companies. An existing durable keeps its delivery policy and start time. A new one starts with
  the first message if that is demanded; else at the earliest of the times up to which tables were exported; and if there are none, with new
  messages. The batch processor is fresh and has the batch size that JetStream was told.\<close>

theorem durable_created:
  assumes "create N W cfg (new_consumer w) = (Inr (), c')"
  shows "\<exists>j p existing w1 w2. filter is_add (cn_trace c') = [NAdd j] \<and> cn_processor c' = Some p \<and> fresh p
    \<and> (\<exists>info c1. new_nats_connection N (nc_credentials cfg) (new_consumer w) = (Inr info, c1)
         \<and> js_durable_name j = ''eds-'' @ ci_server_id info @ (if nc_suffix cfg = [] then [] else ''-'' @ nc_suffix cfg))
    \<and> js_durable_name j = cn_durable c' \<and> js_filter_subjects j = filter_subjects (cn_company_ids c') \<and> cn_company_ids c' \<noteq> []
    \<and> js_max_ack_pending j = bp_max p \<and> n_consumer_info N (cn_durable c') w1 = (Inr existing, w2)
    \<and> (case existing of
         Some i \<Rightarrow> js_deliver_policy j = ji_deliver_policy i \<and> js_opt_start_time j = ji_opt_start_time i
       | None \<Rightarrow> if nc_deliver_all cfg then js_deliver_policy j = DeliverAll
           else if cutoff_times (nc_export_table_timestamps cfg) = {} then js_deliver_policy j = DeliverNew
           else js_deliver_policy j = DeliverByStartTime \<and> js_opt_start_time j = Some (Min (cutoff_times (nc_export_table_timestamps cfg))))"
proof -
  from assms obtain info c3 sequence c4 c5 where i: "identified N cfg (new_consumer w) = (Inr info, c3)"
    and m: "make_durable N cfg c3 = (Inr sequence, c4)"
    and rec: "reconcile N W cfg (new_processor cfg sequence (cn_world c4)) (c4\<lparr>cn_processor := Some (new_processor cfg sequence (cn_world c4))\<rparr>) = (Inr (), c5)"
    and fin: "(if nc_session_id_callback cfg then ask (n_session_id_callback N (cn_session_id c5)) [NCallback (cn_session_id c5)] c5
       else (Inr (), c5)) = (Inr (), c')"
    unfolding create_identified by (auto simp: Let_def elim!: andthen_st_cases)
  let ?p = "new_processor cfg sequence (cn_world c4)"
  from make_durable_ok [OF m] obtain existing w1 w2 where e: "n_consumer_info N (cn_durable c3) (cn_world c3) = (Inr existing, w1)"
    and c4: "c4 = c3\<lparr>cn_world := w2, cn_trace := cn_trace c3 @ [NInfo (cn_durable c3),
        NAdd (deliver_config cfg existing (base_js_config cfg c3)), NInfo (cn_durable c3)]\<rparr>" by blast
  let ?j = "deliver_config cfg existing (base_js_config cfg c3)"
  from reconcile_keeps [OF rec] obtain w3 ds where r: "cn_processor c5 = Some (?p\<lparr>bp_world := w3\<rparr>)" "cn_trace c5 = cn_trace c4 @ ds"
      "filter is_add ds = []" "cn_company_ids c5 = cn_company_ids c3" "cn_durable c5 = cn_durable c3"
    by (auto simp: c4 dest: filter_is_add_nil)
  have "filter is_add (cn_trace c3) = []" using identified_no_add [OF i] by (simp add: new_consumer_def)
  then have add: "filter is_add (cn_trace c') = [NAdd ?j]" using r(2,3) fin
    by (auto simp: c4 ask_def split: if_splits prod.splits)
  have c': "cn_processor c' = Some (?p\<lparr>bp_world := w3\<rparr>)" "cn_company_ids c' = cn_company_ids c3" "cn_durable c' = cn_durable c3"
    using fin r by (auto simp: ask_def split: if_splits prod.splits)
  have fresh: "fresh (?p\<lparr>bp_world := w3\<rparr>)" by (simp add: fresh_def new_processor_def batch_max_pos)
  have j: "js_durable_name ?j = cn_durable c3" "js_filter_subjects ?j = filter_subjects (cn_company_ids c3)"
      "js_max_ack_pending ?j = bp_max (?p\<lparr>bp_world := w3\<rparr>)"
    by (auto simp: deliver_config_def base_js_config_def new_processor_def split: option.splits)
  have policy: "case existing of
         Some i \<Rightarrow> js_deliver_policy ?j = ji_deliver_policy i \<and> js_opt_start_time ?j = ji_opt_start_time i
       | None \<Rightarrow> if nc_deliver_all cfg then js_deliver_policy ?j = DeliverAll
           else if cutoff_times (nc_export_table_timestamps cfg) = {} then js_deliver_policy ?j = DeliverNew
           else js_deliver_policy ?j = DeliverByStartTime \<and> js_opt_start_time ?j = Some (Min (cutoff_times (nc_export_table_timestamps cfg)))"
    by (auto simp: deliver_config_def earliest_timestamp_Min split: option.splits)
  from identified_companies [OF i] obtain c1 where named: "new_nats_connection N (nc_credentials cfg) (new_consumer w) = (Inr info, c1)"
      "cn_company_ids c3 \<noteq> []" "cn_durable c3 = ''eds-'' @ ci_server_id info @ (if nc_suffix cfg = [] then [] else ''-'' @ nc_suffix cfg)"
    by (auto simp: durable_name_def)
  show ?thesis
    using add c' fresh j policy e named
    by (intro exI [of _ ?j] exI [of _ "?p\<lparr>bp_world := w3\<rparr>"] exI [of _ existing] exI [of _ "cn_world c3"] exI [of _ w1]) auto
qed

text \<open>A server with one company, whose durable does not exist yet.\<close>

definition sample_claims :: pydict where
  "sample_claims = [(''name'', PStr ''srv''), (''nats'', PDict [(''sub'', PDict [(''allow'',
     PList [PStr ''eds.notify.5e.>'', PStr ''dbchange.*.*.c1.*.PUBLIC.>''])])])]"

definition sample_info :: js_info where
  "sample_info = \<lparr>ji_deliver_policy = DeliverNew, ji_opt_start_time = None, ji_max_waiting = 1, ji_num_waiting = Some 0, ji_consumer_seq = 7\<rparr>"

text \<open>The world is a counter of the consumer calls: the first lookup finds nothing.\<close>

definition sample_nats :: "int nats_ops" where
  "sample_nats = \<lparr>n_claims = (\<lambda>_ w. (Inr sample_claims, w)), n_uuid = (\<lambda>w. (''u'', w)), n_connect = (\<lambda>_ w. (Inr (), w)),
     n_close = (\<lambda>w. (Inr (), w)), n_consumer_info = (\<lambda>_ w. (Inr (if w = 0 then None else Some sample_info), w)),
     n_add_consumer = (\<lambda>_ w. (Inr (), w + 1)), n_bind = (\<lambda>_ w. (Inr (), w)), n_unsubscribe = (\<lambda>w. (Inr (), w)),
     n_set_session_id = (\<lambda>_ w. (Inr (), w)), n_session_id_callback = (\<lambda>_ w. (Inr (), w)),
     n_latest_schema = (\<lambda>w. (Inr [], w)), n_destination_schema = (\<lambda>w. (Inr [], w))\<rparr>"

definition sample_config :: nats_config where
  "sample_config = \<lparr>cc_max_ack_pending = 0, cc_max_pending_buffer = 0, cc_heartbeat_interval = 0, cc_min_pending_latency = 0,
     cc_max_pending_latency = 0, cc_empty_buffer_pause_time = 0, cc_driver_max_batch = Some 200, nc_credentials = ''f'',
     nc_company_ids = [], nc_suffix = [], nc_export_table_timestamps = Some [(''t'', Some 5), (''u'', Some 3)], nc_deliver_all = False,
     nc_session_handler = True, nc_supports_migration = True, nc_has_registry = True, nc_has_validator = False,
     nc_session_id_callback = False\<rparr>"

definition sample_created :: "unit res \<times> int consumer" where
  "sample_created = create sample_nats sample_world sample_config (new_consumer 0)"

definition sample_js :: js_config where
  "sample_js = \<lparr>js_durable_name = ''eds-srv'', js_max_ack_pending = 200, js_max_deliver = 20, js_ack_wait = 300,
     js_filter_subjects = [''dbchange.*.*.c1.*.PUBLIC.>''], js_inactive_threshold = 259200, js_max_waiting = 1,
     js_deliver_policy = DeliverByStartTime, js_opt_start_time = Some 3\<rparr>"

lemma sample_created_value:
  "fst sample_created = Inr () \<and> cn_trace (snd sample_created) =
     [NConnect ''eds-srv'', NSetSession ''5e'', NInfo ''eds-srv'', NAdd sample_js, NInfo ''eds-srv'', NSchema []]"
  by code_simp

theorem durable_within_credentials_witness:
  "\<exists>cid. ''dbchange.*.*.c1.*.PUBLIC.>'' = ''dbchange.*.*.'' @ cid @ ''.*.PUBLIC.>'' \<and> grants sample_claims cid"
proof (rule durable_within_credentials [where cfg = sample_config and N = sample_nats and w = 0 and j = sample_js])
  show "create sample_nats sample_world sample_config (new_consumer 0) = (fst sample_created, snd sample_created)"
    by (simp add: sample_created_def)
  show "NAdd sample_js \<in> set (cn_trace (snd sample_created))" using sample_created_value by simp
qed (simp_all add: sample_config_def sample_nats_def sample_js_def)

theorem durable_created_witness: "\<exists>j. filter is_add (cn_trace (snd sample_created)) = [NAdd j]"
proof -
  have "create sample_nats sample_world sample_config (new_consumer 0) = (Inr (), snd sample_created)"
    using sample_created_value by (metis prod.collapse sample_created_def)
  from durable_created [OF this] show ?thesis by blast
qed

end
