(* ===== verification/Fork.thy ===== *)
theory Fork
  imports Durable ConnStr Wrapper
begin

text \<open>
  \<open>eds/cmd/fork.py\<close>: the process that holds the driver and the consumer, and its control loop.

  The loop is a function of what happens between its wake-ups: commands of the loopback server, a signal, a fatal
  error of the consumer, a lost connection, and the steps of the stop that the last two make the consumer schedule for itself,
  which runs beside the loop. \<open>fork_spec\<close> is the same loop without consumer and client; the loop
  implements it. The other theorems say which exit code the process has and in which order it cleans up, and what of the
  consumer's own stop may not have happened by then.
\<close>

section \<open>Setting up\<close>

text \<open>The outcomes of the calls that set the process up: the log file, the validator, the tracker, registry, export cutoffs and
  driver together (they share one handler), and the loopback server.\<close>

record fork_env =
  fe_logs_dir :: string
  fe_sink :: "unit res"
  fe_creds :: string
  fe_nats_url :: string
  fe_schema_validator :: string
  fe_validator :: "unit res"
  fe_tracker :: "unit res"
  fe_setup :: "unit res"
  fe_server :: "unit res"
  fe_driver_stop :: "unit res"

text \<open>What the process does at its end. \<open>FConsumer\<close> has the calls of its consumer up to then, and the steps of a stop
  scheduled by the consumer that have not happened.\<close>

datatype fork_effect = FConsumer "ncall list" "stop_step list" | FDriverStop | FTrackerClose | FServerStop | FSinkClose

definition fork_setup :: "fork_env \<Rightarrow> (int + unit) \<times> fork_effect list" where
  "fork_setup e =
     (if fe_logs_dir e \<noteq> [] \<and> \<not> ok (fe_sink e) then (Inl EXIT_INCORRECT_USAGE, [])
      else if fe_creds e = [] \<and> \<not> is_localhost (fe_nats_url e) then (Inl EXIT_INCORRECT_USAGE, [])
      else if fe_schema_validator e \<noteq> [] \<and> \<not> ok (fe_validator e) then (Inl EXIT_ERROR, [])
      else if \<not> ok (fe_tracker e) then (Inl EXIT_INCORRECT_USAGE, [])
      else if \<not> ok (fe_setup e) then (Inl EXIT_INCORRECT_USAGE, [FTrackerClose])
      else if \<not> ok (fe_server e) then
        (if ok (fe_driver_stop e) then (Inl EXIT_ERROR, [FDriverStop, FTrackerClose]) else (Inl EXIT_PANIC, [FDriverStop]))
      else (Inr (), []))"

section \<open>The control loop\<close>

record 'w fork =
  fk_consumer :: "'w consumer option"
  fk_paused :: bool
  fk_completed :: bool
  fk_exit_code :: int
  fk_control :: "string list"
  fk_signal :: bool
  fk_world :: 'w
  fk_past :: "ncall list"
  fk_left :: "stop_step list"

definition new_fork :: "'w \<Rightarrow> 'w fork" where
  "new_fork w = \<lparr>fk_consumer = None, fk_paused = False, fk_completed = False, fk_exit_code = EXIT_SUCCESS, fk_control = [],
     fk_signal = False, fk_world = w, fk_past = [], fk_left = []\<rparr>"

text \<open>What happens while the loop waits: the loopback server puts a command, a signal arrives, the bufferer reports a fatal
  error, the connection is lost, the stop that one of the last two has scheduled begins or takes its next step.\<close>

datatype happening = HCommand string | HSignal | HFatal string | HLost | HStopBegins | HStopStep

definition on_consumer :: "('w consumer \<Rightarrow> 'w consumer) \<Rightarrow> 'w fork \<Rightarrow> 'w fork" where
  "on_consumer f s = s\<lparr>fk_consumer := map_option f (fk_consumer s)\<rparr>"

fun arrive :: "'w nats_ops \<Rightarrow> happening \<Rightarrow> 'w fork \<Rightarrow> 'w fork" where
  "arrive N (HCommand cmd) s = s\<lparr>fk_control := fk_control s @ [cmd]\<rparr>"
| "arrive N HSignal s = s\<lparr>fk_signal := True\<rparr>"
| "arrive N (HFatal e) s = on_consumer (\<lambda>c. if cn_bufferer c = Active then set_fatal e c else c) s"
| "arrive N HLost s = on_consumer disconnected_cb s"
| "arrive N HStopBegins s = on_consumer self_stop_begins s"
| "arrive N HStopStep s = on_consumer (self_stop_step N) s"

text \<open>A consumer that is stopped and forgotten; its calls are kept, and what its own stop has left to do: the awaited stop
  returns at once when that one has begun.\<close>

definition drop_consumer :: "'w nats_ops \<Rightarrow> 'w fork \<Rightarrow> 'w fork" where
  "drop_consumer N s =
     (case fk_consumer s of
        None \<Rightarrow> s
      | Some c \<Rightarrow> let c1 = consumer_stop N True c in
                  s\<lparr>fk_consumer := None, fk_world := cn_world c1, fk_past := fk_past s @ cn_trace c1, fk_left := fk_left s @ cn_stop_left c1\<rparr>)"

text \<open>The start of a round: a consumer is created and started; a failure ends the loop. The flag says whether it goes on.\<close>

definition ensure_consumer :: "'w nats_ops \<Rightarrow> 'w world_ops \<Rightarrow> nats_config \<Rightarrow> 'w fork \<Rightarrow> bool \<times> 'w fork" where
  "ensure_consumer N W cfg s =
     (if \<not> fk_paused s \<and> fk_consumer s = None then
        case andthen_st (create N W cfg (new_consumer (fk_world s))) (\<lambda>_. start N) of
          (Inr _, c) \<Rightarrow> (True, s\<lparr>fk_consumer := Some c\<rparr>)
        | (Inl _, c) \<Rightarrow> (False, (drop_consumer N (s\<lparr>fk_consumer := Some c\<rparr>))\<lparr>fk_exit_code := EXIT_ERROR\<rparr>)
      else (True, s))"

definition handle_command :: "'w nats_ops \<Rightarrow> int \<Rightarrow> string \<Rightarrow> 'w fork \<Rightarrow> unit res \<times> 'w fork" where
  "handle_command N t cmd s =
     (if cmd = ''restart'' then (Inr (), drop_consumer N (s\<lparr>fk_exit_code := EXIT_RESTART, fk_completed := True\<rparr>))
      else if cmd = ''ctl_shutdown'' then (Inr (), drop_consumer N (s\<lparr>fk_completed := True\<rparr>))
      else case fk_consumer s of
             None \<Rightarrow> (Inr (), s)
           | Some c \<Rightarrow>
               if cmd = ''pause'' then (Inr (), s\<lparr>fk_consumer := Some (pause N t c), fk_paused := True\<rparr>)
               else if cmd = ''unpause'' then
                 (case unpause N c of
                    (Inl e, c1) \<Rightarrow> (Inl e, s\<lparr>fk_consumer := Some c1\<rparr>)
                  | (Inr _, c1) \<Rightarrow> (Inr (), s\<lparr>fk_consumer := Some c1, fk_paused := False\<rparr>))
               else (Inr (), s))"

definition consumer_flag :: "('w consumer \<Rightarrow> bool) \<Rightarrow> 'w fork \<Rightarrow> bool" where
  "consumer_flag f s = (case fk_consumer s of None \<Rightarrow> False | Some c \<Rightarrow> f c)"

text \<open>One wake-up, by precedence: a command, a fatal error, a lost connection, a signal.\<close>

definition wake :: "'w nats_ops \<Rightarrow> int \<Rightarrow> 'w fork \<Rightarrow> unit res \<times> 'w fork" where
  "wake N t s =
     (case fk_control s of
        cmd # rest \<Rightarrow> handle_command N t cmd (s\<lparr>fk_control := rest\<rparr>)
      | [] \<Rightarrow>
          if consumer_flag cn_fatal s then (Inr (), s\<lparr>fk_exit_code := EXIT_ERROR, fk_completed := True\<rparr>)
          else if consumer_flag cn_disconnected s then (Inr (), s\<lparr>fk_exit_code := EXIT_NATS_DISCONNECTED, fk_completed := True\<rparr>)
          else if fk_signal s then (Inr (), s\<lparr>fk_completed := True\<rparr>)
          else (Inr (), s))"

text \<open>The loop, on the rounds of a run: the time of the round and what happens before its wake-up. The result is \<open>None\<close> while it
  waits, an exception, or the exit code.\<close>

fun fork_loop :: "'w nats_ops \<Rightarrow> 'w world_ops \<Rightarrow> nats_config \<Rightarrow> (int \<times> happening list) list \<Rightarrow> 'w fork \<Rightarrow> int res option \<times> 'w fork" where
  "fork_loop N W cfg [] s = (None, s)"
| "fork_loop N W cfg ((t, hs) # rounds) s =
     (case ensure_consumer N W cfg s of
        (False, s1) \<Rightarrow> (Some (Inr (fk_exit_code s1)), s1)
      | (True, s1) \<Rightarrow>
          (case wake N t (fold (arrive N) hs s1) of
             (Inl e, s2) \<Rightarrow> (Some (Inl e), s2)
           | (Inr _, s2) \<Rightarrow> if fk_completed s2 then (Some (Inr (fk_exit_code s2)), s2) else fork_loop N W cfg rounds s2))"

text \<open>The \<open>finally\<close> block, and the whole process; \<open>main\<close> turns an exception into the exit code of a panic.\<close>

definition clean_up :: "'w nats_ops \<Rightarrow> fork_env \<Rightarrow> 'w fork \<Rightarrow> unit res \<times> fork_effect list" where
  "clean_up N e s =
     (let s1 = drop_consumer N s in
      if ok (fe_driver_stop e)
      then (Inr (), [FConsumer (fk_past s1) (fk_left s1), FDriverStop, FTrackerClose, FServerStop] @ (if fe_logs_dir e \<noteq> [] then [FSinkClose] else []))
      else (map_exc id (fe_driver_stop e), [FConsumer (fk_past s1) (fk_left s1), FDriverStop]))"

definition run_fork ::
    "'w nats_ops \<Rightarrow> 'w world_ops \<Rightarrow> fork_env \<Rightarrow> nats_config \<Rightarrow> (int \<times> happening list) list \<Rightarrow> 'w \<Rightarrow> int option \<times> fork_effect list" where
  "run_fork N W e cfg rounds w =
     (case fork_setup e of
        (Inl code, fx) \<Rightarrow> (Some code, fx)
      | (Inr _, _) \<Rightarrow>
          (case fork_loop N W cfg rounds (new_fork w) of
             (None, _) \<Rightarrow> (None, [])
           | (Some r, s) \<Rightarrow>
               (case clean_up N e s of
                  (Inl _, fx) \<Rightarrow> (Some EXIT_PANIC, fx)
                | (Inr _, fx) \<Rightarrow> (Some (case r of Inl _ \<Rightarrow> EXIT_PANIC | Inr code \<Rightarrow> code), fx))))"

section \<open>The loop as its contract\<close>

text \<open>What the loop does, without consumer and client: commands first and in their order, then fatal errors, lost connections,
  signals. A consumer that has begun to stop reports no lost connection, and one whose bufferer has ended no fatal error. Each round
  comes with whether JetStream would accept a subscription at its wake-up: an \<open>unpause\<close> that it refuses ends the process.\<close>

record fork_state =
  sp_paused :: bool
  sp_fatal :: bool
  sp_lost :: bool
  sp_scheduled :: bool
  sp_stopping :: bool
  sp_left :: "stop_step list"
  sp_signal :: bool
  sp_control :: "string list"

definition fork_state_init :: fork_state where
  "fork_state_init = \<lparr>sp_paused = False, sp_fatal = False, sp_lost = False, sp_scheduled = False, sp_stopping = False, sp_left = [],
     sp_signal = False, sp_control = []\<rparr>"

fun sp_arrive :: "happening \<Rightarrow> fork_state \<Rightarrow> fork_state" where
  "sp_arrive (HCommand cmd) a = a\<lparr>sp_control := sp_control a @ [cmd]\<rparr>"
| "sp_arrive HSignal a = a\<lparr>sp_signal := True\<rparr>"
| "sp_arrive (HFatal _) a =
     (if sp_fatal a \<or> sp_stopping a \<and> SBufferer \<notin> set (sp_left a) then a else a\<lparr>sp_fatal := True, sp_scheduled := True\<rparr>)"
| "sp_arrive HLost a = (if sp_stopping a then a else a\<lparr>sp_lost := True, sp_scheduled := True\<rparr>)"
| "sp_arrive HStopBegins a =
     (if \<not> sp_scheduled a then a
      else if sp_stopping a then a\<lparr>sp_scheduled := False\<rparr>
      else a\<lparr>sp_scheduled := False, sp_stopping := True, sp_left := STOP_STEPS\<rparr>)"
| "sp_arrive HStopStep a = a\<lparr>sp_left := tl (sp_left a)\<rparr>"

definition sp_command :: "bool \<Rightarrow> string \<Rightarrow> fork_state \<Rightarrow> int option \<times> fork_state" where
  "sp_command binds cmd a =
     (if cmd = ''restart'' then (Some 4, a)
      else if cmd = ''ctl_shutdown'' then (Some 0, a)
      else if cmd = ''pause'' then (None, a\<lparr>sp_paused := True\<rparr>)
      else if cmd = ''unpause'' then (if sp_paused a \<and> binds then (None, a\<lparr>sp_paused := False\<rparr>) else (Some 2, a))
      else (None, a))"

definition sp_wake :: "bool \<Rightarrow> fork_state \<Rightarrow> int option \<times> fork_state" where
  "sp_wake binds a =
     (case sp_control a of
        cmd # rest \<Rightarrow> sp_command binds cmd (a\<lparr>sp_control := rest\<rparr>)
      | [] \<Rightarrow> (if sp_fatal a then Some 1 else if sp_lost a then Some 5 else if sp_signal a then Some 0 else None, a))"

fun fork_spec :: "(happening list \<times> bool) list \<Rightarrow> fork_state \<Rightarrow> int option" where
  "fork_spec [] a = None"
| "fork_spec ((hs, binds) # rounds) a =
     (case sp_wake binds (fold sp_arrive hs a) of (Some code, _) \<Rightarrow> Some code | (None, a1) \<Rightarrow> fork_spec rounds a1)"

text \<open>Whether JetStream accepts the subscription of the consumer: at the wake-up of each round of a run, and when it is created.\<close>

definition accepts :: "'w nats_ops \<Rightarrow> 'w consumer \<Rightarrow> bool" where
  "accepts N c = ok (fst (n_bind N (cn_durable c) (cn_world c)))"

fun binding :: "'w nats_ops \<Rightarrow> 'w world_ops \<Rightarrow> nats_config \<Rightarrow> (int \<times> happening list) list \<Rightarrow> 'w fork \<Rightarrow> bool list" where
  "binding N W cfg [] s = []"
| "binding N W cfg ((t, hs) # rounds) s =
     (let s1 = fold (arrive N) hs (snd (ensure_consumer N W cfg s)) in
      consumer_flag (accepts N) s1 # binding N W cfg rounds (snd (wake N t s1)))"

definition created :: "'w nats_ops \<Rightarrow> 'w world_ops \<Rightarrow> nats_config \<Rightarrow> 'w \<Rightarrow> bool" where
  "created N W cfg w = (case create N W cfg (new_consumer w) of (Inl _, _) \<Rightarrow> False | (Inr _, c) \<Rightarrow> accepts N c)"

section \<open>Refinement\<close>

definition exit_of :: "int res \<Rightarrow> int" where
  "exit_of r = (case r of Inl _ \<Rightarrow> EXIT_PANIC | Inr code \<Rightarrow> code)"

definition live :: "fork_state \<Rightarrow> 'w consumer \<Rightarrow> bool" where
  "live a c \<longleftrightarrow> (cn_psub c \<longleftrightarrow> \<not> sp_paused a) \<and> cn_fatal c = sp_fatal a \<and> cn_disconnected c = sp_lost a \<and> cn_stopping c = sp_stopping a
     \<and> cn_scheduled c = sp_scheduled a \<and> cn_stop_left c = sp_left a \<and> distinct (sp_left a) \<and> cn_bufferer c \<noteq> Absent
     \<and> (cn_bufferer c = Active \<longleftrightarrow> \<not> sp_fatal a \<and> \<not> (sp_stopping a \<and> SBufferer \<notin> set (sp_left a)))"

definition stop_begun :: "fork_state \<Rightarrow> bool" where
  "stop_begun a \<longleftrightarrow> (sp_left a \<noteq> [] \<longrightarrow> sp_stopping a)"

definition abstracts :: "fork_state \<Rightarrow> 'w fork \<Rightarrow> bool" where
  "abstracts a s \<longleftrightarrow> (\<exists>c. fk_consumer s = Some c \<and> live a c) \<and> stop_begun a \<and> fk_control s = sp_control a \<and> fk_signal s = sp_signal a
     \<and> \<not> fk_completed s \<and> fk_exit_code s = 0"

lemma live_fatal: "live a c \<Longrightarrow> live (sp_arrive (HFatal e) a) (if cn_bufferer c = Active then set_fatal e c else c)"
  by (auto simp: live_def set_fatal_def)

lemma live_lost: "live a c \<Longrightarrow> live (sp_arrive HLost a) (disconnected_cb c)"
  by (auto simp: live_def disconnected_cb_def)

lemma live_begins: "live a c \<Longrightarrow> live (sp_arrive HStopBegins a) (self_stop_begins c)"
  by (auto simp: live_def self_stop_begins_def STOP_STEPS_def)

lemma live_step:
  assumes "live a c" "sp_left a \<noteq> [] \<Longrightarrow> sp_stopping a"
  shows "live (sp_arrive HStopStep a) (self_stop_step N c)"
proof (cases "sp_left a")
  case Nil
  with assms show ?thesis by (simp add: live_def self_stop_step_def)
next
  case (Cons st left)
  with assms have "cn_stop_left c = st # left" "SBufferer \<in> set left \<longrightarrow> st \<noteq> SBufferer" "sp_stopping a" by (auto simp: live_def)
  with assms Cons show ?thesis
    by (cases "st = SBufferer") (auto simp: live_def self_stop_step_def stop_step_simps simp del: do_stop_step.simps)
qed

lemma live_other [simp]: "live (a\<lparr>sp_control := q\<rparr>) c = live a c" "live (a\<lparr>sp_signal := b\<rparr>) c = live a c"
  by (simp_all add: live_def)

lemma stop_begun_arrive: "stop_begun a \<Longrightarrow> stop_begun (sp_arrive h a)"
  by (cases h) (auto simp: stop_begun_def)

lemma abstracts_arrive:
  assumes "abstracts a s"
  shows "abstracts (sp_arrive h a) (arrive N h s)"
proof -
  from assms obtain c where c: "fk_consumer s = Some c" "live a c" and b: "stop_begun a" and o: "fk_control s = sp_control a" "fk_signal s = sp_signal a"
    "\<not> fk_completed s" "fk_exit_code s = 0" by (auto simp: abstracts_def)
  note l = live_fatal [OF c(2)] live_lost [OF c(2)] live_begins [OF c(2)] live_step [OF c(2), of N]
  have k: "sp_control (sp_arrive h a) = fk_control (arrive N h s)" "sp_signal (sp_arrive h a) = fk_signal (arrive N h s)"
    "\<not> fk_completed (arrive N h s)" "fk_exit_code (arrive N h s) = 0"
    by (cases h; simp add: o on_consumer_def)+
  have "\<exists>c'. fk_consumer (arrive N h s) = Some c' \<and> live (sp_arrive h a) c'"
  proof (cases h)
    case HStopStep
    with c l(4) b show ?thesis by (auto simp: on_consumer_def stop_begun_def simp del: sp_arrive.simps)
  next
    case (HFatal e)
    with c l(1) [of e] show ?thesis by (simp add: on_consumer_def del: sp_arrive.simps)
  qed (use c l(2,3) in \<open>simp_all add: on_consumer_def live_other del: sp_arrive.simps(3-6)\<close>)
  with k stop_begun_arrive [OF b] show ?thesis by (simp add: abstracts_def)
qed

lemma abstracts_fold: "abstracts a s \<Longrightarrow> abstracts (fold sp_arrive hs a) (fold (arrive N) hs s)"
  by (induction hs arbitrary: a s) (auto simp: abstracts_arrive)

lemma live_pause: "live a c \<Longrightarrow> live (a\<lparr>sp_paused := True\<rparr>) (pause N t c)"
  by (auto simp: live_def pause_def Let_def)

lemma live_unpause:
  assumes "live a c" "sp_paused a"
  shows "if accepts N c then \<exists>c1. unpause N c = (Inr (), c1) \<and> live (a\<lparr>sp_paused := False\<rparr>) c1 else \<exists>e c1. unpause N c = (Inl e, c1)"
proof (cases "n_bind N (cn_durable c) (cn_world c)")
  case (Pair x w)
  with assms show ?thesis by (cases x) (simp_all add: accepts_def ok_def unpause_def ask_def live_def)
qed

lemma four_cases: "(x = a \<Longrightarrow> P) \<Longrightarrow> (x = b \<Longrightarrow> P) \<Longrightarrow> (x = c \<Longrightarrow> P) \<Longrightarrow> (x = d \<Longrightarrow> P) \<Longrightarrow>
    (x \<noteq> a \<Longrightarrow> x \<noteq> b \<Longrightarrow> x \<noteq> c \<Longrightarrow> x \<noteq> d \<Longrightarrow> P) \<Longrightarrow> P"
  by blast

lemma wake_refines:
  assumes "abstracts a s"
  shows "case sp_wake (consumer_flag (accepts N) s) a of
      (Some code, _) \<Rightarrow> (case wake N t s of (Inl _, _) \<Rightarrow> code = 2 | (Inr _, s') \<Rightarrow> fk_completed s' \<and> fk_exit_code s' = code)
    | (None, a') \<Rightarrow> (case wake N t s of (Inl _, _) \<Rightarrow> False | (Inr _, s') \<Rightarrow> abstracts a' s')"
proof (cases "sp_control a")
  case Nil
  from assms obtain c where c: "fk_consumer s = Some c" "live a c" "fk_control s = sp_control a" "fk_signal s = sp_signal a"
      "fk_exit_code s = 0" by (auto simp: abstracts_def)
  then have "cn_fatal c = sp_fatal a" "cn_disconnected c = sp_lost a" by (simp_all add: live_def)
  with Nil c assms show ?thesis
    by (simp add: sp_wake_def wake_def consumer_flag_def EXIT_ERROR_def EXIT_NATS_DISCONNECTED_def)
next
  case (Cons cmd rest)
  let ?s = "s\<lparr>fk_control := rest\<rparr>" and ?a = "a\<lparr>sp_control := rest\<rparr>"
  from assms obtain c where c: "fk_consumer s = Some c" "live a c" "\<not> fk_completed s" "fk_exit_code s = 0" "fk_signal s = sp_signal a"
      "stop_begun a" by (auto simp: abstracts_def)
  from assms Cons c(1) have w: "wake N t s = handle_command N t cmd ?s" and v: "sp_wake (consumer_flag (accepts N) s) a = sp_command (accepts N c) cmd ?a"
    by (auto simp: wake_def sp_wake_def abstracts_def consumer_flag_def)
  show ?thesis
  proof (rule four_cases [where x = cmd and a = "''restart''" and b = "''ctl_shutdown''" and c = "''pause''" and d = "''unpause''"])
    assume 3: "cmd = ''pause''"
    with live_pause [OF c(2), of N t] c show ?thesis by (simp add: w v handle_command_def sp_command_def abstracts_def live_def stop_begun_def)
  next
    assume 4: "cmd = ''unpause''"
    show ?thesis
    proof (cases "sp_paused a")
      case True
      show ?thesis
      proof (cases "accepts N c")
        case ac: True
        with live_unpause [OF c(2) True, of N] obtain c1 where "unpause N c = (Inr (), c1)" "live (a\<lparr>sp_paused := False\<rparr>) c1" by auto
        with 4 True ac c show ?thesis by (simp add: w v handle_command_def sp_command_def abstracts_def live_def stop_begun_def)
      next
        case ac: False
        with live_unpause [OF c(2) True, of N] obtain e c1 where "unpause N c = (Inl e, c1)" by auto
        with 4 True ac c show ?thesis by (simp add: w v handle_command_def sp_command_def)
      qed
    next
      case False
      with c have "unpause N c = (Inl ALREADY_STARTED, c)" by (simp add: unpause_def live_def)
      with 4 False c show ?thesis by (simp add: w v handle_command_def sp_command_def)
    qed
  qed (use c in \<open>simp_all add: w v handle_command_def sp_command_def drop_consumer_def abstracts_def stop_begun_def EXIT_RESTART_def Let_def\<close>)
qed

lemma loop_refines:
  assumes "abstracts a s"
  shows "map_option exit_of (fst (fork_loop N W cfg rounds s)) = fork_spec (zip (map snd rounds) (binding N W cfg rounds s)) a"
  using assms
proof (induction rounds arbitrary: a s)
  case (Cons r rounds)
  obtain t hs where r: "r = (t, hs)" by (cases r)
  let ?s = "fold (arrive N) hs s" and ?a = "fold sp_arrive hs a"
  have e: "ensure_consumer N W cfg s = (True, s)" using Cons.prems by (auto simp: ensure_consumer_def abstracts_def)
  obtain y s2 where w: "wake N t ?s = (y, s2)" by fastforce
  obtain z a2 where v: "sp_wake (consumer_flag (accepts N) ?s) ?a = (z, a2)" by fastforce
  note wr = wake_refines [OF abstracts_fold [OF Cons.prems, where hs = hs and N = N], of N t, unfolded w v]
  show ?case
  proof (cases z)
    case (Some code)
    with wr show ?thesis by (cases y) (simp_all add: r e w v Let_def exit_of_def EXIT_PANIC_def)
  next
    case None
    with wr obtain u where "y = Inr u" "abstracts a2 s2" by (cases y) auto
    with Cons.IH [of a2 s2] None show ?thesis by (simp add: r e w v Let_def abstracts_def)
  qed
qed simp

section \<open>Cleaning up\<close>

definition finished :: "ncall list \<Rightarrow> bool" where
  "finished cs \<longleftrightarrow> (NSpawnBufferer \<in> set cs \<longrightarrow> NAwaitBufferer \<in> set cs \<and> NClose \<in> set cs)"

lemma settled_finished: "settled c \<Longrightarrow> cn_stopping c \<Longrightarrow> cn_stop_left c = [] \<Longrightarrow> finished (cn_trace c)"
  by (auto simp: settled_def drained_def finished_def)

definition fork_inv :: "'w fork \<Rightarrow> bool" where
  "fork_inv s \<longleftrightarrow> (\<forall>c. fk_consumer s = Some c \<longrightarrow> settled c) \<and> (fk_left s = [] \<longrightarrow> finished (fk_past s)) \<and> fk_exit_code s \<in> {0, 1, 4, 5}"

lemma fork_inv_drop:
  assumes "fork_inv s"
  shows "fork_inv (drop_consumer N s) \<and> fk_consumer (drop_consumer N s) = None"
proof (cases "fk_consumer s")
  case None
  with assms show ?thesis by (simp add: drop_consumer_def)
next
  case (Some c)
  have "settled (consumer_stop N True c)" using assms Some by (simp add: fork_inv_def settled_stop)
  note f = settled_finished [OF this stopping_stop]
  from Some have d: "fk_past (drop_consumer N s) = fk_past s @ cn_trace (consumer_stop N True c)"
      "fk_left (drop_consumer N s) = fk_left s @ cn_stop_left (consumer_stop N True c)"
      "fk_consumer (drop_consumer N s) = None" "fk_exit_code (drop_consumer N s) = fk_exit_code s"
    by (simp_all add: drop_consumer_def Let_def)
  show ?thesis using assms f unfolding fork_inv_def d by (auto simp: finished_def)
qed

lemma fork_inv_updates [simp]:
  "fork_inv (s\<lparr>fk_control := q\<rparr>) = fork_inv s" "fork_inv (s\<lparr>fk_signal := b\<rparr>) = fork_inv s"
  "fork_inv (s\<lparr>fk_completed := b\<rparr>) = fork_inv s" "fork_inv (s\<lparr>fk_paused := b\<rparr>) = fork_inv s"
  by (simp_all add: fork_inv_def)

lemma fork_inv_exit: "fork_inv s \<Longrightarrow> code \<in> {0, 1, 4, 5} \<Longrightarrow> fork_inv (s\<lparr>fk_exit_code := code\<rparr>)"
  by (simp add: fork_inv_def)

lemma fork_inv_consumer: "fork_inv s \<Longrightarrow> settled c \<Longrightarrow> fork_inv (s\<lparr>fk_consumer := Some c\<rparr>)"
  by (simp add: fork_inv_def)

lemma fork_inv_on: "fork_inv s \<Longrightarrow> (\<And>c. settled c \<Longrightarrow> settled (f c)) \<Longrightarrow> fork_inv (on_consumer f s)"
  by (auto simp: fork_inv_def on_consumer_def)

lemma fork_inv_arrive: "fork_inv s \<Longrightarrow> fork_inv (arrive N h s)"
  by (cases h) (simp_all add: fork_inv_on settled_callbacks settled_begins settled_step)

lemma fork_inv_fold: "fork_inv s \<Longrightarrow> fork_inv (fold (arrive N) hs s)"
  by (induction hs arbitrary: s) (auto simp: fork_inv_arrive)

lemma create_start_settled:
  assumes "andthen_st (create N W cfg (new_consumer w)) (\<lambda>_. start N) = (r, c)"
  shows "settled c"
  using assms
proof (cases rule: andthen_st_cases)
  case err
  show ?thesis by (rule idle_settled [OF create_idle [OF err(1) new_consumer_idle]])
next
  case (ok u c1)
  show ?thesis by (rule settled_start [OF create_idle [OF ok(1) new_consumer_idle] create_connected [OF ok(1)] ok(2)])
qed

lemma fork_inv_ensure:
  assumes "fork_inv s" "ensure_consumer N W cfg s = (go, s')"
  shows "fork_inv s'"
proof (cases "\<not> fk_paused s \<and> fk_consumer s = None")
  case True
  obtain r c where c: "andthen_st (create N W cfg (new_consumer (fk_world s))) (\<lambda>_. start N) = (r, c)" by fastforce
  from fork_inv_consumer [OF assms(1) create_start_settled [OF c]] have i: "fork_inv (s\<lparr>fk_consumer := Some c\<rparr>)" .
  with fork_inv_drop [OF i, of N] show ?thesis using assms(2) True c
    by (auto simp: ensure_consumer_def EXIT_ERROR_def split: sum.splits intro!: fork_inv_exit)
next
  case False
  with assms show ?thesis by (auto simp: ensure_consumer_def)
qed

lemma fork_inv_command:
  assumes "fork_inv s" "handle_command N t cmd s = (r, s')"
  shows "fork_inv s'"
proof -
  have d: "fork_inv (drop_consumer N (s\<lparr>fk_exit_code := EXIT_RESTART, fk_completed := True\<rparr>))"
    "fork_inv (drop_consumer N (s\<lparr>fk_completed := True\<rparr>))"
    using fork_inv_drop [of "s\<lparr>fk_exit_code := EXIT_RESTART, fk_completed := True\<rparr>" N] fork_inv_drop [of "s\<lparr>fk_completed := True\<rparr>" N]
      fork_inv_exit [OF assms(1), of EXIT_RESTART] assms(1) by (simp_all add: EXIT_RESTART_def)
  have c: "fork_inv (s\<lparr>fk_consumer := Some (pause N t c)\<rparr>)"
    "unpause N c = (r1, c1) \<Longrightarrow> fork_inv (s\<lparr>fk_consumer := Some c1\<rparr>)" if "fk_consumer s = Some c" for c c1 r1
    using fork_inv_consumer [OF assms(1)] settled_pause settled_unpause assms(1) that by (auto simp: fork_inv_def)
  show ?thesis using assms d c
    by (auto simp: handle_command_def split: if_splits option.splits prod.splits sum.splits)
qed

lemma fork_inv_wake:
  assumes "fork_inv s" "wake N t s = (r, s')"
  shows "fork_inv s'"
proof (cases "fk_control s")
  case Nil
  with assms show ?thesis
    by (auto simp: wake_def EXIT_ERROR_def EXIT_NATS_DISCONNECTED_def split: if_splits intro: fork_inv_exit)
next
  case (Cons cmd rest)
  with assms fork_inv_command [of "s\<lparr>fk_control := rest\<rparr>" N t cmd r s'] show ?thesis by (simp add: wake_def)
qed

lemma fork_inv_loop:
  "fork_inv s \<Longrightarrow> fork_loop N W cfg rounds s = (r, s') \<Longrightarrow> fork_inv s' \<and> (\<forall>code. r = Some (Inr code) \<longrightarrow> code \<in> {0, 1, 4, 5})"
proof (induction rounds arbitrary: s)
  case (Cons x rounds)
  obtain t hs where x: "x = (t, hs)" by (cases x)
  obtain go s1 where e: "ensure_consumer N W cfg s = (go, s1)" by fastforce
  have i1: "fork_inv s1" by (rule fork_inv_ensure [OF Cons.prems(1) e])
  obtain r2 s2 where wk: "wake N t (fold (arrive N) hs s1) = (r2, s2)" by fastforce
  have i2: "fork_inv s2" by (rule fork_inv_wake [OF fork_inv_fold [OF i1] wk])
  have ex: "fk_exit_code s1 \<in> {0, 1, 4, 5}" "fk_exit_code s2 \<in> {0, 1, 4, 5}" using i1 i2 by (simp_all add: fork_inv_def)
  from Cons.prems(2) Cons.IH [OF i2] show ?case
    by (cases go; cases r2) (use ex i1 i2 in \<open>auto simp: x e wk split: if_splits\<close>)
qed auto

lemma new_fork_inv: "fork_inv (new_fork w)"
  by (simp add: fork_inv_def new_fork_def finished_def EXIT_SUCCESS_def)

text \<open>Without a fatal error and a lost connection the consumer does not stop itself.\<close>

definition undisturbed :: "happening list \<Rightarrow> bool" where
  "undisturbed hs \<longleftrightarrow> (\<forall>x. HFatal x \<notin> set hs) \<and> HLost \<notin> set hs"

definition calm :: "'w fork \<Rightarrow> bool" where
  "calm s \<longleftrightarrow> (\<forall>c. fk_consumer s = Some c \<longrightarrow> \<not> cn_fatal c \<and> \<not> cn_disconnected c) \<and> fk_left s = []"

lemma calm_updates [simp]:
  "calm (s\<lparr>fk_control := q\<rparr>) = calm s" "calm (s\<lparr>fk_completed := b\<rparr>) = calm s" "calm (s\<lparr>fk_exit_code := x\<rparr>) = calm s"
  "calm (s\<lparr>fk_paused := b\<rparr>) = calm s" "calm (s\<lparr>fk_signal := b\<rparr>) = calm s"
  by (simp_all add: calm_def)

lemma calm_drop:
  assumes "calm s" "fork_inv s"
  shows "calm (drop_consumer N s)"
proof (cases "fk_consumer s")
  case (Some c)
  with assms have "\<not> cn_fatal c" "\<not> cn_disconnected c" "drained c" by (auto simp: calm_def fork_inv_def settled_def)
  then have "cn_stop_left c = []" by (auto simp: drained_def)
  with Some assms(1) show ?thesis by (simp add: drop_consumer_def calm_def Let_def stop_left)
qed (use assms in \<open>simp add: drop_consumer_def\<close>)

lemma self_stop_flags:
  "cn_fatal (self_stop_begins c) = cn_fatal c" "cn_disconnected (self_stop_begins c) = cn_disconnected c"
  "cn_fatal (self_stop_step N c) = cn_fatal c" "cn_disconnected (self_stop_step N c) = cn_disconnected c"
  by (simp_all add: self_stop_begins_def self_stop_step_def stop_step_frame split: list.splits)

lemma calm_arrive: "calm s \<Longrightarrow> undisturbed [h] \<Longrightarrow> calm (arrive N h s)"
  by (cases h) (auto simp: calm_def undisturbed_def on_consumer_def self_stop_flags)

lemma calm_fold: "calm s \<Longrightarrow> undisturbed hs \<Longrightarrow> calm (fold (arrive N) hs s)"
proof (induction hs arbitrary: s)
  case (Cons h hs)
  then have "undisturbed [h]" "undisturbed hs" by (auto simp: undisturbed_def)
  with Cons.IH [OF calm_arrive [OF Cons.prems(1)]] show ?case by simp
qed simp

lemma flags_unpause: "unpause N c = (x, c') \<Longrightarrow> cn_fatal c' = cn_fatal c \<and> cn_disconnected c' = cn_disconnected c"
  by (erule unpause_cases) simp_all

lemma flags_start: "start N c = (x, c') \<Longrightarrow> cn_fatal c' = cn_fatal c \<and> cn_disconnected c' = cn_disconnected c"
  by (auto simp: start_def elim!: andthen_st_cases split: if_splits dest!: flags_unpause)

lemma flags_pause: "cn_fatal (pause N t c) = cn_fatal c \<and> cn_disconnected (pause N t c) = cn_disconnected c"
  by (simp add: pause_def Let_def)

lemma created_calm:
  assumes "andthen_st (create N W cfg (new_consumer w)) (\<lambda>_. start N) = (x, c)"
  shows "\<not> cn_fatal c \<and> \<not> cn_disconnected c"
  using assms
proof (cases rule: andthen_st_cases)
  case err
  show ?thesis using create_idle [OF err(1) new_consumer_idle] by (simp add: idle_def)
next
  case (ok u c1)
  show ?thesis using create_idle [OF ok(1) new_consumer_idle] flags_start [OF ok(2)] by (simp add: idle_def)
qed

lemma calm_ensure:
  assumes "calm s" "fork_inv s" "ensure_consumer N W cfg s = (go, s')"
  shows "calm s'"
proof (cases "\<not> fk_paused s \<and> fk_consumer s = None")
  case True
  obtain x c where c: "andthen_st (create N W cfg (new_consumer (fk_world s))) (\<lambda>_. start N) = (x, c)" by fastforce
  have k: "calm (s\<lparr>fk_consumer := Some c\<rparr>)" using assms(1) created_calm [OF c] by (simp add: calm_def)
  with calm_drop [OF k fork_inv_consumer [OF assms(2) create_start_settled [OF c]], of N] show ?thesis
    using assms(3) True c by (cases x) (auto simp: ensure_consumer_def)
next
  case False
  with assms show ?thesis by (auto simp: ensure_consumer_def)
qed

lemma calm_command:
  assumes "calm s" "fork_inv s" "handle_command N t cmd s = (x, s')"
  shows "calm s'"
proof -
  have d: "calm (drop_consumer N (s\<lparr>fk_exit_code := EXIT_RESTART, fk_completed := True\<rparr>))" "calm (drop_consumer N (s\<lparr>fk_completed := True\<rparr>))"
    using assms(1,2) fork_inv_exit [OF assms(2), of EXIT_RESTART] by (simp_all add: calm_drop EXIT_RESTART_def)
  have c: "calm (s\<lparr>fk_consumer := Some (pause N t c)\<rparr>)" "unpause N c = (x1, c1) \<Longrightarrow> calm (s\<lparr>fk_consumer := Some c1\<rparr>)"
    if "fk_consumer s = Some c" for c c1 x1
    using that assms(1) flags_pause [of N t c] flags_unpause [of N c] by (auto simp: calm_def)
  show ?thesis using assms(1,3) d c
    by (auto simp: handle_command_def split: if_splits option.splits prod.splits sum.splits)
qed

lemma calm_wake:
  assumes "calm s" "fork_inv s" "wake N t s = (x, s')"
  shows "calm s'"
proof (cases "fk_control s")
  case Nil
  with assms show ?thesis by (auto simp: wake_def split: if_splits)
next
  case (Cons cmd rest)
  with assms calm_command [of "s\<lparr>fk_control := rest\<rparr>" N t cmd x s'] show ?thesis by (simp add: wake_def)
qed

lemma calm_loop:
  "calm s \<Longrightarrow> fork_inv s \<Longrightarrow> \<forall>(t, hs) \<in> set rounds. undisturbed hs \<Longrightarrow> fork_loop N W cfg rounds s = (x, s') \<Longrightarrow> calm s'"
proof (induction rounds arbitrary: s)
  case (Cons y rounds)
  obtain t hs where y: "y = (t, hs)" by (cases y)
  obtain go s1 where e: "ensure_consumer N W cfg s = (go, s1)" by fastforce
  have i1: "fork_inv s1" "calm s1" by (rule fork_inv_ensure [OF Cons.prems(2) e], rule calm_ensure [OF Cons.prems(1,2) e])
  have q: "undisturbed hs" "\<forall>(t, hs) \<in> set rounds. undisturbed hs" using Cons.prems(3) by (auto simp: y)
  obtain r2 s2 where wk: "wake N t (fold (arrive N) hs s1) = (r2, s2)" by fastforce
  have i2: "fork_inv s2" "calm s2"
    by (rule fork_inv_wake [OF fork_inv_fold [OF i1(1)] wk], rule calm_wake [OF calm_fold [OF i1(2) q(1)] fork_inv_fold [OF i1(1)] wk])
  from Cons.prems(4) Cons.IH [OF i2(2,1) q(2)] show ?case
    by (cases go; cases r2) (use i1 i2 in \<open>auto simp: y e wk split: if_splits\<close>)
qed auto

section \<open>Properties\<close>

lemma start_live:
  assumes "idle c"
  shows "if accepts N c then \<exists>c1. start N c = (Inr (), c1) \<and> live fork_state_init c1 else \<exists>e c1. start N c = (Inl e, c1)"
proof (cases "n_bind N (cn_durable c) (cn_world c)")
  case (Pair x w)
  with assms show ?thesis by (cases x) (simp_all add: accepts_def ok_def start_def unpause_def ask_def idle_def live_def fork_state_init_def)
qed

lemma first_round:
  "if created N W cfg w then \<exists>s. ensure_consumer N W cfg (new_fork w) = (True, s) \<and> abstracts fork_state_init s
   else \<exists>s. ensure_consumer N W cfg (new_fork w) = (False, s) \<and> fk_exit_code s = 1"
proof (cases "create N W cfg (new_consumer w)")
  case (Pair x c)
  show ?thesis
  proof (cases x)
    case (Inl e)
    with Pair show ?thesis by (simp add: created_def ensure_consumer_def new_fork_def EXIT_ERROR_def)
  next
    case (Inr u)
    have "idle c" by (rule create_idle [OF Pair new_consumer_idle])
    from start_live [OF this, of N] Pair Inr show ?thesis
      by (auto simp: created_def ensure_consumer_def new_fork_def abstracts_def stop_begun_def fork_state_init_def EXIT_SUCCESS_def EXIT_ERROR_def
          split: if_splits)
  qed
qed

text \<open>The exit code of the loop, or that it still runs, by the contract.\<close>

definition loop_contract :: "'w nats_ops \<Rightarrow> 'w world_ops \<Rightarrow> nats_config \<Rightarrow> (int \<times> happening list) list \<Rightarrow> 'w \<Rightarrow> int option" where
  "loop_contract N W cfg rounds w =
     (if rounds = [] then None
      else if created N W cfg w then fork_spec (zip (map snd rounds) (binding N W cfg rounds (new_fork w))) fork_state_init
      else Some 1)"

lemma fork_loop_spec: "map_option exit_of (fst (fork_loop N W cfg rounds (new_fork w))) = loop_contract N W cfg rounds w"
proof (cases rounds)
  case (Cons r rs)
  obtain t hs where r: "r = (t, hs)" by (cases r)
  show ?thesis
  proof (cases "created N W cfg w")
    case True
    with first_round [of N W cfg w] obtain s where s: "ensure_consumer N W cfg (new_fork w) = (True, s)" "abstracts fork_state_init s" by auto
    have "ensure_consumer N W cfg s = (True, s)" using s(2) by (auto simp: ensure_consumer_def abstracts_def)
    with s(1) have "fork_loop N W cfg rounds (new_fork w) = fork_loop N W cfg rounds s" "binding N W cfg rounds (new_fork w) = binding N W cfg rounds s"
      by (simp_all add: Cons r)
    with loop_refines [OF s(2), of N W cfg rounds] True Cons show ?thesis by (simp add: loop_contract_def)
  next
    case False
    with first_round [of N W cfg w] obtain s where "ensure_consumer N W cfg (new_fork w) = (False, s)" "fk_exit_code s = 1" by auto
    with False Cons r show ?thesis by (simp add: loop_contract_def exit_of_def)
  qed
qed (simp add: loop_contract_def)

lemma run_fork_spec:
  "fst (run_fork N W e cfg rounds w) =
     (case fst (fork_setup e) of
        Inl code \<Rightarrow> Some code
      | Inr _ \<Rightarrow> map_option (\<lambda>code. if ok (fe_driver_stop e) then code else 2) (loop_contract N W cfg rounds w))"
  unfolding fork_loop_spec [symmetric]
  by (auto simp: run_fork_def clean_up_def exit_of_def ok_def EXIT_PANIC_def Let_def split: prod.splits option.splits sum.splits)

text \<open>C6: the process implements its contract, whatever its environment and its client do. If it cannot be set up, it ends
  with the code of that failure. If its consumer cannot be created or bound to its durable, it ends with 1. Otherwise the exit code of
  the process, or that it still runs, is the one of \<open>fork_spec\<close>: the first command that ends it decides, 4 for a restart, 0 for
  a shutdown, and 2 for an \<open>unpause\<close> when it is not paused or JetStream refuses the subscription; a fatal error gives 1, a
  lost connection 5 and a signal 0 as soon as no command is waiting. If stopping the driver raises at the end, the code is 2.\<close>

theorem fork_refines:
  "fst (run_fork N W e cfg rounds w) =
     (case fst (fork_setup e) of
        Inl code \<Rightarrow> Some code
      | Inr _ \<Rightarrow>
          map_option (\<lambda>code. if ok (fe_driver_stop e) then code else 2)
            (if rounds = [] then None
             else if created N W cfg w
               then fork_spec (zip (map snd rounds) (binding N W cfg rounds (new_fork w))) fork_state_init
             else Some 1))"
  using run_fork_spec [of N W e cfg rounds w] by (simp only: loop_contract_def)

text \<open>C17: how the process ends, whatever happens to its consumer and its client. Once it was set up it ends with 0, 1, 2, 4 or 5, never
  with the code of wrong usage. It stops its consumer, then the driver, then closes the tracker and stops the server; only a driver
  whose \<open>stop\<close> raises keeps it from the last two, and then the code is 2. Before it stops the driver, every bufferer that was
  started has been waited for and its connection closed, except when the consumer has begun to stop itself and that stop has steps
  left; this needs a fatal error or a lost connection.\<close>

theorem fork_cleans_up:
  assumes "run_fork N W e cfg rounds w = (Some code, fx)" "fst (fork_setup e) = Inr ()"
  shows "code \<in> {0, 1, 2, 4, 5} \<and> (\<exists>calls left rest. fx = FConsumer calls left # FDriverStop # rest
    \<and> (left = [] \<longrightarrow> NSpawnBufferer \<in> set calls \<longrightarrow> NAwaitBufferer \<in> set calls \<and> NClose \<in> set calls)
    \<and> (left \<noteq> [] \<longrightarrow> (\<exists>t hs. (t, hs) \<in> set rounds \<and> ((\<exists>x. HFatal x \<in> set hs) \<or> HLost \<in> set hs)))
    \<and> (if ok (fe_driver_stop e) then rest = FTrackerClose # FServerStop # (if fe_logs_dir e = [] then [] else [FSinkClose])
       else rest = [] \<and> code = 2))"
proof -
  obtain r s where l: "fork_loop N W cfg rounds (new_fork w) = (Some r, s)"
    using assms by (auto simp: run_fork_def split: prod.splits option.splits sum.splits)
  from fork_inv_loop [OF new_fork_inv l] have i: "fork_inv s" "\<And>code. r = Inr code \<Longrightarrow> code \<in> {0, 1, 4, 5}" by auto
  define d where "d = drop_consumer N s"
  have f: "fk_left d = [] \<longrightarrow> finished (fk_past d)" using fork_inv_drop [OF i(1), of N] by (simp add: fork_inv_def d_def)
  have q: "\<exists>t hs. (t, hs) \<in> set rounds \<and> ((\<exists>x. HFatal x \<in> set hs) \<or> HLost \<in> set hs)" if "fk_left d \<noteq> []"
  proof (rule ccontr)
    assume "\<not> ?thesis"
    then have "\<forall>(t, hs) \<in> set rounds. undisturbed hs" by (auto simp: undisturbed_def)
    moreover have "calm (new_fork w)" by (simp add: calm_def new_fork_def)
    ultimately have "calm d" using calm_loop [OF _ new_fork_inv _ l] calm_drop [OF _ i(1), of N] by (simp add: d_def)
    with that show False by (simp add: calm_def)
  qed
  obtain x where x: "fork_setup e = (Inr (), x)" using assms(2) by (metis prod.collapse)
  show ?thesis
  proof (cases "fe_driver_stop e")
    case (Inl exc)
    with assms(1) have "code = 2" "fx = [FConsumer (fk_past d) (fk_left d), FDriverStop]"
      by (auto simp: run_fork_def x l clean_up_def Let_def ok_def EXIT_PANIC_def d_def)
    with f q Inl show ?thesis by (simp add: finished_def ok_def)
  next
    case (Inr u)
    with assms(1) have "code = exit_of r" and fx: "fx = [FConsumer (fk_past d) (fk_left d), FDriverStop, FTrackerClose, FServerStop]
        @ (if fe_logs_dir e \<noteq> [] then [FSinkClose] else [])"
      by (auto simp: run_fork_def x l clean_up_def Let_def ok_def exit_of_def d_def)
    with i(2) have "code \<in> {0, 1, 2, 4, 5}" by (cases r) (auto simp: exit_of_def EXIT_PANIC_def)
    with fx f q Inr show ?thesis by (simp add: finished_def ok_def)
  qed
qed

text \<open>An \<open>unpause\<close> for a server that is not paused ends it. The command is passed on to the consumer, which raises because it is
  subscribed already; nothing catches this, and the process ends with the code of a panic.\<close>

theorem fork_unpause_panics:
  assumes "created N W cfg w" "fst (fork_setup e) = Inr ()"
  shows "fst (run_fork N W e cfg [(t, [HCommand ''unpause''])] w) = Some EXIT_PANIC"
  using assms
  by (simp add: run_fork_spec loop_contract_def Let_def sp_wake_def sp_command_def fork_state_init_def EXIT_PANIC_def)

definition sample_env :: fork_env where
  "sample_env = \<lparr>fe_logs_dir = ''logs'', fe_sink = Inr (), fe_creds = ''f'', fe_nats_url = ''nats'', fe_schema_validator = [],
     fe_validator = Inr (), fe_tracker = Inr (), fe_setup = Inr (), fe_server = Inr (), fe_driver_stop = Inr ()\<rparr>"

lemma sample_hypotheses:
  "created sample_nats sample_world sample_config 0" "fst (fork_setup sample_env) = Inr ()" "ok (fe_driver_stop sample_env)"
proof -
  have "create sample_nats sample_world sample_config (new_consumer 0) = (Inr (), snd sample_created)"
    using sample_created_value by (metis prod.collapse sample_created_def)
  then show "created sample_nats sample_world sample_config 0" by (simp add: created_def accepts_def ok_def sample_nats_def)
qed (simp_all add: sample_env_def fork_setup_def ok_def)

theorem fork_refines_witness:
  "fst (run_fork sample_nats sample_world sample_env sample_config [(1, [HFatal ''e'', HCommand ''restart''])] 0) = Some 4"
  using fork_refines [of sample_nats sample_world sample_env sample_config "[(1, [HFatal ''e'', HCommand ''restart''])]" 0] sample_hypotheses
  by (simp add: Let_def sp_wake_def sp_command_def fork_state_init_def)

theorem fork_cleans_up_witness:
  "\<exists>code fx. run_fork sample_nats sample_world sample_env sample_config [(1, [HSignal])] 0 = (Some code, fx) \<and> code \<in> {0, 1, 2, 4, 5}"
proof -
  obtain code fx where r: "run_fork sample_nats sample_world sample_env sample_config [(1, [HSignal])] 0 = (code, fx)" by fastforce
  with run_fork_spec [of sample_nats sample_world sample_env sample_config "[(1, [HSignal])]" 0] sample_hypotheses have "code = Some 0"
    by (simp add: loop_contract_def Let_def sp_wake_def fork_state_init_def)
  with fork_cleans_up [OF _ sample_hypotheses(2), of sample_nats sample_world sample_config] r show ?thesis by blast
qed

theorem fork_unpause_panics_witness:
  "fst (run_fork sample_nats sample_world sample_env sample_config [(1, [HCommand ''unpause''])] 0) = Some EXIT_PANIC"
  by (rule fork_unpause_panics [OF sample_hypotheses(1,2)])

text \<open>The driver can be closed under a running bufferer. The connection is lost and the stop that the consumer schedules begins before
  the loop wakes up; the stop that the process waits for at its end then returns at once, and the driver is stopped and
  the tracker closed although the bufferer was neither told to end nor waited for.\<close>

theorem driver_stopped_early:
  "case run_fork sample_nats sample_world sample_env sample_config [(1, [HLost, HStopBegins])] 0 of
     (code, FConsumer cs left # FDriverStop # FTrackerClose # rest) \<Rightarrow>
       code = Some EXIT_NATS_DISCONNECTED \<and> NSpawnBufferer \<in> set cs \<and> NAwaitBufferer \<notin> set cs \<and> NSentinel \<notin> set cs \<and>
       SBufferer \<in> set left
   | _ \<Rightarrow> False"
  by code_simp

end
