(* ===== verification/Control.thy ===== *)
theory Control
  imports Notify Fork
begin

text \<open>
  \<open>eds/cmd/server.py\<close>, the session loop \<open>_run_control_plane\<close>: start a session with the API, store its credentials, start
  the notification consumer, run the consumer process, act on its exit code, end the session; and the loopback
  server of \<open>eds/cmd/loopback.py\<close> with the routes of \<open>eds/cmd/fork.py\<close>, through which \<open>Handlers\<close> and \<open>Fork\<close> meet.

  The loop is a function of the outcomes of its rounds. The theorems say how it ends, which sessions are ended,
  that every notification consumer is stopped, and which credential files remain.
\<close>

section \<open>The loopback server\<close>

definition do_GET :: "(string \<times> 'r) list \<Rightarrow> ('r \<Rightarrow> (int \<times> string) option res) \<Rightarrow> string \<Rightarrow> int \<times> string" where
  "do_GET routes call path =
     (case (case dget routes path of Some r \<Rightarrow> Some r | None \<Rightarrow> dget routes ''/'') of
        None \<Rightarrow> (404, [])
      | Some r \<Rightarrow>
          (case call r of
             Inl e \<Rightarrow> (500, exc_str e)
           | Inr None \<Rightarrow> (200, [])
           | Inr (Some (status, body)) \<Rightarrow> (status, body)))"

datatype fork_route = RHealth | RMetrics | RCommand string | RLogfile

definition fork_routes :: "(string \<times> fork_route) list" where
  "fork_routes = [(''/'', RHealth), (''/metrics'', RMetrics), (''/control/pause'', RCommand ''pause''),
     (''/control/unpause'', RCommand ''unpause''), (''/control/restart'', RCommand ''restart''),
     (''/control/shutdown'', RCommand ''ctl_shutdown''), (''/control/logfile'', RLogfile)]"

text \<open>The answers of the routes, given the metrics and the outcome of a rotation of the log file, if there is one; and the command
  that a request puts into the queue of the loop.\<close>

definition call_route :: "string \<Rightarrow> string res option \<Rightarrow> fork_route \<Rightarrow> (int \<times> string) option res" where
  "call_route metrics rotated r =
     (case r of
        RHealth \<Rightarrow> Inr (Some (200, ''OK''))
      | RMetrics \<Rightarrow> Inr (Some (200, metrics))
      | RCommand _ \<Rightarrow> Inr (Some (200, []))
      | RLogfile \<Rightarrow> Inr (Some (case rotated of None \<Rightarrow> (200, []) | Some (Inl _) \<Rightarrow> (500, []) | Some (Inr path) \<Rightarrow> (200, path))))"

definition requested :: "string \<Rightarrow> happening list" where
  "requested path = (case dget fork_routes (''/control/'' @ path) of Some (RCommand cmd) \<Rightarrow> [HCommand cmd] | _ \<Rightarrow> [])"

section \<open>The session loop\<close>

datatype session_start = AlreadyRunning | StartFailed string | Started string "string option"

definition is_nats_connection_error :: "bool \<times> string \<Rightarrow> bool" where
  "is_nats_connection_error e \<longleftrightarrow> fst e \<or> sublist ''connect'' (lower (snd e))"

text \<open>The outcomes of the calls of a round: the start of the session, the directory and the credential file, the start of the
  notification consumer (whether its exception is one of the connection classes, and its text), what ends the wait of an
  unconfigured server, the consumer process, whether the directory of the session could be removed, and the first stop of the
  notification consumer; a second one finds no loop and does nothing.\<close>

record session_round =
  rd_start :: session_start
  rd_makedirs :: "unit res"
  rd_write_creds :: "unit res"
  rd_runner_start :: "(bool \<times> string) option"
  rd_configured :: bool
  rd_fork :: "(int \<times> string) res"
  rd_rmtree :: bool
  rd_runner_stop :: "unit res"

datatype control_call =
    LStart | LSleep | LCreds string | LRunnerStart | LRunnerStop | LForked string int | LForkFailed
  | LEnd string bool | LRemoveDir string bool | LScrub string bool | LRmdir string

record control =
  co_failures :: nat
  co_configured :: bool
  co_creds :: "string list"
  co_dirs :: "string list"
  co_current :: "string option"
  co_trace :: "control_call list"

datatype control_end = Returned int | FatalExit | RaisedOut exc

definition logs :: "control_call list \<Rightarrow> control \<Rightarrow> control" where
  "logs cs s = s\<lparr>co_trace := co_trace s @ cs\<rparr>"

definition fails :: "control \<Rightarrow> control" where
  "fails s = s\<lparr>co_failures := Suc (co_failures s)\<rparr>"

definition usage_text :: "string \<Rightarrow> bool" where
  "usage_text lines \<longleftrightarrow> sublist ''error: required flag'' lines \<or> sublist ''Global Flags'' lines"

text \<open>What the exit code of the consumer process means; \<open>None\<close> lets the loop go on.\<close>

definition remove_tree :: "string \<Rightarrow> bool \<Rightarrow> control \<Rightarrow> control" where
  "remove_tree sid done s =
     logs [LRemoveDir sid done] (if done then s\<lparr>co_creds := removeAll sid (co_creds s), co_dirs := removeAll sid (co_dirs s)\<rparr> else s)"

definition after_fork :: "bool \<Rightarrow> bool \<Rightarrow> string \<Rightarrow> bool \<Rightarrow> (int \<times> string) res \<Rightarrow> control \<Rightarrow> control_end option \<times> control" where
  "after_fork no_restart keep_logs sid rmtree r s =
     (case r of
        Inl _ \<Rightarrow> (None, fails (logs [LForkFailed] s))
      | Inr (ec, lines) \<Rightarrow>
          let s1 = logs [LForked sid ec] s in
          if no_restart then (Some (Returned ec), s1)
          else
            let s2 = (if ec \<noteq> EXIT_INCORRECT_USAGE then logs [LEnd sid (ec \<noteq> EXIT_SUCCESS \<and> ec \<noteq> EXIT_RESTART)] s1 else s1) in
            if ec = EXIT_NATS_DISCONNECTED then (None, logs [LSleep] s2)
            else if ec = EXIT_SUCCESS then
              (Some (Returned EXIT_SUCCESS), if keep_logs then s2 else remove_tree sid rmtree s2)
            else if ec = EXIT_INCORRECT_USAGE \<or> (ec = 1 \<and> usage_text lines) then (Some (Returned ec), s2)
            else if ec = EXIT_RESTART then (None, s2)
            else (None, fails s2))"

text \<open>\<open>runner.stop()\<close>: an exception it raises replaces the outcome of the round.\<close>

definition stop_runner :: "unit res \<Rightarrow> control_end option \<times> control \<Rightarrow> control_end option \<times> control" where
  "stop_runner r o' = (case o' of (e, s) \<Rightarrow> (case r of Inl x \<Rightarrow> Some (RaisedOut x) | Inr _ \<Rightarrow> e, logs [LRunnerStop] s))"

text \<open>The wait of a server that is not configured, and the consumer process.\<close>

definition run_consumer :: "bool \<Rightarrow> bool \<Rightarrow> session_round \<Rightarrow> string \<Rightarrow> control \<Rightarrow> control_end option \<times> control" where
  "run_consumer no_restart keep_logs rd sid s =
     (if \<not> co_configured s \<and> \<not> rd_configured rd then (Some (Returned EXIT_SUCCESS), s)
      else after_fork no_restart keep_logs sid (rd_rmtree rd) (rd_fork rd) (s\<lparr>co_configured := True\<rparr>))"

text \<open>The part of a round after the start of the notification consumer. If that has raised, the notification consumer is stopped at once; a
  connection error lets the round end after a sleep, any other error lets it go on without remote control.\<close>

definition session_body :: "bool \<Rightarrow> bool \<Rightarrow> session_round \<Rightarrow> string \<Rightarrow> control \<Rightarrow> control_end option \<times> control" where
  "session_body no_restart keep_logs rd sid s =
     (case rd_runner_start rd of
        None \<Rightarrow> stop_runner (rd_runner_stop rd) (run_consumer no_restart keep_logs rd sid s)
      | Some err \<Rightarrow>
          (case stop_runner (rd_runner_stop rd) (None, s) of
             (Some e, s1) \<Rightarrow> (Some e, s1)
           | (None, s1) \<Rightarrow>
               if is_nats_connection_error err then (None, logs [LSleep] s1)
               else run_consumer no_restart keep_logs rd sid s1))"

definition with_session :: "string \<Rightarrow> control \<Rightarrow> control" where
  "with_session sid s =
     logs [LCreds sid, LRunnerStart] (s\<lparr>co_creds := List.insert sid (co_creds s), co_current := Some sid\<rparr>)"

definition control_round :: "bool \<Rightarrow> bool \<Rightarrow> session_round \<Rightarrow> control \<Rightarrow> control_end option \<times> control" where
  "control_round no_restart keep_logs rd s =
     (let s0 = logs [LStart] s in
      case rd_start rd of
        AlreadyRunning \<Rightarrow> (None, logs [LSleep] s0)
      | StartFailed _ \<Rightarrow> (Some FatalExit, s0)
      | Started sid cred \<Rightarrow>
          (case rd_makedirs rd of
             Inl e \<Rightarrow> (Some (RaisedOut e), s0)
           | Inr _ \<Rightarrow>
               let s1 = s0\<lparr>co_dirs := List.insert sid (co_dirs s0)\<rparr> in
               if cred = None then (Some FatalExit, s1)
               else case rd_write_creds rd of
                 Inl e \<Rightarrow> (Some (RaisedOut e), s1)
               | Inr _ \<Rightarrow> session_body no_restart keep_logs rd sid (with_session sid s1)))"

text \<open>The loop on the outcomes of its rounds (\<open>None\<close> while it runs), and the \<open>finally\<close> block: the credential file of the last session is
  removed (an \<open>OSError\<close> is ignored), and its directory if logs are not kept and it is empty. The flags say whether the removal succeeds and whether
  an empty directory can be removed.\<close>

fun control_loop :: "bool \<Rightarrow> bool \<Rightarrow> session_round list \<Rightarrow> control \<Rightarrow> control_end option \<times> control" where
  "control_loop no_restart keep_logs rounds s =
     (if MAX_FAILURES \<le> co_failures s then (Some FatalExit, s)
      else case rounds of
        [] \<Rightarrow> (None, s)
      | rd # rest \<Rightarrow>
          (case control_round no_restart keep_logs rd s of
             (Some e, s1) \<Rightarrow> (Some e, s1)
           | (None, s1) \<Rightarrow> control_loop no_restart keep_logs rest s1))"

definition scrub :: "bool \<Rightarrow> bool \<Rightarrow> bool \<Rightarrow> control \<Rightarrow> control" where
  "scrub keep_logs removed rmdir s =
     (case co_current s of
        None \<Rightarrow> s
      | Some sid \<Rightarrow>
          let s1 = (if sid \<in> set (co_creds s)
                    then logs [LScrub sid removed] (if removed then s\<lparr>co_creds := removeAll sid (co_creds s)\<rparr> else s) else s) in
          if \<not> keep_logs \<and> sid \<in> set (co_dirs s1) \<and> rmdir
          then logs [LRmdir sid] (s1\<lparr>co_dirs := removeAll sid (co_dirs s1)\<rparr>) else s1)"

definition new_control :: "bool \<Rightarrow> control" where
  "new_control configured = \<lparr>co_failures = 0, co_configured = configured, co_creds = [], co_dirs = [], co_current = None, co_trace = []\<rparr>"

definition run_control_plane :: "bool \<Rightarrow> bool \<Rightarrow> bool \<Rightarrow> bool \<Rightarrow> bool \<Rightarrow> session_round list \<Rightarrow> control_end option \<times> control" where
  "run_control_plane no_restart keep_logs configured removed rmdir rounds =
     (case control_loop no_restart keep_logs rounds (new_control configured) of
        (None, s) \<Rightarrow> (None, s)
      | (Some e, s) \<Rightarrow> (Some e, scrub keep_logs removed rmdir s))"

text \<open>The exit code that the supervisor sees.\<close>

definition control_exit :: "control_end \<Rightarrow> int" where
  "control_exit e = (case e of Returned code \<Rightarrow> code | FatalExit \<Rightarrow> 1 | RaisedOut _ \<Rightarrow> EXIT_PANIC)"

declare control_loop.simps [simp del]

lemma control_loop_full: "MAX_FAILURES \<le> co_failures s \<Longrightarrow> control_loop nr keep rounds s = (Some FatalExit, s)"
  by (simp add: control_loop.simps)

lemma control_loop_Nil: "\<not> MAX_FAILURES \<le> co_failures s \<Longrightarrow> control_loop nr keep [] s = (None, s)"
  by (simp add: control_loop.simps)

lemma control_loop_Cons:
  "\<not> MAX_FAILURES \<le> co_failures s \<Longrightarrow> control_loop nr keep (rd # rounds) s =
     (case control_round nr keep rd s of (Some e, s1) \<Rightarrow> (Some e, s1) | (None, s1) \<Rightarrow> control_loop nr keep rounds s1)"
  by (simp add: control_loop.simps [of nr keep "rd # rounds" s])

lemma control_round_cases:
  obtains (session) sid d where
      "control_round nr keep rd s = session_body nr keep rd sid (with_session sid (logs [LStart] (s\<lparr>co_dirs := d\<rparr>)))"
    | (none) "control_round nr keep rd s = (None, logs [LSleep] (logs [LStart] s))"
    | (over) e d where "control_round nr keep rd s = (Some e, logs [LStart] (s\<lparr>co_dirs := d\<rparr>))" "control_exit e \<in> {1, 2}"
proof -
  let ?d = "\<lambda>sid. List.insert sid (co_dirs s)"
  have c: "control_exit FatalExit \<in> {1, 2}" "control_exit (RaisedOut x) \<in> {1, 2}" for x by (simp_all add: control_exit_def EXIT_PANIC_def)
  consider "rd_start rd = AlreadyRunning" | x where "rd_start rd = StartFailed x"
    | sid cred x where "rd_start rd = Started sid cred" "rd_makedirs rd = Inl x"
    | sid u where "rd_start rd = Started sid None" "rd_makedirs rd = Inr u"
    | sid c u x where "rd_start rd = Started sid (Some c)" "rd_makedirs rd = Inr u" "rd_write_creds rd = Inl x"
    | sid c u v where "rd_start rd = Started sid (Some c)" "rd_makedirs rd = Inr u" "rd_write_creds rd = Inr v"
    by (metis session_start.exhaust sum.exhaust option.exhaust)
  then show ?thesis
  proof cases
    case 1
    then show ?thesis by (intro none) (simp add: control_round_def)
  next
    case 2
    then show ?thesis by (intro over [OF _ c(1), of "co_dirs s"]) (simp add: control_round_def)
  next
    case (3 sid cred x)
    then show ?thesis by (intro over [OF _ c(2), of x "co_dirs s"]) (simp add: control_round_def)
  next
    case (4 sid)
    then show ?thesis by (intro over [OF _ c(1), of "?d sid"]) (simp add: control_round_def logs_def Let_def)
  next
    case (5 sid c' u x)
    then show ?thesis by (intro over [OF _ c(2), of x "?d sid"]) (simp add: control_round_def logs_def Let_def)
  next
    case (6 sid)
    then show ?thesis by (intro session [of sid "?d sid"]) (simp add: control_round_def logs_def Let_def with_session_def)
  qed
qed

section \<open>What a run leaves\<close>

fun forks :: "control_call list \<Rightarrow> (string \<times> int) list" where
  "forks [] = []"
| "forks (LForked sid ec # cs) = (sid, ec) # forks cs"
| "forks (_ # cs) = forks cs"

fun ends :: "control_call list \<Rightarrow> (string \<times> bool) list" where
  "ends [] = []"
| "ends (LEnd sid b # cs) = (sid, b) # ends cs"
| "ends (_ # cs) = ends cs"

fun written :: "control_call list \<Rightarrow> string list" where
  "written [] = []"
| "written (LCreds sid # cs) = sid # written cs"
| "written (_ # cs) = written cs"

lemma forks_append [simp]: "forks (cs @ ds) = forks cs @ forks ds"
  by (induction cs rule: forks.induct) auto

lemma ends_append [simp]: "ends (cs @ ds) = ends cs @ ends ds"
  by (induction cs rule: ends.induct) auto

lemma written_append [simp]: "written (cs @ ds) = written cs @ written ds"
  by (induction cs rule: written.induct) auto

abbreviation started :: "control_call list \<Rightarrow> nat" where
  "started cs \<equiv> count_list cs LRunnerStart"

abbreviation stopped :: "control_call list \<Rightarrow> nat" where
  "stopped cs \<equiv> count_list cs LRunnerStop"

text \<open>The sessions that were ended, by the contract of the exit codes.\<close>

definition due :: "(string \<times> int) list \<Rightarrow> (string \<times> bool) list" where
  "due fs = map (\<lambda>(sid, ec). (sid, ec \<noteq> 0 \<and> ec \<noteq> 4)) (filter (\<lambda>(sid, ec). ec \<noteq> 3) fs)"

lemma due_append [simp]: "due (fs @ gs) = due fs @ due gs"
  by (simp add: due_def)

definition goes_on :: "string \<times> int \<Rightarrow> bool" where
  "goes_on f \<longleftrightarrow> snd f \<noteq> 0 \<and> snd f \<noteq> 3"

definition sound :: "nat \<Rightarrow> control_end option \<Rightarrow> control \<Rightarrow> bool" where
  "sound n e s \<longleftrightarrow> started (co_trace s) = stopped (co_trace s) + n \<and> ends (co_trace s) = due (forks (co_trace s)) \<and> co_failures s \<le> 5
     \<and> list_all goes_on (if e = None then forks (co_trace s) else butlast (forks (co_trace s)))
     \<and> (\<forall>x. e = Some x \<longrightarrow> control_exit x \<in> {0, 1, 2, 3})"

lemmas code_defs = EXIT_SUCCESS_def EXIT_ERROR_def EXIT_PANIC_def EXIT_INCORRECT_USAGE_def EXIT_RESTART_def EXIT_NATS_DISCONNECTED_def

lemma list_all_butlast: "list_all p xs \<Longrightarrow> list_all p (butlast xs)"
  by (auto simp: list_all_iff dest: in_set_butlastD)

lemma sound_remove_tree: "sound n e (remove_tree sid b s) = sound n e s"
  by (simp add: remove_tree_def sound_def logs_def)

lemma sound_after_fork:
  assumes "sound n None s" "co_failures s < 5" "after_fork False keep sid b r s = (e, s')"
  shows "sound n e s'"
proof (cases r)
  case (Inl x)
  with assms show ?thesis by (auto simp: after_fork_def fails_def logs_def sound_def)
next
  case (Inr b)
  obtain ec lines where b: "b = (ec, lines)" by (cases b)
  from assms show ?thesis
    by (auto simp: after_fork_def Inr b Let_def sound_remove_tree split: if_splits)
      (auto simp: fails_def logs_def sound_def due_def goes_on_def control_exit_def code_defs)
qed

lemma sound_run:
  assumes "sound n None s" "co_failures s < 5" "run_consumer False keep rd sid s = (e, s')"
  shows "sound n e s'"
proof (cases "\<not> co_configured s \<and> \<not> rd_configured rd")
  case True
  with assms show ?thesis by (auto simp: run_consumer_def sound_def list_all_butlast control_exit_def code_defs)
next
  case False
  have "sound n None (s\<lparr>co_configured := True\<rparr>)" using assms(1) by (simp add: sound_def)
  from sound_after_fork [OF this] assms(2,3) False show ?thesis by (auto simp: run_consumer_def)
qed

lemma sound_stop:
  assumes "sound (Suc n) e s" "stop_runner r (e, s) = (e', s')"
  shows "sound n e' s'" "co_failures s' = co_failures s"
  using assms
  by (auto simp: stop_runner_def sound_def logs_def control_exit_def code_defs list_all_butlast split: sum.splits if_splits)

lemma sound_sleep: "sound n e s \<Longrightarrow> sound n e (logs [LSleep] s)"
  by (auto simp: sound_def logs_def)

lemma sound_body:
  assumes "sound (Suc 0) None s" "co_failures s < 5" "session_body False keep rd sid s = (e, s')"
  shows "sound 0 e s'"
proof (cases "rd_runner_start rd")
  case None
  obtain e1 s1 where 1: "run_consumer False keep rd sid s = (e1, s1)" by fastforce
  from sound_stop [OF sound_run [OF assms(1,2) 1]] assms(3) show ?thesis by (simp add: session_body_def None 1)
next
  case (Some err)
  obtain e1 s1 where 1: "stop_runner (rd_runner_stop rd) (None, s) = (e1, s1)" by fastforce
  note s1 = sound_stop [OF assms(1) 1]
  show ?thesis
  proof (cases e1)
    case None
    with s1 assms(2) sound_run [of 0 s1 keep rd sid e s'] assms(3) show ?thesis
      by (auto simp: session_body_def Some 1 sound_sleep split: if_splits)
  qed (use s1 assms(3) in \<open>simp add: session_body_def Some 1\<close>)
qed

lemma sound_round:
  assumes "sound 0 None s" "co_failures s < 5" "control_round False keep rd s = (e, s')"
  shows "sound 0 e s'"
proof (cases rule: control_round_cases [of False keep rd s])
  case (session sid d)
  show ?thesis
    by (rule sound_body [where s = "with_session sid (logs [LStart] (s\<lparr>co_dirs := d\<rparr>))"])
      (use session assms in \<open>simp_all add: sound_def with_session_def logs_def\<close>)
next
  case none
  with assms show ?thesis by (auto simp: sound_def logs_def)
next
  case (over x d)
  with assms show ?thesis by (auto simp: sound_def logs_def list_all_butlast)
qed

lemma sound_full: "sound n None s \<Longrightarrow> sound n (Some FatalExit) s"
  by (simp add: sound_def control_exit_def list_all_butlast)

lemma sound_loop: "sound 0 None s \<Longrightarrow> control_loop False keep rounds s = (e, s') \<Longrightarrow> sound 0 e s'"
proof (induction rounds arbitrary: s)
  case Nil
  then show ?case by (cases "MAX_FAILURES \<le> co_failures s") (auto simp: control_loop_full control_loop_Nil sound_full)
next
  case (Cons rd rounds)
  show ?case
  proof (cases "MAX_FAILURES \<le> co_failures s")
    case True
    with Cons.prems show ?thesis by (auto simp: control_loop_full sound_full)
  next
    case False
    obtain e1 s1 where r: "control_round False keep rd s = (e1, s1)" by fastforce
    have "sound 0 e1 s1" by (rule sound_round [OF Cons.prems(1) _ r]) (use False in \<open>simp add: MAX_FAILURES_def\<close>)
    with Cons.prems(2) Cons.IH [of s1] r show ?thesis by (auto simp: control_loop_Cons [OF False] split: option.splits)
  qed
qed

section \<open>Credential files\<close>

definition kept :: "control \<Rightarrow> bool" where
  "kept s \<longleftrightarrow> (distinct (written (co_trace s)) \<longrightarrow> co_creds s = rev (written (co_trace s))
     \<and> co_current s = (if written (co_trace s) = [] then None else Some (last (written (co_trace s)))))"

definition dropped :: "control \<Rightarrow> bool" where
  "dropped s \<longleftrightarrow> (distinct (written (co_trace s)) \<longrightarrow> co_creds s = rev (butlast (written (co_trace s)))
     \<and> written (co_trace s) \<noteq> [] \<and> co_current s = Some (last (written (co_trace s))))"

lemma kept_logs: "written cs = [] \<Longrightarrow> kept (logs cs s) = kept s" "written cs = [] \<Longrightarrow> dropped (logs cs s) = dropped s"
  by (simp_all add: kept_def dropped_def logs_def)

lemma kept_fails [simp]: "kept (fails s) = kept s" "kept (s\<lparr>co_configured := b\<rparr>) = kept s" "kept (s\<lparr>co_dirs := d\<rparr>) = kept s"
  by (simp_all add: kept_def fails_def)

lemma kept_with_session: "kept s \<Longrightarrow> kept (with_session sid s) \<and> co_current (with_session sid s) = Some sid
    \<and> written (co_trace (with_session sid s)) \<noteq> [] \<and> last (written (co_trace (with_session sid s))) = sid"
  by (auto simp: kept_def with_session_def logs_def)

lemma removeAll_last: "distinct xs \<Longrightarrow> xs \<noteq> [] \<Longrightarrow> removeAll (last xs) (rev xs) = rev (butlast xs)"
  by (cases xs rule: rev_cases) auto

lemma kept_remove_tree:
  assumes "kept s" "written (co_trace s) \<noteq> []" "last (written (co_trace s)) = sid"
  shows "kept (remove_tree sid b s) \<or> dropped (remove_tree sid b s)"
  using assms removeAll_last [of "written (co_trace s)"] by (auto simp: kept_def dropped_def remove_tree_def logs_def)

lemma kept_after_fork:
  assumes "kept s" "written (co_trace s) \<noteq> []" "last (written (co_trace s)) = sid" "after_fork nr keep sid b r s = (e, s')"
  shows "kept s' \<or> (e \<noteq> None \<and> dropped s')"
proof (cases r)
  case (Inl x)
  with assms show ?thesis by (auto simp: after_fork_def kept_logs)
next
  case (Inr p)
  obtain ec lines where p: "p = (ec, lines)" by (cases p)
  have "kept (logs cs s)" "written (co_trace (logs cs s)) \<noteq> []" "last (written (co_trace (logs cs s))) = sid" if "written cs = []" for cs
    using assms(1-3) that by (simp_all add: kept_logs) (simp_all add: logs_def)
  from kept_remove_tree [OF this, of "[LForked sid ec, LEnd sid (ec \<noteq> EXIT_SUCCESS \<and> ec \<noteq> EXIT_RESTART)]" b]
  have "kept (remove_tree sid b (logs [LEnd sid (ec \<noteq> EXIT_SUCCESS \<and> ec \<noteq> EXIT_RESTART)] (logs [LForked sid ec] s)))
      \<or> dropped (remove_tree sid b (logs [LEnd sid (ec \<noteq> EXIT_SUCCESS \<and> ec \<noteq> EXIT_RESTART)] (logs [LForked sid ec] s)))"
    by (simp add: logs_def)
  with assms(1,4) show ?thesis
    by (auto simp: after_fork_def Inr p Let_def kept_logs code_defs split: if_splits)
qed

lemma kept_run:
  assumes "kept s" "written (co_trace s) \<noteq> []" "last (written (co_trace s)) = sid" "run_consumer nr keep rd sid s = (e, s')"
  shows "kept s' \<or> (e \<noteq> None \<and> dropped s')"
  using assms kept_after_fork [of "s\<lparr>co_configured := True\<rparr>" sid nr keep "rd_rmtree rd" "rd_fork rd" e s']
  by (auto simp: run_consumer_def split: if_splits)

lemma kept_body:
  assumes "kept s" "written (co_trace s) \<noteq> []" "last (written (co_trace s)) = sid" "session_body nr keep rd sid s = (e, s')"
  shows "kept s' \<or> (e \<noteq> None \<and> dropped s')"
proof -
  obtain e1 s1 where 1: "run_consumer nr keep rd sid s = (e1, s1)" by fastforce
  have "kept (logs [LRunnerStop] s)" "written (co_trace (logs [LRunnerStop] s)) \<noteq> []" "last (written (co_trace (logs [LRunnerStop] s))) = sid"
    using assms(1-3) by (simp_all add: kept_logs) (simp_all add: logs_def)
  note k = kept_run [OF this] kept_run [OF assms(1-3) 1] \<open>kept (logs [LRunnerStop] s)\<close>
  from assms(4) k show ?thesis
    by (auto simp: session_body_def stop_runner_def 1 kept_logs split: option.splits sum.splits if_splits)
qed

lemma kept_loop: "kept s \<Longrightarrow> control_loop nr keep rounds s = (e, s') \<Longrightarrow> kept s' \<or> (e \<noteq> None \<and> dropped s')"
proof (induction rounds arbitrary: s)
  case Nil
  then show ?case by (cases "MAX_FAILURES \<le> co_failures s") (auto simp: control_loop_full control_loop_Nil)
next
  case (Cons rd rounds)
  show ?case
  proof (cases "MAX_FAILURES \<le> co_failures s")
    case True
    with Cons.prems show ?thesis by (auto simp: control_loop_full)
  next
    case False
    obtain e1 s1 where r: "control_round nr keep rd s = (e1, s1)" by fastforce
    have "kept s1 \<or> (e1 \<noteq> None \<and> dropped s1)"
    proof (cases rule: control_round_cases [of nr keep rd s])
      case (session sid d)
      have "kept (logs [LStart] (s\<lparr>co_dirs := d\<rparr>))" using Cons.prems(1) by (simp add: kept_logs)
      from kept_with_session [OF this, of sid] session r kept_body [of "with_session sid (logs [LStart] (s\<lparr>co_dirs := d\<rparr>))" sid nr keep rd e1 s1]
      show ?thesis by simp
    qed (use r Cons.prems(1) in \<open>auto simp: kept_logs\<close>)
    with Cons.prems(2) Cons.IH [of s1] r show ?thesis by (auto simp: control_loop_Cons [OF False] split: option.splits)
  qed
qed

section \<open>Properties\<close>

text \<open>C7: the contract of the control plane, whatever its calls return. The failures never exceed five, and it ends with 0, 1, 2 or 3. Every
  notification consumer that was started is stopped. The sessions that are ended with the API are exactly those whose consumer process ended with a code
  other than that of wrong usage, in order, as errors unless the code was 0 or that of a restart; and no consumer process is started after one that
  ended with 0 or with wrong usage.\<close>

theorem control_plane_contract:
  assumes "run_control_plane False keep_logs configured removed rmdir rounds = (e, s)"
  shows "co_failures s \<le> MAX_FAILURES \<and> started (co_trace s) = stopped (co_trace s)
    \<and> ends (co_trace s) = map (\<lambda>(sid, ec). (sid, ec \<noteq> 0 \<and> ec \<noteq> 4)) (filter (\<lambda>(sid, ec). ec \<noteq> 3) (forks (co_trace s)))
    \<and> (\<forall>(sid, ec) \<in> set (butlast (forks (co_trace s))). ec \<noteq> 0 \<and> ec \<noteq> 3)
    \<and> (case e of None \<Rightarrow> True | Some x \<Rightarrow> control_exit x \<in> {0, 1, 2, 3})"
proof -
  obtain e1 s1 where l: "control_loop False keep_logs rounds (new_control configured) = (e1, s1)" by fastforce
  have "sound 0 e1 s1" by (rule sound_loop [OF _ l]) (simp add: sound_def new_control_def due_def)
  moreover have "forks (co_trace s) = forks (co_trace s1) \<and> ends (co_trace s) = ends (co_trace s1) \<and> e = e1 \<and> co_failures s = co_failures s1
      \<and> started (co_trace s) = started (co_trace s1) \<and> stopped (co_trace s) = stopped (co_trace s1)"
    using assms l by (auto simp: run_control_plane_def scrub_def logs_def Let_def split: option.splits if_splits)
  ultimately have s: "started (co_trace s) = stopped (co_trace s)" "ends (co_trace s) = due (forks (co_trace s))" "co_failures s \<le> 5"
      "list_all goes_on (butlast (forks (co_trace s)))" "\<And>x. e = Some x \<Longrightarrow> control_exit x \<in> {0, 1, 2, 3}"
    by (auto simp: sound_def list_all_butlast split: if_splits)
  then show ?thesis by (auto simp: due_def MAX_FAILURES_def goes_on_def list_all_iff split: option.splits)
qed

text \<open>Which credential files a control plane leaves behind when it has ended, with session ids that do not repeat and a removal that
  succeeds: those of every session but the last. Only the last one is removed.\<close>

theorem creds_left_behind:
  assumes "run_control_plane no_restart keep_logs configured True rmdir rounds = (Some e, s)" "distinct (written (co_trace s))"
  shows "set (co_creds s) = set (butlast (written (co_trace s)))"
proof -
  obtain e1 s1 where l: "control_loop no_restart keep_logs rounds (new_control configured) = (e1, s1)" by fastforce
  have k: "kept s1 \<or> dropped s1" using kept_loop [OF _ l] by (auto simp: kept_def new_control_def)
  have s: "s = scrub keep_logs True rmdir s1" using assms(1) l by (auto simp: run_control_plane_def split: option.splits)
  have w: "written (co_trace s) = written (co_trace s1)" by (auto simp: s scrub_def logs_def Let_def split: option.splits)
  show ?thesis
  proof (cases "written (co_trace s1)" rule: rev_cases)
    case Nil
    with k show ?thesis by (auto simp: s scrub_def kept_def dropped_def)
  next
    case (snoc xs x)
    with k assms(2) w have "co_current s1 = Some x" "co_creds s1 = x # rev xs \<or> co_creds s1 = rev xs" "x \<notin> set xs"
      by (auto simp: kept_def dropped_def)
    then show ?thesis by (auto simp: s w snoc scrub_def logs_def Let_def split: if_splits)
  qed
qed

text \<open>The commands that reach the consumer process.\<close>

fun delivered :: "hcall list \<Rightarrow> happening list" where
  "delivered [] = []"
| "delivered (HControl path True # cs) = requested path @ delivered cs"
| "delivered (_ # cs) = delivered cs"

lemma delivered_controls: "controls cs = [path] \<Longrightarrow> HControl path True \<in> set cs \<Longrightarrow> delivered cs = requested path"
proof -
  have none: "controls cs = [] \<Longrightarrow> delivered cs = []" for cs by (induction cs rule: delivered.induct) auto
  show "controls cs = [path] \<Longrightarrow> HControl path True \<in> set cs \<Longrightarrow> delivered cs = requested path"
  proof (induction cs rule: controls.induct)
    case (2 p b cs)
    then have "controls cs = []" "p = path" by auto
    moreover from this have "HControl path True \<notin> set cs" by (induction cs rule: controls.induct) auto
    ultimately show ?case using 2(3) none [of cs] by auto
  qed auto
qed

lemma idle_rounds: "sp_control a = [] \<Longrightarrow> \<not> sp_fatal a \<Longrightarrow> \<not> sp_lost a \<Longrightarrow> \<not> sp_signal a \<Longrightarrow> fork_spec (map (Pair []) outcomes) a = None"
  by (induction outcomes) (simp_all add: sp_wake_def)

text \<open>C37: an import that ends with wrong usage leaves the stream paused. Of a request to a running server, the consumer process receives the pause and
  nothing else; by its contract it then goes on without an end, paused, until somebody sends another command.\<close>

theorem import_usage_leaves_paused:
  assumes "\<not> cx_no_restart x" "cx_fork_running x" "nh_import_action C backfill job_id x = (r, x')"
    "cx_trace x' = cx_trace x @ cs" "import_codes cs = [Some 3]" "HControl ''pause'' True \<in> set cs"
  shows "case sp_wake accepted (fold sp_arrive (delivered cs) fork_state_init) of
    (code, a) \<Rightarrow> code = None \<and> sp_paused a \<and> (\<forall>outcomes. fork_spec (map (Pair []) outcomes) a = None)"
proof -
  from import_action_result [OF assms(1,3)] assms(2,4,5) have "controls cs = [''pause'']" by auto
  from delivered_controls [OF this assms(6)] have "delivered cs = [HCommand ''pause'']" by (simp add: requested_def fork_routes_def)
  then show ?thesis by (simp add: sp_wake_def sp_command_def fork_state_init_def idle_rounds)
qed

definition sample_round :: "string \<Rightarrow> int \<Rightarrow> session_round" where
  "sample_round sid ec = \<lparr>rd_start = Started sid (Some ''c''), rd_makedirs = Inr (), rd_write_creds = Inr (), rd_runner_start = None,
     rd_configured = True, rd_fork = Inr (ec, []), rd_rmtree = True, rd_runner_stop = Inr ()\<rparr>"

definition sample_control :: "control_end option \<times> control" where
  "sample_control = run_control_plane False True True True True [sample_round ''a'' 4, sample_round ''b'' 2, sample_round ''c'' 0]"

lemma sample_control_value:
  "fst sample_control = Some (Returned 0)" "written (co_trace (snd sample_control)) = [''a'', ''b'', ''c'']"
  by code_simp+

lemma sample_control_pair:
  "run_control_plane False True True True True [sample_round ''a'' 4, sample_round ''b'' 2, sample_round ''c'' 0] = (Some (Returned 0), snd sample_control)"
  using sample_control_value(1) by (metis prod.collapse sample_control_def)

theorem control_plane_contract_witness: "co_failures (snd sample_control) \<le> MAX_FAILURES"
  using control_plane_contract [OF sample_control_pair] by simp

theorem creds_left_behind_witness: "set (co_creds (snd sample_control)) = {''a'', ''b''}"
  using creds_left_behind [OF sample_control_pair] by (simp add: sample_control_value(2))

definition usage_ctl :: "unit ctl_ops" where
  "usage_ctl = sample_ctl\<lparr>h_fork_import := (\<lambda>_ w. (Inr (3, ''bad url''), w))\<rparr>"

theorem import_usage_leaves_paused_witness:
  "sp_paused (snd (sp_wake True (fold sp_arrive (delivered (cx_trace (snd (nh_import_action usage_ctl False [] sample_ctx)))) fork_state_init)))"
proof -
  let ?r = "nh_import_action usage_ctl False [] sample_ctx"
  have t: "controls (cx_trace (snd ?r)) = [''pause'']" "import_codes (cx_trace (snd ?r)) = [Some 3]" "hd (cx_trace (snd ?r)) = HControl ''pause'' True"
      "cx_trace (snd ?r) \<noteq> []" by code_simp+
  have "HControl ''pause'' True \<in> set (cx_trace (snd ?r))" using t(3,4) by (metis hd_in_set)
  with import_usage_leaves_paused [where accepted = True, of sample_ctx usage_ctl False "[]" "fst ?r" "snd ?r" "cx_trace (snd ?r)"] t(2) show ?thesis
    by (simp add: sample_ctx_def split: prod.splits)
qed

end
