(* ===== verification/Config.thy ===== *)
theory Config
  imports FileDriver
begin

text \<open>
  \<open>eds/cmd/config.py\<close>, the flag filter of \<open>eds/cmd/args.py\<close> and \<open>resolve_ingest_mode\<close> of \<open>eds/cmd/server.py\<close>.

  The configuration file is written by the program itself and read by a library. The reader below is that of the
  TOML specification for the lines the program writes; a file that is written is read back as it was.
\<close>

section \<open>Reading settings\<close>

definition cfg_get_string :: "(pyval \<Rightarrow> string) \<Rightarrow> pydict \<Rightarrow> string \<Rightarrow> string \<Rightarrow> string" where
  "cfg_get_string py_str v key dflt =
     (case dget v key of None \<Rightarrow> dflt | Some PNone \<Rightarrow> dflt | Some (PStr s) \<Rightarrow> s | Some x \<Rightarrow> py_str x)"

definition cfg_get_bool :: "pydict \<Rightarrow> string \<Rightarrow> bool \<Rightarrow> bool" where
  "cfg_get_bool v key dflt = (case dget v key of None \<Rightarrow> dflt | Some PNone \<Rightarrow> dflt | Some x \<Rightarrow> \<not> falsy x)"

definition cfg_get_int :: "(string \<Rightarrow> int option) \<Rightarrow> pydict \<Rightarrow> string \<Rightarrow> int \<Rightarrow> int" where
  "cfg_get_int py_int v key dflt =
     (case dget v key of
        Some (PInt i) \<Rightarrow> i
      | Some (PStr s) \<Rightarrow> (case py_int s of None \<Rightarrow> dflt | Some i \<Rightarrow> i)
      | _ \<Rightarrow> dflt)"

definition config_path :: "string \<Rightarrow> string" where
  "config_path data_dir = os_path_join data_dir [''config.toml'']"

section \<open>Writing\<close>

text \<open>\<open>_escape_toml_basic\<close>, a character at a time.\<close>

definition hexU :: "nat \<Rightarrow> char" where
  "hexU n = (if n < 10 then char_of (48 + n) else char_of (55 + n))"

definition TOML_ESCAPES :: "(char \<times> string) list" where
  "TOML_ESCAPES = [(BS, [BS, BS]), (DQ, [BS, DQ]), (CHR 0x08, [BS, CHR ''b'']), (TAB, [BS, CHR ''t'']), (NL, [BS, CHR ''n'']),
     (CHR 0x0C, [BS, CHR ''f'']), (CR, [BS, CHR ''r''])]"

definition escape_toml_char :: "char \<Rightarrow> string" where
  "escape_toml_char ch =
     (case dget TOML_ESCAPES ch of
        Some esc \<Rightarrow> esc
      | None \<Rightarrow>
          if (of_char ch :: nat) < 0x20 \<or> (of_char ch :: nat) = 0x7F
          then [BS, CHR ''u'', CHR ''0'', CHR ''0'', hexU (of_char ch div 16), hexU (of_char ch mod 16)]
          else [ch])"

definition escape_toml_basic :: "string \<Rightarrow> string" where
  "escape_toml_basic s = concat (map escape_toml_char s)"

definition toml_value :: "(pyval \<Rightarrow> string) \<Rightarrow> pyval \<Rightarrow> string" where
  "toml_value py_str v =
     (case v of
        PBool b \<Rightarrow> if b then ''true'' else ''false''
      | PInt i \<Rightarrow> str_int i
      | PFloat f \<Rightarrow> py_str v
      | PStr s \<Rightarrow> [DQ] @ escape_toml_basic s @ [DQ]
      | _ \<Rightarrow> [DQ] @ escape_toml_basic (py_str v) @ [DQ])"

definition dump_toml :: "(pyval \<Rightarrow> string) \<Rightarrow> pydict \<Rightarrow> string" where
  "dump_toml py_str vals =
     (let lines = map (\<lambda>(key, v). key @ '' = '' @ toml_value py_str v) vals
      in if lines = [] then [] else join [NL] lines @ [NL])"

text \<open>The file: its contents, or none. \<open>load_config\<close> with the library's reader \<open>tomli\<close>; \<open>write_config\<close>; \<open>set_config_value\<close>.\<close>

definition load_config :: "(string \<Rightarrow> pydict res) \<Rightarrow> string \<Rightarrow> string option \<Rightarrow> pydict res" where
  "load_config tomli data_dir file =
     (if data_dir = [] then Inr []
      else case file of None \<Rightarrow> Inr [] | Some t \<Rightarrow> map_exc (\<lambda>e. RuntimeError (exc_str e)) (tomli t))"

definition write_config :: "(pyval \<Rightarrow> string) \<Rightarrow> pydict \<Rightarrow> string option" where
  "write_config py_str vals = Some (dump_toml py_str vals)"

definition set_config_value ::
    "(pyval \<Rightarrow> string) \<Rightarrow> (string \<Rightarrow> pydict res) \<Rightarrow> string \<Rightarrow> string \<Rightarrow> pyval \<Rightarrow> string option \<Rightarrow> unit res \<times> string option" where
  "set_config_value py_str tomli data_dir key val file =
     (case load_config tomli data_dir file of
        Inl e \<Rightarrow> (Inl e, file)
      | Inr vals \<Rightarrow> (Inr (), write_config py_str (dset key val vals)))"

definition init_config :: "(string \<Rightarrow> pydict res) \<Rightarrow> string \<Rightarrow> string list \<Rightarrow> string option \<Rightarrow> int + pydict" where
  "init_config tomli data_dir argv file =
     (case load_config tomli data_dir file of
        Inr v \<Rightarrow> Inr v
      | Inl _ \<Rightarrow> if ''enroll'' \<in> set argv then Inr [] else Inl 3)"

section \<open>The mode of ingestion\<close>

definition mode_value :: "ingest_mode \<Rightarrow> string" where
  "mode_value m = (case m of UPSERT \<Rightarrow> ''upsert'' | APPEND \<Rightarrow> ''append'')"

definition resolve_ingest_mode ::
    "(pyval \<Rightarrow> string) \<Rightarrow> (string \<Rightarrow> pydict res) \<Rightarrow> (string \<Rightarrow> string) \<Rightarrow> ingest_mode option \<Rightarrow> pydict \<Rightarrow> string \<Rightarrow> string option
       \<Rightarrow> ingest_mode res \<times> string option" where
  "resolve_ingest_mode py_str tomli repr explicit config data_dir file =
     (case explicit of
        Some m \<Rightarrow> (case set_config_value py_str tomli data_dir ''mode'' (PStr (mode_value m)) file of
                     (Inl e, f) \<Rightarrow> (Inl e, f) | (Inr _, f) \<Rightarrow> (Inr m, f))
      | None \<Rightarrow>
          let cfg_mode = cfg_get_string py_str config ''mode'' [] in
          if cfg_mode \<noteq> [] then (parse_ingest_mode repr cfg_mode, file)
          else case set_config_value py_str tomli data_dir ''mode'' (PStr (mode_value UPSERT)) file of
                 (Inl e, f) \<Rightarrow> (Inl e, f) | (Inr _, f) \<Rightarrow> (Inr UPSERT, f))"

section \<open>The flags passed on\<close>

definition SERVER_IGNORE_FLAGS :: "string list" where
  "SERVER_IGNORE_FLAGS = [''--api-url'', ''--api-key'', ''--eds-id'', ''--silent'', ''--port'', ''--health-port'', ''--renew-interval'',
     ''--wrapper'', ''--parent'', ''--url'', ''--server'', ''--keep-logs'', ''--no-restart'', ''--mode'']"

definition ignored :: "string \<Rightarrow> bool" where
  "ignored arg \<longleftrightarrow> hd (split_on (CHR ''='') arg) \<in> set SERVER_IGNORE_FLAGS"

fun collect_args :: "bool \<Rightarrow> string list \<Rightarrow> string list" where
  "collect_args skipping [] = []"
| "collect_args skipping (arg # args) =
     (if skipping then collect_args False args
      else if ignored arg then collect_args True args
      else arg # collect_args False args)"

definition collect_command_args :: "string list \<Rightarrow> string list" where
  "collect_command_args args = collect_args False args"

section \<open>Reading TOML\<close>

text \<open>A basic string after its opening quote, a value, a line, a file.\<close>

definition toml_unescape :: "char \<Rightarrow> char option" where
  "toml_unescape c = dget [(CHR ''b'', CHR 0x08), (CHR ''t'', TAB), (CHR ''n'', NL), (CHR ''f'', CHR 0x0C), (CHR ''r'', CR), (DQ, DQ), (BS, BS)] c"

definition toml_plain :: "char \<Rightarrow> bool" where
  "toml_plain c \<longleftrightarrow> c = TAB \<or> (0x20 \<le> (of_char c :: nat) \<and> (of_char c :: nat) \<noteq> 0x7F)"

function toml_string :: "string \<Rightarrow> (string \<times> string) option" where
  "toml_string [] = None"
| "toml_string (c # r) =
     (if c = DQ then Some ([], r)
      else if c = BS then
        (case r of
           [] \<Rightarrow> None
         | e # r' \<Rightarrow>
             if e = CHR ''u'' then
               (case hex4 (take 4 r') of None \<Rightarrow> None | Some n \<Rightarrow> cons_str (utf8 n) (toml_string (drop 4 r')))
             else (case toml_unescape e of None \<Rightarrow> None | Some d \<Rightarrow> cons_str [d] (toml_string r')))
      else if toml_plain c then cons_str [c] (toml_string r) else None)"
  by pat_completeness auto
termination by (relation "measure length") auto

definition bare :: "char \<Rightarrow> bool" where
  "bare c \<longleftrightarrow> is_alpha c \<or> is_digit c \<or> c = CHR ''_'' \<or> c = CHR ''-''"

definition toml_integer :: "string \<Rightarrow> int option" where
  "toml_integer s =
     (case s of
        [] \<Rightarrow> None
      | c # r \<Rightarrow> if c = CHR ''-'' then (if r \<noteq> [] \<and> list_all is_digit r then Some (- int (nat_of_digits r)) else None)
                 else if list_all is_digit s then Some (int (nat_of_digits s)) else None)"

definition read_toml_value :: "string \<Rightarrow> pyval option" where
  "read_toml_value s =
     (case s of
        [] \<Rightarrow> None
      | c # r \<Rightarrow>
          if c = DQ then (case toml_string r of Some (t, []) \<Rightarrow> Some (PStr t) | _ \<Rightarrow> None)
          else if s = ''true'' then Some (PBool True)
          else if s = ''false'' then Some (PBool False)
          else map_option PInt (toml_integer s))"

definition read_toml_line :: "string \<Rightarrow> (string \<times> pyval) option" where
  "read_toml_line line =
     (let key = takeWhile bare line; rest = dropWhile bare line in
      if key \<noteq> [] \<and> take 3 rest = '' = '' then map_option (\<lambda>v. (key, v)) (read_toml_value (drop 3 rest)) else None)"

fun read_toml_lines :: "string list \<Rightarrow> pydict option" where
  "read_toml_lines [] = Some []"
| "read_toml_lines (l # ls) =
     (if l = [] then read_toml_lines ls
      else case (read_toml_line l, read_toml_lines ls) of (Some p, Some ps) \<Rightarrow> Some (p # ps) | _ \<Rightarrow> None)"

definition read_toml :: "string \<Rightarrow> pydict option" where
  "read_toml t = read_toml_lines (split_on NL t)"

section \<open>A value that was written is read\<close>

lemma hexval_hexU: "n < 16 \<Longrightarrow> hexval (hexU n) = Some n"
proof -
  assume "n < 16"
  then have "n \<in> {0, 1, 2, 3, 4, 5, 6, 7, 8, 9, 10, 11, 12, 13, 14, 15}" by (simp; presburger)
  then show ?thesis by (auto simp: hexU_def hexval_def is_digit_def less_eq_char_def)
qed

lemma hexval_zero: "hexval (CHR ''0'') = Some 0"
  by (simp add: hexval_def is_digit_def less_eq_char_def)

lemma toml_string_hex:
  assumes "(of_char c :: nat) < 0x80"
  shows "toml_string ([BS, CHR ''u'', CHR ''0'', CHR ''0'', hexU (of_char c div 16), hexU (of_char c mod 16)] @ t) = cons_str [c] (toml_string t)"
proof -
  have "(of_char c :: nat) div 16 < 16" "(of_char c :: nat) mod 16 < 16" using assms by auto
  then have "hex4 [CHR ''0'', CHR ''0'', hexU (of_char c div 16), hexU (of_char c mod 16)] = Some (of_char c)"
    by (simp add: hexval_hexU hexval_zero)
  with assms show ?thesis by (simp add: utf8_def del: hex4.simps)
qed

lemma toml_string_char: "toml_string (escape_toml_char c @ t) = cons_str [c] (toml_string t)"
proof (cases "dget TOML_ESCAPES c")
  case (Some esc)
  then show ?thesis by (auto simp: escape_toml_char_def TOML_ESCAPES_def toml_unescape_def split: if_splits)
next
  case None
  show ?thesis
  proof (cases "(of_char c :: nat) < 0x20 \<or> (of_char c :: nat) = 0x7F")
    case True
    then have "(of_char c :: nat) < 0x80" by auto
    from toml_string_hex [OF this] None True show ?thesis by (simp add: escape_toml_char_def)
  next
    case False
    with None show ?thesis by (auto simp: escape_toml_char_def TOML_ESCAPES_def toml_plain_def split: if_splits)
  qed
qed

lemma cons_str_Some [simp]: "cons_str p (Some (a, b)) = Some (p @ a, b)"
  by (simp add: cons_str_def)

lemma toml_string_escape: "toml_string (escape_toml_basic s @ DQ # r) = Some (s, r)"
  by (induction s) (simp_all add: escape_toml_basic_def toml_string_char del: toml_string.simps, simp)

lemma of_char_bound: "(of_char c :: nat) < 256"
  by (metis mod_less_divisor of_char_mod_256 zero_less_numeral)

lemma hexU_line: "n < 16 \<Longrightarrow> NL \<noteq> hexU n"
proof
  assume "n < 16" "NL = hexU n"
  with hexval_hexU [of n] have "hexval NL = Some n" by simp
  then show False by (simp add: hexval_def is_digit_def less_eq_char_def)
qed

lemma escape_toml_char_line: "NL \<notin> set (escape_toml_char c)"
proof -
  have "NL \<noteq> hexU (of_char c div 16)" "NL \<noteq> hexU (of_char c mod 16)"
    by (rule hexU_line, use of_char_bound [of c] less_mult_imp_div_less [of "of_char c" 16 16] in simp)+
  then show ?thesis by (auto simp: escape_toml_char_def TOML_ESCAPES_def split: if_splits option.splits)
qed

text \<open>The dictionaries in question: bare keys, and strings, booleans and integers.\<close>

fun flat_value :: "pyval \<Rightarrow> bool" where
  "flat_value (PStr _) = True"
| "flat_value (PBool _) = True"
| "flat_value (PInt _) = True"
| "flat_value _ = False"

definition flat_config :: "pydict \<Rightarrow> bool" where
  "flat_config d \<longleftrightarrow> (\<forall>(k, v) \<in> set d. k \<noteq> [] \<and> list_all bare k \<and> flat_value v)"

lemma toml_integer_str_int: "toml_integer (str_int i) = Some i"
proof (cases "i < 0")
  case True
  then show ?thesis using str_nat_digits [of "nat (- i)"] by (simp add: str_int_def toml_integer_def)
next
  case False
  have d: "list_all is_digit (str_nat (nat i))" by (rule str_nat_digits)
  obtain c r where cr: "str_nat (nat i) = c # r" by (meson neq_Nil_conv str_nat_ne)
  have "c \<noteq> CHR ''-''" using d cr by (auto simp: is_digit_def less_eq_char_def)
  with d cr False nat_of_digits_str_nat [of "nat i"] show ?thesis by (simp add: str_int_def toml_integer_def)
qed

lemma str_int_first: "\<exists>c r. str_int i = c # r \<and> (c = CHR ''-'' \<or> is_digit c)"
proof (cases "i < 0")
  case False
  obtain c r where cr: "str_nat (nat i) = c # r" by (meson neq_Nil_conv str_nat_ne)
  with str_nat_digits [of "nat i"] False show ?thesis by (simp add: str_int_def)
qed (simp add: str_int_def)

lemma read_value: "flat_value v \<Longrightarrow> read_toml_value (toml_value py_str v) = Some v"
proof (induction v rule: flat_value.induct)
  case (1 s)
  then show ?case using toml_string_escape [of s "[]"] by (simp add: toml_value_def read_toml_value_def)
next
  case (3 i)
  obtain c r where cr: "str_int i = c # r" "c = CHR ''-'' \<or> is_digit c" using str_int_first by blast
  then have "c \<noteq> DQ" "c \<noteq> CHR ''t''" "c \<noteq> CHR ''f''" by (auto simp: is_digit_def less_eq_char_def)
  with cr toml_integer_str_int [of i] show ?case by (simp add: toml_value_def read_toml_value_def)
qed (simp_all add: toml_value_def read_toml_value_def)

lemma str_int_line: "NL \<notin> set (str_int i)"
proof -
  have "NL \<notin> set (str_nat n)" for n by (rule list_all_notin [OF str_nat_digits]) (simp add: is_digit_def less_eq_char_def)
  then show ?thesis by (auto simp: str_int_def)
qed

lemma value_line: "flat_value v \<Longrightarrow> NL \<notin> set (toml_value py_str v)"
  using escape_toml_char_line str_int_line
  by (cases v rule: flat_value.cases) (auto simp: toml_value_def escape_toml_basic_def)

lemma read_line:
  assumes "k \<noteq> []" "list_all bare k" "flat_value v"
  shows "read_toml_line (k @ '' = '' @ toml_value py_str v) = Some (k, v)"
proof -
  have sp: "\<not> bare SP" by (simp add: bare_def is_alpha_def is_lower_def is_upper_def is_digit_def less_eq_char_def)
  have "takeWhile bare (k @ '' = '' @ toml_value py_str v) = k" "dropWhile bare (k @ '' = '' @ toml_value py_str v) = '' = '' @ toml_value py_str v"
    using assms(2) sp by (simp_all add: takeWhile_append dropWhile_append list_all_iff)
  with assms(1) read_value [OF assms(3)] show ?thesis by (simp add: read_toml_line_def Let_def)
qed

lemma read_lines: "flat_config d \<Longrightarrow> read_toml_lines (map (\<lambda>(key, v). key @ '' = '' @ toml_value py_str v) d @ [[]]) = Some d"
proof (induction d)
  case (Cons p d)
  obtain k v where p: "p = (k, v)" by (cases p)
  with Cons.prems have kv: "k \<noteq> []" "list_all bare k" "flat_value v" "flat_config d" by (auto simp: flat_config_def)
  from read_line [OF kv(1-3), of py_str] Cons.IH [OF kv(4)] kv(1) p show ?case by simp
qed simp

lemma bare_line: "list_all bare k \<Longrightarrow> NL \<notin> set k"
proof -
  have "\<not> bare NL" by (simp add: bare_def is_alpha_def is_lower_def is_upper_def is_digit_def less_eq_char_def)
  then show "list_all bare k \<Longrightarrow> NL \<notin> set k" by (rule list_all_notin [rotated])
qed

lemma split_lines: "\<forall>l \<in> set ls. c \<notin> set l \<Longrightarrow> ls \<noteq> [] \<Longrightarrow> split_on c (join [c] ls @ [c]) = ls @ [[]]"
proof (induction ls)
  case (Cons l ls)
  show ?case
  proof (cases ls)
    case Nil
    with Cons.prems show ?thesis by (simp add: split_on_append)
  next
    case (Cons m ms)
    with Cons.IH Cons.prems show ?thesis by (simp add: join_Cons split_on_append)
  qed
qed simp

section \<open>Properties\<close>

lemma dump_read:
  assumes "flat_config d"
  shows "read_toml (dump_toml py_str d) = Some d"
proof (cases "d = []")
  case True
  then show ?thesis by (simp add: dump_toml_def read_toml_def)
next
  case False
  let ?ls = "map (\<lambda>(key, v). key @ '' = '' @ toml_value py_str v) d"
  have "\<forall>l \<in> set ?ls. NL \<notin> set l" using assms bare_line value_line by (fastforce simp: flat_config_def)
  from split_lines [OF this] False read_lines [OF assms, of py_str] show ?thesis by (simp add: dump_toml_def read_toml_def Let_def)
qed

text \<open>A configuration file that was written is read as it was. For bare keys and strings, booleans and integers as values, whatever
  characters the strings have, the text that is written is read by the rules of TOML as the same settings in the same order.\<close>

theorem config_round_trip:
  assumes "flat_config d"
  shows "read_toml (dump_toml py_str d) = Some d"
  by (rule dump_read [OF assms])

theorem config_round_trip_witness:
  "read_toml (dump_toml (\<lambda>_. []) [(''url'', PStr (''a'' @ [DQ, BS, NL] @ ''b'')), (''keep_logs'', PBool True), (''n'', PInt (-5))]) =
     Some [(''url'', PStr (''a'' @ [DQ, BS, NL] @ ''b'')), (''keep_logs'', PBool True), (''n'', PInt (-5))]"
  by (rule config_round_trip) (simp add: flat_config_def bare_def is_alpha_def is_lower_def is_upper_def is_digit_def less_eq_char_def)

text \<open>What the filter keeps.\<close>

lemma collect_args_kept: "arg \<in> set (collect_args b args) \<Longrightarrow> \<not> ignored arg"
  by (induction b args rule: collect_args.induct) (auto split: if_splits)

lemma collect_args_subseq: "subseq (collect_args b args) args"
  by (induction b args rule: collect_args.induct) auto

lemma collect_args_all: "\<forall>arg \<in> set args. \<not> ignored arg \<Longrightarrow> collect_args False args = args"
  by (induction args) auto

text \<open>The flags that the server passes on to the consumer process. The result is a subsequence of the arguments without any flag that the server keeps for
  itself, and arguments without such flags are all passed on. But a flag is dropped together with whatever follows it, even where it takes no value:
  of \<open>--keep-logs --url U\<close> the flag \<open>--url\<close> is dropped as the value of \<open>--keep-logs\<close>, and the URL itself is passed on.\<close>

theorem args_forwarded:
  "(\<forall>arg \<in> set (collect_command_args args). \<not> ignored arg) \<and> subseq (collect_command_args args) args
   \<and> ((\<forall>arg \<in> set args. \<not> ignored arg) \<longrightarrow> collect_command_args args = args)
   \<and> (\<not> ignored url \<longrightarrow> collect_command_args (''--keep-logs'' # ''--url'' # url # args) = url # collect_command_args args)"
proof -
  have "ignored ''--keep-logs''" by (simp add: ignored_def SERVER_IGNORE_FLAGS_def)
  then show ?thesis using collect_args_kept collect_args_subseq collect_args_all by (auto simp: collect_command_args_def)
qed

theorem args_forwarded_witness:
  "collect_command_args [''--keep-logs'', ''--url'', ''postgres:'', ''-x''] = [''postgres:'', ''-x'']"
proof -
  have "\<not> ignored ''postgres:''" "\<not> ignored ''-x''" by (simp_all add: ignored_def SERVER_IGNORE_FLAGS_def)
  then show ?thesis
    using args_forwarded [of "[''-x'']" "''postgres:''", THEN conjunct2, THEN conjunct2, THEN conjunct2, rule_format]
    by (simp only: collect_command_args_def collect_args.simps if_False simp_thms)
qed

text \<open>A mode that was resolved stays: the next start without a flag resolves to the same mode.\<close>

definition set_mode :: "ingest_mode \<Rightarrow> pydict \<Rightarrow> pydict" where
  "set_mode m d = dset ''mode'' (PStr (mode_value m)) d"

lemma parse_mode_value: "parse_ingest_mode repr (mode_value m) = Inr m"
  by (cases m) (simp_all add: mode_value_def parse_ingest_mode_def lower_def lower_char_def)

lemma mode_persists:
  assumes "data_dir \<noteq> []" "load_config tomli data_dir file = Inr config" "\<And>d. tomli (dump_toml py_str (set_mode m d)) = Inr (set_mode m d)"
    "resolve_ingest_mode py_str tomli repr explicit config data_dir file = (Inr m, file')"
  shows "\<exists>config'. load_config tomli data_dir file' = Inr config' \<and>
    resolve_ingest_mode py_str tomli repr None config' data_dir file' = (Inr m, file')"
proof -
  have later: "\<exists>config'. load_config tomli data_dir (Some (dump_toml py_str (set_mode m d))) = Inr config' \<and>
      resolve_ingest_mode py_str tomli repr None config' data_dir (Some (dump_toml py_str (set_mode m d))) = (Inr m, Some (dump_toml py_str (set_mode m d)))" for d
  proof -
    have g: "cfg_get_string py_str (set_mode m d) ''mode'' [] = mode_value m" by (simp add: cfg_get_string_def set_mode_def update_Some_unfold)
    have ne: "mode_value m \<noteq> []" by (cases m) (simp_all add: mode_value_def)
    show ?thesis using assms(1,3) g ne by (simp add: load_config_def resolve_ingest_mode_def parse_mode_value)
  qed
  have "(file' = file \<and> explicit = None) \<or> (\<exists>d. file' = Some (dump_toml py_str (set_mode m d)))"
  proof (cases explicit)
    case (Some n)
    with assms(2,4) show ?thesis
      by (auto simp: resolve_ingest_mode_def set_config_value_def write_config_def set_mode_def)
  next
    case None
    show ?thesis
    proof (cases "cfg_get_string py_str config ''mode'' [] = []")
      case True
      with assms(2,4) None show ?thesis
        by (auto simp: resolve_ingest_mode_def set_config_value_def write_config_def set_mode_def)
    next
      case False
      with assms(4) None show ?thesis by (auto simp: resolve_ingest_mode_def)
    qed
  qed
  with later assms(2,4) show ?thesis by blast
qed

end
