(* ===== verification/Spec2Isabelle.thy ===== *)
theory Spec2Isabelle
  imports Delivery ImportCmd Importer Snowflake ConnStr Kafka EventHub S3 FileDriver Control Config
begin

text \<open>
  A verification development for EDS (\<open>src/eds\<close>), the service that streams database change events from NATS
  JetStream into a destination database, and imports whole tables from exported files.

  \<^bold>\<open>The program.\<close> A consumer takes messages from a stream (\<open>consumer/consumer.py\<close>) and puts them into a queue; the
  bufferer (\<open>consumer/bufferer.py\<close>) drains it and hands every message to the batch processor
  (\<open>consumer/batch_processor.py\<close>), which decodes it into a change event (\<open>dbchange.py\<close>), asks the schema registry
  (\<open>registry/__init__.py\<close>) whether the destination table has to be migrated, gives it to the driver
  (\<open>drivers/*\<close>), flushes the driver by size and latency, and acknowledges or returns the
  messages. The registry keeps schemas and versions in a cache (\<open>util/cache.py\<close>) and a tracker database
  (\<open>tracker/__init__.py\<close>), and fetches them over HTTP (\<open>util/http.py\<close>). An import (\<open>cmd/import_cmd.py\<close>,
  \<open>cmd/import_client.py\<close>) exports tables, downloads their files and replays them (\<open>importer/__init__.py\<close>) into the
  driver; with recovery it retries, and skips the tables whose completion marker is in the tracker.

  Three processes run the service. The supervisor (\<open>_run_wrapper_loop\<close> of \<open>cmd/server.py\<close>) starts the server as its child and
  starts it again when it fails. The server (\<open>_run_control_plane\<close>) opens a session with the API, receives notifications
  (\<open>notification/__init__.py\<close>, \<open>cmd/notification_wiring.py\<close>) and starts the consumer process (\<open>cmd/fork.py\<close>), which
  holds consumer and driver and takes commands from a loopback server (\<open>cmd/loopback.py\<close>). Exit codes
  (\<open>cmd/exit_codes.py\<close>) tell a parent what to do next.

  \<^bold>\<open>Conventions.\<close> A Python \<open>str\<close> is the list of the bytes of its UTF-8 encoding, a \<open>dict\<close> an association list in insertion
  order, a raised exception an \<open>Inl\<close>; \<open>int\<close> is unbounded, a float of a JSON text is its exact decimal value. What is
  outside the repository, the databases, the stream, the file system, HTTP, clocks, is a record of operations on an
  abstract world, so the theorems hold for every behaviour of it, all failures included. Locks are left out where
  every operation of a component runs under one lock.

  \<^bold>\<open>The theories\<close>, from the bottom:
  \<^item> \<open>Prelude\<close>: exceptions, sequencing, strings, numerals, dictionaries.
  \<^item> \<open>Tracker\<close>: \<open>util/cache.py\<close>, \<open>tracker/__init__.py\<close>. Both are interpreted as the locale \<open>ttl_store\<close>. Values are
    read back until their deadline, prefix deletion is exact, the sweeper is invisible.
  \<^item> \<open>GoFloat\<close>, \<open>GoJson\<close>, \<open>JsonRound\<close>: \<open>util/gofloat.py\<close>, \<open>util/gojson.py\<close>, \<open>util/gostruct.py\<close> and \<open>json.loads\<close>. A
    marshalled value parses back. The parser has the length of the text as fuel, which is enough for every text, since
    each value consumes a character.
  \<^item> \<open>Schema\<close>: \<open>schema.py\<close>, \<open>util/db.py\<close>. Columns, JSON form of a schema, the schema of a database.
  \<^item> \<open>Registry\<close>: \<open>registry/__init__.py\<close>, \<open>util/http.py\<close>. The registry refines a persistent map; retries are bounded.
  \<^item> \<open>Events\<close>: \<open>dbchange.py\<close>, \<open>util/batcher.py\<close>, \<open>util/optimize.py\<close>. Decoding, and the collapse of a batch, which
    keeps its effect on the destination if no two tables share a group.
  \<^item> \<open>Consumer\<close>: \<open>consumer/batch_processor.py\<close>, \<open>bufferer.py\<close>, \<open>config.py\<close> and the schema update of
    \<open>consumer.py\<close>. The processor records its calls; its traces refine an inductive specification of one message
    and one flush, from which at-least-once delivery follows for every run.
  \<^item> \<open>Recovery\<close>: the state machine \<open>run_with_recovery\<close> of \<open>cmd/import_cmd.py\<close> with polling, backoff and error classes. Its
    loop ends because every round consumes a step of the backoff ladder.
  \<^item> \<open>ExportInfo\<close>, \<open>ImportCmd\<close>: the import command around that state machine. The export API and the downloads of
    \<open>cmd/import_client.py\<close>, the calendar and the RFC 3339 texts of the export times, which both the import and the consumer process
    (\<open>_load_table_export_info\<close> of \<open>cmd/fork.py\<close>) read back as they were stored; \<open>run_import_command\<close>, \<open>_do_import\<close> and
    \<open>_do_import_with_recovery\<close>, with exit codes, directories, markers and the record of failed tables. A successful run leaves
    no marker; a resumed one loses the export times of the tables that were finished before it.
  \<^item> \<open>Sql\<close>: \<open>util/sql.py\<close>, JSON timestamps, and a lexer for the four dialects with the locale \<open>sql_dialect\<close>: quoting
    laws, and what whole statements read as. \<open>PgSql\<close>, \<open>MySqlText\<close>, \<open>MsSql\<close>, \<open>SfSql\<close> model
    \<open>drivers/*/sql.py\<close> and interpret the locale: whatever the data, a statement is read as the intended tokens, or
    the exact condition under which it is not.
  \<^item> \<open>Sink\<close>: what the consumer relies on in a driver that buffers, as the locales \<open>sink\<close> and \<open>keeping_sink\<close>.
  \<^item> \<open>SqlBase\<close>: \<open>drivers/sql_base.py\<close> and the drivers \<open>postgresql\<close>, \<open>mysql\<close>, \<open>sqlserver\<close> as its hooks: lifecycle,
    streaming, migration, import. They are keeping sinks: no event is lost, repeated or reordered.
  \<^item> \<open>Snowflake\<close>: \<open>drivers/snowflake/snowflake.py\<close>. A sink whose batch does not survive a failed flush; the planned
    statement count is what Snowflake reads; inserted rows are remembered for a day.
  \<^item> \<open>Hash\<close>, \<open>Kafka\<close>: \<open>util/hash.py\<close> (FNV-1a is the hash on 32-bit words) and \<open>drivers/kafka/__init__.py\<close>. Messages of a row
    go to one partition in order; a flush ends, keeps its buffer when it raises, and loses it when there is no leader
    for ten seconds.
  \<^item> \<open>EventHub\<close>: \<open>drivers/eventhub/__init__.py\<close>. The plan of a flush is the division into maximal runs of one partition
    key; the driver is a sink.
  \<^item> \<open>S3\<close>: \<open>drivers/s3/__init__.py\<close>. The threads of a flush are an order of its uploads that a pool of \<open>k\<close> threads allows;
    what is stored under every such order, and where changes of a row race. The driver is a sink.
  \<^item> \<open>FileDriver\<close>: \<open>drivers/file/__init__.py\<close> and the parts of \<open>os.path\<close> it uses. Which file holds which event, and how a
    primary key leaves the directory.
  \<^item> \<open>GoUrl\<close>, \<open>UrlRound\<close>: \<open>util/gourl.py\<close>: escaping, multimaps, parser and printer, which are inverse to each other on the
    URLs that the parser produces.
  \<^item> \<open>DriverConf\<close>, \<open>ConnStr\<close>: \<open>driver.py\<close>, \<open>drivers/__init__.py\<close> and the connection strings of the drivers: configuration
    fields, the driver registries, and that what is configured is what is connected to.
  \<^item> \<open>Delivery\<close>: the consumer over a SQL driver. Acknowledged messages are in committed transactions.
  \<^item> \<open>Ndjson\<close>: \<open>util/crdb.py\<close>, \<open>list_dir\<close> of \<open>util/file.py\<close>, the line decoder of \<open>util/json.py\<close>.
  \<^item> \<open>Importer\<close>: \<open>importer/__init__.py\<close>. The calls of a run are recorded; completion markers follow flushes, nothing of a
    table follows its marker, and a normal run has replayed every line read of every file, up to its end or to a read error that the
    decoder takes for the end. The loop over a file ends because every step consumes a line. The SQL drivers satisfy the contract of
    its handlers: at every marker exactly the statements of the records given so far have been executed.
  \<^item> \<open>Wrapper\<close>: the supervisor as a step relation over its main thread, its queue of events, its children and the reports of their
    exits. Invariants of the reachable states, that it can always come to an end, and a race of a restart.
  \<^item> \<open>Durable\<close>: \<open>consumer/credentials.py\<close>, \<open>consumer/connection.py\<close> and the life of a consumer (\<open>consumer/consumer.py\<close>):
    create, start, pause, unpause, stop. The durable consumer it asks for stays within its credentials and starts at the earliest export
    time. A stop is a sequence of steps; the stop that the consumer schedules for itself takes them one by one while others run.
  \<^item> \<open>Fork\<close>: the consumer process. Its loop over commands, fatal errors, lost connections and signals refines a specification
    without consumer and client, for every outcome of set-up, creation, subscription and clean-up; what it has opened is closed in
    order, but the driver can be closed before the consumer's own stop has ended.
  \<^item> \<open>Handlers\<close>, \<open>Notify\<close>: the closures of \<open>cmd/notification_wiring.py\<close> and the dispatch of \<open>notification/__init__.py\<close> with the replies
    of \<open>notification/dtos.py\<close>. What an import request does for every exit code, and which messages change the
    configuration.
  \<^item> \<open>Control\<close>: the session loop of the server and the routes of the loopback server. Its contract on every outcome of its
    calls, and what a request does to the consumer process through notification, loopback server and loop.
  \<^item> \<open>Config\<close>: \<open>cmd/config.py\<close>, the flag filter of \<open>cmd/args.py\<close>, the mode of ingestion. A configuration that is written is read back.

  \<^bold>\<open>Bounds.\<close> Loops of the source are total functions with a measure. The waiting loops of the bufferer, of the poll and of the
  HTTP retry take the sequence of what arrives as an argument; nothing is assumed about its length. The retry loop of the
  Kafka driver is a partial function, which is proved to end if the clock runs.

  The supervisor is a relation, so nothing bounds its runs; the loops of the consumer process and of the session loop take what
  happens in their rounds as an argument and give \<open>None\<close> as long as they would wait.

  \<^bold>\<open>Not modelled.\<close> The declarations of the command line and its prompts (\<open>cmd/root.py\<close>, \<open>cmd/enroll.py\<close>, \<open>cmd/download.py\<close>), the
  requests of the session API (\<open>cmd/session.py\<close>; its headers and errors are in \<open>ExportInfo\<close>), which are parameters of the session loop, the upgrade and the metrics, whose
  work is done by libraries, the fetch loop and the heartbeat of the consumer and the timers of the notification runner, which are
  endless calls of the NATS client, the database adapters behind the \<open>SqlDb\<close> seam, and small helpers
  (\<open>util/mask.py\<close>, \<open>util/sysinfo.py\<close> and others). The components of the manifest say why for each.
\<close>

end
